(* ===== verification/Prelude.thy ===== *)
theory Prelude
  imports Main "HOL-Library.Sublist" "HOL-Library.Multiset"
begin

section \<open>Shared vocabulary of the development\<close>

text \<open>
  What every component theory uses: the ways a Go program panics, results that are a panic
  or a value, checked slice access, Go's map ranges (whose order the runtime chooses), the
  contracts of a FIFO queue, a keyed store and a set as locales with their client lemmas, and generic list facts.
\<close>

named_theorems go_simps \<open>unfolding rules of the Go primitives\<close>
named_theorems inv_intros \<open>introduction rules: an operation keeps its component's invariant\<close>

subsection \<open>Panics and results\<close>

text \<open>The run-time panics the modelled code can raise, and a user-raised panic value.\<close>

datatype go_panic =
    NilDeref
  | IndexOutOfRange
  | SliceBounds
  | MakeSlice
  | DivideByZero
  | TypeAssertion
  | CloseOfClosed
  | CloseOfNil

type_synonym 'a res = "go_panic + 'a"

definition bindR :: "'a res \<Rightarrow> ('a \<Rightarrow> 'b res) \<Rightarrow> 'b res" where
  "bindR r f = (case r of Inl p \<Rightarrow> Inl p | Inr x \<Rightarrow> f x)"

lemma bindR_simps [simp]:
  "bindR (Inl p) f = Inl p"
  "bindR (Inr x) f = f x"
  by (simp_all add: bindR_def)

lemma bindR_eq_Inr: "bindR r f = Inr y \<longleftrightarrow> (\<exists>x. r = Inr x \<and> f x = Inr y)"
  by (cases r) auto

lemma bindR_assoc: "bindR (bindR r f) g = bindR r (\<lambda>x. bindR (f x) g)"
  by (cases r) auto

subsection \<open>Slices\<close>

text \<open>Reading and writing \<open>xs[i]\<close>: Go panics outside the bounds.\<close>

definition go_get :: "'a list \<Rightarrow> nat \<Rightarrow> 'a res" where
  "go_get xs i = (if i < length xs then Inr (xs ! i) else Inl IndexOutOfRange)"

definition go_set :: "'a list \<Rightarrow> nat \<Rightarrow> 'a \<Rightarrow> 'a list res" where
  "go_set xs i v = (if i < length xs then Inr (xs[i := v]) else Inl IndexOutOfRange)"

text \<open>\<open>make([]T, n)\<close>: \<open>n\<close> copies of the zero value, a panic when \<open>n\<close> is negative.\<close>

definition go_make :: "'a \<Rightarrow> int \<Rightarrow> 'a list res" where
  "go_make z n = (if n < 0 then Inl MakeSlice else Inr (replicate (nat n) z))"

lemma go_get_ok [simp]: "i < length xs \<Longrightarrow> go_get xs i = Inr (xs ! i)"
  by (simp add: go_get_def)

lemma go_set_ok [simp]: "i < length xs \<Longrightarrow> go_set xs i v = Inr (xs[i := v])"
  by (simp add: go_set_def)

lemma go_make_ok [simp]: "0 \<le> n \<Longrightarrow> go_make z n = Inr (replicate (nat n) z)"
  by (simp add: go_make_def)

subsection \<open>Map ranges\<close>

text \<open>
  A Go map is a partial function with a finite domain. \<open>for k, v := range m\<close> visits every
  entry once, in an order the runtime chooses anew each time. An operation that ranges over a
  map takes that order as an argument \<open>ks\<close>; \<open>range_order m ks\<close> says the order is one
  the runtime may choose.
\<close>

definition range_order :: "('k \<rightharpoonup> 'v) \<Rightarrow> 'k list \<Rightarrow> bool" where
  "range_order m ks \<longleftrightarrow> distinct ks \<and> set ks = dom m"

definition range_values :: "('k \<rightharpoonup> 'v) \<Rightarrow> 'k list \<Rightarrow> 'v list" where
  "range_values m ks = List.map_filter m ks"

lemma range_orderD:
  assumes "range_order m ks"
  shows "distinct ks" and "set ks = dom m" and "finite (dom m)"
  using assms by (auto simp: range_order_def) (metis List.finite_set)

lemma distinct_singleton:
  assumes "distinct ks" "set ks = {i}"
  shows "ks = [i]"
proof (cases ks)
  case (Cons a l)
  then have "a = i" "set l \<subseteq> {i}" "a \<notin> set l" using assms by auto
  then have "set l = {}" using subset_singletonD by fastforce
  then show ?thesis using Cons \<open>a = i\<close> by simp
qed (use assms in simp)

lemma range_order_exists: "finite (dom m) \<Longrightarrow> \<exists>ks. range_order m ks"
  using finite_distinct_list by (fastforce simp: range_order_def)

lemma range_values_eq_map:
  "set ks \<subseteq> dom m \<Longrightarrow> range_values m ks = map (\<lambda>k. the (m k)) ks"
  by (induction ks) (auto simp: range_values_def List.map_filter_def)

lemma set_range_values:
  assumes "range_order m ks"
  shows "set (range_values m ks) = ran m"
proof -
  have ks: "set ks = dom m" using assms by (rule range_orderD)
  have "set (range_values m ks) = (\<lambda>k. the (m k)) ` dom m"
    by (simp add: range_values_eq_map ks)
  also have "\<dots> = ran m"
    by (force simp: ran_def dom_def image_iff)
  finally show ?thesis .
qed

lemma length_range_values:
  "range_order m ks \<Longrightarrow> length (range_values m ks) = card (dom m)"
  by (simp add: range_values_eq_map range_order_def) (metis distinct_card)

lemma range_values_empty: "range_order m ks \<Longrightarrow> range_values m ks = [] \<longleftrightarrow> m = Map.empty"
  by (simp add: range_order_def range_values_eq_map) (metis dom_eq_empty_conv set_empty)

subsection \<open>Wrapped indices\<close>

lemma mod_add_le_inj:
  fixes a i j m :: nat
  assumes "i \<le> j" "j < m" "(a + i) mod m = (a + j) mod m"
  shows "i = j"
proof -
  have "m dvd (a + j) - (a + i)"
    using assms by (subst mod_eq_dvd_iff_nat [symmetric]) auto
  then have "m dvd j - i" by simp
  then show ?thesis using assms(1,2) by (auto dest: dvd_imp_le)
qed

lemma mod_add_inj:
  fixes a i j m :: nat
  assumes "i < m" "j < m" "(a + i) mod m = (a + j) mod m"
  shows "i = j"
  using mod_add_le_inj [of i j m a] mod_add_le_inj [of j i m a] assms
  by (cases "i \<le> j") auto

subsection \<open>Counting list elements\<close>

definition tally :: "('a \<Rightarrow> bool) \<Rightarrow> 'a list \<Rightarrow> int" where
  "tally P xs = int (length (filter P xs))"

lemma tally_simps [simp]:
  "tally P [] = 0"
  "tally P (x # xs) = of_bool (P x) + tally P xs"
  "tally P (xs @ ys) = tally P xs + tally P ys"
  "0 \<le> tally P xs"
  by (simp_all add: tally_def)

lemma tally_update:
  "i < length xs \<Longrightarrow> tally P (xs[i := x]) = tally P xs + of_bool (P x) - of_bool (P (xs ! i))"
proof (induction xs arbitrary: i)
  case (Cons y ys)
  then show ?case by (cases i) auto
qed simp

lemma tally_replicate [simp]: "\<not> P x \<Longrightarrow> tally P (replicate n x) = 0"
  by (induction n) auto

lemma tally_zero: "tally P xs = 0 \<longleftrightarrow> (\<forall>x \<in> set xs. \<not> P x)"
  by (auto simp: tally_def filter_empty_conv)

subsection \<open>The contract of a FIFO queue\<close>

text \<open>
  The operations a client of a queue calls, with the list of pending items as abstraction.
  \<open>q_push\<close> may panic, so the contract includes that it does not.
\<close>

datatype 'a queue_op = OpPush 'a | OpPop

text \<open>Running a sequence of operations; \<open>OpPop\<close> records what it returned.\<close>

fun queue_run ::
  "('a \<Rightarrow> 'q \<Rightarrow> 'q res) \<Rightarrow> ('q \<Rightarrow> ('a option \<times> 'q) res) \<Rightarrow> 'q \<Rightarrow> 'a queue_op list \<Rightarrow> ('a option list \<times> 'q) res"
where
  "queue_run psh pp q [] = Inr ([], q)"
| "queue_run psh pp q (OpPush x # ops) = bindR (psh x q) (\<lambda>q'. queue_run psh pp q' ops)"
| "queue_run psh pp q (OpPop # ops) =
     bindR (pp q) (\<lambda>(r, q'). bindR (queue_run psh pp q' ops) (\<lambda>(rs, q''). Inr (r # rs, q'')))"

text \<open>The specification: the same operations on the list of pending items.\<close>

fun list_run :: "'a list \<Rightarrow> 'a queue_op list \<Rightarrow> 'a option list \<times> 'a list" where
  "list_run xs [] = ([], xs)"
| "list_run xs (OpPush x # ops) = list_run (xs @ [x]) ops"
| "list_run [] (OpPop # ops) = (let (rs, ys) = list_run [] ops in (None # rs, ys))"
| "list_run (x # xs) (OpPop # ops) = (let (rs, ys) = list_run xs ops in (Some x # rs, ys))"

locale fifo_queue =
  fixes invar :: "'q \<Rightarrow> bool"
    and pending :: "'q \<Rightarrow> 'a list"
    and q_push :: "'a \<Rightarrow> 'q \<Rightarrow> 'q res"
    and q_pop :: "'q \<Rightarrow> ('a option \<times> 'q) res"
  assumes push_law: "invar q \<Longrightarrow> \<exists>q'. q_push x q = Inr q' \<and> invar q' \<and> pending q' = pending q @ [x]"
    and pop_empty_law: "invar q \<Longrightarrow> pending q = [] \<Longrightarrow> q_pop q = Inr (None, q)"
    and pop_law: "invar q \<Longrightarrow> pending q = x # xs \<Longrightarrow>
      \<exists>q'. q_pop q = Inr (Some x, q') \<and> invar q' \<and> pending q' = xs"
begin

text \<open>Every sequence of pushes and pops returns what the list specification returns.\<close>

lemma run_refines_list:
  "invar q \<Longrightarrow>
   \<exists>q'. queue_run q_push q_pop q ops = Inr (fst (list_run (pending q) ops), q')
      \<and> invar q' \<and> pending q' = snd (list_run (pending q) ops)"
proof (induction ops arbitrary: q)
  case Nil
  then show ?case by simp
next
  case (Cons op ops)
  show ?case
  proof (cases op)
    case (OpPush x)
    obtain q1 where "q_push x q = Inr q1" "invar q1" "pending q1 = pending q @ [x]"
      using push_law [OF Cons.prems] by blast
    with Cons.IH [of q1] OpPush show ?thesis by simp
  next
    case OpPop
    show ?thesis
    proof (cases "pending q")
      case Nil
      with Cons.IH [OF Cons.prems] OpPop pop_empty_law [OF Cons.prems Nil]
      show ?thesis by (auto simp: split_beta)
    next
      case (Cons x xs)
      obtain q1 where "q_pop q = Inr (Some x, q1)" "invar q1" "pending q1 = xs"
        using pop_law [OF Cons.prems Cons] by blast
      with Cons.IH [of q1] OpPop Cons show ?thesis by (auto simp: split_beta)
    qed
  qed
qed

end

text \<open>What was pushed is what was popped followed by what is pending.\<close>

definition pushed_by :: "'a queue_op list \<Rightarrow> 'a list" where
  "pushed_by ops = List.map_filter (\<lambda>op. case op of OpPush x \<Rightarrow> Some x | OpPop \<Rightarrow> None) ops"

definition popped_by :: "'a option list \<Rightarrow> 'a list" where
  "popped_by rs = List.map_filter id rs"

lemma list_run_conserves:
  "xs @ pushed_by ops = popped_by (fst (list_run xs ops)) @ snd (list_run xs ops)"
  by (induction xs ops rule: list_run.induct)
    (auto simp: pushed_by_def popped_by_def List.map_filter_def split_beta)

subsection \<open>The contract of a keyed store\<close>

datatype ('k, 'v) store_op = OpSet 'k 'v | OpDelete 'k

text \<open>What the last operation on a key says about it, starting from \<open>v\<close>.\<close>

fun last_write :: "'v option \<Rightarrow> 'k \<Rightarrow> ('k, 'v) store_op list \<Rightarrow> 'v option" where
  "last_write v k [] = v"
| "last_write v k (OpSet k' v' # ops) = last_write (if k' = k then Some v' else v) k ops"
| "last_write v k (OpDelete k' # ops) = last_write (if k' = k then None else v) k ops"

fun store_run :: "('k \<Rightarrow> 'v \<Rightarrow> 's \<Rightarrow> 's) \<Rightarrow> ('k \<Rightarrow> 's \<Rightarrow> 's) \<Rightarrow> 's \<Rightarrow> ('k, 'v) store_op list \<Rightarrow> 's" where
  "store_run st dl s [] = s"
| "store_run st dl s (OpSet k v # ops) = store_run st dl (st k v s) ops"
| "store_run st dl s (OpDelete k # ops) = store_run st dl (dl k s) ops"

locale keyed_store =
  fixes invar :: "'s \<Rightarrow> bool"
    and st_get :: "'k \<Rightarrow> 's \<Rightarrow> 'v option"
    and st_set :: "'k \<Rightarrow> 'v \<Rightarrow> 's \<Rightarrow> 's"
    and st_del :: "'k \<Rightarrow> 's \<Rightarrow> 's"
  assumes set_law: "invar s \<Longrightarrow> st_get k' (st_set k v s) = (if k' = k then Some v else st_get k' s)"
    and del_law: "invar s \<Longrightarrow> st_get k' (st_del k s) = (if k' = k then None else st_get k' s)"
    and set_invar: "invar s \<Longrightarrow> invar (st_set k v s)"
    and del_invar: "invar s \<Longrightarrow> invar (st_del k s)"
begin

lemma run_last_write:
  "invar s \<Longrightarrow> invar (store_run st_set st_del s ops)
     \<and> st_get k (store_run st_set st_del s ops) = last_write (st_get k s) k ops"
proof (induction ops arbitrary: s)
  case (Cons op ops)
  then show ?case by (cases op) (auto simp: set_law del_law set_invar del_invar)
qed simp

end

subsection \<open>The contract of a set with keys\<close>

datatype 'a set_op = OpAdd 'a | OpRemove 'a | OpClear

text \<open>The operations on an implementation, with what each removal reported, and on a set.\<close>

fun impl_run :: "('a \<Rightarrow> 's \<Rightarrow> 's) \<Rightarrow> ('a \<Rightarrow> 's \<Rightarrow> (bool \<times> 's) res) \<Rightarrow> ('s \<Rightarrow> 's) \<Rightarrow> 's \<Rightarrow> 'a set_op list \<Rightarrow> (bool list \<times> 's) res" where
  "impl_run ad rm cl s [] = Inr ([], s)"
| "impl_run ad rm cl s (OpAdd v # ops) = impl_run ad rm cl (ad v s) ops"
| "impl_run ad rm cl s (OpClear # ops) = impl_run ad rm cl (cl s) ops"
| "impl_run ad rm cl s (OpRemove v # ops) =
     bindR (rm v s) (\<lambda>(b, s'). bindR (impl_run ad rm cl s' ops) (\<lambda>(bs, s''). Inr (b # bs, s'')))"

fun set_run :: "'a set \<Rightarrow> 'a set_op list \<Rightarrow> bool list \<times> 'a set" where
  "set_run S [] = ([], S)"
| "set_run S (OpAdd v # ops) = set_run (insert v S) ops"
| "set_run S (OpClear # ops) = set_run {} ops"
| "set_run S (OpRemove v # ops) = (let (bs, T) = set_run (S - {v}) ops in ((v \<in> S) # bs, T))"

locale keyed_set =
  fixes invar :: "'s \<Rightarrow> bool"
    and ids :: "'s \<Rightarrow> 'k set"
    and key :: "'a \<Rightarrow> 'k"
    and s_add :: "'a \<Rightarrow> 's \<Rightarrow> 's"
  assumes add_invar: "invar s \<Longrightarrow> invar (s_add x s)"
    and add_ids: "invar s \<Longrightarrow> ids (s_add x s) = insert (key x) (ids s)"
begin

lemma adds: "invar s \<Longrightarrow> invar (fold s_add xs s) \<and> ids (fold s_add xs s) = ids s \<union> key ` set xs"
  by (induction xs arbitrary: s) (simp_all add: add_invar add_ids)

end

text \<open>A set of values that are their own keys, with removals that report whether the value was there.\<close>

locale reporting_set = keyed_set invar ids "\<lambda>x. x" s_add
  for invar :: "'s \<Rightarrow> bool" and ids :: "'s \<Rightarrow> 'a set" and s_add :: "'a \<Rightarrow> 's \<Rightarrow> 's" +
  fixes s_remove :: "'a \<Rightarrow> 's \<Rightarrow> (bool \<times> 's) res"
    and s_clear :: "'s \<Rightarrow> 's"
  assumes remove_law: "invar s \<Longrightarrow> \<exists>s'. s_remove x s = Inr (x \<in> ids s, s') \<and> invar s' \<and> ids s' = ids s - {x}"
    and clear_law: "invar s \<Longrightarrow> invar (s_clear s) \<and> ids (s_clear s) = {}"
begin

lemma run_refines_set:
  "invar s \<Longrightarrow> \<exists>s'. impl_run s_add s_remove s_clear s ops = Inr (fst (set_run (ids s) ops), s')
     \<and> invar s' \<and> ids s' = snd (set_run (ids s) ops)"
proof (induction ops arbitrary: s)
  case (Cons op ops)
  show ?case
  proof (cases op)
    case (OpAdd v)
    then show ?thesis using Cons.IH [OF add_invar [OF Cons.prems], of v] add_ids [OF Cons.prems] by simp
  next
    case (OpRemove v)
    obtain s1 where s1: "s_remove v s = Inr (v \<in> ids s, s1)" "invar s1" "ids s1 = ids s - {v}"
      using remove_law [OF Cons.prems] by blast
    then show ?thesis using Cons.IH [OF s1(2)] OpRemove by (auto simp: split_beta)
  next
    case OpClear
    then show ?thesis using Cons.IH [of "s_clear s"] clear_law [OF Cons.prems] by simp
  qed
qed simp

end

subsection \<open>Labelled runs and simulation\<close>

text \<open>A run of a labelled step relation, and its trace of labels.\<close>

inductive run :: "('s \<Rightarrow> 'l \<Rightarrow> 's \<Rightarrow> bool) \<Rightarrow> 's \<Rightarrow> 'l list \<Rightarrow> 's \<Rightarrow> bool" for step where
  run_nil: "run step s [] s"
| run_snoc: "run step s ls t \<Longrightarrow> step t l u \<Longrightarrow> run step s (ls @ [l]) u"

lemma run_invariant:
  assumes "run step s ls t" "I s" "\<And>t l u. I t \<Longrightarrow> step t l u \<Longrightarrow> I u"
  shows "I t"
  using assms by (induction rule: run.induct) auto

lemma run_append: "run step t ls' u \<Longrightarrow> run step s ls t \<Longrightarrow> run step s (ls @ ls') u"
proof (induction rule: run.induct)
  case (run_snoc t ls' u l v)
  then show ?case using run.run_snoc [of step s "ls @ ls'" u l v] by simp
qed simp

lemma run_single: "step s l t \<Longrightarrow> run step s [l] t"
  using run.run_snoc [OF run.run_nil, of step s l t] by simp

lemma run_Cons: "step s l t \<Longrightarrow> run step t ls u \<Longrightarrow> run step s (l # ls) u"
  using run_append [of step t ls u s "[l]"] run_single [of step s l t] by simp

locale simulation =
  fixes cstep :: "'c \<Rightarrow> 'l \<Rightarrow> 'c \<Rightarrow> bool"
    and astep :: "'a \<Rightarrow> 'l \<Rightarrow> 'a \<Rightarrow> bool"
    and rel :: "'c \<Rightarrow> 'a \<Rightarrow> bool"
  assumes sim: "rel c a \<Longrightarrow> cstep c l c' \<Longrightarrow> \<exists>a'. astep a l a' \<and> rel c' a'"
begin

lemma run_simulated:
  assumes "run cstep c ls c'" "rel c a"
  shows "\<exists>a'. run astep a ls a' \<and> rel c' a'"
  using assms
proof (induction rule: run.induct)
  case run_nil
  then show ?case by (blast intro: run.run_nil)
next
  case (run_snoc c ls d l e)
  then obtain d' where "run astep a ls d'" "rel d d'" by blast
  moreover from sim [OF \<open>rel d d'\<close> run_snoc.hyps(2)]
  obtain e' where "astep d' l e'" "rel e e'" by blast
  ultimately show ?case using run.run_snoc [of astep a ls d' l e'] by blast
qed

end

end
