(* ===== verification/RingBuffer.thy ===== *)
theory RingBuffer
  imports Prelude
begin

section \<open>The growing ring buffer (ringbuffer/ringbuffer.go)\<close>

text \<open>
  \<open>RingBuffer[T]\<close>: a slice of \<open>bmod\<close> slots, of which the slots after \<open>head\<close> up to
  \<open>tail\<close> hold the pending items; \<open>Push\<close> doubles the slice when it would run full.
  Every method holds the mutex for its whole body, so each is one atomic operation on the
  record. \<open>z\<close> is the zero value of \<open>T\<close>. Indices are \<open>nat\<close> (the slice must fit in
  memory, so they stay below \<open>2 ^ 63\<close>); the argument \<open>n\<close> of \<open>PopN\<close> is a signed
  integer and may be negative.
\<close>

record 'a buffer =
  items :: "'a list"
  bhead :: nat
  btail :: nat
  bmod :: nat

record 'a ring_buffer =
  rb_len :: int
  content :: "'a buffer"

definition rb_New :: "'a \<Rightarrow> int \<Rightarrow> 'a ring_buffer res" where
  "rb_New z sz =
     bindR (go_make z sz) (\<lambda>xs.
       Inr \<lparr>rb_len = 0, content = \<lparr>items = xs, bhead = 0, btail = 0, bmod = nat sz\<rparr>\<rparr>)"

text \<open>The copy loop of \<open>Push\<close>: \<open>newBuff[i] = items[(tail + i) % mod]\<close> for \<open>i < mod\<close>.\<close>

function rb_copy :: "'a buffer \<Rightarrow> nat \<Rightarrow> 'a list \<Rightarrow> 'a list res" where
  "rb_copy c i newBuff =
     (if i < bmod c then
        bindR (go_get (items c) ((btail c + i) mod bmod c)) (\<lambda>x.
        bindR (go_set newBuff i x) (\<lambda>newBuff'. rb_copy c (Suc i) newBuff'))
      else Inr newBuff)"
  by pat_completeness auto
termination
  by (relation "measure (\<lambda>(c, i, newBuff). bmod c - i)") auto

declare rb_copy.simps [simp del]

definition rb_grow :: "'a \<Rightarrow> 'a buffer \<Rightarrow> 'a buffer res" where
  "rb_grow z c =
     (let sz = bmod c * 2 in
      bindR (go_make z (int sz)) (\<lambda>newBuff.
      bindR (rb_copy c 0 newBuff) (\<lambda>newBuff'.
        Inr \<lparr>items = newBuff', bhead = 0, btail = bmod c, bmod = sz\<rparr>)))"

definition rb_Push :: "'a \<Rightarrow> 'a \<Rightarrow> 'a ring_buffer \<Rightarrow> 'a ring_buffer res" where
  "rb_Push z item rb =
     (let c = content rb in
      if bmod c = 0 then Inl DivideByZero
      else let c1 = c\<lparr>btail := (btail c + 1) mod bmod c\<rparr> in
        bindR (if btail c1 = bhead c1 then rb_grow z c1 else Inr c1) (\<lambda>c2.
        bindR (go_set (items c2) (btail c2) item) (\<lambda>xs.
          Inr \<lparr>rb_len = rb_len rb + 1, content = c2\<lparr>items := xs\<rparr>\<rparr>)))"

definition rb_Len :: "'a ring_buffer \<Rightarrow> int" where
  "rb_Len rb = rb_len rb"

text \<open>\<open>None\<close> is the result \<open>(t, false)\<close> of an empty buffer.\<close>

definition rb_Pop :: "'a \<Rightarrow> 'a ring_buffer \<Rightarrow> ('a option \<times> 'a ring_buffer) res" where
  "rb_Pop z rb =
     (if rb_len rb = 0 then Inr (None, rb)
      else let c = content rb in
        if bmod c = 0 then Inl DivideByZero
        else let h = (bhead c + 1) mod bmod c in
          bindR (go_get (items c) h) (\<lambda>item.
          bindR (go_set (items c) h z) (\<lambda>xs.
            Inr (Some item, \<lparr>rb_len = rb_len rb - 1, content = c\<lparr>items := xs, bhead := h\<rparr>\<rparr>))))"

text \<open>
  The drain loop shared by \<open>PopN\<close> and \<open>PopNInto\<close>: for \<open>i < n\<close>, copy slot
  \<open>(head + 1 + i) % mod\<close> out and clear it. It returns the collected items and the slots.
\<close>

function rb_drain :: "'a \<Rightarrow> nat \<Rightarrow> nat \<Rightarrow> nat \<Rightarrow> nat \<Rightarrow> 'a list \<Rightarrow> 'a list \<Rightarrow> ('a list \<times> 'a list) res" where
  "rb_drain z h m n i out xs =
     (if i < n then
        (if m = 0 then Inl DivideByZero
         else let pos = (h + 1 + i) mod m in
           bindR (go_get xs pos) (\<lambda>item.
           bindR (go_set out i item) (\<lambda>out'.
           bindR (go_set xs pos z) (\<lambda>xs'. rb_drain z h m n (Suc i) out' xs'))))
      else Inr (out, xs))"
  by pat_completeness auto
termination
  by (relation "measure (\<lambda>(z, h, m, n, i, out, xs). n - i)") auto

declare rb_drain.simps [simp del]

definition rb_PopN :: "'a \<Rightarrow> int \<Rightarrow> 'a ring_buffer \<Rightarrow> ('a list option \<times> 'a ring_buffer) res" where
  "rb_PopN z n rb =
     (if rb_len rb = 0 then Inr (None, rb)
      else let c = content rb; n' = (if n \<ge> rb_len rb then rb_len rb else n) in
        bindR (go_make z n') (\<lambda>out.
        bindR (rb_drain z (bhead c) (bmod c) (nat n') 0 out (items c)) (\<lambda>(out', xs).
          Inr (Some out', \<lparr>rb_len = rb_len rb - n',
                           content = c\<lparr>items := xs, bhead := (bhead c + nat n') mod bmod c\<rparr>\<rparr>))))"

text \<open>
  \<open>PopNInto(dst, n)\<close>: \<open>dst\<close> is the slice's full capacity window, so \<open>length dst\<close> is
  \<open>cap(dst)\<close>; \<open>dst[:n]\<close> is its prefix, and panics for a negative \<open>n\<close>.
\<close>

definition rb_PopNInto :: "'a \<Rightarrow> 'a list \<Rightarrow> int \<Rightarrow> 'a ring_buffer \<Rightarrow> (('a list \<times> bool) \<times> 'a ring_buffer) res" where
  "rb_PopNInto z dst n rb =
     (if rb_len rb = 0 then Inr (([], False), rb)
      else let n' = (if n > rb_len rb then rb_len rb else n) in
        bindR (if int (length dst) < n' then go_make z n'
               else if n' < 0 then Inl SliceBounds else Inr (take (nat n') dst)) (\<lambda>out.
        let c = content rb in
        bindR (rb_drain z (bhead c) (bmod c) (nat n') 0 out (items c)) (\<lambda>(out', xs).
          Inr ((out', True), \<lparr>rb_len = rb_len rb - n',
                              content = c\<lparr>items := xs, bhead := (bhead c + nat n') mod bmod c\<rparr>\<rparr>))))"

subsection \<open>Invariant and abstraction\<close>

text \<open>The slot of the \<open>i\<close>-th pending item, and the pending items in order.\<close>

definition slot :: "'a buffer \<Rightarrow> nat \<Rightarrow> nat" where
  "slot c i = (bhead c + 1 + i) mod bmod c"

definition rb_items :: "'a ring_buffer \<Rightarrow> 'a list" where
  "rb_items rb = map (\<lambda>i. items (content rb) ! slot (content rb) i) [0..<nat (rb_len rb)]"

text \<open>
  The buffer is never full: one slot (the one at \<open>head\<close>) stays free, so that \<open>head = tail\<close>
  means empty.
\<close>

definition rb_inv :: "'a ring_buffer \<Rightarrow> bool" where
  "rb_inv rb \<longleftrightarrow>
     (let c = content rb in
      0 < bmod c \<and> length (items c) = bmod c \<and> bhead c < bmod c \<and>
      0 \<le> rb_len rb \<and> nat (rb_len rb) < bmod c \<and>
      btail c = (bhead c + nat (rb_len rb)) mod bmod c)"

subsection \<open>The loops\<close>

lemma rb_copy_eq:
  assumes "i \<le> bmod c" "length (items c) = bmod c" "bmod c \<le> length nb"
  shows "rb_copy c i nb =
     Inr (take i nb @ map (\<lambda>j. items c ! ((btail c + j) mod bmod c)) [i..<bmod c] @ drop (bmod c) nb)"
  using assms
proof (induction c i nb rule: rb_copy.induct)
  case (1 c i nb)
  show ?case
  proof (cases "i < bmod c")
    case True
    let ?x = "items c ! ((btail c + i) mod bmod c)"
    have get: "go_get (items c) ((btail c + i) mod bmod c) = Inr ?x"
      using True "1.prems" by simp
    have set: "go_set nb i ?x = Inr (nb[i := ?x])"
      using True "1.prems" by simp
    have "rb_copy c (Suc i) (nb[i := ?x]) =
      Inr (take (Suc i) (nb[i := ?x])
        @ map (\<lambda>j. items c ! ((btail c + j) mod bmod c)) [Suc i..<bmod c] @ drop (bmod c) (nb[i := ?x]))"
      using "1.IH" [OF True, of "nb[i := ?x]"] True "1.prems" by simp
    moreover have "take (Suc i) (nb[i := ?x]) = take i nb @ [?x]"
      using True "1.prems" by (simp add: take_Suc_conv_app_nth)
    ultimately show ?thesis
      using True get set by (simp add: rb_copy.simps [of c i] upt_rec [of i])
  next
    case False
    then show ?thesis using "1.prems" by (simp add: rb_copy.simps [of c])
  qed
qed

lemma rb_drain_ok:
  assumes "i \<le> n" "n \<le> length out" "n \<le> m" "length xs = m" "0 < m"
  shows "\<exists>xs'. rb_drain z h m n i out xs =
       Inr (take i out @ map (\<lambda>j. xs ! ((h + 1 + j) mod m)) [i..<n] @ drop n out, xs')
     \<and> length xs' = m
     \<and> (\<forall>p < m. xs' ! p = (if \<exists>j. i \<le> j \<and> j < n \<and> p = (h + 1 + j) mod m then z else xs ! p))"
  using assms
proof (induction z h m n i out xs rule: rb_drain.induct)
  case (1 z h m n i out xs)
  show ?case
  proof (cases "i < n")
    case True
    let ?pos = "\<lambda>j. (h + 1 + j) mod m"
    let ?out = "out[i := xs ! ?pos i]" and ?xs = "xs[?pos i := z]"
    have m: "m \<noteq> 0" using "1.prems" by simp
    have pos: "?pos j < m" for j using m by simp
    have get: "go_get xs (?pos i) = Inr (xs ! ?pos i)"
      and set1: "go_set out i (xs ! ?pos i) = Inr ?out"
      and set2: "go_set xs (?pos i) z = Inr ?xs"
      using True "1.prems" pos by simp_all
    have other: "?xs ! ?pos j = xs ! ?pos j" if "Suc i \<le> j" "j < n" for j
      using mod_add_inj [of i m j "h + 1"] that "1.prems" True by (cases "?pos i = ?pos j") auto
    obtain xs' where rec: "rb_drain z h m n (Suc i) ?out ?xs =
        Inr (take (Suc i) ?out @ map (\<lambda>j. ?xs ! ?pos j) [Suc i..<n] @ drop n ?out, xs')"
      and len: "length xs' = m"
      and nth: "\<forall>p < m. xs' ! p = (if \<exists>j. Suc i \<le> j \<and> j < n \<and> p = ?pos j then z else ?xs ! p)"
      using "1.IH" [OF True m refl, of ?out ?xs] True "1.prems" by auto
    have "take (Suc i) ?out = take i out @ [xs ! ?pos i]"
      using True "1.prems" by (simp add: take_Suc_conv_app_nth)
    moreover have "map (\<lambda>j. ?xs ! ?pos j) [Suc i..<n] = map (\<lambda>j. xs ! ?pos j) [Suc i..<n]"
      using other by simp
    moreover have "drop n ?out = drop n out" using True by simp
    ultimately have "rb_drain z h m n i out xs =
        Inr (take i out @ map (\<lambda>j. xs ! ?pos j) [i..<n] @ drop n out, xs')"
      using True m rec get set1 set2
      by (simp add: rb_drain.simps [of z h m n i] upt_rec [of i] Let_def del: upt_Suc)
    moreover have "xs' ! p = (if \<exists>j. i \<le> j \<and> j < n \<and> p = ?pos j then z else xs ! p)" if "p < m" for p
      using nth [rule_format, OF that] True "1.prems" pos that
      by (auto simp: nth_list_update Suc_le_eq le_less split: if_splits)
    ultimately show ?thesis using len by blast
  next
    case False
    then show ?thesis using "1.prems" by (auto simp: rb_drain.simps [of z h m n])
  qed
qed

subsection \<open>Each operation refines the list of pending items\<close>

lemma slot_less: "0 < bmod c \<Longrightarrow> slot c i < bmod c"
  by (simp add: slot_def)

lemma slot_update [simp]:
  "slot (c\<lparr>items := xs\<rparr>) i = slot c i"
  "slot (c\<lparr>btail := t\<rparr>) i = slot c i"
  by (simp_all add: slot_def)

lemma slot_inj: "i < bmod c \<Longrightarrow> j < bmod c \<Longrightarrow> slot c i = slot c j \<Longrightarrow> i = j"
  using mod_add_inj [of i "bmod c" j "bhead c + 1"] by (simp add: slot_def)

lemma length_rb_items [simp]: "length (rb_items rb) = nat (rb_len rb)"
  by (simp add: rb_items_def)

lemma rb_New_ok:
  "0 < n \<Longrightarrow> \<exists>rb. rb_New z n = Inr rb \<and> rb_inv rb \<and> rb_items rb = []"
  by (simp add: rb_New_def rb_inv_def rb_items_def)

lemma rb_items_eqI:
  assumes "rb_len rb = int (length xs)"
    and "\<And>i. i < length xs \<Longrightarrow> items (content rb) ! slot (content rb) i = xs ! i"
  shows "rb_items rb = xs"
  using assms by (auto simp: rb_items_def intro: nth_equalityI)

lemma rb_items_nth:
  "i < nat (rb_len rb) \<Longrightarrow> rb_items rb ! i = items (content rb) ! slot (content rb) i"
  by (simp add: rb_items_def)

lemma rb_Push_nogrow:
  assumes inv: "rb_inv rb" and room: "nat (rb_len rb) + 1 < bmod (content rb)"
  shows "\<exists>rb'. rb_Push z x rb = Inr rb' \<and> rb_inv rb' \<and> rb_items rb' = rb_items rb @ [x]"
proof -
  let ?c = "content rb" and ?n = "nat (rb_len rb)"
  let ?t = "slot ?c ?n"
  have c: "0 < bmod ?c" "length (items ?c) = bmod ?c" "bhead ?c < bmod ?c" "0 \<le> rb_len rb"
      "btail ?c = (bhead ?c + ?n) mod bmod ?c"
    using inv by (simp_all add: rb_inv_def Let_def)
  have t: "Suc (btail ?c) mod bmod ?c = ?t"
    using c(5) by (simp add: slot_def mod_Suc_eq)
  have "?t \<noteq> bhead ?c"
  proof
    assume "?t = bhead ?c"
    then have "(bhead ?c + (?n + 1)) mod bmod ?c = (bhead ?c + 0) mod bmod ?c"
      using c by (simp add: slot_def add.assoc add.commute)
    then show False using mod_add_inj [of "?n + 1" "bmod ?c" 0 "bhead ?c"] room by simp
  qed
  then have push: "rb_Push z x rb =
      Inr \<lparr>rb_len = rb_len rb + 1, content = ?c\<lparr>btail := ?t, items := (items ?c)[?t := x]\<rparr>\<rparr>"
    using c(1-4) slot_less [of ?c ?n] by (simp add: rb_Push_def Let_def t)
  let ?rb = "\<lparr>rb_len = rb_len rb + 1, content = ?c\<lparr>btail := ?t, items := (items ?c)[?t := x]\<rparr>\<rparr>"
  have "rb_inv ?rb"
    using c room slot_less [of ?c ?n] by (simp add: rb_inv_def slot_def nat_add_distrib add.commute)
  moreover have "rb_items ?rb = rb_items rb @ [x]"
  proof (rule rb_items_eqI)
    show "rb_len ?rb = int (length (rb_items rb @ [x]))" using c by simp
    fix i assume i: "i < length (rb_items rb @ [x])"
    show "items (content ?rb) ! slot (content ?rb) i = (rb_items rb @ [x]) ! i"
    proof (cases "i = ?n")
      case True
      then show ?thesis using c slot_less [of ?c ?n] by (simp add: nth_append)
    next
      case False
      then have "slot ?c i \<noteq> ?t"
        using slot_inj [of i ?c ?n] i room by auto
      then show ?thesis using False i by (simp add: nth_append rb_items_nth)
    qed
  qed
  ultimately show ?thesis using push by blast
qed

lemma rb_Push_grow:
  assumes inv: "rb_inv rb" and full: "nat (rb_len rb) + 1 = bmod (content rb)"
  shows "\<exists>rb'. rb_Push z x rb = Inr rb' \<and> rb_inv rb' \<and> rb_items rb' = rb_items rb @ [x]"
proof -
  let ?c = "content rb" and ?n = "nat (rb_len rb)"
  let ?m = "bmod ?c"
  have c: "0 < ?m" "length (items ?c) = ?m" "bhead ?c < ?m" "0 \<le> rb_len rb"
      "btail ?c = (bhead ?c + ?n) mod ?m"
    using inv by (simp_all add: rb_inv_def Let_def)
  have "(btail ?c + 1) mod ?m = (bhead ?c + (?n + 1)) mod ?m"
    using c by (simp add: mod_simps)
  also have "\<dots> = bhead ?c" using full c by simp
  finally have t: "(btail ?c + 1) mod ?m = bhead ?c" .
  define c1 where "c1 = ?c\<lparr>btail := bhead ?c\<rparr>"
  define cp where "cp = map (\<lambda>j. items ?c ! ((bhead ?c + j) mod ?m)) [0..<?m]"
  have "rb_copy c1 0 (replicate (?m * 2) z) = Inr (cp @ replicate ?m z)"
    using c by (subst rb_copy_eq) (simp_all add: c1_def cp_def)
  then have grow: "rb_grow z c1 = Inr \<lparr>items = cp @ replicate ?m z, bhead = 0, btail = ?m, bmod = ?m * 2\<rparr>"
    by (simp add: rb_grow_def c1_def Let_def)
  let ?rb = "\<lparr>rb_len = rb_len rb + 1,
    content = \<lparr>items = (cp @ replicate ?m z)[?m := x], bhead = 0, btail = ?m, bmod = ?m * 2\<rparr>\<rparr>"
  have len_cp: "length cp = ?m" by (simp add: cp_def)
  have push: "rb_Push z x rb = Inr ?rb"
    using c grow t by (simp add: rb_Push_def Let_def c1_def len_cp)
  have "rb_inv ?rb"
    using c full by (simp add: rb_inv_def len_cp nat_add_distrib)
  moreover have "rb_items ?rb = rb_items rb @ [x]"
  proof (rule rb_items_eqI)
    show "rb_len ?rb = int (length (rb_items rb @ [x]))" using c by simp
    fix i assume i: "i < length (rb_items rb @ [x])"
    then have s: "Suc i < ?m * 2" "Suc i \<le> ?m" using full by simp_all
    show "items (content ?rb) ! slot (content ?rb) i = (rb_items rb @ [x]) ! i"
    proof (cases "i = ?n")
      case True
      then show ?thesis using full c(1) by (simp add: slot_def nth_append len_cp)
    next
      case False
      then have "Suc i < ?m" using i full by simp
      then show ?thesis using False i full s
        by (simp add: slot_def nth_append len_cp rb_items_nth) (simp add: cp_def)
    qed
  qed
  ultimately show ?thesis using push by blast
qed

lemma rb_Push_ok:
  assumes "rb_inv rb"
  shows "\<exists>rb'. rb_Push z x rb = Inr rb' \<and> rb_inv rb' \<and> rb_items rb' = rb_items rb @ [x]"
proof (cases "nat (rb_len rb) + 1 < bmod (content rb)")
  case True
  with assms show ?thesis by (rule rb_Push_nogrow)
next
  case False
  then have "nat (rb_len rb) + 1 = bmod (content rb)"
    using assms by (simp add: rb_inv_def Let_def)
  with assms show ?thesis by (rule rb_Push_grow)
qed

text \<open>
  Draining \<open>k\<close> items from a well-formed buffer, whatever the destination held:
  \<open>rb_cleared\<close> is the slots afterwards and \<open>rb_drained\<close> the buffer.
\<close>

definition rb_cleared :: "'a \<Rightarrow> 'a buffer \<Rightarrow> nat \<Rightarrow> 'a list" where
  "rb_cleared z c k = map (\<lambda>p. if p \<in> slot c ` {..<k} then z else items c ! p) [0..<bmod c]"

definition rb_drained :: "'a \<Rightarrow> 'a ring_buffer \<Rightarrow> nat \<Rightarrow> 'a ring_buffer" where
  "rb_drained z rb k =
     (let c = content rb in
      \<lparr>rb_len = rb_len rb - int k,
       content = c\<lparr>items := rb_cleared z c k, bhead := (bhead c + k) mod bmod c\<rparr>\<rparr>)"

lemma rb_drain_eq:
  assumes inv: "rb_inv rb" and k: "k \<le> nat (rb_len rb)" and out: "length out = k"
  defines "c \<equiv> content rb"
  shows "rb_drain z (bhead c) (bmod c) k 0 out (items c) = Inr (take k (rb_items rb), rb_cleared z c k)"
proof -
  have c: "0 < bmod c" "length (items c) = bmod c" "nat (rb_len rb) < bmod c"
    using inv by (simp_all add: rb_inv_def Let_def c_def)
  obtain xs where dr: "rb_drain z (bhead c) (bmod c) k 0 out (items c) =
        Inr (map (\<lambda>j. items c ! slot c j) [0..<k], xs)"
    and len: "length xs = bmod c"
    and nth: "\<forall>p < bmod c. xs ! p = (if \<exists>j. j < k \<and> p = slot c j then z else items c ! p)"
    using rb_drain_ok [of 0 k out "bmod c" "items c" z "bhead c"] c k out
    by (auto simp: slot_def)
  have "map (\<lambda>j. items c ! slot c j) [0..<k] = take k (rb_items rb)"
    using k by (intro nth_equalityI) (simp_all add: rb_items_nth c_def)
  moreover have "xs = rb_cleared z c k"
    using len nth by (intro nth_equalityI) (auto simp: rb_cleared_def)
  ultimately show ?thesis using dr by simp
qed

lemma rb_drained_ok:
  assumes inv: "rb_inv rb" and k: "k \<le> nat (rb_len rb)"
  shows "rb_inv (rb_drained z rb k)" and "rb_items (rb_drained z rb k) = drop k (rb_items rb)"
proof -
  let ?c = "content rb"
  have c: "0 < bmod ?c" "length (items ?c) = bmod ?c" "bhead ?c < bmod ?c" "0 \<le> rb_len rb"
      "nat (rb_len rb) < bmod ?c" "btail ?c = (bhead ?c + nat (rb_len rb)) mod bmod ?c"
    using inv by (simp_all add: rb_inv_def Let_def)
  obtain d where d: "rb_len rb = int k + int d"
    using c(4) k by (metis le_iff_add nat_eq_iff2 of_nat_add)
  show "rb_inv (rb_drained z rb k)"
    using c by (simp add: rb_inv_def rb_drained_def rb_cleared_def Let_def d nat_add_distrib
        mod_add_left_eq add.assoc)
  have slots: "slot (content (rb_drained z rb k)) i = slot ?c (k + i)" for i
    unfolding rb_drained_def slot_def Let_def
    by simp (metis add.assoc add.commute mod_Suc_eq mod_add_left_eq add_Suc)
  show "rb_items (rb_drained z rb k) = drop k (rb_items rb)"
  proof (rule rb_items_eqI)
    show "rb_len (rb_drained z rb k) = int (length (drop k (rb_items rb)))"
      using c k by (simp add: rb_drained_def Let_def)
    fix i assume i: "i < length (drop k (rb_items rb))"
    then have ki: "k + i < bmod ?c" using c(5) by simp
    have "slot ?c (k + i) \<noteq> slot ?c j" if "j < k" for j
      using slot_inj [OF ki, of j] ki that by auto
    then have "slot ?c (k + i) \<notin> slot ?c ` {..<k}" by auto
    then show "items (content (rb_drained z rb k)) ! slot (content (rb_drained z rb k)) i
        = drop k (rb_items rb) ! i"
      using i c slot_less [of ?c "k + i"]
      by (simp add: slots rb_items_nth) (simp add: rb_drained_def rb_cleared_def Let_def)
  qed
qed

text \<open>How many items \<open>PopN(n)\<close> takes, and both \<open>PopN\<close> and \<open>PopNInto\<close> in closed form.\<close>

lemma rb_take_count:
  assumes "rb_inv rb" "0 \<le> n"
  shows "(if n \<ge> rb_len rb then rb_len rb else n) = int (min (nat n) (nat (rb_len rb)))"
    and "(if n > rb_len rb then rb_len rb else n) = int (min (nat n) (nat (rb_len rb)))"
  using assms by (auto simp: rb_inv_def Let_def min_def)

lemma rb_items_take_min [simp]:
  "take (min k (nat (rb_len rb))) (rb_items rb) = take k (rb_items rb)"
  "drop (min k (nat (rb_len rb))) (rb_items rb) = drop k (rb_items rb)"
  by (simp_all add: min_def)

lemma rb_PopN_eq:
  assumes "rb_inv rb" "0 \<le> n" "rb_len rb \<noteq> 0"
  shows "rb_PopN z n rb =
    Inr (Some (take (nat n) (rb_items rb)), rb_drained z rb (min (nat n) (nat (rb_len rb))))"
  using assms rb_drain_eq [OF assms(1), of "min (nat n) (nat (rb_len rb))"]
  by (simp add: rb_PopN_def rb_take_count Let_def rb_drained_def)

lemma rb_PopNInto_eq:
  assumes "rb_inv rb" "0 \<le> n" "rb_len rb \<noteq> 0"
  shows "rb_PopNInto z dst n rb =
    Inr ((take (nat n) (rb_items rb), True), rb_drained z rb (min (nat n) (nat (rb_len rb))))"
  using assms rb_drain_eq [OF assms(1), of "min (nat n) (nat (rb_len rb))"]
  by (auto simp: rb_PopNInto_def rb_take_count Let_def rb_drained_def simp del: of_nat_min)

lemma rb_items_Nil_iff: "rb_inv rb \<Longrightarrow> rb_items rb = [] \<longleftrightarrow> rb_len rb = 0"
  by (auto simp: rb_items_def rb_inv_def Let_def)

lemma rb_Pop_empty: "rb_inv rb \<Longrightarrow> rb_items rb = [] \<Longrightarrow> rb_Pop z rb = Inr (None, rb)"
  by (simp add: rb_items_Nil_iff rb_Pop_def)

text \<open>\<open>Pop\<close> is \<open>PopN(1)\<close> with the item taken out of its slice.\<close>

lemma rb_Pop_eq_PopN:
  assumes "rb_inv rb" "rb_len rb \<noteq> 0"
  shows "rb_Pop z rb = bindR (rb_PopN z 1 rb) (\<lambda>(r, rb'). Inr (map_option hd r, rb'))"
proof -
  have "0 < bmod (content rb)" "length (items (content rb)) = bmod (content rb)" "1 \<le> rb_len rb"
    using assms by (simp_all add: rb_inv_def Let_def)
  then show ?thesis
    using assms(2)
    by (auto simp: rb_Pop_def rb_PopN_def Let_def rb_drain.simps numeral_eq_Suc min_def)
qed

text \<open>
  \<open>PopN(n)\<close> on a well-formed buffer: an empty buffer returns \<open>(nil, false)\<close>;
  otherwise it returns the first \<open>min n len\<close> pending items in order, leaves exactly the
  rest pending, and keeps the invariant (it never panics for \<open>n \<ge> 0\<close>).
\<close>

theorem rb_PopN_spec:
  assumes "rb_inv rb" "0 \<le> n"
  shows "if rb_items rb = [] then rb_PopN z n rb = Inr (None, rb)
         else \<exists>rb'. rb_PopN z n rb = Inr (Some (take (nat n) (rb_items rb)), rb')
                \<and> rb_inv rb' \<and> rb_items rb' = drop (nat n) (rb_items rb)
                \<and> rb_Len rb' = rb_Len rb - min n (rb_Len rb)"
proof (cases "rb_len rb = 0")
  case True
  then show ?thesis using assms by (simp add: rb_items_Nil_iff rb_PopN_def)
next
  case False
  let ?k = "min (nat n) (nat (rb_len rb))"
  have "rb_Len (rb_drained z rb ?k) = rb_Len rb - min n (rb_Len rb)"
    using assms by (simp add: rb_Len_def rb_drained_def Let_def rb_inv_def) arith
  then show ?thesis
    using assms False rb_drained_ok [OF assms(1), of ?k z] rb_PopN_eq [OF assms False, of z]
    by (simp add: rb_items_Nil_iff)
qed

theorem rb_PopN_spec_witness:
  "\<exists>rb'. rb_PopN 0 2 \<lparr>rb_len = 3, content = \<lparr>items = [6, 0, 4, 5], bhead = Suc 0, btail = 0, bmod = 4\<rparr>\<rparr> =
     Inr (Some [4, 5 :: nat], rb') \<and> rb_inv rb' \<and> rb_items rb' = [6] \<and> rb_Len rb' = 1"
proof -
  let ?rb = "\<lparr>rb_len = 3, content = \<lparr>items = [6, 0, 4, 5 :: nat], bhead = Suc 0, btail = 0, bmod = 4\<rparr>\<rparr>"
  have inv: "rb_inv ?rb" by (simp add: rb_inv_def)
  have it: "rb_items ?rb = [4, 5, 6]" by (simp add: rb_items_def slot_def upt_rec)
  show ?thesis
    using rb_PopN_spec [OF inv, of 2 0] by (simp add: it rb_Len_def)
qed

text \<open>
  \<open>PopNInto(dst, n)\<close> returns the same items, leaves the same buffer as \<open>PopN(n)\<close>,
  whatever the capacity and the old contents of \<open>dst\<close>.
\<close>

theorem rb_PopNInto_eq_PopN:
  assumes "rb_inv rb" "0 \<le> n"
  shows "rb_PopNInto z dst n rb =
     bindR (rb_PopN z n rb) (\<lambda>(r, rb').
       Inr ((case r of None \<Rightarrow> ([], False) | Some xs \<Rightarrow> (xs, True)), rb'))"
  using assms rb_PopN_eq [OF assms, of z] rb_PopNInto_eq [OF assms, of z dst]
  by (cases "rb_len rb = 0") (simp_all add: rb_PopNInto_def rb_PopN_def)

theorem rb_PopNInto_eq_PopN_witness:
  "rb_PopNInto 0 [7, 7, 7, 7] 2
     \<lparr>rb_len = 3, content = \<lparr>items = [6, 0, 4, 5 :: nat], bhead = Suc 0, btail = 0, bmod = 4\<rparr>\<rparr> =
   Inr (([4, 5], True), \<lparr>rb_len = 1, content = \<lparr>items = [6, 0, 0, 0], bhead = 3, btail = 0, bmod = 4\<rparr>\<rparr>)"
proof -
  let ?rb = "\<lparr>rb_len = 3, content = \<lparr>items = [6, 0, 4, 5 :: nat], bhead = Suc 0, btail = 0, bmod = 4\<rparr>\<rparr>"
  have inv: "rb_inv ?rb" by (simp add: rb_inv_def)
  have it: "rb_items ?rb = [4, 5, 6]" by (simp add: rb_items_def slot_def upt_rec)
  have dr: "rb_drained 0 ?rb 2 =
      \<lparr>rb_len = 1, content = \<lparr>items = [6, 0, 0, 0], bhead = 3, btail = 0, bmod = 4\<rparr>\<rparr>"
    by code_simp
  show ?thesis
    using rb_PopNInto_eq_PopN [OF inv, of 2 0 "[7, 7, 7, 7]"] rb_PopN_eq [OF inv, of 2 0]
    by (simp add: it dr)
qed

subsection \<open>The buffer is a FIFO queue\<close>

lemma rb_Pop_ok:
  assumes "rb_inv rb" "rb_items rb = x # xs"
  shows "\<exists>rb'. rb_Pop z rb = Inr (Some x, rb') \<and> rb_inv rb' \<and> rb_items rb' = xs"
proof -
  have ne: "rb_len rb \<noteq> 0" using assms rb_items_Nil_iff by fastforce
  then have "1 \<le> nat (rb_len rb)" using assms(1) by (simp add: rb_inv_def Let_def) arith
  then show ?thesis
    using rb_drained_ok [OF assms(1), of 1 z] assms rb_PopN_eq [OF assms(1) _ ne, of 1 z]
    by (simp add: rb_Pop_eq_PopN ne)
qed

interpretation ringbuf: fifo_queue rb_inv rb_items "rb_Push z" "rb_Pop z" for z
  by unfold_locales (auto intro: rb_Push_ok rb_Pop_empty rb_Pop_ok)

text \<open>
  C39. A new ring buffer of any positive size behaves as an unbounded FIFO queue: every
  sequence of \<open>Push\<close> and \<open>Pop\<close> (through every doubling) runs without a panic, returns
  exactly what the list of pending items would return, and keeps the invariant.
\<close>

theorem ring_buffer_fifo:
  assumes "0 < sz"
  shows "\<exists>rb rb'. rb_New z sz = Inr rb
     \<and> queue_run (rb_Push z) (rb_Pop z) rb ops = Inr (fst (list_run [] ops), rb')
     \<and> rb_inv rb' \<and> rb_items rb' = snd (list_run [] ops)"
proof -
  obtain rb where rb: "rb_New z sz = Inr rb" "rb_inv rb" "rb_items rb = []"
    using rb_New_ok [OF assms, of z] by metis
  obtain rb' where "queue_run (rb_Push z) (rb_Pop z) rb ops = Inr (fst (list_run [] ops), rb')"
      "rb_inv rb'" "rb_items rb' = snd (list_run [] ops)"
    using ringbuf.run_refines_list [OF rb(2), of z ops] unfolding rb(3) by blast
  with rb(1) show ?thesis by blast
qed

theorem ring_buffer_fifo_witness:
  "\<exists>rb rb'. rb_New (0::nat) 1 = Inr rb
     \<and> queue_run (rb_Push 0) (rb_Pop 0) rb [OpPush 3, OpPush 4, OpPop, OpPush 5, OpPop, OpPop, OpPop]
         = Inr ([Some 3, Some 4, Some 5, None], rb')
     \<and> rb_inv rb' \<and> rb_items rb' = []"
  using ring_buffer_fifo [of 1 "0::nat" "[OpPush 3, OpPush 4, OpPop, OpPush 5, OpPop, OpPop, OpPop]"]
  by simp

end
