(* ===== verification/Pid.thy ===== *)
theory Pid
  imports Prelude "HOL-Library.Word"
begin

section \<open>Process identifiers (actor/pid.go)\<close>

text \<open>
  A \<open>PID\<close> is an address and an id. A \<open>*PID\<close> that may be \<open>nil\<close> is a \<open>pid option\<close>.
  The hash of \<open>LookupKey\<close> is the third-party function \<open>xxh3.Hash\<close>, a parameter here.
\<close>

record pid =
  Address :: string
  ID :: string

definition pidSeparator :: string where
  "pidSeparator = ''/''"

definition responsePrefix :: string where
  "responsePrefix = ''response''"

definition isResponse :: "pid \<Rightarrow> bool" where
  "isResponse p \<longleftrightarrow> prefix (responsePrefix @ pidSeparator) (ID p)"

definition NewPID :: "string \<Rightarrow> string \<Rightarrow> pid" where
  "NewPID address i = \<lparr>Address = address, ID = i\<rparr>"

definition pid_String :: "pid \<Rightarrow> string" where
  "pid_String p = Address p @ pidSeparator @ ID p"

definition pid_Equals :: "pid \<Rightarrow> pid \<Rightarrow> bool" where
  "pid_Equals p other \<longleftrightarrow> Address p = Address other \<and> ID p = ID other"

definition pid_Child :: "pid \<Rightarrow> string \<Rightarrow> pid" where
  "pid_Child p i = (let childID = ID p @ pidSeparator @ i in NewPID (Address p) childID)"

definition LookupKey :: "(string \<Rightarrow> 64 word) \<Rightarrow> pid \<Rightarrow> 64 word" where
  "LookupKey xxh3 p = (let key = Address p; key' = key @ ID p in xxh3 key')"

subsection \<open>Facts about identifiers\<close>

lemma pid_eqI: "Address p = Address q \<Longrightarrow> ID p = ID q \<Longrightarrow> p = (q :: pid)"
  by (cases p, cases q) simp

lemma pid_Equals_iff [simp]: "pid_Equals p q \<longleftrightarrow> p = q"
  by (auto simp: pid_Equals_def intro: pid_eqI)

lemma NewPID_simps [simp]:
  "Address (NewPID a i) = a"
  "ID (NewPID a i) = i"
  "NewPID a i = NewPID b j \<longleftrightarrow> a = b \<and> i = j"
  by (simp_all add: NewPID_def)

lemma NewPID_eta [simp]: "NewPID (Address p) (ID p) = p"
  by (simp add: NewPID_def)

lemma pid_Child_inj [simp]: "pid_Child p i = pid_Child p j \<longleftrightarrow> i = j"
  by (simp add: pid_Child_def)

text \<open>
  The printed form determines the PID when the addresses contain no separator (a listen
  address \<open>host:port\<close> has none), and it determines its parts: the address is what comes
  before the first separator.
\<close>

lemma append_sep_inj:
  assumes "a @ c # i = b @ c # j" "c \<notin> set a" "c \<notin> set b"
  shows "a = b \<and> i = j"
  using assms
proof (induction a arbitrary: b)
  case Nil
  then show ?case by (cases b) auto
next
  case (Cons x a)
  then show ?case by (cases b) auto
qed

lemma pid_String_inj:
  assumes "pid_String p = pid_String q" "CHR ''/'' \<notin> set (Address p)" "CHR ''/'' \<notin> set (Address q)"
  shows "p = q"
proof -
  have "Address p @ CHR ''/'' # ID p = Address q @ CHR ''/'' # ID q"
    using assms(1) by (simp add: pid_String_def pidSeparator_def)
  from append_sep_inj [OF this assms(2,3)] show ?thesis by (auto intro: pid_eqI)
qed

text \<open>
  \<open>LookupKey\<close> hashes address and id run together with no separator: for every hash
  function, two different PIDs whose concatenations agree have the same key, e.g. the actor
  \<open>0/a\<close> of \<open>host:1\<close> and the actor \<open>/a\<close> of \<open>host:10\<close>.
\<close>

theorem LookupKey_collides:
  "\<exists>p q. \<not> pid_Equals p q \<and> pid_String p \<noteq> pid_String q \<and> (\<forall>xxh3. LookupKey xxh3 p = LookupKey xxh3 q)"
proof (intro exI conjI allI)
  let ?p = "NewPID ''host:1'' ''0/a''" and ?q = "NewPID ''host:10'' ''/a''"
  show "\<not> pid_Equals ?p ?q" by simp
  show "pid_String ?p \<noteq> pid_String ?q" by (simp add: pid_String_def pidSeparator_def)
  show "LookupKey xxh3 ?p = LookupKey xxh3 ?q" for xxh3 by (simp add: LookupKey_def)
qed

end
