(* ===== verification/PidSet.thy ===== *)
theory PidSet
  imports Pid
begin

section \<open>Sets of PIDs (actor/pid_map.go)\<close>

text \<open>
  \<open>PIDSet\<close>: a slice of PIDs and a map from the (address, id) key of each to its index.
  \<open>lookup\<close> is \<open>nil\<close> (\<open>None\<close>) until the first \<open>Add\<close> or \<open>Remove\<close>; reading a nil map
  finds nothing. PIDs are passed by pointer; the callers pass no nil pointer, and \<open>key\<close>
  reads the two fields only, so the model passes the PID.
\<close>

record pidKey =
  key_address :: string
  key_id :: string

record pid_set =
  pids :: "pid list"
  lookup :: "(pidKey \<rightharpoonup> nat) option"

definition ps_key :: "pid \<Rightarrow> pidKey" where
  "ps_key p = \<lparr>key_address = Address p, key_id = ID p\<rparr>"

definition ps_read :: "pid_set \<Rightarrow> pidKey \<rightharpoonup> nat" where
  "ps_read p = (case lookup p of None \<Rightarrow> Map.empty | Some m \<Rightarrow> m)"

definition ps_ensureInit :: "pid_set \<Rightarrow> pid_set" where
  "ps_ensureInit p = (if lookup p = None then p\<lparr>lookup := Some Map.empty\<rparr> else p)"

definition ps_indexOf :: "pid_set \<Rightarrow> pid \<Rightarrow> int" where
  "ps_indexOf p v = (case ps_read p (ps_key v) of Some idx \<Rightarrow> int idx | None \<Rightarrow> -1)"

definition ps_Contains :: "pid_set \<Rightarrow> pid \<Rightarrow> bool" where
  "ps_Contains p v \<longleftrightarrow> ps_read p (ps_key v) \<noteq> None"

definition ps_Add :: "pid \<Rightarrow> pid_set \<Rightarrow> pid_set" where
  "ps_Add v p0 =
     (let p = ps_ensureInit p0 in
      if ps_Contains p v then p
      else let pids' = pids p @ [v] in
        p\<lparr>pids := pids', lookup := Some ((ps_read p)(ps_key v \<mapsto> length pids' - 1))\<rparr>)"

definition NewPIDSet :: "pid list \<Rightarrow> pid_set" where
  "NewPIDSet ps = fold ps_Add ps \<lparr>pids = [], lookup = None\<rparr>"

text \<open>
  \<open>Remove\<close> moves the last PID into the freed slot. The slice accesses are in bounds for a
  well-formed set; a stale index would panic.
\<close>

definition ps_Remove :: "pid \<Rightarrow> pid_set \<Rightarrow> (bool \<times> pid_set) res" where
  "ps_Remove v p0 =
     (let p = ps_ensureInit p0; i = ps_indexOf p v in
      if i = -1 then Inr (False, p)
      else let m = (ps_read p)(ps_key v := None); n = length (pids p) in
        bindR (if i < int n - 1 then
                 bindR (go_get (pids p) (n - 1)) (\<lambda>lastPID.
                 bindR (go_set (pids p) (nat i) lastPID) (\<lambda>ps'.
                   Inr (ps', m(ps_key lastPID \<mapsto> nat i))))
               else Inr (pids p, m)) (\<lambda>(ps', m').
        if n = 0 then Inl SliceBounds
        else Inr (True, p\<lparr>pids := take (n - 1) ps', lookup := Some m'\<rparr>)))"

definition ps_Len :: "pid_set \<Rightarrow> nat" where
  "ps_Len p = length (pids p)"

definition ps_Clear :: "pid_set \<Rightarrow> pid_set" where
  "ps_Clear p = p\<lparr>pids := [], lookup := Some Map.empty\<rparr>"

definition ps_Empty :: "pid_set \<Rightarrow> bool" where
  "ps_Empty p \<longleftrightarrow> ps_Len p = 0"

definition ps_Values :: "pid_set \<Rightarrow> pid list" where
  "ps_Values p = pids p"

definition ps_ForEach :: "(nat \<Rightarrow> pid \<Rightarrow> 'a \<Rightarrow> 'a) \<Rightarrow> pid_set \<Rightarrow> 'a \<Rightarrow> 'a" where
  "ps_ForEach f p a = fold (\<lambda>(i, v). f i v) (enumerate 0 (pids p)) a"

definition ps_Get :: "pid_set \<Rightarrow> nat \<Rightarrow> pid res" where
  "ps_Get p index = go_get (pids p) index"

definition ps_Clone :: "pid_set \<Rightarrow> pid_set" where
  "ps_Clone p = NewPIDSet (pids p)"

subsection \<open>Invariant: the map is the inverse of the slice\<close>

definition ps_inv :: "pid_set \<Rightarrow> bool" where
  "ps_inv p \<longleftrightarrow> (\<forall>k i. ps_read p k = Some i \<longleftrightarrow> i < length (pids p) \<and> ps_key (pids p ! i) = k)"

lemma ps_key_inj [simp]: "ps_key p = ps_key q \<longleftrightarrow> p = q"
  by (auto simp: ps_key_def intro: pid_eqI)

lemma ps_readD: "ps_inv p \<Longrightarrow> ps_read p (ps_key v) = Some i \<longleftrightarrow> i < length (pids p) \<and> pids p ! i = v"
  by (simp add: ps_inv_def)

lemma ps_inv_distinct: "ps_inv p \<Longrightarrow> distinct (pids p)"
  unfolding distinct_conv_nth by (metis ps_readD option.inject)

lemma ps_Contains_iff: "ps_inv p \<Longrightarrow> ps_Contains p v \<longleftrightarrow> v \<in> set (pids p)"
  unfolding ps_Contains_def in_set_conv_nth by (metis not_None_eq ps_readD)

lemma ps_ensureInit_simps [simp]:
  "pids (ps_ensureInit p) = pids p"
  "ps_read (ps_ensureInit p) = ps_read p"
  "ps_inv (ps_ensureInit p) \<longleftrightarrow> ps_inv p"
  "ps_Contains (ps_ensureInit p) v \<longleftrightarrow> ps_Contains p v"
  "ps_indexOf (ps_ensureInit p) v = ps_indexOf p v"
  by (auto simp: ps_ensureInit_def ps_read_def ps_inv_def ps_Contains_def ps_indexOf_def)

lemma ps_read_update [simp]:
  "ps_read (p\<lparr>pids := xs, lookup := Some m\<rparr>) = m"
  "ps_read (p\<lparr>lookup := Some m\<rparr>) = m"
  by (simp_all add: ps_read_def)

lemma ps_inv_empty: "ps_inv \<lparr>pids = [], lookup = None\<rparr>"
  by (simp add: ps_inv_def ps_read_def)

lemma ps_Add_ok:
  assumes "ps_inv p"
  shows "ps_inv (ps_Add v p)"
    and "pids (ps_Add v p) = (if v \<in> set (pids p) then pids p else pids p @ [v])"
proof -
  show "pids (ps_Add v p) = (if v \<in> set (pids p) then pids p else pids p @ [v])"
    using assms by (simp add: ps_Add_def Let_def ps_Contains_iff)
  show "ps_inv (ps_Add v p)"
  proof (cases "v \<in> set (pids p)")
    case True
    then show ?thesis using assms by (simp add: ps_Add_def Let_def ps_Contains_iff)
  next
    case False
    then have nv: "\<And>i. i < length (pids p) \<Longrightarrow> pids p ! i \<noteq> v" by auto
    have "ps_read (ps_Add v p) = (ps_read p)(ps_key v \<mapsto> length (pids p))"
      and "pids (ps_Add v p) = pids p @ [v]"
      using assms False by (simp_all add: ps_Add_def Let_def ps_Contains_iff)
    then show ?thesis
      using assms nv by (auto simp: ps_inv_def nth_append less_Suc_eq)
  qed
qed

lemma ps_Remove_absent:
  "ps_inv p \<Longrightarrow> v \<notin> set (pids p) \<Longrightarrow> ps_Remove v p = Inr (False, ps_ensureInit p)"
  using ps_Contains_iff [of p v]
  by (auto simp: ps_Remove_def Let_def ps_indexOf_def ps_Contains_def)

text \<open>The new index map after the last PID moved into the slot of \<open>v\<close>.\<close>

lemma ps_Remove_present:
  assumes inv: "ps_inv p" and i: "i < length (pids p)" "pids p ! i = v"
  defines "n \<equiv> length (pids p) - 1"
  shows "\<exists>p'. ps_Remove v p = Inr (True, p') \<and> ps_inv p'
     \<and> pids p' = (if i < n then (take n (pids p))[i := pids p ! n] else take n (pids p))"
proof -
  let ?xs = "pids p"
  have read: "ps_read p (ps_key v) = Some i" using inv i by (simp add: ps_readD)
  have d: "\<And>a b. a < length ?xs \<Longrightarrow> b < length ?xs \<Longrightarrow> ?xs ! a = ?xs ! b \<Longrightarrow> a = b"
    using ps_inv_distinct [OF inv] nth_eq_iff_index_eq by blast
  have n: "n < length ?xs" "length ?xs - Suc 0 = n" "i \<le> n" using i by (auto simp: n_def)
  have read_k: "ps_read p k = Some j \<longleftrightarrow> j < length ?xs \<and> ps_key (?xs ! j) = k" for k j
    using inv by (simp add: ps_inv_def)
  have jn: "j < length ?xs \<longleftrightarrow> j < n \<or> j = n" for j using n by auto
  have last_ne: "?xs ! j \<noteq> ?xs ! n" if "j < n" for j using d [of j n] that n by auto
  have v_ne: "?xs ! j \<noteq> v" if "j < n" "j \<noteq> i" for j using d [of j i] that n i by auto
  show ?thesis
  proof (cases "i < n")
    case True
    let ?ps = "(take n ?xs)[i := ?xs ! n]"
    let ?m = "((ps_read p)(ps_key v := None))(ps_key (?xs ! n) \<mapsto> i)"
    let ?p = "(ps_ensureInit p)\<lparr>pids := ?ps, lookup := Some ?m\<rparr>"
    have rm: "ps_Remove v p = Inr (True, ?p)"
      using read True i n by (auto simp: ps_Remove_def Let_def ps_indexOf_def take_update_swap)
    have "?m k = Some j \<longleftrightarrow> j < n \<and> ps_key (?ps ! j) = k" for k j
    proof (cases "j = i")
      case True
      then show ?thesis using \<open>i < n\<close> n i read_k [of k i] by auto
    next
      case False
      then have "?m k = Some j \<longleftrightarrow> k \<noteq> ps_key (?xs ! n) \<and> k \<noteq> ps_key v \<and> ps_read p k = Some j"
        by auto
      also have "\<dots> \<longleftrightarrow> j < n \<and> ps_key (?xs ! j) = k"
        using last_ne [of j] v_ne [of j] False unfolding read_k jn by auto
      finally show ?thesis using False by (auto simp: nth_list_update)
    qed
    then have "ps_inv ?p" using n by (simp add: ps_inv_def)
    with rm True show ?thesis by auto
  next
    case False
    then have i_n: "i = n" using n by simp
    let ?m = "(ps_read p)(ps_key v := None)"
    let ?p = "(ps_ensureInit p)\<lparr>pids := take n ?xs, lookup := Some ?m\<rparr>"
    have rm: "ps_Remove v p = Inr (True, ?p)"
      using read i_n i n by (auto simp: ps_Remove_def Let_def ps_indexOf_def)
    have "?m k = Some j \<longleftrightarrow> j < n \<and> ps_key (take n ?xs ! j) = k" for k j
    proof -
      have "?m k = Some j \<longleftrightarrow> k \<noteq> ps_key v \<and> ps_read p k = Some j" by auto
      also have "\<dots> \<longleftrightarrow> j < n \<and> ps_key (?xs ! j) = k"
        using v_ne [of j] i i_n unfolding read_k jn by auto
      finally show ?thesis by auto
    qed
    then have "ps_inv ?p" using n by (simp add: ps_inv_def)
    with rm False show ?thesis by auto
  qed
qed

subsection \<open>Refinement: a PID set is a set\<close>

abbreviation ps_run :: "pid_set \<Rightarrow> pid set_op list \<Rightarrow> (bool list \<times> pid_set) res" where
  "ps_run \<equiv> impl_run ps_Add ps_Remove ps_Clear"

lemma ps_Add_set: "ps_inv p \<Longrightarrow> set (pids (ps_Add v p)) = insert v (set (pids p))"
  by (auto simp: ps_Add_ok)

lemma ps_Remove_ok:
  assumes inv: "ps_inv p"
  shows "\<exists>p'. ps_Remove v p = Inr (v \<in> set (pids p), p') \<and> ps_inv p'
     \<and> set (pids p') = set (pids p) - {v}"
proof (cases "v \<in> set (pids p)")
  case False
  then show ?thesis using assms by (simp add: ps_Remove_absent)
next
  case True
  then obtain i where i: "i < length (pids p)" "pids p ! i = v" by (auto simp: in_set_conv_nth)
  let ?n = "length (pids p) - 1"
  obtain p' where p': "ps_Remove v p = Inr (True, p')" "ps_inv p'"
      "pids p' = (if i < ?n then (take ?n (pids p))[i := pids p ! ?n] else take ?n (pids p))"
    using ps_Remove_present [OF inv i] by blast
  have xs: "pids p = take ?n (pids p) @ [pids p ! ?n]"
    using i by (metis Suc_diff_1 length_greater_0_conv list.size(3) not_less_zero
        take_Suc_conv_app_nth diff_less less_numeral_extra(1) take_all_iff order_refl)
  have d: "distinct (take ?n (pids p) @ [pids p ! ?n])"
    using ps_inv_distinct [OF inv] xs by metis
  have "set (pids p') = set (take ?n (pids p) @ [pids p ! ?n]) - {v}"
  proof (cases "i < ?n")
    case True
    then have v: "v = take ?n (pids p) ! i" using i by simp
    then have "v \<in> set (take ?n (pids p))" using True i by (auto simp: in_set_conv_nth intro!: exI [of _ i])
    with v show ?thesis
      using True d p'(3) by (auto simp: set_update_distinct)
  next
    case False
    then have "i = ?n" using i by simp
    then have "v = pids p ! ?n" using i by simp
    then show ?thesis using False d p'(3) by auto
  qed
  then have "set (pids p') = set (pids p) - {v}" by (simp only: xs [symmetric])
  then show ?thesis using p'(1,2) True by simp
qed

lemma ps_Clear_ok: "ps_inv (ps_Clear p)" "pids (ps_Clear p) = []"
  by (simp_all add: ps_Clear_def ps_inv_def)

interpretation pid_sets: reporting_set ps_inv "\<lambda>p. set (pids p)" ps_Add ps_Remove ps_Clear
  by unfold_locales (simp_all add: ps_Add_ok(1) ps_Add_set ps_Remove_ok ps_Clear_ok)

lemma NewPIDSet_ok:
  "ps_inv (NewPIDSet ps) \<and> set (pids (NewPIDSet ps)) = set ps"
  using pid_sets.adds [OF ps_inv_empty, of ps] by (simp add: NewPIDSet_def)

text \<open>
  C40. A \<open>PIDSet\<close> is a set of PIDs: after any sequence of \<open>Add\<close>, \<open>Remove\<close> and
  \<open>Clear\<close> on \<open>NewPIDSet(ps...)\<close> (none of which panics) every \<open>Remove\<close> has reported
  whether the PID was there, \<open>Values\<close> lists exactly the members, each once, \<open>Contains\<close> is
  membership and \<open>Len\<close> their number.
\<close>

theorem pid_set_refines_set:
  "\<exists>p. ps_run (NewPIDSet ps) ops = Inr (fst (set_run (set ps) ops), p)
     \<and> distinct (ps_Values p) \<and> set (ps_Values p) = snd (set_run (set ps) ops)
     \<and> (\<forall>v. ps_Contains p v \<longleftrightarrow> v \<in> snd (set_run (set ps) ops))
     \<and> ps_Len p = card (snd (set_run (set ps) ops))"
proof -
  obtain p where p: "ps_run (NewPIDSet ps) ops = Inr (fst (set_run (set ps) ops), p)" "ps_inv p"
      "set (pids p) = snd (set_run (set ps) ops)"
    using pid_sets.run_refines_set NewPIDSet_ok by metis
  note d = ps_inv_distinct [OF p(2)]
  then have "ps_Len p = card (snd (set_run (set ps) ops))"
    using p(3) distinct_card unfolding ps_Len_def by metis
  then show ?thesis using p d by (auto simp: ps_Values_def ps_Contains_iff)
qed

text \<open>A clone has the same PIDs in the same order.\<close>

lemma ps_Clone_values:
  assumes "ps_inv p"
  shows "ps_Values (ps_Clone p) = ps_Values p" and "ps_inv (ps_Clone p)"
proof -
  have "ps_inv q \<Longrightarrow> distinct (pids q @ vs) \<Longrightarrow> pids (fold ps_Add vs q) = pids q @ vs" for q vs
    by (induction vs arbitrary: q) (auto simp: ps_Add_ok)
  from this [OF ps_inv_empty, of "pids p"] ps_inv_distinct [OF assms]
  show "ps_Values (ps_Clone p) = ps_Values p"
    by (simp add: ps_Values_def ps_Clone_def NewPIDSet_def)
  show "ps_inv (ps_Clone p)" using NewPIDSet_ok by (simp add: ps_Clone_def)
qed

end
