(* ===== verification/Messages.thy ===== *)
theory Messages
  imports Pid "HOL-Library.Word"
begin

section \<open>Messages, events and options (actor/types.go, event.go, opts.go, process.go)\<close>

text \<open>
  A message is a Go \<open>any\<close>. The framework tests for its own message types and passes every
  other value through, so the messages are a datatype with one constructor per type the
  framework declares and \<open>User\<close> for the rest. A nil \<open>*PID\<close> is \<open>None\<close>; where the code
  compares pointers (the event stream) a PID is given with the address it lives at. A cancel
  function is a handle, a \<open>time.Time\<close> the value the clock gave.
\<close>

type_synonym pid_ptr = "nat \<times> pid"

datatype 'm panic_val = InternalError (From: string) (Err: string) | RuntimePanic go_panic | PanicAny 'm

datatype 'm msg =
    Initialized
  | Started
  | Stopped
  | PoisonPill (pill_cancel: "nat option") (graceful: bool)
  | EventSub pid_ptr
  | EventUnsub pid_ptr
  | ActorStartedEvent "pid option" nat
  | ActorInitializedEvent "pid option" nat
  | ActorStoppedEvent "pid option" nat
  | ActorRestartedEvent "pid option" nat string "'m panic_val" "32 word"
  | ActorMaxRestartsExceededEvent "pid option" nat
  | ActorDuplicateIdEvent "pid option"
  | EngineRemoteMissingEvent (target: "pid option") (sender: "pid option") (inner: "'m msg")
  | RemoteUnreachableEvent string
  | DeadLetterEvent (target: "pid option") (inner: "'m msg") (sender: "pid option")
  | User 'm

record 'm envelope =
  Msg :: "'m msg"
  Sender :: "pid option"

text \<open>The type test \<open>msg.(poisonPill)\<close>.\<close>

fun is_pill :: "'m msg \<Rightarrow> bool" where
  "is_pill (PoisonPill _ _) = True"
| "is_pill _ = False"

definition no_pills :: "'m envelope list \<Rightarrow> bool" where
  "no_pills ms \<longleftrightarrow> list_all (\<lambda>m. \<not> is_pill (Msg m)) ms"

subsection \<open>Events that log themselves\<close>

text \<open>
  The interface \<open>EventLogger\<close>: the level, the text and the attributes of each event that
  implements it, and \<open>None\<close> for a type that does not (the type assertion fails).
\<close>

datatype level = LevelDebug | LevelError

datatype 'm attr = AStr string | APid "pid option" | AReason "'m panic_val" | AInt "32 word"

definition GetID :: "pid option \<Rightarrow> string" where
  "GetID p = (case p of None \<Rightarrow> [] | Some q \<Rightarrow> ID q)"

fun event_Log :: "'m msg \<Rightarrow> (level \<times> string \<times> 'm attr list) option" where
  "event_Log (ActorStartedEvent p _) = Some (LevelDebug, ''Actor started'', [AStr ''pid'', APid p])"
| "event_Log (ActorInitializedEvent p _) = Some (LevelDebug, ''Actor initialized'', [AStr ''pid'', APid p])"
| "event_Log (ActorStoppedEvent p _) = Some (LevelDebug, ''Actor stopped'', [AStr ''pid'', APid p])"
| "event_Log (ActorRestartedEvent p _ st r n) = Some (LevelError, ''Actor crashed and restarted'',
     [AStr ''pid'', AStr (GetID p), AStr ''stack'', AStr st, AStr ''reason'', AReason r, AStr ''restarts'', AInt n])"
| "event_Log (ActorMaxRestartsExceededEvent p _) = Some (LevelError, ''Actor crashed too many times'',
     [AStr ''pid'', AStr (GetID p)])"
| "event_Log (ActorDuplicateIdEvent p) = Some (LevelError, ''Actor name already claimed'', [AStr ''pid'', AStr (GetID p)])"
| "event_Log (EngineRemoteMissingEvent t _ _) = Some (LevelError, ''Engine has no remote'', [AStr ''sender'', AStr (GetID t)])"
| "event_Log _ = None"

subsection \<open>Options of a process\<close>

text \<open>
  \<open>'u\<close> is the state user code works on and \<open>'a\<close> what it does to the rest of the system.
  A \<open>ReceiveFunc\<close> sees the context it is called with and returns the new state, what it did,
  and \<open>Some\<close> panic value if it panicked; a \<open>Producer\<close> makes a fresh receiver in the user's
  state, whose method \<open>Receive\<close> the options carry. User code that runs forever is not
  modelled. \<open>SpawnedChild\<close> is the registration of a child in \<open>Context.children\<close>.
\<close>

record 'm ctx_view =
  cv_pid :: pid
  cv_message :: "'m msg"
  cv_sender :: "pid option"

datatype 'a action = SpawnedChild pid | Act 'a

type_synonym ('u, 'm, 'a) receive_func = "'m ctx_view \<Rightarrow> 'u \<Rightarrow> 'u \<times> 'a action list \<times> 'm panic_val option"

type_synonym ('u, 'm, 'a) middleware_func = "('u, 'm, 'a) receive_func \<Rightarrow> ('u, 'm, 'a) receive_func"

record ('u, 'm, 'a) opts =
  Producer :: "'u \<Rightarrow> 'u \<times> 'm panic_val option"
  Receive :: "('u, 'm, 'a) receive_func"
  Kind :: string
  OptID :: string
  MaxRestarts :: "32 word"
  RestartDelay :: int
  InboxSize :: int
  Middleware :: "('u, 'm, 'a) middleware_func list"
  OptContext :: nat

definition defaultInboxSize :: int where
  "defaultInboxSize = 1024"

definition defaultMaxRestarts :: "32 word" where
  "defaultMaxRestarts = 3"

text \<open>Durations are in nanoseconds: 500 milliseconds.\<close>

definition defaultRestartDelay :: int where
  "defaultRestartDelay = 500 * 1000000"

text \<open>A \<open>context.Context\<close> is a handle; \<open>context.Background()\<close> is handle 0.\<close>

definition background :: nat where
  "background = 0"

definition DefaultOpts :: "('u \<Rightarrow> 'u \<times> 'm panic_val option) \<Rightarrow> ('u, 'm, 'a) receive_func \<Rightarrow> ('u, 'm, 'a) opts" where
  "DefaultOpts p r = \<lparr>Producer = p, Receive = r, Kind = [], OptID = [], MaxRestarts = defaultMaxRestarts,
     RestartDelay = defaultRestartDelay, InboxSize = defaultInboxSize, Middleware = [], OptContext = background\<rparr>"

definition WithContext :: "nat \<Rightarrow> ('u, 'm, 'a) opts \<Rightarrow> ('u, 'm, 'a) opts" where
  "WithContext c p_opts = p_opts\<lparr>OptContext := c\<rparr>"

definition WithMiddleware :: "('u, 'm, 'a) middleware_func list \<Rightarrow> ('u, 'm, 'a) opts \<Rightarrow> ('u, 'm, 'a) opts" where
  "WithMiddleware mw p_opts = p_opts\<lparr>Middleware := Middleware p_opts @ mw\<rparr>"

definition WithRestartDelay :: "int \<Rightarrow> ('u, 'm, 'a) opts \<Rightarrow> ('u, 'm, 'a) opts" where
  "WithRestartDelay d p_opts = p_opts\<lparr>RestartDelay := d\<rparr>"

definition WithInboxSize :: "int \<Rightarrow> ('u, 'm, 'a) opts \<Rightarrow> ('u, 'm, 'a) opts" where
  "WithInboxSize n p_opts = p_opts\<lparr>InboxSize := n\<rparr>"

text \<open>\<open>int32(n)\<close> keeps the low 32 bits.\<close>

definition WithMaxRestarts :: "int \<Rightarrow> ('u, 'm, 'a) opts \<Rightarrow> ('u, 'm, 'a) opts" where
  "WithMaxRestarts n p_opts = p_opts\<lparr>MaxRestarts := word_of_int n\<rparr>"

definition WithID :: "string \<Rightarrow> ('u, 'm, 'a) opts \<Rightarrow> ('u, 'm, 'a) opts" where
  "WithID i p_opts = p_opts\<lparr>OptID := i\<rparr>"

text \<open>The loop \<open>for i := len(middleware) - 1; i >= 0; i--\<close>; the argument is \<open>i + 1\<close>.\<close>

fun applyMiddleware_loop :: "('u, 'm, 'a) middleware_func list \<Rightarrow> nat \<Rightarrow> ('u, 'm, 'a) receive_func \<Rightarrow> ('u, 'm, 'a) receive_func" where
  "applyMiddleware_loop mw 0 rcv = rcv"
| "applyMiddleware_loop mw (Suc i) rcv = applyMiddleware_loop mw i ((mw ! i) rcv)"

definition applyMiddleware :: "('u, 'm, 'a) receive_func \<Rightarrow> ('u, 'm, 'a) middleware_func list \<Rightarrow> ('u, 'm, 'a) receive_func" where
  "applyMiddleware rcv mw = applyMiddleware_loop mw (length mw) rcv"

lemma applyMiddleware_loop_take:
  "i \<le> length mw \<Longrightarrow> applyMiddleware_loop mw i rcv = foldr (\<lambda>m r. m r) (take i mw) rcv"
  by (induction i arbitrary: rcv) (simp_all add: take_Suc_conv_app_nth)

text \<open>The first middleware of the list is the outermost: it sees a message first.\<close>

lemma applyMiddleware_foldr: "applyMiddleware rcv mw = foldr (\<lambda>m r. m r) mw rcv"
  by (simp add: applyMiddleware_def applyMiddleware_loop_take)

lemma applyMiddleware_Nil [simp]: "applyMiddleware rcv [] = rcv"
  by (simp add: applyMiddleware_def)

end
