(* ===== verification/Registry.thy ===== *)
theory Registry
  imports Pid
begin

section \<open>The process registry (actor/registry.go)\<close>

text \<open>
  A copy-on-write snapshot of the long-lived processes and a table of pending responses, both
  keyed by the id of a PID. A processer is any value \<open>'p\<close> with a PID (\<open>pidof\<close>). Writers
  hold the mutex for the whole operation and readers load one snapshot, so each method is one
  atomic operation; the copying loops over the old snapshot are map restrictions.
\<close>

record 'p registry =
  reg_lookup :: "string \<rightharpoonup> 'p"
  responses :: "string \<rightharpoonup> 'p"

definition LocalLookupAddr :: string where
  "LocalLookupAddr = ''local''"

definition newRegistry :: "'p registry" where
  "newRegistry = \<lparr>reg_lookup = Map.empty, responses = Map.empty\<rparr>"

definition reg_getByID :: "string \<Rightarrow> 'p registry \<Rightarrow> 'p option" where
  "reg_getByID i r = reg_lookup r i"

definition reg_GetPID :: "('p \<Rightarrow> pid) \<Rightarrow> string \<Rightarrow> string \<Rightarrow> 'p registry \<Rightarrow> pid option" where
  "reg_GetPID pidof kind i r =
     (case reg_getByID (kind @ pidSeparator @ i) r of Some p \<Rightarrow> Some (pidof p) | None \<Rightarrow> None)"

definition reg_Remove :: "pid \<Rightarrow> 'p registry \<Rightarrow> 'p registry" where
  "reg_Remove q r =
     (if isResponse q \<and> responses r (ID q) \<noteq> None
      then r\<lparr>responses := (responses r)(ID q := None)\<rparr>
      else r\<lparr>reg_lookup := (\<lambda>k. if k \<noteq> ID q then reg_lookup r k else None)\<rparr>)"

definition reg_get :: "pid option \<Rightarrow> 'p registry \<Rightarrow> 'p option" where
  "reg_get q r =
     (case q of
        None \<Rightarrow> None
      | Some q \<Rightarrow>
          (case reg_lookup r (ID q) of
             Some p \<Rightarrow> Some p
           | None \<Rightarrow> if isResponse q then responses r (ID q) else None))"

text \<open>
  \<open>add\<close> up to the unlock: \<open>False\<close> is the duplicate, which the caller announces with an
  \<open>ActorDuplicateIdEvent\<close>; \<open>True\<close> means the processer was stored and is to be started.
\<close>

definition reg_add :: "('p \<Rightarrow> pid) \<Rightarrow> 'p \<Rightarrow> 'p registry \<Rightarrow> bool \<times> 'p registry" where
  "reg_add pidof p r =
     (case reg_lookup r (ID (pidof p)) of
        Some _ \<Rightarrow> (False, r)
      | None \<Rightarrow> (True, r\<lparr>reg_lookup := (reg_lookup r)(ID (pidof p) \<mapsto> p)\<rparr>))"

definition registerResponse :: "('p \<Rightarrow> pid) \<Rightarrow> 'p \<Rightarrow> 'p registry \<Rightarrow> 'p registry" where
  "registerResponse pidof p r = r\<lparr>responses := (responses r)(ID (pidof p) \<mapsto> p)\<rparr>"

subsection \<open>Invariant and operations\<close>

datatype 'p reg_op = RAdd 'p | RResponse 'p | RRemove pid

fun reg_apply :: "('p \<Rightarrow> pid) \<Rightarrow> 'p reg_op \<Rightarrow> 'p registry \<Rightarrow> 'p registry" where
  "reg_apply pidof (RAdd p) r = snd (reg_add pidof p r)"
| "reg_apply pidof (RResponse p) r = registerResponse pidof p r"
| "reg_apply pidof (RRemove q) r = reg_Remove q r"

definition reg_run :: "('p \<Rightarrow> pid) \<Rightarrow> 'p reg_op list \<Rightarrow> 'p registry \<Rightarrow> 'p registry" where
  "reg_run pidof ops r = fold (reg_apply pidof) ops r"

text \<open>Every entry is stored under the id of its own PID.\<close>

definition reg_inv :: "('p \<Rightarrow> pid) \<Rightarrow> 'p registry \<Rightarrow> bool" where
  "reg_inv pidof r \<longleftrightarrow> (\<forall>k p. reg_lookup r k = Some p \<or> responses r k = Some p \<longrightarrow> ID (pidof p) = k)"

lemma reg_inv_new [inv_intros]: "reg_inv pidof newRegistry"
  by (simp add: reg_inv_def newRegistry_def)

lemma reg_inv_apply [inv_intros]: "reg_inv pidof r \<Longrightarrow> reg_inv pidof (reg_apply pidof op r)"
  by (cases op) (auto simp: reg_inv_def reg_add_def reg_Remove_def registerResponse_def split: option.splits if_splits)

lemma reg_inv_run: "reg_inv pidof r \<Longrightarrow> reg_inv pidof (reg_run pidof ops r)"
  by (induction ops arbitrary: r) (simp_all add: reg_run_def reg_inv_apply)

lemma reg_get_inv: "reg_inv pidof r \<Longrightarrow> reg_get (Some q) r = Some p \<Longrightarrow> ID (pidof p) = ID q"
  by (auto simp: reg_get_def reg_inv_def split: option.splits if_splits)

lemma reg_get_None [simp]: "reg_get None r = None"
  by (simp add: reg_get_def)

text \<open>Operations on other ids do not change a lookup.\<close>

fun op_id :: "('p \<Rightarrow> pid) \<Rightarrow> 'p reg_op \<Rightarrow> string" where
  "op_id pidof (RAdd p) = ID (pidof p)"
| "op_id pidof (RResponse p) = ID (pidof p)"
| "op_id pidof (RRemove q) = ID q"

lemma reg_apply_other: "op_id pidof op \<noteq> ID q \<Longrightarrow> reg_get (Some q) (reg_apply pidof op r) = reg_get (Some q) r"
  by (cases op) (auto simp: reg_get_def reg_add_def reg_Remove_def registerResponse_def split: option.splits)

lemma reg_run_other:
  "\<forall>op \<in> set ops. op_id pidof op \<noteq> ID q \<Longrightarrow> reg_get (Some q) (reg_run pidof ops r) = reg_get (Some q) r"
  by (induction ops arbitrary: r) (simp_all add: reg_run_def reg_apply_other)

text \<open>
  The registry resolves ids. After any operations: \<open>get\<close> only returns a processer whose own
  PID has the id asked for, whatever address the PID names. The first process added under a
  free id is the one found, and stays so through operations on other ids and a second \<open>add\<close>
  of the same id, which is refused; once it is removed, the id is free again.
\<close>

theorem registry_resolves:
  assumes "reg_inv pidof r" "reg_getByID (ID (pidof p)) r = None" "\<forall>op \<in> set ops. op_id pidof op \<noteq> ID (pidof p)"
    "ID q = ID (pidof p)" "ID (pidof p') = ID (pidof p)" "\<not> isResponse q"
  shows "reg_inv pidof (reg_run pidof (RAdd p # ops) r)
    \<and> reg_get (Some q) (reg_run pidof (RAdd p # ops) r) = Some p
    \<and> reg_add pidof p' (reg_run pidof (RAdd p # ops) r) = (False, reg_run pidof (RAdd p # ops) r)
    \<and> reg_get (Some q) (reg_run pidof (RAdd p # ops @ [RRemove q]) r) = None"
proof -
  let ?r = "reg_run pidof (RAdd p # ops) r"
  have 1: "reg_get (Some q) ?r = Some p"
  proof -
    have "reg_get (Some q) ?r = reg_get (Some q) (snd (reg_add pidof p r))"
      using reg_run_other [of ops pidof q] assms(3,4) by (simp add: reg_run_def)
    then show ?thesis using assms(2,4) by (simp add: reg_get_def reg_add_def reg_getByID_def)
  qed
  moreover have "reg_lookup ?r (ID (pidof p')) \<noteq> None"
    using 1 assms(4-6) by (auto simp: reg_get_def split: option.splits)
  moreover have "reg_run pidof (RAdd p # ops @ [RRemove q]) r = reg_Remove q ?r" by (simp add: reg_run_def)
  ultimately show ?thesis
    using reg_inv_run [OF assms(1)] assms(6) by (auto simp: reg_add_def reg_Remove_def reg_get_def split: option.split)
qed

theorem registry_resolves_witness:
  "reg_get (Some (NewPID ''a'' ''k/1'')) (reg_run id [RAdd (NewPID ''local'' ''k/1''), RRemove (NewPID ''local'' ''k/2'')] newRegistry)
     = Some (NewPID ''local'' ''k/1'')"
  using registry_resolves [OF reg_inv_new, of id "NewPID ''local'' ''k/1''" "[RRemove (NewPID ''local'' ''k/2'')]"
      "NewPID ''a'' ''k/1''" "NewPID ''a'' ''k/1''"]
  by (simp add: newRegistry_def reg_getByID_def isResponse_def responsePrefix_def)

text \<open>
  A process spawned under the kind \<open>response\<close> shadows a pending request of the same id:
  the snapshot is searched first, so the reply goes to the process.
\<close>

theorem response_shadowed:
  assumes "isResponse q" "ID (pidof p) = ID q" "ID (pidof w) = ID q" "reg_getByID (ID q) r = None"
  shows "reg_get (Some q) (reg_run pidof [RResponse w] r) = Some w
    \<and> reg_get (Some q) (reg_run pidof [RResponse w, RAdd p] r) = Some p"
  using assms by (simp add: reg_get_def reg_run_def reg_add_def registerResponse_def reg_getByID_def)

theorem response_shadowed_witness:
  "reg_get (Some (NewPID ''local'' ''response/1''))
     (reg_run fst [RResponse (NewPID ''local'' ''response/1'', True), RAdd (NewPID ''local'' ''response/1'', False)] newRegistry)
   = Some (NewPID ''local'' ''response/1'', False)"
  using response_shadowed [of "NewPID ''local'' ''response/1''" fst "(NewPID ''local'' ''response/1'', False)"
      "(NewPID ''local'' ''response/1'', True)" newRegistry]
  by (simp add: newRegistry_def reg_getByID_def isResponse_def responsePrefix_def pidSeparator_def)

end
