(* ===== verification/Strconv.thy ===== *)
theory Strconv
  imports Prelude "HOL-Library.Word"
begin

section \<open>Decimal and base-36 text (the uses of strconv and fmt)\<close>

text \<open>
  \<open>strconv.FormatUint(n, b)\<close> and the decimal output of \<open>fmt\<close> and \<open>strconv.Itoa\<close>: the
  digits of a number, most significant first, written with 0-9 and a-z.
\<close>

function digits :: "nat \<Rightarrow> nat \<Rightarrow> nat list" where
  "digits b n = (if b < 2 \<or> n < b then [n] else digits b (n div b) @ [n mod b])"
  by pat_completeness auto
termination
  by (relation "measure snd") auto

declare digits.simps [simp del]

definition digit_char :: "nat \<Rightarrow> char" where
  "digit_char d = (if d < 10 then char_of (48 + d) else char_of (87 + d))"

definition FormatUint :: "64 word \<Rightarrow> nat \<Rightarrow> string" where
  "FormatUint n b = map digit_char (digits b (unat n))"

definition Itoa :: "int \<Rightarrow> string" where
  "Itoa i = (if i < 0 then ''-'' @ map digit_char (digits 10 (nat (- i)))
             else map digit_char (digits 10 (nat i)))"

lemma digits_value: "foldl (\<lambda>a d. a * b + d) 0 (digits b n) = n"
proof (induction b n rule: digits.induct)
  case (1 b n)
  show ?case
  proof (cases "b < 2 \<or> n < b")
    case True
    then show ?thesis by (simp add: digits.simps [of b n])
  next
    case False
    then show ?thesis using 1 by (simp add: digits.simps [of b n])
  qed
qed

lemma digits_less: "2 \<le> b \<Longrightarrow> d \<in> set (digits b n) \<Longrightarrow> d < b"
proof (induction b n rule: digits.induct)
  case (1 b n)
  then show ?case
    by (cases "n < b") (auto simp: digits.simps [of b n])
qed

lemma digit_char_inj: "inj_on digit_char {..<36}"
proof (rule inj_onI)
  fix d e assume *: "d \<in> {..<36}" "e \<in> {..<36::nat}" "digit_char d = digit_char e"
  have "(of_char (digit_char d) :: nat) = of_char (digit_char e)" using *(3) by simp
  then show "d = e" using *(1,2) by (simp add: digit_char_def split: if_splits)
qed

lemma digits_inj:
  assumes "2 \<le> b" "b \<le> 36" "map digit_char (digits b m) = map digit_char (digits b n)"
  shows "m = n"
proof -
  have "inj_on digit_char (set (digits b m) \<union> set (digits b n))"
    by (rule inj_on_subset [OF digit_char_inj]) (use assms digits_less [of b] in fastforce)
  then have "digits b m = digits b n" using assms(3) by (simp add: inj_on_map_eq_map)
  then show ?thesis by (metis digits_value)
qed

lemma FormatUint_inj: "2 \<le> b \<Longrightarrow> b \<le> 36 \<Longrightarrow> FormatUint m b = FormatUint n b \<longleftrightarrow> m = n"
  using digits_inj [of b "unat m" "unat n"] by (auto simp: FormatUint_def intro: unsigned_word_eqI)

lemma digits_nonempty [simp]: "digits b n \<noteq> []"
  by (simp add: digits.simps [of b n])

subsection \<open>Reading numbers and addresses\<close>

text \<open>
  \<open>strconv.Atoi\<close> for a 64-bit \<open>int\<close>: the value and whether there was no error. A syntax error
  gives 0, a number out of range the nearest one in range.
\<close>

definition digit_val :: "char \<Rightarrow> nat option" where
  "digit_val c = (let n = of_char c :: nat in if 48 \<le> n \<and> n \<le> 57 then Some (n - 48) else None)"

fun parse_digits :: "string \<Rightarrow> nat \<Rightarrow> nat option" where
  "parse_digits [] a = Some a"
| "parse_digits (c # cs) a = (case digit_val c of None \<Rightarrow> None | Some d \<Rightarrow> parse_digits cs (a * 10 + d))"

definition Atoi :: "string \<Rightarrow> int \<times> bool" where
  "Atoi s =
     (let neg = (s \<noteq> [] \<and> hd s = CHR ''-'');
          ds = (if s \<noteq> [] \<and> (hd s = CHR ''-'' \<or> hd s = CHR ''+'') then tl s else s)
      in if ds = [] then (0, False)
         else case parse_digits ds 0 of
                None \<Rightarrow> (0, False)
              | Some n \<Rightarrow> (let v = (if neg then - int n else int n) in
                  if v > 2 ^ 63 - 1 then (2 ^ 63 - 1, False) else if v < - (2 ^ 63) then (- (2 ^ 63), False) else (v, True)))"

text \<open>\<open>net.SplitHostPort\<close>: \<open>None\<close> is its error, with which host and port are empty.\<close>

definition SplitHostPort :: "string \<Rightarrow> (string \<times> string) option" where
  "SplitHostPort s =
     (let port = rev (takeWhile (\<lambda>c. c \<noteq> CHR '':'') (rev s));
          i = length s - length port - 1;
          j = length (takeWhile (\<lambda>c. c \<noteq> CHR '']'') s)
      in if CHR '':'' \<notin> set s then None
         else if hd s = CHR ''['' then
           (if j = length s \<or> j + 1 \<noteq> i \<or> CHR ''['' \<in> set (drop 1 s) \<or> CHR '']'' \<in> set (drop (j + 1) s) then None
            else Some (take (j - 1) (drop 1 s), port))
         else if CHR '':'' \<in> set (take i s) \<or> CHR ''['' \<in> set s \<or> CHR '']'' \<in> set s then None
         else Some (take i s, port))"

lemma digit_val_char: "d < 10 \<Longrightarrow> digit_val (digit_char d) = Some d"
  by (simp add: digit_val_def digit_char_def)

lemma parse_digit_chars: "\<forall>d \<in> set ds. d < 10 \<Longrightarrow> parse_digits (map digit_char ds) a = Some (foldl (\<lambda>a d. a * 10 + d) a ds)"
  by (induction ds arbitrary: a) (auto simp: digit_val_char)

lemma digit_char_not: "d < 10 \<Longrightarrow> digit_char d \<noteq> CHR ''-'' \<and> digit_char d \<noteq> CHR ''+'' \<and> digit_char d \<noteq> CHR '':''
    \<and> digit_char d \<noteq> CHR ''['' \<and> digit_char d \<noteq> CHR '']''"
  by (auto simp: digit_char_def dest!: arg_cong [of _ _ "of_char :: char \<Rightarrow> nat"])

lemma Itoa_chars: "0 \<le> n \<Longrightarrow> \<exists>ds. Itoa n = map digit_char ds \<and> ds \<noteq> [] \<and> (\<forall>d \<in> set ds. d < 10) \<and> foldl (\<lambda>a d. a * 10 + d) 0 ds = nat n"
  using digits_less [of 10] digits_value [of 10] by (intro exI [of _ "digits 10 (nat n)"]) (auto simp: Itoa_def)

lemma Atoi_Itoa: "0 \<le> n \<Longrightarrow> n < 2 ^ 63 \<Longrightarrow> Atoi (Itoa n) = (n, True)"
proof -
  assume n: "0 \<le> n" "n < 2 ^ 63"
  obtain ds where ds: "Itoa n = map digit_char ds" "ds \<noteq> []" "\<forall>d \<in> set ds. d < 10" "foldl (\<lambda>a d. a * 10 + d) 0 ds = nat n"
    using Itoa_chars [OF n(1)] by blast
  have "hd (map digit_char ds) \<noteq> CHR ''-''" "hd (map digit_char ds) \<noteq> CHR ''+''"
    using ds(2,3) digit_char_not [of "hd ds"] by (auto simp: hd_map)
  then show ?thesis using ds n parse_digit_chars [OF ds(3), of 0] by (simp add: Atoi_def Let_def)
qed

text \<open>An address put together from a host and a port is taken apart into them again.\<close>

definition plain_host :: "string \<Rightarrow> bool" where
  "plain_host s \<longleftrightarrow> CHR '':'' \<notin> set s \<and> CHR ''['' \<notin> set s \<and> CHR '']'' \<notin> set s"

lemma SplitHostPort_join:
  assumes "plain_host host" "plain_host port"
  shows "SplitHostPort (host @ '':'' @ port) = Some (host, port)"
proof -
  let ?s = "host @ '':'' @ port"
  have "takeWhile (\<lambda>c. c \<noteq> CHR '':'') (rev port @ CHR '':'' # rev host) = rev port"
    using assms(2) by (subst takeWhile_append2) (auto simp: plain_host_def)
  then have p: "rev (takeWhile (\<lambda>c. c \<noteq> CHR '':'') (rev ?s)) = port" by simp
  have "hd ?s \<noteq> CHR ''[''" using assms(1) by (cases host) (auto simp: plain_host_def)
  then show ?thesis using assms unfolding SplitHostPort_def Let_def p by (simp add: plain_host_def)
qed

text \<open>What was split: host and port with a colon between them, and brackets around the host if there were any.\<close>

lemma last_colon:
  assumes "CHR '':'' \<in> set s"
  shows "s = take (length s - length (rev (takeWhile (\<lambda>c. c \<noteq> CHR '':'') (rev s))) - 1) s @ '':'' @ rev (takeWhile (\<lambda>c. c \<noteq> CHR '':'') (rev s))"
proof -
  obtain xs ys where s: "s = xs @ CHR '':'' # ys" "CHR '':'' \<notin> set ys" using split_list_last [OF assms] by blast
  have "takeWhile (\<lambda>c. c \<noteq> CHR '':'') (rev ys @ CHR '':'' # rev xs) = rev ys"
    using s(2) by (subst takeWhile_append2) auto
  then show ?thesis by (simp add: s(1))
qed

lemma SplitHostPort_parts:
  assumes "SplitHostPort s = Some (host, port)"
  shows "s = (if hd s = CHR ''['' then ''['' @ host @ '']:'' @ port else host @ '':'' @ port)"
proof -
  define q where "q = rev (takeWhile (\<lambda>c. c \<noteq> CHR '':'') (rev s))"
  define i where "i = length s - length q - 1"
  define j where "j = length (takeWhile (\<lambda>c. c \<noteq> CHR '']'') s)"
  have c: "CHR '':'' \<in> set s" using assms by (auto simp: SplitHostPort_def Let_def split: if_splits)
  have l: "s = take i s @ '':'' @ q" using last_colon [OF c] by (simp only: q_def i_def)
  show ?thesis
  proof (cases "hd s = CHR ''[''")
    case False
    then show ?thesis using assms l c by (auto simp: SplitHostPort_def Let_def q_def i_def split: if_splits)
  next
    case True
    then have h: "j \<noteq> length s" "j + 1 = i" "host = take (j - 1) (drop 1 s)" "port = q"
      using assms c by (auto simp: SplitHostPort_def Let_def q_def i_def j_def split: if_splits)
    have jl: "j < length s" using h(1) length_takeWhile_le [of "\<lambda>c. c \<noteq> CHR '']''" s] by (simp add: j_def)
    then have b: "s ! j = CHR '']''" using nth_length_takeWhile [of "\<lambda>c. c \<noteq> CHR '']''" s] by (simp add: j_def)
    obtain s' where s: "s = CHR ''['' # s'" using True c by (cases s) auto
    have "j \<noteq> 0"
    proof
      assume "j = 0"
      then show False using b s by simp
    qed
    then obtain k where k: "j = Suc k" by (cases j) auto
    have "take i s = take j s @ [CHR '']'']" using take_Suc_conv_app_nth [OF jl] b h(2) by simp
    moreover have "take j s = CHR ''['' # host" using h(3) s k by simp
    ultimately have "s = (CHR ''['' # host @ [CHR '']'']) @ '':'' @ port" using l h(4) by simp
    then show ?thesis using True by simp
  qed
qed

lemma plain_host_Itoa: "0 \<le> n \<Longrightarrow> plain_host (Itoa n)"
proof -
  assume "0 \<le> n"
  then obtain ds where "Itoa n = map digit_char ds" "\<forall>d \<in> set ds. d < 10" using Itoa_chars by blast
  then show ?thesis using digit_char_not by (fastforce simp: plain_host_def)
qed

end
