(* ===== verification/Engine.thy ===== *)
theory Engine
  imports Messages Registry Strconv
begin

section \<open>The engine: routing, spawning, requests (actor/engine.go, response.go)\<close>

text \<open>
  The engine resolves a PID in the registry and hands the message to the processer it finds.
  A processer is a handle into \<open>e_heap\<close>: an actor process with the messages its inbox has
  received (what the process does with them is theory \<open>Process\<close>), the response of a pending
  request with its channel of capacity one, or a processer of another package with the calls
  of \<open>Send\<close> it got. The remote is an interface: its address and the messages handed to it.
  A context with its cancel function is a handle, cancelled when it is in \<open>e_cancelled\<close>.
  \<open>responseSeq\<close> is the package variable of response.go.
\<close>

datatype 'm processer =
    ProcObj (obj_pid: pid) (mailbox: "'m envelope list")
  | RespObj (obj_pid: pid) (result: "'m msg option") (timeout: int)
  | CustomObj (obj_pid: pid) (calls: "(pid option \<times> 'm msg \<times> pid option) list")

record 'm remoter =
  rem_Address :: string
  rem_sent :: "(pid \<times> 'm msg \<times> pid option) list"

record 'm engine_config =
  cfg_remote :: "'m remoter option"

definition NewEngineConfig :: "'m engine_config" where
  "NewEngineConfig = \<lparr>cfg_remote = None\<rparr>"

definition WithRemote :: "'m remoter \<Rightarrow> 'm engine_config \<Rightarrow> 'm engine_config" where
  "WithRemote rm config = config\<lparr>cfg_remote := Some rm\<rparr>"

record 'm engine =
  e_Registry :: "nat registry"
  e_heap :: "nat \<Rightarrow> 'm processer"
  e_size :: nat
  e_started :: "nat list"
  e_address :: string
  e_remote :: "'m remoter option"
  e_eventStream :: "pid option"
  e_responseSeq :: "64 word"
  e_contexts :: nat
  e_cancelled :: "nat set"

abbreviation pidof :: "'m engine \<Rightarrow> nat \<Rightarrow> pid" where
  "pidof e \<equiv> (\<lambda>h. obj_pid (e_heap e h))"

text \<open>A send returns, blocks for good on a full response channel, or recurses without end.\<close>

datatype send_out = SDone | SBlocked | SLoop

definition eng_Address :: "'m engine \<Rightarrow> string" where
  "eng_Address e = e_address e"

definition isLocalMessage :: "pid option \<Rightarrow> 'm engine \<Rightarrow> bool" where
  "isLocalMessage q e = (case q of None \<Rightarrow> False | Some q \<Rightarrow> e_address e = Address q)"

text \<open>\<open>Processer.Send\<close> of each kind of processer.\<close>

definition proc_send :: "nat \<Rightarrow> pid option \<Rightarrow> 'm msg \<Rightarrow> pid option \<Rightarrow> 'm engine \<Rightarrow> send_out \<times> 'm engine" where
  "proc_send h q m src e =
     (case e_heap e h of
        ProcObj p mb \<Rightarrow> (SDone, e\<lparr>e_heap := (e_heap e)(h := ProcObj p (mb @ [\<lparr>Msg = m, Sender = src\<rparr>]))\<rparr>)
      | RespObj p None t \<Rightarrow> (SDone, e\<lparr>e_heap := (e_heap e)(h := RespObj p (Some m) t)\<rparr>)
      | RespObj p (Some _) t \<Rightarrow> (SBlocked, e)
      | CustomObj p cs \<Rightarrow> (SDone, e\<lparr>e_heap := (e_heap e)(h := CustomObj p (cs @ [(q, m, src)]))\<rparr>))"

fun eng_send :: "nat \<Rightarrow> pid option \<Rightarrow> 'm msg \<Rightarrow> pid option \<Rightarrow> 'm engine \<Rightarrow> send_out \<times> 'm engine"
and SendLocal :: "nat \<Rightarrow> pid option \<Rightarrow> 'm msg \<Rightarrow> pid option \<Rightarrow> 'm engine \<Rightarrow> send_out \<times> 'm engine"
and BroadcastEvent :: "nat \<Rightarrow> 'm msg \<Rightarrow> 'm engine \<Rightarrow> send_out \<times> 'm engine"
where
  "eng_send 0 q m src e = (SLoop, e)"
| "eng_send (Suc f) q m src e =
     (case q of
        None \<Rightarrow> (SDone, e)
      | Some pid \<Rightarrow>
          if isLocalMessage q e then SendLocal f q m src e
          else (case e_remote e of
                  None \<Rightarrow> BroadcastEvent f (EngineRemoteMissingEvent q src m) e
                | Some rm \<Rightarrow> (SDone, e\<lparr>e_remote := Some (rm\<lparr>rem_sent := rem_sent rm @ [(pid, m, src)]\<rparr>)\<rparr>)))"
| "SendLocal 0 q m src e = (SLoop, e)"
| "SendLocal (Suc f) q m src e =
     (case reg_get q (e_Registry e) of
        None \<Rightarrow> BroadcastEvent f (DeadLetterEvent q m src) e
      | Some h \<Rightarrow> proc_send h q m src e)"
| "BroadcastEvent 0 m e = (SLoop, e)"
| "BroadcastEvent (Suc f) m e =
     (case e_eventStream e of None \<Rightarrow> (SDone, e) | Some es \<Rightarrow> eng_send f (Some es) m None e)"

text \<open>The fuel used by the methods below; \<open>send_fuel_enough\<close> shows that more makes no difference.\<close>

definition send_fuel :: nat where
  "send_fuel = 6"

definition SendWithSender :: "pid option \<Rightarrow> 'm msg \<Rightarrow> pid option \<Rightarrow> 'm engine \<Rightarrow> send_out \<times> 'm engine" where
  "SendWithSender q m src e = eng_send send_fuel q m src e"

definition eng_Send :: "pid option \<Rightarrow> 'm msg \<Rightarrow> 'm engine \<Rightarrow> send_out \<times> 'm engine" where
  "eng_Send q m e = eng_send send_fuel q m None e"

definition eng_Broadcast :: "'m msg \<Rightarrow> 'm engine \<Rightarrow> send_out \<times> 'm engine" where
  "eng_Broadcast m e = BroadcastEvent send_fuel m e"

definition Subscribe :: "pid_ptr \<Rightarrow> 'm engine \<Rightarrow> send_out \<times> 'm engine" where
  "Subscribe q e = eng_Send (e_eventStream e) (EventSub q) e"

definition Unsubscribe :: "pid_ptr \<Rightarrow> 'm engine \<Rightarrow> send_out \<times> 'm engine" where
  "Unsubscribe q e = eng_Send (e_eventStream e) (EventUnsub q) e"

subsection \<open>Spawning\<close>

text \<open>
  \<open>SpawnProc\<close>: \<open>Registry.add\<close>, then the event of a duplicate or \<open>proc.Start()\<close>. The engine does not know
  the processer behind the interface, so \<open>e_started\<close> records that \<open>Start\<close> was called on the handle. What
  it does then is the processer's own: \<open>proc_Start\<close> of theory \<open>Process\<close> for a process, whose calls and
  broadcasts \<open>start_actor\<close> of theory \<open>Starters\<close> applies to the engine, \<open>writer_Start\<close> of theory
  \<open>Remote\<close> for a stream writer, and nothing for a response.
\<close>

definition alloc :: "'m processer \<Rightarrow> 'm engine \<Rightarrow> nat \<times> 'm engine" where
  "alloc p e = (e_size e, e\<lparr>e_heap := (e_heap e)(e_size e := p), e_size := Suc (e_size e)\<rparr>)"

definition SpawnProc :: "'m processer \<Rightarrow> 'm engine \<Rightarrow> pid \<times> send_out \<times> 'm engine" where
  "SpawnProc p e =
     (let (h, e1) = alloc p e;
          (added, reg) = reg_add (pidof e1) h (e_Registry e1);
          e2 = e1\<lparr>e_Registry := reg\<rparr>
      in if added then (obj_pid p, SDone, e2\<lparr>e_started := e_started e2 @ [h]\<rparr>)
         else (obj_pid p, eng_Broadcast (ActorDuplicateIdEvent (Some (obj_pid p))) e2))"

text \<open>The options of a spawn: defaults, the kind, the option functions, a random id if there is none.\<close>

definition spawn_opts :: "string \<Rightarrow> (('u, 'm, 'a) opts \<Rightarrow> ('u, 'm, 'a) opts) list \<Rightarrow> nat \<Rightarrow> ('u, 'm, 'a) opts \<Rightarrow> ('u, 'm, 'a) opts" where
  "spawn_opts kind fs random op =
     (let op1 = fold (\<lambda>f x. f x) fs (op\<lparr>Kind := kind\<rparr>) in
      if length (OptID op1) = 0 then op1\<lparr>OptID := Itoa (int random)\<rparr> else op1)"

definition Spawn :: "string \<Rightarrow> (('u, 'm, 'a) opts \<Rightarrow> ('u, 'm, 'a) opts) list \<Rightarrow> nat \<Rightarrow> ('u, 'm, 'a) opts \<Rightarrow>
    'm engine \<Rightarrow> pid \<times> send_out \<times> 'm engine" where
  "Spawn kind fs random op e =
     (let op1 = spawn_opts kind fs random op in
      SpawnProc (ProcObj (NewPID (e_address e) (Kind op1 @ pidSeparator @ OptID op1)) []) e)"

text \<open>
  \<open>newFuncReceiver\<close>: every receiver it produces calls the same function, so what the function
  has captured, the state \<open>'u\<close>, survives a restart.
\<close>

definition newFuncReceiver :: "'u \<Rightarrow> 'u \<times> 'm panic_val option" where
  "newFuncReceiver captured = (captured, None)"

definition funcReceiver_Receive :: "('u, 'm, 'a) receive_func \<Rightarrow> ('u, 'm, 'a) receive_func" where
  "funcReceiver_Receive f c captured = f c captured"

definition SpawnFunc :: "('u, 'm, 'a) receive_func \<Rightarrow> string \<Rightarrow> (('u, 'm, 'a) opts \<Rightarrow> ('u, 'm, 'a) opts) list \<Rightarrow> nat \<Rightarrow>
    'm engine \<Rightarrow> pid \<times> send_out \<times> 'm engine" where
  "SpawnFunc f kind fs random e = Spawn kind fs random (DefaultOpts newFuncReceiver (funcReceiver_Receive f)) e"

text \<open>
  \<open>NewEngine\<close>: the event stream is spawned while \<open>eventStream\<close> is still nil. \<open>start\<close> is the method
  \<open>Start\<close> of the remote, called with the engine under construction; \<open>None\<close> is an error.
\<close>

definition NewEngine :: "'m engine_config \<Rightarrow> ('m engine \<Rightarrow> 'm engine option) \<Rightarrow> nat \<Rightarrow> 64 word \<Rightarrow> 'm engine option" where
  "NewEngine config start random seq =
     (let e = \<lparr>e_Registry = newRegistry, e_heap = (\<lambda>_. ProcObj (NewPID [] []) []), e_size = 0, e_started = [],
               e_address = LocalLookupAddr, e_remote = None, e_eventStream = None, e_responseSeq = seq,
               e_contexts = 0, e_cancelled = {}\<rparr>;
          started = (case cfg_remote config of
                       None \<Rightarrow> Some e
                     | Some rm \<Rightarrow> start (e\<lparr>e_remote := Some rm, e_address := rem_Address rm\<rparr>))
      in case started of
           None \<Rightarrow> None
         | Some e1 \<Rightarrow>
             (case Spawn ''eventstream'' [] random (DefaultOpts (\<lambda>u. (u, None)) (\<lambda>c u. (u, [], None)) :: (unit, 'm, unit) opts) e1 of
                (q, _, e2) \<Rightarrow> Some (e2\<lparr>e_eventStream := Some q\<rparr>)))"

subsection \<open>Poison pills\<close>

definition sendPoisonPill :: "bool \<Rightarrow> pid option \<Rightarrow> 'm engine \<Rightarrow> nat \<times> send_out \<times> 'm engine" where
  "sendPoisonPill grace q e =
     (let ctx = e_contexts e;
          e1 = e\<lparr>e_contexts := Suc ctx\<rparr>;
          pill = PoisonPill (Some ctx) grace
      in case reg_get q (e_Registry e1) of
           None \<Rightarrow> (case eng_Broadcast (DeadLetterEvent q pill None) e1 of
                      (SDone, e2) \<Rightarrow> (ctx, SDone, e2\<lparr>e_cancelled := insert ctx (e_cancelled e2)\<rparr>)
                    | (r, e2) \<Rightarrow> (ctx, r, e2))
         | Some _ \<Rightarrow> (ctx, SendLocal send_fuel q pill None e1))"

definition Poison :: "pid option \<Rightarrow> 'm engine \<Rightarrow> nat \<times> send_out \<times> 'm engine" where
  "Poison q e = sendPoisonPill True q e"

definition eng_Stop :: "pid option \<Rightarrow> 'm engine \<Rightarrow> nat \<times> send_out \<times> 'm engine" where
  "eng_Stop q e = sendPoisonPill False q e"

subsection \<open>Requests\<close>

definition NewResponse :: "int \<Rightarrow> 'm engine \<Rightarrow> 'm processer \<times> 'm engine" where
  "NewResponse tmo e =
     (let n = e_responseSeq e + 1 in
      (RespObj (NewPID (e_address e) (responsePrefix @ pidSeparator @ FormatUint n 36)) None tmo,
       e\<lparr>e_responseSeq := n\<rparr>))"

definition Request :: "pid option \<Rightarrow> 'm msg \<Rightarrow> int \<Rightarrow> 'm engine \<Rightarrow> nat \<times> send_out \<times> 'm engine" where
  "Request q m tmo e =
     (let (resp, e1) = NewResponse tmo e;
          (h, e2) = alloc resp e1;
          e3 = e2\<lparr>e_Registry := registerResponse (pidof e2) h (e_Registry e2)\<rparr>
      in (h, SendWithSender q m (Some (obj_pid resp)) e3))"

text \<open>
  \<open>Result\<close>: the value in the channel, or \<open>None\<close>, the error, when the deadline passes while it is
  empty. When a value is there and the deadline has passed, \<open>select\<close> takes either: \<open>expired\<close> says
  that it takes the deadline. The deferred function removes the response from the registry in
  every case. \<open>Result\<close> is the call whose value comes in time.
\<close>

definition Result_select :: "bool \<Rightarrow> nat \<Rightarrow> 'm engine \<Rightarrow> 'm msg option \<times> 'm engine" where
  "Result_select expired h e =
     (let e1 = e\<lparr>e_Registry := reg_Remove (obj_pid (e_heap e h)) (e_Registry e)\<rparr> in
      case e_heap e h of
        RespObj p (Some m) t \<Rightarrow> if expired then (None, e1) else (Some m, e1\<lparr>e_heap := (e_heap e1)(h := RespObj p None t)\<rparr>)
      | _ \<Rightarrow> (None, e1))"

abbreviation Result :: "nat \<Rightarrow> 'm engine \<Rightarrow> 'm msg option \<times> 'm engine" where
  "Result h e \<equiv> Result_select False h e"

subsection \<open>Repeated sends\<close>

record 'm send_repeater =
  sr_self :: "pid option"
  sr_target :: "pid option"
  sr_msg :: "'m msg"
  sr_interval :: int
  sr_closed :: bool

definition SendRepeat :: "pid option \<Rightarrow> 'm msg \<Rightarrow> int \<Rightarrow> 'm send_repeater res" where
  "SendRepeat q m interval =
     (case q of
        None \<Rightarrow> Inl NilDeref
      | Some q \<Rightarrow> Inr \<lparr>sr_self = None, sr_target = Some q, sr_msg = m, sr_interval = interval, sr_closed = False\<rparr>)"

text \<open>
  One round of the repeater's goroutine: a tick sends, a closed \<open>cancelch\<close> ends it (\<open>None\<close>).
  When both are ready the runtime picks one, so the choice is an argument.
\<close>

definition sr_round :: "bool \<Rightarrow> 'm send_repeater \<Rightarrow> 'm engine \<Rightarrow> (send_out \<times> 'm engine) option" where
  "sr_round tick sr e =
     (if tick \<or> \<not> sr_closed sr then Some (SendWithSender (sr_target sr) (sr_msg sr) (sr_self sr) e) else None)"

definition sr_Stop :: "'m send_repeater \<Rightarrow> 'm send_repeater res" where
  "sr_Stop sr = (if sr_closed sr then Inl CloseOfClosed else Inr (sr\<lparr>sr_closed := True\<rparr>))"

subsection \<open>Where a message goes\<close>

text \<open>
  The event stream is in place: it is registered at the engine's address and its processer is
  an actor process.
\<close>

definition stream_ok :: "pid \<Rightarrow> nat \<Rightarrow> 'm engine \<Rightarrow> bool" where
  "stream_ok es h e \<longleftrightarrow> e_eventStream e = Some es \<and> Address es = e_address e \<and> reg_lookup (e_Registry e) (ID es) = Some h
     \<and> (\<exists>p mb. e_heap e h = ProcObj p mb)"

text \<open>The specification of \<open>send\<close>: what is handed to whom.\<close>

datatype 'm destination =
    Nowhere
  | Handed nat "pid option" "'m msg" "pid option"
  | OverNetwork pid "'m msg" "pid option"

definition route :: "pid \<Rightarrow> nat \<Rightarrow> pid option \<Rightarrow> 'm msg \<Rightarrow> pid option \<Rightarrow> 'm engine \<Rightarrow> 'm destination" where
  "route es h q m src e =
     (case q of
        None \<Rightarrow> Nowhere
      | Some p \<Rightarrow>
          if Address p = e_address e
          then (case reg_get q (e_Registry e) of
                  Some g \<Rightarrow> Handed g q m src
                | None \<Rightarrow> Handed h (Some es) (DeadLetterEvent q m src) None)
          else if e_remote e = None then Handed h (Some es) (EngineRemoteMissingEvent q src m) None
          else OverNetwork p m src)"

definition arrive :: "'m destination \<Rightarrow> 'm engine \<Rightarrow> send_out \<times> 'm engine" where
  "arrive d e =
     (case d of
        Nowhere \<Rightarrow> (SDone, e)
      | Handed h q m src \<Rightarrow> proc_send h q m src e
      | OverNetwork p m src \<Rightarrow>
          (SDone, e\<lparr>e_remote := map_option (\<lambda>rm. rm\<lparr>rem_sent := rem_sent rm @ [(p, m, src)]\<rparr>) (e_remote e)\<rparr>))"

lemma stream_get: "stream_ok es h e \<Longrightarrow> reg_get (Some es) (e_Registry e) = Some h"
  by (simp add: stream_ok_def reg_get_def)

lemma broadcast_arrives:
  assumes "stream_ok es h e"
  shows "BroadcastEvent (Suc (Suc (Suc f))) m e = proc_send h (Some es) m None e"
  using assms stream_get [OF assms] by (auto simp: stream_ok_def isLocalMessage_def)

lemma eng_Broadcast_arrives: "stream_ok es h e \<Longrightarrow> eng_Broadcast m e = proc_send h (Some es) m None e"
  using broadcast_arrives [of es h e "Suc (Suc (Suc 0))" m] by (simp add: eng_Broadcast_def send_fuel_def eval_nat_numeral)

lemma send_arrives:
  assumes "stream_ok es h e"
  shows "eng_send (Suc (Suc (Suc (Suc (Suc f))))) q m src e = arrive (route es h q m src e) e"
proof (cases q)
  case (Some p)
  note b = broadcast_arrives [OF assms]
  show ?thesis
  proof (cases "Address p = e_address e")
    case True
    then show ?thesis using Some b by (cases "reg_get q (e_Registry e)") (simp_all add: isLocalMessage_def route_def arrive_def)
  next
    case False
    then show ?thesis using Some b [of "Suc f"] by (cases "e_remote e") (simp_all add: isLocalMessage_def route_def arrive_def)
  qed
qed (simp add: route_def arrive_def)

text \<open>Nothing is registered for the event stream, or it is elsewhere and there is no remote: every broadcast recurses.\<close>

definition stream_lost :: "pid \<Rightarrow> 'm engine \<Rightarrow> bool" where
  "stream_lost es e \<longleftrightarrow> e_eventStream e = Some es \<and>
     (if Address es = e_address e then reg_get (Some es) (e_Registry e) = None else e_remote e = None)"

lemma lost_loops:
  assumes "stream_lost es e"
  shows "BroadcastEvent f m e = (SLoop, e) \<and> eng_send f (Some es) m src e = (SLoop, e)
     \<and> (Address es = e_address e \<longrightarrow> SendLocal f (Some es) m src e = (SLoop, e))"
proof (induction f arbitrary: m src)
  case (Suc f)
  have "BroadcastEvent (Suc f) m e = (SLoop, e)" using Suc assms by (simp add: stream_lost_def)
  moreover have "Address es = e_address e \<Longrightarrow> SendLocal (Suc f) (Some es) m src e = (SLoop, e)"
    using Suc assms by (simp add: stream_lost_def)
  moreover have "eng_send (Suc f) (Some es) m src e = (SLoop, e)"
  proof (cases "Address es = e_address e")
    case True
    then have "SendLocal f (Some es) m src e = (SLoop, e)" using Suc by simp
    then show ?thesis using True by (simp add: isLocalMessage_def)
  next
    case False
    then have "e_remote e = None" using assms by (simp add: stream_lost_def)
    then show ?thesis using Suc False by (simp add: isLocalMessage_def)
  qed
  ultimately show ?case by simp
qed simp

lemma send_lost:
  assumes "stream_lost es e" "fst (eng_send f q m src e) \<noteq> SLoop"
  shows "eng_send send_fuel q m src e = eng_send f q m src e"
proof (cases f)
  case (Suc g)
  have n: "fst (SendLocal g q m src e) \<noteq> SLoop \<Longrightarrow> SendLocal 5 q m src e = SendLocal g q m src e"
    using lost_loops [OF assms(1)] by (cases g; cases "reg_get q (e_Registry e)") (simp_all add: eval_nat_numeral)
  show ?thesis
    using assms(2) n lost_loops [OF assms(1)] unfolding Suc send_fuel_def
    by (auto simp: eval_nat_numeral split: option.splits if_splits)
qed (use assms in simp)

lemma nat_steps5:
  obtains "n = 0" | "n = Suc 0" | "n = Suc (Suc 0)" | "n = Suc (Suc (Suc 0))" | "n = Suc (Suc (Suc (Suc 0)))"
  | k where "n = Suc (Suc (Suc (Suc (Suc k))))"
  by (metis not0_implies_Suc)

lemma send_fuel_cases:
  obtains es where "stream_lost es e" | "e_eventStream e = None" | es h where "e_eventStream e = Some es"
    "Address es = e_address e" "reg_get (Some es) (e_Registry e) = Some h"
  | es rm where "e_eventStream e = Some es" "Address es \<noteq> e_address e" "e_remote e = Some rm"
proof (cases "e_eventStream e")
  case (Some es)
  then show ?thesis
    using that(1) [of es] that(3) [of es] that(4) [of es]
    by (cases "Address es = e_address e"; cases "reg_get (Some es) (e_Registry e)"; cases "e_remote e")
      (simp_all add: stream_lost_def)
qed (use that(2) in simp)

text \<open>
  Six nested calls are enough for \<open>send\<close>: with whatever fuel it comes to an end, it comes
  to the same end with \<open>send_fuel\<close>. So where the model says \<open>SLoop\<close>, the recursion between
  \<open>send\<close>, \<open>SendLocal\<close> and \<open>BroadcastEvent\<close> has no end.
\<close>

theorem send_fuel_enough:
  assumes "fst (eng_send f q m src e) \<noteq> SLoop"
  shows "eng_send send_fuel q m src e = eng_send f q m src e"
proof (rule send_fuel_cases [of e])
  fix es assume "stream_lost es e"
  then show ?thesis using send_lost assms by blast
next
  have u: "send_fuel = Suc (Suc (Suc (Suc (Suc (Suc 0)))))" by (simp add: send_fuel_def)
  {
    assume "e_eventStream e = None"
    then show ?thesis using assms unfolding u
      by (cases f rule: nat_steps5) (auto simp: isLocalMessage_def split: option.splits if_splits)
  next
    fix es h assume "e_eventStream e = Some es" "Address es = e_address e" "reg_get (Some es) (e_Registry e) = Some h"
    then show ?thesis using assms unfolding u
      by (cases f rule: nat_steps5) (auto simp: isLocalMessage_def split: option.splits if_splits)
  next
    fix es rm assume "e_eventStream e = Some es" "Address es \<noteq> e_address e" "e_remote e = Some rm"
    then show ?thesis using assms unfolding u
      by (cases f rule: nat_steps5) (auto simp: isLocalMessage_def split: option.splits if_splits)
  }
qed

theorem send_fuel_enough_witness:
  "\<exists>e :: nat engine. eng_send send_fuel None Started None e = (SDone, e)"
proof -
  obtain e :: "nat engine" where True by blast
  have "fst (eng_send (Suc 0) None Started None e) \<noteq> SLoop" by simp
  from send_fuel_enough [OF this] show ?thesis by auto
qed

lemma SendWithSender_arrives:
  assumes "stream_ok es h e"
  shows "SendWithSender q m src e = arrive (route es h q m src e) e"
  unfolding SendWithSender_def send_fuel_def using send_arrives [OF assms, of "Suc 0"] by (simp add: eval_nat_numeral)

text \<open>
  C10. Where a message goes. As long as the event stream is in place, \<open>SendWithSender\<close> does
  exactly what the routing specification says: a nil target gets nothing; a local target gets
  the message in its own inbox with the sender; an unknown local target turns into one
  \<open>DeadLetterEvent\<close>, and a target elsewhere without a remote into one
  \<open>EngineRemoteMissingEvent\<close>, in the inbox of the event stream; otherwise the remote gets it.
\<close>

theorem send_routes:
  assumes "stream_ok es h e"
  shows "SendWithSender q m src e = arrive (route es h q m src e) e"
  by (rule SendWithSender_arrives [OF assms])

subsection \<open>The invariant of an engine\<close>

text \<open>
  Every handle in the registry is allocated and stored under the id of its processer; the
  processers below the next handle are the ones allocated.
\<close>

definition eng_inv :: "'m engine \<Rightarrow> bool" where
  "eng_inv e \<longleftrightarrow> reg_inv (pidof e) (e_Registry e) \<and>
     (\<forall>i g. reg_lookup (e_Registry e) i = Some g \<or> responses (e_Registry e) i = Some g \<longrightarrow> g < e_size e)"

text \<open>What a send may change: contents of processers and the remote's log, never who is registered.\<close>

definition same_shape :: "'m engine \<Rightarrow> 'm engine \<Rightarrow> bool" where
  "same_shape e e' \<longleftrightarrow> e_Registry e' = e_Registry e \<and> e_size e' = e_size e \<and> pidof e' = pidof e \<and>
     e_address e' = e_address e \<and> e_eventStream e' = e_eventStream e \<and> e_responseSeq e' = e_responseSeq e \<and>
     e_cancelled e' = e_cancelled e \<and> e_started e' = e_started e \<and> (\<forall>h p mb. e_heap e h = ProcObj p mb \<longrightarrow> (\<exists>mb'. e_heap e' h = ProcObj p mb'))"

lemma same_shape_refl [simp]: "same_shape e e"
  by (simp add: same_shape_def)

lemma proc_send_shape: "same_shape e (snd (proc_send h q m src e))"
  by (auto simp: proc_send_def same_shape_def split: processer.splits option.splits)

lemma sends_shape:
  "same_shape e (snd (eng_send f q m src e))"
  "same_shape e (snd (SendLocal f q m src e))"
  "same_shape e (snd (BroadcastEvent f m e))"
proof (induction f q m src e and f q m src e and f m e rule: eng_send_SendLocal_BroadcastEvent.induct)
  case (2 f q m src e)
  then show ?case by (auto split: option.splits simp: same_shape_def)
next
  case (4 f q m src e)
  then show ?case using proc_send_shape by (auto split: option.splits)
next
  case (6 f m e)
  then show ?case by (auto split: option.splits)
qed simp_all

lemma eng_Broadcast_shape: "same_shape e (snd (eng_Broadcast m e))"
  by (simp add: eng_Broadcast_def sends_shape)

lemma same_shape_inv: "same_shape e e' \<Longrightarrow> eng_inv e \<Longrightarrow> eng_inv e'"
  by (simp add: same_shape_def eng_inv_def)

lemma same_shape_stream: "same_shape e e' \<Longrightarrow> stream_ok es h e \<Longrightarrow> stream_ok es h e'"
  unfolding same_shape_def stream_ok_def by metis

lemma alloc_inv:
  assumes "eng_inv e" "alloc p e = (h, e1)"
  shows "eng_inv e1" "h = e_size e" "e_size e1 = Suc h" "e_Registry e1 = e_Registry e" "e_heap e1 = (e_heap e)(h := p)"
    "e_address e1 = e_address e" "e_eventStream e1 = e_eventStream e"
proof -
  show "h = e_size e" "e_size e1 = Suc h" "e_Registry e1 = e_Registry e" "e_heap e1 = (e_heap e)(h := p)"
    "e_address e1 = e_address e" "e_eventStream e1 = e_eventStream e"
    using assms(2) by (auto simp: alloc_def)
  then show "eng_inv e1" using assms(1) by (fastforce simp: eng_inv_def reg_inv_def)
qed

lemma Remove_inv: "eng_inv e \<Longrightarrow> eng_inv (e\<lparr>e_Registry := reg_Remove q (e_Registry e)\<rparr>)"
  using reg_inv_apply [of "pidof e" "e_Registry e" "RRemove q"]
  by (auto simp: eng_inv_def reg_Remove_def split: if_splits)

lemma SpawnProc_inv:
  assumes "eng_inv e"
  shows "eng_inv (snd (snd (SpawnProc p e)))"
proof -
  obtain h e1 where a: "alloc p e = (h, e1)" by fastforce
  note i = alloc_inv [OF assms a]
  obtain ok reg where r: "reg_add (pidof e1) h (e_Registry e1) = (ok, reg)" by fastforce
  have "reg_inv (pidof e1) reg"
    using reg_inv_apply [of "pidof e1" "e_Registry e1" "RAdd h"] i(1) r by (simp add: eng_inv_def)
  then have e2: "eng_inv (e1\<lparr>e_Registry := reg\<rparr>)"
    using r i(1,3) by (auto simp: eng_inv_def reg_add_def split: option.splits if_splits)
  then have "eng_inv ((e1\<lparr>e_Registry := reg\<rparr>)\<lparr>e_started := e_started e1 @ [h]\<rparr>)" by (simp add: eng_inv_def)
  then show ?thesis
    using same_shape_inv [OF eng_Broadcast_shape e2] by (simp add: SpawnProc_def a r Let_def)
qed

lemma Request_inv:
  assumes "eng_inv e"
  shows "eng_inv (snd (snd (Request q m tmo e)))"
proof -
  obtain resp e0 where n: "NewResponse tmo e = (resp, e0)" by fastforce
  have "eng_inv e0" using n assms by (auto simp: NewResponse_def Let_def eng_inv_def)
  obtain h e1 where a: "alloc resp e0 = (h, e1)" by fastforce
  note i = alloc_inv [OF \<open>eng_inv e0\<close> a]
  have "reg_inv (pidof e1) (registerResponse (pidof e1) h (e_Registry e1))"
    using reg_inv_apply [of "pidof e1" "e_Registry e1" "RResponse h"] i(1) by (simp add: eng_inv_def)
  then have "eng_inv (e1\<lparr>e_Registry := registerResponse (pidof e1) h (e_Registry e1)\<rparr>)"
    using i(1,3) by (auto simp: eng_inv_def registerResponse_def split: if_splits)
  then show ?thesis using same_shape_inv [OF sends_shape(1)] by (simp add: Request_def n a Let_def SendWithSender_def)
qed

lemma Result_inv:
  assumes "eng_inv e"
  shows "eng_inv (snd (Result h e))"
proof -
  let ?e1 = "e\<lparr>e_Registry := reg_Remove (obj_pid (e_heap e h)) (e_Registry e)\<rparr>"
  have "pidof (?e1\<lparr>e_heap := (e_heap e)(h := RespObj p None t)\<rparr>) = pidof ?e1" if "obj_pid (e_heap e h) = p" for p t
    using that by auto
  then have "eng_inv (?e1\<lparr>e_heap := (e_heap e)(h := RespObj p None t)\<rparr>)" if "obj_pid (e_heap e h) = p" for p t
    using Remove_inv [OF assms] that by (simp add: eng_inv_def)
  then show ?thesis using Remove_inv [OF assms] by (auto simp: Result_select_def Let_def split: processer.split option.split)
qed

lemma Poison_inv: "eng_inv e \<Longrightarrow> eng_inv (snd (snd (sendPoisonPill g q e)))"
proof -
  assume e: "eng_inv e"
  let ?e1 = "e\<lparr>e_contexts := Suc (e_contexts e)\<rparr>"
  have "eng_inv ?e1" using e by (simp add: eng_inv_def)
  note s = same_shape_inv [OF eng_Broadcast_shape this] same_shape_inv [OF sends_shape(2) this]
  obtain r e2 where b: "eng_Broadcast (DeadLetterEvent q (PoisonPill (Some (e_contexts e)) g) None) ?e1 = (r, e2)" by fastforce
  have "eng_inv e2" using s(1) [of "DeadLetterEvent q (PoisonPill (Some (e_contexts e)) g) None"] b by simp
  then have "eng_inv (e2\<lparr>e_cancelled := x\<rparr>)" for x by (simp add: eng_inv_def)
  then show ?thesis
    using \<open>eng_inv e2\<close> s(2) b by (auto simp: sendPoisonPill_def Let_def split: option.split send_out.split)
qed

text \<open>What can happen to an engine.\<close>

datatype 'm eng_op =
    OSend "pid option" "'m msg" "pid option"
  | OSpawn "'m processer"
  | ORequest "pid option" "'m msg" int
  | OResult nat
  | OPoison bool "pid option"
  | ORemove pid

fun eng_apply :: "'m eng_op \<Rightarrow> 'm engine \<Rightarrow> 'm engine" where
  "eng_apply (OSend q m src) e = snd (SendWithSender q m src e)"
| "eng_apply (OSpawn p) e = snd (snd (SpawnProc p e))"
| "eng_apply (ORequest q m t) e = snd (snd (Request q m t e))"
| "eng_apply (OResult h) e = snd (Result h e)"
| "eng_apply (OPoison g q) e = snd (snd (sendPoisonPill g q e))"
| "eng_apply (ORemove q) e = e\<lparr>e_Registry := reg_Remove q (e_Registry e)\<rparr>"

lemma eng_apply_inv: "eng_inv e \<Longrightarrow> eng_inv (eng_apply op e)"
  by (cases op) (simp_all add: SendWithSender_def same_shape_inv [OF sends_shape(1)] SpawnProc_inv Request_inv
    Result_inv Poison_inv Remove_inv)

subsection \<open>A new engine\<close>

definition stream_pid :: "string \<Rightarrow> nat \<Rightarrow> pid" where
  "stream_pid address random = NewPID address (''eventstream'' @ pidSeparator @ Itoa (int random))"

abbreviation home :: "'m engine_config \<Rightarrow> string" where
  "home config \<equiv> (case cfg_remote config of None \<Rightarrow> LocalLookupAddr | Some rm \<Rightarrow> rem_Address rm)"

text \<open>
  What the engine relies on when it starts its remote, before it has an event stream: the
  remote may spawn actors of its own,
  but it leaves the engine consistent, does not change the engine's address, remote, response
  counter or event stream, and takes no id of the event stream's kind.
\<close>

locale startable =
  fixes start :: "'m engine \<Rightarrow> 'm engine option"
  assumes start_inv: "start e = Some e' \<Longrightarrow> eng_inv e \<Longrightarrow> eng_inv e'"
    and start_keeps: "start e = Some e' \<Longrightarrow> e_eventStream e = None \<Longrightarrow> e_address e' = e_address e
      \<and> e_remote e' = e_remote e \<and> e_eventStream e' = None \<and> e_responseSeq e' = e_responseSeq e"
    and start_ids: "start e = Some e' \<Longrightarrow> reg_lookup (e_Registry e) (''eventstream/'' @ x) = None \<Longrightarrow>
      reg_lookup (e_Registry e') (''eventstream/'' @ x) = None"

text \<open>A remote whose start leaves the engine as it is.\<close>

interpretation idle_remote: startable "Some :: 'm engine \<Rightarrow> 'm engine option"
  by unfold_locales simp_all

lemmas new_defs = NewEngine_def NewEngineConfig_def Let_def Spawn_def SpawnProc_def spawn_opts_def DefaultOpts_def alloc_def reg_add_def
  newRegistry_def LocalLookupAddr_def

lemma SpawnProc_free:
  assumes "eng_inv e" "reg_lookup (e_Registry e) (ID (obj_pid p)) = None"
  shows "SpawnProc p e = (obj_pid p, SDone, e\<lparr>e_heap := (e_heap e)(e_size e := p), e_size := Suc (e_size e),
     e_Registry := (e_Registry e)\<lparr>reg_lookup := (reg_lookup (e_Registry e))(ID (obj_pid p) \<mapsto> e_size e)\<rparr>,
     e_started := e_started e @ [e_size e]\<rparr>)"
  using assms(2) by (simp add: SpawnProc_def alloc_def reg_add_def)

lemma Spawn_plain:
  "Spawn kind [] random (DefaultOpts i r) e = SpawnProc (ProcObj (NewPID (e_address e) (kind @ pidSeparator @ Itoa (int random))) []) e"
  by (simp add: Spawn_def spawn_opts_def DefaultOpts_def Let_def)

context startable
begin

lemma NewEngine_started:
  assumes "NewEngine config start random seq = Some e"
  shows "\<exists>h. eng_inv e \<and> stream_ok (stream_pid (home config) random) h e \<and> e_heap e h = ProcObj (stream_pid (home config) random) []
     \<and> e_address e = home config \<and> e_remote e = cfg_remote config \<and> e_responseSeq e = seq
     \<and> (cfg_remote config = None \<longrightarrow> h = 0)"
proof -
  let ?e0 = "\<lparr>e_Registry = newRegistry, e_heap = (\<lambda>_. ProcObj (NewPID [] []) []), e_size = 0, e_started = [],
       e_address = home config, e_remote = cfg_remote config, e_eventStream = None, e_responseSeq = seq, e_contexts = 0, e_cancelled = {}\<rparr>"
  let ?q = "stream_pid (home config) random"
  have 0: "eng_inv ?e0" "reg_lookup (e_Registry ?e0) (''eventstream/'' @ x) = None" for x
    by (simp_all add: eng_inv_def newRegistry_def reg_inv_def)
  obtain e1 where s: "cfg_remote config = None \<and> e1 = ?e0 \<or> cfg_remote config \<noteq> None \<and> start ?e0 = Some e1"
    and e: "(case SpawnProc (ProcObj (NewPID (e_address e1) (''eventstream'' @ pidSeparator @ Itoa (int random))) []) e1 of
       (q, _, e2) \<Rightarrow> Some (e2\<lparr>e_eventStream := Some q\<rparr>)) = Some e"
    using assms by (auto simp: NewEngine_def Let_def Spawn_plain split: option.splits)
  have k: "eng_inv e1 \<and> e_address e1 = home config \<and> e_remote e1 = cfg_remote config \<and> e_responseSeq e1 = seq"
    using s 0(1) start_inv [of ?e0 e1] start_keeps [of ?e0 e1] by auto
  have f: "reg_lookup (e_Registry e1) (ID (obj_pid (ProcObj ?q [] :: 'm processer))) = None"
    using s 0(2) [of "Itoa (int random)"] start_ids [of ?e0 e1 "Itoa (int random)"] by (auto simp: stream_pid_def pidSeparator_def newRegistry_def)
  have q: "NewPID (e_address e1) (''eventstream'' @ pidSeparator @ Itoa (int random)) = ?q" using k by (simp add: stream_pid_def)
  note sp = SpawnProc_free [OF conjunct1 [OF k] f]
  let ?e2 = "snd (snd (SpawnProc (ProcObj ?q [] :: 'm processer) e1))"
  have e: "e = ?e2\<lparr>e_eventStream := Some ?q\<rparr>" using e unfolding q sp by simp
  have "eng_inv ?e2" using k SpawnProc_inv by blast
  then have i: "eng_inv e" unfolding e by (simp add: eng_inv_def)
  have a: "stream_ok ?q (e_size e1) e" "e_heap e (e_size e1) = ProcObj ?q []" "e_address e = home config" "e_remote e = cfg_remote config" "e_responseSeq e = seq"
    using k unfolding e sp by (simp_all add: stream_ok_def stream_pid_def)
  have z: "cfg_remote config = None \<longrightarrow> e_size e1 = 0" using s by force
  show ?thesis by (rule exI [of _ "e_size e1"], intro conjI) (rule i a z)+
qed

end

lemma NewEngine_local:
  "\<exists>e0 :: 'm engine. NewEngine NewEngineConfig start random seq = Some e0 \<and> e_address e0 = ''local'' \<and> e_remote e0 = None
     \<and> reg_get (Some (NewPID ''local'' ''a/1'')) (e_Registry e0) = None"
  by (auto simp: new_defs reg_get_def isResponse_def responsePrefix_def)

lemma NewEngine_local_ok:
  assumes "NewEngine NewEngineConfig start random seq = Some e"
  shows "eng_inv e" "stream_ok (stream_pid LocalLookupAddr random) 0 e"
proof -
  have "NewEngine NewEngineConfig Some random seq = Some e" using assms by (simp add: NewEngine_def NewEngineConfig_def)
  from idle_remote.NewEngine_started [OF this] show "eng_inv e" "stream_ok (stream_pid LocalLookupAddr random) 0 e"
    by (auto simp: NewEngineConfig_def)
qed

lemma eng_runs_inv: "eng_inv e \<Longrightarrow> eng_inv (fold eng_apply ops e)"
  by (induction ops arbitrary: e) (simp_all add: eng_apply_inv)

text \<open>
  C23. Losing the event stream is fatal. Once the event stream has left the registry (it was
  poisoned, or it crashed too often), a broadcast, and any send to a local PID that is not
  registered, recurses between \<open>BroadcastEvent\<close>, \<open>send\<close> and \<open>SendLocal\<close> without end, each
  round wrapping the message in another \<open>DeadLetterEvent\<close>.
\<close>

theorem event_stream_lost_diverges:
  assumes "NewEngine NewEngineConfig start random seq = Some e0" "e = eng_apply (ORemove (stream_pid LocalLookupAddr random)) e0"
    "Address q = e_address e" "reg_get (Some q) (e_Registry e) = None"
  shows "\<forall>f. fst (BroadcastEvent f m e) = SLoop \<and> fst (eng_send f (Some q) m src e) = SLoop"
proof -
  have s: "stream_ok (stream_pid LocalLookupAddr random) 0 e0" using NewEngine_local_ok(2) [OF assms(1)] by simp
  have nr: "\<not> isResponse (stream_pid LocalLookupAddr random)" by (simp add: isResponse_def responsePrefix_def stream_pid_def)
  have "stream_lost (stream_pid LocalLookupAddr random) e"
    using s nr by (auto simp: assms(2) stream_ok_def stream_lost_def reg_Remove_def reg_get_def)
  then have b: "BroadcastEvent f m e = (SLoop, e)" for f m using lost_loops by blast
  then have "fst (SendLocal f (Some q) m src e) = SLoop" for f m src
    using assms(4) by (cases f) simp_all
  then have "fst (eng_send f (Some q) m src e) = SLoop" for f
    using assms(3) by (cases f) (simp_all add: isLocalMessage_def)
  then show ?thesis using b by simp
qed

theorem event_stream_lost_diverges_witness:
  "\<exists>e :: nat engine. \<forall>f. fst (BroadcastEvent f (User 1) e) = SLoop
     \<and> fst (eng_send f (Some (NewPID ''local'' ''a/1'')) (User 1) None e) = SLoop"
proof -
  obtain e0 :: "nat engine" where n: "NewEngine NewEngineConfig Some 5 0 = Some e0"
    and o: "e_address e0 = ''local''" "e_remote e0 = None" "reg_get (Some (NewPID ''local'' ''a/1'')) (e_Registry e0) = None"
    using NewEngine_local [of Some 5 0] by blast
  let ?e = "eng_apply (ORemove (stream_pid LocalLookupAddr 5)) e0"
  have "Address (NewPID ''local'' ''a/1'') = e_address ?e" "reg_get (Some (NewPID ''local'' ''a/1'')) (e_Registry ?e) = None"
    using o by (auto simp: reg_Remove_def reg_get_def isResponse_def responsePrefix_def split: option.splits)
  from event_stream_lost_diverges [OF n refl this] show ?thesis by blast
qed

theorem send_routes_witness:
  "\<exists>e :: nat engine. SendWithSender (Some (NewPID ''elsewhere'' ''a/1'')) (User 1) None e
     = proc_send 0 (Some (stream_pid ''local'' 5)) (EngineRemoteMissingEvent (Some (NewPID ''elsewhere'' ''a/1'')) None (User 1)) None e"
proof -
  obtain e0 :: "nat engine" where n: "NewEngine NewEngineConfig Some 5 0 = Some e0"
    and o: "e_address e0 = ''local''" "e_remote e0 = None" "reg_get (Some (NewPID ''local'' ''a/1'')) (e_Registry e0) = None"
    using NewEngine_local [of Some 5 0] by blast
  with send_routes [OF NewEngine_local_ok(2) [OF n], of "Some (NewPID ''elsewhere'' ''a/1'')" "User 1" None] show ?thesis
    by (auto simp: route_def arrive_def LocalLookupAddr_def)
qed

subsection \<open>Spawning, requests and pills\<close>

lemma SpawnProc_taken:
  assumes "stream_ok es h e" "eng_inv e" "reg_lookup (e_Registry e) (ID (obj_pid p)) = Some g"
  shows "SpawnProc p e = (obj_pid p, proc_send h (Some es) (ActorDuplicateIdEvent (Some (obj_pid p))) None
     (e\<lparr>e_heap := (e_heap e)(e_size e := p), e_size := Suc (e_size e)\<rparr>))"
proof -
  let ?e = "e\<lparr>e_heap := (e_heap e)(e_size e := p), e_size := Suc (e_size e)\<rparr>"
  have "h < e_size e" using assms(1,2) by (auto simp: eng_inv_def stream_ok_def)
  then have "stream_ok es h ?e" using assms(1) by (auto simp: stream_ok_def)
  then show ?thesis using assms(3) by (simp add: SpawnProc_def alloc_def reg_add_def eng_Broadcast_arrives)
qed

text \<open>Spawning, under a free id or a taken one, keeps the engine in order, and every processer but the event stream's.\<close>

lemma SpawnProc_keeps:
  assumes "eng_inv e" "stream_ok es h e" "SpawnProc p e = (q, r, e')"
  shows "eng_inv e'" "stream_ok es h e'" "e_address e' = e_address e" "e_remote e' = e_remote e" "q = obj_pid p" "r = SDone"
    "\<forall>k < e_size e. k \<noteq> h \<longrightarrow> e_heap e' k = e_heap e k" "e_size e' = Suc (e_size e)"
proof -
  have hk: "h < e_size e" using assms(1,2) by (auto simp: eng_inv_def stream_ok_def)
  show "eng_inv e'" using SpawnProc_inv [OF assms(1), of p] assms(3) by simp
  show "stream_ok es h e'" "e_address e' = e_address e" "e_remote e' = e_remote e" "q = obj_pid p" "r = SDone"
    "\<forall>k < e_size e. k \<noteq> h \<longrightarrow> e_heap e' k = e_heap e k" "e_size e' = Suc (e_size e)"
    using assms(2,3) hk SpawnProc_free [OF assms(1), of p] SpawnProc_taken [OF assms(2,1), of p]
    by (cases "reg_lookup (e_Registry e) (ID (obj_pid p))"; auto simp: stream_ok_def proc_send_def)+
qed

lemma spawn_claims:
  assumes "eng_inv e" "stream_ok es h e" "SpawnProc p e = (q, r, e')"
  shows "q = obj_pid p \<and> r = SDone \<and> reg_getByID (ID q) (e_Registry e') \<noteq> None"
proof (cases "reg_lookup (e_Registry e) (ID (obj_pid p))")
  case None
  then show ?thesis using assms(3) SpawnProc_free [OF assms(1)] by (auto simp: reg_getByID_def)
next
  case (Some g)
  have "h < e_size e" using assms(1,2) by (auto simp: eng_inv_def stream_ok_def)
  then show ?thesis
    using assms(2,3) SpawnProc_taken [OF assms(2,1) Some] Some by (auto simp: reg_getByID_def proc_send_def stream_ok_def)
qed

text \<open>
  Names are claimed once. Spawning under a free id registers the new processer, starts it
  and leaves the others alone; spawning under a taken id returns the same PID but starts
  nothing and replaces nothing: it only puts an \<open>ActorDuplicateIdEvent\<close> into the inbox of the
  event stream.
\<close>

theorem spawn_claims_once:
  assumes "eng_inv e" "stream_ok es h e" "SpawnProc p e = (q, r, e')"
  shows "q = obj_pid p \<and> r = SDone \<and> stream_ok es h e' \<and>
    (case reg_getByID (ID (obj_pid p)) (e_Registry e) of
       None \<Rightarrow> reg_getByID (ID q) (e_Registry e') = Some (e_size e) \<and> e_heap e' (e_size e) = p
         \<and> e_started e' = e_started e @ [e_size e] \<and> (\<forall>g < e_size e. e_heap e' g = e_heap e g)
     | Some k \<Rightarrow> e_Registry e' = e_Registry e \<and> e_started e' = e_started e
         \<and> (\<exists>sp mb. e_heap e h = ProcObj sp mb
             \<and> e_heap e' h = ProcObj sp (mb @ [\<lparr>Msg = ActorDuplicateIdEvent (Some q), Sender = None\<rparr>]))
         \<and> (\<forall>g < e_size e. g \<noteq> h \<longrightarrow> e_heap e' g = e_heap e g))"
proof -
  have hk: "h < e_size e" using assms(1,2) by (auto simp: eng_inv_def stream_ok_def)
  obtain sp mb where sp: "e_heap e h = ProcObj sp mb" using assms(2) by (auto simp: stream_ok_def)
  show ?thesis
  proof (cases "reg_lookup (e_Registry e) (ID (obj_pid p))")
    case None
    then show ?thesis using assms SpawnProc_free [OF assms(1) None] hk by (auto simp: reg_getByID_def stream_ok_def)
  next
    case (Some g)
    then show ?thesis
      using assms SpawnProc_taken [OF assms(2,1) Some] hk sp by (auto simp: reg_getByID_def stream_ok_def proc_send_def)
  qed
qed

definition response_pid :: "'m engine \<Rightarrow> pid" where
  "response_pid e = NewPID (e_address e) (responsePrefix @ pidSeparator @ FormatUint (e_responseSeq e + 1) 36)"

lemma isResponse_response_pid [simp]: "isResponse (response_pid e)"
  by (simp add: isResponse_def response_pid_def)

definition awaiting :: "nat \<Rightarrow> pid \<Rightarrow> 'm msg option \<Rightarrow> 'm engine \<Rightarrow> bool" where
  "awaiting k rid v e \<longleftrightarrow> (\<exists>t. e_heap e k = RespObj rid v t) \<and> responses (e_Registry e) (ID rid) = Some k
     \<and> reg_lookup (e_Registry e) (ID rid) = None \<and> isResponse rid \<and> Address rid = e_address e"

lemma Request_awaiting:
  assumes "eng_inv e" "stream_ok es h e" "reg_getByID (ID (response_pid e)) (e_Registry e) = None"
    "\<forall>p. q = Some p \<longrightarrow> ID p \<noteq> ID (response_pid e)" "Request q m tmo e = (k, r, e1)"
  shows "awaiting k (response_pid e) None e1" "stream_ok es h e1"
    "\<exists>e0. (r, e1) = arrive (route es h q m (Some (response_pid e)) e0) e0 \<and> (\<forall>g < e_size e. e_heap e0 g = e_heap e g)"
proof -
  let ?rid = "response_pid e"
  define e2 where "e2 = e\<lparr>e_responseSeq := e_responseSeq e + 1, e_heap := (e_heap e)(e_size e := RespObj ?rid None tmo),
     e_size := Suc (e_size e), e_Registry := (e_Registry e)\<lparr>responses := (responses (e_Registry e))(ID ?rid \<mapsto> e_size e)\<rparr>\<rparr>"
  have hk: "h < e_size e" using assms(1,2) by (auto simp: eng_inv_def stream_ok_def)
  have k: "k = e_size e" and e1: "(r, e1) = SendWithSender q m (Some ?rid) e2"
    using assms(5) by (auto simp: Request_def NewResponse_def alloc_def Let_def registerResponse_def response_pid_def e2_def)
  have s2: "stream_ok es h e2" using assms(2) hk by (auto simp: stream_ok_def e2_def)
  have a2: "awaiting k ?rid None e2" using assms(3) isResponse_response_pid [of e]
    by (auto simp: awaiting_def e2_def k reg_getByID_def response_pid_def)
  have arr: "(r, e1) = arrive (route es h q m (Some ?rid) e2) e2" using SendWithSender_arrives [OF s2] e1 by simp
  then show "\<exists>e0. (r, e1) = arrive (route es h q m (Some ?rid) e0) e0 \<and> (\<forall>g < e_size e. e_heap e0 g = e_heap e g)"
    by (intro exI [of _ e2]) (simp add: e2_def)
  have sh: "same_shape e2 e1" using sends_shape(1) [of e2] e1 by (metis SendWithSender_def snd_conv)
  then show "stream_ok es h e1" using same_shape_stream s2 by blast
  have "g \<noteq> k" if "route es h q m (Some ?rid) e2 = Handed g q' m' src'" for g q' m' src'
    using that assms(1,4) hk k by (auto simp: route_def reg_get_def e2_def eng_inv_def split: option.splits if_splits)
  then have "e_heap e1 k = e_heap e2 k"
    using arr by (cases "route es h q m (Some ?rid) e2")
      (auto simp: arrive_def proc_send_def split: processer.splits option.splits)
  then show "awaiting k ?rid None e1" using a2 sh by (simp add: awaiting_def same_shape_def)
qed

text \<open>A request to a local actor process is in its inbox, with the response PID as the sender.\<close>

lemma Request_handed:
  assumes "eng_inv e" "stream_ok es h e" "Address p = e_address e" "reg_lookup (e_Registry e) (ID p) = Some g" "e_heap e g = ProcObj x mb"
    "Request (Some p) m tmo e = (k, r, e1)"
  shows "r = SDone" "e_heap e1 g = ProcObj x (mb @ [\<lparr>Msg = m, Sender = Some (response_pid e)\<rparr>])"
    "e_address e1 = e_address e" "reg_lookup (e_Registry e1) = reg_lookup (e_Registry e)"
proof -
  let ?rid = "response_pid e"
  define e2 where "e2 = e\<lparr>e_responseSeq := e_responseSeq e + 1, e_heap := (e_heap e)(e_size e := RespObj ?rid None tmo),
     e_size := Suc (e_size e), e_Registry := (e_Registry e)\<lparr>responses := (responses (e_Registry e))(ID ?rid \<mapsto> e_size e)\<rparr>\<rparr>"
  have hk: "h < e_size e" "g < e_size e" using assms(1,2,4) by (auto simp: eng_inv_def stream_ok_def)
  have e1: "(r, e1) = SendWithSender (Some p) m (Some ?rid) e2"
    using assms(6) by (auto simp: Request_def NewResponse_def alloc_def Let_def registerResponse_def response_pid_def e2_def)
  have s2: "stream_ok es h e2" using assms(2) hk by (auto simp: stream_ok_def e2_def)
  have "(r, e1) = proc_send g (Some p) m (Some ?rid) e2"
    using SendWithSender_arrives [OF s2] e1 assms(3,4) by (simp add: route_def arrive_def reg_get_def e2_def)
  then show "r = SDone" "e_heap e1 g = ProcObj x (mb @ [\<lparr>Msg = m, Sender = Some ?rid\<rparr>])"
    "e_address e1 = e_address e" "reg_lookup (e_Registry e1) = reg_lookup (e_Registry e)"
    using assms(5) hk by (auto simp: proc_send_def e2_def)
qed

lemma reply_awaiting:
  assumes "stream_ok es h e1" "awaiting k rid v e1"
  shows "v = None \<Longrightarrow> \<exists>e2. eng_Send (Some rid) reply e1 = (SDone, e2) \<and> awaiting k rid (Some reply) e2 \<and> stream_ok es h e2 \<and> (\<forall>g. g \<noteq> k \<longrightarrow> e_heap e2 g = e_heap e1 g)"
    "v \<noteq> None \<Longrightarrow> eng_Send (Some rid) reply e1 = (SBlocked, e1)"
proof -
  have "reg_get (Some rid) (e_Registry e1) = Some k" "Address rid = e_address e1" using assms(2) by (auto simp: awaiting_def reg_get_def)
  then have s: "eng_Send (Some rid) reply e1 = proc_send k (Some rid) reply None e1"
    using SendWithSender_arrives [OF assms(1), of "Some rid" reply None] by (simp add: eng_Send_def SendWithSender_def route_def arrive_def)
  show "v \<noteq> None \<Longrightarrow> eng_Send (Some rid) reply e1 = (SBlocked, e1)"
    using assms(2) by (auto simp: s awaiting_def proc_send_def)
  assume "v = None"
  then obtain t where "e_heap e1 k = RespObj rid None t" using assms(2) by (auto simp: awaiting_def)
  then show "\<exists>e2. eng_Send (Some rid) reply e1 = (SDone, e2) \<and> awaiting k rid (Some reply) e2 \<and> stream_ok es h e2 \<and> (\<forall>g. g \<noteq> k \<longrightarrow> e_heap e2 g = e_heap e1 g)"
    using assms by (auto simp: s proc_send_def awaiting_def stream_ok_def)
qed

lemma Result_awaiting:
  assumes "awaiting k rid v e2"
  shows "\<exists>e3. Result k e2 = (v, e3) \<and> reg_get (Some rid) (e_Registry e3) = None"
proof -
  obtain t where "e_heap e2 k = RespObj rid v t" using assms by (auto simp: awaiting_def)
  then show ?thesis using assms by (cases v) (auto simp: Result_select_def Let_def awaiting_def reg_Remove_def reg_get_def)
qed

lemma Result_expired:
  assumes "awaiting k rid v e2"
  shows "\<exists>e4. Result_select True k e2 = (None, e4) \<and> reg_get (Some rid) (e_Registry e4) = None"
proof -
  obtain t where "e_heap e2 k = RespObj rid v t" using assms by (auto simp: awaiting_def)
  then show ?thesis using assms by (cases v) (auto simp: Result_select_def Let_def awaiting_def reg_Remove_def reg_get_def)
qed

lemma Result_keeps:
  assumes "awaiting k rid v e" "eng_inv e" "stream_ok es h e"
  obtains e' where "Result k e = (v, e')" "eng_inv e'" "stream_ok es h e'" "reg_lookup (e_Registry e') = reg_lookup (e_Registry e)" "e_address e' = e_address e" "\<forall>g. g \<noteq> k \<longrightarrow> e_heap e' g = e_heap e g"
proof -
  obtain e' where r: "Result k e = (v, e')" using Result_awaiting [OF assms(1)] by blast
  obtain t where t: "e_heap e k = RespObj rid v t" "isResponse rid" "responses (e_Registry e) (ID rid) = Some k" using assms(1) by (auto simp: awaiting_def)
  have "k \<noteq> h" using t(1) assms(3) by (auto simp: stream_ok_def)
  then have "stream_ok es h e'" "reg_lookup (e_Registry e') = reg_lookup (e_Registry e)" "e_address e' = e_address e" "\<forall>g. g \<noteq> k \<longrightarrow> e_heap e' g = e_heap e g"
    using r t assms(3) by (cases v; auto simp: Result_select_def Let_def reg_Remove_def stream_ok_def)+
  then show ?thesis using that [OF r] Result_inv [OF assms(2), of k] r by simp
qed

text \<open>
  C12. Requests. The request reaches its target with the new response PID as the sender. The
  first reply to that PID is stored without blocking and \<open>Result\<close> returns it; a second reply
  before \<open>Result\<close> blocks the replying goroutine. \<open>Result\<close> unregisters the response, so a
  later reply becomes a dead letter, and without a reply it reports the deadline; so it may
  when the deadline has passed before it takes the reply.
\<close>

theorem request_reply:
  assumes "eng_inv e" "stream_ok es h e" "reg_getByID (ID (response_pid e)) (e_Registry e) = None"
    "\<forall>p. q = Some p \<longrightarrow> ID p \<noteq> ID (response_pid e)" "Request q m tmo e = (k, r, e1)"
  shows "(\<exists>e0. (r, e1) = arrive (route es h q m (Some (response_pid e)) e0) e0 \<and> (\<forall>g < e_size e. e_heap e0 g = e_heap e g))
    \<and> (\<exists>e2 e3. eng_Send (Some (response_pid e)) reply e1 = (SDone, e2)
        \<and> eng_Send (Some (response_pid e)) reply2 e2 = (SBlocked, e2)
        \<and> Result k e2 = (Some reply, e3) \<and> reg_get (Some (response_pid e)) (e_Registry e3) = None
        \<and> (\<exists>e4. Result_select True k e2 = (None, e4) \<and> reg_get (Some (response_pid e)) (e_Registry e4) = None))
    \<and> (\<exists>e3. Result k e1 = (None, e3) \<and> reg_get (Some (response_pid e)) (e_Registry e3) = None)"
proof -
  note a = Request_awaiting [OF assms]
  obtain e2 where e2: "eng_Send (Some (response_pid e)) reply e1 = (SDone, e2)" "awaiting k (response_pid e) (Some reply) e2" "stream_ok es h e2"
    using reply_awaiting(1) [OF a(2,1)] by blast
  show ?thesis
    using a(3) e2(1) reply_awaiting(2) [OF e2(3,2)] Result_awaiting [OF e2(2)] Result_expired [OF e2(2)] Result_awaiting [OF a(1)] by auto
qed

subsection \<open>Histories\<close>

text \<open>The id an operation takes out of the registry, if it does.\<close>

fun removed_id :: "'m eng_op \<Rightarrow> 'm engine \<Rightarrow> string option" where
  "removed_id (ORemove q) e = Some (ID q)"
| "removed_id (OResult h) e = Some (ID (obj_pid (e_heap e h)))"
| "removed_id _ e = None"

text \<open>None of the operations, each in the state in which it runs, removes the id.\<close>

fun holds_name :: "string \<Rightarrow> 'm engine \<Rightarrow> 'm eng_op list \<Rightarrow> bool" where
  "holds_name i e [] \<longleftrightarrow> True"
| "holds_name i e (op # ops) \<longleftrightarrow> removed_id op e \<noteq> Some i \<and> holds_name i (eng_apply op e) ops"

text \<open>
  The messages a history addresses to an id: sends and requests to a PID with that id and the
  engine's address, pills for a PID with that id.
\<close>

fun addressed :: "string \<Rightarrow> 'm engine \<Rightarrow> 'm eng_op \<Rightarrow> 'm envelope list" where
  "addressed i e (OSend (Some q) m src) = (if ID q = i \<and> Address q = e_address e then [\<lparr>Msg = m, Sender = src\<rparr>] else [])"
| "addressed i e (ORequest (Some q) m tmo) =
     (if ID q = i \<and> Address q = e_address e then [\<lparr>Msg = m, Sender = Some (response_pid e)\<rparr>] else [])"
| "addressed i e (OPoison g (Some q)) = (if ID q = i then [\<lparr>Msg = PoisonPill (Some (e_contexts e)) g, Sender = None\<rparr>] else [])"
| "addressed i e _ = []"

fun arrivals :: "string \<Rightarrow> 'm engine \<Rightarrow> 'm eng_op list \<Rightarrow> 'm envelope list" where
  "arrivals i e [] = []"
| "arrivals i e (op # ops) = addressed i e op @ arrivals i (eng_apply op e) ops"

lemma holds_name_append: "holds_name i e (xs @ ys) \<longleftrightarrow> holds_name i e xs \<and> holds_name i (fold eng_apply xs e) ys"
  by (induction xs arbitrary: e) auto

text \<open>The process \<open>g\<close> is registered under \<open>i\<close> with the mailbox \<open>mb\<close>, and is not the event stream \<open>h\<close>.\<close>

definition owns :: "string \<Rightarrow> nat \<Rightarrow> pid \<Rightarrow> 'm envelope list \<Rightarrow> pid \<Rightarrow> nat \<Rightarrow> 'm engine \<Rightarrow> bool" where
  "owns i g x mb es h e \<longleftrightarrow> eng_inv e \<and> stream_ok es h e \<and> g \<noteq> h \<and> reg_lookup (e_Registry e) i = Some g \<and> e_heap e g = ProcObj x mb"

lemma owns_alive: "owns i g x mb es h e \<Longrightarrow> g < e_size e \<and> h < e_size e"
  by (auto simp: owns_def eng_inv_def stream_ok_def)

lemma owns_same_id: "owns i g x mb es h e \<Longrightarrow> reg_lookup (e_Registry e) j = Some g \<Longrightarrow> j = i"
  unfolding owns_def eng_inv_def reg_inv_def by metis

lemma reg_get_owner:
  assumes "owns i g x mb es h e"
  shows "reg_get (Some q) (e_Registry e) = Some g \<longleftrightarrow> ID q = i \<or> isResponse q \<and> reg_lookup (e_Registry e) (ID q) = None \<and> responses (e_Registry e) (ID q) = Some g"
  using assms owns_same_id [OF assms, of "ID q"] by (auto simp: reg_get_def owns_def split: option.splits)

lemma response_not_owner: "owns i g x mb es h e \<Longrightarrow> responses (e_Registry e) j = Some g \<Longrightarrow> j = i"
  unfolding owns_def eng_inv_def reg_inv_def by metis

lemma get_owner: "owns i g x mb es h e \<Longrightarrow> reg_get (Some q) (e_Registry e) = Some g \<longleftrightarrow> ID q = i"
  using reg_get_owner response_not_owner by metis

lemma proc_send_owner:
  assumes "owns i g x mb es h e"
  shows "owns i g x (mb @ (if k = g then [\<lparr>Msg = m, Sender = src\<rparr>] else [])) es h (snd (proc_send k q m src e))"
proof -
  have sh: "same_shape e (snd (proc_send k q m src e))" by (rule proc_send_shape)
  have "e_heap (snd (proc_send k q m src e)) g = ProcObj x (mb @ (if k = g then [\<lparr>Msg = m, Sender = src\<rparr>] else []))"
    using assms by (auto simp: proc_send_def owns_def split: processer.split option.split)
  then show ?thesis
    using assms same_shape_inv [OF sh] same_shape_stream [OF sh] sh by (simp add: owns_def same_shape_def)
qed

lemma send_owner:
  assumes "owns i g x mb es h e"
  shows "owns i g x (mb @ (case q of Some p \<Rightarrow> if ID p = i \<and> Address p = e_address e then [\<lparr>Msg = m, Sender = src\<rparr>] else [] | None \<Rightarrow> [])) es h
    (snd (SendWithSender q m src e))"
proof (cases q)
  case (Some p)
  have s: "stream_ok es h e" "g \<noteq> h" using assms by (simp_all add: owns_def)
  have r: "e_remote (e\<lparr>e_remote := rm\<rparr>) = rm" "owns i g x mb es h (e\<lparr>e_remote := rm\<rparr>)" for rm
    using assms by (simp_all add: owns_def eng_inv_def stream_ok_def)
  have d: "owns i g x mb es h (snd (proc_send h (Some es) m' None e))" for m' using proc_send_owner [OF assms, of h] s(2) by simp
  show ?thesis
  proof (cases "Address p = e_address e")
    case True
    show ?thesis
    proof (cases "reg_get q (e_Registry e)")
      case None
      then have "ID p \<noteq> i" using get_owner [OF assms, of p] Some by auto
      then show ?thesis using d True None by (simp add: SendWithSender_arrives [OF s(1)] Some route_def arrive_def)
    next
      case k: (Some k)
      then have "k = g \<longleftrightarrow> ID p = i" using get_owner [OF assms, of p] Some by auto
      then show ?thesis using proc_send_owner [OF assms, of k m src q] True k
        by (simp add: SendWithSender_arrives [OF s(1)] Some route_def arrive_def)
    qed
  next
    case False
    then show ?thesis using d r by (auto simp: SendWithSender_arrives [OF s(1)] Some route_def arrive_def)
  qed
qed (use assms in \<open>simp add: SendWithSender_arrives [of es h] owns_def route_def arrive_def\<close>)

lemma alloc_owner:
  "owns i g x mb es h e \<Longrightarrow> owns i g x mb es h (e\<lparr>e_heap := (e_heap e)(e_size e := p), e_size := Suc (e_size e)\<rparr>)"
  using owns_alive [of i g x mb es h e] by (fastforce simp: owns_def eng_inv_def reg_inv_def stream_ok_def)

lemma spawn_owner:
  assumes "owns i g x mb es h e"
  shows "owns i g x mb es h (snd (snd (SpawnProc p e)))"
proof (cases "reg_lookup (e_Registry e) (ID (obj_pid p))")
  case None
  have i: "eng_inv e" using assms by (simp add: owns_def)
  have "eng_inv (snd (snd (SpawnProc p e)))" by (rule SpawnProc_inv [OF i])
  then show ?thesis using assms owns_alive [OF assms] None
    unfolding SpawnProc_free [OF i None] by (auto simp: owns_def stream_ok_def)
next
  case (Some k)
  have "stream_ok es h e" "eng_inv e" "g \<noteq> h" using assms by (simp_all add: owns_def)
  then show ?thesis using proc_send_owner [OF alloc_owner [OF assms], of h] SpawnProc_taken [OF _ _ Some] by fastforce
qed

lemma request_owner:
  assumes "owns i g x mb es h e"
  shows "owns i g x (mb @ addressed i e (ORequest q m tmo)) es h (snd (snd (Request q m tmo e)))"
proof -
  let ?e1 = "e\<lparr>e_responseSeq := e_responseSeq e + 1\<rparr>" and ?rid = "response_pid e"
  have "owns i g x mb es h ?e1" using assms by (simp add: owns_def eng_inv_def stream_ok_def)
  from alloc_owner [OF this, of "RespObj ?rid None tmo"] owns_alive [OF assms]
  have o: "owns i g x mb es h (?e1\<lparr>e_heap := (e_heap e)(e_size e := RespObj ?rid None tmo), e_size := Suc (e_size e),
     e_Registry := (e_Registry e)\<lparr>responses := (responses (e_Registry e))(ID ?rid \<mapsto> e_size e)\<rparr>\<rparr>)" (is "owns _ _ _ _ _ _ ?e2")
    by (auto simp: owns_def eng_inv_def reg_inv_def stream_ok_def)
  have "snd (snd (Request q m tmo e)) = snd (SendWithSender q m (Some ?rid) ?e2)"
    by (simp add: Request_def NewResponse_def alloc_def Let_def registerResponse_def response_pid_def)
  then show ?thesis using send_owner [OF o, of m "Some ?rid" q] by (cases q) simp_all
qed

lemma poison_owner:
  assumes "owns i g x mb es h e"
  shows "owns i g x (mb @ addressed i e (OPoison c q)) es h (snd (snd (sendPoisonPill c q e)))"
proof -
  let ?e1 = "e\<lparr>e_contexts := Suc (e_contexts e)\<rparr>" and ?pill = "PoisonPill (Some (e_contexts e)) c"
  have o: "owns i g x mb es h ?e1" using assms by (simp add: owns_def eng_inv_def stream_ok_def)
  have s: "stream_ok es h ?e1" "g \<noteq> h" using o by (simp_all add: owns_def)
  have k: "owns i g x mb' es h e' \<Longrightarrow> owns i g x mb' es h (e'\<lparr>e_cancelled := X\<rparr>)" for mb' e' X
    by (simp add: owns_def eng_inv_def stream_ok_def)
  show ?thesis
  proof (cases "reg_get q (e_Registry e)")
    case None
    obtain r e2 where b: "proc_send h (Some es) (DeadLetterEvent q ?pill None) None ?e1 = (r, e2)" by fastforce
    have "owns i g x mb es h e2" using proc_send_owner [OF o, of h "DeadLetterEvent q ?pill None" None "Some es"] b s(2) by simp
    moreover have "addressed i e (OPoison c q) = []" using None assms by (cases q) (auto simp: reg_get_def owns_def)
    ultimately show ?thesis using None b k by (cases r) (simp_all add: sendPoisonPill_def Let_def eng_Broadcast_arrives [OF s(1)])
  next
    case (Some j)
    then obtain p where p: "q = Some p" by (cases q) simp_all
    show ?thesis using proc_send_owner [OF o, of j ?pill None q] get_owner [OF assms, of p] Some
      by (auto simp: p sendPoisonPill_def Let_def send_fuel_def eval_nat_numeral)
  qed
qed

lemma remove_owner:
  assumes "owns i g x mb es h e" "ID q \<noteq> i" "ID q \<noteq> ID es"
  shows "owns i g x mb es h (e\<lparr>e_Registry := reg_Remove q (e_Registry e)\<rparr>)"
  using assms Remove_inv [of e q] by (auto simp: owns_def stream_ok_def reg_Remove_def)

lemma result_owner:
  assumes "owns i g x mb es h e" "removed_id (OResult k) e \<noteq> Some i" "removed_id (OResult k) e \<noteq> Some (ID es)"
  shows "owns i g x mb es h (snd (Result k e))"
proof -
  let ?e1 = "e\<lparr>e_Registry := reg_Remove (obj_pid (e_heap e k)) (e_Registry e)\<rparr>"
  have o: "owns i g x mb es h ?e1" using remove_owner [OF assms(1)] assms(2,3) by simp
  have "eng_inv (snd (Result k e))" using Result_inv assms(1) by (auto simp: owns_def)
  then show ?thesis using o by (auto simp: Result_select_def Let_def owns_def stream_ok_def split: processer.splits option.splits)
qed

lemma apply_owner:
  assumes "owns i g x mb es h e" "removed_id op e \<noteq> Some i" "removed_id op e \<noteq> Some (ID es)"
  shows "owns i g x (mb @ addressed i e op) es h (eng_apply op e)"
proof (cases op)
  case (OSend q m src)
  then show ?thesis using send_owner [OF assms(1), of m src q] by (cases q) simp_all
next
  case (ORequest q m tmo)
  then show ?thesis using request_owner [OF assms(1)] by simp
next
  case (OPoison c q)
  then show ?thesis using poison_owner [OF assms(1)] by simp
qed (use assms(2,3) spawn_owner [OF assms(1)] remove_owner [OF assms(1)] result_owner [OF assms(1)] in simp_all)

lemma run_owner:
  "owns i g x mb es h e \<Longrightarrow> holds_name i e ops \<Longrightarrow> holds_name (ID es) e ops \<Longrightarrow>
   owns i g x (mb @ arrivals i e ops) es h (fold eng_apply ops e)"
proof (induction ops arbitrary: e mb)
  case (Cons op ops)
  then have "owns i g x (mb @ addressed i e op) es h (eng_apply op e)" using apply_owner by force
  from Cons.IH [OF this] Cons.prems show ?case by simp
qed simp

text \<open>The event stream itself stays registered, whatever its mailbox gets.\<close>

lemma apply_stream:
  assumes "eng_inv e" "stream_ok es h e" "removed_id op e \<noteq> Some (ID es)"
  shows "stream_ok es h (eng_apply op e)"
proof -
  have h: "h < e_size e" using assms(1,2) by (auto simp: eng_inv_def stream_ok_def)
  show ?thesis
  proof (cases op)
    case (OSend q m src)
    then show ?thesis using same_shape_stream [OF sends_shape(1) assms(2)] by (simp add: SendWithSender_def)
  next
    case (OSpawn p)
    obtain q r e' where s: "SpawnProc p e = (q, r, e')" by (metis prod_cases3)
    then show ?thesis using SpawnProc_keeps [OF assms(1,2) s] OSpawn by simp
  next
    case (ORequest q m tmo)
    let ?e2 = "e\<lparr>e_responseSeq := e_responseSeq e + 1, e_heap := (e_heap e)(e_size e := RespObj (response_pid e) None tmo), e_size := Suc (e_size e),
     e_Registry := (e_Registry e)\<lparr>responses := (responses (e_Registry e))(ID (response_pid e) \<mapsto> e_size e)\<rparr>\<rparr>"
    have "stream_ok es h ?e2" using assms(2) h by (auto simp: stream_ok_def)
    moreover have "eng_apply op e = snd (SendWithSender q m (Some (response_pid e)) ?e2)"
      by (simp add: ORequest Request_def NewResponse_def alloc_def Let_def registerResponse_def response_pid_def)
    ultimately show ?thesis using same_shape_stream [OF sends_shape(1)] by (simp add: SendWithSender_def)
  next
    case (OResult k)
    then show ?thesis using assms(2,3)
      by (auto simp: Result_select_def Let_def stream_ok_def reg_Remove_def split: processer.splits option.splits)
  next
    case (OPoison g q)
    let ?e1 = "e\<lparr>e_contexts := Suc (e_contexts e)\<rparr>"
    have s: "stream_ok es h ?e1" using assms(2) by (simp add: stream_ok_def)
    have k: "stream_ok es h e' \<Longrightarrow> stream_ok es h (e'\<lparr>e_cancelled := X\<rparr>)" for e' :: "'a engine" and X by (simp add: stream_ok_def)
    obtain r e2 where b: "eng_Broadcast (DeadLetterEvent q (PoisonPill (Some (e_contexts e)) g) None) ?e1 = (r, e2)" by fastforce
    have "stream_ok es h e2" using same_shape_stream [OF eng_Broadcast_shape s] b by (metis snd_conv)
    then show ?thesis using same_shape_stream [OF sends_shape(2) s] b k
      by (cases r) (auto simp: OPoison sendPoisonPill_def Let_def split: option.split)
  next
    case (ORemove q)
    then show ?thesis using assms(2,3) by (auto simp: stream_ok_def reg_Remove_def)
  qed
qed

lemma run_stream:
  "eng_inv e \<Longrightarrow> stream_ok es h e \<Longrightarrow> holds_name (ID es) e ops \<Longrightarrow> stream_ok es h (fold eng_apply ops e) \<and> eng_inv (fold eng_apply ops e)"
  by (induction ops arbitrary: e) (auto simp: eng_apply_inv apply_stream)

text \<open>
  C22. Names and inboxes. Run any operations on a new engine (sends, spawns, requests,
  results, pills, removals), spawn a process under an id that is free then, and run any further
  operations that neither remove that id nor the event stream's. The process is started and
  stays the one found under its id, whoever tries to spawn under it again. Its inbox
  holds exactly the messages addressed to that id since, in the order of the operations: the
  sends and requests to the id at the engine's own address, with their senders, and the pills
  for the id at any address. Nothing sent before it was spawned, to another id or to another
  node is in it. The engine's remote keeps the contract \<open>startable\<close>, as \<open>remote_start\<close> of theory
  \<open>Remote\<close> shows for the code's.
\<close>

theorem mailbox_history:
  assumes "startable start" "NewEngine config start random seq = Some e0" "es = stream_pid (home config) random"
    "e1 = fold eng_apply ops1 e0" "reg_getByID (ID x) (e_Registry e1) = None" "e2 = eng_apply (OSpawn (ProcObj x [])) e1"
    "holds_name (ID es) e0 (ops1 @ OSpawn (ProcObj x []) # ops2)" "holds_name (ID x) e2 ops2" "e = fold eng_apply ops2 e2"
  shows "e_started e2 = e_started e1 @ [e_size e1] \<and> reg_getByID (ID x) (e_Registry e) = Some (e_size e1)
    \<and> e_heap e (e_size e1) = ProcObj x (arrivals (ID x) e2 ops2)"
proof -
  obtain h where h: "eng_inv e0" "stream_ok es h e0" using startable.NewEngine_started [OF assms(1,2)] assms(3) by blast
  have n: "holds_name (ID es) e0 ops1" "holds_name (ID es) e2 ops2" using assms(4,6,7) by (auto simp: holds_name_append)
  have 1: "stream_ok es h e1" "eng_inv e1" using run_stream [OF h n(1)] assms(4) by simp_all
  have lh: "h < e_size e1" using 1 by (auto simp: eng_inv_def stream_ok_def)
  have f: "reg_lookup (e_Registry e1) (ID (obj_pid (ProcObj x [] :: 'a processer))) = None" using assms(5) by (simp add: reg_getByID_def)
  have "eng_inv e2" using SpawnProc_inv [OF 1(2)] assms(6) by simp
  moreover have e2: "e_started e2 = e_started e1 @ [e_size e1]" "reg_lookup (e_Registry e2) (ID x) = Some (e_size e1)" "e_heap e2 (e_size e1) = ProcObj x []" "stream_ok es h e2"
    using 1(1) lh f unfolding assms(6) eng_apply.simps SpawnProc_free [OF 1(2) f] by (auto simp: stream_ok_def)
  ultimately have "owns (ID x) (e_size e1) x [] es h e2" using lh by (simp add: owns_def)
  from run_owner [OF this assms(8) n(2)] show ?thesis using e2(1) assms(9) by (simp add: owns_def reg_getByID_def)
qed

lemma example_engine:
  "\<exists>e :: 'm engine. eng_inv e \<and> stream_ok (stream_pid ''local'' 5) 0 e \<and> e_address e = ''local'' \<and> e_remote e = None
     \<and> e_Registry e = \<lparr>reg_lookup = [ID (stream_pid ''local'' 5) \<mapsto> 0], responses = Map.empty\<rparr>"
proof -
  obtain e0 :: "'m engine" where n: "NewEngine NewEngineConfig Some 5 0 = Some e0" using NewEngine_local by blast
  then have "e_Registry e0 = \<lparr>reg_lookup = [ID (stream_pid ''local'' 5) \<mapsto> 0], responses = Map.empty\<rparr>"
    "e_address e0 = ''local''" "e_remote e0 = None"
    by (auto simp: new_defs stream_pid_def)
  then show ?thesis using NewEngine_local_ok [OF n] by (auto simp: LocalLookupAddr_def)
qed

lemma stream_pid_id: "ID (stream_pid a r) = CHR ''e'' # ''ventstream'' @ pidSeparator @ Itoa (int r)"
  by (simp add: stream_pid_def)

theorem spawn_claims_once_witness:
  "\<exists>(e :: nat engine) e'. SpawnProc (ProcObj (NewPID ''local'' ''a/1'') []) e = (NewPID ''local'' ''a/1'', SDone, e')
     \<and> reg_getByID ''a/1'' (e_Registry e') = Some (e_size e)"
proof -
  obtain e :: "nat engine" where e: "eng_inv e" "stream_ok (stream_pid ''local'' 5) 0 e"
    "e_Registry e = \<lparr>reg_lookup = [ID (stream_pid ''local'' 5) \<mapsto> 0], responses = Map.empty\<rparr>"
    using example_engine by blast
  obtain q r e' where s: "SpawnProc (ProcObj (NewPID ''local'' ''a/1'') []) e = (q, r, e')" by (metis prod_cases3)
  have "reg_getByID ''a/1'' (e_Registry e) = None" by (simp add: e(3) reg_getByID_def stream_pid_id)
  with spawn_claims_once [OF e(1,2) s] s show ?thesis by (intro exI [of _ e] exI [of _ e']) auto
qed

theorem mailbox_history_witness:
  "\<exists>e0 e1 e2 e :: nat engine. let x = NewPID ''local'' ''a/1''; ops2 = [OSend (Some x) (User 1) None, OSpawn (ProcObj x []), OPoison True (Some x)] in
     NewEngine NewEngineConfig Some 5 0 = Some e0 \<and> e1 = eng_apply (OSend (Some x) (User 0) None) e0 \<and> e2 = eng_apply (OSpawn (ProcObj x [])) e1
     \<and> e = fold eng_apply ops2 e2 \<and> e_heap e (e_size e1) = ProcObj x [\<lparr>Msg = User 1, Sender = None\<rparr>,
         \<lparr>Msg = PoisonPill (Some (e_contexts (fold eng_apply (take 2 ops2) e2))) True, Sender = None\<rparr>]"
proof -
  let ?x = "NewPID ''local'' ''a/1''"
  let ?ops1 = "[OSend (Some ?x) (User 0) None] :: nat eng_op list"
  let ?ops2 = "[OSend (Some ?x) (User 1) None, OSpawn (ProcObj ?x []), OPoison True (Some ?x)] :: nat eng_op list"
  obtain e0 :: "nat engine" where n: "NewEngine NewEngineConfig Some 5 0 = Some e0" "e_address e0 = ''local''"
    "reg_get (Some ?x) (e_Registry e0) = None" using NewEngine_local [of Some 5 0] by blast
  define e1 where "e1 = fold eng_apply ?ops1 e0"
  define e2 where "e2 = eng_apply (OSpawn (ProcObj ?x [])) e1"
  have "same_shape e0 e1" using sends_shape(1) [of e0] by (simp add: e1_def SendWithSender_def)
  then have r: "reg_getByID (ID ?x) (e_Registry e1) = None" "e_address e1 = ''local''"
    using n(2,3) by (auto simp: same_shape_def reg_get_def reg_getByID_def isResponse_def responsePrefix_def split: option.splits)
  have a2: "e_address e2 = ''local''" unfolding e2_def eng_apply.simps
    using r by (simp add: SpawnProc_def alloc_def reg_add_def reg_getByID_def)
  from mailbox_history [OF idle_remote.startable_axioms n(1) refl e1_def r(1) e2_def _ _ refl, of ?ops2]
  have "e_heap (fold eng_apply ?ops2 e2) (e_size e1) = ProcObj ?x (arrivals (ID ?x) e2 ?ops2)" by simp
  also have "arrivals (ID ?x) e2 ?ops2 = [\<lparr>Msg = User 1, Sender = None\<rparr>,
      \<lparr>Msg = PoisonPill (Some (e_contexts (fold eng_apply (take 2 ?ops2) e2))) True, Sender = None\<rparr>]"
    by (simp add: a2 del: eng_apply.simps)
  finally show ?thesis unfolding Let_def
    by (intro exI [of _ e0] exI [of _ e1] exI [of _ e2] exI [of _ "fold eng_apply ?ops2 e2"] conjI)
      (simp_all only: n(1) e1_def e2_def fold_simps)
qed

theorem request_reply_witness:
  "\<exists>(e :: nat engine) k r e1 e2 e3. Request (Some (NewPID ''local'' ''a/1'')) (User 1) 100 e = (k, r, e1)
     \<and> eng_Send (Some (response_pid e)) (User 2) e1 = (SDone, e2) \<and> Result k e2 = (Some (User 2), e3)"
proof -
  obtain e :: "nat engine" where e: "eng_inv e" "stream_ok (stream_pid ''local'' 5) 0 e"
    "e_Registry e = \<lparr>reg_lookup = [ID (stream_pid ''local'' 5) \<mapsto> 0], responses = Map.empty\<rparr>"
    using example_engine by blast
  obtain k r e1 where s: "Request (Some (NewPID ''local'' ''a/1'')) (User 1) 100 e = (k, r, e1)" by (metis prod_cases3)
  have "ID (response_pid e) = CHR ''r'' # ''esponse'' @ pidSeparator @ FormatUint (e_responseSeq e + 1) 36"
    by (simp add: response_pid_def responsePrefix_def)
  then have "reg_getByID (ID (response_pid e)) (e_Registry e) = None"
    "\<forall>p. Some (NewPID ''local'' ''a/1'') = Some p \<longrightarrow> ID p \<noteq> ID (response_pid e)"
    by (auto simp: e(3) reg_getByID_def stream_pid_id)
  from request_reply [OF e(1,2) this s] s show ?thesis by blast
qed

text \<open>
  Response mailboxes have distinct PIDs: two requests of one engine get different PIDs
  unless \<open>2\<^sup>6\<^sup>4\<close> requests lie between them, when the counter wraps.
\<close>

theorem response_ids_distinct:
  assumes "i < j" "j - i < 2 ^ 64"
  shows "obj_pid (fst (NewResponse t (e\<lparr>e_responseSeq := n + of_nat i\<rparr>)))
    \<noteq> obj_pid (fst (NewResponse t' (e\<lparr>e_responseSeq := n + of_nat j\<rparr>)))"
proof -
  obtain k where k: "j = i + k" "0 < k" "k < 2 ^ 64" using assms by (auto dest: less_imp_add_positive)
  then have "of_nat k \<noteq> (0 :: 64 word)" by (auto simp: word_of_nat_eq_0_iff dest: dvd_imp_le)
  then have "n + of_nat i + 1 \<noteq> n + of_nat j + (1 :: 64 word)" by (simp add: k(1))
  then show ?thesis by (simp add: NewResponse_def Let_def FormatUint_inj)
qed

text \<open>
  A poison pill goes to the local process with the id of the PID, whatever the address in
  the PID says, so poisoning a PID of another node stops the local process of the same id. For
  an id that is not registered the returned context is cancelled at once and the event stream
  gets the dead letter.
\<close>

theorem poison_sent:
  assumes "stream_ok es h e" "sendPoisonPill g (Some q) e = (c, r, e')"
  shows "case reg_get (Some q) (e_Registry e) of
      Some k \<Rightarrow> c \<notin> e_cancelled e \<longrightarrow> c \<notin> e_cancelled e' \<and> (\<forall>p mb. e_heap e k = ProcObj p mb \<longrightarrow>
        r = SDone \<and> e_heap e' k = ProcObj p (mb @ [\<lparr>Msg = PoisonPill (Some c) g, Sender = None\<rparr>]))
    | None \<Rightarrow> r = SDone \<and> c \<in> e_cancelled e' \<and> (\<exists>p mb. e_heap e h = ProcObj p mb \<and>
        e_heap e' h = ProcObj p (mb @ [\<lparr>Msg = DeadLetterEvent (Some q) (PoisonPill (Some c) g) None, Sender = None\<rparr>]))"
proof -
  let ?e1 = "e\<lparr>e_contexts := Suc (e_contexts e)\<rparr>"
  have s: "stream_ok es h ?e1" using assms(1) by (simp add: stream_ok_def)
  obtain p mb where p: "e_heap e h = ProcObj p mb" using assms(1) by (auto simp: stream_ok_def)
  show ?thesis
  proof (cases "reg_get (Some q) (e_Registry e)")
    case None
    then show ?thesis
      using assms(2) p by (auto simp: sendPoisonPill_def Let_def eng_Broadcast_arrives [OF s] proc_send_def)
  next
    case (Some k)
    have e': "e' = snd (proc_send k (Some q) (PoisonPill (Some c) g) None ?e1)"
      "r = fst (proc_send k (Some q) (PoisonPill (Some c) g) None ?e1)" "c = e_contexts e"
      using assms(2) Some by (auto simp: sendPoisonPill_def Let_def send_fuel_def eval_nat_numeral)
    have "e_cancelled e' = e_cancelled e" unfolding e'(1)
      using proc_send_shape [of ?e1 k "Some q" "PoisonPill (Some c) g" None] by (simp add: same_shape_def)
    then show ?thesis using Some e'(1,2) by (simp add: proc_send_def)
  qed
qed

theorem poison_sent_witness:
  "\<exists>(e :: nat engine) c r e'. sendPoisonPill True (Some (NewPID ''elsewhere'' ''a/1'')) e = (c, r, e') \<and> c \<in> e_cancelled e'"
proof -
  obtain e :: "nat engine" where e: "stream_ok (stream_pid ''local'' 5) 0 e"
    "e_Registry e = \<lparr>reg_lookup = [ID (stream_pid ''local'' 5) \<mapsto> 0], responses = Map.empty\<rparr>"
    using example_engine by blast
  obtain c r e' where s: "sendPoisonPill True (Some (NewPID ''elsewhere'' ''a/1'')) e = (c, r, e')" by (metis prod_cases3)
  have "reg_get (Some (NewPID ''elsewhere'' ''a/1'')) (e_Registry e) = None" by (simp add: e(2) reg_get_def stream_pid_id isResponse_def responsePrefix_def)
  with poison_sent [OF e(1) s] s show ?thesis by auto
qed

theorem response_ids_distinct_witness:
  "\<exists>e :: nat engine. obj_pid (fst (NewResponse 0 (e\<lparr>e_responseSeq := 0 + of_nat 1\<rparr>)))
     \<noteq> obj_pid (fst (NewResponse 0 (e\<lparr>e_responseSeq := 0 + of_nat 2\<rparr>)))"
  by (rule exI, rule response_ids_distinct) simp_all

end
