(* ===== verification/SafeMap.thy ===== *)
theory SafeMap
  imports Prelude
begin

section \<open>The locked map (safemap/safemap.go)\<close>

text \<open>
  \<open>SafeMap[K, V]\<close>: a Go map behind a read/write lock. Every method takes the lock for its
  whole body, so each is one atomic operation on the record. Methods that range over the map
  take the runtime's iteration order \<open>ks\<close> as an argument (see \<open>range_order\<close>).
\<close>

record ('k, 'v) safe_map =
  sm_data :: "'k \<rightharpoonup> 'v"

definition sm_New :: "('k, 'v) safe_map" where
  "sm_New = \<lparr>sm_data = Map.empty\<rparr>"

definition sm_Set :: "'k \<Rightarrow> 'v \<Rightarrow> ('k, 'v) safe_map \<Rightarrow> ('k, 'v) safe_map" where
  "sm_Set k v s = s\<lparr>sm_data := (sm_data s)(k \<mapsto> v)\<rparr>"

text \<open>\<open>Get\<close>: \<open>None\<close> is the pair of the zero value and \<open>false\<close>.\<close>

definition sm_Get :: "'k \<Rightarrow> ('k, 'v) safe_map \<Rightarrow> 'v option" where
  "sm_Get k s = sm_data s k"

definition sm_Delete :: "'k \<Rightarrow> ('k, 'v) safe_map \<Rightarrow> ('k, 'v) safe_map" where
  "sm_Delete k s = s\<lparr>sm_data := (sm_data s)(k := None)\<rparr>"

definition sm_Len :: "('k, 'v) safe_map \<Rightarrow> nat" where
  "sm_Len s = card (dom (sm_data s))"

text \<open>\<open>ForEach(f)\<close>: the callback's effect on the caller's state \<open>a\<close>, entry by entry.\<close>

fun sm_each :: "('k \<rightharpoonup> 'v) \<Rightarrow> ('k \<Rightarrow> 'v \<Rightarrow> 'a \<Rightarrow> 'a) \<Rightarrow> 'k list \<Rightarrow> 'a \<Rightarrow> 'a" where
  "sm_each m f [] a = a"
| "sm_each m f (k # ks) a = sm_each m f ks (case m k of None \<Rightarrow> a | Some v \<Rightarrow> f k v a)"

definition sm_ForEach :: "'k list \<Rightarrow> ('k \<Rightarrow> 'v \<Rightarrow> 'a \<Rightarrow> 'a) \<Rightarrow> ('k, 'v) safe_map \<Rightarrow> 'a \<Rightarrow> 'a" where
  "sm_ForEach ks f s a = sm_each (sm_data s) f ks a"

definition sm_Keys :: "'k list \<Rightarrow> ('k, 'v) safe_map \<Rightarrow> 'k list" where
  "sm_Keys ks s = sm_each (sm_data s) (\<lambda>k v acc. acc @ [k]) ks []"

definition sm_Values :: "'k list \<Rightarrow> ('k, 'v) safe_map \<Rightarrow> 'v list" where
  "sm_Values ks s = sm_each (sm_data s) (\<lambda>k v acc. acc @ [v]) ks []"

subsection \<open>Properties\<close>

definition sm_inv :: "('k, 'v) safe_map \<Rightarrow> bool" where
  "sm_inv s \<longleftrightarrow> finite (dom (sm_data s))"

interpretation safemap: keyed_store sm_inv sm_Get sm_Set sm_Delete
  by unfold_locales (auto simp: sm_inv_def sm_Get_def sm_Set_def sm_Delete_def)

lemma sm_New_inv: "sm_inv sm_New"
  by (simp add: sm_inv_def sm_New_def)

lemma sm_Get_simps [simp]:
  "sm_Get k sm_New = None"
  "sm_Get k' (sm_Set k v s) = (if k' = k then Some v else sm_Get k' s)"
  "sm_Get k' (sm_Delete k s) = (if k' = k then None else sm_Get k' s)"
  by (auto simp: sm_Get_def sm_Set_def sm_Delete_def sm_New_def)

lemma sm_each_keys:
  "set ks \<subseteq> dom m \<Longrightarrow> sm_each m (\<lambda>k v acc. acc @ [k]) ks acc = acc @ ks"
  by (induction ks arbitrary: acc) auto

lemma sm_each_values:
  "set ks \<subseteq> dom m \<Longrightarrow> sm_each m (\<lambda>k v acc. acc @ [v]) ks acc = acc @ range_values m ks"
  by (induction ks arbitrary: acc) (auto simp: range_values_def List.map_filter_def)

lemma sm_Keys_eq: "range_order (sm_data s) ks \<Longrightarrow> sm_Keys ks s = ks"
  by (simp add: sm_Keys_def sm_each_keys range_order_def)

lemma sm_Values_eq: "range_order (sm_data s) ks \<Longrightarrow> sm_Values ks s = range_values (sm_data s) ks"
  by (simp add: sm_Values_def sm_each_values range_order_def)

text \<open>
  After any sequence of \<open>Set\<close> and \<open>Delete\<close> on a new map, \<open>Get\<close> returns the last
  value written to the key (nothing if it was never set or deleted since), and for every
  order the runtime may range in, \<open>Keys\<close> lists exactly the keys that \<open>Get\<close> finds, each
  once, and \<open>Values\<close> the values stored under them; \<open>Len\<close> is their number.
\<close>

theorem safemap_last_write:
  assumes "s = store_run sm_Set sm_Delete sm_New ops" "range_order (sm_data s) ks"
  shows "sm_Get k s = last_write None k ops
     \<and> (k \<in> set (sm_Keys ks s) \<longleftrightarrow> sm_Get k s \<noteq> None)
     \<and> distinct (sm_Keys ks s)
     \<and> map Some (sm_Values ks s) = map (\<lambda>k. sm_Get k s) (sm_Keys ks s)
     \<and> sm_Len s = length (sm_Keys ks s)"
proof (intro conjI)
  note ks = range_orderD [OF assms(2)] and eq = sm_Keys_eq [OF assms(2)]
  show "sm_Get k s = last_write None k ops"
    using safemap.run_last_write [OF sm_New_inv, of ops k] assms(1) by simp
  show "k \<in> set (sm_Keys ks s) \<longleftrightarrow> sm_Get k s \<noteq> None"
    using ks by (auto simp: eq sm_Get_def)
  show "distinct (sm_Keys ks s)" using ks by (simp add: eq)
  show "map Some (sm_Values ks s) = map (\<lambda>k. sm_Get k s) (sm_Keys ks s)"
    using ks by (auto simp: eq sm_Values_eq [OF assms(2)] range_values_eq_map sm_Get_def)
  show "sm_Len s = length (sm_Keys ks s)"
    using ks distinct_card by (fastforce simp: eq sm_Len_def)
qed

theorem safemap_last_write_witness:
  "\<exists>s. s = store_run sm_Set sm_Delete sm_New [OpSet 7 ''a'', OpSet 2 ''b'', OpSet (7::nat) ''c'', OpDelete 2]
     \<and> range_order (sm_data s) [7] \<and> sm_Get 7 s = Some ''c'' \<and> sm_Keys [7] s = [7] \<and> sm_Len s = 1"
proof -
  define s where "s = store_run sm_Set sm_Delete sm_New [OpSet 7 ''a'', OpSet 2 ''b'', OpSet (7::nat) ''c'', OpDelete 2]"
  have r: "range_order (sm_data s) [7]"
    by (auto simp: s_def range_order_def sm_Set_def sm_Delete_def sm_New_def split: if_splits)
  have "sm_Get 7 s = Some ''c'' \<and> sm_Len s = length (sm_Keys [7] s)"
    using safemap_last_write [OF s_def r, of 7] by simp
  then show ?thesis
    using r s_def sm_Keys_eq [OF r] by auto
qed

end
