(* ===== verification/ActorContext.thy ===== *)
theory ActorContext
  imports Engine SafeMap
begin

section \<open>The context of an actor and the event stream (actor/context.go, event_stream.go)\<close>

text \<open>
  A \<open>Context\<close> is what a receiver sees: its PID, the message and sender it is handling, its
  parent and children. Its methods are calls of the engine. \<open>Children\<close> ranges over a map and
  takes the iteration order. The event stream is an actor that forwards every event it
  receives to its subscribers, which it keeps in a map keyed by the \<open>*PID\<close> pointer.
\<close>

record 'm actor_context =
  c_pid :: pid
  c_sender :: "pid option"
  c_message :: "'m msg"
  c_parent :: "pid option"
  c_children :: "(string, pid) safe_map"
  c_context :: nat
  c_inboxCount :: int

text \<open>Before the first message \<open>message\<close> is nil; it is given here as an argument.\<close>

definition newContext :: "nat \<Rightarrow> pid \<Rightarrow> 'm msg \<Rightarrow> 'm actor_context" where
  "newContext ctx q m = \<lparr>c_pid = q, c_sender = None, c_message = m, c_parent = None, c_children = sm_New,
     c_context = ctx, c_inboxCount = -1\<rparr>"

definition ctx_Context :: "'m actor_context \<Rightarrow> nat" where
  "ctx_Context c = c_context c"

definition ctx_PID :: "'m actor_context \<Rightarrow> pid" where
  "ctx_PID c = c_pid c"

definition ctx_Sender :: "'m actor_context \<Rightarrow> pid option" where
  "ctx_Sender c = c_sender c"

definition ctx_Message :: "'m actor_context \<Rightarrow> 'm msg" where
  "ctx_Message c = c_message c"

definition ctx_Request :: "pid option \<Rightarrow> 'm msg \<Rightarrow> int \<Rightarrow> 'm engine \<Rightarrow> nat \<times> send_out \<times> 'm engine" where
  "ctx_Request q m tmo e = Request q m tmo e"

definition ctx_Respond :: "'m msg \<Rightarrow> 'm actor_context \<Rightarrow> 'm engine \<Rightarrow> send_out \<times> 'm engine" where
  "ctx_Respond m c e = (if c_sender c = None then (SDone, e) else eng_Send (c_sender c) m e)"

definition SpawnChild :: "string \<Rightarrow> (('u, 'm, 'a) opts \<Rightarrow> ('u, 'm, 'a) opts) list \<Rightarrow> nat \<Rightarrow> ('u, 'm, 'a) opts \<Rightarrow>
    'm actor_context \<Rightarrow> 'm engine \<Rightarrow> pid \<times> send_out \<times> 'm actor_context \<times> 'm engine" where
  "SpawnChild name fs random op c e =
     (let op1 = spawn_opts (ID (c_pid c) @ pidSeparator @ name) fs random op;
          proc = ProcObj (NewPID (e_address e) (Kind op1 @ pidSeparator @ OptID op1)) [];
          (q, r, e1) = SpawnProc proc e
      in (obj_pid proc, r, c\<lparr>c_children := sm_Set (ID q) q (c_children c)\<rparr>, e1))"

definition SpawnChildFunc :: "('u, 'm, 'a) receive_func \<Rightarrow> string \<Rightarrow> (('u, 'm, 'a) opts \<Rightarrow> ('u, 'm, 'a) opts) list \<Rightarrow> nat \<Rightarrow>
    'm actor_context \<Rightarrow> 'm engine \<Rightarrow> pid \<times> send_out \<times> 'm actor_context \<times> 'm engine" where
  "SpawnChildFunc f name fs random c e = SpawnChild name fs random (DefaultOpts newFuncReceiver (funcReceiver_Receive f)) c e"

definition ctx_Send :: "pid option \<Rightarrow> 'm msg \<Rightarrow> 'm actor_context \<Rightarrow> 'm engine \<Rightarrow> send_out \<times> 'm engine" where
  "ctx_Send q m c e = SendWithSender q m (Some (c_pid c)) e"

definition ctx_SendRepeat :: "pid option \<Rightarrow> 'm msg \<Rightarrow> int \<Rightarrow> 'm actor_context \<Rightarrow> 'm send_repeater" where
  "ctx_SendRepeat q m interval c =
     \<lparr>sr_self = Some (c_pid c), sr_target = q, sr_msg = m, sr_interval = interval, sr_closed = False\<rparr>"

definition ctx_Forward :: "pid option \<Rightarrow> 'm actor_context \<Rightarrow> 'm engine \<Rightarrow> send_out \<times> 'm engine" where
  "ctx_Forward q c e = SendWithSender q (c_message c) (Some (c_pid c)) e"

definition ctx_GetPID :: "string \<Rightarrow> 'm engine \<Rightarrow> pid option" where
  "ctx_GetPID i e = (case reg_getByID i (e_Registry e) of Some h \<Rightarrow> Some (obj_pid (e_heap e h)) | None \<Rightarrow> None)"

definition ctx_Parent :: "'m actor_context \<Rightarrow> pid option" where
  "ctx_Parent c = c_parent c"

definition ctx_Child :: "string \<Rightarrow> 'm actor_context \<Rightarrow> pid option" where
  "ctx_Child i c = sm_Get i (c_children c)"

definition ctx_Children :: "string list \<Rightarrow> 'm actor_context \<Rightarrow> pid list" where
  "ctx_Children ks c = sm_Values ks (c_children c)"

definition GetInboxCount :: "'m actor_context \<Rightarrow> int" where
  "GetInboxCount c = c_inboxCount c"

text \<open>
  A child belongs to its parent: its id is the parent's id, the name and its own id joined
  by separators; it is registered under that id and the parent finds it by it, whether it was
  started now or the id was taken before.
\<close>

theorem spawn_child_linked:
  fixes op :: "('u, 'm, 'a) opts"
  assumes "eng_inv e" "stream_ok es h e" "SpawnChild name [WithID i] random op c e = (q, r, c', e')" "i \<noteq> []"
  shows "q = NewPID (e_address e) (ID (c_pid c) @ pidSeparator @ name @ pidSeparator @ i) \<and> r = SDone
    \<and> ctx_Child (ID q) c' = Some q \<and> (\<forall>k. k \<noteq> ID q \<longrightarrow> ctx_Child k c' = ctx_Child k c)
    \<and> reg_getByID (ID q) (e_Registry e') \<noteq> None"
proof -
  let ?op = "spawn_opts (ID (c_pid c) @ pidSeparator @ name) [WithID i] random op"
  let ?proc = "ProcObj (NewPID (e_address e) (Kind ?op @ pidSeparator @ OptID ?op)) [] :: 'm processer"
  have o: "Kind ?op = ID (c_pid c) @ pidSeparator @ name" "OptID ?op = i"
    using assms(4) by (simp_all add: spawn_opts_def WithID_def Let_def)
  obtain p r1 e1 where s: "SpawnProc ?proc e = (p, r1, e1)" by (metis prod_cases3)
  have q: "q = obj_pid ?proc" "r = r1" "c' = c\<lparr>c_children := sm_Set (ID p) p (c_children c)\<rparr>" "e' = e1"
    using assms(3) s by (auto simp: SpawnChild_def Let_def)
  note sp = spawn_claims [OF assms(1,2) s]
  show ?thesis using sp q o by (auto simp: ctx_Child_def)
qed

subsection \<open>The event stream\<close>

record event_stream =
  subs :: "pid_ptr \<rightharpoonup> bool"

definition newEventStream :: event_stream where
  "newEventStream = \<lparr>subs = Map.empty\<rparr>"

text \<open>The loop over the subscribers in the order \<open>ks\<close>.\<close>

fun forward_all :: "pid_ptr list \<Rightarrow> 'm actor_context \<Rightarrow> 'm engine \<Rightarrow> send_out \<times> 'm engine" where
  "forward_all [] c e = (SDone, e)"
| "forward_all (k # ks) c e = (case ctx_Forward (Some (snd k)) c e of (SDone, e') \<Rightarrow> forward_all ks c e' | r \<Rightarrow> r)"

text \<open>The result also says what was logged.\<close>

definition stream_Receive :: "pid_ptr list \<Rightarrow> 'm actor_context \<Rightarrow> event_stream \<Rightarrow> 'm engine \<Rightarrow>
    event_stream \<times> (level \<times> string \<times> 'm attr list) option \<times> send_out \<times> 'm engine" where
  "stream_Receive ks c st e =
     (case c_message c of
        EventSub q \<Rightarrow> (st\<lparr>subs := (subs st)(q \<mapsto> True)\<rparr>, None, SDone, e)
      | EventUnsub q \<Rightarrow> (st\<lparr>subs := (subs st)(q := None)\<rparr>, None, SDone, e)
      | m \<Rightarrow> (st, event_Log m, forward_all ks c e))"

lemma stream_Receive_event:
  "\<forall>q. c_message c \<noteq> EventSub q \<and> c_message c \<noteq> EventUnsub q \<Longrightarrow>
   stream_Receive ks c st e = (st, event_Log (c_message c), forward_all ks c e)"
  by (simp add: stream_Receive_def split: msg.split)

text \<open>The copies of the message that processer \<open>g\<close> is due: one per subscribed pointer that resolves to it.\<close>

definition copies :: "'m actor_context \<Rightarrow> pid_ptr list \<Rightarrow> nat \<Rightarrow> 'm engine \<Rightarrow> 'm envelope list" where
  "copies c ks g e = replicate (length (filter (\<lambda>k. reg_get (Some (snd k)) (e_Registry e) = Some g) ks))
     \<lparr>Msg = c_message c, Sender = Some (c_pid c)\<rparr>"

text \<open>A subscriber that can be reached: an actor process of this engine.\<close>

definition reachable_sub :: "pid_ptr \<Rightarrow> 'm engine \<Rightarrow> bool" where
  "reachable_sub k e \<longleftrightarrow> Address (snd k) = e_address e \<and>
     (\<exists>g p mb. reg_get (Some (snd k)) (e_Registry e) = Some g \<and> e_heap e g = ProcObj p mb)"

lemma reachable_same: "same_shape e e' \<Longrightarrow> reachable_sub k e \<Longrightarrow> reachable_sub k e'"
  unfolding same_shape_def reachable_sub_def by metis

lemma copies_Cons:
  "same_shape e e' \<Longrightarrow> copies c (k # ks) g e = (if reg_get (Some (snd k)) (e_Registry e) = Some g
     then \<lparr>Msg = c_message c, Sender = Some (c_pid c)\<rparr> # copies c ks g e' else copies c ks g e')"
  by (simp add: copies_def same_shape_def)

lemma forward_one:
  assumes "stream_ok es h e" "reachable_sub k e"
  obtains g p mb e' where "ctx_Forward (Some (snd k)) c e = (SDone, e')" "same_shape e e'"
    "reg_get (Some (snd k)) (e_Registry e) = Some g" "e_heap e g = ProcObj p mb"
    "e_heap e' = (e_heap e)(g := ProcObj p (mb @ [\<lparr>Msg = c_message c, Sender = Some (c_pid c)\<rparr>]))"
proof -
  obtain g p mb where g: "reg_get (Some (snd k)) (e_Registry e) = Some g" "e_heap e g = ProcObj p mb" "Address (snd k) = e_address e"
    using assms(2) by (auto simp: reachable_sub_def)
  have "ctx_Forward (Some (snd k)) c e = proc_send g (Some (snd k)) (c_message c) (Some (c_pid c)) e"
    using SendWithSender_arrives [OF assms(1)] g by (simp add: ctx_Forward_def route_def arrive_def)
  then show ?thesis
    using that [of _ g p mb] g proc_send_shape [of e g "Some (snd k)" "c_message c" "Some (c_pid c)"] by (simp add: proc_send_def)
qed

lemma forward_all_fanout:
  assumes "stream_ok es h e" "\<forall>k \<in> set ks. reachable_sub k e"
  shows "\<exists>e'. forward_all ks c e = (SDone, e') \<and> same_shape e e' \<and>
     (\<forall>g p mb. e_heap e g = ProcObj p mb \<longrightarrow> e_heap e' g = ProcObj p (mb @ copies c ks g e))"
  using assms
proof (induction ks arbitrary: e)
  case Nil
  then show ?case by (simp add: copies_def)
next
  case (Cons k ks)
  obtain g p mb e1 where f: "ctx_Forward (Some (snd k)) c e = (SDone, e1)" "same_shape e e1"
    "reg_get (Some (snd k)) (e_Registry e) = Some g" "e_heap e g = ProcObj p mb"
    "e_heap e1 = (e_heap e)(g := ProcObj p (mb @ [\<lparr>Msg = c_message c, Sender = Some (c_pid c)\<rparr>]))"
    using forward_one [OF Cons.prems(1)] Cons.prems(2) by (metis list.set_intros(1))
  obtain e' where e': "forward_all ks c e1 = (SDone, e')" "same_shape e1 e'"
    "\<forall>g p mb. e_heap e1 g = ProcObj p mb \<longrightarrow> e_heap e' g = ProcObj p (mb @ copies c ks g e1)"
    using Cons.IH [OF same_shape_stream [OF f(2) Cons.prems(1)]] Cons.prems(2) reachable_same [OF f(2)] by auto
  have "e_heap e' i = ProcObj q (ms @ copies c (k # ks) i e)" if "e_heap e i = ProcObj q ms" for i q ms
    using that e'(3) f(3-5) by (auto simp: copies_Cons [OF f(2)])
  moreover have "same_shape e e'" using f(2) e'(2) unfolding same_shape_def by metis
  ultimately show ?case using f(1) e'(1) by auto
qed

lemma stream_event:
  assumes "stream_ok es h e" "range_order (subs st) ks" "\<forall>k \<in> dom (subs st). reachable_sub k e"
    "\<forall>q. c_message c \<noteq> EventSub q \<and> c_message c \<noteq> EventUnsub q"
  obtains e' where "stream_Receive ks c st e = (st, event_Log (c_message c), SDone, e')" "same_shape e e'"
    "\<forall>g p mb. e_heap e g = ProcObj p mb \<longrightarrow> e_heap e' g = ProcObj p (mb @
       replicate (card {k \<in> dom (subs st). reg_get (Some (snd k)) (e_Registry e) = Some g}) \<lparr>Msg = c_message c, Sender = Some (c_pid c)\<rparr>)"
proof -
  have ks: "distinct ks" "set ks = dom (subs st)" using range_orderD [OF assms(2)] by auto
  have n: "length (filter P ks) = card {k \<in> dom (subs st). P k}" for P
    using distinct_card [OF distinct_filter [OF ks(1)], of P] by (simp only: set_filter ks(2))
  obtain e' where e': "forward_all ks c e = (SDone, e')" "same_shape e e'"
    "\<forall>g p mb. e_heap e g = ProcObj p mb \<longrightarrow> e_heap e' g = ProcObj p (mb @ copies c ks g e)"
    using forward_all_fanout [OF assms(1)] assms(3) ks(2) by metis
  have "stream_Receive ks c st e = (st, event_Log (c_message c), forward_all ks c e)"
    by (rule stream_Receive_event [OF assms(4)])
  then show ?thesis using that [of e'] e' by (simp add: copies_def n)
qed

text \<open>
  C24. Fan-out. An event that reaches the event stream is put, with the stream as the sender,
  into the inbox of every subscriber once per subscribed pointer, whatever the order of the
  map iteration, and into no other inbox; the subscriptions do not change.
\<close>

theorem event_fanout:
  assumes "stream_ok es h e" "range_order (subs st) ks" "\<forall>k \<in> dom (subs st). reachable_sub k e"
    "\<forall>q. c_message c \<noteq> EventSub q \<and> c_message c \<noteq> EventUnsub q"
  shows "\<exists>e'. stream_Receive ks c st e = (st, event_Log (c_message c), SDone, e') \<and>
     (\<forall>g p mb. e_heap e g = ProcObj p mb \<longrightarrow> (\<exists>n. n = card {k \<in> dom (subs st). reg_get (Some (snd k)) (e_Registry e) = Some g}
        \<and> e_heap e' g = ProcObj p (mb @ replicate n \<lparr>Msg = c_message c, Sender = Some (c_pid c)\<rparr>)))"
  by (rule stream_event [OF assms]) blast

text \<open>
  Subscriptions are kept by pointer: unsubscribing with a copy of the PID leaves the
  subscription in place, and subscribing a copy as well doubles every event.
\<close>

theorem unsubscribe_by_pointer:
  assumes "a \<noteq> b"
  shows "subs (fst (stream_Receive ks (c\<lparr>c_message := EventUnsub (b, q)\<rparr>)
       (fst (stream_Receive ks (c\<lparr>c_message := EventSub (a, q)\<rparr>) st e)) e)) (a, q) = Some True
    \<and> subs (fst (stream_Receive ks (c\<lparr>c_message := EventUnsub (a, q)\<rparr>)
       (fst (stream_Receive ks (c\<lparr>c_message := EventSub (a, q)\<rparr>) st e)) e)) (a, q) = None"
  using assms by (simp add: stream_Receive_def)

theorem unsubscribe_by_pointer_witness:
  "\<exists>(c :: nat actor_context) (e :: nat engine). subs (fst (stream_Receive [] (c\<lparr>c_message := EventUnsub (2, NewPID ''local'' ''a/1'')\<rparr>)
     (fst (stream_Receive [] (c\<lparr>c_message := EventSub (1, NewPID ''local'' ''a/1'')\<rparr>) newEventStream e)) e)) (1, NewPID ''local'' ''a/1'') = Some True"
  by (intro exI, rule unsubscribe_by_pointer [THEN conjunct1]) simp

text \<open>One turn of the event stream's process: it takes the first message of its inbox and handles it.\<close>

definition stream_turn :: "nat \<Rightarrow> pid_ptr list \<Rightarrow> event_stream \<Rightarrow> 'm engine \<Rightarrow> 'm engine" where
  "stream_turn h ks st e =
     (case e_heap e h of
        ProcObj p (x # xs) \<Rightarrow>
          snd (snd (snd (stream_Receive ks (newContext background p (Msg x))
            st (e\<lparr>e_heap := (e_heap e)(h := ProcObj p xs)\<rparr>))))
      | _ \<Rightarrow> e)"

definition only_events :: "'m envelope list \<Rightarrow> bool" where
  "only_events ms \<longleftrightarrow> (\<forall>x \<in> set ms. \<forall>q. Msg x \<noteq> EventSub q \<and> Msg x \<noteq> EventUnsub q)"

definition dead_sub :: "pid \<Rightarrow> 'm engine \<Rightarrow> bool" where
  "dead_sub q e \<longleftrightarrow> Address q = e_address e \<and> reg_get (Some q) (e_Registry e) = None"

lemma stream_turn_dead:
  assumes "stream_ok es h e" "dead_sub q e" "e_heap e h = ProcObj p (x # xs)" "only_events (x # xs)"
  shows "stream_ok es h (stream_turn h [(a, q)] st e)" "dead_sub q (stream_turn h [(a, q)] st e)"
    "e_heap (stream_turn h [(a, q)] st e) h = ProcObj p (xs @ [\<lparr>Msg = DeadLetterEvent (Some q) (Msg x) (Some p), Sender = None\<rparr>])"
proof -
  let ?c = "newContext background p (Msg x)" and ?e1 = "e\<lparr>e_heap := (e_heap e)(h := ProcObj p xs)\<rparr>"
  have s1: "stream_ok es h ?e1" using assms(1,3) by (auto simp: stream_ok_def)
  have d1: "dead_sub q ?e1" using assms(2) by (simp add: dead_sub_def)
  have c: "c_message ?c = Msg x" "c_pid ?c = p" by (simp_all add: newContext_def)
  have f: "forward_all [(a, q)] ?c ?e1 = proc_send h (Some es) (DeadLetterEvent (Some q) (Msg x) (Some p)) None ?e1"
    using SendWithSender_arrives [OF s1, of "Some q" "Msg x" "Some p"] d1 s1
    by (auto simp: ctx_Forward_def c dead_sub_def route_def arrive_def proc_send_def stream_ok_def split: prod.split)
  have "stream_Receive [(a, q)] ?c st ?e1 = (st, event_Log (Msg x), forward_all [(a, q)] ?c ?e1)"
    using stream_Receive_event [of ?c] assms(4) unfolding c only_events_def by simp
  then have t: "stream_turn h [(a, q)] st e = snd (proc_send h (Some es) (DeadLetterEvent (Some q) (Msg x) (Some p)) None ?e1)"
    using assms(3) f by (simp add: stream_turn_def)
  show "e_heap (stream_turn h [(a, q)] st e) h = ProcObj p (xs @ [\<lparr>Msg = DeadLetterEvent (Some q) (Msg x) (Some p), Sender = None\<rparr>])"
    by (simp add: t proc_send_def)
  have sh: "same_shape ?e1 (stream_turn h [(a, q)] st e)" unfolding t by (rule proc_send_shape)
  then show "stream_ok es h (stream_turn h [(a, q)] st e)" using same_shape_stream s1 by blast
  show "dead_sub q (stream_turn h [(a, q)] st e)" using sh d1 by (simp add: dead_sub_def same_shape_def)
qed

fun dead_letters :: "pid \<Rightarrow> pid \<Rightarrow> 'm msg \<Rightarrow> nat \<Rightarrow> 'm msg" where
  "dead_letters q p m 0 = m"
| "dead_letters q p m (Suc n) = DeadLetterEvent (Some q) (dead_letters q p m n) (Some p)"

text \<open>
  A subscriber that stopped without unsubscribing keeps the event stream busy for ever:
  forwarding to it makes a dead letter, which is an event, which is forwarded to it. With one
  event in the inbox, the inbox of the event stream is not empty after any number of turns,
  and the event it holds has been wrapped in that many dead letters.
\<close>

theorem dead_subscriber_livelock:
  assumes "stream_ok es h e" "dead_sub q e" "e_heap e h = ProcObj p [x]" "only_events [x]"
  shows "\<exists>y. e_heap ((stream_turn h [(a, q)] st ^^ n) e) h = ProcObj p [y] \<and> Msg y = dead_letters q p (Msg x) n"
proof -
  have "stream_ok es h ((stream_turn h [(a, q)] st ^^ n) e) \<and> dead_sub q ((stream_turn h [(a, q)] st ^^ n) e)
    \<and> (\<exists>y. e_heap ((stream_turn h [(a, q)] st ^^ n) e) h = ProcObj p [y] \<and> only_events [y] \<and> Msg y = dead_letters q p (Msg x) n)"
  proof (induction n)
    case 0
    then show ?case using assms by simp
  next
    case (Suc n)
    then obtain y where y: "e_heap ((stream_turn h [(a, q)] st ^^ n) e) h = ProcObj p [y]" "only_events [y]"
      "Msg y = dead_letters q p (Msg x) n" "stream_ok es h ((stream_turn h [(a, q)] st ^^ n) e)"
      "dead_sub q ((stream_turn h [(a, q)] st ^^ n) e)" by blast
    show ?case using stream_turn_dead [OF y(4,5,1,2), of a st] y(3) by (simp add: only_events_def)
  qed
  then show ?thesis by blast
qed

subsection \<open>Witnesses\<close>

lemma example_event:
  "\<exists>(e :: nat engine) p x. stream_ok (stream_pid ''local'' 5) 0 e \<and> dead_sub (NewPID ''local'' ''a/1'') e
     \<and> e_heap e 0 = ProcObj p [x] \<and> only_events [x]"
proof -
  obtain e :: "nat engine" where e: "stream_ok (stream_pid ''local'' 5) 0 e" "e_address e = ''local''"
    "e_Registry e = \<lparr>reg_lookup = [ID (stream_pid ''local'' 5) \<mapsto> 0], responses = Map.empty\<rparr>"
    using example_engine by blast
  obtain p mb where "e_heap e 0 = ProcObj p mb" using e(1) by (auto simp: stream_ok_def)
  let ?e = "e\<lparr>e_heap := (e_heap e)(0 := ProcObj p [\<lparr>Msg = User 1, Sender = None\<rparr>])\<rparr>"
  have "stream_ok (stream_pid ''local'' 5) 0 ?e" "dead_sub (NewPID ''local'' ''a/1'') ?e"
    using e by (auto simp: stream_ok_def dead_sub_def reg_get_def stream_pid_id isResponse_def responsePrefix_def)
  then show ?thesis by (intro exI [of _ ?e] exI [of _ p]) (auto simp: only_events_def)
qed

theorem dead_subscriber_livelock_witness:
  "\<exists>(e :: nat engine) p y. e_heap ((stream_turn 0 [(1, NewPID ''local'' ''a/1'')] newEventStream ^^ 1000) e) 0 = ProcObj p [y]"
proof -
  obtain e :: "nat engine" and p x where "stream_ok (stream_pid ''local'' 5) 0 e" "dead_sub (NewPID ''local'' ''a/1'') e"
     "e_heap e 0 = ProcObj p [x]" "only_events [x]" using example_event by blast
  from dead_subscriber_livelock [OF this, where a = 1 and st = newEventStream and n = 1000] show ?thesis by blast
qed

theorem event_fanout_witness:
  "\<exists>(e :: nat engine) e' p mb. e_heap e 0 = ProcObj p mb \<and> stream_Receive [(7, stream_pid ''local'' 5)]
      (newContext background (NewPID ''local'' ''b/1'') (User 3)) \<lparr>subs = [(7, stream_pid ''local'' 5) \<mapsto> True]\<rparr> e
      = (\<lparr>subs = [(7, stream_pid ''local'' 5) \<mapsto> True]\<rparr>, None, SDone, e')"
proof -
  obtain e :: "nat engine" where e: "stream_ok (stream_pid ''local'' 5) 0 e" "e_address e = ''local''"
    using example_engine by blast
  obtain p mb where p: "e_heap e 0 = ProcObj p mb" using e(1) by (auto simp: stream_ok_def)
  let ?st = "\<lparr>subs = [(7, stream_pid ''local'' 5) \<mapsto> True]\<rparr>" and ?c = "newContext background (NewPID ''local'' ''b/1'') (User 3) :: nat actor_context"
  have "range_order (subs ?st) [(7, stream_pid ''local'' 5)]" by (simp add: range_order_def)
  moreover have "\<forall>k \<in> dom (subs ?st). reachable_sub k e"
    using e p by (auto simp: reachable_sub_def stream_get stream_pid_def)
  moreover have "\<forall>q. c_message ?c \<noteq> EventSub q \<and> c_message ?c \<noteq> EventUnsub q" by (simp add: newContext_def)
  ultimately show ?thesis using event_fanout [OF e(1), of ?st _ ?c] p by (fastforce simp: newContext_def)
qed

theorem spawn_child_linked_witness:
  "\<exists>(e :: nat engine) q r c' e'. SpawnChild ''w'' [WithID ''1''] 9 (DefaultOpts (\<lambda>u. (u, None)) (\<lambda>c u. (u, [], None)) :: (unit, nat, unit) opts)
     (newContext background (NewPID ''local'' ''b/1'') Started) e = (q, r, c', e') \<and> ID q = ''b/1/w/1'' \<and> ctx_Child ''b/1/w/1'' c' = Some q"
proof -
  obtain e :: "nat engine" where e: "eng_inv e" "stream_ok (stream_pid ''local'' 5) 0 e" using example_engine by blast
  obtain q r c' e' where s: "SpawnChild ''w'' [WithID ''1''] 9 (DefaultOpts (\<lambda>u. (u, None)) (\<lambda>c u. (u, [], None)) :: (unit, nat, unit) opts)
     (newContext background (NewPID ''local'' ''b/1'') Started) e = (q, r, c', e')" by (metis prod_cases4)
  from spawn_child_linked [OF e s] have "q = NewPID (e_address e) ''b/1/w/1''" "ctx_Child (ID q) c' = Some q"
    by (auto simp: newContext_def pidSeparator_def)
  then show ?thesis using s by (intro exI [of _ e] exI [of _ q] exI [of _ r] exI [of _ c'] exI [of _ e']) simp
qed

end
