(* ===== verification/Mpsc.thy ===== *)
theory Mpsc
  imports Prelude
begin

section \<open>The lock-free MPSC queue (mpsc/mpsc.go)\<close>

text \<open>
  A linked list of nodes in a heap: \<open>head\<close> is the consumed sentinel, producers exchange
  \<open>tail\<close> and then publish the link from the previous tail. Producers run concurrently with the
  one consumer, so \<open>Push\<close> and \<open>PopBatch\<close> are programs of a step relation, one rule per
  access to shared memory, for any number of producers in any interleaving. \<open>z\<close> is the zero
  value of \<open>V\<close>. Go's atomics are sequentially consistent, which the interleaving assumes.
\<close>

type_synonym addr = nat

record 'v node =
  nd_next :: "addr option"
  nd_val :: 'v

text \<open>
  The queue in memory. \<open>mq_fresh\<close> is the address the allocator returns next; \<open>mq_pool\<close>
  holds the nodes given back to the \<open>sync.Pool\<close>.
\<close>

record 'v mpsc =
  mq_nodes :: "addr \<Rightarrow> 'v node"
  mq_head :: addr
  mq_tail :: addr
  mq_len :: int
  mq_pool :: "addr list"
  mq_fresh :: addr

definition mq_New :: "'v \<Rightarrow> 'v mpsc" where
  "mq_New z = \<lparr>mq_nodes = (\<lambda>_. \<lparr>nd_next = None, nd_val = z\<rparr>), mq_head = 0, mq_tail = 0,
               mq_len = 0, mq_pool = [], mq_fresh = 1\<rparr>"

text \<open>
  \<open>pool.Get()\<close>: any pooled node (\<open>Some i\<close> picks the \<open>i\<close>-th) or a new one; the runtime
  chooses. A new node has the zero value and a nil link.
\<close>

definition mq_poolGet :: "'v \<Rightarrow> nat option \<Rightarrow> 'v mpsc \<Rightarrow> addr \<times> 'v mpsc" where
  "mq_poolGet z ch m =
     (case ch of
        Some i \<Rightarrow> if i < length (mq_pool m)
                  then (mq_pool m ! i, m\<lparr>mq_pool := take i (mq_pool m) @ drop (Suc i) (mq_pool m)\<rparr>)
                  else (mq_fresh m, m\<lparr>mq_fresh := Suc (mq_fresh m),
                          mq_nodes := (mq_nodes m)(mq_fresh m := \<lparr>nd_next = None, nd_val = z\<rparr>)\<rparr>)
      | None \<Rightarrow> (mq_fresh m, m\<lparr>mq_fresh := Suc (mq_fresh m),
                   mq_nodes := (mq_nodes m)(mq_fresh m := \<lparr>nd_next = None, nd_val = z\<rparr>)\<rparr>))"

definition set_val :: "addr \<Rightarrow> 'v \<Rightarrow> 'v mpsc \<Rightarrow> 'v mpsc" where
  "set_val a v m = m\<lparr>mq_nodes := (mq_nodes m)(a := (mq_nodes m a)\<lparr>nd_val := v\<rparr>)\<rparr>"

definition set_next :: "addr \<Rightarrow> addr option \<Rightarrow> 'v mpsc \<Rightarrow> 'v mpsc" where
  "set_next a b m = m\<lparr>mq_nodes := (mq_nodes m)(a := (mq_nodes m a)\<lparr>nd_next := b\<rparr>)\<rparr>"

abbreviation next_of :: "'v mpsc \<Rightarrow> addr \<Rightarrow> addr option" where
  "next_of m a \<equiv> nd_next (mq_nodes m a)"

abbreviation val_of :: "'v mpsc \<Rightarrow> addr \<Rightarrow> 'v" where
  "val_of m a \<equiv> nd_val (mq_nodes m a)"

definition mq_Len :: "'v mpsc \<Rightarrow> int" where
  "mq_Len m = mq_len m"

subsection \<open>Uninterrupted execution\<close>

text \<open>\<open>Push\<close>, \<open>Pop\<close> and \<open>PopBatch\<close> run to the end by one goroutine while no other moves.\<close>

definition mq_Push :: "'v \<Rightarrow> nat option \<Rightarrow> 'v \<Rightarrow> 'v mpsc \<Rightarrow> 'v mpsc" where
  "mq_Push z ch v q =
     (let (n, q1) = mq_poolGet z ch q;
          q2 = set_val n v q1;
          q3 = set_next n None q2;
          prev = mq_tail q3;
          q4 = q3\<lparr>mq_tail := n\<rparr>;
          q5 = set_next prev (Some n) q4
      in q5\<lparr>mq_len := mq_len q5 + 1\<rparr>)"

definition mq_Pop :: "'v \<Rightarrow> 'v mpsc \<Rightarrow> 'v option \<times> 'v mpsc" where
  "mq_Pop z q =
     (let head = mq_head q in
      case next_of q head of
        None \<Rightarrow> (None, q)
      | Some nxt \<Rightarrow>
          let v = val_of q nxt; q1 = set_val nxt z q
          in (Some v, q1\<lparr>mq_head := nxt, mq_len := mq_len q1 - 1, mq_pool := head # mq_pool q1\<rparr>))"

text \<open>The consuming loop: from \<open>cur\<close>, \<open>k\<close> more items at most; it returns the new \<open>cur\<close>.\<close>

fun mq_consume :: "'v \<Rightarrow> nat \<Rightarrow> addr \<Rightarrow> 'v list \<Rightarrow> 'v mpsc \<Rightarrow> addr \<times> 'v list \<times> 'v mpsc" where
  "mq_consume z 0 cur out q = (cur, out, q)"
| "mq_consume z (Suc k) cur out q =
     (case next_of q cur of
        None \<Rightarrow> (cur, out, q)
      | Some nxt \<Rightarrow> mq_consume z k nxt (out @ [val_of q nxt]) (set_val nxt z q))"

text \<open>
  The recycling loop from \<open>c\<close> to \<open>cur\<close>: it follows \<open>k\<close> links, where \<open>k\<close> is the number
  of items consumed (the distance from the old head to \<open>cur\<close>).
\<close>

fun mq_recycle :: "nat \<Rightarrow> addr \<Rightarrow> addr \<Rightarrow> 'v mpsc \<Rightarrow> 'v mpsc option" where
  "mq_recycle k c cur q =
     (if c = cur then Some q
      else case k of
        0 \<Rightarrow> None
      | Suc k' \<Rightarrow> (case next_of q c of
            None \<Rightarrow> None
          | Some c' \<Rightarrow> mq_recycle k' c' cur (q\<lparr>mq_pool := c # mq_pool q\<rparr>)))"

declare mq_recycle.simps [simp del]

definition mq_PopBatch :: "'v \<Rightarrow> nat \<Rightarrow> 'v mpsc \<Rightarrow> (('v list \<times> bool) \<times> 'v mpsc) option" where
  "mq_PopBatch z n q =
     (let head = mq_head q; (cur, out, q1) = mq_consume z n head [] q in
      if out = [] then Some (([], False), q1)
      else let q2 = q1\<lparr>mq_head := cur, mq_len := mq_len q1 - int (length out)\<rparr>
        in map_option (\<lambda>q3. ((out, True), q3)) (mq_recycle (length out) head cur q2))"

subsection \<open>Concurrent execution\<close>

text \<open>Where a producer is in \<open>Push(v)\<close>, and where the consumer is in \<open>PopBatch\<close>.\<close>

datatype 'v ppc =
    PIdle
  | PGot 'v addr
  | PVal 'v addr
  | PReady 'v addr
  | PSwapped 'v addr addr
  | PLinked

datatype 'v cpc =
    CIdle
  | CLoop addr addr "'v list" nat
  | CNext addr addr addr "'v list" nat
  | CExit addr addr "'v list"
  | CStored addr addr "'v list"
  | CRecycle addr addr "'v list"

record 'v mq_sys =
  mem :: "'v mpsc"
  prods :: "'v ppc list"
  cons :: "'v cpc"

text \<open>What a step does that a client of the queue can observe.\<close>

datatype 'v mq_label =
    LTau
  | LSwap nat 'v
  | LLink nat
  | LAdd nat
  | LTake 'v
  | LSub nat
  | LNone

inductive mq_step :: "'v \<Rightarrow> 'v mq_sys \<Rightarrow> 'v mq_label \<Rightarrow> 'v mq_sys \<Rightarrow> bool" for z where
  p_get: "i < length (prods s) \<Longrightarrow> prods s ! i = PIdle \<Longrightarrow> mq_poolGet z ch (mem s) = (n, m') \<Longrightarrow>
     mq_step z s LTau (s\<lparr>mem := m', prods := (prods s)[i := PGot v n]\<rparr>)"
| p_val: "i < length (prods s) \<Longrightarrow> prods s ! i = PGot v n \<Longrightarrow>
     mq_step z s LTau (s\<lparr>mem := set_val n v (mem s), prods := (prods s)[i := PVal v n]\<rparr>)"
| p_nil: "i < length (prods s) \<Longrightarrow> prods s ! i = PVal v n \<Longrightarrow>
     mq_step z s LTau (s\<lparr>mem := set_next n None (mem s), prods := (prods s)[i := PReady v n]\<rparr>)"
| p_swap: "i < length (prods s) \<Longrightarrow> prods s ! i = PReady v n \<Longrightarrow>
     mq_step z s (LSwap i v) (s\<lparr>mem := (mem s)\<lparr>mq_tail := n\<rparr>,
        prods := (prods s)[i := PSwapped v n (mq_tail (mem s))]\<rparr>)"
| p_link: "i < length (prods s) \<Longrightarrow> prods s ! i = PSwapped v n prev \<Longrightarrow>
     mq_step z s (LLink i) (s\<lparr>mem := set_next prev (Some n) (mem s), prods := (prods s)[i := PLinked]\<rparr>)"
| p_add: "i < length (prods s) \<Longrightarrow> prods s ! i = PLinked \<Longrightarrow>
     mq_step z s (LAdd i) (s\<lparr>mem := (mem s)\<lparr>mq_len := mq_len (mem s) + 1\<rparr>, prods := (prods s)[i := PIdle]\<rparr>)"
| c_begin: "cons s = CIdle \<Longrightarrow>
     mq_step z s LTau (s\<lparr>cons := CLoop (mq_head (mem s)) (mq_head (mem s)) [] n\<rparr>)"
| c_nil: "cons s = CLoop h cur out n \<Longrightarrow> length out < n \<Longrightarrow> next_of (mem s) cur = None \<Longrightarrow>
     mq_step z s LTau (s\<lparr>cons := CExit h cur out\<rparr>)"
| c_load: "cons s = CLoop h cur out n \<Longrightarrow> length out < n \<Longrightarrow> next_of (mem s) cur = Some nx \<Longrightarrow>
     mq_step z s LTau (s\<lparr>cons := CNext h cur nx out n\<rparr>)"
| c_full: "cons s = CLoop h cur out n \<Longrightarrow> \<not> length out < n \<Longrightarrow>
     mq_step z s LTau (s\<lparr>cons := CExit h cur out\<rparr>)"
| c_take: "cons s = CNext h cur nx out n \<Longrightarrow> v = val_of (mem s) nx \<Longrightarrow>
     mq_step z s (LTake v) (s\<lparr>mem := set_val nx z (mem s), cons := CLoop h nx (out @ [v]) n\<rparr>)"
| c_none: "cons s = CExit h cur [] \<Longrightarrow> mq_step z s LNone (s\<lparr>cons := CIdle\<rparr>)"
| c_store: "cons s = CExit h cur out \<Longrightarrow> out \<noteq> [] \<Longrightarrow>
     mq_step z s LTau (s\<lparr>mem := (mem s)\<lparr>mq_head := cur\<rparr>, cons := CStored h cur out\<rparr>)"
| c_sub: "cons s = CStored h cur out \<Longrightarrow>
     mq_step z s (LSub (length out))
       (s\<lparr>mem := (mem s)\<lparr>mq_len := mq_len (mem s) - int (length out)\<rparr>, cons := CRecycle h cur out\<rparr>)"
| c_put: "cons s = CRecycle c cur out \<Longrightarrow> c \<noteq> cur \<Longrightarrow> next_of (mem s) c = Some c' \<Longrightarrow>
     mq_step z s LTau (s\<lparr>mem := (mem s)\<lparr>mq_pool := c # mq_pool (mem s)\<rparr>, cons := CRecycle c' cur out\<rparr>)"
| c_done: "cons s = CRecycle c cur out \<Longrightarrow> c = cur \<Longrightarrow>
     mq_step z s LTau (s\<lparr>cons := CIdle\<rparr>)"

definition mq_init :: "'v \<Rightarrow> nat \<Rightarrow> 'v mq_sys" where
  "mq_init z k = \<lparr>mem = mq_New z, prods = replicate k PIdle, cons = CIdle\<rparr>"

subsection \<open>The abstract queue\<close>

text \<open>
  What a client may rely on: the list of pushed and not yet taken values, each with the
  producer that has not published it yet (\<open>None\<close> once published), and the counter that
  \<open>Len\<close> reads, which trails behind the list.
\<close>

record 'v aq =
  aq_slots :: "('v \<times> nat option) list"
  aq_cnt :: int

definition aq_publish :: "nat \<Rightarrow> ('v \<times> nat option) list \<Rightarrow> ('v \<times> nat option) list" where
  "aq_publish i = map (\<lambda>(v, own). (v, if own = Some i then None else own))"

inductive aq_step :: "'v aq \<Rightarrow> 'v mq_label \<Rightarrow> 'v aq \<Rightarrow> bool" where
  aq_tau: "aq_step a LTau a"
| aq_none: "aq_step a LNone a"
| aq_swap: "aq_step a (LSwap i v) (a\<lparr>aq_slots := aq_slots a @ [(v, Some i)]\<rparr>)"
| aq_link: "aq_step a (LLink i) (a\<lparr>aq_slots := aq_publish i (aq_slots a)\<rparr>)"
| aq_add: "aq_step a (LAdd i) (a\<lparr>aq_cnt := aq_cnt a + 1\<rparr>)"
| aq_take: "aq_slots a = (v, None) # rest \<Longrightarrow> aq_step a (LTake v) (a\<lparr>aq_slots := rest\<rparr>)"
| aq_sub: "aq_step a (LSub k) (a\<lparr>aq_cnt := aq_cnt a - int k\<rparr>)"

inductive_cases aq_step_LSwap: "aq_step a (LSwap i v) a'"
inductive_cases aq_step_LTake: "aq_step a (LTake v) a'"

definition aq_init :: "'v aq" where
  "aq_init = \<lparr>aq_slots = [], aq_cnt = 0\<rparr>"

subsection \<open>The relation between memory and the abstract queue\<close>

text \<open>
  \<open>chain\<close> is the sentinel the consumer stands on and the nodes of the pending values;
  \<open>trail\<close> the consumed nodes before it that are not recycled yet. A producer that has
  swapped the tail but not published owns a slot; a producer before the swap owns its node.
\<close>

fun own :: "'v ppc \<Rightarrow> addr option" where
  "own (PGot v n) = Some n"
| "own (PVal v n) = Some n"
| "own (PReady v n) = Some n"
| "own _ = None"

definition links_ok :: "'v mpsc \<Rightarrow> addr list \<Rightarrow> ('v \<times> nat option) list \<Rightarrow> bool" where
  "links_ok m chain slots \<longleftrightarrow>
     length chain = Suc (length slots) \<and> next_of m (last chain) = None \<and> last chain = mq_tail m \<and>
     (\<forall>i < length slots. val_of m (chain ! Suc i) = fst (slots ! i) \<and>
        next_of m (chain ! i) = (if snd (slots ! i) = None then Some (chain ! Suc i) else None))"

definition owners_ok :: "'v ppc list \<Rightarrow> addr list \<Rightarrow> ('v \<times> nat option) list \<Rightarrow> bool" where
  "owners_ok ps chain slots \<longleftrightarrow>
     (\<forall>i < length slots. \<forall>p. snd (slots ! i) = Some p \<longrightarrow>
        p < length ps \<and> (\<exists>v. ps ! p = PSwapped v (chain ! Suc i) (chain ! i))) \<and>
     (\<forall>p < length ps. \<forall>v n prev. ps ! p = PSwapped v n prev \<longrightarrow> (\<exists>i < length slots. snd (slots ! i) = Some p))"

definition nodes_ok :: "'v mpsc \<Rightarrow> 'v ppc list \<Rightarrow> addr list \<Rightarrow> bool" where
  "nodes_ok m ps live \<longleftrightarrow>
     distinct (live @ mq_pool m) \<and> set (live @ mq_pool m) \<subseteq> {..<mq_fresh m} \<and>
     (\<forall>p < length ps. \<forall>n. own (ps ! p) = Some n \<longrightarrow>
        n < mq_fresh m \<and> n \<notin> set (live @ mq_pool m) \<and>
        (\<forall>q < length ps. own (ps ! q) = Some n \<longrightarrow> q = p)) \<and>
     (\<forall>p < length ps. \<forall>v n. ps ! p = PVal v n \<longrightarrow> val_of m n = v) \<and>
     (\<forall>p < length ps. \<forall>v n. ps ! p = PReady v n \<longrightarrow> val_of m n = v \<and> next_of m n = None)"

definition path_ok :: "'v mpsc \<Rightarrow> addr list \<Rightarrow> bool" where
  "path_ok m xs \<longleftrightarrow> (\<forall>i. Suc i < length xs \<longrightarrow> next_of m (xs ! i) = Some (xs ! Suc i))"

fun cons_ok :: "'v mpsc \<Rightarrow> addr list \<Rightarrow> addr list \<Rightarrow> ('v \<times> nat option) list \<Rightarrow> 'v cpc \<Rightarrow> bool" where
  "cons_ok m trail chain slots CIdle \<longleftrightarrow> trail = [] \<and> mq_head m = hd chain"
| "cons_ok m trail chain slots (CLoop h cur out n) \<longleftrightarrow>
     length trail = length out \<and> cur = hd chain \<and> h = hd (trail @ chain) \<and> mq_head m = h"
| "cons_ok m trail chain slots (CNext h cur nx out n) \<longleftrightarrow>
     length trail = length out \<and> cur = hd chain \<and> h = hd (trail @ chain) \<and> mq_head m = h \<and>
     slots \<noteq> [] \<and> snd (hd slots) = None \<and> nx = chain ! 1"
| "cons_ok m trail chain slots (CExit h cur out) \<longleftrightarrow>
     length trail = length out \<and> cur = hd chain \<and> h = hd (trail @ chain) \<and> mq_head m = h"
| "cons_ok m trail chain slots (CStored h cur out) \<longleftrightarrow>
     length trail = length out \<and> cur = hd chain \<and> h = hd (trail @ chain) \<and> mq_head m = cur"
| "cons_ok m trail chain slots (CRecycle c cur out) \<longleftrightarrow>
     cur = hd chain \<and> c = hd (trail @ chain) \<and> mq_head m = cur"

definition mq_good :: "'v mq_sys \<Rightarrow> addr list \<Rightarrow> addr list \<Rightarrow> ('v \<times> nat option) list \<Rightarrow> bool" where
  "mq_good s trail chain slots \<longleftrightarrow>
     links_ok (mem s) chain slots \<and> owners_ok (prods s) chain slots \<and>
     nodes_ok (mem s) (prods s) (trail @ chain) \<and> path_ok (mem s) (trail @ [hd chain]) \<and>
     cons_ok (mem s) trail chain slots (cons s)"

definition mq_rel :: "'v mq_sys \<Rightarrow> 'v aq \<Rightarrow> bool" where
  "mq_rel s a \<longleftrightarrow> aq_cnt a = mq_len (mem s) \<and> (\<exists>trail chain. mq_good s trail chain (aq_slots a))"

subsection \<open>Framing\<close>

lemma set_val_simps [simp]:
  "next_of (set_val a v m) b = next_of m b"
  "val_of (set_val a v m) b = (if b = a then v else val_of m b)"
  "mq_tail (set_val a v m) = mq_tail m" "mq_head (set_val a v m) = mq_head m"
  "mq_pool (set_val a v m) = mq_pool m" "mq_fresh (set_val a v m) = mq_fresh m"
  "mq_len (set_val a v m) = mq_len m"
  by (simp_all add: set_val_def)

lemma set_next_simps [simp]:
  "next_of (set_next a c m) b = (if b = a then c else next_of m b)"
  "val_of (set_next a c m) b = val_of m b"
  "mq_tail (set_next a c m) = mq_tail m" "mq_head (set_next a c m) = mq_head m"
  "mq_pool (set_next a c m) = mq_pool m" "mq_fresh (set_next a c m) = mq_fresh m"
  "mq_len (set_next a c m) = mq_len m"
  by (simp_all add: set_next_def)

text \<open>The list structure depends on the nodes of the chain and the tail only.\<close>

lemma links_ok_cong:
  assumes "links_ok m chain slots" "mq_tail m' = mq_tail m"
    "\<And>a. a \<in> set chain \<Longrightarrow> mq_nodes m' a = mq_nodes m a"
  shows "links_ok m' chain slots"
proof -
  have c: "length chain = Suc (length slots)" using assms(1) by (simp add: links_ok_def)
  then have "chain ! i \<in> set chain" if "i \<le> length slots" for i using that by simp
  moreover have "last chain \<in> set chain" using c by (cases chain rule: rev_cases) auto
  ultimately show ?thesis
    using assms by (auto simp: links_ok_def Suc_leI)
qed

lemma path_ok_cong:
  assumes "path_ok m xs" "\<And>a. a \<in> set (butlast xs) \<Longrightarrow> next_of m' a = next_of m a"
  shows "path_ok m' xs"
  unfolding path_ok_def
proof (intro allI impI)
  fix i assume i: "Suc i < length xs"
  then have "xs ! i \<in> set (butlast xs)"
    by (metis Suc_lessD length_butlast less_diff_conv add.commute nth_butlast nth_mem plus_1_eq_Suc)
  then show "next_of m' (xs ! i) = Some (xs ! Suc i)"
    using assms i by (simp add: path_ok_def)
qed

lemma cons_ok_cong:
  "cons_ok m trail chain slots c \<Longrightarrow> mq_head m' = mq_head m \<Longrightarrow> cons_ok m' trail chain slots c"
  by (cases c) auto

text \<open>A producer that was not and is not between swap and publication moves no owner.\<close>

lemma owners_ok_update:
  assumes "owners_ok ps chain slots" "\<And>v n prev. ps ! i \<noteq> PSwapped v n prev"
    "\<And>v n prev. x \<noteq> PSwapped v n prev"
  shows "owners_ok (ps[i := x]) chain slots"
  unfolding owners_ok_def length_list_update
proof (intro conjI allI impI)
  fix j p assume j: "j < length slots" "snd (slots ! j) = Some p"
  then obtain v where v: "p < length ps" "ps ! p = PSwapped v (chain ! Suc j) (chain ! j)"
    using assms(1) unfolding owners_ok_def by blast
  then have "p \<noteq> i" using assms(2) by auto
  then show "p < length ps" "\<exists>v. ps[i := x] ! p = PSwapped v (chain ! Suc j) (chain ! j)"
    using v by auto
next
  fix p v n prev assume p: "p < length ps" "ps[i := x] ! p = PSwapped v n prev"
  then have "ps ! p = PSwapped v n prev" using assms(3) by (cases "p = i") auto
  then show "\<exists>j < length slots. snd (slots ! j) = Some p"
    using assms(1) p(1) unfolding owners_ok_def by blast
qed

lemma nodes_ok_ownD:
  assumes "nodes_ok m ps live" "p < length ps" "own (ps ! p) = Some n"
  shows "n < mq_fresh m" "n \<notin> set live" "n \<notin> set (mq_pool m)"
    "\<And>q. q < length ps \<Longrightarrow> own (ps ! q) = Some n \<Longrightarrow> q = p"
proof -
  have "n < mq_fresh m \<and> n \<notin> set (live @ mq_pool m) \<and> (\<forall>q < length ps. own (ps ! q) = Some n \<longrightarrow> q = p)"
    using assms unfolding nodes_ok_def by blast
  then show "n < mq_fresh m" "n \<notin> set live" "n \<notin> set (mq_pool m)"
    "\<And>q. q < length ps \<Longrightarrow> own (ps ! q) = Some n \<Longrightarrow> q = p"
    by auto
qed

lemma nodes_okI:
  assumes "distinct (live @ mq_pool m)" "\<And>a. a \<in> set (live @ mq_pool m) \<Longrightarrow> a < mq_fresh m"
    "\<And>p n. p < length ps \<Longrightarrow> own (ps ! p) = Some n \<Longrightarrow> n < mq_fresh m \<and> n \<notin> set (live @ mq_pool m)"
    "\<And>p q n. p < length ps \<Longrightarrow> q < length ps \<Longrightarrow> own (ps ! p) = Some n \<Longrightarrow> own (ps ! q) = Some n \<Longrightarrow> q = p"
    "\<And>p v n. p < length ps \<Longrightarrow> ps ! p = PVal v n \<Longrightarrow> val_of m n = v"
    "\<And>p v n. p < length ps \<Longrightarrow> ps ! p = PReady v n \<Longrightarrow> val_of m n = v \<and> next_of m n = None"
  shows "nodes_ok m ps live"
  using assms unfolding nodes_ok_def by (auto simp del: set_append)

lemma nodes_ok_vals:
  assumes "nodes_ok m ps live" "p < length ps"
  shows "ps ! p = PVal v n \<Longrightarrow> val_of m n = v"
    "ps ! p = PReady v n \<Longrightarrow> val_of m n = v" "ps ! p = PReady v n \<Longrightarrow> next_of m n = None"
  using assms unfolding nodes_ok_def by blast+

text \<open>
  Producer \<open>i\<close> gives up its node (or owned none), the live nodes and the pool change among
  themselves, and the nodes of the other producers keep their contents.
\<close>

lemma nodes_ok_release:
  assumes ok: "nodes_ok m ps live" and x: "own x = None" and fr: "mq_fresh m' = mq_fresh m"
    and d: "distinct (live' @ mq_pool m')"
    and sub: "\<And>a. a \<in> set (live' @ mq_pool m') \<Longrightarrow>
       a \<in> set (live @ mq_pool m) \<or> (i < length ps \<and> own (ps ! i) = Some a)"
    and same: "\<And>q a. q < length ps \<Longrightarrow> q \<noteq> i \<Longrightarrow> own (ps ! q) = Some a \<Longrightarrow>
       val_of m' a = val_of m a \<and> next_of m' a = next_of m a"
  shows "nodes_ok m' (ps[i := x]) live'"
proof -
  note ownD = nodes_ok_ownD [OF ok]
  have bound: "a < mq_fresh m" if "a \<in> set (live @ mq_pool m)" for a
    using ok that unfolding nodes_ok_def by auto
  have old: "p \<noteq> i \<and> own (ps ! p) = Some a" if "p < length ps" "own (ps[i := x] ! p) = Some a" for p a
    using that x by (cases "p = i") auto
  have oldv: "p \<noteq> i \<and> ps ! p = y" if "p < length ps" "ps[i := x] ! p = y" "own y \<noteq> None" for p y
    using that x by (cases "p = i") auto
  show ?thesis
  proof (rule nodes_okI)
    show "distinct (live' @ mq_pool m')" by (rule d)
    show "a < mq_fresh m'" if "a \<in> set (live' @ mq_pool m')" for a
      using sub [OF that] bound [of a] ownD(1) [of i a] fr by auto
    fix p assume "p < length (ps[i := x])"
    then have p: "p < length ps" by simp
    show "a < mq_fresh m' \<and> a \<notin> set (live' @ mq_pool m')" if a: "own (ps[i := x] ! p) = Some a" for a
    proof -
      note o = old [OF p a]
      have "a \<notin> set (live @ mq_pool m)" "i < length ps \<Longrightarrow> own (ps ! i) \<noteq> Some a"
        using ownD(2-4) [OF p conjunct2 [OF o]] o by auto
      then show ?thesis using sub [of a] ownD(1) [OF p conjunct2 [OF o]] fr by auto
    qed
    show "q = p" if "q < length (ps[i := x])" "own (ps[i := x] ! p) = Some a" "own (ps[i := x] ! q) = Some a" for q a
      using ownD(4) [OF p, of a q] old [OF p that(2)] old [of q a] that by auto
    show "val_of m' a = v" if "ps[i := x] ! p = PVal v a" for v a
      using oldv [OF p that] same [OF p, of a] nodes_ok_vals(1) [OF ok p, of v a] by auto
    show "val_of m' a = v \<and> next_of m' a = None" if "ps[i := x] ! p = PReady v a" for v a
      using oldv [OF p that] same [OF p, of a] nodes_ok_vals(2,3) [OF ok p, of v a] by auto
  qed
qed

text \<open>A step that writes no node outside a producer's own, and leaves the rest alone.\<close>

lemma good_private:
  assumes good: "mq_good s trail chain slots"
    and i: "i < length (prods s)" "own (prods s ! i) = Some n" "own x = Some n"
    and m': "\<And>a. a \<noteq> n \<Longrightarrow> mq_nodes m' a = mq_nodes (mem s) a"
      "mq_tail m' = mq_tail (mem s)" "mq_head m' = mq_head (mem s)"
      "mq_pool m' = mq_pool (mem s)" "mq_fresh m' = mq_fresh (mem s)"
    and x: "\<And>v. x = PVal v n \<Longrightarrow> val_of m' n = v"
      "\<And>v. x = PReady v n \<Longrightarrow> val_of m' n = v \<and> next_of m' n = None"
  shows "mq_good (s\<lparr>mem := m', prods := (prods s)[i := x]\<rparr>) trail chain slots"
proof -
  have g: "links_ok (mem s) chain slots" "owners_ok (prods s) chain slots"
    "nodes_ok (mem s) (prods s) (trail @ chain)" "path_ok (mem s) (trail @ [hd chain])"
    "cons_ok (mem s) trail chain slots (cons s)"
    using good by (simp_all add: mq_good_def)
  note ownD = nodes_ok_ownD [OF g(3)]
  have fresh: "n \<notin> set trail" "n \<notin> set chain" "n \<notin> set (mq_pool (mem s))" "n < mq_fresh (mem s)"
    using ownD(1-3) [OF i(1,2)] by auto
  note uniq = ownD(4) [OF i(1,2)]
  have other: "a \<noteq> n" if "own (prods s ! q) = Some a" "q < length (prods s)" "q \<noteq> i" for a q
    using uniq that by auto
  have "links_ok m' chain slots"
    by (rule links_ok_cong [OF g(1) m'(2)]) (metis fresh(2) m'(1))
  moreover have "path_ok m' (trail @ [hd chain])"
    by (rule path_ok_cong [OF g(4)]) (metis butlast_snoc fresh(1) m'(1))
  moreover have "cons_ok m' trail chain slots (cons s)"
    by (rule cons_ok_cong [OF g(5) m'(3)])
  moreover have "owners_ok ((prods s)[i := x]) chain slots"
    by (rule owners_ok_update [OF g(2)]) (use i in auto)
  moreover have "nodes_ok m' ((prods s)[i := x]) (trail @ chain)"
  proof (rule nodes_okI)
    show "distinct ((trail @ chain) @ mq_pool m')" using g(3) m' by (simp add: nodes_ok_def)
    show "a < mq_fresh m'" if "a \<in> set ((trail @ chain) @ mq_pool m')" for a
      using g(3) m' that unfolding nodes_ok_def by auto
    fix p assume p: "p < length ((prods s)[i := x])"
    show "a < mq_fresh m' \<and> a \<notin> set ((trail @ chain) @ mq_pool m')" if "own ((prods s)[i := x] ! p) = Some a" for a
      using ownD(1-3) [of p a] that p i fresh m' by (cases "p = i") auto
    show "q = p" if "q < length ((prods s)[i := x])" "own ((prods s)[i := x] ! p) = Some a"
        "own ((prods s)[i := x] ! q) = Some a" for q a
      using ownD(4) [of p a q] that p i by (cases "p = i"; cases "q = i") (auto dest: uniq)
    show "val_of m' a = v" if "(prods s)[i := x] ! p = PVal v a" for v a
    proof (cases "p = i")
      case False
      then have "a \<noteq> n" "val_of (mem s) a = v"
        using other [of p a] that p g(3) by (auto simp: nodes_ok_def)
      then show ?thesis by (simp add: m')
    qed (use that i x in auto)
    show "val_of m' a = v \<and> next_of m' a = None" if "(prods s)[i := x] ! p = PReady v a" for v a
    proof (cases "p = i")
      case False
      then have "a \<noteq> n" "val_of (mem s) a = v" "next_of (mem s) a = None"
        using other [of p a] that p g(3) by (auto simp: nodes_ok_def)
      then show ?thesis by (simp add: m')
    qed (use that i x in auto)
  qed
  ultimately show ?thesis by (simp add: mq_good_def)
qed

lemma good_nonempty: "mq_good s trail chain slots \<Longrightarrow> chain \<noteq> []"
  by (auto simp: mq_good_def links_ok_def)

lemma mq_goodD:
  assumes "mq_good s trail chain slots"
  shows "links_ok (mem s) chain slots" "owners_ok (prods s) chain slots"
    "nodes_ok (mem s) (prods s) (trail @ chain)" "path_ok (mem s) (trail @ [hd chain])"
    "cons_ok (mem s) trail chain slots (cons s)"
  using assms by (simp_all add: mq_good_def)

lemma nodes_ok_live:
  assumes "nodes_ok m ps live"
  shows "distinct live" "distinct (mq_pool m)" "set live \<inter> set (mq_pool m) = {}"
    "\<And>a. a \<in> set live \<Longrightarrow> a < mq_fresh m" "\<And>a. a \<in> set (mq_pool m) \<Longrightarrow> a < mq_fresh m"
  using assms by (auto simp: nodes_ok_def)

lemma poolGet_facts:
  assumes ok: "nodes_ok m ps live" and get: "mq_poolGet z ch m = (n, m')"
  shows "n \<notin> set live" "n \<notin> set (mq_pool m')" "n < mq_fresh m'" "mq_fresh m \<le> mq_fresh m'"
    "set (mq_pool m') \<subseteq> set (mq_pool m)" "distinct (mq_pool m')"
    "\<And>p. p < length ps \<Longrightarrow> own (ps ! p) \<noteq> Some n"
    "\<And>a. a \<noteq> n \<Longrightarrow> mq_nodes m' a = mq_nodes m a"
    "mq_tail m' = mq_tail m" "mq_head m' = mq_head m" "mq_len m' = mq_len m"
proof -
  note live = nodes_ok_live [OF ok] and ownD = nodes_ok_ownD [OF ok]
  consider (pool) i where "i < length (mq_pool m)" "n = mq_pool m ! i"
        "m' = m\<lparr>mq_pool := take i (mq_pool m) @ drop (Suc i) (mq_pool m)\<rparr>"
    | (new) "n = mq_fresh m" "m' = m\<lparr>mq_fresh := Suc (mq_fresh m),
              mq_nodes := (mq_nodes m)(mq_fresh m := \<lparr>nd_next = None, nd_val = z\<rparr>)\<rparr>"
    using get by (auto simp: mq_poolGet_def split: option.splits if_splits)
  then have "n \<notin> set live \<and> n \<notin> set (mq_pool m') \<and> n < mq_fresh m' \<and> mq_fresh m \<le> mq_fresh m' \<and>
     set (mq_pool m') \<subseteq> set (mq_pool m) \<and> distinct (mq_pool m') \<and>
     (\<forall>p < length ps. own (ps ! p) \<noteq> Some n) \<and> (\<forall>a. a \<noteq> n \<longrightarrow> mq_nodes m' a = mq_nodes m a) \<and>
     mq_tail m' = mq_tail m \<and> mq_head m' = mq_head m \<and> mq_len m' = mq_len m"
  proof cases
    case pool
    let ?xs = "mq_pool m"
    have xs: "?xs = take i ?xs @ n # drop (Suc i) ?xs" using pool by (simp add: id_take_nth_drop)
    have d: "distinct (take i ?xs @ n # drop (Suc i) ?xs)" using live(2) xs by metis
    have n: "n \<in> set ?xs" using pool by simp
    then have "n \<notin> set live" "n < mq_fresh m" using live by auto
    moreover have "\<forall>p < length ps. own (ps ! p) \<noteq> Some n" using ownD(3) n by blast
    ultimately show ?thesis
      using pool(3) d by (auto dest: in_set_takeD in_set_dropD)
  next
    case new
    have "n \<notin> set live" "n \<notin> set (mq_pool m)" using live(4,5) new(1) by blast+
    moreover have "\<forall>p < length ps. own (ps ! p) \<noteq> Some n" using ownD(1) new(1) by blast
    ultimately show ?thesis using new(2) live(2) new(1) by simp
  qed
  then show "n \<notin> set live" "n \<notin> set (mq_pool m')" "n < mq_fresh m'" "mq_fresh m \<le> mq_fresh m'"
    "set (mq_pool m') \<subseteq> set (mq_pool m)" "distinct (mq_pool m')"
    "\<And>p. p < length ps \<Longrightarrow> own (ps ! p) \<noteq> Some n"
    "\<And>a. a \<noteq> n \<Longrightarrow> mq_nodes m' a = mq_nodes m a"
    "mq_tail m' = mq_tail m" "mq_head m' = mq_head m" "mq_len m' = mq_len m"
    by auto
qed

lemma good_get:
  assumes good: "mq_good s trail chain slots" and i: "i < length (prods s)" "prods s ! i = PIdle"
    and get: "mq_poolGet z ch (mem s) = (n, m')"
  shows "mq_good (s\<lparr>mem := m', prods := (prods s)[i := PGot v n]\<rparr>) trail chain slots"
proof -
  note g = mq_goodD [OF good]
  note pg = poolGet_facts [OF g(3) get] and ownD = nodes_ok_ownD [OF g(3)] and live = nodes_ok_live [OF g(3)]
  have "links_ok m' chain slots"
    by (rule links_ok_cong [OF g(1) pg(9)]) (use pg(1,8) in \<open>metis Un_iff set_append\<close>)
  moreover have "path_ok m' (trail @ [hd chain])"
    by (rule path_ok_cong [OF g(4)]) (use pg(1,8) in \<open>metis Un_iff butlast_snoc set_append\<close>)
  moreover have "cons_ok m' trail chain slots (cons s)"
    by (rule cons_ok_cong [OF g(5) pg(10)])
  moreover have "owners_ok ((prods s)[i := PGot v n]) chain slots"
    by (rule owners_ok_update [OF g(2)]) (use i in auto)
  moreover have "nodes_ok m' ((prods s)[i := PGot v n]) (trail @ chain)"
  proof (rule nodes_okI)
    show "distinct ((trail @ chain) @ mq_pool m')" using live(1,3) pg(5,6) by auto
    show "a < mq_fresh m'" if "a \<in> set ((trail @ chain) @ mq_pool m')" for a
      using live(4,5) [of a] pg(4,5) that by auto
    fix p assume p: "p < length ((prods s)[i := PGot v n])"
    show "a < mq_fresh m' \<and> a \<notin> set ((trail @ chain) @ mq_pool m')"
      if "own ((prods s)[i := PGot v n] ! p) = Some a" for a
      using ownD(1-3) [of p a] that p i pg(1-5) by (cases "p = i") auto
    show "q = p" if "q < length ((prods s)[i := PGot v n])" "own ((prods s)[i := PGot v n] ! p) = Some a"
        "own ((prods s)[i := PGot v n] ! q) = Some a" for q a
      using ownD(4) [of p a q] that p i pg(7) [of q] pg(7) [of p] by (cases "p = i"; cases "q = i") auto
    show "val_of m' a = w" if "(prods s)[i := PGot v n] ! p = PVal w a" for w a
      using that p i pg(7) [of p] pg(8) [of a] nodes_ok_vals(1) [OF g(3), of p w a] by (cases "p = i") auto
    show "val_of m' a = w \<and> next_of m' a = None" if "(prods s)[i := PGot v n] ! p = PReady w a" for w a
      using that p i pg(7) [of p] pg(8) [of a] nodes_ok_vals(2,3) [OF g(3), of p w a] by (cases "p = i") auto
  qed
  ultimately show ?thesis by (simp add: mq_good_def)
qed

lemma links_ok_last:
  assumes "links_ok m chain slots"
  shows "chain \<noteq> []" "last chain = mq_tail m" "next_of m (mq_tail m) = None" "chain ! length slots = mq_tail m"
proof -
  have c: "length chain = Suc (length slots)" "last chain = mq_tail m" "next_of m (last chain) = None"
    using assms by (auto simp: links_ok_def)
  then show "chain \<noteq> []" "last chain = mq_tail m" "next_of m (mq_tail m) = None" by auto
  then show "chain ! length slots = mq_tail m" using c by (simp add: last_conv_nth)
qed

lemma good_swap:
  assumes good: "mq_good s trail chain slots" and i: "i < length (prods s)" "prods s ! i = PReady v n"
  shows "mq_good (s\<lparr>mem := (mem s)\<lparr>mq_tail := n\<rparr>, prods := (prods s)[i := PSwapped v n (mq_tail (mem s))]\<rparr>)
           trail (chain @ [n]) (slots @ [(v, Some i)])"
proof -
  note g = mq_goodD [OF good]
  let ?x = "PSwapped v n (mq_tail (mem s))" and ?m = "(mem s)\<lparr>mq_tail := n\<rparr>"
  have o: "own (prods s ! i) = Some n" using i by simp
  note ownD = nodes_ok_ownD [OF g(3)] and live = nodes_ok_live [OF g(3)]
  note n = ownD [OF i(1) o] and last = links_ok_last [OF g(1)]
  have vn: "val_of (mem s) n = v" "next_of (mem s) n = None"
    using nodes_ok_vals [OF g(3) i(1)] i(2) by auto
  have len: "length chain = Suc (length slots)" using g(1) by (simp add: links_ok_def)
  have "links_ok ?m (chain @ [n]) (slots @ [(v, Some i)])"
    using g(1) vn last by (auto simp: links_ok_def nth_append less_Suc_eq)
  moreover have "path_ok ?m (trail @ [hd (chain @ [n])])"
    using g(4) last(1) by (simp add: path_ok_def)
  moreover have "cons_ok ?m trail (chain @ [n]) (slots @ [(v, Some i)]) (cons s)"
    using g(5) last(1) len by (cases "cons s") (auto simp: nth_append hd_append)
  moreover have "owners_ok ((prods s)[i := ?x]) (chain @ [n]) (slots @ [(v, Some i)])"
    unfolding owners_ok_def
  proof (intro conjI allI impI)
    fix j p assume j: "j < length (slots @ [(v, Some i)])" "snd ((slots @ [(v, Some i)]) ! j) = Some p"
    have "p < length (prods s) \<and>
      (\<exists>v'. (prods s)[i := ?x] ! p = PSwapped v' ((chain @ [n]) ! Suc j) ((chain @ [n]) ! j))"
    proof (cases "j = length slots")
      case True
      then show ?thesis using j i last len by (auto simp: nth_append)
    next
      case False
      then have js: "j < length slots" "snd (slots ! j) = Some p" using j by (auto simp: nth_append)
      then obtain w where "p < length (prods s)" "prods s ! p = PSwapped w (chain ! Suc j) (chain ! j)"
        using g(2) unfolding owners_ok_def by blast
      then show ?thesis using js i len by (cases "p = i") (auto simp: nth_append)
    qed
    then show "p < length ((prods s)[i := ?x])"
      "\<exists>v'. (prods s)[i := ?x] ! p = PSwapped v' ((chain @ [n]) ! Suc j) ((chain @ [n]) ! j)" by auto
  next
    fix p w a b assume p: "p < length ((prods s)[i := ?x])" "(prods s)[i := ?x] ! p = PSwapped w a b"
    show "\<exists>j < length (slots @ [(v, Some i)]). snd ((slots @ [(v, Some i)]) ! j) = Some p"
    proof (cases "p = i")
      case True
      then show ?thesis by (intro exI [of _ "length slots"]) simp
    next
      case False
      then have "prods s ! p = PSwapped w a b" "p < length (prods s)" using p by auto
      then obtain j where "j < length slots" "snd (slots ! j) = Some p"
        using g(2) unfolding owners_ok_def by blast
      then show ?thesis by (intro exI [of _ j]) (simp add: nth_append)
    qed
  qed
  moreover have "nodes_ok ?m ((prods s)[i := ?x]) (trail @ chain @ [n])"
    by (rule nodes_ok_release [OF g(3)]) (use live(1-3) n(1-3) o i in auto)
  ultimately show ?thesis by (simp add: mq_good_def)
qed

text \<open>A producer owns at most one slot: the chain has no repetition.\<close>

lemma owners_okD:
  assumes "owners_ok ps chain slots" "j < length slots" "snd (slots ! j) = Some p"
  shows "p < length ps" "\<exists>v. ps ! p = PSwapped v (chain ! Suc j) (chain ! j)"
  using assms unfolding owners_ok_def by blast+

lemma owners_ok_slot:
  assumes "owners_ok ps chain slots" "p < length ps" "ps ! p = PSwapped v n prev"
  shows "\<exists>j < length slots. snd (slots ! j) = Some p"
  using assms unfolding owners_ok_def by blast

lemma owner_slot_unique:
  assumes "owners_ok ps chain slots" "distinct chain" "length chain = Suc (length slots)"
    "j < length slots" "k < length slots" "snd (slots ! j) = Some p" "snd (slots ! k) = Some p"
  shows "j = k"
proof -
  have "chain ! j = chain ! k"
    using owners_okD(2) [OF assms(1,4,6)] owners_okD(2) [OF assms(1,5,7)] by auto
  then have "chain ! j = chain ! k" by simp
  then show ?thesis using assms by (simp add: nth_eq_iff_index_eq)
qed

lemma aq_publish_nth:
  "j < length slots \<Longrightarrow> fst (aq_publish i slots ! j) = fst (slots ! j)"
  "j < length slots \<Longrightarrow> snd (aq_publish i slots ! j) = (if snd (slots ! j) = Some i then None else snd (slots ! j))"
  "length (aq_publish i slots) = length slots"
  by (simp_all add: aq_publish_def split_beta)

lemma good_link:
  assumes good: "mq_good s trail chain slots" and i: "i < length (prods s)" "prods s ! i = PSwapped v n prev"
  shows "mq_good (s\<lparr>mem := set_next prev (Some n) (mem s), prods := (prods s)[i := PLinked]\<rparr>)
           trail chain (aq_publish i slots)"
proof -
  note g = mq_goodD [OF good] and ownD = nodes_ok_ownD [OF mq_goodD(3) [OF good]]
  note live = nodes_ok_live [OF g(3)]
  let ?m = "set_next prev (Some n) (mem s)" and ?ps = "(prods s)[i := PLinked]"
  have len: "length chain = Suc (length slots)" using g(1) by (simp add: links_ok_def)
  have dc: "distinct chain" using live(1) by simp
  obtain j where j: "j < length slots" "snd (slots ! j) = Some i"
    using owners_ok_slot [OF g(2) i] by blast
  have jn: "chain ! Suc j = n" "chain ! j = prev" using owners_okD(2) [OF g(2) j] i by auto
  have only: "snd (slots ! k) = Some i \<longleftrightarrow> k = j" if "k < length slots" for k
    using owner_slot_unique [OF g(2) dc len that j(1)] j by auto
  have at: "chain ! k = prev \<longleftrightarrow> k = j" if "k \<le> length slots" for k
    using dc len that j(1) jn(2) by (metis le_imp_less_Suc less_imp_le nth_eq_iff_index_eq)
  have prev: "prev \<in> set chain" "prev \<notin> set trail" "prev \<notin> set (mq_pool (mem s))"
  proof -
    show c: "prev \<in> set chain" using jn(2) j(1) len by (metis le_imp_less_Suc less_imp_le nth_mem)
    show "prev \<notin> set trail" "prev \<notin> set (mq_pool (mem s))" using live(1,3) c by auto
  qed
  have "links_ok ?m chain (aq_publish i slots)"
    unfolding links_ok_def aq_publish_nth(3)
  proof (intro conjI allI impI)
    show "length chain = Suc (length slots)" "last chain = mq_tail ?m"
      using g(1) by (auto simp: links_ok_def)
    show "next_of ?m (last chain) = None"
      using links_ok_last [OF g(1)] at [of "length slots"] j(1) by simp
    fix k assume k: "k < length slots"
    show "val_of ?m (chain ! Suc k) = fst (aq_publish i slots ! k)"
      using g(1) k by (simp add: links_ok_def aq_publish_nth)
    show "next_of ?m (chain ! k) = (if snd (aq_publish i slots ! k) = None then Some (chain ! Suc k) else None)"
      using g(1) k at [of k] only [OF k] jn by (auto simp: links_ok_def aq_publish_nth)
  qed
  moreover have "path_ok ?m (trail @ [hd chain])"
    by (rule path_ok_cong [OF g(4)]) (use prev in auto)
  moreover have "cons_ok ?m trail chain (aq_publish i slots) (cons s)"
    using g(5) len by (cases "cons s") (auto simp: aq_publish_def hd_map split_beta)
  moreover have "owners_ok ?ps chain (aq_publish i slots)"
    unfolding owners_ok_def aq_publish_nth(3)
  proof (intro conjI allI impI)
    fix k p assume k: "k < length slots" "snd (aq_publish i slots ! k) = Some p"
    then have "snd (slots ! k) = Some p" "p \<noteq> i" by (auto simp: aq_publish_nth split: if_splits)
    then show "p < length ?ps" "\<exists>v. ?ps ! p = PSwapped v (chain ! Suc k) (chain ! k)"
      using owners_okD [OF g(2) k(1)] by auto
  next
    fix p w a b assume p: "p < length ?ps" "?ps ! p = PSwapped w a b"
    then have pi: "p \<noteq> i" "prods s ! p = PSwapped w a b" "p < length (prods s)"
      using i by (auto simp: nth_list_update split: if_splits)
    obtain k where "k < length slots" "snd (slots ! k) = Some p" using owners_ok_slot [OF g(2) pi(3,2)] by blast
    then show "\<exists>k < length slots. snd (aq_publish i slots ! k) = Some p"
      using pi(1) by (auto simp: aq_publish_nth)
  qed
  moreover have "nodes_ok ?m ?ps (trail @ chain)"
    by (rule nodes_ok_release [OF g(3)]) (use live(1-3) prev(1) ownD(2) in auto)
  ultimately show ?thesis by (simp add: mq_good_def)
qed

lemma good_add:
  assumes good: "mq_good s trail chain slots" and i: "i < length (prods s)" "prods s ! i = PLinked"
  shows "mq_good (s\<lparr>mem := (mem s)\<lparr>mq_len := l\<rparr>, prods := (prods s)[i := PIdle]\<rparr>) trail chain slots"
proof -
  note g = mq_goodD [OF good]
  have "owners_ok ((prods s)[i := PIdle]) chain slots"
    by (rule owners_ok_update [OF g(2)]) (use i in auto)
  moreover have "nodes_ok ((mem s)\<lparr>mq_len := l\<rparr>) ((prods s)[i := PIdle]) (trail @ chain)"
    by (rule nodes_ok_release [OF g(3)]) (use nodes_ok_live [OF g(3)] in auto)
  ultimately show ?thesis
    using g by (auto simp: mq_good_def links_ok_def path_ok_def intro: cons_ok_cong)
qed

lemma nodes_ok_move:
  assumes "nodes_ok m ps live" "mq_fresh m' = mq_fresh m" "distinct (live' @ mq_pool m')"
    "set (live' @ mq_pool m') \<subseteq> set (live @ mq_pool m)"
    "\<And>q a. q < length ps \<Longrightarrow> own (ps ! q) = Some a \<Longrightarrow>
       val_of m' a = val_of m a \<and> next_of m' a = next_of m a"
  shows "nodes_ok m' ps live'"
  using nodes_ok_release [OF assms(1) own.simps(4) assms(2,3), of "length ps"] assms(4,5)
  by (auto simp: list_update_beyond)

text \<open>Consumer steps that touch no node: only \<open>head\<close>, \<open>len\<close> and the consumer's position.\<close>

lemma good_cons:
  assumes good: "mq_good s trail chain slots"
    and c: "cons_ok ((mem s)\<lparr>mq_head := h, mq_len := l\<rparr>) trail chain slots c"
  shows "mq_good (s\<lparr>mem := (mem s)\<lparr>mq_head := h, mq_len := l\<rparr>, cons := c\<rparr>) trail chain slots"
proof -
  note g = mq_goodD [OF good]
  have "nodes_ok ((mem s)\<lparr>mq_head := h, mq_len := l\<rparr>) (prods s) (trail @ chain)"
    by (rule nodes_ok_move [OF g(3)]) (use nodes_ok_live [OF g(3)] in auto)
  moreover have "links_ok ((mem s)\<lparr>mq_head := h, mq_len := l\<rparr>) chain slots"
    by (rule links_ok_cong [OF g(1)]) auto
  moreover have "path_ok ((mem s)\<lparr>mq_head := h, mq_len := l\<rparr>) (trail @ [hd chain])"
    by (rule path_ok_cong [OF g(4)]) auto
  ultimately show ?thesis using g(2) c by (simp add: mq_good_def)
qed

lemma good_cons_here:
  "mq_good s trail chain slots \<Longrightarrow> cons_ok (mem s) trail chain slots c \<Longrightarrow>
   mq_good (s\<lparr>cons := c\<rparr>) trail chain slots"
  using good_cons [where s = s and h = "mq_head (mem s)" and l = "mq_len (mem s)"] by simp

text \<open>The link the consumer loads is the one from the sentinel to the first pending node.\<close>

lemma load_first:
  assumes "links_ok m chain slots" "next_of m (hd chain) = Some nx"
  shows "slots \<noteq> []" "snd (hd slots) = None" "nx = chain ! 1"
proof -
  have l: "length chain = Suc (length slots)" "next_of m (last chain) = None"
    using assms(1) by (auto simp: links_ok_def)
  then have h: "hd chain = chain ! 0" by (metis hd_conv_nth list.size(3) nat.simps(3))
  show ne: "slots \<noteq> []"
  proof
    assume "slots = []"
    then have "last chain = hd chain" using l(1) by (cases chain) auto
    then show False using l(2) assms(2) by simp
  qed
  then have "next_of m (chain ! 0) = (if snd (slots ! 0) = None then Some (chain ! Suc 0) else None)"
    using assms(1) by (simp add: links_ok_def)
  then show "snd (hd slots) = None" "nx = chain ! 1"
    using assms(2) h ne by (auto simp: hd_conv_nth split: if_splits)
qed

lemma good_take:
  assumes good: "mq_good s trail chain slots" and c: "cons s = CNext h cur nx out n"
  shows "\<exists>v rest. slots = (v, None) # rest \<and> val_of (mem s) nx = v \<and>
     mq_good (s\<lparr>mem := set_val nx z (mem s), cons := CLoop h nx (out @ [v]) n\<rparr>) (trail @ [cur]) (tl chain) rest"
proof -
  note g = mq_goodD [OF good] and live = nodes_ok_live [OF mq_goodD(3) [OF good]]
  have co: "length trail = length out" "cur = hd chain" "h = hd (trail @ chain)" "mq_head (mem s) = h"
      "slots \<noteq> []" "snd (hd slots) = None" "nx = chain ! 1"
    using g(5) c by auto
  have len: "length chain = Suc (length slots)" using g(1) by (simp add: links_ok_def)
  obtain v rest where sl: "slots = (v, None) # rest" using co(5,6) by (cases slots) auto
  obtain cs where ch: "chain = cur # nx # cs"
    using len sl co(2,7) by (cases chain; cases "tl chain") auto
  have d: "distinct (trail @ cur # nx # cs)" using live(1) ch by simp
  have l0: "val_of (mem s) (chain ! Suc i) = fst (slots ! i)"
     "next_of (mem s) (chain ! i) = (if snd (slots ! i) = None then Some (chain ! Suc i) else None)"
     if "i < length slots" for i
    using g(1) that by (auto simp: links_ok_def)
  let ?m = "set_val nx z (mem s)"
  have nx: "nx \<notin> set cs" using d by simp
  have "val_of (mem s) nx = v" using l0(1) [of 0] sl ch by simp
  moreover have "links_ok ?m (nx # cs) rest"
    unfolding links_ok_def
  proof (intro conjI allI impI)
    show "length (nx # cs) = Suc (length rest)" using len ch sl by simp
    show "next_of ?m (last (nx # cs)) = None" "last (nx # cs) = mq_tail ?m"
      using g(1) ch by (auto simp: links_ok_def)
    fix i assume i: "i < length rest"
    have "cs ! i \<noteq> nx" using nx i len ch sl by (metis Suc_inject length_Cons nth_mem)
    then show "val_of ?m ((nx # cs) ! Suc i) = fst (rest ! i)"
      using l0(1) [of "Suc i"] i sl ch by simp
    show "next_of ?m ((nx # cs) ! i) = (if snd (rest ! i) = None then Some ((nx # cs) ! Suc i) else None)"
      using l0(2) [of "Suc i"] i sl ch by simp
  qed
  moreover have "owners_ok (prods s) (nx # cs) rest"
    unfolding owners_ok_def
  proof (intro conjI allI impI)
    fix i p assume i: "i < length rest" "snd (rest ! i) = Some p"
    then show "p < length (prods s)" "\<exists>v. prods s ! p = PSwapped v ((nx # cs) ! Suc i) ((nx # cs) ! i)"
      using owners_okD [OF g(2), of "Suc i" p] sl ch by auto
  next
    fix p w a b assume "p < length (prods s)" "prods s ! p = PSwapped w a b"
    then obtain j where "j < length slots" "snd (slots ! j) = Some p" using owners_ok_slot [OF g(2)] by blast
    then show "\<exists>i < length rest. snd (rest ! i) = Some p" using sl by (cases j) auto
  qed
  moreover have "nodes_ok ?m (prods s) ((trail @ [cur]) @ nx # cs)"
  proof (rule nodes_ok_move [OF g(3)])
    fix q a assume "q < length (prods s)" "own (prods s ! q) = Some a"
    then have "a \<noteq> nx" using nodes_ok_ownD(2) [OF g(3)] ch by auto
    then show "val_of ?m a = val_of (mem s) a \<and> next_of ?m a = next_of (mem s) a" by simp
  qed (use live(1-3) ch in auto)
  moreover have "path_ok ?m ((trail @ [cur]) @ [nx])"
  proof -
    have "next_of (mem s) cur = Some nx" using l0(2) [of 0] sl ch by simp
    then show ?thesis using g(4) ch by (auto simp: path_ok_def nth_append less_Suc_eq)
  qed
  moreover have "cons_ok ?m (trail @ [cur]) (nx # cs) rest (CLoop h nx (out @ [v]) n)"
    using co(1,3,4) ch by (auto simp: hd_append)
  ultimately have "val_of (mem s) nx = v"
    "mq_good (s\<lparr>mem := ?m, cons := CLoop h nx (out @ [v]) n\<rparr>) (trail @ [cur]) (nx # cs) rest"
    unfolding mq_good_def by simp_all
  then show ?thesis using sl ch by simp
qed

lemma good_put:
  assumes good: "mq_good s trail chain slots" and c: "cons s = CRecycle c cur out" "c \<noteq> cur"
    and nx: "next_of (mem s) c = Some c'"
  shows "mq_good (s\<lparr>mem := (mem s)\<lparr>mq_pool := c # mq_pool (mem s)\<rparr>, cons := CRecycle c' cur out\<rparr>)
           (tl trail) chain slots"
proof -
  note g = mq_goodD [OF good] and live = nodes_ok_live [OF mq_goodD(3) [OF good]]
  have co: "cur = hd chain" "c = hd (trail @ chain)" "mq_head (mem s) = cur" using g(5) c(1) by auto
  obtain tr where tr: "trail = c # tr" using co c(2) by (cases trail) auto
  have ne: "chain \<noteq> []" using good by (rule good_nonempty)
  let ?m = "(mem s)\<lparr>mq_pool := c # mq_pool (mem s)\<rparr>"
  have "c' = hd (tr @ chain)"
  proof -
    have "next_of (mem s) ((trail @ [hd chain]) ! 0) = Some ((trail @ [hd chain]) ! Suc 0)"
      using g(4) tr unfolding path_ok_def by (metis Suc_less_eq append_Cons length_Cons length_append_singleton zero_less_Suc)
    then show ?thesis using nx tr ne by (cases tr) auto
  qed
  moreover have "path_ok ?m (tr @ [hd chain])"
    unfolding path_ok_def
  proof (intro allI impI)
    fix i assume "Suc i < length (tr @ [hd chain])"
    then show "next_of ?m ((tr @ [hd chain]) ! i) = Some ((tr @ [hd chain]) ! Suc i)"
      using g(4) tr unfolding path_ok_def by (auto dest: spec [of _ "Suc i"])
  qed
  moreover have "nodes_ok ?m (prods s) (tr @ chain)"
    by (rule nodes_ok_move [OF g(3)]) (use live(1-3) tr in auto)
  moreover have "links_ok ?m chain slots" by (rule links_ok_cong [OF g(1)]) auto
  moreover have "cons_ok ?m tr chain slots (CRecycle c' cur out)"
    using co \<open>c' = hd (tr @ chain)\<close> by simp
  ultimately show ?thesis
    using g(2) tr by (simp add: mq_good_def)
qed

lemma good_done:
  assumes good: "mq_good s trail chain slots" and c: "cons s = CRecycle cur cur out"
  shows "mq_good (s\<lparr>cons := CIdle\<rparr>) trail chain slots"
proof -
  have "trail = []"
    using mq_goodD(5) [OF good] c nodes_ok_live(1) [OF mq_goodD(3) [OF good]] good_nonempty [OF good]
    by (cases trail; cases chain) auto
  then show ?thesis
    using good_cons_here [OF good, of CIdle] mq_goodD(5) [OF good] c by simp
qed

subsection \<open>The queue refines the abstract queue\<close>

lemma mq_relI: "mq_good s trail chain (aq_slots a) \<Longrightarrow> aq_cnt a = mq_len (mem s) \<Longrightarrow> mq_rel s a"
  by (auto simp: mq_rel_def)

lemma mq_init_rel: "mq_rel (mq_init z k) aq_init"
proof (rule mq_relI)
  show "mq_good (mq_init z k) [] [0] (aq_slots aq_init)"
    by (simp add: mq_good_def mq_init_def mq_New_def aq_init_def links_ok_def owners_ok_def
        nodes_ok_def path_ok_def)
qed (simp add: mq_init_def mq_New_def aq_init_def)

lemma sim_by:
  "mq_good s' trail chain (aq_slots a') \<Longrightarrow> aq_cnt a' = mq_len (mem s') \<Longrightarrow> aq_step a l a' \<Longrightarrow>
   \<exists>a'. aq_step a l a' \<and> mq_rel s' a'"
  by (auto intro: mq_relI)

lemmas sim_tau = sim_by [OF _ _ aq_step.aq_tau]

text \<open>The producers' steps, then the consumer's.\<close>

lemma producer_simulated:
  assumes good: "mq_good s trail chain (aq_slots a)" and cnt: "aq_cnt a = mq_len (mem s)"
    and step: "mq_step z s l s'" and c: "prods s' \<noteq> prods s"
  shows "\<exists>a'. aq_step a l a' \<and> mq_rel s' a'"
  using step
proof cases
  case (p_get i ch n m' v)
  then show ?thesis
    using sim_tau [OF good_get [OF good p_get(3-5), of v]]
      poolGet_facts(11) [OF mq_goodD(3) [OF good] p_get(5)] cnt by simp
next
  case (p_val i v n)
  have "mq_good s' trail chain (aq_slots a)"
    unfolding p_val(2) by (rule good_private [OF good, where n = n]) (use p_val in \<open>auto simp: set_val_def\<close>)
  then show ?thesis using sim_tau p_val cnt by fastforce
next
  case (p_nil i v n)
  have "val_of (mem s) n = v" using nodes_ok_vals(1) [OF mq_goodD(3) [OF good]] p_nil by auto
  then have "mq_good s' trail chain (aq_slots a)"
    unfolding p_nil(2)
    by (intro good_private [OF good, where n = n]) (use p_nil in \<open>auto simp: set_next_def\<close>)
  then show ?thesis using sim_tau p_nil cnt by fastforce
next
  case (p_swap i v n)
  then show ?thesis
    using sim_by [where a' = "a\<lparr>aq_slots := aq_slots a @ [(v, Some i)]\<rparr>", OF _ _ aq_step.aq_swap]
      good_swap [OF good p_swap(3,4)] cnt by fastforce
next
  case (p_link i v n prev)
  then show ?thesis
    using sim_by [where a' = "a\<lparr>aq_slots := aq_publish i (aq_slots a)\<rparr>", OF _ _ aq_step.aq_link]
      good_link [OF good p_link(3,4)] cnt by fastforce
next
  case (p_add i)
  then show ?thesis
    using sim_by [where a' = "a\<lparr>aq_cnt := aq_cnt a + 1\<rparr>", OF _ _ aq_step.aq_add]
      good_add [OF good p_add(3,4)] cnt by fastforce
qed (use c in auto)

lemma consumer_simulated:
  assumes good: "mq_good s trail chain (aq_slots a)" and cnt: "aq_cnt a = mq_len (mem s)"
    and step: "mq_step z s l s'" and c: "prods s' = prods s"
  shows "\<exists>a'. aq_step a l a' \<and> mq_rel s' a'"
proof -
  note g = mq_goodD [OF good]
  have tau: "\<exists>a'. aq_step a LTau a' \<and> mq_rel (s\<lparr>cons := x\<rparr>) a'"
    if "cons_ok (mem s) trail chain (aq_slots a) x" for x
    using sim_tau [OF good_cons_here [OF good that]] cnt by simp
  show ?thesis
    using step
  proof cases
    case (c_load h cur out n nx)
    then have "cons_ok (mem s) trail chain (aq_slots a) (CNext h cur nx out n)"
      using load_first [OF g(1), of nx] g(5) by auto
    then show ?thesis using tau c_load by simp
  next
    case (c_take h cur nx out n v)
    obtain rest where slots: "aq_slots a = (v, None) # rest"
      and "mq_good s' (trail @ [cur]) (tl chain) rest"
      using good_take [OF good c_take(3), of z] c_take by auto
    then show ?thesis
      using sim_by [where a' = "a\<lparr>aq_slots := rest\<rparr>", OF _ _ aq_step.aq_take [OF slots]] c_take cnt
      by fastforce
  next
    case (c_none h cur)
    then show ?thesis
      using sim_by [OF good_cons_here [OF good, of CIdle] _ aq_step.aq_none] g(5) cnt by simp
  next
    case (c_store h cur out)
    then show ?thesis
      using sim_tau [OF good_cons [OF good, where h = cur and l = "mq_len (mem s)" and c = "CStored h cur out"]] g(5) cnt by simp
  next
    case (c_sub h cur out)
    let ?l = "mq_len (mem s) - int (length out)"
    have e: "(mem s)\<lparr>mq_head := mq_head (mem s), mq_len := ?l\<rparr> = (mem s)\<lparr>mq_len := ?l\<rparr>" by simp
    have co: "cons_ok ((mem s)\<lparr>mq_head := mq_head (mem s), mq_len := ?l\<rparr>) trail chain (aq_slots a)
        (CRecycle h cur out)"
      using g(5) c_sub by simp
    have "mq_good s' trail chain (aq_slots a)"
      using good_cons [OF good co] unfolding e c_sub(2) .
    then show ?thesis
      using sim_by [where a' = "a\<lparr>aq_cnt := ?l\<rparr>" and a = a and l = l] aq_step.aq_sub [of a] c_sub cnt
      by fastforce
  next
    case (c_put c cur out c')
    then show ?thesis using sim_tau [OF good_put [OF good c_put(3-5)]] cnt by simp
  next
    case (c_done c cur out)
    then show ?thesis using sim_tau [OF good_done [OF good]] cnt by simp
  qed (use tau g(5) c in \<open>auto simp: list_update_same_conv\<close>)
qed

lemma mq_step_simulated:
  assumes "mq_rel s a" "mq_step z s l s'"
  shows "\<exists>a'. aq_step a l a' \<and> mq_rel s' a'"
proof -
  obtain trail chain where "mq_good s trail chain (aq_slots a)" "aq_cnt a = mq_len (mem s)"
    using assms(1) unfolding mq_rel_def by blast
  then show ?thesis
    using producer_simulated [OF _ _ assms(2)] consumer_simulated [OF _ _ assms(2)]
    by (cases "prods s' = prods s") blast+
qed

text \<open>
  The counter lags: it counts a value once its producer has added it, and the consumer
  subtracts a batch after it took it. \<open>inflight\<close> producers have swapped and not added.
\<close>

fun inflight :: "'v ppc \<Rightarrow> bool" where
  "inflight (PSwapped v n prev) = True"
| "inflight PLinked = True"
| "inflight _ = False"

fun unsubtracted :: "'v cpc \<Rightarrow> nat" where
  "unsubtracted (CLoop h cur out n) = length out"
| "unsubtracted (CNext h cur nx out n) = length out"
| "unsubtracted (CExit h cur out) = length out"
| "unsubtracted (CStored h cur out) = length out"
| "unsubtracted _ = 0"

definition len_ok :: "'v mq_sys \<Rightarrow> 'v aq \<Rightarrow> bool" where
  "len_ok s a \<longleftrightarrow> aq_cnt a + tally inflight (prods s) = int (length (aq_slots a)) + int (unsubtracted (cons s))"

lemma len_ok_step:
  assumes "mq_step z s l s'" "aq_step a l a'" "len_ok s a"
  shows "len_ok s' a'"
  using assms(1)
proof cases
  case (c_take h cur nx out n v)
  then show ?thesis using assms(2,3) by (auto simp: len_ok_def elim!: aq_step.cases)
next
  case (c_none h cur)
  then show ?thesis using assms(2,3) by (auto simp: len_ok_def elim!: aq_step.cases)
next
  case (c_sub h cur out)
  then show ?thesis using assms(2,3) by (auto simp: len_ok_def elim!: aq_step.cases)
qed (use assms(2,3) in \<open>auto simp: len_ok_def tally_update aq_publish_def elim!: aq_step.cases\<close>)

interpretation mpsc: simulation "mq_step z" aq_step "\<lambda>s a. mq_rel s a \<and> len_ok s a" for z
proof
  fix s :: "'a mq_sys" and a l s'
  assume r: "mq_rel s a \<and> len_ok s a" and step: "mq_step z s l s'"
  obtain a' where "aq_step a l a'" "mq_rel s' a'" using mq_step_simulated [OF conjunct1 [OF r] step] by blast
  then show "\<exists>a'. aq_step a l a' \<and> mq_rel s' a' \<and> len_ok s' a'"
    using len_ok_step [OF step _ conjunct2 [OF r]] by blast
qed

lemma len_ok_init: "len_ok (mq_init z k) aq_init"
  by (simp add: len_ok_def mq_init_def aq_init_def)

lemmas mpsc_run = mpsc.run_simulated [OF _ conjI [OF mq_init_rel len_ok_init]]

subsection \<open>What the queue guarantees\<close>

definition swapped_in :: "'v mq_label list \<Rightarrow> 'v list" where
  "swapped_in ls = List.map_filter (\<lambda>l. case l of LSwap i v \<Rightarrow> Some v | _ \<Rightarrow> None) ls"

definition taken_in :: "'v mq_label list \<Rightarrow> 'v list" where
  "taken_in ls = List.map_filter (\<lambda>l. case l of LTake v \<Rightarrow> Some v | _ \<Rightarrow> None) ls"

lemma aq_run_fifo: "run aq_step a ls a' \<Longrightarrow> aq_slots a = [] \<Longrightarrow>
   swapped_in ls = taken_in ls @ map fst (aq_slots a')"
proof (induction rule: run.induct)
  case (run_snoc a ls b l c)
  then show ?case
    by (auto simp: swapped_in_def taken_in_def List.map_filter_def aq_publish_def split_beta
        elim!: aq_step.cases)
qed (simp add: swapped_in_def taken_in_def List.map_filter_def)

text \<open>
  C4. FIFO under every interleaving of any number of producers with the consumer: the values
  the consumer has taken are, in order, a prefix of the values in the order in which their
  producers exchanged the tail. None is lost, duplicated or reordered.
\<close>

theorem mpsc_fifo:
  assumes "run (mq_step z) (mq_init z k) ls s"
  shows "prefix (taken_in ls) (swapped_in ls)"
proof -
  obtain a where "run aq_step aq_init ls a" using mpsc_run [OF assms] by blast
  then have "swapped_in ls = taken_in ls @ map fst (aq_slots a)"
    by (rule aq_run_fifo) (simp add: aq_init_def)
  then show ?thesis by simp
qed

subsection \<open>Uninterrupted calls are runs, and what they return\<close>

lemma run_push:
  assumes "i < length (prods s)" "prods s ! i = PIdle"
  shows "run (mq_step z) s [LTau, LTau, LTau, LSwap i v, LLink i, LAdd i] (s\<lparr>mem := mq_Push z ch v (mem s)\<rparr>)"
proof -
  obtain n m1 where get: "mq_poolGet z ch (mem s) = (n, m1)" by fastforce
  let ?st = "\<lambda>m p. s\<lparr>mem := m, prods := (prods s)[i := p]\<rparr>"
  let ?m2 = "set_val n v m1"
  let ?m3 = "set_next n None ?m2"
  let ?m4 = "?m3\<lparr>mq_tail := n\<rparr>"
  let ?m5 = "set_next (mq_tail ?m3) (Some n) ?m4"
  have "mq_step z s LTau (?st m1 (PGot v n))" using assms get by (intro p_get)
  moreover have "mq_step z (?st m1 (PGot v n)) LTau (?st ?m2 (PVal v n))"
    using p_val [of i "?st m1 (PGot v n)" v n z] assms by simp
  moreover have "mq_step z (?st ?m2 (PVal v n)) LTau (?st ?m3 (PReady v n))"
    using p_nil [of i "?st ?m2 (PVal v n)" v n z] assms by simp
  moreover have "mq_step z (?st ?m3 (PReady v n)) (LSwap i v) (?st ?m4 (PSwapped v n (mq_tail ?m3)))"
    using p_swap [of i "?st ?m3 (PReady v n)" v n z] assms by simp
  moreover have "mq_step z (?st ?m4 (PSwapped v n (mq_tail ?m3))) (LLink i) (?st ?m5 PLinked)"
    using p_link [of i "?st ?m4 (PSwapped v n (mq_tail ?m3))" v n "mq_tail ?m3" z] assms by simp
  moreover have "mq_step z (?st ?m5 PLinked) (LAdd i) (?st (?m5\<lparr>mq_len := mq_len ?m5 + 1\<rparr>) PIdle)"
    using p_add [of i "?st ?m5 PLinked" z] assms by simp
  moreover have "?st (?m5\<lparr>mq_len := mq_len ?m5 + 1\<rparr>) PIdle = s\<lparr>mem := mq_Push z ch v (mem s)\<rparr>"
    using assms get by (simp add: mq_Push_def Let_def list_update_same_conv)
  ultimately show ?thesis
    by (metis (no_types, lifting) run_Cons run_nil)
qed

abbreviation published :: "'v \<times> nat option \<Rightarrow> bool" where
  "published x \<equiv> snd x = None"

lemma consume_good:
  fixes k :: nat
  assumes "mq_good s trail chain slots" "cons s = CLoop h cur out n"
  defines "tk \<equiv> map fst (take k (takeWhile published slots))"
  shows "\<exists>trail' chain' q' cur'. mq_consume z k cur out (mem s) = (cur', out @ tk, q')
    \<and> mq_len q' = mq_len (mem s)
    \<and> mq_good (s\<lparr>mem := q', cons := CLoop h cur' (out @ tk) n\<rparr>) trail' chain' (drop (length tk) slots)"
  using assms(1,2) unfolding tk_def
proof (induction k arbitrary: s trail chain slots cur out)
  case 0
  then have same: "s\<lparr>cons := CLoop h cur out n\<rparr> = s" by simp
  have "mq_good (s\<lparr>cons := CLoop h cur out n\<rparr>) trail chain slots" unfolding same by (rule 0(1))
  then show ?case by auto
next
  case (Suc k)
  have "s\<lparr>cons := CLoop h cur out n\<rparr> = s" using Suc.prems(2) by simp
  then have same: "mq_good (s\<lparr>cons := CLoop h cur out n\<rparr>) trail chain slots" using Suc.prems(1) by (simp only:)
  note g = mq_goodD [OF Suc.prems(1)]
  have cur: "cur = hd chain" using g(5) Suc.prems(2) by simp
  show ?case
  proof (cases "next_of (mem s) cur")
    case None
    have "takeWhile published slots = []"
    proof (cases slots)
      case (Cons x xs)
      have "chain \<noteq> []" using Suc.prems(1) by (rule good_nonempty)
      then have "next_of (mem s) cur = (if snd x = None then Some (chain ! 1) else None)"
        using g(1) Cons cur by (auto simp: links_ok_def hd_conv_nth)
      then show ?thesis using None Cons by (auto split: if_splits)
    qed simp
    then show ?thesis using None same by auto
  next
    case (Some nx)
    have "cons_ok (mem s) trail chain slots (CNext h cur nx out n)"
      using load_first [OF g(1)] g(5) Suc.prems(2) Some cur by auto
    from good_take [OF good_cons_here [OF Suc.prems(1) this], of h cur nx out n z]
    obtain v rest where v: "slots = (v, None) # rest" "val_of (mem s) nx = v"
      and good: "mq_good (s\<lparr>mem := set_val nx z (mem s), cons := CLoop h nx (out @ [v]) n\<rparr>)
            (trail @ [cur]) (tl chain) rest"
      by auto
    from Suc.IH [OF good, of nx "out @ [v]"]
    show ?thesis using v Some by simp
  qed
qed

text \<open>Before \<open>cur\<close>, the recycling loop stands on a consumed node with a link to another one.\<close>

lemma recycle_next:
  assumes good: "mq_good s trail chain slots" and c: "cons s = CRecycle c cur out" "c \<noteq> cur"
  shows "\<exists>c'. next_of (mem s) c = Some c' \<and> c' \<noteq> c"
proof -
  note g = mq_goodD [OF good]
  have co: "cur = hd chain" "c = hd (trail @ chain)" using g(5) c(1) by auto
  then obtain tr where tr: "trail = c # tr" using c(2) by (cases trail) auto
  have "next_of (mem s) ((trail @ [hd chain]) ! 0) = Some ((trail @ [hd chain]) ! Suc 0)"
    using g(4) tr unfolding path_ok_def
    by (metis Suc_less_eq append_Cons length_Cons length_append_singleton zero_less_Suc)
  moreover have "(trail @ [hd chain]) ! Suc 0 \<noteq> c"
    using nodes_ok_live(1) [OF g(3)] good_nonempty [OF good] tr by (cases tr) auto
  ultimately show ?thesis using tr by auto
qed

lemma recycle_good:
  assumes "mq_good s trail chain slots" "cons s = CRecycle c cur out" "length trail \<le> k"
  shows "\<exists>q'. mq_recycle k c cur (mem s) = Some q' \<and> mq_len q' = mq_len (mem s)
    \<and> mq_good (s\<lparr>mem := q', cons := CIdle\<rparr>) [] chain slots"
  using assms
proof (induction k arbitrary: s trail c)
  case 0
  then have "c = cur" using mq_goodD(5) by fastforce
  then show ?case
    using good_done [of s trail chain slots cur out] 0 by (simp add: mq_recycle.simps)
next
  case (Suc k)
  show ?case
  proof (cases "c = cur")
    case True
    have good: "mq_good (s\<lparr>cons := CIdle\<rparr>) trail chain slots"
      using good_done [OF Suc.prems(1)] Suc.prems(2) True by simp
    then have "trail = []" using mq_goodD(5) by fastforce
    then show ?thesis using good True by (simp add: mq_recycle.simps)
  next
    case False
    note g = mq_goodD [OF Suc.prems(1)]
    have co: "cur = hd chain" "c = hd (trail @ chain)" using g(5) Suc.prems(2) by auto
    then obtain tr where tr: "trail = c # tr" using False by (cases trail) auto
    obtain c' where c': "next_of (mem s) c = Some c'"
      using recycle_next [OF Suc.prems(1,2) False] by blast
    from Suc.IH [OF good_put [OF Suc.prems(1,2) False c']] Suc.prems(3) tr
    show ?thesis by (simp add: mq_recycle.simps [of "Suc k"] False c')
  qed
qed

lemma PopBatch_good:
  fixes n :: nat
  assumes good: "mq_good s trail chain slots" and idle: "cons s = CIdle"
  defines "tk \<equiv> map fst (take n (takeWhile published slots))"
  shows "\<exists>q' trail' chain'. mq_PopBatch z n (mem s) = Some ((tk, tk \<noteq> []), q')
    \<and> mq_len q' = mq_len (mem s) - int (length tk)
    \<and> mq_good (s\<lparr>mem := q'\<rparr>) trail' chain' (drop (length tk) slots)"
proof -
  let ?h = "mq_head (mem s)"
  have "cons_ok (mem s) trail chain slots (CLoop ?h ?h [] n)"
    using mq_goodD(5) [OF good] idle by simp
  from consume_good [OF good_cons_here [OF good this], where h = ?h and cur = ?h and out = "[]" and n = n and k = n and z = z]
  obtain tr ch q1 cur where q1: "mq_consume z n ?h [] (mem s) = (cur, tk, q1)" "mq_len q1 = mq_len (mem s)"
    and good1: "mq_good (s\<lparr>mem := q1, cons := CLoop ?h cur tk n\<rparr>) tr ch (drop (length tk) slots)"
    by (auto simp: tk_def)
  have co: "length tr = length tk" "cur = hd ch" "?h = hd (tr @ ch)" "mq_head q1 = ?h"
    using mq_goodD(5) [OF good1] by auto
  show ?thesis
  proof (cases "tk = []")
    case True
    then have "mq_good (s\<lparr>mem := q1, cons := CIdle\<rparr>) tr ch (drop (length tk) slots)"
      using good_cons_here [OF good1, of CIdle] co by simp
    moreover have "s\<lparr>mem := q1, cons := CIdle\<rparr> = s\<lparr>mem := q1\<rparr>" using idle by simp
    ultimately show ?thesis using True q1 by (auto simp: mq_PopBatch_def)
  next
    case False
    let ?q2 = "q1\<lparr>mq_head := cur, mq_len := mq_len q1 - int (length tk)\<rparr>"
    have "mq_good (s\<lparr>mem := ?q2, cons := CRecycle ?h cur tk\<rparr>) tr ch (drop (length tk) slots)"
      using good_cons [OF good1, where h = cur and l = "mq_len q1 - int (length tk)" and c = "CRecycle ?h cur tk"]
        co by simp
    from recycle_good [OF this, of ?h cur tk "length tk"]
    obtain q3 where "mq_recycle (length tk) ?h cur ?q2 = Some q3" "mq_len q3 = mq_len q1 - int (length tk)"
        "mq_good (s\<lparr>mem := q3, cons := CIdle\<rparr>) [] ch (drop (length tk) slots)"
      using co by auto
    moreover have "s\<lparr>mem := q3, cons := CIdle\<rparr> = s\<lparr>mem := q3\<rparr>" using idle by simp
    ultimately show ?thesis using False q1 by (auto simp: mq_PopBatch_def Let_def)
  qed
qed

lemma Pop_good:
  assumes good: "mq_good s trail chain slots" and idle: "cons s = CIdle"
  shows "fst (mq_Pop z (mem s)) = (case slots of (v, None) # _ \<Rightarrow> Some v | _ \<Rightarrow> None)"
proof -
  note g = mq_goodD [OF good]
  have h: "mq_head (mem s) = chain ! 0"
    using g(5) idle good_nonempty [OF good] by (simp add: hd_conv_nth)
  show ?thesis
  proof (cases slots)
    case Nil
    then have "next_of (mem s) (chain ! 0) = None" using links_ok_last(3,4) [OF g(1)] by simp
    then show ?thesis using h Nil by (simp add: mq_Pop_def)
  next
    case (Cons x xs)
    then have "val_of (mem s) (chain ! 1) = fst x"
        "next_of (mem s) (chain ! 0) = (if snd x = None then Some (chain ! 1) else None)"
      using g(1) by (auto simp: links_ok_def)
    then show ?thesis using h Cons by (cases x; cases "snd x") (auto simp: mq_Pop_def Let_def)
  qed
qed

text \<open>
  Between calls (every producer and the consumer idle) the queue is exact: the pending
  values are those pushed and not yet taken, \<open>Len\<close> is their number, \<open>PopBatch(n)\<close> returns
  the first \<open>n\<close> of them (its recycling loop terminates) and counts the rest, and \<open>Pop\<close>
  the first one.
\<close>

theorem mpsc_quiescent:
  assumes "run (mq_step z) (mq_init z k) ls s" "\<forall>p \<in> set (prods s). p = PIdle" "cons s = CIdle"
  shows "\<exists>pend q'. swapped_in ls = taken_in ls @ pend \<and> mq_Len (mem s) = int (length pend)
     \<and> mq_PopBatch z n (mem s) = Some ((take n pend, take n pend \<noteq> []), q')
     \<and> mq_Len q' = int (length (drop n pend))
     \<and> fst (mq_Pop z (mem s)) = (case pend of [] \<Rightarrow> None | v # _ \<Rightarrow> Some v)"
proof -
  obtain a where a: "run aq_step aq_init ls a" "mq_rel s a" "len_ok s a"
    using mpsc_run [OF assms(1)] by blast
  obtain trail chain where good: "mq_good s trail chain (aq_slots a)" and cnt: "aq_cnt a = mq_len (mem s)"
    using a(2) by (auto simp: mq_rel_def)
  let ?pend = "map fst (aq_slots a)"
  have "snd (aq_slots a ! i) = None" if "i < length (aq_slots a)" for i
    using owners_okD [OF mq_goodD(2) [OF good] that] assms(2) nth_mem by (cases "snd (aq_slots a ! i)") fastforce+
  then have pub: "\<forall>x \<in> set (aq_slots a). published x" by (metis in_set_conv_nth)
  then have all: "takeWhile published (aq_slots a) = aq_slots a" by simp
  have "swapped_in ls = taken_in ls @ ?pend"
    using a(1) by (rule aq_run_fifo) (simp add: aq_init_def)
  moreover have "tally inflight (prods s) = 0" using assms(2) by (auto simp: tally_zero)
  then have len: "mq_len (mem s) = int (length ?pend)"
    using a(3) assms(3) cnt by (simp add: len_ok_def)
  moreover obtain q' where "mq_PopBatch z n (mem s) = Some ((take n ?pend, take n ?pend \<noteq> []), q')"
      "mq_len q' = int (length (drop n ?pend))"
    using PopBatch_good [OF good assms(3), where n = n and z = z] len by (auto simp: all take_map)
  moreover have "fst (mq_Pop z (mem s)) = (case ?pend of [] \<Rightarrow> None | v # _ \<Rightarrow> Some v)"
    using Pop_good [OF good assms(3), of z] pub by (cases "aq_slots a") (auto split: option.splits)
  ultimately show ?thesis unfolding mq_Len_def by blast
qed

theorem mpsc_quiescent_witness:
  "\<exists>ls s. run (mq_step 0) (mq_init (0::nat) 1) ls s \<and> swapped_in ls = [5, 6]
     \<and> (\<exists>q'. mq_PopBatch 0 1 (mem s) = Some (([5], True), q') \<and> mq_Len q' = 1)"
proof -
  let ?s0 = "mq_init (0::nat) 1"
  let ?s1 = "?s0\<lparr>mem := mq_Push 0 None 5 (mem ?s0)\<rparr>"
  let ?s2 = "?s1\<lparr>mem := mq_Push 0 None 6 (mem ?s1)\<rparr>"
  let ?l = "\<lambda>v. [LTau, LTau, LTau, LSwap 0 v, LLink 0, LAdd 0 :: nat mq_label]"
  have "run (mq_step 0) ?s0 (?l 5) ?s1" by (rule run_push) (simp_all add: mq_init_def)
  moreover have "run (mq_step 0) ?s1 (?l 6) ?s2" by (rule run_push) (simp_all add: mq_init_def)
  ultimately have r: "run (mq_step 0) ?s0 (?l 5 @ ?l 6) ?s2" by (rule run_append [rotated])
  have sw: "swapped_in (?l 5 @ ?l 6) = [5, 6]" and tk: "taken_in (?l 5 @ ?l 6) = []"
    by (simp_all add: swapped_in_def taken_in_def List.map_filter_def)
  have "\<forall>p \<in> set (prods ?s2). p = PIdle" "cons ?s2 = CIdle" by (simp_all add: mq_init_def)
  from mpsc_quiescent [OF r this, of 1]
  have "\<exists>q'. mq_PopBatch 0 1 (mem ?s2) = Some (([5], True), q') \<and> mq_Len q' = 1"
    unfolding sw tk by auto
  with r sw show ?thesis by blast
qed

text \<open>
  No thread blocks another: in every reachable state a producer inside \<open>Push\<close> can take
  its next step, and so can the consumer inside \<open>PopBatch\<close> (in particular its recycling loop
  never meets a nil link).
\<close>

theorem mpsc_progress:
  assumes "run (mq_step z) (mq_init z k) ls s"
  shows "(i < length (prods s) \<longrightarrow> prods s ! i \<noteq> PIdle \<longrightarrow>
       (\<exists>l s' p. mq_step z s l s' \<and> cons s' = cons s \<and> prods s' = (prods s)[i := p] \<and> p \<noteq> prods s ! i)) \<and>
     (cons s \<noteq> CIdle \<longrightarrow> (\<exists>l s'. mq_step z s l s' \<and> prods s' = prods s \<and> cons s' \<noteq> cons s))"
proof (intro conjI impI)
  obtain a where "mq_rel s a" using mpsc_run [OF assms] by blast
  then obtain trail chain where good: "mq_good s trail chain (aq_slots a)" by (auto simp: mq_rel_def)
  note g = mq_goodD [OF good]
  {
    assume i: "i < length (prods s)" "prods s ! i \<noteq> PIdle"
    show "\<exists>l s' p. mq_step z s l s' \<and> cons s' = cons s \<and> prods s' = (prods s)[i := p] \<and> p \<noteq> prods s ! i"
    proof (cases "prods s ! i")
      case (PGot v n)
      then show ?thesis using p_val [OF i(1) PGot, of z] by fastforce
    next
      case (PVal v n)
      then show ?thesis using p_nil [OF i(1) PVal, of z] by fastforce
    next
      case (PReady v n)
      then show ?thesis using p_swap [OF i(1) PReady, of z] by fastforce
    next
      case (PSwapped v n prev)
      then show ?thesis using p_link [OF i(1) PSwapped, of z] by fastforce
    next
      case PLinked
      then show ?thesis using p_add [OF i(1) PLinked, of z] by fastforce
    qed (use i in simp)
  }
  assume "cons s \<noteq> CIdle"
  then show "\<exists>l s'. mq_step z s l s' \<and> prods s' = prods s \<and> cons s' \<noteq> cons s"
  proof (cases "cons s")
    case (CLoop h cur out n)
    then show ?thesis
      using c_nil [OF CLoop, of z] c_load [OF CLoop, of _ z] c_full [OF CLoop, of z]
      by (cases "length out < n"; cases "next_of (mem s) cur") fastforce+
  next
    case (CNext h cur nx out n)
    then show ?thesis using c_take [OF CNext refl, of z] by fastforce
  next
    case (CExit h cur out)
    then show ?thesis
      using c_none [of s h cur z] c_store [OF CExit, of z] by (cases "out = []") fastforce+
  next
    case (CStored h cur out)
    then show ?thesis using c_sub [OF CStored, of z] by fastforce
  next
    case (CRecycle c cur out)
    show ?thesis
    proof (cases "c = cur")
      case True
      then show ?thesis using c_done [OF CRecycle True, of z] CRecycle by fastforce
    next
      case False
      obtain c' where "next_of (mem s) c = Some c'" "c' \<noteq> c"
        using recycle_next [OF good CRecycle False] by blast
      then show ?thesis using c_put [OF CRecycle False, of c' z] CRecycle by fastforce
    qed
  qed simp
qed

text \<open>A run in which one producer pushes two values and the consumer takes the first.\<close>

lemma mpsc_example_run:
  "\<exists>ls s. run (mq_step 0) (mq_init (0::nat) 1) ls s \<and> swapped_in ls = [5, 6] \<and> taken_in ls = [5]
     \<and> cons s = CLoop 0 1 [5] 4"
proof -
  let ?s0 = "mq_init (0::nat) 1"
  let ?s1 = "?s0\<lparr>mem := mq_Push 0 None 5 (mem ?s0)\<rparr>"
  let ?s2 = "?s1\<lparr>mem := mq_Push 0 None 6 (mem ?s1)\<rparr>"
  let ?l = "\<lambda>v. [LTau, LTau, LTau, LSwap 0 v, LLink 0, LAdd 0 :: nat mq_label]"
  have "run (mq_step 0) ?s0 (?l 5) ?s1" by (rule run_push) (simp_all add: mq_init_def)
  moreover have "run (mq_step 0) ?s1 (?l 6) ?s2" by (rule run_push) (simp_all add: mq_init_def)
  ultimately have r: "run (mq_step 0) ?s0 (?l 5 @ ?l 6) ?s2" by (rule run_append [rotated])
  let ?s3 = "?s2\<lparr>cons := CLoop 0 0 [] 4\<rparr>"
  let ?s4 = "?s3\<lparr>cons := CNext 0 0 1 [] 4\<rparr>"
  let ?s5 = "?s4\<lparr>mem := set_val 1 0 (mem ?s4), cons := CLoop 0 1 ([] @ [5]) 4\<rparr>"
  have m: "mq_head (mem ?s2) = 0" "next_of (mem ?s2) 0 = Some 1" "val_of (mem ?s2) 1 = 5" "cons ?s2 = CIdle"
    by (simp_all add: mq_init_def mq_New_def mq_Push_def mq_poolGet_def Let_def)
  have "mq_step 0 ?s2 LTau ?s3" using c_begin [OF m(4), of 0 4] unfolding m(1) .
  moreover have "mq_step 0 ?s3 LTau ?s4" by (rule c_load) (use m in auto)
  moreover have "mq_step 0 ?s4 (LTake 5) ?s5" by (rule c_take) (use m in auto)
  ultimately have "run (mq_step 0) ?s2 [LTau, LTau, LTake 5] ?s5" by (blast intro: run_Cons run_nil)
  from run_append [OF this r] show ?thesis
    by (intro exI conjI) (auto simp: swapped_in_def taken_in_def List.map_filter_def)
qed

theorem mpsc_fifo_witness:
  "\<exists>ls s. run (mq_step 0) (mq_init (0::nat) 1) ls s \<and> taken_in ls = [5]
     \<and> prefix (taken_in ls) (swapped_in ls)"
proof -
  obtain ls s where r: "run (mq_step 0) (mq_init (0::nat) 1) ls s" "taken_in ls = [5]"
    using mpsc_example_run by blast
  from r(2) mpsc_fifo [OF r(1)] show ?thesis using r(1) by auto
qed

theorem mpsc_progress_witness:
  "\<exists>ls s. run (mq_step 0) (mq_init (0::nat) 1) ls s \<and> cons s = CLoop 0 1 [5] 4
     \<and> (\<exists>l s'. mq_step 0 s l s' \<and> prods s' = prods s \<and> cons s' \<noteq> cons s)"
proof -
  obtain ls s where r: "run (mq_step 0) (mq_init (0::nat) 1) ls s" "cons s = CLoop 0 1 [5] 4"
    using mpsc_example_run by blast
  have "\<exists>l s'. mq_step 0 s l s' \<and> prods s' = prods s \<and> cons s' \<noteq> cons s"
    using mpsc_progress [OF r(1)] r(2) by auto
  with r show ?thesis by blast
qed

end
