(* ===== verification/Inbox.thy ===== *)
theory Inbox
  imports Mpsc
begin

section \<open>The inbox and its scheduler (actor/inbox.go)\<close>

text \<open>
  An \<open>Inbox\<close> is an MPSC queue and an atomic status. Any number of goroutines call \<open>Send\<close>;
  the one that moves the status from \<open>idle\<close> to \<open>running\<close> schedules \<open>process\<close> on a new
  goroutine, which drains the queue and goes back to \<open>idle\<close>. All of them run concurrently, so
  the methods are programs of a step relation with one rule per atomic access. The queue is
  the abstract queue that \<open>Mpsc\<close> proves the code refines: \<open>Push\<close> is its three visible
  steps (exchange, publish, count) and \<open>PopBatch\<close> takes published values, then subtracts.
  \<open>runtime.Gosched\<close> (every \<open>defaultThroughput\<close> rounds) only yields and is not a step.
\<close>

datatype proc_status = IStopped | IStarting | IIdle | IRunning

definition defaultThroughput :: nat where
  "defaultThroughput = 300"

definition messageBatchSize :: nat where
  "messageBatchSize = 1024 * 4"

text \<open>
  Where a sender is in \<open>Send\<close> (after the exchange, after publication, after the count,
  before \<open>schedule\<close>), a starter in \<open>Start\<close> (status \<open>starting\<close>; before \<open>schedule\<close>),
  and a goroutine in \<open>process\<close>: at the loop test, in \<open>PopBatch\<close> with what it has taken,
  before the subtraction, in \<open>Invoke\<close>, after \<open>run\<close>, before reading \<open>Len\<close>, before
  \<open>schedule\<close>. A goroutine that returned leaves the list.
\<close>

datatype spc = SIdle | SSwapped | SLinked | SAdded

datatype tpc = TIdle | TStarting | TSched

datatype 'v gpc =
    GLoop
  | GPop "'v list"
  | GSub "'v list"
  | GInvoke "'v list"
  | GExit
  | GCheck
  | GSched

record 'v inbox =
  ib_q :: "'v aq"
  ib_status :: proc_status
  senders :: "spc list"
  starters :: "tpc list"
  gors :: "'v gpc list"
  delivered :: "'v list"

definition NewInbox :: "nat \<Rightarrow> nat \<Rightarrow> 'v inbox" where
  "NewInbox n t = \<lparr>ib_q = aq_init, ib_status = IStopped, senders = replicate n SIdle,
                   starters = replicate t TIdle, gors = [], delivered = []\<rparr>"

text \<open>\<open>schedule\<close>: a compare-and-swap from \<open>idle\<close> to \<open>running\<close>; on success a new goroutine.\<close>

definition ib_schedule :: "'v inbox \<Rightarrow> 'v inbox" where
  "ib_schedule s = (if ib_status s = IIdle then s\<lparr>ib_status := IRunning, gors := gors s @ [GLoop]\<rparr> else s)"

definition ib_Count :: "'v inbox \<Rightarrow> int" where
  "ib_Count s = aq_cnt (ib_q s)"

datatype 'v ib_label = ISend nat 'v | IDeliver "'v list" | IStop | ITau

abbreviation slots_of :: "'v inbox \<Rightarrow> ('v \<times> nat option) list" where
  "slots_of s \<equiv> aq_slots (ib_q s)"

abbreviation drop_nth :: "nat \<Rightarrow> 'a list \<Rightarrow> 'a list" where
  "drop_nth i xs \<equiv> take i xs @ drop (Suc i) xs"

inductive ib_step :: "'v inbox \<Rightarrow> 'v ib_label \<Rightarrow> 'v inbox \<Rightarrow> bool" where
  s_swap: "i < length (senders s) \<Longrightarrow> senders s ! i = SIdle \<Longrightarrow> aq_step (ib_q s) (LSwap i v) q \<Longrightarrow>
     ib_step s (ISend i v) (s\<lparr>ib_q := q, senders := (senders s)[i := SSwapped]\<rparr>)"
| s_link: "i < length (senders s) \<Longrightarrow> senders s ! i = SSwapped \<Longrightarrow> aq_step (ib_q s) (LLink i) q \<Longrightarrow>
     ib_step s ITau (s\<lparr>ib_q := q, senders := (senders s)[i := SLinked]\<rparr>)"
| s_add: "i < length (senders s) \<Longrightarrow> senders s ! i = SLinked \<Longrightarrow> aq_step (ib_q s) (LAdd i) q \<Longrightarrow>
     ib_step s ITau (s\<lparr>ib_q := q, senders := (senders s)[i := SAdded]\<rparr>)"
| s_sched: "i < length (senders s) \<Longrightarrow> senders s ! i = SAdded \<Longrightarrow>
     ib_step s ITau ((ib_schedule s)\<lparr>senders := (senders s)[i := SIdle]\<rparr>)"
| t_cas: "i < length (starters s) \<Longrightarrow> starters s ! i = TIdle \<Longrightarrow> ib_status s = IStopped \<Longrightarrow>
     ib_step s ITau (s\<lparr>ib_status := IStarting, starters := (starters s)[i := TStarting]\<rparr>)"
| t_swap: "i < length (starters s) \<Longrightarrow> starters s ! i = TStarting \<Longrightarrow>
     ib_step s ITau (s\<lparr>ib_status := IIdle, starters := (starters s)[i := TSched]\<rparr>)"
| t_sched: "i < length (starters s) \<Longrightarrow> starters s ! i = TSched \<Longrightarrow>
     ib_step s ITau ((ib_schedule s)\<lparr>starters := (starters s)[i := TIdle]\<rparr>)"
| stop: "ib_step s IStop (s\<lparr>ib_status := IStopped\<rparr>)"
| g_loop: "g < length (gors s) \<Longrightarrow> gors s ! g = GLoop \<Longrightarrow>
     ib_step s ITau (s\<lparr>gors := (gors s)[g := (if ib_status s \<noteq> IStopped then GPop [] else GExit)]\<rparr>)"
| g_take: "g < length (gors s) \<Longrightarrow> gors s ! g = GPop out \<Longrightarrow> length out < messageBatchSize \<Longrightarrow>
     aq_step (ib_q s) (LTake v) q \<Longrightarrow>
     ib_step s ITau (s\<lparr>ib_q := q, gors := (gors s)[g := GPop (out @ [v])]\<rparr>)"
| g_empty: "g < length (gors s) \<Longrightarrow> gors s ! g = GPop [] \<Longrightarrow>
     slots_of s = [] \<or> \<not> published (hd (slots_of s)) \<Longrightarrow>
     ib_step s ITau (s\<lparr>gors := (gors s)[g := GExit]\<rparr>)"
| g_batch: "g < length (gors s) \<Longrightarrow> gors s ! g = GPop out \<Longrightarrow> out \<noteq> [] \<Longrightarrow>
     length out = messageBatchSize \<or> slots_of s = [] \<or> \<not> published (hd (slots_of s)) \<Longrightarrow>
     ib_step s ITau (s\<lparr>gors := (gors s)[g := GSub out]\<rparr>)"
| g_sub: "g < length (gors s) \<Longrightarrow> gors s ! g = GSub out \<Longrightarrow> aq_step (ib_q s) (LSub (length out)) q \<Longrightarrow>
     ib_step s ITau (s\<lparr>ib_q := q, gors := (gors s)[g := GInvoke out]\<rparr>)"
| g_invoke: "g < length (gors s) \<Longrightarrow> gors s ! g = GInvoke out \<Longrightarrow>
     ib_step s (IDeliver out) (s\<lparr>delivered := delivered s @ out, gors := (gors s)[g := GLoop]\<rparr>)"
| g_cas: "g < length (gors s) \<Longrightarrow> gors s ! g = GExit \<Longrightarrow> ib_status s = IRunning \<Longrightarrow>
     ib_step s ITau (s\<lparr>ib_status := IIdle, gors := (gors s)[g := GCheck]\<rparr>)"
| g_gone: "g < length (gors s) \<Longrightarrow> gors s ! g = GExit \<Longrightarrow> ib_status s \<noteq> IRunning \<Longrightarrow>
     ib_step s ITau (s\<lparr>gors := drop_nth g (gors s)\<rparr>)"
| g_more: "g < length (gors s) \<Longrightarrow> gors s ! g = GCheck \<Longrightarrow> 0 < ib_Count s \<Longrightarrow>
     ib_step s ITau (s\<lparr>gors := (gors s)[g := GSched]\<rparr>)"
| g_done: "g < length (gors s) \<Longrightarrow> gors s ! g = GCheck \<Longrightarrow> \<not> 0 < ib_Count s \<Longrightarrow>
     ib_step s ITau (s\<lparr>gors := drop_nth g (gors s)\<rparr>)"
| g_sched: "g < length (gors s) \<Longrightarrow> gors s ! g = GSched \<Longrightarrow>
     ib_step s ITau (ib_schedule (s\<lparr>gors := drop_nth g (gors s)\<rparr>))"

subsection \<open>Who is doing what\<close>

text \<open>A goroutine that may touch the queue or the actor; one that has let go of the status.\<close>

fun active :: "'v gpc \<Rightarrow> bool" where
  "active GCheck = False"
| "active GSched = False"
| "active _ = True"

fun holding :: "'v gpc \<Rightarrow> 'v list" where
  "holding (GPop out) = out"
| "holding (GSub out) = out"
| "holding (GInvoke out) = out"
| "holding _ = []"

fun uncounted :: "'v gpc \<Rightarrow> int" where
  "uncounted (GPop out) = int (length out)"
| "uncounted (GSub out) = int (length out)"
| "uncounted _ = 0"

fun adding :: "spc \<Rightarrow> bool" where
  "adding SSwapped = True"
| "adding SLinked = True"
| "adding _ = False"

definition held :: "'v gpc list \<Rightarrow> 'v list" where
  "held gs = concat (map holding gs)"

definition uncounted_sum :: "'v gpc list \<Rightarrow> int" where
  "uncounted_sum gs = sum_list (map uncounted gs)"

lemma held_simps [simp]:
  "held [] = []" "held (x # xs) = holding x @ held xs" "held (xs @ ys) = held xs @ held ys"
  "uncounted_sum [] = 0" "uncounted_sum (x # xs) = uncounted x + uncounted_sum xs"
  "uncounted_sum (xs @ ys) = uncounted_sum xs + uncounted_sum ys"
  by (simp_all add: held_def uncounted_sum_def)

lemma split_at:
  assumes "g < length xs"
  shows "xs = take g xs @ xs ! g # drop (Suc g) xs" and "xs[g := x] = take g xs @ x # drop (Suc g) xs"
  using assms by (simp_all add: id_take_nth_drop [symmetric] upd_conv_take_nth_drop)

lemma inactive_idle:
  "\<forall>y \<in> set gs. \<not> active y \<Longrightarrow> held gs = [] \<and> uncounted_sum gs = 0"
proof (induction gs)
  case (Cons y gs)
  then show ?case by (cases y) auto
qed simp

text \<open>With one active goroutine, what is held and not yet counted is its own.\<close>

lemma single_active:
  assumes "g < length gs" "active (gs ! g)" "tally active gs \<le> 1"
  shows "held (gs[g := x]) = holding x" "uncounted_sum (gs[g := x]) = uncounted x"
    "held gs = holding (gs ! g)" "uncounted_sum gs = uncounted (gs ! g)"
    "held (drop_nth g gs) = []" "uncounted_sum (drop_nth g gs) = 0"
proof -
  have t: "tally active (take g gs @ gs ! g # drop (Suc g) gs) \<le> 1"
    using assms(3) split_at(1) [OF assms(1)] by simp
  then have "tally active (take g gs) + tally active (drop (Suc g) gs) \<le> 0" using assms(2) by simp
  moreover have "0 \<le> tally active (take g gs)" "0 \<le> tally active (drop (Suc g) gs)" by simp_all
  ultimately have "tally active (take g gs) = 0" "tally active (drop (Suc g) gs) = 0" by linarith+
  then have *: "held (take g gs) = []" "uncounted_sum (take g gs) = 0"
      "held (drop (Suc g) gs) = []" "uncounted_sum (drop (Suc g) gs) = 0"
    using inactive_idle [of "take g gs"] inactive_idle [of "drop (Suc g) gs"] by (auto simp: tally_zero)
  have at: "held (take g gs @ y # drop (Suc g) gs) = holding y"
    "uncounted_sum (take g gs @ y # drop (Suc g) gs) = uncounted y" for y
    using * by simp_all
  show "held (gs[g := x]) = holding x" "uncounted_sum (gs[g := x]) = uncounted x"
    using at split_at(2) [OF assms(1)] by simp_all
  show "held gs = holding (gs ! g)" "uncounted_sum gs = uncounted (gs ! g)"
    using at [of "gs ! g"] split_at(1) [OF assms(1)] by simp_all
  show "held (drop_nth g gs) = []" "uncounted_sum (drop_nth g gs) = 0"
    using * by simp_all
qed

text \<open>Replacing or dropping a goroutine that holds nothing changes neither.\<close>

lemma idle_goroutine:
  assumes "g < length gs" "holding (gs ! g) = []" "uncounted (gs ! g) = 0"
  shows "held (drop_nth g gs) = held gs" "uncounted_sum (drop_nth g gs) = uncounted_sum gs"
    "holding x = [] \<Longrightarrow> held (gs[g := x]) = held gs"
    "uncounted x = 0 \<Longrightarrow> uncounted_sum (gs[g := x]) = uncounted_sum gs"
proof -
  have h: "held (take g gs @ y # drop (Suc g) gs) = held (drop_nth g gs)" if "holding y = []" for y
    using that by simp
  have u: "uncounted_sum (take g gs @ y # drop (Suc g) gs) = uncounted_sum (drop_nth g gs)" if "uncounted y = 0" for y
    using that by simp
  show 1: "held (drop_nth g gs) = held gs" "uncounted_sum (drop_nth g gs) = uncounted_sum gs"
    using h [OF assms(2)] u [OF assms(3)] split_at(1) [OF assms(1)] by simp_all
  show "holding x = [] \<Longrightarrow> held (gs[g := x]) = held gs"
    "uncounted x = 0 \<Longrightarrow> uncounted_sum (gs[g := x]) = uncounted_sum gs"
    using h [of x] u [of x] 1 split_at(2) [OF assms(1), of x] by simp_all
qed

lemma tally_drop_nth:
  assumes "g < length xs"
  shows "tally P (drop_nth g xs) = tally P xs - of_bool (P (xs ! g))"
  using arg_cong [OF split_at(1) [OF assms], of "tally P"] by (simp only: tally_simps(2,3))

subsection \<open>The invariant of an inbox that is not stopped\<close>

definition pending_wakeup :: "'v inbox \<Rightarrow> bool" where
  "pending_wakeup s \<longleftrightarrow> (\<exists>x \<in> set (senders s). x \<noteq> SIdle) \<or>
     (\<exists>g \<in> set (gors s). \<not> active g) \<or> (\<exists>t \<in> set (starters s). t = TSched)"

definition ib_counts :: "'v inbox \<Rightarrow> bool" where
  "ib_counts s \<longleftrightarrow>
     tally active (gors s) = of_bool (ib_status s = IRunning) \<and>
     tally (\<lambda>t. t = TStarting) (starters s) = of_bool (ib_status s = IStarting) \<and>
     aq_cnt (ib_q s) + tally adding (senders s) = int (length (slots_of s)) + uncounted_sum (gors s)"

definition ib_content :: "'v inbox \<Rightarrow> 'v list \<Rightarrow> bool" where
  "ib_content s sent \<longleftrightarrow> sent = delivered s @ held (gors s) @ map fst (slots_of s)"

definition ib_wakes :: "'v inbox \<Rightarrow> bool" where
  "ib_wakes s \<longleftrightarrow> (ib_status s = IIdle \<and> slots_of s \<noteq> [] \<longrightarrow> pending_wakeup s)"

lemma ib_schedule_simps [simp]:
  "ib_q (ib_schedule s) = ib_q s" "senders (ib_schedule s) = senders s"
  "starters (ib_schedule s) = starters s" "delivered (ib_schedule s) = delivered s"
  "ib_status (ib_schedule s) \<noteq> IIdle"
  "held (gors (ib_schedule s)) = held (gors s)"
  "uncounted_sum (gors (ib_schedule s)) = uncounted_sum (gors s)"
  by (auto simp: ib_schedule_def)

lemma ib_schedule_counts:
  "ib_counts s \<Longrightarrow> ib_counts (ib_schedule s)"
  by (auto simp: ib_counts_def ib_schedule_def)

lemma ib_schedule_update [simp]:
  "(ib_schedule s)\<lparr>senders := xs\<rparr> = ib_schedule (s\<lparr>senders := xs\<rparr>)"
  "(ib_schedule s)\<lparr>starters := ts\<rparr> = ib_schedule (s\<lparr>starters := ts\<rparr>)"
  by (simp_all add: ib_schedule_def)

inductive_simps aq_swap_iff: "aq_step q (LSwap i v) q'"
inductive_simps aq_link_iff: "aq_step q (LLink i) q'"
inductive_simps aq_add_iff: "aq_step q (LAdd i) q'"
inductive_simps aq_take_iff: "aq_step q (LTake v) q'"
inductive_simps aq_sub_iff: "aq_step q (LSub k) q'"

lemmas aq_iffs = aq_swap_iff aq_link_iff aq_add_iff aq_take_iff aq_sub_iff

lemma length_aq_publish [simp]:
  "length (aq_publish i slots) = length slots" "map fst (aq_publish i slots) = map fst slots"
  by (auto simp: aq_publish_def split_beta)

lemma counts_le_1: "ib_counts s \<Longrightarrow> tally active (gors s) \<le> 1"
  by (simp add: ib_counts_def)

lemma counts_running:
  assumes "ib_counts s" "g < length (gors s)" "active (gors s ! g)"
  shows "ib_status s = IRunning"
proof (rule ccontr)
  assume "ib_status s \<noteq> IRunning"
  then have "tally active (gors s) = 0" using assms(1) by (simp add: ib_counts_def)
  then show False using assms(2,3) nth_mem by (fastforce simp: tally_zero)
qed

lemma ib_counts_step:
  assumes step: "ib_step s l s'" and c: "ib_counts s" and l: "l \<noteq> IStop"
  shows "ib_counts s'"
  using step
proof cases
  case (s_sched i)
  have "ib_counts (s\<lparr>senders := (senders s)[i := SIdle]\<rparr>)"
    using c s_sched by (simp add: ib_counts_def tally_update)
  then show ?thesis using s_sched ib_schedule_counts by simp
next
  case (t_sched i)
  have "ib_counts (s\<lparr>starters := (starters s)[i := TIdle]\<rparr>)"
    using c t_sched by (simp add: ib_counts_def tally_update)
  then show ?thesis using t_sched ib_schedule_counts by simp
next
  case (g_sched g)
  have "ib_counts (s\<lparr>gors := drop_nth g (gors s)\<rparr>)"
    using c g_sched idle_goroutine(2) [of g "gors s"]
    by (simp add: ib_counts_def tally_drop_nth del: held_simps tally_simps(3))
  then show ?thesis using g_sched ib_schedule_counts by simp
next
  case (t_swap i)
  have "ib_status s = IStarting"
  proof (rule ccontr)
    assume "ib_status s \<noteq> IStarting"
    then have "tally (\<lambda>t. t = TStarting) (starters s) = 0" using c by (simp add: ib_counts_def)
    then show False using t_swap(3,4) nth_mem by (fastforce simp: tally_zero)
  qed
  then show ?thesis using c t_swap by (simp add: ib_counts_def tally_update)
next
  case (g_gone g)
  then show ?thesis using counts_running [OF c g_gone(3)] by simp
next
  case (g_done g)
  then show ?thesis
    using c idle_goroutine(2) [of g "gors s"]
    by (simp add: ib_counts_def tally_drop_nth del: held_simps tally_simps(3))
next
  case (g_more g)
  then show ?thesis
    using c idle_goroutine(4) [of g "gors s" GSched] by (simp add: ib_counts_def tally_update)
next
  case (g_loop g)
  then show ?thesis
    using c single_active(2,4) [OF g_loop(3) _ counts_le_1 [OF c]] by (simp add: ib_counts_def tally_update)
next
  case (g_take g out v q)
  then show ?thesis
    using c single_active(2,4) [OF g_take(3) _ counts_le_1 [OF c]]
    by (auto simp: ib_counts_def tally_update aq_iffs)
next
  case (g_empty g)
  then show ?thesis
    using c single_active(2,4) [OF g_empty(3) _ counts_le_1 [OF c]] by (simp add: ib_counts_def tally_update)
next
  case (g_batch g out)
  then show ?thesis
    using c single_active(2,4) [OF g_batch(3) _ counts_le_1 [OF c]] by (simp add: ib_counts_def tally_update)
next
  case (g_sub g out q)
  then show ?thesis
    using c single_active(2,4) [OF g_sub(3) _ counts_le_1 [OF c]]
    by (auto simp: ib_counts_def tally_update aq_iffs)
next
  case (g_invoke g out)
  then show ?thesis
    using c single_active(2,4) [OF g_invoke(3) _ counts_le_1 [OF c]] by (simp add: ib_counts_def tally_update)
next
  case (g_cas g)
  then show ?thesis
    using c single_active(2,4) [OF g_cas(3) _ counts_le_1 [OF c]] by (simp add: ib_counts_def tally_update)
qed (use c l in \<open>auto simp: ib_counts_def tally_update aq_iffs\<close>)

definition sent_by :: "'v ib_label \<Rightarrow> 'v list" where
  "sent_by l = (case l of ISend i v \<Rightarrow> [v] | _ \<Rightarrow> [])"

lemma ib_content_step:
  assumes step: "ib_step s l s'" and c: "ib_counts s" and k: "ib_content s sent" and l: "l \<noteq> IStop"
  shows "ib_content s' (sent @ sent_by l)"
  using step
proof cases
  case (g_sched g)
  then show ?thesis
    using k idle_goroutine(1) [of g "gors s"] by (simp add: ib_content_def sent_by_def del: held_simps)
next
  case (g_gone g)
  then show ?thesis using counts_running [OF c g_gone(3)] by simp
next
  case (g_done g)
  then show ?thesis
    using k idle_goroutine(1) [of g "gors s"] by (simp add: ib_content_def sent_by_def del: held_simps)
next
  case (g_more g)
  then show ?thesis
    using k idle_goroutine(3) [of g "gors s" GSched] by (simp add: ib_content_def sent_by_def)
next
  case (g_loop g)
  then show ?thesis
    using k single_active(1,3) [OF g_loop(3) _ counts_le_1 [OF c]] by (simp add: ib_content_def sent_by_def)
next
  case (g_take g out v q)
  then show ?thesis
    using k single_active(1,3) [OF g_take(3) _ counts_le_1 [OF c]]
    by (auto simp: ib_content_def sent_by_def aq_iffs)
next
  case (g_empty g)
  then show ?thesis
    using k single_active(1,3) [OF g_empty(3) _ counts_le_1 [OF c]] by (simp add: ib_content_def sent_by_def)
next
  case (g_batch g out)
  then show ?thesis
    using k single_active(1,3) [OF g_batch(3) _ counts_le_1 [OF c]] by (simp add: ib_content_def sent_by_def)
next
  case (g_sub g out q)
  then show ?thesis
    using k single_active(1,3) [OF g_sub(3) _ counts_le_1 [OF c]]
    by (auto simp: ib_content_def sent_by_def aq_iffs)
next
  case (g_invoke g out)
  then show ?thesis
    using k single_active(1,3) [OF g_invoke(3) _ counts_le_1 [OF c]] by (simp add: ib_content_def sent_by_def)
next
  case (g_cas g)
  then show ?thesis
    using k single_active(1,3) [OF g_cas(3) _ counts_le_1 [OF c]] by (simp add: ib_content_def sent_by_def)
qed (use k l in \<open>auto simp: ib_content_def sent_by_def aq_iffs\<close>)

text \<open>
  The check that keeps wake-ups: if the queue is not empty although \<open>Len\<close> is not positive,
  a sender has exchanged the tail and not counted yet, so it will still call \<open>schedule\<close>.
\<close>

lemma uncounted_nonneg: "0 \<le> uncounted_sum gs"
proof (induction gs)
  case (Cons y gs)
  then show ?case by (cases y) auto
qed simp

lemma short_count_sender:
  assumes "ib_counts s" "\<not> 0 < ib_Count s" "slots_of s \<noteq> []"
  shows "\<exists>x \<in> set (senders s). x \<noteq> SIdle"
proof (rule ccontr)
  assume "\<not> ?thesis"
  then have "tally adding (senders s) = 0" by (fastforce simp: tally_zero)
  then have "ib_Count s = int (length (slots_of s)) + uncounted_sum (gors s)"
    using assms(1) by (simp add: ib_counts_def ib_Count_def)
  moreover have "0 < int (length (slots_of s))" using assms(3) by simp
  ultimately show False using assms(2) uncounted_nonneg [of "gors s"] by linarith
qed

lemma in_set_update: "i < length xs \<Longrightarrow> x \<in> set (xs[i := x])"
  by (metis length_list_update nth_list_update_eq nth_mem)

lemma ib_wakes_step:
  assumes step: "ib_step s l s'" and c: "ib_counts s" and w: "ib_wakes s" and l: "l \<noteq> IStop"
  shows "ib_wakes s'"
proof -
  have run: "ib_wakes s'" if "g < length (gors s)" "active (gors s ! g)" "ib_status s' = ib_status s" for g
    using counts_running [OF c that(1,2)] that(3) by (simp add: ib_wakes_def)
  have sender: "pending_wakeup s'" if "i < length (senders s)" "senders s' = (senders s)[i := x]" "x \<noteq> SIdle" for i x
    using that in_set_update [of i "senders s" x] by (auto simp: pending_wakeup_def)
  show ?thesis
    using step
  proof cases
    case (s_swap i v q)
    then show ?thesis using sender [of i SSwapped] by (simp add: ib_wakes_def)
  next
    case (s_link i q)
    then show ?thesis using sender [of i SLinked] by (simp add: ib_wakes_def)
  next
    case (s_add i q)
    then show ?thesis using sender [of i SAdded] by (simp add: ib_wakes_def)
  next
    case (t_swap i)
    then show ?thesis using in_set_update [of i "starters s" TSched] by (auto simp: ib_wakes_def pending_wakeup_def)
  next
    case (g_cas g)
    then show ?thesis using in_set_update [of g "gors s" GCheck] by (force simp: ib_wakes_def pending_wakeup_def)
  next
    case (g_more g)
    then show ?thesis using in_set_update [of g "gors s" GSched] by (force simp: ib_wakes_def pending_wakeup_def)
  next
    case (g_done g)
    then show ?thesis using short_count_sender [OF c] by (auto simp: ib_wakes_def pending_wakeup_def)
  next
    case (g_loop g)
    then show ?thesis using run [of g] by simp
  next
    case (g_take g out v q)
    then show ?thesis using run [of g] by simp
  next
    case (g_empty g)
    then show ?thesis using run [of g] by simp
  next
    case (g_batch g out)
    then show ?thesis using run [of g] by simp
  next
    case (g_sub g out q)
    then show ?thesis using run [of g] by simp
  next
    case (g_invoke g out)
    then show ?thesis using run [of g] by simp
  next
    case (g_gone g)
    then show ?thesis using run [of g] by simp
  qed (use l in \<open>auto simp: ib_wakes_def\<close>)
qed

subsection \<open>What the inbox guarantees\<close>

definition sent_in :: "'v ib_label list \<Rightarrow> 'v list" where
  "sent_in ls = concat (map sent_by ls)"

lemma ib_run_inv:
  "run ib_step s0 ls s \<Longrightarrow> s0 = NewInbox n t \<Longrightarrow> IStop \<notin> set ls \<Longrightarrow>
   ib_counts s \<and> ib_content s (sent_in ls) \<and> ib_wakes s"
proof (induction rule: run.induct)
  case (run_nil s)
  then show ?case
    by (simp add: NewInbox_def aq_init_def ib_counts_def ib_content_def ib_wakes_def sent_in_def)
next
  case (run_snoc s ls s1 l s2)
  then have i: "ib_counts s1" "ib_content s1 (sent_in ls)" "ib_wakes s1" "l \<noteq> IStop" by auto
  then show ?case
    using ib_counts_step [OF run_snoc.hyps(2)] ib_content_step [OF run_snoc.hyps(2)]
      ib_wakes_step [OF run_snoc.hyps(2)] by (simp add: sent_in_def)
qed

lemmas inbox_run_inv = ib_run_inv [OF _ refl]

lemmas ib_run_Cons = run_Cons [of ib_step]

text \<open>
  C11. Single consumer: as long as the inbox is not stopped, in every interleaving of any
  number of senders and starters at most one goroutine is inside \<open>run\<close> (the MPSC queue
  requires it, and the actor is never invoked concurrently), and there is one exactly while
  the status is \<open>running\<close>. What \<open>Invoke\<close> has received is a prefix of what was sent, in
  the order of sending.
\<close>

theorem inbox_single_consumer:
  assumes "run ib_step (NewInbox n t) ls s" "IStop \<notin> set ls"
  shows "tally active (gors s) = (if ib_status s = IRunning then 1 else 0) \<and> prefix (delivered s) (sent_in ls)"
  using inbox_run_inv [OF assms] by (auto simp: ib_counts_def ib_content_def)

lemma inbox_at_rest:
  assumes "run ib_step (NewInbox n t) ls s" "IStop \<notin> set ls" "ib_status s \<noteq> IStopped"
    "\<forall>x \<in> set (senders s). x = SIdle" "\<forall>x \<in> set (starters s). x = TIdle" "gors s = []"
  shows "delivered s = sent_in ls \<and> ib_Count s = 0"
proof -
  have i: "ib_counts s" "ib_content s (sent_in ls)" "ib_wakes s" using inbox_run_inv [OF assms(1,2)] by auto
  have "tally (\<lambda>t. t = TStarting) (starters s) = 0" "tally adding (senders s) = 0"
    using assms(4,5) by (auto simp: tally_zero)
  with i(1) assms(6) have st: "ib_status s \<noteq> IRunning" "ib_status s \<noteq> IStarting"
    and cnt: "ib_Count s = int (length (slots_of s))"
    by (auto simp: ib_counts_def ib_Count_def)
  have "ib_status s = IIdle" using st assms(3) by (cases "ib_status s") auto
  then have "slots_of s = []"
    using i(3) assms(4-6) by (auto simp: ib_wakes_def pending_wakeup_def)
  then show ?thesis using i(2) cnt assms(6) by (simp add: ib_content_def)
qed

text \<open>
  C5. No lost wake-up: when an inbox that was started and not stopped is at rest (no call of
  \<open>Send\<close> or \<open>Start\<close> in progress, no goroutine left), every message sent has been delivered,
  exactly once and in order, although \<open>Len\<close> may lag behind the queue.
\<close>

theorem inbox_no_lost_wakeup:
  assumes "run ib_step (NewInbox n t) ls s" "IStop \<notin> set ls" "ib_status s \<noteq> IStopped"
    "\<forall>x \<in> set (senders s). x = SIdle" "\<forall>x \<in> set (starters s). x = TIdle" "gors s = []"
  shows "delivered s = sent_in ls \<and> ib_Count s = 0"
  by (rule inbox_at_rest [OF assms])

text \<open>
  A restart loses the single consumer: \<open>Start\<close> after \<open>Stop\<close> while the old
  goroutine is still in \<open>run\<close> schedules a second one, since \<open>Stop\<close> does not wait: two goroutines then
  read the single-consumer queue and invoke the actor at the same time.
\<close>

theorem inbox_restart_two_consumers:
  "\<exists>ls s. run ib_step (NewInbox 0 1 :: nat inbox) ls s \<and> 1 < tally active (gors s)
     \<and> filter (\<lambda>l. l = IStop) ls = [IStop]"
proof -
  let ?s = "\<lambda>st t gs. \<lparr>ib_q = aq_init, ib_status = st, senders = [], starters = [t], gors = gs,
     delivered = []\<rparr> :: nat inbox"
  have 0: "NewInbox 0 1 = ?s IStopped TIdle []" by (simp add: NewInbox_def)
  have start: "ib_step (?s IStopped TIdle gs) ITau (?s IStarting TStarting gs)"
    "ib_step (?s IStarting TStarting gs) ITau (?s IIdle TSched gs)"
    "ib_step (?s IIdle TSched gs) ITau (?s IRunning TIdle (gs @ [GLoop]))" for gs
    using t_cas [of 0 "?s IStopped TIdle gs"] t_swap [of 0 "?s IStarting TStarting gs"]
      t_sched [of 0 "?s IIdle TSched gs"] by (simp_all add: ib_schedule_def)
  have go: "ib_step (?s IRunning TIdle ([] @ [GLoop])) ITau (?s IRunning TIdle [GPop []])"
    "ib_step (?s IRunning TIdle [GPop []]) IStop (?s IStopped TIdle [GPop []])"
    using g_loop [of 0 "?s IRunning TIdle [GLoop]"] stop [of "?s IRunning TIdle [GPop []]"] by simp_all
  have "run ib_step (NewInbox 0 1) [ITau, ITau, ITau, ITau, IStop, ITau, ITau, ITau]
      (?s IRunning TIdle ([GPop []] @ [GLoop]))"
    unfolding 0 by (rule start [THEN ib_run_Cons] go [THEN ib_run_Cons] run_nil)+
  then show ?thesis by (intro exI conjI, assumption) auto
qed

text \<open>
  A run for the witnesses: the inbox starts and finds nothing, a message is sent, the
  goroutine it schedules delivers it and the inbox comes to rest.
\<close>

lemma inbox_example_run:
  fixes v :: 'v
  shows "\<exists>ls s. run ib_step (NewInbox 1 1 :: 'v inbox) ls s \<and> IStop \<notin> set ls \<and> sent_in ls = [v]
     \<and> ib_status s = IIdle \<and> senders s = [SIdle] \<and> starters s = [TIdle] \<and> gors s = []"
proof -
  let ?s = "\<lambda>q n st x t gs d. \<lparr>ib_q = \<lparr>aq_slots = q, aq_cnt = n\<rparr>, ib_status = st, senders = [x],
     starters = [t], gors = gs, delivered = d\<rparr> :: 'v inbox"
  have 0: "NewInbox 1 1 = ?s [] 0 IStopped SIdle TIdle [] []" by (simp add: NewInbox_def aq_init_def)
  have start: "ib_step (?s [] 0 IStopped SIdle TIdle [] []) ITau (?s [] 0 IStarting SIdle TStarting [] [])"
    "ib_step (?s [] 0 IStarting SIdle TStarting [] []) ITau (?s [] 0 IIdle SIdle TSched [] [])"
    "ib_step (?s [] 0 IIdle SIdle TSched [] []) ITau (?s [] 0 IRunning SIdle TIdle [GLoop] [])"
    using t_cas [of 0 "?s [] 0 IStopped SIdle TIdle [] []"] t_swap [of 0 "?s [] 0 IStarting SIdle TStarting [] []"]
      t_sched [of 0 "?s [] 0 IIdle SIdle TSched [] []"] by (simp_all add: ib_schedule_def)
  have loop: "ib_step (?s q n IRunning SIdle TIdle [GLoop] d) ITau (?s q n IRunning SIdle TIdle [GPop []] d)" for q n d
    using g_loop [of 0 "?s q n IRunning SIdle TIdle [GLoop] d"] by simp
  have idle: "ib_step (?s [] 0 IRunning SIdle TIdle [GPop []] d) ITau (?s [] 0 IRunning SIdle TIdle [GExit] d)"
    "ib_step (?s [] 0 IRunning SIdle TIdle [GExit] d) ITau (?s [] 0 IIdle SIdle TIdle [GCheck] d)"
    "ib_step (?s [] 0 IIdle SIdle TIdle [GCheck] d) ITau (?s [] 0 IIdle SIdle TIdle [] d)" for d
    using g_empty [of 0 "?s [] 0 IRunning SIdle TIdle [GPop []] d"] g_cas [of 0 "?s [] 0 IRunning SIdle TIdle [GExit] d"]
      g_done [of 0 "?s [] 0 IIdle SIdle TIdle [GCheck] d"] by (simp_all add: ib_Count_def)
  have send: "ib_step (?s [] 0 IIdle SIdle TIdle [] []) (ISend 0 v) (?s [(v, Some 0)] 0 IIdle SSwapped TIdle [] [])"
    "ib_step (?s [(v, Some 0)] 0 IIdle SSwapped TIdle [] []) ITau (?s [(v, None)] 0 IIdle SLinked TIdle [] [])"
    "ib_step (?s [(v, None)] 0 IIdle SLinked TIdle [] []) ITau (?s [(v, None)] 1 IIdle SAdded TIdle [] [])"
    "ib_step (?s [(v, None)] 1 IIdle SAdded TIdle [] []) ITau (?s [(v, None)] 1 IRunning SIdle TIdle [GLoop] [])"
    using s_swap [of 0 "?s [] 0 IIdle SIdle TIdle [] []" v] s_link [of 0 "?s [(v, Some 0)] 0 IIdle SSwapped TIdle [] []"]
      s_add [of 0 "?s [(v, None)] 0 IIdle SLinked TIdle [] []"] s_sched [of 0 "?s [(v, None)] 1 IIdle SAdded TIdle [] []"]
    by (simp_all add: ib_schedule_def aq_iffs aq_publish_def)
  have drain: "ib_step (?s [(v, None)] 1 IRunning SIdle TIdle [GPop []] []) ITau (?s [] 1 IRunning SIdle TIdle [GPop [v]] [])"
    "ib_step (?s [] 1 IRunning SIdle TIdle [GPop [v]] []) ITau (?s [] 1 IRunning SIdle TIdle [GSub [v]] [])"
    "ib_step (?s [] 1 IRunning SIdle TIdle [GSub [v]] []) ITau (?s [] 0 IRunning SIdle TIdle [GInvoke [v]] [])"
    "ib_step (?s [] 0 IRunning SIdle TIdle [GInvoke [v]] []) (IDeliver [v]) (?s [] 0 IRunning SIdle TIdle [GLoop] [v])"
    using g_take [of 0 "?s [(v, None)] 1 IRunning SIdle TIdle [GPop []] []" "[]" v]
      g_batch [of 0 "?s [] 1 IRunning SIdle TIdle [GPop [v]] []" "[v]"]
      g_sub [of 0 "?s [] 1 IRunning SIdle TIdle [GSub [v]] []" "[v]"]
      g_invoke [of 0 "?s [] 0 IRunning SIdle TIdle [GInvoke [v]] []" "[v]"]
    by (simp_all add: aq_iffs messageBatchSize_def)
  have "run ib_step (NewInbox 1 1) [ITau, ITau, ITau, ITau, ITau, ITau, ITau, ISend 0 v,
      ITau, ITau, ITau, ITau, ITau, ITau, ITau, IDeliver [v], ITau, ITau, ITau, ITau]
      (?s [] 0 IIdle SIdle TIdle [] [v])"
    unfolding 0 by (rule start [THEN ib_run_Cons] loop [THEN ib_run_Cons] idle [THEN ib_run_Cons] send [THEN ib_run_Cons]
        drain [THEN ib_run_Cons] run_nil)+
  then show ?thesis by (intro exI conjI, assumption) (auto simp: sent_in_def sent_by_def)
qed

theorem inbox_single_consumer_witness:
  "\<exists>ls s. run ib_step (NewInbox 1 1 :: nat inbox) ls s \<and> sent_in ls = [5]
     \<and> tally active (gors s) = (if ib_status s = IRunning then 1 else 0) \<and> prefix (delivered s) (sent_in ls)"
proof -
  obtain ls s where r: "run ib_step (NewInbox 1 1 :: nat inbox) ls s" "IStop \<notin> set ls" "sent_in ls = [5]"
    using inbox_example_run [of "5::nat"] by blast
  from inbox_single_consumer [OF r(1,2)] r show ?thesis by blast
qed

theorem inbox_no_lost_wakeup_witness:
  "\<exists>ls s. run ib_step (NewInbox 1 1 :: nat inbox) ls s \<and> delivered s = [5] \<and> ib_Count s = 0"
proof -
  obtain ls s where r: "run ib_step (NewInbox 1 1 :: nat inbox) ls s" "IStop \<notin> set ls" "sent_in ls = [5]"
    "ib_status s = IIdle" "senders s = [SIdle]" "starters s = [TIdle]" "gors s = []"
    using inbox_example_run [of "5::nat"] by blast
  have "delivered s = sent_in ls \<and> ib_Count s = 0"
    using inbox_no_lost_wakeup [OF r(1,2)] r(4-7) by simp
  with r show ?thesis by auto
qed

end
