(* ===== verification/Remote.thy ===== *)
theory Remote
  imports Engine Inbox
begin

section \<open>Remote, stream router and the life of a stream writer (remote/remote.go, stream_router.go, stream_writer.go)\<close>

text \<open>
  A message for another node goes from \<open>Remote.Send\<close> to the stream router, an actor that keeps
  one stream writer per address and spawns it on demand. The writer dials when it is started;
  when it cannot reach the node or loses the connection it shuts down, tells the router and
  leaves the registry. The network is a parameter: which dial succeeds, whether the deadline
  could be set and whether the stream was opened. \<open>'m\<close> is the type of the payloads.
\<close>

datatype 'm netmsg = StreamDeliver (nm_sender: "pid option") (nm_target: pid) (nm_msg: 'm) | Payload 'm

record network =
  dial_ok :: "nat \<Rightarrow> bool"
  deadline_ok :: bool
  receive_ok :: bool

record writer =
  writeToAddr :: string
  routerPID :: "pid option"
  w_pid :: pid
  w_inbox :: proc_status
  w_rawconn :: bool
  w_stream :: bool

definition newStreamWriter :: "string \<Rightarrow> pid option \<Rightarrow> string \<Rightarrow> writer" where
  "newStreamWriter here rpid address = \<lparr>writeToAddr = address, routerPID = rpid,
     w_pid = NewPID here (''stream'' @ ''/'' @ address), w_inbox = IStopped, w_rawconn = False, w_stream = False\<rparr>"

text \<open>The dialling loop: the attempts with the pauses (in milliseconds) after the failed ones.\<close>

definition maxRetries :: nat where
  "maxRetries = 3"

function dial_loop :: "(nat \<Rightarrow> bool) \<Rightarrow> nat \<Rightarrow> bool \<times> int list" where
  "dial_loop ok i =
     (if i < maxRetries then
        if ok i then (True, [])
        else let (c, ds) = dial_loop ok (Suc i) in (c, 500 * int (i * 2) # ds)
      else (False, []))"
  by pat_completeness auto
termination
  by (relation "measure (\<lambda>(ok, i). maxRetries - i)") auto

declare dial_loop.simps [simp del]

definition writer_Shutdown :: "writer \<Rightarrow> 'm netmsg engine \<Rightarrow> writer \<times> 'm netmsg engine" where
  "writer_Shutdown w e =
     (let evt = RemoteUnreachableEvent (writeToAddr w);
          e1 = snd (eng_Send (routerPID w) evt e);
          e2 = snd (eng_Broadcast evt e1)
      in (w\<lparr>w_stream := False, w_inbox := IStopped\<rparr>,
          e2\<lparr>e_Registry := reg_Remove (w_pid w) (e_Registry e2)\<rparr>))"

text \<open>
  The end of \<open>Invoke\<close>, after \<open>stream.Send(env)\<close> (theory \<open>RemoteStream\<close>). On \<open>io.EOF\<close> the connection is
  closed, which wakes the goroutine of \<open>init\<close> that then shuts the writer down; another error is
  only logged. Otherwise the deadline of the connection is refreshed; an error of that is
  logged too. In neither case is the batch sent again.
\<close>

datatype stream_sent = SentOk | SentEOF | SentError

definition writer_sent :: "stream_sent \<Rightarrow> writer \<Rightarrow> 'm netmsg engine \<Rightarrow> writer \<times> 'm netmsg engine" where
  "writer_sent res w e = (case res of SentEOF \<Rightarrow> writer_Shutdown w e | SentError \<Rightarrow> (w, e) | SentOk \<Rightarrow> (w, e))"

definition writer_init :: "network \<Rightarrow> writer \<Rightarrow> 'm netmsg engine \<Rightarrow> writer \<times> 'm netmsg engine" where
  "writer_init nw w e =
     (if \<not> fst (dial_loop (dial_ok nw) 0) then writer_Shutdown w e
      else let w1 = w\<lparr>w_rawconn := True\<rparr> in
        if \<not> deadline_ok nw then (w1, e)
        else if \<not> receive_ok nw then writer_Shutdown w1 e
        else (w1\<lparr>w_stream := True\<rparr>, e))"

definition writer_Start :: "network \<Rightarrow> writer \<Rightarrow> 'm netmsg engine \<Rightarrow> writer \<times> 'm netmsg engine" where
  "writer_Start nw w e = writer_init nw (w\<lparr>w_inbox := IIdle\<rparr>) e"

subsection \<open>The router\<close>

record router =
  streams :: "string \<rightharpoonup> pid"
  r_pid :: "pid option"

definition newStreamRouter :: router where
  "newStreamRouter = \<lparr>streams = Map.empty, r_pid = None\<rparr>"

text \<open>
  \<open>SpawnProc(newStreamWriter(...))\<close>: the writer is started unless its id is taken. Its state
  after the start is returned with the engine.
\<close>

definition spawn_writer :: "network \<Rightarrow> writer \<Rightarrow> 'm netmsg engine \<Rightarrow> writer \<times> 'm netmsg engine" where
  "spawn_writer nw w e =
     (case SpawnProc (CustomObj (w_pid w) []) e of
        (_, _, e1) \<Rightarrow> if e_started e1 \<noteq> e_started e then writer_Start nw w e1 else (w, e1))"

definition deliverStream :: "network \<Rightarrow> 'm netmsg \<Rightarrow> pid \<Rightarrow> router \<Rightarrow> 'm netmsg engine \<Rightarrow> router \<times> 'm netmsg engine" where
  "deliverStream nw m tgt st e =
     (case streams st (Address tgt) of
        Some swpid \<Rightarrow> (st, snd (eng_Send (Some swpid) (User m) e))
      | None \<Rightarrow>
          let w = newStreamWriter (e_address e) (r_pid st) (Address tgt);
              (w', e1) = spawn_writer nw w e
          in (st\<lparr>streams := (streams st)(Address tgt \<mapsto> w_pid w)\<rparr>, snd (eng_Send (Some (w_pid w)) (User m) e1)))"

definition handleTerminateStream :: "string \<Rightarrow> router \<Rightarrow> router" where
  "handleTerminateStream addr st = st\<lparr>streams := (streams st)(addr := None)\<rparr>"

definition router_Receive :: "network \<Rightarrow> pid \<Rightarrow> 'm netmsg msg \<Rightarrow> router \<Rightarrow> 'm netmsg engine \<Rightarrow> router \<times> 'm netmsg engine" where
  "router_Receive nw self m st e =
     (case m of
        Started \<Rightarrow> (st\<lparr>r_pid := Some self\<rparr>, e)
      | User (StreamDeliver s t p) \<Rightarrow> deliverStream nw (StreamDeliver s t p) t st e
      | RemoteUnreachableEvent addr \<Rightarrow> (handleTerminateStream addr st, e)
      | _ \<Rightarrow> (st, e))"

subsection \<open>The remote\<close>

datatype remote_state = StateInvalid | StateInitialized | StateRunning | StateStopped

text \<open>The configuration; \<open>'t\<close> is a TLS configuration. \<open>BuffSize\<close> is passed on to the drpc package.\<close>

record 't remote_config =
  TLSConfig :: "'t option"
  BuffSize :: int

definition remote_NewConfig :: "'t remote_config" where
  "remote_NewConfig = \<lparr>TLSConfig = None, BuffSize = 0\<rparr>"

definition WithTLS :: "'t \<Rightarrow> 't remote_config \<Rightarrow> 't remote_config" where
  "WithTLS tlsconf c = c\<lparr>TLSConfig := Some tlsconf\<rparr>"

definition WithBufferSize :: "int \<Rightarrow> 't remote_config \<Rightarrow> 't remote_config" where
  "WithBufferSize n c = c\<lparr>BuffSize := n\<rparr>"

record 't remote =
  rm_addr :: string
  rm_config :: "'t remote_config"
  rm_state :: remote_state
  rm_stopCh :: bool
  rm_waiting :: bool
  rm_router :: "pid option"

definition remote_New :: "string \<Rightarrow> 't remote_config \<Rightarrow> 't remote" where
  "remote_New addr config = \<lparr>rm_addr = addr, rm_config = config, rm_state = StateInitialized, rm_stopCh = False,
     rm_waiting = False, rm_router = None\<rparr>"

text \<open>
  \<open>Start\<close>. The listeners of the net and tls packages (do they succeed at an address), the result
  of registering the stream reader with drpc and the random number of the router's id are
  arguments. It returns false for an error, the remote, and the engine, on which it spawns the
  router. \<open>rm_stopCh\<close> says that the channel was made, \<open>rm_waiting\<close> that the goroutine that
  receives from it is running.
\<close>

record 't listeners =
  net_Listen :: "string \<Rightarrow> bool"
  tls_Listen :: "string \<Rightarrow> 't \<Rightarrow> bool"
  drpc_Register :: bool

definition spawn_router :: "nat \<Rightarrow> 'm netmsg engine \<Rightarrow> pid \<times> send_out \<times> 'm netmsg engine" where
  "spawn_router random e = Spawn ''router'' [WithInboxSize (1024 * 1024)] random
     (DefaultOpts (\<lambda>u. (u, None)) (\<lambda>c u. (u, [], None)) :: (unit, 'm netmsg, unit) opts) e"

definition remote_Start :: "'t listeners \<Rightarrow> nat \<Rightarrow> 't remote \<Rightarrow> 'm netmsg engine \<Rightarrow> bool \<times> 't remote \<times> 'm netmsg engine" where
  "remote_Start ln random r e =
     (if rm_state r \<noteq> StateInitialized then (False, r, e)
      else let r1 = r\<lparr>rm_state := StateRunning\<rparr>;
               listening = (case TLSConfig (rm_config r1) of
                              None \<Rightarrow> net_Listen ln (rm_addr r1)
                            | Some tlsconf \<Rightarrow> tls_Listen ln (rm_addr r1) tlsconf)
        in if \<not> listening then (False, r1, e)
           else if \<not> drpc_Register ln then (False, r1, e)
           else case spawn_router random e of
                  (router, _, e1) \<Rightarrow> (True, r1\<lparr>rm_router := Some router, rm_stopCh := True, rm_waiting := True\<rparr>, e1))"

text \<open>\<open>Stop\<close>: sending on the nil channel, or with no receiver left, blocks for good.\<close>

datatype stop_out = AlreadyStopped | StopSent | StopBlocks

definition remote_Stop :: "'t remote \<Rightarrow> stop_out \<times> 't remote" where
  "remote_Stop r =
     (if rm_state r \<noteq> StateRunning then (AlreadyStopped, r)
      else let r1 = r\<lparr>rm_state := StateStopped\<rparr> in
        if rm_stopCh r1 \<and> rm_waiting r1 then (StopSent, r1\<lparr>rm_waiting := False\<rparr>) else (StopBlocks, r1))"

text \<open>\<open>Remote.Send\<close> hands the message to the router, whatever the state.\<close>

definition remote_Send :: "pid \<Rightarrow> 'm \<Rightarrow> pid option \<Rightarrow> 't remote \<Rightarrow> 'm netmsg engine \<Rightarrow> send_out \<times> 'm netmsg engine" where
  "remote_Send q m src r e = eng_Send (rm_router r) (User (StreamDeliver src q m)) e"

definition remote_Address :: "'t remote \<Rightarrow> string" where
  "remote_Address r = rm_addr r"

subsection \<open>Properties\<close>

lemma dial_loop_unfold: "dial_loop ok 0 = (ok 0 \<or> ok 1 \<or> ok 2,
    if ok 0 then [] else if ok 1 then [0] else if ok 2 then [0, 1000] else [0, 1000, 2000])"
proof -
  have m: "maxRetries = Suc (Suc (Suc 0))" by (simp add: maxRetries_def)
  show ?thesis
    using dial_loop.simps [of ok 0] dial_loop.simps [of ok "Suc 0"] dial_loop.simps [of ok "Suc (Suc 0)"]
      dial_loop.simps [of ok "Suc (Suc (Suc 0))"]
    by (simp add: m numeral_2_eq_2)
qed

lemma writer_Shutdown_gone:
  assumes "\<not> isResponse (w_pid w)"
  shows "reg_get (Some (w_pid w)) (e_Registry (snd (writer_Shutdown w e))) = None"
    "w_inbox (fst (writer_Shutdown w e)) = IStopped" "\<not> w_stream (fst (writer_Shutdown w e))"
  using assms by (auto simp: writer_Shutdown_def Let_def reg_Remove_def reg_get_def)

lemma stream_not_response: "\<not> isResponse (w_pid (newStreamWriter a r addr))"
  by (simp add: newStreamWriter_def isResponse_def responsePrefix_def)

text \<open>
  A lost connection ends the writer: it is no longer registered, its inbox is stopped and the
  router is told, so that the next message for that node opens a new stream.
\<close>

theorem writer_eof:
  assumes "w = newStreamWriter a r addr" "writer_sent SentEOF w e = (w', e')"
  shows "reg_get (Some (w_pid w)) (e_Registry e') = None \<and> w_inbox w' = IStopped \<and> \<not> w_stream w'
    \<and> e_Registry e' = reg_Remove (w_pid w) (e_Registry e)"
proof -
  have "same_shape e (snd (eng_Broadcast m (snd (eng_Send q m e))))" for q m
    using eng_Broadcast_shape [of "snd (eng_Send q m e)" m] sends_shape(1) [of e send_fuel q m None] by (simp add: same_shape_def eng_Send_def)
  then have "e_Registry e' = reg_Remove (w_pid w) (e_Registry e)" using assms(2) by (auto simp: writer_sent_def writer_Shutdown_def Let_def same_shape_def)
  then show ?thesis using writer_Shutdown_gone [OF stream_not_response, of a r addr e] assms by (simp add: writer_sent_def)
qed

theorem writer_eof_witness:
  "\<exists>w' (e :: nat netmsg engine) e'. writer_sent SentEOF (newStreamWriter ''a'' None ''b'') e = (w', e') \<and> w_inbox w' = IStopped"
proof -
  fix e :: "nat netmsg engine"
  obtain w' e' where s: "writer_sent SentEOF (newStreamWriter ''a'' None ''b'') e = (w', e')" by fastforce
  with writer_eof [OF refl s] show ?thesis by blast
qed

text \<open>
  Dialling. A stream writer tries three times, with pauses of 0, 1 and 2 seconds after the
  failures, and gives up only when all three attempts fail. It is then gone: its inbox is
  stopped and its PID is no longer registered. It is connected exactly when an attempt
  succeeded, the deadline was set and the stream opened.
\<close>

theorem writer_start:
  assumes "w = newStreamWriter a r addr" "writer_Start nw w e = (w', e')"
  shows "snd (dial_loop (dial_ok nw) 0) \<in> {[], [0], [0, 1000], [0, 1000, 2000]}
    \<and> (w_stream w' \<longleftrightarrow> (\<exists>i < 3. dial_ok nw i) \<and> deadline_ok nw \<and> receive_ok nw)
    \<and> ((\<forall>i < 3. \<not> dial_ok nw i) \<or> (deadline_ok nw \<and> \<not> receive_ok nw) \<longrightarrow>
        w_inbox w' = IStopped \<and> reg_get (Some (w_pid w)) (e_Registry e') = None)
    \<and> (w_stream w' \<longrightarrow> w_inbox w' = IIdle \<and> e' = e)"
proof -
  let ?w = "w\<lparr>w_inbox := IIdle\<rparr>"
  let ?v = "?w\<lparr>w_rawconn := True\<rparr>"
  have ex: "fst (dial_loop (dial_ok nw) 0) \<longleftrightarrow> (\<exists>i < 3. dial_ok nw i)"
    by (auto simp: dial_loop_unfold numeral_3_eq_3 less_Suc_eq numeral_2_eq_2)
  have pauses: "snd (dial_loop (dial_ok nw) 0) \<in> {[], [0], [0, 1000], [0, 1000, 2000]}" by (simp add: dial_loop_unfold)
  have g: "\<not> isResponse (w_pid ?w)" "\<not> isResponse (w_pid ?v)" using stream_not_response assms(1) by simp_all
  have w: "\<not> w_stream w" by (simp add: assms(1) newStreamWriter_def)
  consider (no) "\<not> (\<exists>i < 3. dial_ok nw i)" "(w', e') = writer_Shutdown ?w e"
    | (dead) "\<exists>i < 3. dial_ok nw i" "\<not> deadline_ok nw" "w' = ?v" "e' = e"
    | (shut) "\<exists>i < 3. dial_ok nw i" "deadline_ok nw" "\<not> receive_ok nw" "(w', e') = writer_Shutdown ?v e"
    | (up) "\<exists>i < 3. dial_ok nw i" "deadline_ok nw" "receive_ok nw" "w' = ?v\<lparr>w_stream := True\<rparr>" "e' = e"
    using assms(2) ex by (auto simp: writer_Start_def writer_init_def Let_def split: if_splits)
  then show ?thesis
  proof cases
    case no
    then show ?thesis using pauses writer_Shutdown_gone [OF g(1), of e] by (cases "writer_Shutdown ?w e") auto
  next
    case dead
    then show ?thesis using pauses w by auto
  next
    case shut
    then show ?thesis using pauses writer_Shutdown_gone [OF g(2), of e] by (cases "writer_Shutdown ?v e") auto
  next
    case up
    then show ?thesis using pauses by auto
  qed
qed

theorem writer_start_witness:
  "\<exists>w' e (e' :: nat netmsg engine). writer_Start \<lparr>dial_ok = (\<lambda>i. i = 1), deadline_ok = True, receive_ok = True\<rparr> (newStreamWriter ''a'' None ''b'') e = (w', e')
     \<and> w_stream w' \<and> e' = e"
proof -
  fix e :: "nat netmsg engine"
  let ?nw = "\<lparr>dial_ok = (\<lambda>i. i = 1), deadline_ok = True, receive_ok = True\<rparr>"
  obtain w' e' where s: "writer_Start ?nw (newStreamWriter ''a'' None ''b'') e = (w', e')" by fastforce
  have "\<exists>i < 3. dial_ok ?nw i" by (intro exI [of _ 1]) simp
  with writer_start [OF refl s] s show ?thesis by (intro exI [of _ w'] exI [of _ e] exI [of _ e']) simp
qed

text \<open>
  The remote's states. It starts once: a second \<open>Start\<close> is refused, \<open>Stop\<close> works once
  and later calls only warn. But \<open>Start\<close> marks the remote as running before it listens, so
  after a failed \<open>Start\<close> the remote can neither be started again nor stopped: \<open>Stop\<close> blocks
  on the nil channel.
\<close>

theorem remote_lifecycle:
  fixes e e1 e' :: "'m netmsg engine"
  assumes "r = remote_New addr config" "remote_Start ln random r e = (ok, r1, e1)"
  shows "rm_state r1 = StateRunning \<and> remote_Start ln' random' r1 e' = (False, r1, e')
    \<and> (ok \<longrightarrow> (\<exists>r2. remote_Stop r1 = (StopSent, r2) \<and> remote_Stop r2 = (AlreadyStopped, r2)
         \<and> remote_Start ln' random' r2 e' = (False, r2, e')))
    \<and> (\<not> ok \<longrightarrow> e1 = e \<and> fst (remote_Stop r1) = StopBlocks)
    \<and> (ok \<longleftrightarrow> drpc_Register ln \<and> (case TLSConfig config of None \<Rightarrow> net_Listen ln addr | Some t \<Rightarrow> tls_Listen ln addr t))"
  using assms(2) unfolding assms(1)
  by (auto simp: remote_New_def remote_Start_def remote_Stop_def Let_def split: if_splits option.splits prod.splits)

theorem remote_lifecycle_witness:
  "\<exists>(e :: nat netmsg engine) ok r1 e1. remote_Start \<lparr>net_Listen = (\<lambda>_. False), tls_Listen = (\<lambda>_ (_ :: nat). True), drpc_Register = True\<rparr> 5
       (remote_New ''a'' remote_NewConfig) e = (ok, r1, e1)
     \<and> rm_state r1 = StateRunning \<and> fst (remote_Stop r1) = StopBlocks"
proof -
  fix e :: "nat netmsg engine"
  let ?ln = "\<lparr>net_Listen = (\<lambda>_. False), tls_Listen = (\<lambda>_ (_ :: nat). True), drpc_Register = True\<rparr>"
  obtain ok r1 e1 where s: "remote_Start ?ln 5 (remote_New ''a'' remote_NewConfig) e = (ok, r1, e1)" by (metis prod_cases3)
  note o = remote_lifecycle [OF refl s, of ?ln 5 e]
  have "\<not> ok" using o by (simp add: remote_NewConfig_def)
  with o s show ?thesis by (intro exI [of _ e] exI [of _ ok] exI [of _ r1] exI [of _ e1]) simp
qed

text \<open>The engine relies on its remote to leave it as it needs it; the router's id is none of the event stream's.\<close>

definition remote_started :: "'t listeners \<Rightarrow> nat \<Rightarrow> 't remote \<Rightarrow> 'm netmsg engine \<Rightarrow> 'm netmsg engine option" where
  "remote_started ln random r e = (case remote_Start ln random r e of (ok, _, e1) \<Rightarrow> if ok then Some e1 else None)"

lemma spawn_router_proc: "spawn_router random e = SpawnProc (ProcObj (NewPID (e_address e) (''router/'' @ Itoa (int random))) []) e"
  by (simp add: spawn_router_def Spawn_def spawn_opts_def DefaultOpts_def WithInboxSize_def pidSeparator_def)

lemma remote_started_spawns:
  assumes "remote_started ln random r e = Some e'"
  shows "e' = snd (snd (spawn_router random e))"
  using assms by (auto simp: remote_started_def remote_Start_def Let_def split: prod.splits if_splits)

lemma SpawnProc_lookup:
  fixes e :: "'m engine"
  assumes "ID (obj_pid p) \<noteq> i"
  shows "reg_lookup (e_Registry (snd (snd (SpawnProc p e)))) i = reg_lookup (e_Registry e) i"
proof -
  have "e_Registry (snd (eng_Broadcast m e)) = e_Registry e" for m and e :: "'m engine"
    using eng_Broadcast_shape [of e m] by (simp add: same_shape_def)
  with assms show ?thesis
    by (simp add: SpawnProc_def alloc_def reg_add_def Let_def split: option.split)
qed

interpretation remote_start: startable "remote_started ln random r" for ln random r
proof unfold_locales
  fix e e' :: "'m netmsg engine" and x
  assume s: "remote_started ln random r e = Some e'"
  let ?p = "ProcObj (NewPID (e_address e) (''router/'' @ Itoa (int random))) [] :: 'm netmsg processer"
  have e': "e' = snd (snd (SpawnProc ?p e))" using remote_started_spawns [OF s] by (simp add: spawn_router_proc)
  show "eng_inv e \<Longrightarrow> eng_inv e'" unfolding e' by (rule SpawnProc_inv)
  have "eng_Broadcast m e1 = (SDone, e1)" if "e_eventStream e1 = None" for m and e1 :: "'m netmsg engine"
    using that by (simp add: eng_Broadcast_def send_fuel_def eval_nat_numeral)
  then show "e_eventStream e = None \<Longrightarrow> e_address e' = e_address e \<and> e_remote e' = e_remote e \<and> e_eventStream e' = None
      \<and> e_responseSeq e' = e_responseSeq e"
    by (simp add: e' SpawnProc_def alloc_def Let_def split: prod.split)
  show "reg_lookup (e_Registry e) (''eventstream/'' @ x) = None \<Longrightarrow> reg_lookup (e_Registry e') (''eventstream/'' @ x) = None"
    by (simp add: e' SpawnProc_lookup)
qed

text \<open>The engine after a stream writer was spawned under a free id, before it is started.\<close>

definition with_writer :: "pid \<Rightarrow> 'n engine \<Rightarrow> 'n engine" where
  "with_writer p e = e\<lparr>e_heap := (e_heap e)(e_size e := CustomObj p []), e_size := Suc (e_size e),
     e_Registry := (e_Registry e)\<lparr>reg_lookup := (reg_lookup (e_Registry e))(ID p \<mapsto> e_size e)\<rparr>,
     e_started := e_started e @ [e_size e]\<rparr>"

lemma with_writer_stream:
  assumes "eng_inv e" "stream_ok es h e" "reg_lookup (e_Registry e) (ID p) = None"
  shows "stream_ok es h (with_writer p e)" "ID es \<noteq> ID p"
  using assms by (auto simp: stream_ok_def with_writer_def eng_inv_def)

lemma spawn_writer_free:
  assumes "eng_inv e" "reg_lookup (e_Registry e) (ID (w_pid w)) = None"
  shows "spawn_writer nw w e = writer_Start nw w (with_writer (w_pid w) e)"
  using SpawnProc_free [OF assms(1), of "CustomObj (w_pid w) []"] assms(2) by (simp add: spawn_writer_def with_writer_def)

lemma router_opens:
  assumes "eng_inv e" "stream_ok es h e" "streams st (Address t) = None"
    "wp = NewPID (e_address e) (''stream/'' @ Address t)" "reg_lookup (e_Registry e) (ID wp) = None"
    "dial_ok nw 0" "deadline_ok nw" "receive_ok nw" "router_Receive nw self (User (StreamDeliver s t m)) st e = (st1, e1)"
  shows "st1 = st\<lparr>streams := (streams st)(Address t \<mapsto> wp)\<rparr>" "stream_ok es h e1" "reg_get (Some wp) (e_Registry e1) = Some (e_size e)"
    "Address wp = e_address e1" "e_heap e1 (e_size e) = CustomObj wp [(Some wp, User (StreamDeliver s t m), None)]"
    "e_started e1 = e_started e @ [e_size e]"
proof -
  let ?w = "newStreamWriter (e_address e) (r_pid st) (Address t)" and ?e0 = "with_writer wp e"
  have w: "w_pid ?w = wp" using assms(4) by (simp add: newStreamWriter_def)
  note s0 = with_writer_stream(1) [OF assms(1,2,5)]
  have sp: "snd (spawn_writer nw ?w e) = ?e0"
    using spawn_writer_free [OF assms(1), of ?w] assms(5-8) by (simp add: w writer_Start_def writer_init_def dial_loop_unfold Let_def)
  have r: "reg_get (Some wp) (e_Registry ?e0) = Some (e_size e)" "e_heap ?e0 (e_size e) = CustomObj wp []" "Address wp = e_address ?e0"
    by (simp_all add: with_writer_def reg_get_def assms(4))
  have e1: "e1 = snd (proc_send (e_size e) (Some wp) (User (StreamDeliver s t m)) None ?e0)"
    and st1: "st1 = st\<lparr>streams := (streams st)(Address t \<mapsto> wp)\<rparr>"
    using assms(3,9) sp SendWithSender_arrives [OF s0, of "Some wp" _ None] r
    by (auto simp: router_Receive_def deliverStream_def Let_def w eng_Send_def SendWithSender_def route_def arrive_def split: prod.splits)
  have sh: "same_shape ?e0 e1" unfolding e1 by (rule proc_send_shape)
  show "st1 = st\<lparr>streams := (streams st)(Address t \<mapsto> wp)\<rparr>" by (rule st1)
  show "stream_ok es h e1" by (rule same_shape_stream [OF sh s0])
  show "reg_get (Some wp) (e_Registry e1) = Some (e_size e)" "Address wp = e_address e1" using r sh by (simp_all add: same_shape_def)
  show "e_heap e1 (e_size e) = CustomObj wp [(Some wp, User (StreamDeliver s t m), None)]" using r(2) by (simp add: e1 proc_send_def)
  show "e_started e1 = e_started e @ [e_size e]" using sh by (simp add: same_shape_def with_writer_def)
qed

lemma router_sends:
  assumes "stream_ok es h e" "streams st (Address t) = Some wp" "reg_get (Some wp) (e_Registry e) = Some g" "Address wp = e_address e"
  shows "router_Receive nw self (User (StreamDeliver s t m)) st e = (st, snd (proc_send g (Some wp) (User (StreamDeliver s t m)) None e))"
  using assms SendWithSender_arrives [OF assms(1), of "Some wp" _ None]
  by (simp add: router_Receive_def deliverStream_def eng_Send_def SendWithSender_def route_def arrive_def)

text \<open>
  The router opens one stream per node. For a node without a stream it spawns the writer
  \<open>stream/<address>\<close> and, when the node can be reached, hands it the message; the next message
  for that node goes to the same writer, behind the first, and nothing is spawned.
\<close>

theorem router_one_stream:
  assumes "eng_inv e" "stream_ok es h e" "streams st (Address t) = None"
    "wp = NewPID (e_address e) (''stream/'' @ Address t)" "reg_lookup (e_Registry e) (ID wp) = None"
    "dial_ok nw 0" "deadline_ok nw" "receive_ok nw" "Address t' = Address t"
    "router_Receive nw self (User (StreamDeliver s t m)) st e = (st1, e1)"
    "router_Receive nw' self (User (StreamDeliver s' t' m')) st1 e1 = (st2, e2)"
  shows "streams st1 = (streams st)(Address t \<mapsto> wp) \<and> st2 = st1 \<and> reg_get (Some wp) (e_Registry e2) = Some (e_size e)
    \<and> e_heap e2 (e_size e) = CustomObj wp [(Some wp, User (StreamDeliver s t m), None), (Some wp, User (StreamDeliver s' t' m'), None)]
    \<and> e_started e2 = e_started e @ [e_size e]"
proof -
  note o = router_opens [OF assms(1-8,10)]
  have s: "streams st1 (Address t') = Some wp" using o(1) assms(9) by simp
  have 2: "st2 = st1" "e2 = snd (proc_send (e_size e) (Some wp) (User (StreamDeliver s' t' m')) None e1)"
    using router_sends [OF o(2) s o(3,4), of nw' self s' m'] assms(11) by auto
  have "same_shape e1 e2" unfolding 2 by (rule proc_send_shape)
  then have "e_Registry e2 = e_Registry e1" "e_started e2 = e_started e1" by (simp_all add: same_shape_def)
  then show ?thesis using 2 o by (simp add: proc_send_def)
qed

lemma stream_fresh:
  "reg_lookup \<lparr>reg_lookup = [ID (stream_pid ''local'' 5) \<mapsto> 0], responses = Map.empty\<rparr> (''stream/'' @ x) = None"
  by (simp add: stream_pid_id)

theorem router_one_stream_witness:
  "\<exists>(e :: nat netmsg engine) e1 e2 st1 st2 nw self. let d = (\<lambda>m. User (StreamDeliver None (NewPID ''b'' ''x'') m)); wp = NewPID ''local'' ''stream/b'' in
     router_Receive nw self (d 1) newStreamRouter e = (st1, e1) \<and> router_Receive nw self (d 2) st1 e1 = (st2, e2)
     \<and> e_heap e2 (e_size e) = CustomObj wp [(Some wp, d 1, None), (Some wp, d 2, None)]"
proof -
  obtain e :: "nat netmsg engine" where e: "eng_inv e" "stream_ok (stream_pid ''local'' 5) 0 e" "e_address e = ''local''"
    "e_Registry e = \<lparr>reg_lookup = [ID (stream_pid ''local'' 5) \<mapsto> 0], responses = Map.empty\<rparr>"
    using example_engine by blast
  let ?nw = "\<lparr>dial_ok = (\<lambda>_. True), deadline_ok = True, receive_ok = True\<rparr>" and ?t = "NewPID ''b'' ''x''" and ?self = "NewPID ''local'' ''router/1''"
  obtain st1 e1 where r1: "router_Receive ?nw ?self (User (StreamDeliver None ?t 1)) newStreamRouter e = (st1, e1)" by fastforce
  obtain st2 e2 where r2: "router_Receive ?nw ?self (User (StreamDeliver None ?t 2)) st1 e1 = (st2, e2)" by fastforce
  have n: "streams newStreamRouter (Address ?t) = None" by (simp add: newStreamRouter_def)
  have f: "reg_lookup (e_Registry e) (ID (NewPID (e_address e) (''stream/'' @ Address ?t))) = None"
    using stream_fresh [of "''b''"] by (simp add: e(4))
  have "dial_ok ?nw 0" "deadline_ok ?nw" "receive_ok ?nw" by simp_all
  note o = router_one_stream [OF e(1,2) n refl f this refl r1 r2]
  show ?thesis
    unfolding Let_def by (rule exI [of _ e], rule exI [of _ e1], rule exI [of _ e2], rule exI [of _ st1], rule exI [of _ st2], rule exI [of _ ?nw], rule exI [of _ ?self])
      (use o r1 r2 e(3) in simp)
qed

text \<open>
  An unreachable node. The writer that cannot connect is unregistered before the router
  sends it the message, so the message becomes a dead letter in the inbox of the event stream,
  after the \<open>RemoteUnreachableEvent\<close>. The router gets that event in its own inbox; it keeps
  the stale entry until it handles it, and then dials again for the next message.
\<close>

theorem router_unreachable:
  assumes "eng_inv e" "stream_ok es h e" "streams st (Address t) = None"
    "r_pid st = Some rp" "Address rp = e_address e" "reg_lookup (e_Registry e) (ID rp) = Some k" "k \<noteq> h" "e_heap e k = ProcObj rp rmb"
    "wp = NewPID (e_address e) (''stream/'' @ Address t)" "reg_lookup (e_Registry e) (ID wp) = None"
    "\<forall>i < 3. \<not> dial_ok nw i" "router_Receive nw self (User (StreamDeliver s t m)) st e = (st1, e1)"
  shows "(\<exists>p mb. e_heap e h = ProcObj p mb \<and> e_heap e1 h = ProcObj p (mb @
        [\<lparr>Msg = RemoteUnreachableEvent (Address t), Sender = None\<rparr>,
         \<lparr>Msg = DeadLetterEvent (Some wp) (User (StreamDeliver s t m)) None, Sender = None\<rparr>]))
    \<and> e_heap e1 k = ProcObj rp (rmb @ [\<lparr>Msg = RemoteUnreachableEvent (Address t), Sender = None\<rparr>])
    \<and> reg_get (Some wp) (e_Registry e1) = None \<and> streams st1 (Address t) = Some wp
    \<and> streams (fst (router_Receive nw self (RemoteUnreachableEvent (Address t)) st1 e1)) (Address t) = None"
proof -
  let ?w = "(newStreamWriter (e_address e) (r_pid st) (Address t))\<lparr>w_inbox := IIdle\<rparr>" and ?e0 = "with_writer wp e"
  let ?un = "RemoteUnreachableEvent (Address t)"
  obtain p mb where p: "e_heap e h = ProcObj p mb" using assms(2) by (auto simp: stream_ok_def)
  have hk: "h < e_size e" "k < e_size e" using assms(1,2,6) by (auto simp: eng_inv_def stream_ok_def)
  note s0 = with_writer_stream(1) [OF assms(1,2,10)] and ne = with_writer_stream(2) [OF assms(1,2,10)]
  have nr: "\<not> isResponse wp" by (simp add: assms(9) isResponse_def responsePrefix_def)
  define ea where "ea = snd (proc_send k (Some rp) ?un None ?e0)"
  define eb where "eb = snd (proc_send h (Some es) ?un None ea)"
  define ec where "ec = eb\<lparr>e_Registry := reg_Remove wp (e_Registry eb)\<rparr>"
  have sha: "same_shape ?e0 ea" "same_shape ea eb" unfolding eb_def ea_def by (rule proc_send_shape)+
  then have sa: "stream_ok es h ea" and sb: "stream_ok es h eb" using same_shape_stream s0 by blast+
  have sh: "e_address eb = e_address ?e0" using sha by (simp add: same_shape_def)
  have rp: "reg_get (Some rp) (e_Registry ?e0) = Some k" "Address rp = e_address ?e0"
    using assms(5,6,10) by (auto simp: with_writer_def reg_get_def)
  have sc: "stream_ok es h ec" using sb ne nr by (simp add: ec_def stream_ok_def reg_Remove_def)
  have gone: "reg_get (Some wp) (e_Registry ec) = None" using nr by (simp add: ec_def reg_Remove_def reg_get_def)
  have "\<not> fst (dial_loop (dial_ok nw) 0)" using assms(11) by (simp add: dial_loop_unfold)
  moreover have "snd (eng_Send (Some rp) ?un ?e0) = ea"
    using SendWithSender_arrives [OF s0, of "Some rp" ?un None] rp by (simp add: eng_Send_def SendWithSender_def route_def arrive_def ea_def)
  ultimately have sp: "snd (spawn_writer nw (newStreamWriter (e_address e) (r_pid st) (Address t)) e) = ec"
    using spawn_writer_free [OF assms(1), of "newStreamWriter (e_address e) (r_pid st) (Address t)"] assms(4,9,10) eng_Broadcast_arrives [OF sa]
    by (simp add: newStreamWriter_def writer_Start_def writer_init_def writer_Shutdown_def Let_def eb_def ec_def)
  have ad: "Address wp = e_address ec" using sh by (simp add: ec_def assms(9) with_writer_def)
  have wp: "w_pid (newStreamWriter (e_address e) (r_pid st) (Address t)) = wp" by (simp add: newStreamWriter_def assms(9))
  have r: "e1 = snd (proc_send h (Some es) (DeadLetterEvent (Some wp) (User (StreamDeliver s t m)) None) None ec)"
    "st1 = st\<lparr>streams := (streams st)(Address t \<mapsto> wp)\<rparr>"
    using assms(3,12) sp SendWithSender_arrives [OF sc, of "Some wp" _ None] gone ad
    by (auto simp: router_Receive_def deliverStream_def Let_def wp eng_Send_def SendWithSender_def route_def arrive_def split: prod.splits)
  have "e_heap ?e0 h = ProcObj p mb" "e_heap ?e0 k = ProcObj rp rmb" using p hk assms(8) by (simp_all add: with_writer_def)
  then have "e_heap e1 h = ProcObj p (mb @ [\<lparr>Msg = ?un, Sender = None\<rparr>,
      \<lparr>Msg = DeadLetterEvent (Some wp) (User (StreamDeliver s t m)) None, Sender = None\<rparr>])"
    "e_heap e1 k = ProcObj rp (rmb @ [\<lparr>Msg = ?un, Sender = None\<rparr>])"
    using assms(7) by (simp_all add: r(1) ec_def eb_def ea_def proc_send_def)
  moreover have "e_Registry e1 = e_Registry ec" using proc_send_shape [of ec] by (simp add: r(1) same_shape_def)
  ultimately show ?thesis using p gone r(2) by (simp add: router_Receive_def handleTerminateStream_def)
qed

theorem router_unreachable_witness:
  "\<exists>(e :: nat netmsg engine) e1 st st1 nw self. router_Receive nw self (User (StreamDeliver None (NewPID ''b'' ''x'') 1)) st e = (st1, e1)
     \<and> reg_get (Some (NewPID ''local'' ''stream/b'')) (e_Registry e1) = None \<and> streams st1 ''b'' = Some (NewPID ''local'' ''stream/b'')"
proof -
  obtain e0 :: "nat netmsg engine" where e0: "eng_inv e0" "stream_ok (stream_pid ''local'' 5) 0 e0" "e_address e0 = ''local''"
    "e_Registry e0 = \<lparr>reg_lookup = [ID (stream_pid ''local'' 5) \<mapsto> 0], responses = Map.empty\<rparr>"
    using example_engine by blast
  let ?self = "NewPID ''local'' ''router/1''"
  obtain q r e where sp: "SpawnProc (ProcObj ?self []) e0 = (q, r, e)" by (metis prod_cases3)
  have f0: "reg_lookup (e_Registry e0) (ID (obj_pid (ProcObj ?self []))) = None" by (simp add: e0(4) stream_pid_id)
  have pos: "0 < e_size e0" using e0(1,2) by (auto simp: eng_inv_def stream_ok_def)
  have e: "e = e0\<lparr>e_heap := (e_heap e0)(e_size e0 := ProcObj ?self []), e_size := Suc (e_size e0),
     e_Registry := (e_Registry e0)\<lparr>reg_lookup := (reg_lookup (e_Registry e0))(ID ?self \<mapsto> e_size e0)\<rparr>, e_started := e_started e0 @ [e_size e0]\<rparr>"
    using SpawnProc_free [OF e0(1) f0] sp by simp
  have i: "eng_inv e" "stream_ok (stream_pid ''local'' 5) 0 e" using SpawnProc_inv [OF e0(1), of "ProcObj ?self []"] sp e0(2) pos
    by (auto simp: stream_ok_def e e0(4) stream_pid_id)
  let ?nw = "\<lparr>dial_ok = (\<lambda>_. False), deadline_ok = True, receive_ok = True\<rparr>" and ?t = "NewPID ''b'' ''x''"
  let ?st = "newStreamRouter\<lparr>r_pid := Some ?self\<rparr>"
  obtain st1 e1 where r1: "router_Receive ?nw ?self (User (StreamDeliver None ?t 1)) ?st e = (st1, e1)" by fastforce
  have n: "streams ?st (Address ?t) = None" "r_pid ?st = Some ?self" by (simp_all add: newStreamRouter_def)
  have k: "Address ?self = e_address e" "reg_lookup (e_Registry e) (ID ?self) = Some (e_size e0)" "e_size e0 \<noteq> 0"
    "e_heap e (e_size e0) = ProcObj ?self []" using e0(3) pos by (simp_all add: e)
  have f: "reg_lookup (e_Registry e) (ID (NewPID (e_address e) (''stream/'' @ Address ?t))) = None"
    using stream_fresh [of "''b''"] by (simp add: e e0(4))
  have "\<forall>i < 3. \<not> dial_ok ?nw i" by simp
  note o = router_unreachable [OF i n k refl f this r1]
  show ?thesis
    by (rule exI [of _ e], rule exI [of _ e1], rule exI [of _ ?st], rule exI [of _ st1], rule exI [of _ ?nw], rule exI [of _ ?self])
      (use o r1 e0(3) in \<open>simp add: e\<close>)
qed

end
