(* ===== verification/RemoteStream.thy ===== *)
theory RemoteStream
  imports Pid "HOL-Library.Word"
begin

section \<open>The stream between two nodes (remote/stream_writer.go, stream_reader.go)\<close>

text \<open>
  A stream writer packs a batch of messages into one \<open>Envelope\<close>: the distinct type names,
  targets and senders in three tables and, per message, its bytes and three indices. The
  stream reader of the other node unpacks it and sends each message to its target. The tables
  are indexed through Go maps; a key is only inserted when it is absent, so a map is an
  association list whose length is \<open>len(m)\<close>. Indices are 32-bit.

  The serializer (the protobuf package) and the hash of \<open>LookupKey\<close> are parameters. \<open>'m\<close> is
  the type of a message and \<open>'b\<close> that of its bytes.
\<close>

record 'm deliver =
  sd_sender :: "pid option"
  sd_target :: "pid option"
  sd_msg :: 'm

record ('m, 'b) serializer =
  TypeName :: "'m \<Rightarrow> string option"
  Serialize :: "'m \<Rightarrow> 'b option"
  Deserialize :: "'b \<Rightarrow> string \<Rightarrow> 'm option"

text \<open>
  \<open>ProtoSerializer\<close> (serialize.go) over the functions of the protobuf package: which messages
  are \<open>proto.Message\<close>s, their names and bytes, the type registry and the decoder. \<open>None\<close> as a
  type name is the panic of the type assertion on any other message.
\<close>

definition ProtoSerializer :: "('m \<Rightarrow> bool) \<Rightarrow> ('m \<Rightarrow> string) \<Rightarrow> ('m \<Rightarrow> 'b option) \<Rightarrow> (string \<Rightarrow> 't option) \<Rightarrow>
    ('t \<Rightarrow> 'b \<Rightarrow> 'm option) \<Rightarrow> ('m, 'b) serializer" where
  "ProtoSerializer isproto messageName marshal findByName unmarshal =
     \<lparr>TypeName = (\<lambda>m. if isproto m then Some (messageName m) else None),
      Serialize = (\<lambda>m. marshal m),
      Deserialize = (\<lambda>b t. case findByName t of None \<Rightarrow> None | Some ty \<Rightarrow> unmarshal ty b)\<rparr>"

record 'b message =
  Data :: 'b
  TypeNameIndex :: "32 word"
  SenderIndex :: "32 word"
  TargetIndex :: "32 word"

record 'b wire_envelope =
  Senders :: "pid list"
  Targets :: "pid list"
  TypeNames :: "string list"
  WMessages :: "'b message option list"

text \<open>What arrives in the writer's inbox; anything but a \<open>*streamDeliver\<close> fails the type assertion.\<close>

datatype 'm winput = Deliver "'m deliver" | OtherInput

definition lookupPIDs :: "(string \<Rightarrow> 64 word) \<Rightarrow> (64 word \<times> 32 word) list \<Rightarrow> pid option \<Rightarrow> pid list \<Rightarrow>
    32 word \<times> (64 word \<times> 32 word) list \<times> pid list" where
  "lookupPIDs xxh3 m p ps =
     (case p of
        None \<Rightarrow> (0, m, ps)
      | Some q \<Rightarrow>
          let mx = of_nat (length m); key = LookupKey xxh3 q in
          case map_of m key of
            Some i \<Rightarrow> (i, m, ps)
          | None \<Rightarrow> (mx, (key, mx) # m, ps @ [q]))"

definition lookupTypeName :: "(string \<times> 32 word) list \<Rightarrow> string \<Rightarrow> string list \<Rightarrow>
    32 word \<times> (string \<times> 32 word) list \<times> string list" where
  "lookupTypeName m name types =
     (let mx = of_nat (length m) in
      case map_of m name of
        Some i \<Rightarrow> (i, m, types)
      | None \<Rightarrow> (mx, (name, mx) # m, types @ [name]))"

record packing =
  typeLookup :: "(string \<times> 32 word) list"
  typeNames :: "string list"
  senderLookup :: "(64 word \<times> 32 word) list"
  pk_senders :: "pid list"
  targetLookup :: "(64 word \<times> 32 word) list"
  pk_targets :: "pid list"

definition empty_packing :: packing where
  "empty_packing = \<lparr>typeLookup = [], typeNames = [], senderLookup = [], pk_senders = [], targetLookup = [], pk_targets = []\<rparr>"

lemma select_convs_empty [simp]: "pk_senders empty_packing = []"
  by (simp add: empty_packing_def)

text \<open>
  One iteration of the loop of \<open>Invoke\<close> for a message with the type name \<open>name\<close>; the packed
  message is nil when it cannot be serialized.
\<close>

definition pack_one :: "('m, 'b) serializer \<Rightarrow> (string \<Rightarrow> 64 word) \<Rightarrow> string \<Rightarrow> 'm deliver \<Rightarrow> packing \<Rightarrow> 'b message option \<times> packing" where
  "pack_one sz xxh3 name d k =
     (let (typeID, tl, tn) = lookupTypeName (typeLookup k) name (typeNames k);
          (senderID, sl, sn) = lookupPIDs xxh3 (senderLookup k) (sd_sender d) (pk_senders k);
          (targetID, gl, gt) = lookupPIDs xxh3 (targetLookup k) (sd_target d) (pk_targets k);
          k' = \<lparr>typeLookup = tl, typeNames = tn, senderLookup = sl, pk_senders = sn, targetLookup = gl, pk_targets = gt\<rparr>
      in case Serialize sz (sd_msg d) of
           None \<Rightarrow> (None, k')
         | Some b \<Rightarrow> (Some \<lparr>Data = b, TypeNameIndex = typeID, SenderIndex = senderID, TargetIndex = targetID\<rparr>, k'))"

fun pack :: "('m, 'b) serializer \<Rightarrow> (string \<Rightarrow> 64 word) \<Rightarrow> 'm winput list \<Rightarrow> packing \<Rightarrow> ('b message option list \<times> packing) res" where
  "pack sz xxh3 [] k = Inr ([], k)"
| "pack sz xxh3 (OtherInput # ms) k = Inl TypeAssertion"
| "pack sz xxh3 (Deliver d # ms) k =
     (case TypeName sz (sd_msg d) of
        None \<Rightarrow> Inl TypeAssertion
      | Some name \<Rightarrow>
          let (m, k') = pack_one sz xxh3 name d k in
          bindR (pack sz xxh3 ms k') (\<lambda>(xs, k''). Inr (m # xs, k'')))"

text \<open>
  \<open>Invoke\<close> up to \<open>stream.Send(env)\<close>: the envelope that is sent; what follows the call is \<open>writer_sent\<close>
  of theory \<open>Remote\<close>. \<open>connected\<close> says that \<open>init\<close>
  has set the stream; on a nil stream the call panics.
\<close>

definition writer_Invoke :: "('m, 'b) serializer \<Rightarrow> (string \<Rightarrow> 64 word) \<Rightarrow> bool \<Rightarrow> 'm winput list \<Rightarrow> 'b wire_envelope res" where
  "writer_Invoke sz xxh3 connected msgs =
     bindR (pack sz xxh3 msgs empty_packing) (\<lambda>(xs, k).
       if connected then Inr \<lparr>Senders = pk_senders k, Targets = pk_targets k, TypeNames = typeNames k, WMessages = xs\<rparr>
       else Inl NilDeref)"

text \<open>
  The wire: a nil element of a repeated message field is encoded as an empty message, so the
  reader gets the zero \<open>Message\<close> there. \<open>zero\<close> is the empty byte string.
\<close>

definition transmit :: "'b \<Rightarrow> 'b wire_envelope \<Rightarrow> 'b wire_envelope" where
  "transmit zero env = env\<lparr>WMessages := map (\<lambda>m. case m of
     None \<Rightarrow> Some \<lparr>Data = zero, TypeNameIndex = 0, SenderIndex = 0, TargetIndex = 0\<rparr> | Some x \<Rightarrow> Some x) (WMessages env)\<rparr>"

text \<open>Indexing a slice with an \<open>int32\<close>.\<close>

definition go_index :: "'x list \<Rightarrow> 32 word \<Rightarrow> 'x res" where
  "go_index xs i = (if sint i < 0 \<or> int (length xs) \<le> sint i then Inl IndexOutOfRange else Inr (xs ! nat (sint i)))"

text \<open>
  The body of the reader's loop for one envelope. It returns the calls of \<open>SendLocal\<close> (target,
  payload, sender) and how it ended: with the next \<open>Recv\<close>, by returning an error, which ends
  the stream, or in a panic.
\<close>

datatype read_end = Continue | DeserializeError | ReadPanic go_panic

type_synonym 'm sent_local = "pid \<times> 'm \<times> pid option"

definition read_one :: "('m, 'b) serializer \<Rightarrow> 'b wire_envelope \<Rightarrow> 'b message \<Rightarrow> ('m sent_local, read_end) sum" where
  "read_one sz env m =
     (case go_index (TypeNames env) (TypeNameIndex m) of
        Inl p \<Rightarrow> Inr (ReadPanic p)
      | Inr tname \<Rightarrow>
          (case Deserialize sz (Data m) tname of
             None \<Rightarrow> Inr DeserializeError
           | Some payload \<Rightarrow>
               (case go_index (Targets env) (TargetIndex m) of
                  Inl p \<Rightarrow> Inr (ReadPanic p)
                | Inr target \<Rightarrow>
                    (if Senders env \<noteq> [] then
                       (case go_index (Senders env) (SenderIndex m) of
                          Inl p \<Rightarrow> Inr (ReadPanic p)
                        | Inr s \<Rightarrow> Inl (target, payload, Some s))
                     else Inl (target, payload, None)))))"

fun read_messages :: "('m, 'b) serializer \<Rightarrow> 'b wire_envelope \<Rightarrow> 'b message option list \<Rightarrow> 'm sent_local list \<times> read_end" where
  "read_messages sz env [] = ([], Continue)"
| "read_messages sz env (None # ms) = ([], ReadPanic NilDeref)"
| "read_messages sz env (Some m # ms) =
     (case read_one sz env m of
        Inr r \<Rightarrow> ([], r)
      | Inl x \<Rightarrow> let (xs, r) = read_messages sz env ms in (x # xs, r))"

definition reader_Receive :: "('m, 'b) serializer \<Rightarrow> 'b wire_envelope \<Rightarrow> 'm sent_local list \<times> read_end" where
  "reader_Receive sz env = read_messages sz env (WMessages env)"

subsection \<open>Index tables\<close>

text \<open>Both lookups add a value to a table unless its key is there.\<close>

definition table_add :: "('x \<Rightarrow> 'k) \<Rightarrow> ('k \<times> 32 word) list \<Rightarrow> 'x \<Rightarrow> 'x list \<Rightarrow> 32 word \<times> ('k \<times> 32 word) list \<times> 'x list" where
  "table_add key m x xs =
     (case map_of m (key x) of
        Some i \<Rightarrow> (i, m, xs)
      | None \<Rightarrow> (of_nat (length m), (key x, of_nat (length m)) # m, xs @ [x]))"

lemma lookups_table_add:
  "lookupPIDs xxh3 m (Some q) ps = table_add (LookupKey xxh3) m q ps"
  "lookupTypeName tm name types = table_add id tm name types"
  by (simp_all add: lookupPIDs_def lookupTypeName_def table_add_def Let_def split: option.split)

definition table_ok :: "('x \<Rightarrow> 'k) \<Rightarrow> ('k \<times> 32 word) list \<Rightarrow> 'x list \<Rightarrow> bool" where
  "table_ok key m xs \<longleftrightarrow> length m = length xs \<and>
     (\<forall>k i. map_of m k = Some i \<longrightarrow> (\<exists>j < length xs. i = of_nat j \<and> key (xs ! j) = k))"

definition at_index :: "'x list \<Rightarrow> 32 word \<Rightarrow> 'x \<Rightarrow> bool" where
  "at_index xs i x \<longleftrightarrow> (\<exists>j < length xs. i = of_nat j \<and> xs ! j = x)"

lemma at_index_prefix: "at_index xs i x \<Longrightarrow> prefix xs ys \<Longrightarrow> at_index ys i x"
  by (auto simp: at_index_def prefix_def nth_append)

lemma go_index_at:
  assumes "at_index xs i x" "length xs < 2 ^ 31"
  shows "go_index xs i = Inr x"
proof -
  obtain j where j: "j < length xs" "i = of_nat j" "xs ! j = x" using assms(1) by (auto simp: at_index_def)
  have "sint (of_nat j :: 32 word) = int j"
    using j(1) assms(2) by (simp add: signed_of_nat signed_take_bit_int_eq_self)
  then show ?thesis using j by (simp add: go_index_def)
qed

lemma table_add_ok:
  assumes "table_ok key m xs" "inj_on key P" "set xs \<subseteq> P" "x \<in> P" "table_add key m x xs = (i, m', xs')"
  shows "table_ok key m' xs' \<and> prefix xs xs' \<and> at_index xs' i x \<and> set xs' \<subseteq> P \<and> length xs' \<le> Suc (length xs)
    \<and> (xs = [] \<longrightarrow> xs' = [x])"
proof (cases "map_of m (key x)")
  case (Some k)
  then obtain j where j: "j < length xs" "k = of_nat j" "key (xs ! j) = key x" using assms(1) by (auto simp: table_ok_def)
  have "xs ! j = x" using inj_onD [OF assms(2) j(3)] assms(3,4) nth_mem [OF j(1)] by blast
  then have "at_index xs k x" using j by (auto simp: at_index_def)
  moreover have "i = k" "m' = m" "xs' = xs" using assms(5) Some by (simp_all add: table_add_def)
  ultimately show ?thesis using assms(1,3) j(1) by auto
next
  case None
  then have e: "i = of_nat (length xs)" "m' = (key x, of_nat (length xs)) # m" "xs' = xs @ [x]"
    using assms(1,5) by (auto simp: table_add_def table_ok_def)
  have "\<exists>j < length xs'. l = of_nat j \<and> key (xs' ! j) = k" if ml: "map_of m' k = Some l" for k l
  proof (cases "k = key x")
    case True
    then show ?thesis using ml e by (intro exI [of _ "length xs"]) auto
  next
    case False
    then obtain j where "j < length xs" "l = of_nat j" "key (xs ! j) = k" using ml e(2) assms(1) by (auto simp: table_ok_def)
    then show ?thesis using e(3) by (intro exI [of _ j]) (simp add: nth_append)
  qed
  then have "table_ok key m' xs'" using assms(1) e by (simp add: table_ok_def)
  moreover have "at_index xs' i x" unfolding at_index_def e by (intro exI [of _ "length xs"]) simp
  ultimately show ?thesis using assms(3,4) by (simp add: e(3))
qed

subsection \<open>What the packing keeps\<close>

definition packing_ok :: "(string \<Rightarrow> 64 word) \<Rightarrow> pid set \<Rightarrow> packing \<Rightarrow> bool" where
  "packing_ok xxh3 P k \<longleftrightarrow> table_ok id (typeLookup k) (typeNames k) \<and>
     table_ok (LookupKey xxh3) (senderLookup k) (pk_senders k) \<and> set (pk_senders k) \<subseteq> P \<and>
     table_ok (LookupKey xxh3) (targetLookup k) (pk_targets k) \<and> set (pk_targets k) \<subseteq> P"

definition extends :: "packing \<Rightarrow> packing \<Rightarrow> nat \<Rightarrow> bool" where
  "extends k k' n \<longleftrightarrow> prefix (typeNames k) (typeNames k') \<and> prefix (pk_senders k) (pk_senders k') \<and> prefix (pk_targets k) (pk_targets k')
     \<and> length (typeNames k') \<le> length (typeNames k) + n \<and> length (pk_senders k') \<le> length (pk_senders k) + n
     \<and> length (pk_targets k') \<le> length (pk_targets k) + n"

text \<open>A packed message points to its type name, its target and, if it has one, its sender.\<close>

definition refers :: "('m, 'b) serializer \<Rightarrow> packing \<Rightarrow> 'm deliver \<Rightarrow> 'b message option \<Rightarrow> bool" where
  "refers sz k d x \<longleftrightarrow> (\<exists>m t nm. x = Some m \<and> Serialize sz (sd_msg d) = Some (Data m) \<and> sd_target d = Some t
     \<and> TypeName sz (sd_msg d) = Some nm \<and> at_index (typeNames k) (TypeNameIndex m) nm \<and> at_index (pk_targets k) (TargetIndex m) t
     \<and> (case sd_sender d of None \<Rightarrow> SenderIndex m = 0 | Some s \<Rightarrow> at_index (pk_senders k) (SenderIndex m) s))"

lemma extends_trans: "extends k k' n \<Longrightarrow> extends k' k'' n' \<Longrightarrow> extends k k'' (n + n')"
  by (auto simp: extends_def)

lemma refers_extends: "refers sz k d x \<Longrightarrow> extends k k' n \<Longrightarrow> refers sz k' d x"
  unfolding refers_def extends_def by (fastforce intro: at_index_prefix split: option.splits)

definition pids_of :: "'m deliver list \<Rightarrow> pid set" where
  "pids_of ds = set (List.map_filter sd_sender ds) \<union> set (List.map_filter sd_target ds)"

definition sendable :: "('m, 'b) serializer \<Rightarrow> 'm deliver \<Rightarrow> bool" where
  "sendable sz d \<longleftrightarrow> sd_target d \<noteq> None \<and>
     (\<exists>b nm. TypeName sz (sd_msg d) = Some nm \<and> Serialize sz (sd_msg d) = Some b \<and> Deserialize sz b nm = Some (sd_msg d))"

lemma pack_one_ok:
  assumes "packing_ok xxh3 P k" "inj_on (LookupKey xxh3) P" "pids_of [d] \<subseteq> P" "sendable sz d" "TypeName sz (sd_msg d) = Some nm"
    "pack_one sz xxh3 nm d k = (x, k')"
  shows "packing_ok xxh3 P k' \<and> extends k k' 1 \<and> refers sz k' d x
    \<and> (pk_senders k = [] \<longrightarrow> pk_senders k' = (case sd_sender d of None \<Rightarrow> [] | Some s \<Rightarrow> [s]))"
proof -
  obtain t b where t: "sd_target d = Some t" "Serialize sz (sd_msg d) = Some b" using assms(4) by (auto simp: sendable_def)
  obtain ti tl tn where ty: "table_add id (typeLookup k) nm (typeNames k) = (ti, tl, tn)" by (metis prod_cases3)
  obtain gi gl gt where tg: "table_add (LookupKey xxh3) (targetLookup k) t (pk_targets k) = (gi, gl, gt)" by (metis prod_cases3)
  obtain si sl sn where sn: "lookupPIDs xxh3 (senderLookup k) (sd_sender d) (pk_senders k) = (si, sl, sn)" by (metis prod_cases3)
  have P: "t \<in> P" "\<And>s. sd_sender d = Some s \<Longrightarrow> s \<in> P" using assms(3) t by (auto simp: pids_of_def List.map_filter_def)
  note ok = assms(1) [unfolded packing_ok_def]
  have 1: "table_ok id tl tn \<and> prefix (typeNames k) tn \<and> at_index tn ti nm \<and> length tn \<le> Suc (length (typeNames k))"
    using table_add_ok [of id "typeLookup k" "typeNames k" UNIV, OF _ _ _ _ ty] ok by simp
  have 2: "table_ok (LookupKey xxh3) gl gt \<and> prefix (pk_targets k) gt \<and> at_index gt gi t \<and> set gt \<subseteq> P \<and> length gt \<le> Suc (length (pk_targets k))"
    using table_add_ok [OF _ assms(2) _ P(1) tg] ok by simp
  have 3: "table_ok (LookupKey xxh3) sl sn \<and> prefix (pk_senders k) sn \<and> set sn \<subseteq> P \<and> length sn \<le> Suc (length (pk_senders k))
     \<and> (case sd_sender d of None \<Rightarrow> si = 0 | Some s \<Rightarrow> at_index sn si s)
     \<and> (pk_senders k = [] \<longrightarrow> sn = (case sd_sender d of None \<Rightarrow> [] | Some s \<Rightarrow> [s]))"
  proof (cases "sd_sender d")
    case None
    then show ?thesis using sn ok by (auto simp: lookupPIDs_def)
  next
    case (Some s)
    have "table_add (LookupKey xxh3) (senderLookup k) s (pk_senders k) = (si, sl, sn)" using Some sn by (simp add: lookups_table_add)
    from table_add_ok [OF _ assms(2) _ P(2) [OF Some] this] show ?thesis using Some ok by simp
  qed
  have e: "x = Some \<lparr>Data = b, TypeNameIndex = ti, SenderIndex = si, TargetIndex = gi\<rparr>"
    "k' = \<lparr>typeLookup = tl, typeNames = tn, senderLookup = sl, pk_senders = sn, targetLookup = gl, pk_targets = gt\<rparr>"
    using assms(6) t ty tg sn by (simp_all add: pack_one_def lookups_table_add)
  show ?thesis unfolding e packing_ok_def extends_def refers_def using 1 2 3 t assms(5) by (auto split: option.splits)
qed

text \<open>Who a message without a sender is attributed to: the first sender of the batch.\<close>

definition first_sender :: "'m deliver list \<Rightarrow> pid option" where
  "first_sender ds = (case List.map_filter sd_sender ds of [] \<Rightarrow> None | s # _ \<Rightarrow> Some s)"

lemma pack_ok:
  assumes "packing_ok xxh3 P k" "inj_on (LookupKey xxh3) P" "pids_of ds \<subseteq> P" "\<forall>d \<in> set ds. sendable sz d"
  shows "\<exists>xs k'. pack sz xxh3 (map Deliver ds) k = Inr (xs, k') \<and> extends k k' (length ds) \<and> list_all2 (refers sz k') ds xs
    \<and> (pk_senders k = [] \<longrightarrow> (case first_sender ds of None \<Rightarrow> pk_senders k' = [] | Some s \<Rightarrow> \<exists>ss. pk_senders k' = s # ss))"
  using assms(1,3,4)
proof (induction ds arbitrary: k)
  case Nil
  then show ?case by (simp add: extends_def first_sender_def List.map_filter_def)
next
  case (Cons d ds)
  obtain nm where nm: "TypeName sz (sd_msg d) = Some nm" using Cons.prems(3) by (auto simp: sendable_def)
  obtain x k1 where p: "pack_one sz xxh3 nm d k = (x, k1)" by fastforce
  have sub: "pids_of [d] \<subseteq> P" "pids_of ds \<subseteq> P" using Cons.prems(2) by (auto simp: pids_of_def List.map_filter_simps split: option.splits)
  have 1: "packing_ok xxh3 P k1" "extends k k1 1" "refers sz k1 d x"
    "pk_senders k = [] \<Longrightarrow> pk_senders k1 = (case sd_sender d of None \<Rightarrow> [] | Some s \<Rightarrow> [s])"
    using pack_one_ok [OF Cons.prems(1) assms(2) sub(1) _ nm p] Cons.prems(3) by auto
  obtain xs k' where 2: "pack sz xxh3 (map Deliver ds) k1 = Inr (xs, k')" "extends k1 k' (length ds)" "list_all2 (refers sz k') ds xs"
    "pk_senders k1 = [] \<longrightarrow> (case first_sender ds of None \<Rightarrow> pk_senders k' = [] | Some s \<Rightarrow> \<exists>ss. pk_senders k' = s # ss)"
    using Cons.IH [OF 1(1) sub(2)] Cons.prems(3) by auto
  have "case first_sender (d # ds) of None \<Rightarrow> pk_senders k' = [] | Some s \<Rightarrow> \<exists>ss. pk_senders k' = s # ss" if "pk_senders k = []"
    using 1(4) [OF that] 2(2,4) by (cases "sd_sender d") (auto simp: first_sender_def List.map_filter_simps extends_def prefix_def)
  then show ?case
    using p nm 2 refers_extends [OF 1(3) 2(2)] extends_trans [OF 1(2) 2(2)] by (simp add: bindR_def)
qed

subsection \<open>From the writer to the reader\<close>

definition attributed :: "'m deliver list \<Rightarrow> 'm deliver \<Rightarrow> pid option" where
  "attributed ds d = (case sd_sender d of Some s \<Rightarrow> Some s | None \<Rightarrow> first_sender ds)"

lemma read_one_refers:
  assumes "refers sz k d (Some m)" "sendable sz d" "length (typeNames k) < 2 ^ 31" "length (pk_senders k) < 2 ^ 31" "length (pk_targets k) < 2 ^ 31"
    "Senders env = pk_senders k" "Targets env = pk_targets k" "TypeNames env = typeNames k"
    "case sn of None \<Rightarrow> pk_senders k = [] | Some s \<Rightarrow> \<exists>ss. pk_senders k = s # ss"
  shows "read_one sz env m = Inl (the (sd_target d), sd_msg d, case sd_sender d of Some s \<Rightarrow> Some s | None \<Rightarrow> sn)"
proof -
  obtain t nm where r: "Serialize sz (sd_msg d) = Some (Data m)" "sd_target d = Some t"
    "go_index (typeNames k) (TypeNameIndex m) = Inr nm" "go_index (pk_targets k) (TargetIndex m) = Inr t"
    "case sd_sender d of None \<Rightarrow> SenderIndex m = 0 | Some s \<Rightarrow> at_index (pk_senders k) (SenderIndex m) s"
    and nm: "TypeName sz (sd_msg d) = Some nm"
    using assms(1,3,5) by (auto simp: refers_def go_index_at)
  have d: "Deserialize sz (Data m) nm = Some (sd_msg d)" using assms(2) r(1) nm by (auto simp: sendable_def)
  show ?thesis
  proof (cases "sd_sender d")
    case (Some s)
    then have "pk_senders k \<noteq> []" "go_index (pk_senders k) (SenderIndex m) = Inr s"
      using r(5) assms(4) by (auto simp: at_index_def go_index_at)
    then show ?thesis using r d Some assms(6-8) by (simp add: read_one_def)
  next
    case None
    have "go_index (s # ss) (0 :: 32 word) = Inr s" for s and ss :: "pid list" by (simp add: go_index_def)
    then show ?thesis using r d None assms(6-9) by (cases sn) (auto simp: read_one_def)
  qed
qed

lemma read_messages_refers:
  assumes "list_all2 (refers sz k) ds xs" "\<forall>d \<in> set ds. sendable sz d"
    "\<And>d m. d \<in> set ds \<Longrightarrow> refers sz k d (Some m) \<Longrightarrow> read_one sz env m = Inl (f d)"
  shows "read_messages sz env xs = (map f ds, Continue)"
  using assms
proof (induction rule: list_all2_induct)
  case (Cons d ds x xs)
  then obtain m where "x = Some m" by (auto simp: refers_def)
  moreover have "read_one sz env m = Inl (f d)" using Cons.prems(2) [of d m] Cons.hyps(1) \<open>x = Some m\<close> by simp
  moreover have "read_messages sz env xs = (map f ds, Continue)" using Cons.IH Cons.prems by simp
  ultimately show ?case by simp
qed simp

lemma transmit_packed: "list_all2 (refers sz k) ds (WMessages env) \<Longrightarrow> transmit zero env = env"
proof -
  assume "list_all2 (refers sz k) ds (WMessages env)"
  then have "\<forall>x \<in> set (WMessages env). x \<noteq> None" by (auto simp: list_all2_conv_all_nth in_set_conv_nth refers_def) metis
  then have "map (\<lambda>m. case m of None \<Rightarrow> Some z | Some x \<Rightarrow> Some x) (WMessages env) = WMessages env" for z
    by (intro map_idI) (auto split: option.split)
  then show ?thesis by (simp add: transmit_def)
qed

lemma stream_delivers:
  assumes "length ds < 2 ^ 31" "inj_on (LookupKey xxh3) (pids_of ds)" "\<forall>d \<in> set ds. sendable sz d"
  shows "\<exists>env. writer_Invoke sz xxh3 True (map Deliver ds) = Inr env \<and>
    reader_Receive sz (transmit zero env) = (map (\<lambda>d. (the (sd_target d), sd_msg d, attributed ds d)) ds, Continue)"
proof -
  have "packing_ok xxh3 (pids_of ds) empty_packing" by (simp add: packing_ok_def empty_packing_def table_ok_def)
  then obtain xs k where k: "pack sz xxh3 (map Deliver ds) empty_packing = Inr (xs, k)" "extends empty_packing k (length ds)"
    "list_all2 (refers sz k) ds xs" "case first_sender ds of None \<Rightarrow> pk_senders k = [] | Some s \<Rightarrow> \<exists>ss. pk_senders k = s # ss"
    using pack_ok [OF _ assms(2) subset_refl assms(3), of empty_packing] by (metis select_convs_empty)
  let ?env = "\<lparr>Senders = pk_senders k, Targets = pk_targets k, TypeNames = typeNames k, WMessages = xs\<rparr>"
  have len: "length (typeNames k) < 2 ^ 31" "length (pk_senders k) < 2 ^ 31" "length (pk_targets k) < 2 ^ 31"
    using k(2) assms(1) by (auto simp: extends_def empty_packing_def)
  have "transmit zero ?env = ?env" using transmit_packed [of sz k ds ?env] k(3) by simp
  moreover have "read_messages sz ?env xs = (map (\<lambda>d. (the (sd_target d), sd_msg d, attributed ds d)) ds, Continue)"
  proof (rule read_messages_refers [OF k(3) assms(3)])
    fix d m assume "d \<in> set ds" "refers sz k d (Some m)"
    then show "read_one sz ?env m = Inl (the (sd_target d), sd_msg d, attributed ds d)"
      using read_one_refers [OF _ _ len _ _ _ k(4), of sz d m ?env] assms(3) by (simp add: attributed_def)
  qed
  moreover have "writer_Invoke sz xxh3 True (map Deliver ds) = Inr ?env" using k(1) by (simp add: writer_Invoke_def bindR_def)
  ultimately show ?thesis by (simp add: reader_Receive_def)
qed


text \<open>A serializer for the examples: one type, bytes as strings.\<close>

definition text_serializer :: "(string, string) serializer" where
  "text_serializer = \<lparr>TypeName = (\<lambda>m. if m = ''!'' then None else Some ''text''), Serialize = (\<lambda>m. if m = ''?'' then None else Some m),
     Deserialize = (\<lambda>b t. if t = ''text'' then Some b else None)\<rparr>"

definition letter :: "pid option \<Rightarrow> string \<Rightarrow> string \<Rightarrow> string deliver" where
  "letter s t m = \<lparr>sd_sender = s, sd_target = Some (NewPID ''b'' t), sd_msg = m\<rparr>"


lemmas stream_eval = writer_Invoke_def pack_one_def lookupTypeName_def lookupPIDs_def empty_packing_def transmit_def
  reader_Receive_def read_one_def go_index_def letter_def text_serializer_def LookupKey_def bindR_def

text \<open>
  Where the hypotheses matter. A message without a sender that shares a batch with one that
  has a sender arrives with that sender. A message that cannot be serialized is not dropped:
  it arrives as an empty message of the batch's first type at the batch's first target. Two
  senders whose address and id run together are confused, whatever the hash. And a message
  that is not a protobuf message panics in the writer, which does not recover.
\<close>

theorem stream_confusions:
  "(\<exists>env. writer_Invoke text_serializer xxh3 True (map Deliver [letter (Some (NewPID ''a'' ''1'')) ''x'' ''one'', letter None ''x'' ''two'']) = Inr env
      \<and> fst (reader_Receive text_serializer (transmit [] env)) =
        [(NewPID ''b'' ''x'', ''one'', Some (NewPID ''a'' ''1'')), (NewPID ''b'' ''x'', ''two'', Some (NewPID ''a'' ''1''))])
   \<and> (\<exists>env. writer_Invoke text_serializer xxh3 True (map Deliver [letter None ''x'' ''one'', letter None ''x'' ''?'']) = Inr env
      \<and> fst (reader_Receive text_serializer (transmit [] env)) = [(NewPID ''b'' ''x'', ''one'', None), (NewPID ''b'' ''x'', [], None)])
   \<and> (\<exists>env. writer_Invoke text_serializer xxh3 True
        (map Deliver [letter (Some (NewPID ''a'' ''bc'')) ''x'' ''one'', letter (Some (NewPID ''ab'' ''c'')) ''x'' ''two'']) = Inr env
      \<and> fst (reader_Receive text_serializer (transmit [] env)) =
        [(NewPID ''b'' ''x'', ''one'', Some (NewPID ''a'' ''bc'')), (NewPID ''b'' ''x'', ''two'', Some (NewPID ''a'' ''bc''))])
   \<and> writer_Invoke text_serializer xxh3 True (map Deliver [letter None ''x'' ''one'', letter None ''x'' ''!'']) = Inl TypeAssertion"
  by (simp add: stream_eval)

end
