(* ===== verification/Varint.thy ===== *)
theory Varint
  imports Prelude "HOL-Library.Word"
begin

unbundle bit_operations_syntax

section \<open>Bytes, buffers and varints (actor/actor_vtproto.pb.go, remote/remote_vtproto.pb.go)\<close>

text \<open>
  The primitives of the protobuf wire format in the marshalling code of the PID and of the
  envelope, which each package has a copy of. A message is written from the end of a buffer of
  exactly its size towards the front; the index \<open>i\<close> goes down. It is read from the front. Every
  access of the buffer is checked, as in Go.
\<close>

type_synonym byte = "8 word"

type_synonym wstate = "byte list \<times> int"

subsection \<open>Writing\<close>

text \<open>\<open>bits.Len64\<close> and \<open>sov\<close>, the number of bytes of a varint.\<close>

fun bit_len :: "nat \<Rightarrow> nat" where
  "bit_len n = (if n = 0 then 0 else Suc (bit_len (n div 2)))"

declare bit_len.simps [simp del]

definition sov :: "64 word \<Rightarrow> int" where
  "sov x = (int (bit_len (unat (x OR 1))) + 6) div 7"

text \<open>\<open>dAtA[i] = b\<close> and \<open>copy(dAtA[i:], src)\<close> at an \<open>int\<close> index.\<close>

definition buf_set :: "byte list \<Rightarrow> int \<Rightarrow> byte \<Rightarrow> byte list res" where
  "buf_set d i b = (if i < 0 then Inl IndexOutOfRange else go_set d (nat i) b)"

definition buf_copy :: "byte list \<Rightarrow> int \<Rightarrow> byte list \<Rightarrow> byte list res" where
  "buf_copy d i src =
     (if i < 0 \<or> int (length d) < i then Inl SliceBounds
      else let n = min (length src) (length d - nat i) in Inr (take (nat i) d @ take n src @ drop (nat i + n) d))"

lemma drop7_less: "128 \<le> (v :: 64 word) \<Longrightarrow> unat (drop_bit 7 v) < unat v"
  using unat_drop_bit_eq [of 7 v] by (simp add: drop_bit_eq_div [where 'a = nat] word_le_nat_alt)

text \<open>The loop of \<open>encodeVarint\<close>, and \<open>encodeVarint\<close>, which returns the offset of the first byte.\<close>

function varint_loop :: "byte list \<Rightarrow> int \<Rightarrow> 64 word \<Rightarrow> byte list res" where
  "varint_loop d offset v =
     (if 128 \<le> v
      then bindR (buf_set d offset (ucast (v AND 127 OR 128))) (\<lambda>d'. varint_loop d' (offset + 1) (drop_bit 7 v))
      else buf_set d offset (ucast v))"
  by pat_completeness auto
termination by (relation "measure (\<lambda>(d, offset, v). unat v)") (simp_all add: drop7_less)

declare varint_loop.simps [simp del]

definition encodeVarint :: "byte list \<Rightarrow> int \<Rightarrow> 64 word \<Rightarrow> wstate res" where
  "encodeVarint d offset v = bindR (varint_loop d (offset - sov v) v) (\<lambda>d'. Inr (d', offset - sov v))"

subsection \<open>Reading\<close>

text \<open>
  What a reader returns: a value, one of the errors of the package, or a panic. \<open>Diverge\<close> says that
  the fuel of a loop was used up.
\<close>

datatype vt_error = ErrIntOverflow | ErrUnexpectedEOF | ErrInvalidLength | ErrUnexpectedEndOfGroup | ErrProto

datatype 'a dec = Ok 'a | Err vt_error | Crash go_panic | Diverge

definition bindD :: "'a dec \<Rightarrow> ('a \<Rightarrow> 'b dec) \<Rightarrow> 'b dec" where
  "bindD r f = (case r of Ok x \<Rightarrow> f x | Err e \<Rightarrow> Err e | Crash p \<Rightarrow> Crash p | Diverge \<Rightarrow> Diverge)"

lemma bindD_simps [simp]: "bindD (Ok x) f = f x" "bindD (Err e) f = Err e" "bindD (Crash p) f = Crash p" "bindD Diverge f = Diverge"
  by (simp_all add: bindD_def)

lemma bindD_eq_Ok: "bindD r f = Ok y \<longleftrightarrow> (\<exists>x. r = Ok x \<and> f x = Ok y)"
  by (cases r) simp_all

text \<open>
  The loop that reads a varint into a word of any width (\<open>uint64\<close>, \<open>int\<close>, \<open>int32\<close>): seven bits per
  byte, shifted by \<open>shift\<close>, which must stay below 64.
\<close>

function read_varint :: "byte list \<Rightarrow> nat \<Rightarrow> nat \<Rightarrow> 'w::len word \<Rightarrow> ('w word \<times> nat) dec" where
  "read_varint d shift i acc =
     (if 64 \<le> shift then Err ErrIntOverflow
      else if length d \<le> i then Err ErrUnexpectedEOF
      else let b = d ! i; acc' = acc OR push_bit shift (ucast (b AND 127)) in
        if b < 128 then Ok (acc', Suc i) else read_varint d (shift + 7) (Suc i) acc')"
  by pat_completeness auto
termination by (relation "measure (\<lambda>(d, shift, i, acc). 64 - shift)") auto

declare read_varint.simps [simp del]

text \<open>Go's \<open>int\<close> sum: it wraps at 64 bits.\<close>

definition add_int :: "int \<Rightarrow> int \<Rightarrow> int" where
  "add_int a b = signed_take_bit 63 (a + b)"

text \<open>
  The length prefix of a field: \<open>int(stringLen)\<close>, the checks, and the bytes \<open>dAtA[iNdEx:postIndex]\<close>
  with the new index.
\<close>

definition go_slice :: "byte list \<Rightarrow> nat \<Rightarrow> int \<Rightarrow> byte list dec" where
  "go_slice d i j = (if j < int i \<or> int (length d) < j then Crash SliceBounds else Ok (take (nat j - i) (drop i d)))"

definition read_bytes :: "byte list \<Rightarrow> nat \<Rightarrow> (byte list \<times> nat) dec" where
  "read_bytes d i =
     bindD (read_varint d 0 i (0 :: 64 word)) (\<lambda>(len, i1).
       if sint len < 0 then Err ErrInvalidLength
       else let post = add_int (int i1) (sint len) in
         if post < 0 then Err ErrInvalidLength
         else if int (length d) < post then Err ErrUnexpectedEOF
         else bindD (go_slice d i1 post) (\<lambda>bs. Ok (bs, nat post)))"

text \<open>\<open>skip\<close>: the length of an unknown field, groups included.\<close>

function skip_varint :: "byte list \<Rightarrow> nat \<Rightarrow> nat \<Rightarrow> nat dec" where
  "skip_varint d shift i =
     (if 64 \<le> shift then Err ErrIntOverflow
      else if length d \<le> i then Err ErrUnexpectedEOF
      else if d ! i < 128 then Ok (Suc i) else skip_varint d (shift + 7) (Suc i))"
  by pat_completeness auto
termination by (relation "measure (\<lambda>(d, shift, i). 64 - shift)") auto

declare skip_varint.simps [simp del]

text \<open>One record of \<open>skip\<close>: the index behind it, before the test for a negative index, and the depth.\<close>

definition skip_one :: "byte list \<Rightarrow> nat \<Rightarrow> nat \<Rightarrow> (int \<times> nat) dec" where
  "skip_one d i depth =
     bindD (read_varint d 0 i (0 :: 64 word)) (\<lambda>(wire, i1).
       let wireType = unat (wire AND 7) in
       if wireType = 0 then bindD (skip_varint d 0 i1) (\<lambda>i2. Ok (int i2, depth))
       else if wireType = 1 then Ok (add_int (int i1) 8, depth)
       else if wireType = 2 then
         bindD (read_varint d 0 i1 (0 :: 64 word)) (\<lambda>(len, i2).
           if sint len < 0 then Err ErrInvalidLength else Ok (add_int (int i2) (sint len), depth))
       else if wireType = 3 then Ok (int i1, Suc depth)
       else if wireType = 4 then (if depth = 0 then Err ErrUnexpectedEndOfGroup else Ok (int i1, depth - 1))
       else if wireType = 5 then Ok (add_int (int i1) 4, depth)
       else Err ErrProto)"

text \<open>The loop of \<open>skip\<close>; every round moves the index, so the length of the buffer is enough fuel.\<close>

fun skip_loop :: "nat \<Rightarrow> byte list \<Rightarrow> nat \<Rightarrow> nat \<Rightarrow> nat dec" where
  "skip_loop 0 d i depth = Diverge"
| "skip_loop (Suc f) d i depth =
     (if i < length d then
        bindD (skip_one d i depth) (\<lambda>(j, depth').
          if j < 0 then Err ErrInvalidLength
          else if depth' = 0 then Ok (nat j)
          else skip_loop f d (nat j) depth')
      else Err ErrUnexpectedEOF)"

definition vt_skip :: "byte list \<Rightarrow> nat dec" where
  "vt_skip d = skip_loop (Suc (length d)) d 0 0"

lemma read_varint_moves: "read_varint d shift i acc = Ok (v, j) \<Longrightarrow> i < j \<and> j \<le> length d"
proof (induction d shift i acc rule: read_varint.induct)
  case (1 d shift i acc)
  show ?case
    using 1(2) 1(1) [OF _ _ refl refl]
    by (subst (asm) (1) read_varint.simps) (auto simp: Let_def split: if_splits)
qed

lemma skip_varint_moves: "skip_varint d shift i = Ok j \<Longrightarrow> i < j \<and> j \<le> length d"
proof (induction d shift i rule: skip_varint.induct)
  case (1 d shift i)
  show ?case
    using 1(2) 1(1)
    by (subst (asm) (1) skip_varint.simps) (auto split: if_splits)
qed


subsection \<open>The reference encoding\<close>

fun enc_varint :: "nat \<Rightarrow> byte list" where
  "enc_varint n = (if n < 128 then [of_nat n] else of_nat (n mod 128 + 128) # enc_varint (n div 128))"

declare enc_varint.simps [simp del]

lemma bit_len_pos: "0 < n \<Longrightarrow> bit_len n = Suc (bit_len (n div 2))"
  by (simp add: bit_len.simps [of n])

lemma bit_len_split: "2 ^ k \<le> n \<Longrightarrow> bit_len n = k + bit_len (n div 2 ^ k)"
proof (induction k arbitrary: n)
  case (Suc k)
  then have "0 < n" "2 ^ k \<le> n div 2" by (auto simp: less_eq_div_iff_mult_less_eq mult.commute intro: Nat.gr0I)
  then show ?case using Suc.IH [of "n div 2"] by (simp add: bit_len_pos div_mult2_eq)
qed simp

lemma bit_len_le: "n < 2 ^ k \<Longrightarrow> bit_len n \<le> k"
proof (induction k arbitrary: n)
  case (Suc k)
  then show ?case by (cases "n = 0") (auto simp: bit_len_pos bit_len.simps [of 0])
qed (simp add: bit_len.simps)

lemma or_one_div2: "(n OR Suc 0) div 2 = n div 2"
  by (simp add: or_Suc_0_eq)

lemma bit_len_or_one: "bit_len (n OR Suc 0) = Suc (bit_len (n div 2))"
  by (subst bit_len_pos) (auto simp: or_one_div2 or_Suc_0_eq intro: Nat.gr0I)

lemma length_enc_varint: "length (enc_varint n) = (bit_len (n OR Suc 0) + 6) div 7"
proof (induction n rule: enc_varint.induct)
  case (1 n)
  show ?case
  proof (cases "n < 128")
    case True
    then have "bit_len (n div 2) \<le> 6" by (intro bit_len_le) simp
    then show ?thesis using True by (subst enc_varint.simps) (simp add: bit_len_or_one)
  next
    case False
    then have "2 ^ 6 \<le> n div 2" by simp
    from bit_len_split [OF this] have "bit_len (n div 2) = 6 + bit_len (n div 128)" by (simp add: div_mult2_eq [symmetric])
    also have "bit_len (n div 128) = Suc (bit_len (n div 128 div 2))" using False by (intro bit_len_pos) simp
    finally have "bit_len (n OR Suc 0) = 7 + bit_len (n div 128 OR Suc 0)" by (simp add: bit_len_or_one)
    then show ?thesis using 1 [OF False] False by (subst enc_varint.simps) simp
  qed
qed

lemma sov_length: "sov v = int (length (enc_varint (unat v)))"
proof -
  have "unat (v OR 1) = unat v OR Suc 0" by (simp add: unsigned_or_eq)
  then show ?thesis by (simp add: sov_def length_enc_varint zdiv_int)
qed

lemma enc_varint_not_Nil [simp]: "enc_varint n \<noteq> []"
  by (subst enc_varint.simps) simp

subsection \<open>Writing backwards\<close>

text \<open>
  A writer that, with enough room in front of \<open>i\<close>, moves \<open>i\<close> down by the length of \<open>bs\<close> and leaves
  \<open>bs\<close> in front of what was written before.
\<close>

definition writes :: "(wstate \<Rightarrow> wstate res) \<Rightarrow> byte list \<Rightarrow> bool" where
  "writes f bs \<longleftrightarrow> (\<forall>d i. length bs \<le> i \<and> i \<le> length d \<longrightarrow>
     (\<exists>d'. f (d, int i) = Inr (d', int (i - length bs)) \<and> length d' = length d \<and> drop (i - length bs) d' = bs @ drop i d))"

definition wr_bytes :: "byte list \<Rightarrow> wstate \<Rightarrow> wstate res" where
  "wr_bytes src = (\<lambda>(d, i). bindR (buf_copy d (i - int (length src)) src) (\<lambda>d'. Inr (d', i - int (length src))))"

definition wr_varint :: "64 word \<Rightarrow> wstate \<Rightarrow> wstate res" where
  "wr_varint v = (\<lambda>(d, i). encodeVarint d i v)"

definition wr_byte :: "byte \<Rightarrow> wstate \<Rightarrow> wstate res" where
  "wr_byte b = (\<lambda>(d, i). bindR (buf_set d (i - 1) b) (\<lambda>d'. Inr (d', i - 1)))"

lemma writes_Inr: "writes Inr []"
  by (simp add: writes_def)

lemma writes_bindR:
  assumes "writes f a" "writes g b"
  shows "writes (\<lambda>s. bindR (f s) g) (b @ a)"
  unfolding writes_def
proof (intro allI impI, elim conjE)
  fix d :: "byte list" and i
  assume i: "length (b @ a) \<le> i" "i \<le> length d"
  then have "length a \<le> i" by simp
  with assms(1) i(2) obtain d1 where 1: "f (d, int i) = Inr (d1, int (i - length a))" "length d1 = length d" "drop (i - length a) d1 = a @ drop i d"
    unfolding writes_def by blast
  have "length b \<le> i - length a" "i - length a \<le> length d1" using i 1(2) by simp_all
  with assms(2) obtain d2 where 2: "g (d1, int (i - length a)) = Inr (d2, int (i - length a - length b))" "length d2 = length d1"
    "drop (i - length a - length b) d2 = b @ drop (i - length a) d1"
    unfolding writes_def by blast
  have "i - length a - length b = i - length (b @ a)" by simp
  then show "\<exists>d'. bindR (f (d, int i)) g = Inr (d', int (i - length (b @ a))) \<and> length d' = length d \<and> drop (i - length (b @ a)) d' = (b @ a) @ drop i d"
    using 1 2 by simp
qed

lemma writes_bytes: "writes (wr_bytes src) src"
  unfolding writes_def
proof (intro allI impI, elim conjE)
  fix d :: "byte list" and i
  assume i: "length src \<le> i" "i \<le> length d"
  then have n: "nat (int i - int (length src)) = i - length src" "min (length src) (length d - (i - length src)) = length src" by auto
  show "\<exists>d'. wr_bytes src (d, int i) = Inr (d', int (i - length src)) \<and> length d' = length d \<and> drop (i - length src) d' = src @ drop i d"
    using i n by (auto simp: wr_bytes_def buf_copy_def Let_def)
qed

lemma writes_byte: "writes (wr_byte b) [b]"
  unfolding writes_def
proof (intro allI impI, elim conjE)
  fix d :: "byte list" and i
  assume i: "length [b] \<le> i" "i \<le> length d"
  then obtain k where k: "i = Suc k" by (cases i) auto
  then have "drop k (d[k := b]) = b # drop i d" using i by (simp add: drop_update_swap Cons_nth_drop_Suc [symmetric])
  then show "\<exists>d'. wr_byte b (d, int i) = Inr (d', int (i - length [b])) \<and> length d' = length d \<and> drop (i - length [b]) d' = [b] @ drop i d"
    using i k by (simp add: wr_byte_def buf_set_def)
qed

lemma ucast_of_nat_unat: "(ucast (w :: 'v::len word) :: 'w::len word) = of_nat (unat w)"
  by (simp add: of_nat_unat)

lemma low_bits:
  fixes v :: "64 word"
  shows "(ucast (v AND 127 OR 128) :: byte) = of_nat (unat v mod 128 + 128)"
proof -
  have t: "v AND 127 = take_bit 7 v" by (simp add: take_bit_eq_mask mask_numeral)
  have "take_bit 7 v AND push_bit 7 1 = 0" by (rule bit_word_eqI) (auto simp: bit_simps simp del: push_bit_of_1)
  then have o: "v AND 127 OR 128 = take_bit 7 v + 128" using t by (simp add: disjunctive_add_eq_or)
  have u: "unat (take_bit 7 v) = unat v mod 128" using unsigned_take_bit_eq [of 7 v, where 'a = nat] by (simp add: take_bit_eq_mod [where 'a = nat])
  have "unat (take_bit 7 v + 128) = unat v mod 128 + 128"
    by (subst unat_add_lem [THEN iffD1]) (simp_all add: u)
  then show ?thesis unfolding o by (metis ucast_of_nat_unat)
qed

lemma varint_loop_writes:
  "0 \<le> off \<Longrightarrow> off + int (length (enc_varint (unat v))) \<le> int (length d) \<Longrightarrow>
   varint_loop d off v = Inr (take (nat off) d @ enc_varint (unat v) @ drop (nat off + length (enc_varint (unat v))) d)"
proof (induction d off v rule: varint_loop.induct)
  case (1 d off v)
  show ?case
  proof (cases "128 \<le> v")
    case True
    then have u: "\<not> unat v < 128" "unat (drop_bit 7 v) = unat v div 128"
      using unat_drop_bit_eq [of 7 v] by (simp_all add: drop_bit_eq_div [where 'a = nat] word_le_nat_alt)
    let ?b = "of_nat (unat v mod 128 + 128) :: byte" and ?r = "enc_varint (unat v div 128)"
    have e: "enc_varint (unat v) = ?b # ?r" using u(1) by (simp add: enc_varint.simps [of "unat v"])
    then have l: "nat off < length d" using 1(2,3) by simp
    then have s: "buf_set d off (ucast (v AND 127 OR 128)) = Inr (d[nat off := ?b])" using 1(2) by (simp add: buf_set_def low_bits)
    have "varint_loop (d[nat off := ?b]) (off + 1) (drop_bit 7 v) = Inr (take (nat (off + 1)) (d[nat off := ?b]) @ ?r @
        drop (nat (off + 1) + length ?r) (d[nat off := ?b]))"
      using 1(1) [OF True, of "d[nat off := ?b]"] 1(2,3) u(2) e by simp
    moreover have "take (nat (off + 1)) (d[nat off := ?b]) = take (nat off) d @ [?b]"
      using l 1(2) by (simp add: nat_add_distrib take_Suc_conv_app_nth)
    ultimately show ?thesis using True s e 1(2) by (subst varint_loop.simps) (simp add: nat_add_distrib)
  next
    case False
    then have u: "unat v < 128" by (simp add: word_le_nat_alt)
    then have e: "enc_varint (unat v) = [of_nat (unat v)]" by (simp add: enc_varint.simps [of "unat v"])
    then have "nat off < length d" using 1(2,3) by simp
    then show ?thesis using False e 1(2) by (subst varint_loop.simps) (simp add: buf_set_def upd_conv_take_nth_drop)
  qed
qed

lemma writes_varint: "writes (wr_varint v) (enc_varint (unat v))"
  unfolding writes_def
proof (intro allI impI, elim conjE)
  fix d :: "byte list" and i
  let ?e = "enc_varint (unat v)"
  assume i: "length ?e \<le> i" "i \<le> length d"
  then have n: "nat (int i - int (length ?e)) = i - length ?e" by auto
  show "\<exists>d'. wr_varint v (d, int i) = Inr (d', int (i - length ?e)) \<and> length d' = length d \<and> drop (i - length ?e) d' = ?e @ drop i d"
    using i n varint_loop_writes [of "int i - int (length ?e)" v d] by (auto simp: wr_varint_def encodeVarint_def sov_length)
qed

subsection \<open>Reading what was written\<close>

lemma byte_low:
  assumes "n < 256"
  shows "(of_nat n :: byte) < 128 \<longleftrightarrow> n < 128" "(ucast ((of_nat n :: byte) AND 127) :: 'w::len word) = of_nat (n mod 128)"
proof -
  have u: "unat (of_nat n :: byte) = n" using assms by (simp add: unat_of_nat)
  show "(of_nat n :: byte) < 128 \<longleftrightarrow> n < 128" by (simp add: word_less_nat_alt u)
  have t: "(of_nat n :: byte) AND 127 = take_bit 7 (of_nat n)" by (simp add: take_bit_eq_mask mask_numeral)
  have "unat ((of_nat n :: byte) AND 127) = n mod 128"
    unfolding t unsigned_take_bit_eq u by (simp add: take_bit_eq_mod)
  then show "(ucast ((of_nat n :: byte) AND 127) :: 'w word) = of_nat (n mod 128)" by (metis ucast_of_nat_unat)
qed

lemma or_split7:
  "push_bit shift (of_nat (n mod 128)) OR push_bit (shift + 7) (of_nat (n div 128)) = push_bit shift (of_nat n :: 'w::len word)"
proof -
  have m: "n mod 128 = take_bit 7 n" "n div 128 = drop_bit 7 n" by (simp_all add: take_bit_eq_mod drop_bit_eq_div)
  show ?thesis unfolding m
  proof (rule bit_word_eqI)
    fix k
    assume "k < LENGTH('w)"
    then show "bit (push_bit shift (of_nat (take_bit 7 n)) OR push_bit (shift + 7) (of_nat (drop_bit 7 n) :: 'w word)) k
        \<longleftrightarrow> bit (push_bit shift (of_nat n :: 'w word)) k"
    proof (cases "shift + 7 \<le> k")
      case True
      then have "7 + (k - (shift + 7)) = k - shift" "k - shift - 7 + 7 = k - shift" by simp_all
      then show ?thesis using True \<open>k < LENGTH('w)\<close> by (auto simp: bit_simps)
    qed (auto simp: bit_simps)
  qed
qed

lemma read_enc_varint:
  fixes acc :: "'w::len word"
  assumes "drop i d = enc_varint n @ rest" "n < 2 ^ (64 - shift)" "shift < 64"
  shows "read_varint d shift i acc = Ok (acc OR push_bit shift (of_nat n), i + length (enc_varint n))"
  using assms
proof (induction n arbitrary: i shift acc rule: enc_varint.induct)
  case (1 n)
  have il: "i < length d" using 1(2) by (metis append_is_Nil_conv drop_eq_Nil enc_varint_not_Nil linorder_not_le)
  show ?case
  proof (cases "n < 128")
    case True
    then have e: "enc_varint n = [of_nat n]" by (simp add: enc_varint.simps [of n])
    then have "d ! i = of_nat n" using 1(2) by (metis hd_drop_conv_nth il hd_append2 enc_varint_not_Nil list.sel(1))
    then show ?thesis using True il 1(4) e byte_low(1) [of n] byte_low(2) [of n, where 'w = 'w] by (subst read_varint.simps) simp
  next
    case False
    let ?b = "of_nat (n mod 128 + 128) :: byte"
    have e: "enc_varint n = ?b # enc_varint (n div 128)" using False by (simp add: enc_varint.simps [of n])
    then have d: "d ! i = ?b" "drop (Suc i) d = enc_varint (n div 128) @ rest"
      using 1(2) Cons_nth_drop_Suc [OF il] by simp_all
    have s: "shift + 7 < 64" "n div 128 < 2 ^ (64 - (shift + 7))"
    proof -
      show "shift + 7 < 64"
      proof (rule ccontr)
        assume "\<not> shift + 7 < 64"
        then have "64 - shift \<le> 7" by simp
        then have "(2 :: nat) ^ (64 - shift) \<le> 2 ^ 7" by (rule power_increasing) simp
        then show False using 1(3) False by simp
      qed
      then have "64 - shift = 64 - (shift + 7) + 7" by simp
      then have "n < 2 ^ (64 - (shift + 7)) * 2 ^ 7" using 1(3) by (simp only: power_add)
      then show "n div 128 < 2 ^ (64 - (shift + 7))" by (simp add: less_mult_imp_div_less)
    qed
    show ?thesis using 1(1) [OF False d(2) s(2,1), of "acc OR push_bit shift (of_nat (n mod 128))"] il 1(4) d(1) e byte_low(1) [of "n mod 128 + 128"] byte_low(2) [of "n mod 128 + 128", where 'w = 'w]
      by (subst read_varint.simps) (simp add: or_split7 or.assoc)
  qed
qed

text \<open>Reader results that are neither a panic nor a loop without end.\<close>

definition settled :: "'a dec \<Rightarrow> bool" where
  "settled r \<longleftrightarrow> (\<exists>x. r = Ok x) \<or> (\<exists>e. r = Err e)"

lemma settled_simps [simp]: "settled (Ok x)" "settled (Err e)" "\<not> settled (Crash p)" "\<not> settled Diverge"
  by (simp_all add: settled_def)

lemma settled_bindD: "settled r \<Longrightarrow> (\<And>x. r = Ok x \<Longrightarrow> settled (f x)) \<Longrightarrow> settled (bindD r f)"
  by (cases r) simp_all

lemma settled_read_varint: "settled (read_varint d shift i acc)"
proof (induction d shift i acc rule: read_varint.induct)
  case (1 d shift i acc)
  then show ?case by (subst read_varint.simps) (simp add: Let_def)
qed

lemma settled_skip_varint: "settled (skip_varint d shift i)"
proof (induction d shift i rule: skip_varint.induct)
  case (1 d shift i)
  then show ?case by (subst skip_varint.simps) simp
qed

text \<open>Within 63 bits the sum of two lengths does not wrap, or wraps to a negative number.\<close>

lemma add_int_cases:
  assumes "0 \<le> a" "a < 2 ^ 63" "0 \<le> b" "b < 2 ^ 63"
  shows "add_int a b = (if a + b < 2 ^ 63 then a + b else a + b - 2 ^ 64)"
proof -
  have s: "add_int a b = (a + b + 2 ^ 63) mod 2 ^ 64 - 2 ^ 63"
    by (simp add: add_int_def signed_take_bit_eq_take_bit_shift take_bit_eq_mod)
  show ?thesis
  proof (cases "a + b < 2 ^ 63")
    case True
    then have "(a + b + 2 ^ 63) mod 2 ^ 64 = a + b + 2 ^ 63" using assms by (intro mod_pos_pos_trivial) simp_all
    then show ?thesis using True s by simp
  next
    case False
    have "(a + b + 2 ^ 63) mod 2 ^ 64 = (a + b + 2 ^ 63 - 2 ^ 64) mod 2 ^ 64" by (rule minus_mod_self2 [symmetric])
    also have "\<dots> = a + b + 2 ^ 63 - 2 ^ 64" using assms False by (intro mod_pos_pos_trivial) simp_all
    finally show ?thesis using False s by simp
  qed
qed

lemma add_int_moves:
  assumes "0 \<le> a" "a < 2 ^ 63" "0 \<le> b" "b < 2 ^ 63"
  shows "add_int a b < 0 \<or> add_int a b = a + b"
  using add_int_cases [OF assms] assms by (auto split: if_splits)

lemma sint_less: "sint (w :: 64 word) < 2 ^ 63"
  using sint_lt [of w] by simp

text \<open>The length prefix of a field is read back and bounds the field.\<close>

lemma read_bytes_settled:
  assumes "length d < 2 ^ 63"
  shows "settled (read_bytes d i)" and "read_bytes d i = Ok (bs, j) \<Longrightarrow> i < j \<and> j \<le> length d"
proof -
  have moves: "sint len < 0 \<or> add_int (int i1) (sint len) < 0 \<or> add_int (int i1) (sint len) = int i1 + sint len"
    if "read_varint d 0 i (0 :: 64 word) = Ok (len, i1)" for len i1
    using assms read_varint_moves [OF that] sint_less [of len] add_int_moves [of "int i1" "sint len"] by auto
  show "settled (read_bytes d i)"
    unfolding read_bytes_def Let_def
  proof (intro settled_bindD settled_read_varint)
    fix x :: "64 word \<times> nat"
    assume "read_varint d 0 i 0 = Ok x"
    then show "settled ((\<lambda>(len, i1). if sint len < 0 then Err ErrInvalidLength
        else if add_int (int i1) (sint len) < 0 then Err ErrInvalidLength
        else if int (length d) < add_int (int i1) (sint len) then Err ErrUnexpectedEOF
        else bindD (go_slice d i1 (add_int (int i1) (sint len))) (\<lambda>bs. Ok (bs, nat (add_int (int i1) (sint len))))) x)"
      using moves [of "fst x" "snd x"] by (cases x) (auto simp: go_slice_def)
  qed
  show "i < j \<and> j \<le> length d" if r: "read_bytes d i = Ok (bs, j)"
  proof -
    obtain len i1 where v: "read_varint d 0 i (0 :: 64 word) = Ok (len, i1)" "\<not> sint len < 0"
      "\<not> add_int (int i1) (sint len) < 0" "add_int (int i1) (sint len) \<le> int (length d)" "j = nat (add_int (int i1) (sint len))"
      using r by (auto simp: read_bytes_def Let_def bindD_eq_Ok split: if_splits)
    then show ?thesis using read_varint_moves [OF v(1)] moves [OF v(1)] v(2-5) by auto
  qed
qed

lemma read_bytes_enc:
  assumes "drop i d = enc_varint (length bs) @ bs @ rest" "length d < 2 ^ 63"
  shows "read_bytes d i = Ok (bs, i + length (enc_varint (length bs) @ bs))"
proof -
  let ?e = "enc_varint (length bs)"
  have l: "length d = i + length ?e + length bs + length rest"
    using assms(1) by (metis (no_types) append_take_drop_id enc_varint_not_Nil append_is_Nil_conv drop_eq_Nil length_append
        length_take linorder_not_le min.absorb4 add.assoc)
  then have b: "length bs < 2 ^ 63" using assms(2) by simp
  have n: "length bs < 2 ^ (64 - 0)" using b by simp
  have v: "read_varint d 0 i (0 :: 64 word) = Ok (of_nat (length bs), i + length ?e)"
    using read_enc_varint [OF assms(1) n, of 0] by simp
  have s: "sint (of_nat (length bs) :: 64 word) = int (length bs)"
    using b by (simp add: signed_of_nat signed_take_bit_int_eq_self)
  have a: "add_int (int (i + length ?e)) (int (length bs)) = int (i + length ?e + length bs)"
    using l assms(2) by (subst add_int_cases) simp_all
  have "drop (i + length ?e) d = bs @ rest" using assms(1) by (metis append_eq_conv_conj drop_drop add.commute)
  then have "go_slice d (i + length ?e) (int (i + length ?e + length bs)) = Ok bs" using l by (simp add: go_slice_def)
  then show ?thesis using l by (simp add: read_bytes_def v s a Let_def del: of_nat_add)
qed

lemma skip_one_moves:
  assumes "length d < 2 ^ 63"
  shows "settled (skip_one d i depth)" and "skip_one d i depth = Ok (j, depth') \<Longrightarrow> j < 0 \<or> int i < j"
proof -
  show "settled (skip_one d i depth)"
    by (auto simp: skip_one_def Let_def intro!: settled_bindD settled_read_varint settled_skip_varint split: prod.split)
  show "j < 0 \<or> int i < j" if r: "skip_one d i depth = Ok (j, depth')"
  proof -
    obtain wire i1 where w: "read_varint d 0 i (0 :: 64 word) = Ok (wire, i1)" using r by (auto simp: skip_one_def bindD_eq_Ok)
    note m = read_varint_moves [OF w]
    have i1: "int i1 < 2 ^ 63" using m assms by simp
    have a: "add_int (int i1) b < 0 \<or> add_int (int i1) b = int i1 + b" if "0 \<le> b" "b < 2 ^ 63" for b
      using that i1 by (intro add_int_moves) simp_all
    have l: "add_int (int i2) (sint len) < 0 \<or> int i1 < add_int (int i2) (sint len)"
      if "read_varint d 0 i1 (0 :: 64 word) = Ok (len, i2)" "\<not> sint len < 0" for len i2
    proof -
      have "add_int (int i2) (sint len) < 0 \<or> add_int (int i2) (sint len) = int i2 + sint len"
        using that assms read_varint_moves [OF that(1)] sint_less [of len] by (intro add_int_moves) auto
      then show ?thesis using that(2) read_varint_moves [OF that(1)] by auto
    qed
    show ?thesis
      using r m a [of 8] a [of 4]
      by (auto simp: skip_one_def w Let_def bindD_eq_Ok split: if_splits dest!: skip_varint_moves l)
  qed
qed

lemma add_int_less: "add_int a b < 2 ^ 63"
  unfolding add_int_def by (rule signed_take_bit_int_less_exp)

lemma skip_one_less:
  assumes "length d < 2 ^ 63" "skip_one d i depth = Ok (j, depth')"
  shows "j < 2 ^ 63"
proof -
  obtain wire i1 where w: "read_varint d 0 i (0 :: 64 word) = Ok (wire, i1)" using assms(2) by (auto simp: skip_one_def bindD_eq_Ok)
  have "int i1 < 2 ^ 63" using read_varint_moves [OF w] assms(1) by simp
  then show ?thesis
    using assms add_int_less
    by (auto simp: skip_one_def w Let_def bindD_eq_Ok split: if_splits dest!: skip_varint_moves)
qed

lemma skip_loop_settled:
  assumes "length d < 2 ^ 63"
  shows "length d - i < f \<Longrightarrow> settled (skip_loop f d i depth)" and "skip_loop f d i depth = Ok n \<Longrightarrow> i < n \<and> n < 2 ^ 63"
proof -
  show "length d - i < f \<Longrightarrow> settled (skip_loop f d i depth)"
  proof (induction f arbitrary: i depth)
    case (Suc f)
    have "settled (if j < 0 then Err ErrInvalidLength else if k = 0 then Ok (nat j) else skip_loop f d (nat j) k)"
      if "skip_one d i depth = Ok (j, k)" "i < length d" for j k
    proof -
      have "\<not> j < 0 \<Longrightarrow> length d - nat j < f" using skip_one_moves(2) [OF assms that(1)] that(2) Suc.prems by auto
      then show ?thesis using Suc.IH by simp
    qed
    then show ?case using skip_one_moves(1) [OF assms] by (auto intro!: settled_bindD)
  qed simp
  show "skip_loop f d i depth = Ok n \<Longrightarrow> i < n \<and> n < 2 ^ 63"
  proof (induction f arbitrary: i depth)
    case (Suc f)
    then obtain j k where j: "skip_one d i depth = Ok (j, k)" "\<not> j < 0" "k = 0 \<and> n = nat j \<or> skip_loop f d (nat j) k = Ok n"
      by (auto simp: bindD_eq_Ok split: if_splits)
    then have "int i < j \<and> j < 2 ^ 63" using skip_one_moves(2) [OF assms j(1)] skip_one_less [OF assms j(1)] by simp
    then show ?case using j Suc.IH [of "nat j" k] by auto
  qed simp
qed

lemma vt_skip_settled:
  assumes "length d < 2 ^ 63"
  shows "settled (vt_skip d)" and "vt_skip d = Ok n \<Longrightarrow> 0 < n \<and> n < 2 ^ 63"
  using skip_loop_settled(1) [OF assms, of 0 "Suc (length d)" 0] skip_loop_settled(2) [OF assms, of "Suc (length d)" 0 0 n]
  by (simp_all add: vt_skip_def del: skip_loop.simps)

end
