(* ===== verification/WireCodec.thy ===== *)
theory WireCodec
  imports RemoteStream Varint
begin

unbundle bit_operations_syntax

section \<open>The wire format of envelopes (actor/actor_vtproto.pb.go, remote/remote_vtproto.pb.go)\<close>

text \<open>
  The streams of drpc carry envelopes as the methods \<open>MarshalVT\<close> and \<open>UnmarshalVT\<close> encode and
  decode them. A struct of the protobuf schema is a record with its unknown fields; pointers in
  repeated fields may be nil. \<open>SizeVT\<close> computes the size, \<open>MarshalToSizedBufferVT\<close> fills a buffer
  of that size from its end, \<open>UnmarshalVT\<close> is a loop over the fields it finds.
\<close>

definition str_bytes :: "string \<Rightarrow> byte list" where
  "str_bytes s = map (\<lambda>c. of_nat (of_char c)) s"

definition bytes_str :: "byte list \<Rightarrow> string" where
  "bytes_str bs = map (\<lambda>b. char_of (unat b)) bs"

record pid_vt = pid +
  pv_unknown :: "byte list"

record message_vt = "byte list message" +
  mv_unknown :: "byte list"

record envelope_vt =
  ev_TypeNames :: "string list"
  ev_Targets :: "pid_vt option list"
  ev_Senders :: "pid_vt option list"
  ev_Messages :: "message_vt option list"
  ev_unknown :: "byte list"

subsection \<open>Size and marshalling\<close>

text \<open>The size of a field with a tag, a length and \<open>l\<close> bytes.\<close>

definition len_size :: "int \<Rightarrow> int" where
  "len_size l = 1 + l + sov (word_of_int l)"

definition pid_SizeVT :: "pid_vt option \<Rightarrow> int" where
  "pid_SizeVT m = (case m of
     None \<Rightarrow> 0
   | Some p \<Rightarrow> (if 0 < length (Address p) then len_size (int (length (Address p))) else 0)
       + (if 0 < length (ID p) then len_size (int (length (ID p))) else 0) + int (length (pv_unknown p)))"

definition message_SizeVT :: "message_vt option \<Rightarrow> int" where
  "message_SizeVT m = (case m of
     None \<Rightarrow> 0
   | Some x \<Rightarrow> (if 0 < length (Data x) then len_size (int (length (Data x))) else 0)
       + (if TargetIndex x \<noteq> 0 then 1 + sov (scast (TargetIndex x)) else 0)
       + (if SenderIndex x \<noteq> 0 then 1 + sov (scast (SenderIndex x)) else 0)
       + (if TypeNameIndex x \<noteq> 0 then 1 + sov (scast (TypeNameIndex x)) else 0) + int (length (mv_unknown x)))"

definition envelope_SizeVT :: "envelope_vt \<Rightarrow> int" where
  "envelope_SizeVT e = sum_list (map (\<lambda>s. len_size (int (length s))) (ev_TypeNames e))
     + sum_list (map (\<lambda>p. len_size (pid_SizeVT p)) (ev_Targets e))
     + sum_list (map (\<lambda>p. len_size (pid_SizeVT p)) (ev_Senders e))
     + sum_list (map (\<lambda>m. len_size (message_SizeVT m)) (ev_Messages e)) + int (length (ev_unknown e))"

text \<open>
  Writers in a row; a field with a length in front; an \<open>int32\<close> field; and a message written by its
  own method into the part \<open>dAtA[:i]\<close> of the buffer, which shares its memory.
\<close>

definition wr_seq :: "(wstate \<Rightarrow> wstate res) list \<Rightarrow> wstate \<Rightarrow> wstate res" where
  "wr_seq fs s = fold (\<lambda>f r. bindR r f) fs (Inr s)"

definition wr_len :: "byte \<Rightarrow> byte list \<Rightarrow> wstate \<Rightarrow> wstate res" where
  "wr_len tag bs = wr_seq [wr_bytes bs, wr_varint (of_nat (length bs)), wr_byte tag]"

definition wr_int32 :: "byte \<Rightarrow> 32 word \<Rightarrow> wstate \<Rightarrow> wstate res" where
  "wr_int32 tag v = wr_seq [wr_varint (scast v), wr_byte tag]"

definition wr_msg :: "byte \<Rightarrow> (byte list \<Rightarrow> (byte list \<times> int) res) \<Rightarrow> wstate \<Rightarrow> wstate res" where
  "wr_msg tag marshal = (\<lambda>(d, i).
     if i < 0 \<or> int (length d) < i then Inl SliceBounds
     else bindR (marshal (take (nat i) d)) (\<lambda>(d', n).
       wr_seq [wr_varint (word_of_int n), wr_byte tag] (d' @ drop (nat i) d, i - n)))"

text \<open>The result of a marshalling method: the buffer and \<open>len(dAtA) - i\<close>.\<close>

definition written :: "wstate \<Rightarrow> (byte list \<times> int) res" where
  "written = (\<lambda>(d, i). Inr (d, int (length d) - i))"

definition pid_writers :: "pid_vt \<Rightarrow> (wstate \<Rightarrow> wstate res) list" where
  "pid_writers p = [wr_bytes (pv_unknown p),
     if 0 < length (ID p) then wr_len 0x12 (str_bytes (ID p)) else Inr,
     if 0 < length (Address p) then wr_len 0xa (str_bytes (Address p)) else Inr]"

definition pid_MarshalToSizedBufferVT :: "pid_vt option \<Rightarrow> byte list \<Rightarrow> (byte list \<times> int) res" where
  "pid_MarshalToSizedBufferVT m d = (case m of
     None \<Rightarrow> Inr (d, 0) | Some p \<Rightarrow> bindR (wr_seq (pid_writers p) (d, int (length d))) written)"

definition message_writers :: "message_vt \<Rightarrow> (wstate \<Rightarrow> wstate res) list" where
  "message_writers x = [wr_bytes (mv_unknown x),
     if TypeNameIndex x \<noteq> 0 then wr_int32 0x20 (TypeNameIndex x) else Inr,
     if SenderIndex x \<noteq> 0 then wr_int32 0x18 (SenderIndex x) else Inr,
     if TargetIndex x \<noteq> 0 then wr_int32 0x10 (TargetIndex x) else Inr,
     if 0 < length (Data x) then wr_len 0xa (Data x) else Inr]"

definition message_MarshalToSizedBufferVT :: "message_vt option \<Rightarrow> byte list \<Rightarrow> (byte list \<times> int) res" where
  "message_MarshalToSizedBufferVT m d = (case m of
     None \<Rightarrow> Inr (d, 0) | Some x \<Rightarrow> bindR (wr_seq (message_writers x) (d, int (length d))) written)"

text \<open>The loops over the repeated fields run from the last element to the first.\<close>

definition envelope_writers :: "envelope_vt \<Rightarrow> (wstate \<Rightarrow> wstate res) list" where
  "envelope_writers e = [wr_bytes (ev_unknown e)]
     @ map (\<lambda>m. wr_msg 0x22 (message_MarshalToSizedBufferVT m)) (rev (ev_Messages e))
     @ map (\<lambda>p. wr_msg 0x1a (pid_MarshalToSizedBufferVT p)) (rev (ev_Senders e))
     @ map (\<lambda>p. wr_msg 0x12 (pid_MarshalToSizedBufferVT p)) (rev (ev_Targets e))
     @ map (\<lambda>s. wr_len 0xa (str_bytes s)) (rev (ev_TypeNames e))"

definition envelope_MarshalToSizedBufferVT :: "envelope_vt \<Rightarrow> byte list \<Rightarrow> (byte list \<times> int) res" where
  "envelope_MarshalToSizedBufferVT e d = bindR (wr_seq (envelope_writers e) (d, int (length d))) written"

text \<open>\<open>MarshalVT\<close>: a buffer of the computed size, filled, and cut to what was written.\<close>

definition marshal_sized :: "int \<Rightarrow> (byte list \<Rightarrow> (byte list \<times> int) res) \<Rightarrow> byte list res" where
  "marshal_sized n marshal = bindR (go_make 0 n) (\<lambda>d. bindR (marshal d) (\<lambda>(d', k).
     if k < 0 \<or> int (length d') < k then Inl SliceBounds else Inr (take (nat k) d')))"

definition pid_MarshalVT :: "pid_vt \<Rightarrow> byte list res" where
  "pid_MarshalVT p = marshal_sized (pid_SizeVT (Some p)) (pid_MarshalToSizedBufferVT (Some p))"

definition message_MarshalVT :: "message_vt \<Rightarrow> byte list res" where
  "message_MarshalVT x = marshal_sized (message_SizeVT (Some x)) (message_MarshalToSizedBufferVT (Some x))"

definition envelope_MarshalVT :: "envelope_vt \<Rightarrow> byte list res" where
  "envelope_MarshalVT e = marshal_sized (envelope_SizeVT e) (envelope_MarshalToSizedBufferVT e)"

subsection \<open>Unmarshalling\<close>

text \<open>
  The generated loops differ in the fields they know: a field with a length, whose bytes are
  stored by a function that may fail, or an \<open>int32\<close>. A field that is not known is skipped and
  kept in the unknown fields.
\<close>

datatype 'm field = LenField "byte list \<Rightarrow> 'm \<Rightarrow> 'm dec" | VarField "32 word \<Rightarrow> 'm \<Rightarrow> 'm"

fun unmarshal_loop :: "nat \<Rightarrow> (int \<Rightarrow> 'm field option) \<Rightarrow> (byte list \<Rightarrow> 'm \<Rightarrow> 'm) \<Rightarrow> byte list \<Rightarrow> nat \<Rightarrow> 'm \<Rightarrow> 'm dec" where
  "unmarshal_loop 0 known unknown d i m = Diverge"
| "unmarshal_loop (Suc f) known unknown d i m =
     (if i < length d then
        bindD (read_varint d 0 i (0 :: 64 word)) (\<lambda>(wire, i1).
          let fieldNum = sint (ucast (drop_bit 3 wire) :: 32 word); wireType = unat (wire AND 7) in
          if wireType = 4 then Err ErrProto
          else if fieldNum \<le> 0 then Err ErrProto
          else case known fieldNum of
            Some (LenField store) \<Rightarrow>
              if wireType \<noteq> 2 then Err ErrProto
              else bindD (read_bytes d i1) (\<lambda>(bs, j). bindD (store bs m) (unmarshal_loop f known unknown d j))
          | Some (VarField store) \<Rightarrow>
              if wireType \<noteq> 0 then Err ErrProto
              else bindD (read_varint d 0 i1 0) (\<lambda>(v, j). unmarshal_loop f known unknown d j (store v m))
          | None \<Rightarrow>
              bindD (vt_skip (drop i d)) (\<lambda>skippy.
                let j = add_int (int i) (int skippy) in
                if j < 0 then Err ErrInvalidLength
                else if int (length d) < j then Err ErrUnexpectedEOF
                else bindD (go_slice d i j) (\<lambda>bs. unmarshal_loop f known unknown d (nat j) (unknown bs m))))
      else if length d < i then Err ErrUnexpectedEOF
      else Ok m)"

declare unmarshal_loop.simps(2) [simp del]

text \<open>The index moves in every round, so the length of the data is enough fuel.\<close>

definition unmarshal :: "(int \<Rightarrow> 'm field option) \<Rightarrow> (byte list \<Rightarrow> 'm \<Rightarrow> 'm) \<Rightarrow> byte list \<Rightarrow> 'm \<Rightarrow> 'm dec" where
  "unmarshal known unknown d m = unmarshal_loop (Suc (length d)) known unknown d 0 m"

definition pid_fields :: "int \<Rightarrow> pid_vt field option" where
  "pid_fields n =
     (if n = 1 then Some (LenField (\<lambda>bs p. Ok (p\<lparr>Address := bytes_str bs\<rparr>)))
      else if n = 2 then Some (LenField (\<lambda>bs p. Ok (p\<lparr>ID := bytes_str bs\<rparr>)))
      else None)"

definition pid_UnmarshalVT :: "byte list \<Rightarrow> pid_vt \<Rightarrow> pid_vt dec" where
  "pid_UnmarshalVT = unmarshal pid_fields (\<lambda>bs p. p\<lparr>pv_unknown := pv_unknown p @ bs\<rparr>)"

definition message_fields :: "int \<Rightarrow> message_vt field option" where
  "message_fields n =
     (if n = 1 then Some (LenField (\<lambda>bs x. Ok (x\<lparr>Data := bs\<rparr>)))
      else if n = 2 then Some (VarField (\<lambda>v x. x\<lparr>TargetIndex := v\<rparr>))
      else if n = 3 then Some (VarField (\<lambda>v x. x\<lparr>SenderIndex := v\<rparr>))
      else if n = 4 then Some (VarField (\<lambda>v x. x\<lparr>TypeNameIndex := v\<rparr>))
      else None)"

definition message_UnmarshalVT :: "byte list \<Rightarrow> message_vt \<Rightarrow> message_vt dec" where
  "message_UnmarshalVT = unmarshal message_fields (\<lambda>bs x. x\<lparr>mv_unknown := mv_unknown x @ bs\<rparr>)"

definition zero_pid :: pid_vt where
  "zero_pid = \<lparr>Address = [], ID = [], pv_unknown = []\<rparr>"

definition zero_message :: message_vt where
  "zero_message = \<lparr>Data = [], TypeNameIndex = 0, SenderIndex = 0, TargetIndex = 0, mv_unknown = []\<rparr>"

definition zero_envelope :: envelope_vt where
  "zero_envelope = \<lparr>ev_TypeNames = [], ev_Targets = [], ev_Senders = [], ev_Messages = [], ev_unknown = []\<rparr>"

definition envelope_fields :: "int \<Rightarrow> envelope_vt field option" where
  "envelope_fields n =
     (if n = 1 then Some (LenField (\<lambda>bs e. Ok (e\<lparr>ev_TypeNames := ev_TypeNames e @ [bytes_str bs]\<rparr>)))
      else if n = 2 then Some (LenField (\<lambda>bs e. bindD (pid_UnmarshalVT bs zero_pid) (\<lambda>p. Ok (e\<lparr>ev_Targets := ev_Targets e @ [Some p]\<rparr>))))
      else if n = 3 then Some (LenField (\<lambda>bs e. bindD (pid_UnmarshalVT bs zero_pid) (\<lambda>p. Ok (e\<lparr>ev_Senders := ev_Senders e @ [Some p]\<rparr>))))
      else if n = 4 then Some (LenField (\<lambda>bs e. bindD (message_UnmarshalVT bs zero_message) (\<lambda>x. Ok (e\<lparr>ev_Messages := ev_Messages e @ [Some x]\<rparr>))))
      else None)"

definition envelope_UnmarshalVT :: "byte list \<Rightarrow> envelope_vt \<Rightarrow> envelope_vt dec" where
  "envelope_UnmarshalVT = unmarshal envelope_fields (\<lambda>bs e. e\<lparr>ev_unknown := ev_unknown e @ bs\<rparr>)"

subsection \<open>The reference encoding\<close>

definition enc_len :: "nat \<Rightarrow> byte list \<Rightarrow> byte list" where
  "enc_len n bs = of_nat (n * 8 + 2) # enc_varint (length bs) @ bs"

definition enc_int32 :: "nat \<Rightarrow> 32 word \<Rightarrow> byte list" where
  "enc_int32 n v = of_nat (n * 8) # enc_varint (unat (scast v :: 64 word))"

definition enc_pid :: "pid_vt option \<Rightarrow> byte list" where
  "enc_pid m = (case m of None \<Rightarrow> [] | Some p \<Rightarrow>
     (if Address p \<noteq> [] then enc_len 1 (str_bytes (Address p)) else [])
     @ (if ID p \<noteq> [] then enc_len 2 (str_bytes (ID p)) else []) @ pv_unknown p)"

definition enc_message :: "message_vt option \<Rightarrow> byte list" where
  "enc_message m = (case m of None \<Rightarrow> [] | Some x \<Rightarrow>
     (if Data x \<noteq> [] then enc_len 1 (Data x) else [])
     @ (if TargetIndex x \<noteq> 0 then enc_int32 2 (TargetIndex x) else [])
     @ (if SenderIndex x \<noteq> 0 then enc_int32 3 (SenderIndex x) else [])
     @ (if TypeNameIndex x \<noteq> 0 then enc_int32 4 (TypeNameIndex x) else []) @ mv_unknown x)"

definition enc_envelope :: "envelope_vt \<Rightarrow> byte list" where
  "enc_envelope e = concat (map (\<lambda>s. enc_len 1 (str_bytes s)) (ev_TypeNames e))
     @ concat (map (\<lambda>p. enc_len 2 (enc_pid p)) (ev_Targets e))
     @ concat (map (\<lambda>p. enc_len 3 (enc_pid p)) (ev_Senders e))
     @ concat (map (\<lambda>m. enc_len 4 (enc_message m)) (ev_Messages e)) @ ev_unknown e"


subsection \<open>Marshalling writes the reference encoding\<close>

lemma wr_seq_simps [simp]: "wr_seq [] s = Inr s" "wr_seq (f # fs) s = bindR (f s) (wr_seq fs)"
proof -
  have "fold (\<lambda>f r. bindR r f) fs r = bindR r (wr_seq fs)" for fs and r :: "wstate res"
    by (induction fs arbitrary: r) (simp_all add: wr_seq_def bindR_def split: sum.split)
  then show "wr_seq [] s = Inr s" "wr_seq (f # fs) s = bindR (f s) (wr_seq fs)" by (simp_all add: wr_seq_def)
qed

lemma writes_seq: "list_all2 writes fs bss \<Longrightarrow> writes (wr_seq fs) (concat (rev bss))"
proof (induction rule: list_all2_induct)
  case Nil
  have "wr_seq [] = Inr" by (rule ext) simp
  then show ?case by (simp add: writes_Inr)
next
  case (Cons f fs b bss)
  have "wr_seq (f # fs) = (\<lambda>s. bindR (f s) (wr_seq fs))" by (rule ext) simp
  then show ?case using writes_bindR [OF Cons(1,3)] by simp
qed

lemma length_str_bytes [simp]: "length (str_bytes s) = length s"
  by (simp add: str_bytes_def)

lemma writes_len:
  assumes "length bs < 2 ^ 64"
  shows "writes (wr_len tag bs) (tag # enc_varint (length bs) @ bs)"
proof -
  have u: "unat (of_nat (length bs) :: 64 word) = length bs" using assms by (simp add: unat_of_nat)
  have "list_all2 writes [wr_bytes bs, wr_varint (of_nat (length bs)), wr_byte tag] [bs, enc_varint (length bs), [tag]]"
    using writes_varint [of "of_nat (length bs)"] by (simp add: writes_bytes writes_byte u)
  from writes_seq [OF this] show ?thesis by (simp add: wr_len_def)
qed

lemma writes_int32: "writes (wr_int32 tag v) (tag # enc_varint (unat (scast v :: 64 word)))"
proof -
  have "list_all2 writes [wr_varint (scast v), wr_byte tag] [enc_varint (unat (scast v :: 64 word)), [tag]]"
    by (simp add: writes_varint writes_byte)
  from writes_seq [OF this] show ?thesis by (simp add: wr_int32_def)
qed

text \<open>A marshalling method that fills the end of any buffer with \<open>bs\<close>.\<close>

definition marshals :: "(byte list \<Rightarrow> (byte list \<times> int) res) \<Rightarrow> byte list \<Rightarrow> bool" where
  "marshals g bs \<longleftrightarrow> (\<forall>d. length bs \<le> length d \<longrightarrow>
     (\<exists>d'. g d = Inr (d', int (length bs)) \<and> length d' = length d \<and> drop (length d - length bs) d' = bs))"

lemma marshals_writes:
  assumes "writes f bs"
  shows "marshals (\<lambda>d. bindR (f (d, int (length d))) written) bs"
  unfolding marshals_def
proof (intro allI impI)
  fix d :: "byte list"
  assume l: "length bs \<le> length d"
  with assms obtain d' where "f (d, int (length d)) = Inr (d', int (length d - length bs))" "length d' = length d"
    "drop (length d - length bs) d' = bs @ drop (length d) d" unfolding writes_def by blast
  then show "\<exists>d'. bindR (f (d, int (length d))) written = Inr (d', int (length bs)) \<and> length d' = length d \<and> drop (length d - length bs) d' = bs"
    using l by (simp add: written_def)
qed

lemma writes_msg:
  assumes "marshals g bs" "length bs < 2 ^ 64"
  shows "writes (wr_msg tag g) (tag # enc_varint (length bs) @ bs)"
  unfolding writes_def
proof (intro allI impI, elim conjE)
  fix d :: "byte list" and i
  let ?e = "tag # enc_varint (length bs) @ bs"
  assume i: "length ?e \<le> i" "i \<le> length d"
  then have "length bs \<le> length (take i d)" by simp
  with assms(1) obtain d1 where d1: "g (take i d) = Inr (d1, int (length bs))" "length d1 = i" "drop (i - length bs) d1 = bs"
    using i(2) unfolding marshals_def by fastforce
  have u: "unat (of_nat (length bs) :: 64 word) = length bs" using assms(2) by (simp add: unat_of_nat)
  have "list_all2 writes [wr_varint (of_nat (length bs)), wr_byte tag] [enc_varint (length bs), [tag]]"
    using writes_varint [of "of_nat (length bs)"] by (simp add: writes_byte u)
  from writes_seq [OF this] have w: "writes (wr_seq [wr_varint (of_nat (length bs)), wr_byte tag]) (tag # enc_varint (length bs))" by simp
  let ?d = "d1 @ drop i d" and ?i = "i - length bs"
  have "length (tag # enc_varint (length bs)) \<le> ?i" "?i \<le> length ?d" using i d1(2) by simp_all
  with w obtain d2 where d2: "wr_seq [wr_varint (of_nat (length bs)), wr_byte tag] (?d, int ?i) = Inr (d2, int (?i - length (tag # enc_varint (length bs))))"
    "length d2 = length ?d" "drop (?i - length (tag # enc_varint (length bs))) d2 = (tag # enc_varint (length bs)) @ drop ?i ?d"
    unfolding writes_def by blast
  have x: "?i - length (tag # enc_varint (length bs)) = i - length ?e" "int i - int (length bs) = int ?i" using i by simp_all
  have y: "drop ?i ?d = bs @ drop i d" using d1(2,3) i by simp
  have "wr_msg tag g (d, int i) = Inr (d2, int (i - length ?e))"
    using i(2) d1(1) d2(1) unfolding wr_msg_def x(1) by (simp add: x(2) del: wr_seq_simps)
  then show "\<exists>d'. wr_msg tag g (d, int i) = Inr (d', int (i - length ?e)) \<and> length d' = length d \<and> drop (i - length ?e) d' = ?e @ drop i d"
    using d2(2,3) d1(2) i(2) unfolding x(1) y by simp
qed

lemma length_enc_len: "length (enc_len n bs) = 1 + length (enc_varint (length bs)) + length bs"
  by (simp add: enc_len_def)

lemma len_size_enc: "length bs < 2 ^ 64 \<Longrightarrow> len_size (int (length bs)) = int (length (enc_len n bs))"
  by (simp add: len_size_def sov_length length_enc_len unat_of_nat)

lemma writes_field:
  "length bs < 2 ^ 64 \<Longrightarrow> writes (wr_len (of_nat (n * 8 + 2)) bs) (enc_len n bs)"
  "writes (wr_int32 (of_nat (n * 8)) v) (enc_int32 n v)"
  using writes_len [of bs "of_nat (n * 8 + 2)"] writes_int32 [of "of_nat (n * 8)" v] by (simp_all add: enc_len_def enc_int32_def)

lemma writes_msg_field:
  "marshals g bs \<Longrightarrow> length bs < 2 ^ 64 \<Longrightarrow> writes (wr_msg (of_nat (n * 8 + 2)) g) (enc_len n bs)"
  using writes_msg [of g bs "of_nat (n * 8 + 2)"] by (simp add: enc_len_def)

lemma marshals_None: "marshals (\<lambda>d. Inr (d, 0)) []"
  by (simp add: marshals_def)

lemma pid_marshals:
  assumes "length (enc_pid m) < 2 ^ 64"
  shows "marshals (pid_MarshalToSizedBufferVT m) (enc_pid m)" "pid_SizeVT m = int (length (enc_pid m))"
proof -
  show "marshals (pid_MarshalToSizedBufferVT m) (enc_pid m)"
  proof (cases m)
    case (Some p)
    have b: "length (Address p) < 2 ^ 64" "length (ID p) < 2 ^ 64"
      using assms by (auto simp: Some enc_pid_def length_enc_len split: if_splits)
    have "list_all2 writes (pid_writers p) [pv_unknown p, if 0 < length (ID p) then enc_len 2 (str_bytes (ID p)) else [],
        if 0 < length (Address p) then enc_len 1 (str_bytes (Address p)) else []]"
      using writes_field(1) [of "str_bytes (ID p)" 2] writes_field(1) [of "str_bytes (Address p)" 1] b
      by (simp add: pid_writers_def writes_bytes writes_Inr)
    from marshals_writes [OF writes_seq [OF this]] show ?thesis
      by (simp add: Some pid_MarshalToSizedBufferVT_def [abs_def] enc_pid_def del: wr_seq_simps)
  qed (simp add: pid_MarshalToSizedBufferVT_def [abs_def] enc_pid_def marshals_None)
  show "pid_SizeVT m = int (length (enc_pid m))"
  proof (cases m)
    case (Some p)
    have b: "length (str_bytes (Address p)) < 2 ^ 64" "length (str_bytes (ID p)) < 2 ^ 64"
      using assms by (auto simp: Some enc_pid_def length_enc_len split: if_splits)
    show ?thesis using len_size_enc [OF b(1), of 1] len_size_enc [OF b(2), of 2] by (simp add: Some pid_SizeVT_def enc_pid_def)
  qed (simp add: pid_SizeVT_def enc_pid_def)
qed

lemma message_marshals:
  assumes "length (enc_message m) < 2 ^ 64"
  shows "marshals (message_MarshalToSizedBufferVT m) (enc_message m)" "message_SizeVT m = int (length (enc_message m))"
proof -
  show "marshals (message_MarshalToSizedBufferVT m) (enc_message m)"
  proof (cases m)
    case (Some x)
    have b: "length (Data x) < 2 ^ 64"
      using assms by (auto simp: Some enc_message_def length_enc_len split: if_splits)
    have "list_all2 writes (message_writers x) [mv_unknown x, if TypeNameIndex x \<noteq> 0 then enc_int32 4 (TypeNameIndex x) else [],
        if SenderIndex x \<noteq> 0 then enc_int32 3 (SenderIndex x) else [], if TargetIndex x \<noteq> 0 then enc_int32 2 (TargetIndex x) else [],
        if 0 < length (Data x) then enc_len 1 (Data x) else []]"
      using writes_field(1) [OF b, of 1] writes_field(2) [of 2 "TargetIndex x"] writes_field(2) [of 3 "SenderIndex x"] writes_field(2) [of 4 "TypeNameIndex x"]
      by (simp add: message_writers_def writes_bytes writes_Inr)
    from marshals_writes [OF writes_seq [OF this]] show ?thesis
      by (simp add: Some message_MarshalToSizedBufferVT_def [abs_def] enc_message_def del: wr_seq_simps)
  qed (simp add: message_MarshalToSizedBufferVT_def [abs_def] enc_message_def marshals_None)
  show "message_SizeVT m = int (length (enc_message m))"
  proof (cases m)
    case (Some x)
    have b: "length (Data x) < 2 ^ 64"
      using assms by (auto simp: Some enc_message_def length_enc_len split: if_splits)
    show ?thesis using len_size_enc [OF b, of 1] by (simp add: Some message_SizeVT_def enc_message_def sov_length enc_int32_def)
  qed (simp add: message_SizeVT_def enc_message_def)
qed

lemma length_concat_ge: "x \<in> set xs \<Longrightarrow> length (f x) \<le> length (concat (map f xs))"
  by (induction xs) auto

lemma enc_envelope_bounds:
  assumes "length (enc_envelope e) < N"
  shows "s \<in> set (ev_TypeNames e) \<Longrightarrow> length (str_bytes s) < N"
    and "p \<in> set (ev_Targets e) \<union> set (ev_Senders e) \<Longrightarrow> length (enc_pid p) < N"
    and "m \<in> set (ev_Messages e) \<Longrightarrow> length (enc_message m) < N"
proof -
  let ?t = "\<lambda>s. enc_len 1 (str_bytes s)" and ?g = "\<lambda>p. enc_len 2 (enc_pid p)" and ?s = "\<lambda>p. enc_len 3 (enc_pid p)"
    and ?m = "\<lambda>m. enc_len 4 (enc_message m)"
  have l: "length (concat (map ?t (ev_TypeNames e))) < N" "length (concat (map ?g (ev_Targets e))) < N"
    "length (concat (map ?s (ev_Senders e))) < N" "length (concat (map ?m (ev_Messages e))) < N"
    using assms by (simp_all add: enc_envelope_def)
  show "length (str_bytes s) < N" if "s \<in> set (ev_TypeNames e)"
    using l(1) length_concat_ge [OF that, of ?t] by (simp add: length_enc_len)
  show "length (enc_pid p) < N" if "p \<in> set (ev_Targets e) \<union> set (ev_Senders e)"
    using that l(2,3) length_concat_ge [of p "ev_Targets e" ?g] length_concat_ge [of p "ev_Senders e" ?s] by (auto simp: length_enc_len)
  show "length (enc_message m) < N" if "m \<in> set (ev_Messages e)"
    using l(4) length_concat_ge [OF that, of ?m] by (simp add: length_enc_len)
qed

lemma list_all2_map_rev: "(\<And>x. x \<in> set xs \<Longrightarrow> P (f x) (g x)) \<Longrightarrow> list_all2 P (map f (rev xs)) (map g (rev xs))"
  by (auto simp: list_all2_conv_all_nth rev_nth)

lemma concat_rev_map: "concat (rev (map f (rev xs))) = concat (map f xs)"
  by (simp add: rev_map)

lemma envelope_marshals:
  assumes "length (enc_envelope e) < 2 ^ 64"
  shows "marshals (envelope_MarshalToSizedBufferVT e) (enc_envelope e)" "envelope_SizeVT e = int (length (enc_envelope e))"
proof -
  note b = enc_envelope_bounds [OF assms]
  have "list_all2 writes (envelope_writers e) ([ev_unknown e]
      @ map (\<lambda>m. enc_len 4 (enc_message m)) (rev (ev_Messages e)) @ map (\<lambda>p. enc_len 3 (enc_pid p)) (rev (ev_Senders e))
      @ map (\<lambda>p. enc_len 2 (enc_pid p)) (rev (ev_Targets e)) @ map (\<lambda>s. enc_len 1 (str_bytes s)) (rev (ev_TypeNames e)))"
    unfolding envelope_writers_def
    using writes_msg_field [OF message_marshals(1), of _ 4] writes_msg_field [OF pid_marshals(1), of _ 3]
      writes_msg_field [OF pid_marshals(1), of _ 2] writes_field(1) [of _ 1] b
    by (intro list_all2_appendI list_all2_map_rev) (simp_all add: writes_bytes)
  from marshals_writes [OF writes_seq [OF this]]
  show "marshals (envelope_MarshalToSizedBufferVT e) (enc_envelope e)"
    by (simp add: envelope_MarshalToSizedBufferVT_def [abs_def] enc_envelope_def concat_rev_map del: wr_seq_simps)
  have sums: "sum_list (map k xs) = int (length (concat (map g xs)))" if "\<And>x. x \<in> set xs \<Longrightarrow> k x = int (length (g x))"
    for k :: "'x \<Rightarrow> int" and g :: "'x \<Rightarrow> byte list" and xs
    using that by (induction xs) simp_all
  have l: "len_size (pid_SizeVT p) = int (length (enc_len n (enc_pid p)))" if "p \<in> set (ev_Targets e) \<union> set (ev_Senders e)" for p n
    using b(2) [OF that] by (simp add: pid_marshals(2) len_size_enc [of _ n])
  have "sum_list (map (\<lambda>s. len_size (int (length s))) (ev_TypeNames e)) = int (length (concat (map (\<lambda>s. enc_len 1 (str_bytes s)) (ev_TypeNames e))))"
    using b(1) len_size_enc [of "str_bytes _" 1] by (intro sums) simp
  moreover have "sum_list (map (\<lambda>p. len_size (pid_SizeVT p)) (ev_Targets e)) = int (length (concat (map (\<lambda>p. enc_len 2 (enc_pid p)) (ev_Targets e))))"
    "sum_list (map (\<lambda>p. len_size (pid_SizeVT p)) (ev_Senders e)) = int (length (concat (map (\<lambda>p. enc_len 3 (enc_pid p)) (ev_Senders e))))"
    by (intro sums l; simp)+
  moreover have "sum_list (map (\<lambda>m. len_size (message_SizeVT m)) (ev_Messages e)) = int (length (concat (map (\<lambda>m. enc_len 4 (enc_message m)) (ev_Messages e))))"
    using b(3) by (intro sums) (simp add: message_marshals(2) len_size_enc [of _ 4])
  ultimately show "envelope_SizeVT e = int (length (enc_envelope e))" by (simp add: envelope_SizeVT_def enc_envelope_def)
qed

lemma marshal_sized_exact:
  assumes "marshals g bs"
  shows "marshal_sized (int (length bs)) g = Inr bs"
proof -
  have "length bs \<le> length (replicate (length bs) (0 :: byte))" by simp
  with assms obtain d' where "g (replicate (length bs) 0) = Inr (d', int (length bs))" "length d' = length bs" "drop 0 d' = bs"
    unfolding marshals_def by (metis cancel_comm_monoid_add_class.diff_cancel length_replicate)
  then show ?thesis by (simp add: marshal_sized_def)
qed

text \<open>
  C9. Marshalling is exact. The sizes computed by \<open>SizeVT\<close> are the sizes written: filling the
  buffer from its end never leaves it, and the bytes are the reference encoding, fields in the
  order of the schema.
\<close>

theorem marshal_exact:
  assumes "length (enc_envelope e) < 2 ^ 64"
  shows "envelope_MarshalVT e = Inr (enc_envelope e) \<and> envelope_SizeVT e = int (length (enc_envelope e))
    \<and> (\<forall>p \<in> set (ev_Targets e) \<union> set (ev_Senders e). \<forall>q. p = Some q \<longrightarrow> pid_MarshalVT q = Inr (enc_pid p))
    \<and> (\<forall>m \<in> set (ev_Messages e). \<forall>x. m = Some x \<longrightarrow> message_MarshalVT x = Inr (enc_message m))"
proof -
  note m = envelope_marshals [OF assms] and b = enc_envelope_bounds [OF assms]
  have "envelope_MarshalVT e = Inr (enc_envelope e)" using marshal_sized_exact [OF m(1)] by (simp add: envelope_MarshalVT_def m(2))
  moreover have "pid_MarshalVT q = Inr (enc_pid p)" if "p \<in> set (ev_Targets e) \<union> set (ev_Senders e)" "p = Some q" for p q
    using marshal_sized_exact [OF pid_marshals(1) [OF b(2) [OF that(1)]]] b(2) [OF that(1)] that(2)
    by (simp add: pid_MarshalVT_def pid_marshals(2))
  moreover have "message_MarshalVT x = Inr (enc_message k)" if "k \<in> set (ev_Messages e)" "k = Some x" for k x
    using marshal_sized_exact [OF message_marshals(1) [OF b(3) [OF that(1)]]] b(3) [OF that(1)] that(2)
    by (simp add: message_MarshalVT_def message_marshals(2))
  ultimately show ?thesis using m(2) by blast
qed


subsection \<open>Unmarshalling is safe\<close>

definition fields_safe :: "(int \<Rightarrow> 'm field option) \<Rightarrow> bool" where
  "fields_safe known \<longleftrightarrow> (\<forall>n store bs m. known n = Some (LenField store) \<longrightarrow> length bs < 2 ^ 63 \<longrightarrow> settled (store bs m))"

lemma read_bytes_length: "read_bytes d i = Ok (bs, j) \<Longrightarrow> length bs \<le> length d"
  by (auto simp: read_bytes_def bindD_eq_Ok go_slice_def Let_def split: if_splits)

lemma unmarshal_loop_settled:
  assumes "fields_safe known" "length d < 2 ^ 63"
  shows "length d - i < f \<Longrightarrow> settled (unmarshal_loop f known unknown d i m)"
proof (induction f arbitrary: i m)
  case (Suc f)
  show ?case
  proof (cases "i < length d")
    case True
    have nxt: "settled (unmarshal_loop f known unknown d j m')" if "i < j" for j m'
      using Suc.IH [of j m'] Suc.prems True that by simp
    have len: "settled (bindD (read_bytes d i1) (\<lambda>(bs, j). bindD (store bs m) (unmarshal_loop f known unknown d j)))"
      if "i < i1" "known n = Some (LenField store)" for i1 n store
    proof (intro settled_bindD read_bytes_settled(1) [OF assms(2)])
      fix x
      assume r: "read_bytes d i1 = Ok x"
      obtain bs j where x: "x = (bs, j)" by fastforce
      have "i < j" "length bs < 2 ^ 63"
        using read_bytes_settled(2) [OF assms(2)] read_bytes_length r that(1) assms(2) unfolding x by fastforce+
      then show "settled ((\<lambda>(bs, j). bindD (store bs m) (unmarshal_loop f known unknown d j)) x)"
        using assms(1) that(2) nxt by (auto simp: x fields_safe_def intro!: settled_bindD)
    qed
    have var: "settled (bindD (read_varint d 0 i1 0) (\<lambda>(v, j). unmarshal_loop f known unknown d j (store v m)))"
      if "i < i1" for i1 and store :: "32 word \<Rightarrow> 'a \<Rightarrow> 'a"
      using that nxt by (auto intro!: settled_bindD settled_read_varint dest!: read_varint_moves)
    have skip: "settled (bindD (vt_skip (drop i d)) (\<lambda>skippy.
        let j = add_int (int i) (int skippy) in
        if j < 0 then Err ErrInvalidLength else if int (length d) < j then Err ErrUnexpectedEOF
        else bindD (go_slice d i j) (\<lambda>bs. unmarshal_loop f known unknown d (nat j) (unknown bs m))))"
    proof (intro settled_bindD)
      show "settled (vt_skip (drop i d))" using assms(2) by (intro vt_skip_settled(1)) simp
      fix n
      assume "vt_skip (drop i d) = Ok n"
      then have n: "0 < n" "n < 2 ^ 63" using vt_skip_settled(2) [of "drop i d" n] assms(2) by simp_all
      then have "add_int (int i) (int n) < 0 \<or> add_int (int i) (int n) = int i + int n" using True assms(2) by (intro add_int_moves) simp_all
      then show "settled (let j = add_int (int i) (int n) in
        if j < 0 then Err ErrInvalidLength else if int (length d) < j then Err ErrUnexpectedEOF
        else bindD (go_slice d i j) (\<lambda>bs. unmarshal_loop f known unknown d (nat j) (unknown bs m)))"
        using nxt n(1) by (auto simp: go_slice_def Let_def)
    qed
    show ?thesis
      using True len var skip
      by (auto simp: unmarshal_loop.simps(2) Let_def intro!: settled_bindD settled_read_varint dest!: read_varint_moves split: option.split field.split)
  qed (simp add: unmarshal_loop.simps(2))
qed simp

lemma unmarshal_settled:
  assumes "fields_safe known" "length d < 2 ^ 63"
  shows "settled (unmarshal known unknown d m)"
  using unmarshal_loop_settled [OF assms, of 0 "Suc (length d)"] by (simp add: unmarshal_def)

text \<open>
  C8. No input breaks the decoder. Whatever bytes arrive, well formed or not, \<open>UnmarshalVT\<close> of an
  envelope, a message or a PID ends with a value or an error: it never reads outside the data,
  however large the lengths claimed in it, and never loops.
\<close>

theorem unmarshal_never_panics:
  assumes "length d < 2 ^ 63"
  shows "settled (envelope_UnmarshalVT d e) \<and> settled (message_UnmarshalVT d x) \<and> settled (pid_UnmarshalVT d p)"
proof -
  have "fields_safe pid_fields" "fields_safe message_fields" by (auto simp: fields_safe_def pid_fields_def message_fields_def)
  then have p: "settled (pid_UnmarshalVT b q)" and m: "settled (message_UnmarshalVT b y)" if "length b < 2 ^ 63" for b q y
    using that by (simp_all add: pid_UnmarshalVT_def message_UnmarshalVT_def unmarshal_settled)
  have "fields_safe envelope_fields"
    using p m by (auto simp: fields_safe_def envelope_fields_def intro!: settled_bindD split: if_splits)
  then show ?thesis using p m assms by (simp add: envelope_UnmarshalVT_def unmarshal_settled)
qed

theorem unmarshal_never_panics_witness:
  "settled (envelope_UnmarshalVT [0x12, 0xff, 0xff, 0xff, 0xff, 0xff, 0xff, 0xff, 0xff, 0x7f] zero_envelope)"
  using unmarshal_never_panics [of "[0x12, 0xff, 0xff, 0xff, 0xff, 0xff, 0xff, 0xff, 0xff, 0x7f]"] by simp


subsection \<open>Unmarshalling what was marshalled\<close>

text \<open>In front of any rest the loop reads \<open>bs\<close> and goes on behind it with the message changed from \<open>m\<close> to \<open>m'\<close>.\<close>

definition reads :: "(int \<Rightarrow> 'm field option) \<Rightarrow> (byte list \<Rightarrow> 'm \<Rightarrow> 'm) \<Rightarrow> byte list \<Rightarrow> 'm \<Rightarrow> 'm \<Rightarrow> bool" where
  "reads known unknown bs m m' \<longleftrightarrow> (\<forall>d i rest f. drop i d = bs @ rest \<and> length d < 2 ^ 63 \<and> i \<le> length d \<and> length d - i < f \<longrightarrow>
     (\<exists>f'. length d - (i + length bs) < f' \<and>
       unmarshal_loop f known unknown d i m = unmarshal_loop f' known unknown d (i + length bs) m'))"

lemma reads_Nil: "reads known unknown [] m m"
  by (auto simp: reads_def)

lemma reads_append:
  assumes "reads known unknown a m m1" "reads known unknown b m1 m2"
  shows "reads known unknown (a @ b) m m2"
  unfolding reads_def
proof (intro allI impI, elim conjE)
  fix d i rest f
  assume d: "drop i d = (a @ b) @ rest" "length d < 2 ^ 63" "i \<le> length d" "length d - i < f"
  then obtain f1 where f1: "length d - (i + length a) < f1"
    "unmarshal_loop f known unknown d i m = unmarshal_loop f1 known unknown d (i + length a) m1"
    using assms(1) unfolding reads_def by fastforce
  have "length (drop i d) = length ((a @ b) @ rest)" using d(1) by simp
  then have l: "i + length a \<le> length d" using d(3) by simp
  have "drop (i + length a) d = b @ rest" using d(1) by (metis add.commute append.assoc append_eq_conv_conj drop_drop)
  then obtain f2 where "length d - (i + length a + length b) < f2"
    "unmarshal_loop f1 known unknown d (i + length a) m1 = unmarshal_loop f2 known unknown d (i + length a + length b) m2"
    using assms(2) d(2) f1(1) l unfolding reads_def by blast
  then show "\<exists>f'. length d - (i + length (a @ b)) < f' \<and>
      unmarshal_loop f known unknown d i m = unmarshal_loop f' known unknown d (i + length (a @ b)) m2"
    using f1(2) by (intro exI [of _ f2]) (simp add: add.assoc)
qed

lemma reads_unmarshal:
  assumes "reads known unknown bs m m'" "length bs < 2 ^ 63"
  shows "unmarshal known unknown bs m = Ok m'"
proof -
  have "drop 0 bs = bs @ []" "length bs < 2 ^ 63" "0 \<le> length bs" "length bs - 0 < Suc (length bs)" using assms(2) by simp_all
  then obtain f where "length bs - (0 + length bs) < f"
    "unmarshal_loop (Suc (length bs)) known unknown bs 0 m = unmarshal_loop f known unknown bs (0 + length bs) m'"
    using assms(1) unfolding reads_def by blast
  then show ?thesis by (cases f) (simp_all add: unmarshal_def unmarshal_loop.simps(2))
qed

lemma read_tag:
  assumes "drop i d = of_nat k # rest" "k < 128"
  shows "read_varint d 0 i (0 :: 64 word) = Ok (of_nat k, Suc i)" "i < length d" "drop (Suc i) d = rest"
proof -
  have e: "enc_varint k = [of_nat k]" using assms(2) by (simp add: enc_varint.simps)
  have k: "k < 2 ^ (64 - 0)" using assms(2) by simp
  show "read_varint d 0 i (0 :: 64 word) = Ok (of_nat k, Suc i)"
    using read_enc_varint [of i d k rest 0 0] assms(1) k by (simp add: e)
  show "i < length d" using assms(1) by (metis drop_eq_Nil list.distinct(1) not_le)
  show "drop (Suc i) d = rest" using assms(1) by (metis drop_Suc list.sel(3) tl_drop)
qed

lemma tag_parts:
  assumes "n \<in> {1, 2, 3, 4 :: nat}" "k < 3"
  shows "sint (ucast (drop_bit 3 (of_nat (n * 8 + k) :: 64 word)) :: 32 word) = int n" "unat ((of_nat (n * 8 + k) :: 64 word) AND 7) = k"
proof -
  have "k = 0 \<or> k = 1 \<or> k = 2" using assms(2) by auto
  then show "sint (ucast (drop_bit 3 (of_nat (n * 8 + k) :: 64 word)) :: 32 word) = int n" "unat ((of_nat (n * 8 + k) :: 64 word) AND 7) = k"
    using assms(1) by auto
qed

lemma reads_len:
  assumes "n \<in> {1, 2, 3, 4}" "known (int n) = Some (LenField store)" "store bs m = Ok m'"
  shows "reads known unknown (enc_len n bs) m m'"
  unfolding reads_def
proof (intro allI impI, elim conjE)
  fix d i rest f
  let ?r = "enc_varint (length bs) @ bs"
  assume d: "drop i d = enc_len n bs @ rest" "length d < 2 ^ 63" "i \<le> length d" "length d - i < f"
  then have "drop i d = of_nat (n * 8 + 2) # ?r @ rest" by (simp add: enc_len_def)
  moreover have "n * 8 + 2 < 128" using assms(1) by auto
  ultimately have t: "read_varint d 0 i (0 :: 64 word) = Ok (of_nat (n * 8 + 2), Suc i)" "i < length d" "drop (Suc i) d = ?r @ rest"
    by (rule read_tag)+
  have b: "read_bytes d (Suc i) = Ok (bs, Suc i + length ?r)"
    using read_bytes_enc [of "Suc i" d bs rest] t(3) d(2) by simp
  obtain f1 where f: "f = Suc f1" using d(4) by (cases f) auto
  have n0: "n \<noteq> 0" using assms(1) by auto
  have "length d - (i + length (enc_len n bs)) < f1" using d(4) t(2) by (simp add: f length_enc_len)
  moreover have "unmarshal_loop f known unknown d i m = unmarshal_loop f1 known unknown d (i + length (enc_len n bs)) m'"
    using t(1,2) b assms(2,3) tag_parts [OF assms(1), of 2] n0
    by (simp add: f unmarshal_loop.simps(2) Let_def length_enc_len del: of_nat_add of_nat_mult)
  ultimately show "\<exists>f'. length d - (i + length (enc_len n bs)) < f' \<and>
      unmarshal_loop f known unknown d i m = unmarshal_loop f' known unknown d (i + length (enc_len n bs)) m'" by blast
qed

lemma ucast_scast: "ucast (scast (v :: 32 word) :: 64 word) = v"
  by (rule bit_word_eqI) (simp add: bit_simps)

lemma reads_int32:
  assumes "n \<in> {1, 2, 3, 4}" "known (int n) = Some (VarField store)"
  shows "reads known unknown (enc_int32 n v) m (store v m)"
  unfolding reads_def
proof (intro allI impI, elim conjE)
  fix d i rest f
  let ?k = "unat (scast v :: 64 word)"
  assume d: "drop i d = enc_int32 n v @ rest" "length d < 2 ^ 63" "i \<le> length d" "length d - i < f"
  then have "drop i d = of_nat (n * 8 + 0) # enc_varint ?k @ rest" by (simp add: enc_int32_def)
  moreover have "n * 8 + 0 < 128" using assms(1) by auto
  ultimately have t: "read_varint d 0 i (0 :: 64 word) = Ok (of_nat (n * 8 + 0), Suc i)" "i < length d" "drop (Suc i) d = enc_varint ?k @ rest"
    by (rule read_tag)+
  have "?k < 2 ^ (64 - 0)" using unsigned_less [of "scast v :: 64 word"] by simp
  moreover have "of_nat ?k = v" by (simp add: ucast_scast)
  ultimately have b: "read_varint d 0 (Suc i) 0 = Ok (v, Suc i + length (enc_varint ?k))"
    using read_enc_varint [OF t(3), of 0 "0 :: 32 word"] by simp
  obtain f1 where f: "f = Suc f1" using d(4) by (cases f) auto
  have n0: "n \<noteq> 0" using assms(1) by auto
  have "length d - (i + length (enc_int32 n v)) < f1" using d(4) t(2) by (simp add: f enc_int32_def)
  moreover have "unmarshal_loop f known unknown d i m = unmarshal_loop f1 known unknown d (i + length (enc_int32 n v)) (store v m)"
    using t(1,2) b assms(2) tag_parts [OF assms(1), of 0] n0
    by (simp add: f unmarshal_loop.simps(2) Let_def enc_int32_def del: of_nat_add of_nat_mult)
  ultimately show "\<exists>f'. length d - (i + length (enc_int32 n v)) < f' \<and>
      unmarshal_loop f known unknown d i m = unmarshal_loop f' known unknown d (i + length (enc_int32 n v)) (store v m)" by blast
qed

lemma reads_concat:
  assumes "\<And>x m. x \<in> set xs \<Longrightarrow> reads known unknown (g x) m (h x m)"
  shows "reads known unknown (concat (map g xs)) m (fold h xs m)"
  using assms
proof (induction xs arbitrary: m)
  case (Cons x xs)
  then show ?case using reads_append [of known unknown "g x" m "h x m" "concat (map g xs)"] by simp
qed (simp add: reads_Nil)

lemma bytes_str_bytes [simp]: "bytes_str (str_bytes s) = s"
proof -
  have "char_of (unat (of_nat (of_char c) :: byte)) = c" for c
    using of_char_of [of "of_char c :: nat"] by (simp add: unat_of_nat)
  then show ?thesis by (simp add: bytes_str_def str_bytes_def comp_def)
qed

text \<open>Without unknown fields.\<close>

definition plain_pid :: "pid_vt option \<Rightarrow> bool" where
  "plain_pid m \<longleftrightarrow> (\<forall>p. m = Some p \<longrightarrow> pv_unknown p = [])"

definition plain_message :: "message_vt option \<Rightarrow> bool" where
  "plain_message m \<longleftrightarrow> (\<forall>x. m = Some x \<longrightarrow> mv_unknown x = [])"

lemma pid_reads:
  "reads pid_fields u (enc_len 1 (str_bytes s)) p (p\<lparr>Address := s\<rparr>)"
  "reads pid_fields u (enc_len 2 (str_bytes s)) p (p\<lparr>ID := s\<rparr>)"
proof -
  show "reads pid_fields u (enc_len 1 (str_bytes s)) p (p\<lparr>Address := s\<rparr>)"
    by (rule reads_len [of _ _ "\<lambda>bs p. Ok (p\<lparr>Address := bytes_str bs\<rparr>)"]) (simp_all add: pid_fields_def)
  show "reads pid_fields u (enc_len 2 (str_bytes s)) p (p\<lparr>ID := s\<rparr>)"
    by (rule reads_len [of _ _ "\<lambda>bs p. Ok (p\<lparr>ID := bytes_str bs\<rparr>)"]) (simp_all add: pid_fields_def)
qed

lemma message_reads:
  "reads message_fields u (enc_len 1 bs) x (x\<lparr>Data := bs\<rparr>)"
  "reads message_fields u (enc_int32 2 v) x (x\<lparr>TargetIndex := v\<rparr>)"
  "reads message_fields u (enc_int32 3 v) x (x\<lparr>SenderIndex := v\<rparr>)"
  "reads message_fields u (enc_int32 4 v) x (x\<lparr>TypeNameIndex := v\<rparr>)"
proof -
  show "reads message_fields u (enc_len 1 bs) x (x\<lparr>Data := bs\<rparr>)" by (rule reads_len; simp add: message_fields_def)
  show "reads message_fields u (enc_int32 2 v) x (x\<lparr>TargetIndex := v\<rparr>)"
    by (rule reads_int32 [of _ _ "\<lambda>v x. x\<lparr>TargetIndex := v\<rparr>"]; simp add: message_fields_def)
  show "reads message_fields u (enc_int32 3 v) x (x\<lparr>SenderIndex := v\<rparr>)"
    by (rule reads_int32 [of _ _ "\<lambda>v x. x\<lparr>SenderIndex := v\<rparr>"]; simp add: message_fields_def)
  show "reads message_fields u (enc_int32 4 v) x (x\<lparr>TypeNameIndex := v\<rparr>)"
    by (rule reads_int32 [of _ _ "\<lambda>v x. x\<lparr>TypeNameIndex := v\<rparr>"]; simp add: message_fields_def)
qed

lemma reads_opt: "reads known unknown bs m m' \<Longrightarrow> reads known unknown (if c then bs else []) m (if c then m' else m)"
  by (simp add: reads_Nil)

lemma pid_roundtrip:
  assumes "plain_pid m" "length (enc_pid m) < 2 ^ 63"
  shows "pid_UnmarshalVT (enc_pid m) zero_pid = Ok (case m of None \<Rightarrow> zero_pid | Some p \<Rightarrow> p)"
proof (cases m)
  case None
  show ?thesis
    unfolding pid_UnmarshalVT_def None by (intro reads_unmarshal) (simp_all add: enc_pid_def reads_Nil)
next
  case (Some p)
  let ?u = "\<lambda>bs p. p\<lparr>pv_unknown := pv_unknown p @ bs\<rparr>"
  let ?p1 = "if Address p \<noteq> [] then zero_pid\<lparr>Address := Address p\<rparr> else zero_pid"
  let ?p2 = "if ID p \<noteq> [] then ?p1\<lparr>ID := ID p\<rparr> else ?p1"
  have u: "pv_unknown p = []" using assms(1) by (simp add: plain_pid_def Some)
  have "reads pid_fields ?u (enc_pid m) zero_pid ?p2"
    unfolding Some enc_pid_def option.case u append_Nil2 by (intro reads_append [of _ _ _ _ ?p1] reads_opt pid_reads)
  moreover have "?p2 = p" using assms(1) by (cases p) (auto simp: zero_pid_def plain_pid_def Some u)
  ultimately show ?thesis using reads_unmarshal [OF _ assms(2)] by (simp add: pid_UnmarshalVT_def Some)
qed

lemma message_roundtrip:
  assumes "plain_message m" "length (enc_message m) < 2 ^ 63"
  shows "message_UnmarshalVT (enc_message m) zero_message = Ok (case m of None \<Rightarrow> zero_message | Some x \<Rightarrow> x)"
proof (cases m)
  case None
  show ?thesis
    unfolding message_UnmarshalVT_def None by (intro reads_unmarshal) (simp_all add: enc_message_def reads_Nil)
next
  case (Some x)
  let ?u = "\<lambda>bs x. x\<lparr>mv_unknown := mv_unknown x @ bs\<rparr>"
  let ?x1 = "if Data x \<noteq> [] then zero_message\<lparr>Data := Data x\<rparr> else zero_message"
  let ?x2 = "if TargetIndex x \<noteq> 0 then ?x1\<lparr>TargetIndex := TargetIndex x\<rparr> else ?x1"
  let ?x3 = "if SenderIndex x \<noteq> 0 then ?x2\<lparr>SenderIndex := SenderIndex x\<rparr> else ?x2"
  let ?x4 = "if TypeNameIndex x \<noteq> 0 then ?x3\<lparr>TypeNameIndex := TypeNameIndex x\<rparr> else ?x3"
  have u: "mv_unknown x = []" using assms(1) by (simp add: plain_message_def Some)
  have "reads message_fields ?u (enc_message m) zero_message ?x4"
    unfolding Some enc_message_def option.case u append_Nil2
    by (intro reads_append [of _ _ _ _ ?x1] reads_append [of _ _ _ _ ?x2] reads_append [of _ _ _ _ ?x3] reads_opt message_reads)
  moreover have "?x4 = x" using u by (cases x) (auto simp: zero_message_def)
  ultimately show ?thesis using reads_unmarshal [OF _ assms(2)] by (simp add: message_UnmarshalVT_def Some)
qed


text \<open>What a nil pointer of a repeated field becomes on the other side.\<close>

definition filled_pid :: "pid_vt option \<Rightarrow> pid_vt" where
  "filled_pid m = (case m of None \<Rightarrow> zero_pid | Some p \<Rightarrow> p)"

definition filled_message :: "message_vt option \<Rightarrow> message_vt" where
  "filled_message m = (case m of None \<Rightarrow> zero_message | Some x \<Rightarrow> x)"

lemma envelope_reads:
  "reads envelope_fields u (enc_len 1 (str_bytes s)) e (e\<lparr>ev_TypeNames := ev_TypeNames e @ [s]\<rparr>)"
  "plain_pid p \<Longrightarrow> length (enc_pid p) < 2 ^ 63 \<Longrightarrow> reads envelope_fields u (enc_len 2 (enc_pid p)) e (e\<lparr>ev_Targets := ev_Targets e @ [Some (filled_pid p)]\<rparr>)"
  "plain_pid p \<Longrightarrow> length (enc_pid p) < 2 ^ 63 \<Longrightarrow> reads envelope_fields u (enc_len 3 (enc_pid p)) e (e\<lparr>ev_Senders := ev_Senders e @ [Some (filled_pid p)]\<rparr>)"
  "plain_message m \<Longrightarrow> length (enc_message m) < 2 ^ 63 \<Longrightarrow> reads envelope_fields u (enc_len 4 (enc_message m)) e (e\<lparr>ev_Messages := ev_Messages e @ [Some (filled_message m)]\<rparr>)"
proof -
  show "reads envelope_fields u (enc_len 1 (str_bytes s)) e (e\<lparr>ev_TypeNames := ev_TypeNames e @ [s]\<rparr>)"
    by (rule reads_len [of _ _ "\<lambda>bs e. Ok (e\<lparr>ev_TypeNames := ev_TypeNames e @ [bytes_str bs]\<rparr>)"]) (simp_all add: envelope_fields_def)
  show "reads envelope_fields u (enc_len 2 (enc_pid p)) e (e\<lparr>ev_Targets := ev_Targets e @ [Some (filled_pid p)]\<rparr>)"
    if "plain_pid p" "length (enc_pid p) < 2 ^ 63"
    using pid_roundtrip [OF that]
    by (intro reads_len [of _ _ "\<lambda>bs e. bindD (pid_UnmarshalVT bs zero_pid) (\<lambda>p. Ok (e\<lparr>ev_Targets := ev_Targets e @ [Some p]\<rparr>))"])
      (simp_all add: envelope_fields_def filled_pid_def)
  show "reads envelope_fields u (enc_len 3 (enc_pid p)) e (e\<lparr>ev_Senders := ev_Senders e @ [Some (filled_pid p)]\<rparr>)"
    if "plain_pid p" "length (enc_pid p) < 2 ^ 63"
    using pid_roundtrip [OF that]
    by (intro reads_len [of _ _ "\<lambda>bs e. bindD (pid_UnmarshalVT bs zero_pid) (\<lambda>p. Ok (e\<lparr>ev_Senders := ev_Senders e @ [Some p]\<rparr>))"])
      (simp_all add: envelope_fields_def filled_pid_def)
  show "reads envelope_fields u (enc_len 4 (enc_message m)) e (e\<lparr>ev_Messages := ev_Messages e @ [Some (filled_message m)]\<rparr>)"
    if "plain_message m" "length (enc_message m) < 2 ^ 63"
    using message_roundtrip [OF that]
    by (intro reads_len [of _ _ "\<lambda>bs e. bindD (message_UnmarshalVT bs zero_message) (\<lambda>x. Ok (e\<lparr>ev_Messages := ev_Messages e @ [Some x]\<rparr>))"])
      (simp_all add: envelope_fields_def filled_message_def)
qed

lemma envelope_folds:
  "fold (\<lambda>s e. e\<lparr>ev_TypeNames := ev_TypeNames e @ [s]\<rparr>) ss e = e\<lparr>ev_TypeNames := ev_TypeNames e @ ss\<rparr>"
  "fold (\<lambda>p e. e\<lparr>ev_Targets := ev_Targets e @ [Some (filled_pid p)]\<rparr>) ps e = e\<lparr>ev_Targets := ev_Targets e @ map (Some \<circ> filled_pid) ps\<rparr>"
  "fold (\<lambda>p e. e\<lparr>ev_Senders := ev_Senders e @ [Some (filled_pid p)]\<rparr>) ps e = e\<lparr>ev_Senders := ev_Senders e @ map (Some \<circ> filled_pid) ps\<rparr>"
  "fold (\<lambda>m e. e\<lparr>ev_Messages := ev_Messages e @ [Some (filled_message m)]\<rparr>) ms e = e\<lparr>ev_Messages := ev_Messages e @ map (Some \<circ> filled_message) ms\<rparr>"
proof -
  show "fold (\<lambda>s e. e\<lparr>ev_TypeNames := ev_TypeNames e @ [s]\<rparr>) ss e = e\<lparr>ev_TypeNames := ev_TypeNames e @ ss\<rparr>"
    by (induction ss arbitrary: e) simp_all
  show "fold (\<lambda>p e. e\<lparr>ev_Targets := ev_Targets e @ [Some (filled_pid p)]\<rparr>) ps e = e\<lparr>ev_Targets := ev_Targets e @ map (Some \<circ> filled_pid) ps\<rparr>"
    by (induction ps arbitrary: e) simp_all
  show "fold (\<lambda>p e. e\<lparr>ev_Senders := ev_Senders e @ [Some (filled_pid p)]\<rparr>) ps e = e\<lparr>ev_Senders := ev_Senders e @ map (Some \<circ> filled_pid) ps\<rparr>"
    by (induction ps arbitrary: e) simp_all
  show "fold (\<lambda>m e. e\<lparr>ev_Messages := ev_Messages e @ [Some (filled_message m)]\<rparr>) ms e = e\<lparr>ev_Messages := ev_Messages e @ map (Some \<circ> filled_message) ms\<rparr>"
    by (induction ms arbitrary: e) simp_all
qed

lemma envelope_roundtrip:
  assumes "length (enc_envelope e) < 2 ^ 63" "\<forall>p \<in> set (ev_Targets e) \<union> set (ev_Senders e). plain_pid p"
    "\<forall>m \<in> set (ev_Messages e). plain_message m" "ev_unknown e = []"
  shows "envelope_UnmarshalVT (enc_envelope e) zero_envelope
    = Ok (e\<lparr>ev_Targets := map (Some \<circ> filled_pid) (ev_Targets e), ev_Senders := map (Some \<circ> filled_pid) (ev_Senders e),
            ev_Messages := map (Some \<circ> filled_message) (ev_Messages e)\<rparr>)"
proof -
  note b = enc_envelope_bounds [OF assms(1)]
  let ?u = "\<lambda>bs e. e\<lparr>ev_unknown := ev_unknown e @ bs\<rparr>"
  let ?e1 = "fold (\<lambda>s e. e\<lparr>ev_TypeNames := ev_TypeNames e @ [s]\<rparr>) (ev_TypeNames e) zero_envelope"
  let ?e2 = "fold (\<lambda>p e. e\<lparr>ev_Targets := ev_Targets e @ [Some (filled_pid p)]\<rparr>) (ev_Targets e) ?e1"
  let ?e3 = "fold (\<lambda>p e. e\<lparr>ev_Senders := ev_Senders e @ [Some (filled_pid p)]\<rparr>) (ev_Senders e) ?e2"
  let ?e4 = "fold (\<lambda>m e. e\<lparr>ev_Messages := ev_Messages e @ [Some (filled_message m)]\<rparr>) (ev_Messages e) ?e3"
  have "reads envelope_fields ?u (enc_envelope e) zero_envelope ?e4"
    unfolding enc_envelope_def assms(4) append_Nil2 using b assms(2,3)
    by (intro reads_append [of _ _ _ _ ?e1] reads_append [of _ _ _ _ ?e2] reads_append [of _ _ _ _ ?e3] reads_concat envelope_reads) auto
  moreover have "?e4 = e\<lparr>ev_Targets := map (Some \<circ> filled_pid) (ev_Targets e), ev_Senders := map (Some \<circ> filled_pid) (ev_Senders e),
      ev_Messages := map (Some \<circ> filled_message) (ev_Messages e)\<rparr>"
    using assms(4) unfolding envelope_folds by (cases e) (simp add: zero_envelope_def)
  ultimately show ?thesis using reads_unmarshal [OF _ assms(1)] by (simp add: envelope_UnmarshalVT_def)
qed

subsection \<open>The envelope of a stream over the wire\<close>

definition vt_pid :: "pid \<Rightarrow> pid_vt" where
  "vt_pid q = \<lparr>Address = Address q, ID = ID q, pv_unknown = []\<rparr>"

definition vt_message :: "byte list message \<Rightarrow> message_vt" where
  "vt_message m = \<lparr>Data = Data m, TypeNameIndex = TypeNameIndex m, SenderIndex = SenderIndex m, TargetIndex = TargetIndex m, mv_unknown = []\<rparr>"

definition to_wire :: "byte list wire_envelope \<Rightarrow> envelope_vt" where
  "to_wire env = \<lparr>ev_TypeNames = TypeNames env, ev_Targets = map (\<lambda>q. Some (vt_pid q)) (Targets env),
     ev_Senders = map (\<lambda>q. Some (vt_pid q)) (Senders env), ev_Messages = map (map_option vt_message) (WMessages env), ev_unknown = []\<rparr>"

lemma wire_transmits:
  assumes "length (enc_envelope (to_wire env)) < 2 ^ 63"
  shows "envelope_MarshalVT (to_wire env) = Inr (enc_envelope (to_wire env))"
    "envelope_UnmarshalVT (enc_envelope (to_wire env)) zero_envelope = Ok (to_wire (transmit [] env))"
proof -
  have "length (enc_envelope (to_wire env)) < 2 ^ 64" using assms by simp
  from envelope_marshals [OF this] show "envelope_MarshalVT (to_wire env) = Inr (enc_envelope (to_wire env))"
    using marshal_sized_exact by (metis envelope_MarshalVT_def)
  have "\<forall>p \<in> set (ev_Targets (to_wire env)) \<union> set (ev_Senders (to_wire env)). plain_pid p"
    "\<forall>m \<in> set (ev_Messages (to_wire env)). plain_message m" "ev_unknown (to_wire env) = []"
    by (auto simp: to_wire_def plain_pid_def plain_message_def vt_pid_def vt_message_def)
  from envelope_roundtrip [OF assms this]
  show "envelope_UnmarshalVT (enc_envelope (to_wire env)) zero_envelope = Ok (to_wire (transmit [] env))"
    by (auto simp: to_wire_def transmit_def filled_pid_def filled_message_def zero_message_def vt_message_def split: option.split)
qed

text \<open>
  C7. The wire format round trip. The bytes of an envelope decode to the same tables and the
  same messages in order; only a nil message, left by a payload that could not be serialized,
  arrives as an empty message.
\<close>

theorem envelope_wire_roundtrip:
  assumes "length (enc_envelope (to_wire env)) < 2 ^ 63"
  shows "\<exists>bs. envelope_MarshalVT (to_wire env) = Inr bs \<and> envelope_UnmarshalVT bs zero_envelope = Ok (to_wire (transmit [] env))"
  using wire_transmits [OF assms] by blast

definition example_envelope :: "byte list wire_envelope" where
  "example_envelope = \<lparr>Senders = [], Targets = [NewPID ''a:1'' ''x/1''], TypeNames = [''T''],
     WMessages = [Some \<lparr>Data = [7], TypeNameIndex = 0, SenderIndex = 0, TargetIndex = 0\<rparr>, None]\<rparr>"

lemma example_envelope_bytes:
  "enc_envelope (to_wire example_envelope) = [10, 1, 84, 18, 10, 10, 3, 97, 58, 49, 18, 3, 120, 47, 49, 34, 3, 10, 1, 7, 34, 0]"
  by code_simp

theorem envelope_wire_roundtrip_witness:
  "envelope_MarshalVT (to_wire example_envelope) = Inr [10, 1, 84, 18, 10, 10, 3, 97, 58, 49, 18, 3, 120, 47, 49, 34, 3, 10, 1, 7, 34, 0]
   \<and> (\<exists>bs. envelope_MarshalVT (to_wire example_envelope) = Inr bs
     \<and> envelope_UnmarshalVT bs zero_envelope = Ok (to_wire (transmit [] example_envelope)))"
  using envelope_wire_roundtrip [of example_envelope] wire_transmits(1) [of example_envelope] by (simp add: example_envelope_bytes)

theorem marshal_exact_witness:
  "envelope_MarshalVT (to_wire example_envelope) = Inr (enc_envelope (to_wire example_envelope))
   \<and> envelope_SizeVT (to_wire example_envelope) = 22"
  using marshal_exact [of "to_wire example_envelope"] by (simp add: example_envelope_bytes)

end
