(* ===== verification/Serialize.thy ===== *)
theory Serialize
  imports WireCodec
begin

section \<open>The type registry and the vtproto serializer (remote/serialize.go, protoreg.go)\<close>

text \<open>
  \<open>registry\<close> maps a type name to the one instance registered under it, a pointer. Pointers are
  handles into a heap of messages \<open>'v\<close>. The methods of a registered type are parameters: its name
  and \<open>UnmarshalVT\<close>, which changes the message it is called on and says whether it succeeded.
\<close>

definition RegisterType :: "('r \<Rightarrow> string) \<Rightarrow> 'r \<Rightarrow> (string \<rightharpoonup> 'r) \<Rightarrow> (string \<rightharpoonup> 'r)" where
  "RegisterType messageName v registry = registry(messageName v \<mapsto> v)"

definition registryGetType :: "string \<Rightarrow> (string \<rightharpoonup> 'r) \<Rightarrow> 'r option" where
  "registryGetType t registry = registry t"

text \<open>The package's \<open>init\<close> registers a PID.\<close>

definition remote_init :: "('r \<Rightarrow> string) \<Rightarrow> 'r \<Rightarrow> (string \<rightharpoonup> 'r)" where
  "remote_init messageName pid_ptr = RegisterType messageName pid_ptr Map.empty"

text \<open>
  \<open>VTProtoSerializer\<close>. \<open>None\<close> as a name, and \<open>Inl\<close> for the bytes, is the panic of the type assertion.
  \<open>Deserialize\<close> returns the pointer (nil for an unknown type), whether there was no error, and
  the heap.
\<close>

definition VTProtoSerializer_TypeName :: "('m \<Rightarrow> bool) \<Rightarrow> ('m \<Rightarrow> string) \<Rightarrow> 'm \<Rightarrow> string res" where
  "VTProtoSerializer_TypeName isproto messageName m = (if isproto m then Inr (messageName m) else Inl TypeAssertion)"

definition VTProtoSerializer_Serialize :: "('m \<Rightarrow> (unit \<Rightarrow> byte list res) option) \<Rightarrow> 'm \<Rightarrow> byte list res" where
  "VTProtoSerializer_Serialize marshaler m = (case marshaler m of None \<Rightarrow> Inl TypeAssertion | Some marshalVT \<Rightarrow> marshalVT ())"

definition VTProtoSerializer_Deserialize :: "(byte list \<Rightarrow> 'v \<Rightarrow> 'v \<times> bool) \<Rightarrow> byte list \<Rightarrow> string \<Rightarrow> (string \<rightharpoonup> nat) \<Rightarrow>
    (nat \<Rightarrow> 'v) \<Rightarrow> nat option \<times> bool \<times> (nat \<Rightarrow> 'v)" where
  "VTProtoSerializer_Deserialize unmarshalVT data mtype registry heap =
     (case registryGetType mtype registry of
        None \<Rightarrow> (None, False, heap)
      | Some r \<Rightarrow> (let (v, ok) = unmarshalVT data (heap r) in (Some r, ok, heap(r := v))))"

text \<open>\<open>UnmarshalVT\<close> of a PID; what an error leaves behind in the PID is not needed here.\<close>

definition pid_unmarshal :: "byte list \<Rightarrow> pid_vt \<Rightarrow> pid_vt \<times> bool" where
  "pid_unmarshal d p = (case pid_UnmarshalVT d p of Ok p' \<Rightarrow> (p', True) | _ \<Rightarrow> (p, False))"

lemma pid_merge:
  assumes "length (enc_pid (Some (vt_pid q))) < 2 ^ 63"
  shows "pid_UnmarshalVT (enc_pid (Some (vt_pid q))) p
    = Ok (p\<lparr>Address := (if Address q \<noteq> [] then Address q else Address p), ID := (if ID q \<noteq> [] then ID q else ID p)\<rparr>)"
proof -
  let ?u = "\<lambda>bs p. p\<lparr>pv_unknown := pv_unknown p @ bs\<rparr>"
  let ?p1 = "if Address q \<noteq> [] then p\<lparr>Address := Address q\<rparr> else p"
  let ?p2 = "if ID q \<noteq> [] then ?p1\<lparr>ID := ID q\<rparr> else ?p1"
  have "reads pid_fields ?u (enc_pid (Some (vt_pid q))) p ?p2"
    unfolding enc_pid_def option.case vt_pid_def pid.select_convs pid_vt.select_convs append_Nil2
    by (intro reads_append [of _ _ _ _ ?p1] reads_opt pid_reads)
  from reads_unmarshal [OF this assms] show ?thesis by (simp add: pid_UnmarshalVT_def)
qed

text \<open>
  The serializer shares one message per type. Two calls of \<open>Deserialize\<close> for a type return the
  same pointer, so the first result is overwritten by the second; and as \<open>UnmarshalVT\<close> merges into
  the message, a field that is empty in the second PID keeps the value of the first.
\<close>

theorem vt_deserialize_shared:
  assumes "registry ''actor.PID'' = Some r" "length (enc_pid (Some (vt_pid p))) < 2 ^ 63" "length (enc_pid (Some (vt_pid q))) < 2 ^ 63"
    "Address p \<noteq> []" "ID p \<noteq> []"
    "VTProtoSerializer_Deserialize pid_unmarshal (enc_pid (Some (vt_pid p))) ''actor.PID'' registry heap = (a, ok1, heap1)"
    "VTProtoSerializer_Deserialize pid_unmarshal (enc_pid (Some (vt_pid q))) ''actor.PID'' registry heap1 = (b, ok2, heap2)"
  shows "ok1 \<and> ok2 \<and> a = Some r \<and> b = a \<and> Address (heap1 r) = Address p \<and> ID (heap1 r) = ID p
    \<and> Address (heap2 r) = (if Address q = [] then Address p else Address q) \<and> ID (heap2 r) = (if ID q = [] then ID p else ID q)"
proof -
  have d: "VTProtoSerializer_Deserialize pid_unmarshal (enc_pid (Some (vt_pid x))) ''actor.PID'' registry h = (Some r, True,
      h(r := (h r)\<lparr>Address := (if Address x \<noteq> [] then Address x else Address (h r)), ID := (if ID x \<noteq> [] then ID x else ID (h r))\<rparr>))"
    if "length (enc_pid (Some (vt_pid x))) < 2 ^ 63" for x h
    by (simp add: VTProtoSerializer_Deserialize_def registryGetType_def pid_unmarshal_def assms(1) pid_merge [OF that])
  have 1: "a = Some r" "ok1" "heap1 = heap(r := (heap r)\<lparr>Address := Address p, ID := ID p\<rparr>)"
    using assms(4-6) unfolding d [OF assms(2)] by auto
  have 2: "b = Some r" "ok2" "heap2 = heap1(r := (heap1 r)\<lparr>Address := (if Address q \<noteq> [] then Address q else Address (heap1 r)),
      ID := (if ID q \<noteq> [] then ID q else ID (heap1 r))\<rparr>)"
    using assms(7) unfolding d [OF assms(3)] by auto
  show ?thesis using 1 by (simp add: 2)
qed

theorem vt_deserialize_shared_witness:
  "\<exists>heap2. VTProtoSerializer_Deserialize pid_unmarshal (enc_pid (Some (vt_pid (NewPID [] ''y'')))) ''actor.PID''
       (remote_init (\<lambda>_. ''actor.PID'') 0) (\<lambda>_. vt_pid (NewPID ''a'' ''x'')) = (Some 0, True, heap2) \<and> Address (heap2 0) = ''a''"
proof -
  let ?reg = "remote_init (\<lambda>_. ''actor.PID'') 0 :: string \<rightharpoonup> nat" and ?e = "\<lambda>q. enc_pid (Some (vt_pid q))"
  let ?p = "NewPID ''a'' ''x''" and ?q = "NewPID [] ''y''"
  have r: "?reg ''actor.PID'' = Some 0" by (simp add: remote_init_def RegisterType_def)
  obtain a ok1 h1 where d1: "VTProtoSerializer_Deserialize pid_unmarshal (?e ?p) ''actor.PID'' ?reg (\<lambda>_. vt_pid ?p) = (a, ok1, h1)" by (metis prod_cases3)
  obtain b ok2 h2 where d2: "VTProtoSerializer_Deserialize pid_unmarshal (?e ?q) ''actor.PID'' ?reg h1 = (b, ok2, h2)" by (metis prod_cases3)
  have l: "?e ?p = [10, 1, 97, 18, 1, 120]" "?e ?q = [18, 1, 121]" by code_simp+
  then have "length (?e ?p) < 2 ^ 63" "length (?e ?q) < 2 ^ 63" by simp_all
  from vt_deserialize_shared [OF r this _ _ d1 d2] have o: "ok1" "ok2" "b = Some 0" "Address (h2 0) = ''a''" by simp_all
  have "pid_unmarshal (?e ?p) (vt_pid ?p) = (vt_pid ?p, True)"
    using pid_merge [of ?p "vt_pid ?p"] l by (simp add: pid_unmarshal_def vt_pid_def)
  then have "h1 = (\<lambda>_. vt_pid ?p)" using d1 r by (auto simp: VTProtoSerializer_Deserialize_def registryGetType_def)
  then show ?thesis using d2 o by (intro exI [of _ h2]) simp
qed

end
