(* ===== verification/Process.thy ===== *)
theory Process
  imports Messages SafeMap Inbox Strconv
begin

section \<open>The process: delivery, supervision and shutdown (actor/process.go)\<close>

text \<open>
  A \<open>process\<close> runs the receiver on the batches its inbox hands to \<open>Invoke\<close>, recovers from
  panics by restarting the receiver, and cleans up when it is poisoned or has been restarted
  too often. One goroutine at a time runs these methods (theory \<open>Inbox\<close>), so they are
  functions of the process state. What they do to the rest of the system is recorded, in
  order, in \<open>p_trace\<close>. \<open>Start\<close>, \<open>Invoke\<close> and \<open>tryRestart\<close> call one another without a
  bound when a receiver keeps panicking with an \<open>InternalError\<close>, so they take fuel; the
  fuel that suffices otherwise is computed below.
\<close>

datatype ('m, 'a) effect =
    EDeliver "'m msg" "pid option"      \<comment> \<open>\<open>p.receive\<close> called by \<open>invokeMsg\<close>\<close>
  | ELifecycle "'m msg" "pid option"    \<comment> \<open>\<open>p.receive\<close> called with Initialized, Started or Stopped\<close>
  | EAct "'a action"                    \<comment> \<open>what the receiver did during the call\<close>
  | EBroadcast "'m msg"
  | EParentDelete string
  | EPoisonWait pid                     \<comment> \<open>\<open><-engine.Poison(pid).Done()\<close>\<close>
  | EInboxStart
  | EInboxStop
  | ERegRemove pid
  | ECancel nat
  | ESleep int
  | ELogError string string

record ('u, 'm, 'a) process =
  p_opts :: "('u, 'm, 'a) opts"
  p_pid :: pid
  p_inbox :: proc_status
  p_user :: 'u
  p_message :: "'m msg"
  p_sender :: "pid option"
  p_parent :: "pid option"
  p_children :: "(string, pid) safe_map"
  p_restarts :: "32 word"
  p_mbuffer :: "'m envelope list"
  p_mcount :: "32 word"
  p_receive :: "('u, 'm, 'a) receive_func"
  p_clock :: nat
  p_trace :: "('m, 'a) effect list"

text \<open>
  What the runtime, the package gostackparse and other processes choose: the iteration order
  of the children map, the raw stack at a clock reading and the result of \<open>gostackparse.Parse\<close>
  on it, and which of the poisoned children delete their id from the map while they are awaited
  (the \<open>cleanup\<close> of a child does so through its \<open>parentCtx\<close>; an actor that only shares the id of a
  refused spawn does not).
\<close>

record frame =
  Func :: string
  File :: string
  Line :: int

record goroutine =
  GID :: int
  State :: string
  Stack :: "frame list"

record env =
  children_order :: "(string \<rightharpoonup> pid) \<Rightarrow> string list"
  child_detaches :: "pid \<Rightarrow> bool"
  debug_Stack :: "nat \<Rightarrow> string"
  stack_Parse :: "string \<Rightarrow> goroutine list option"

text \<open>\<open>cleanTrace\<close>: \<open>Stack[4:]\<close> panics on a goroutine with fewer than four frames.\<close>

definition cleanTrace :: "(string \<Rightarrow> goroutine list option) \<Rightarrow> string \<Rightarrow> string res" where
  "cleanTrace parse stack =
     (case parse stack of
        None \<Rightarrow> Inr stack
      | Some goros \<Rightarrow>
          if length goros \<noteq> 1 then Inr stack
          else let g = goros ! 0 in
            if length (Stack g) < 4 then Inl SliceBounds
            else Inr (''goroutine '' @ Itoa (GID g) @ '' ['' @ State g @ '']'' @ [CHR 0x0A] @
                      concat (map (\<lambda>fr. Func fr @ [CHR 0x0A] @ [CHR 0x09] @ File fr @ '':'' @ Itoa (Line fr) @ [CHR 0x0A])
                        (drop 4 (Stack g)))))"

abbreviation clean_trace :: "env \<Rightarrow> nat \<Rightarrow> string res" where
  "clean_trace \<epsilon> t \<equiv> cleanTrace (stack_Parse \<epsilon>) (debug_Stack \<epsilon> t)"

datatype 'm outcome = Ret | Panic "'m panic_val" | OutOfFuel

text \<open>
  \<open>newProcess\<close>: before \<open>Start\<close> the fields \<open>receive\<close> and \<open>context.message\<close> are nil;
  \<open>Start\<close> sets both before it reads them.
\<close>

definition newProcess :: "string \<Rightarrow> 'u \<Rightarrow> ('u, 'm, 'a) opts \<Rightarrow> ('u, 'm, 'a) process" where
  "newProcess address u op = \<lparr>p_opts = op, p_pid = NewPID address (Kind op @ pidSeparator @ OptID op),
     p_inbox = IStopped, p_user = u, p_message = Stopped, p_sender = None, p_parent = None,
     p_children = sm_New, p_restarts = 0, p_mbuffer = [], p_mcount = 0,
     p_receive = (\<lambda>c u. (u, [], Some (RuntimePanic NilDeref))), p_clock = 0, p_trace = []\<rparr>"

definition emit :: "('m, 'a) effect list \<Rightarrow> ('u, 'm, 'a) process \<Rightarrow> ('u, 'm, 'a) process" where
  "emit es p = p\<lparr>p_trace := p_trace p @ es\<rparr>"

text \<open>\<open>BroadcastEvent\<close> of an event stamped with \<open>time.Now()\<close>.\<close>

definition broadcast_now :: "(pid option \<Rightarrow> nat \<Rightarrow> 'm msg) \<Rightarrow> ('u, 'm, 'a) process \<Rightarrow> ('u, 'm, 'a) process" where
  "broadcast_now ev p = (emit [EBroadcast (ev (Some (p_pid p)) (p_clock p))] p)\<lparr>p_clock := Suc (p_clock p)\<rparr>"

text \<open>\<open>c.children.Set(pid.ID, pid)\<close> for every child the receiver spawned.\<close>

fun add_children :: "'a action list \<Rightarrow> (string, pid) safe_map \<Rightarrow> (string, pid) safe_map" where
  "add_children [] cs = cs"
| "add_children (SpawnedChild q # as) cs = add_children as (sm_Set (ID q) q cs)"
| "add_children (Act _ # as) cs = add_children as cs"

text \<open>\<open>p.receive(p.context)\<close>; \<open>how\<close> says which caller it was.\<close>

definition call_receive :: "('m msg \<Rightarrow> pid option \<Rightarrow> ('m, 'a) effect) \<Rightarrow> ('u, 'm, 'a) process \<Rightarrow>
    'm outcome \<times> ('u, 'm, 'a) process" where
  "call_receive how p =
     (let (u, acts, r) = p_receive p \<lparr>cv_pid = p_pid p, cv_message = p_message p, cv_sender = p_sender p\<rparr> (p_user p) in
      (case r of None \<Rightarrow> Ret | Some v \<Rightarrow> Panic v,
       emit (how (p_message p) (p_sender p) # map EAct acts)
         (p\<lparr>p_user := u, p_children := add_children acts (p_children p)\<rparr>)))"

definition invokeMsg :: "'m envelope \<Rightarrow> ('u, 'm, 'a) process \<Rightarrow> 'm outcome \<times> ('u, 'm, 'a) process" where
  "invokeMsg m p =
     (if is_pill (Msg m) then (Ret, p)
      else call_receive EDeliver (p\<lparr>p_message := Msg m, p_sender := Sender m\<rparr>))"

text \<open>The drain of a graceful pill: \<open>for _, m := range msgsToProcess\<close>.\<close>

fun invokeMsgs :: "'m envelope list \<Rightarrow> ('u, 'm, 'a) process \<Rightarrow> 'm outcome \<times> ('u, 'm, 'a) process" where
  "invokeMsgs [] p = (Ret, p)"
| "invokeMsgs (m # ms) p = (case invokeMsg m p of (Ret, p') \<Rightarrow> invokeMsgs ms p' | r \<Rightarrow> r)"

definition cancel_effect :: "nat option \<Rightarrow> ('m, 'a) effect list" where
  "cancel_effect c = (case c of None \<Rightarrow> [] | Some h \<Rightarrow> [ECancel h])"

text \<open>The children map after the awaited children are gone.\<close>

definition detach :: "env \<Rightarrow> pid list \<Rightarrow> (string, pid) safe_map \<Rightarrow> (string, pid) safe_map" where
  "detach \<epsilon> qs cs = fold (\<lambda>q cs. if child_detaches \<epsilon> q then sm_Delete (ID q) cs else cs) qs cs"

definition cleanup :: "env \<Rightarrow> nat option \<Rightarrow> ('u, 'm, 'a) process \<Rightarrow> 'm outcome \<times> ('u, 'm, 'a) process" where
  "cleanup \<epsilon> cancel p =
     (let p1 = (case p_parent p of None \<Rightarrow> p | Some _ \<Rightarrow> emit [EParentDelete (ID (p_pid p))] p);
          awaited = sm_Values (children_order \<epsilon> (sm_data (p_children p1))) (p_children p1);
          p2 = (if sm_Len (p_children p1) > 0
                then emit (map EPoisonWait awaited) (p1\<lparr>p_children := detach \<epsilon> awaited (p_children p1)\<rparr>)
                else p1);
          p3 = emit [EInboxStop, ERegRemove (p_pid p2)] (p2\<lparr>p_inbox := IStopped\<rparr>);
          (r, p4) = call_receive ELifecycle (p3\<lparr>p_message := Stopped\<rparr>);
          p5 = (if r = Ret then broadcast_now ActorStoppedEvent p4 else p4)
      in (r, emit (cancel_effect cancel) p5))"

text \<open>
  The loop of \<open>Invoke\<close>. It returns \<open>nproc\<close> with the outcome, since the deferred function
  reads it when the body panics.
\<close>

function invoke_loop :: "env \<Rightarrow> 'm envelope list \<Rightarrow> nat \<Rightarrow> nat \<Rightarrow> nat \<Rightarrow> ('u, 'm, 'a) process \<Rightarrow>
    'm outcome \<times> nat \<times> ('u, 'm, 'a) process" where
  "invoke_loop \<epsilon> msgs i nproc processed p =
     (if i < length msgs then
        let nproc' = nproc + 1;
            p1 = p\<lparr>p_mcount := p_mcount p - 1\<rparr>;
            m = msgs ! i
        in case Msg m of
             PoisonPill cancel grace \<Rightarrow>
               (case (if grace then invokeMsgs (drop processed msgs) p1 else (Ret, p1)) of
                  (Ret, p2) \<Rightarrow> (let (r, p3) = cleanup \<epsilon> cancel p2 in (r, nproc', p3))
                | (r, p2) \<Rightarrow> (r, nproc', p2))
           | _ \<Rightarrow>
               (case invokeMsg m p1 of
                  (Ret, p2) \<Rightarrow> invoke_loop \<epsilon> msgs (i + 1) nproc' (processed + 1) p2
                | (r, p2) \<Rightarrow> (r, nproc', p2))
      else (Ret, nproc, p))"
  by pat_completeness auto
termination
  by (relation "measure (\<lambda>(\<epsilon>, msgs, i, _). length msgs - i)") auto

declare invoke_loop.simps [simp del]

text \<open>\<open>p.mbuffer[i] = msgs[i+nproc]\<close> for \<open>i < nmsg - nproc\<close>.\<close>

definition unprocessed :: "'m envelope list \<Rightarrow> nat \<Rightarrow> 'm envelope list" where
  "unprocessed msgs nproc = map (\<lambda>i. msgs ! (i + nproc)) [0..<length msgs - nproc]"

text \<open>\<open>Inbox.Start\<close> does nothing unless the inbox is stopped.\<close>

definition inbox_start :: "('u, 'm, 'a) process \<Rightarrow> ('u, 'm, 'a) process" where
  "inbox_start p = (if p_inbox p = IStopped then emit [EInboxStart] (p\<lparr>p_inbox := IIdle\<rparr>) else p)"

text \<open>The body of \<open>Start\<close> up to the buffered messages, and the part of \<open>tryRestart\<close> before \<open>Start\<close>.\<close>

definition start_hooks :: "('u, 'm, 'a) process \<Rightarrow> 'm outcome \<times> ('u, 'm, 'a) process" where
  "start_hooks p =
     (case call_receive ELifecycle (p\<lparr>p_message := Initialized\<rparr>) of
        (Ret, p1) \<Rightarrow>
          (case call_receive ELifecycle ((broadcast_now ActorInitializedEvent p1)\<lparr>p_message := Started\<rparr>) of
             (Ret, p2) \<Rightarrow> (Ret, broadcast_now ActorStartedEvent p2)
           | r \<Rightarrow> r)
      | r \<Rightarrow> r)"

definition count_restart :: "string \<Rightarrow> 'm panic_val \<Rightarrow> ('u, 'm, 'a) process \<Rightarrow> ('u, 'm, 'a) process" where
  "count_restart stack v p =
     (let p1 = p\<lparr>p_restarts := p_restarts p + 1\<rparr> in
      emit [ESleep (RestartDelay (p_opts p))]
        (broadcast_now (\<lambda>q t. ActorRestartedEvent q t stack v (p_restarts p1)) p1))"

fun proc_Start :: "env \<Rightarrow> nat \<Rightarrow> ('u, 'm, 'a) process \<Rightarrow> 'm outcome \<times> ('u, 'm, 'a) process"
and proc_Invoke :: "env \<Rightarrow> nat \<Rightarrow> 'm envelope list \<Rightarrow> ('u, 'm, 'a) process \<Rightarrow> 'm outcome \<times> ('u, 'm, 'a) process"
and proc_tryRestart :: "env \<Rightarrow> nat \<Rightarrow> 'm panic_val \<Rightarrow> ('u, 'm, 'a) process \<Rightarrow> 'm outcome \<times> ('u, 'm, 'a) process"
where
  "proc_Start \<epsilon> 0 p = (OutOfFuel, p)"
| "proc_Start \<epsilon> (Suc f) p =
     (case Producer (p_opts p) (p_user p) of
        (u, Some v) \<Rightarrow> (Panic v, p\<lparr>p_user := u\<rparr>)
      | (u, None) \<Rightarrow>
          (case start_hooks (p\<lparr>p_user := u, p_receive := applyMiddleware (Receive (p_opts p)) (Middleware (p_opts p))\<rparr>) of
             (Ret, p1) \<Rightarrow>
               (case (if p_mbuffer p1 \<noteq> [] then
                        case proc_Invoke \<epsilon> f (p_mbuffer p1) p1 of (Ret, p2) \<Rightarrow> (Ret, p2\<lparr>p_mbuffer := []\<rparr>) | r \<Rightarrow> r
                      else (Ret, p1)) of
                  (Ret, p2) \<Rightarrow> (Ret, inbox_start p2)
                | (Panic v, p2) \<Rightarrow> proc_tryRestart \<epsilon> f v p2
                | (OutOfFuel, p2) \<Rightarrow> (OutOfFuel, p2))
           | (Panic v, p1) \<Rightarrow> proc_tryRestart \<epsilon> f v p1
           | (OutOfFuel, p1) \<Rightarrow> (OutOfFuel, p1)))"
| "proc_Invoke \<epsilon> 0 msgs p = (OutOfFuel, p)"
| "proc_Invoke \<epsilon> (Suc f) msgs p =
     (case invoke_loop \<epsilon> msgs 0 0 0 (p\<lparr>p_mcount := of_nat (length msgs)\<rparr>) of
        (Panic v, nproc, p1) \<Rightarrow>
          proc_tryRestart \<epsilon> f v (p1\<lparr>p_mbuffer := unprocessed msgs nproc, p_mcount := of_nat (length msgs - nproc)\<rparr>)
      | (r, _, p1) \<Rightarrow> (r, p1))"
| "proc_tryRestart \<epsilon> 0 v p = (OutOfFuel, p)"
| "proc_tryRestart \<epsilon> (Suc f) v p =
     (case v of
        InternalError from err \<Rightarrow>
          proc_Start \<epsilon> f (emit [ELogError from err, ESleep (RestartDelay (p_opts p))] p)
      | _ \<Rightarrow>
          (case clean_trace \<epsilon> (p_clock p) of
             Inl e \<Rightarrow> (Panic (RuntimePanic e), p)
           | Inr stack \<Rightarrow>
               if p_restarts p = MaxRestarts (p_opts p)
               then cleanup \<epsilon> None (broadcast_now ActorMaxRestartsExceededEvent p)
               else (case call_receive ELifecycle (p\<lparr>p_message := Stopped\<rparr>) of
                       (Ret, p1) \<Rightarrow> proc_Start \<epsilon> f (count_restart stack v p1)
                     | r \<Rightarrow> r)))"

definition proc_Send :: "'m msg \<Rightarrow> pid option \<Rightarrow> 'm envelope" where
  "proc_Send m from = \<lparr>Msg = m, Sender = from\<rparr>"

definition proc_Shutdown :: "env \<Rightarrow> ('u, 'm, 'a) process \<Rightarrow> 'm outcome \<times> ('u, 'm, 'a) process" where
  "proc_Shutdown \<epsilon> p = cleanup \<epsilon> None p"

text \<open>\<open>Count\<close>: the inbox's count and the messages of the batch that are not processed yet.\<close>

definition proc_Count :: "int \<Rightarrow> ('u, 'm, 'a) process \<Rightarrow> int" where
  "proc_Count inboxCount p = inboxCount + sint (p_mcount p)"

subsection \<open>What the trace says\<close>

text \<open>The messages handed to the receiver by \<open>Invoke\<close>, in order.\<close>

fun delivered_in :: "('m, 'a) effect list \<Rightarrow> 'm envelope list" where
  "delivered_in [] = []"
| "delivered_in (EDeliver m q # es) = \<lparr>Msg = m, Sender = q\<rparr> # delivered_in es"
| "delivered_in (_ # es) = delivered_in es"

fun restarts_in :: "('m, 'a) effect list \<Rightarrow> nat" where
  "restarts_in [] = 0"
| "restarts_in (EBroadcast (ActorRestartedEvent _ _ _ _ _) # es) = Suc (restarts_in es)"
| "restarts_in (_ # es) = restarts_in es"

fun exceeded_in :: "('m, 'a) effect list \<Rightarrow> bool" where
  "exceeded_in [] = False"
| "exceeded_in (EBroadcast (ActorMaxRestartsExceededEvent _ _) # es) = True"
| "exceeded_in (_ # es) = exceeded_in es"

lemma delivered_in_append [simp]: "delivered_in (xs @ ys) = delivered_in xs @ delivered_in ys"
  by (induction xs rule: delivered_in.induct) auto

lemma restarts_in_append [simp]: "restarts_in (xs @ ys) = restarts_in xs + restarts_in ys"
  by (induction xs rule: restarts_in.induct) auto

lemma exceeded_in_append [simp]: "exceeded_in (xs @ ys) \<longleftrightarrow> exceeded_in xs \<or> exceeded_in ys"
  by (induction xs rule: exceeded_in.induct) auto

lemma in_EAct [simp]:
  "delivered_in (map EAct as) = []" "restarts_in (map EAct as) = 0" "\<not> exceeded_in (map EAct as)"
  by (induction as) auto

lemma in_EPoisonWait [simp]:
  "delivered_in (map EPoisonWait ps) = []" "restarts_in (map EPoisonWait ps) = 0" "\<not> exceeded_in (map EPoisonWait ps)"
  by (induction ps) auto

lemma in_cancel [simp]:
  "delivered_in (cancel_effect c) = []" "restarts_in (cancel_effect c) = 0" "\<not> exceeded_in (cancel_effect c)"
  by (auto simp: cancel_effect_def split: option.split)

text \<open>\<open>p'\<close> is \<open>p\<close> after the effects \<open>tr\<close>; no method changes the options or the PID.\<close>

definition emits :: "('u, 'm, 'a) process \<Rightarrow> ('m, 'a) effect list \<Rightarrow> ('u, 'm, 'a) process \<Rightarrow> bool" where
  "emits p tr p' \<longleftrightarrow> p_trace p' = p_trace p @ tr \<and> p_opts p' = p_opts p \<and> p_pid p' = p_pid p"

text \<open>Besides, the supervision state is unchanged.\<close>

definition keeps :: "('u, 'm, 'a) process \<Rightarrow> ('u, 'm, 'a) process \<Rightarrow> bool" where
  "keeps p p' \<longleftrightarrow> p_restarts p' = p_restarts p \<and> p_mbuffer p' = p_mbuffer p \<and> p_receive p' = p_receive p"

lemma emits_refl [simp]: "emits p tr p \<longleftrightarrow> tr = []" "keeps p p"
  by (auto simp: emits_def keeps_def)

lemma emits_trans: "emits p tr p' \<Longrightarrow> emits p' tr' p'' \<Longrightarrow> emits p (tr @ tr') p''"
  by (simp add: emits_def)

lemma keeps_trans: "keeps p p' \<Longrightarrow> keeps p' p'' \<Longrightarrow> keeps p p''"
  by (simp add: keeps_def)

lemma emits_upd [simp]:
  "emits (p\<lparr>p_message := m\<rparr>) tr p' = emits p tr p'"
  "emits (p\<lparr>p_sender := q\<rparr>) tr p' = emits p tr p'"
  "emits (p\<lparr>p_mcount := n\<rparr>) tr p' = emits p tr p'"
  "emits (p\<lparr>p_mbuffer := b\<rparr>) tr p' = emits p tr p'"
  "emits (p\<lparr>p_user := u\<rparr>) tr p' = emits p tr p'"
  "emits (p\<lparr>p_receive := r\<rparr>) tr p' = emits p tr p'"
  "emits (p\<lparr>p_restarts := k\<rparr>) tr p' = emits p tr p'"
  "emits p tr (p'\<lparr>p_mbuffer := b\<rparr>) = emits p tr p'"
  "emits p tr (p'\<lparr>p_user := u\<rparr>) = emits p tr p'"
  by (auto simp: emits_def)

lemma keeps_upd [simp]:
  "keeps (p\<lparr>p_message := m\<rparr>) p' = keeps p p'"
  "keeps (p\<lparr>p_sender := q\<rparr>) p' = keeps p p'"
  "keeps (p\<lparr>p_mcount := n\<rparr>) p' = keeps p p'"
  "keeps (p\<lparr>p_user := u\<rparr>) p' = keeps p p'"
  by (auto simp: keeps_def)

lemma emit_emits: "emits p es (emit es p)" "keeps p (emit es p)"
  by (auto simp: emits_def keeps_def emit_def)

lemma broadcast_now_emits:
  "emits p [EBroadcast (ev (Some (p_pid p)) (p_clock p))] (broadcast_now ev p)" "keeps p (broadcast_now ev p)"
  by (auto simp: emits_def keeps_def emit_def broadcast_now_def)

lemma inbox_start_emits:
  "\<exists>tr. emits p tr (inbox_start p) \<and> keeps p (inbox_start p) \<and> delivered_in tr = [] \<and> restarts_in tr = 0 \<and> \<not> exceeded_in tr"
  by (cases "p_inbox p = IStopped") (force simp: inbox_start_def emits_def keeps_def emit_def)+

text \<open>A panic value the receiver can raise.\<close>

definition may_panic :: "('u, 'm, 'a) process \<Rightarrow> 'm panic_val \<Rightarrow> bool" where
  "may_panic p v \<longleftrightarrow> (\<exists>c u. snd (snd (p_receive p c u)) = Some v)"

lemma call_receive_emits:
  assumes "call_receive how p = (r, p')"
  obtains acts where "emits p (how (p_message p) (p_sender p) # map EAct acts) p'" "keeps p p'"
    "r \<noteq> OutOfFuel" "p_inbox p' = p_inbox p" "p_clock p' = p_clock p"
    "\<forall>v. r = Panic v \<longrightarrow> may_panic p v" "p_children p' = add_children acts (p_children p)"
proof -
  obtain u acts x where e: "p_receive p \<lparr>cv_pid = p_pid p, cv_message = p_message p, cv_sender = p_sender p\<rparr> (p_user p) = (u, acts, x)"
    by (metis prod_cases3)
  have "\<forall>v. x = Some v \<longrightarrow> may_panic p v"
    using e unfolding may_panic_def by (metis snd_conv)
  then show ?thesis
    using that [of acts] assms e by (auto simp: call_receive_def emits_def keeps_def emit_def split: option.splits)
qed

text \<open>
  A part of a method that neither restarts nor gives up: it ends by returning or with a panic
  the receiver can raise.
\<close>

definition plain :: "('u, 'm, 'a) process \<Rightarrow> 'm outcome \<Rightarrow> ('m, 'a) effect list \<Rightarrow> ('u, 'm, 'a) process \<Rightarrow> bool" where
  "plain p r tr p' \<longleftrightarrow> emits p tr p' \<and> keeps p p' \<and> restarts_in tr = 0 \<and> \<not> exceeded_in tr
     \<and> r \<noteq> OutOfFuel \<and> (\<forall>v. r = Panic v \<longrightarrow> may_panic p v)"

lemma plain_refl [simp]: "plain p r [] p \<longleftrightarrow> r \<noteq> OutOfFuel \<and> (\<forall>v. r = Panic v \<longrightarrow> may_panic p v)"
  by (auto simp: plain_def)

lemma plain_Ret: "plain p Ret [] p"
  by simp

lemma keeps_may_panic: "keeps p p' \<Longrightarrow> may_panic p' v = may_panic p v"
  by (simp add: keeps_def may_panic_def)

lemma plain_trans: "plain p Ret tr p' \<Longrightarrow> plain p' r tr' p'' \<Longrightarrow> plain p r (tr @ tr') p''"
  by (auto simp: plain_def keeps_may_panic intro: emits_trans keeps_trans)

lemma plain_upd [simp]:
  "plain (p\<lparr>p_message := m\<rparr>) r tr p' = plain p r tr p'"
  "plain (p\<lparr>p_sender := q\<rparr>) r tr p' = plain p r tr p'"
  "plain (p\<lparr>p_mcount := n\<rparr>) r tr p' = plain p r tr p'"
  "plain (p\<lparr>p_user := u\<rparr>) r tr p' = plain p r tr p'"
  by (auto simp: plain_def may_panic_def)

lemma plain_emit:
  "restarts_in es = 0 \<Longrightarrow> \<not> exceeded_in es \<Longrightarrow> plain p Ret es (emit es p)"
  by (simp add: plain_def emit_emits)

lemma plain_broadcast:
  "plain p Ret [EBroadcast (ActorStartedEvent (Some (p_pid p)) (p_clock p))] (broadcast_now ActorStartedEvent p)"
  "plain p Ret [EBroadcast (ActorInitializedEvent (Some (p_pid p)) (p_clock p))] (broadcast_now ActorInitializedEvent p)"
  "plain p Ret [EBroadcast (ActorStoppedEvent (Some (p_pid p)) (p_clock p))] (broadcast_now ActorStoppedEvent p)"
  by (simp_all add: plain_def broadcast_now_emits)

lemma plain_lifecycle:
  assumes "call_receive ELifecycle p = (r, p')"
  obtains acts where "plain p r (ELifecycle (p_message p) (p_sender p) # map EAct acts) p'"
    "p_inbox p' = p_inbox p"
  by (rule call_receive_emits [OF assms]) (simp add: plain_def that)

lemma plain_hook:
  assumes "call_receive ELifecycle (p\<lparr>p_message := m\<rparr>) = (r, p')"
  shows "\<exists>tr. plain p r tr p' \<and> delivered_in tr = []"
proof -
  obtain acts where "plain (p\<lparr>p_message := m\<rparr>) r (ELifecycle m (p_sender p) # map EAct acts) p'"
    by (rule plain_lifecycle [OF assms]) simp
  then show ?thesis by (intro exI [of _ "ELifecycle m (p_sender p) # map EAct acts"]) simp
qed

lemma plain_invokeMsg:
  assumes "invokeMsg m p = (r, p')"
  obtains acts where "plain p r (if is_pill (Msg m) then [] else EDeliver (Msg m) (Sender m) # map EAct acts) p'"
    "is_pill (Msg m) \<Longrightarrow> r = Ret"
proof (cases "is_pill (Msg m)")
  case True
  then show ?thesis using assms that by (simp add: invokeMsg_def)
next
  case False
  then have c: "call_receive EDeliver (p\<lparr>p_message := Msg m, p_sender := Sender m\<rparr>) = (r, p')"
    using assms by (simp add: invokeMsg_def)
  obtain acts where a: "emits (p\<lparr>p_message := Msg m, p_sender := Sender m\<rparr>) (EDeliver (Msg m) (Sender m) # map EAct acts) p'"
    "keeps (p\<lparr>p_message := Msg m, p_sender := Sender m\<rparr>) p'" "r \<noteq> OutOfFuel"
    "\<forall>v. r = Panic v \<longrightarrow> may_panic p v"
    by (rule call_receive_emits [OF c]) (auto simp: may_panic_def)
  then have "plain p r (EDeliver (Msg m) (Sender m) # map EAct acts) p'" by (simp add: plain_def)
  then show ?thesis using that False by simp
qed

text \<open>\<open>p.cleanup\<close>: what it does, in which order; the cancel function runs even if \<open>Stopped\<close> panics.\<close>

lemma cleanup_effects:
  assumes "cleanup \<epsilon> cancel p = (r, p')"
  obtains acts where
    "plain p r ((case p_parent p of None \<Rightarrow> [] | Some _ \<Rightarrow> [EParentDelete (ID (p_pid p))]) @
       (if sm_Len (p_children p) > 0
        then map EPoisonWait (sm_Values (children_order \<epsilon> (sm_data (p_children p))) (p_children p)) else []) @
       [EInboxStop, ERegRemove (p_pid p), ELifecycle Stopped (p_sender p)] @ map EAct acts @
       (if r = Ret then [EBroadcast (ActorStoppedEvent (Some (p_pid p)) (p_clock p))] else []) @
       cancel_effect cancel) p'"
    "p_inbox p' = IStopped"
    "p_children p' = add_children acts (if sm_Len (p_children p) > 0
       then detach \<epsilon> (sm_Values (children_order \<epsilon> (sm_data (p_children p))) (p_children p)) (p_children p) else p_children p)"
proof -
  define p1 where "p1 = (case p_parent p of None \<Rightarrow> p | Some _ \<Rightarrow> emit [EParentDelete (ID (p_pid p))] p)"
  define p2 where "p2 = (if sm_Len (p_children p1) > 0
    then emit (map EPoisonWait (sm_Values (children_order \<epsilon> (sm_data (p_children p1))) (p_children p1)))
      (p1\<lparr>p_children := detach \<epsilon> (sm_Values (children_order \<epsilon> (sm_data (p_children p1))) (p_children p1)) (p_children p1)\<rparr>) else p1)"
  define p3 where "p3 = emit [EInboxStop, ERegRemove (p_pid p2)] (p2\<lparr>p_inbox := IStopped\<rparr>)"
  obtain r' p4 where c: "call_receive ELifecycle (p3\<lparr>p_message := Stopped\<rparr>) = (r', p4)" by fastforce
  have r: "r = r'" and p': "p' = emit (cancel_effect cancel) (if r = Ret then broadcast_now ActorStoppedEvent p4 else p4)"
    using assms c unfolding cleanup_def Let_def p1_def p2_def p3_def by (auto split: prod.splits)
  have same: "p_children p1 = p_children p" "p_pid p2 = p_pid p" "p_sender p3 = p_sender p" "p_clock p3 = p_clock p" "p_pid p3 = p_pid p"
    by (auto simp: p1_def p2_def p3_def emit_def split: option.split)
  obtain acts where a: "plain p3 r (ELifecycle Stopped (p_sender p3) # map EAct acts) p4" "p_inbox p4 = p_inbox p3"
    "p_clock p4 = p_clock p3" "p_children p4 = add_children acts (p_children p3)"
    by (rule call_receive_emits [OF c]) (auto simp: r plain_def may_panic_def)
  have pid4: "p_pid p4 = p_pid p" using a(1) by (simp add: plain_def emits_def same)
  have 1: "p_trace p3 = p_trace p @ (case p_parent p of None \<Rightarrow> [] | Some _ \<Rightarrow> [EParentDelete (ID (p_pid p))]) @
     (if sm_Len (p_children p) > 0
      then map EPoisonWait (sm_Values (children_order \<epsilon> (sm_data (p_children p))) (p_children p)) else []) @
     [EInboxStop, ERegRemove (p_pid p)]"
    "p_opts p3 = p_opts p" "keeps p p3"
    by (auto simp: p1_def p2_def p3_def emit_def keeps_def split: option.split)
  show ?thesis
  proof (rule that)
    show "p_inbox p' = IStopped"
      using a(2) by (simp add: p' emit_def p3_def broadcast_now_def)
    show "p_children p' = add_children acts (if sm_Len (p_children p) > 0
       then detach \<epsilon> (sm_Values (children_order \<epsilon> (sm_data (p_children p))) (p_children p)) (p_children p) else p_children p)"
      using a(4) same(1) by (simp add: p' emit_def p3_def p2_def broadcast_now_def)
  qed (use a 1 pid4 same in \<open>auto simp: plain_def emits_def keeps_def p' emit_def broadcast_now_def may_panic_def split: option.split\<close>)
qed

lemma plain_cleanup:
  assumes "cleanup \<epsilon> cancel p = (r, p')"
  obtains tr where "plain p r tr p'" "delivered_in tr = []" "p_inbox p' = IStopped"
  by (rule cleanup_effects [OF assms], erule that) (auto split: option.split)

lemma plain_start_hooks:
  assumes "start_hooks p = (r, p')"
  obtains tr where "plain p r tr p'" "delivered_in tr = []"
proof -
  obtain r1 p1 where c1: "call_receive ELifecycle (p\<lparr>p_message := Initialized\<rparr>) = (r1, p1)" by fastforce
  obtain a1 where a1: "plain p r1 (ELifecycle Initialized (p_sender p) # map EAct a1) p1"
    using plain_lifecycle [OF c1] by auto
  show ?thesis
  proof (cases "r1 = Ret")
    case False
    then have "r = r1" "p' = p1" using assms c1 by (auto simp: start_hooks_def split: outcome.splits)
    then show ?thesis using a1 that by auto
  next
    case True
    let ?p = "broadcast_now ActorInitializedEvent p1"
    obtain r2 p2 where c2: "call_receive ELifecycle (?p\<lparr>p_message := Started\<rparr>) = (r2, p2)" by fastforce
    obtain a2 where a2: "plain ?p r2 (ELifecycle Started (p_sender ?p) # map EAct a2) p2"
      using plain_lifecycle [OF c2] by auto
    have 2: "plain p r2 ((ELifecycle Initialized (p_sender p) # map EAct a1) @
        [EBroadcast (ActorInitializedEvent (Some (p_pid p1)) (p_clock p1))] @
        (ELifecycle Started (p_sender ?p) # map EAct a2)) p2"
      using plain_trans [OF a1 [unfolded True] plain_trans [OF plain_broadcast(2) a2]] .
    show ?thesis
    proof (cases "r2 = Ret")
      case False
      then have "r = r2" "p' = p2" using assms c1 c2 True by (auto simp: start_hooks_def split: outcome.splits)
      then show ?thesis using that [OF 2 [folded \<open>r = r2\<close> \<open>p' = p2\<close>]] by simp
    next
      case True2: True
      then have e: "r = Ret" "p' = broadcast_now ActorStartedEvent p2"
        using assms c1 c2 True by (auto simp: start_hooks_def)
      show ?thesis
        using that [OF plain_trans [OF 2 [unfolded True2] plain_broadcast(1), folded e]] by simp
    qed
  qed
qed

text \<open>The loop of \<open>Invoke\<close>, with and without poison pills in the batch.\<close>

lemma plain_invokeMsgs:
  assumes "invokeMsgs ms p = (r, p')"
  obtains tr where "plain p r tr p'" "r = Ret \<Longrightarrow> delivered_in tr = filter (\<lambda>m. \<not> is_pill (Msg m)) ms"
  using assms
proof (induction ms arbitrary: p thesis)
  case Nil
  show ?case by (rule Nil(1) [of "[]"]) (use Nil(2) in simp_all)
next
  case (Cons m ms)
  obtain r1 p1 where c1: "invokeMsg m p = (r1, p1)" by fastforce
  obtain a1 where a1: "plain p r1 (if is_pill (Msg m) then [] else EDeliver (Msg m) (Sender m) # map EAct a1) p1"
    "is_pill (Msg m) \<Longrightarrow> r1 = Ret"
    using plain_invokeMsg [OF c1] by blast
  show ?case
  proof (cases "r1 = Ret")
    case True
    then have "invokeMsgs ms p1 = (r, p')" using Cons.prems(2) c1 by simp
    then obtain tr where tr: "plain p1 r tr p'" "r = Ret \<Longrightarrow> delivered_in tr = filter (\<lambda>m. \<not> is_pill (Msg m)) ms"
      using Cons.IH by blast
    show ?thesis
      by (rule Cons.prems(1) [OF plain_trans [OF a1(1) [unfolded True] tr(1)]]) (use tr(2) in \<open>cases m, auto\<close>)
  next
    case False
    then have "r = r1" "p' = p1" using Cons.prems(2) c1 by (auto split: outcome.splits)
    then show ?thesis using Cons.prems(1) a1(1) False by blast
  qed
qed

lemma invoke_loop_done: "\<not> i < length msgs \<Longrightarrow> invoke_loop \<epsilon> msgs i nproc processed p = (Ret, nproc, p)"
  by (simp add: invoke_loop.simps)

lemma invoke_loop_msg:
  assumes "i < length msgs" "\<not> is_pill (Msg (msgs ! i))"
  shows "invoke_loop \<epsilon> msgs i nproc processed p =
    (case invokeMsg (msgs ! i) (p\<lparr>p_mcount := p_mcount p - 1\<rparr>) of
       (Ret, p2) \<Rightarrow> invoke_loop \<epsilon> msgs (Suc i) (Suc nproc) (Suc processed) p2
     | (r, p2) \<Rightarrow> (r, Suc nproc, p2))"
  using assms by (subst invoke_loop.simps) (cases "Msg (msgs ! i)"; simp add: Let_def split: prod.split outcome.split)

lemma invoke_loop_pill:
  assumes "i < length msgs" "Msg (msgs ! i) = PoisonPill c g"
  shows "invoke_loop \<epsilon> msgs i nproc processed p =
    (case (if g then invokeMsgs (drop processed msgs) (p\<lparr>p_mcount := p_mcount p - 1\<rparr>)
           else (Ret, p\<lparr>p_mcount := p_mcount p - 1\<rparr>)) of
       (Ret, p2) \<Rightarrow> (case cleanup \<epsilon> c p2 of (r, p3) \<Rightarrow> (r, Suc nproc, p3))
     | (r, p2) \<Rightarrow> (r, Suc nproc, p2))"
  using assms by (subst invoke_loop.simps) (simp add: Let_def split: prod.split outcome.split)

lemma invoke_loop_no_pills:
  assumes "invoke_loop \<epsilon> msgs i i k p = (r, np, p')" "no_pills msgs" "i \<le> length msgs"
  obtains tr where "plain p r tr p'" "i \<le> np" "np \<le> length msgs"
    "delivered_in tr = take (np - i) (drop i msgs)" "r = Ret \<Longrightarrow> np = length msgs"
  using assms
proof (induction "length msgs - i" arbitrary: i k p thesis)
  case 0
  then have "\<not> i < length msgs" by simp
  with 0 show ?case using 0(2) [of "[]"] by (simp add: invoke_loop_done)
next
  case (Suc n)
  then have i: "i < length msgs" by simp
  then have np: "\<not> is_pill (Msg (msgs ! i))" using Suc.prems(3) by (simp add: no_pills_def list_all_length)
  let ?m = "msgs ! i"
  obtain r1 p1 where c: "invokeMsg ?m (p\<lparr>p_mcount := p_mcount p - 1\<rparr>) = (r1, p1)" by fastforce
  obtain acts where a: "plain p r1 (EDeliver (Msg ?m) (Sender ?m) # map EAct acts) p1"
    using plain_invokeMsg [OF c] np by auto
  have hd: "drop i msgs = ?m # drop (Suc i) msgs" using i by (simp add: Cons_nth_drop_Suc)
  show ?case
  proof (cases "r1 = Ret")
    case True
    then have l: "invoke_loop \<epsilon> msgs (Suc i) (Suc i) (Suc k) p1 = (r, np, p')"
      using Suc.prems(2) c by (simp add: invoke_loop_msg [OF i np])
    obtain tr where tr: "plain p1 r tr p'" "Suc i \<le> np" "np \<le> length msgs"
      "delivered_in tr = take (np - Suc i) (drop (Suc i) msgs)" "r = Ret \<Longrightarrow> np = length msgs"
      using Suc.hyps(1) [OF _ _ l Suc.prems(3)] Suc.hyps(2) i by (metis Suc_leI diff_Suc_Suc diff_Suc_1 Suc_diff_Suc)
    show ?thesis
      by (rule Suc.prems(1) [OF plain_trans [OF a [unfolded True] tr(1)]])
        (use tr hd in \<open>auto simp: Suc_diff_Suc [symmetric] take_Suc_Cons split: nat_diff_split\<close>)
  next
    case False
    then have "r = r1" "np = Suc i" "p' = p1"
      using Suc.prems(2) c by (auto simp: invoke_loop_msg [OF i np] split: outcome.splits)
    then show ?thesis using Suc.prems(1) [of "EDeliver (Msg ?m) (Sender ?m) # map EAct acts"] a False i hd by simp
  qed
qed

lemma pill_drain_plain: "(if g then invokeMsgs ms p else (Ret, p)) = (r, p') \<Longrightarrow> \<exists>tr. plain p r tr p'"
  by (cases g) (auto elim: plain_invokeMsgs intro: plain_Ret)

lemma invoke_loop_plain:
  assumes "invoke_loop \<epsilon> msgs i np k p = (r, np', p')"
  obtains tr where "plain p r tr p'"
  using assms
proof (induction "length msgs - i" arbitrary: i np k p thesis)
  case 0
  then have "\<not> i < length msgs" by simp
  with 0 show ?case using 0(2) [of "[]"] by (simp add: invoke_loop_done)
next
  case (Suc n)
  then have i: "i < length msgs" by simp
  let ?m = "msgs ! i" and ?p = "p\<lparr>p_mcount := p_mcount p - 1\<rparr>"
  show ?case
  proof (cases "is_pill (Msg ?m)")
    case True
    then obtain c g where m: "Msg ?m = PoisonPill c g" by (cases "Msg ?m") auto
    obtain r1 p1 where d: "(if g then invokeMsgs (drop k msgs) ?p else (Ret, ?p)) = (r1, p1)" by fastforce
    obtain t1 where t1: "plain ?p r1 t1 p1" using pill_drain_plain [OF d] by blast
    show ?thesis
    proof (cases "r1 = Ret")
      case True
      then have "cleanup \<epsilon> c p1 = (r, p')"
        using Suc.prems(2) d by (auto simp: invoke_loop_pill [OF i m] split: prod.splits)
      then obtain t2 where "plain p1 r t2 p'" using plain_cleanup by blast
      moreover have "plain p Ret t1 p1" using t1 True by simp
      ultimately show ?thesis using Suc.prems(1) plain_trans by blast
    next
      case False
      then have "r = r1" "p' = p1"
        using Suc.prems(2) d by (auto simp: invoke_loop_pill [OF i m] split: outcome.splits)
      then show ?thesis using Suc.prems(1) t1 by simp
    qed
  next
    case False
    obtain r1 p1 where c: "invokeMsg ?m ?p = (r1, p1)" by fastforce
    obtain t1 where t1: "plain ?p r1 t1 p1" using plain_invokeMsg [OF c] by blast
    show ?thesis
    proof (cases "r1 = Ret")
      case True
      then have "invoke_loop \<epsilon> msgs (Suc i) (Suc np) (Suc k) p1 = (r, np', p')"
        using Suc.prems(2) c by (simp add: invoke_loop_msg [OF i False])
      then obtain t2 where "plain p1 r t2 p'" using Suc.hyps i by (metis Suc_diff_Suc nat.inject)
      moreover have "plain p Ret t1 p1" using t1 True by simp
      ultimately show ?thesis using Suc.prems(1) plain_trans by blast
    next
      case r1: False
      then have "r = r1" "p' = p1"
        using Suc.prems(2) c by (auto simp: invoke_loop_msg [OF i False] split: outcome.splits)
      then show ?thesis using Suc.prems(1) t1 by simp
    qed
  qed
qed

text \<open>A receiver that does not panic gets through the messages before a pill, and the drain after it.\<close>

lemma invokeMsgs_quiet:
  assumes "\<And>v. \<not> may_panic p v"
  shows "\<exists>q tr. invokeMsgs ms p = (Ret, q) \<and> plain p Ret tr q \<and> delivered_in tr = filter (\<lambda>m. \<not> is_pill (Msg m)) ms"
proof -
  obtain r q where e: "invokeMsgs ms p = (r, q)" by fastforce
  obtain tr where tr: "plain p r tr q" "r = Ret \<Longrightarrow> delivered_in tr = filter (\<lambda>m. \<not> is_pill (Msg m)) ms"
    using plain_invokeMsgs [OF e] by blast
  have "r = Ret" using tr(1) assms by (cases r) (auto simp: plain_def)
  then show ?thesis using e tr by blast
qed

lemma pill_drain_quiet:
  assumes "\<And>v. \<not> may_panic p v"
  shows "\<exists>q tr. (if g then invokeMsgs ms p else (Ret, p)) = (Ret, q) \<and> plain p Ret tr q
    \<and> delivered_in tr = (if g then filter (\<lambda>m. \<not> is_pill (Msg m)) ms else [])"
  using invokeMsgs_quiet [OF assms, of ms] plain_Ret [of p] by (cases g) fastforce+

lemma invoke_loop_prefix:
  assumes "no_pills pre" "\<And>v. \<not> may_panic p v"
  shows "\<exists>q tr. plain p Ret tr q \<and> delivered_in tr = pre
    \<and> invoke_loop \<epsilon> (pre @ rest) 0 0 0 p = invoke_loop \<epsilon> (pre @ rest) (length pre) (length pre) (length pre) q"
  using assms(1)
proof (induction pre arbitrary: rest rule: rev_induct)
  case Nil
  then show ?case using plain_Ret by fastforce
next
  case (snoc m pre)
  obtain q tr where q: "plain p Ret tr q" "delivered_in tr = pre"
    "invoke_loop \<epsilon> (pre @ m # rest) 0 0 0 p = invoke_loop \<epsilon> (pre @ m # rest) (length pre) (length pre) (length pre) q"
    using snoc.IH [of "m # rest"] snoc.prems by (auto simp: no_pills_def)
  have m: "\<not> is_pill (Msg m)" using snoc.prems by (simp add: no_pills_def)
  obtain r1 q1 where c: "invokeMsg m (q\<lparr>p_mcount := p_mcount q - 1\<rparr>) = (r1, q1)" by fastforce
  obtain acts where a: "plain q r1 (EDeliver (Msg m) (Sender m) # map EAct acts) q1"
    using plain_invokeMsg [OF c] m by auto
  have "r1 = Ret" using a assms(2) q(1) by (metis keeps_may_panic outcome.exhaust plain_def)
  then have "invoke_loop \<epsilon> (pre @ m # rest) (length pre) (length pre) (length pre) q =
      invoke_loop \<epsilon> (pre @ m # rest) (Suc (length pre)) (Suc (length pre)) (Suc (length pre)) q1"
    using c m by (subst invoke_loop_msg) auto
  then show ?case
    using plain_trans [OF q(1) a [unfolded \<open>r1 = Ret\<close>]] q(2,3)
    by (intro exI [of _ q1] exI [of _ "tr @ EDeliver (Msg m) (Sender m) # map EAct acts"]) simp
qed

subsection \<open>The cases of Start, Invoke and tryRestart\<close>

abbreviation composed :: "('u, 'm, 'a) process \<Rightarrow> ('u, 'm, 'a) receive_func" where
  "composed p \<equiv> applyMiddleware (Receive (p_opts p)) (Middleware (p_opts p))"

lemma proc_Start_cases:
  assumes "proc_Start \<epsilon> (Suc f) p = (r, p')"
  obtains
    (producer) u v where "Producer (p_opts p) (p_user p) = (u, Some v)" "r = Panic v" "p' = p\<lparr>p_user := u\<rparr>"
  | (hooks) u v p1 where "start_hooks (p\<lparr>p_user := u, p_receive := composed p\<rparr>) = (Panic v, p1)"
      "proc_tryRestart \<epsilon> f v p1 = (r, p')"
  | (empty) u p1 where "start_hooks (p\<lparr>p_user := u, p_receive := composed p\<rparr>) = (Ret, p1)"
      "p_mbuffer p1 = []" "r = Ret" "p' = inbox_start p1"
  | (invoked) u p1 p2 where "start_hooks (p\<lparr>p_user := u, p_receive := composed p\<rparr>) = (Ret, p1)"
      "proc_Invoke \<epsilon> f (p_mbuffer p1) p1 = (Ret, p2)" "r = Ret" "p' = inbox_start (p2\<lparr>p_mbuffer := []\<rparr>)"
  | (crashed) u p1 v p2 where "start_hooks (p\<lparr>p_user := u, p_receive := composed p\<rparr>) = (Ret, p1)"
      "proc_Invoke \<epsilon> f (p_mbuffer p1) p1 = (Panic v, p2)" "proc_tryRestart \<epsilon> f v p2 = (r, p')"
  | (fuel) u p1 where "start_hooks (p\<lparr>p_user := u, p_receive := composed p\<rparr>) = (Ret, p1)"
      "proc_Invoke \<epsilon> f (p_mbuffer p1) p1 = (OutOfFuel, p')" "r = OutOfFuel"
proof -
  obtain u x where pr: "Producer (p_opts p) (p_user p) = (u, x)" by fastforce
  obtain r1 p1 where h: "start_hooks (p\<lparr>p_user := u, p_receive := composed p\<rparr>) = (r1, p1)" by fastforce
  have "r1 \<noteq> OutOfFuel" by (rule plain_start_hooks [OF h]) (simp add: plain_def)
  then consider (a) v where "x = Some v" | (b) v where "x = None" "r1 = Panic v" | (c) "x = None" "r1 = Ret" "p_mbuffer p1 = []"
    | (d) "x = None" "r1 = Ret" "p_mbuffer p1 \<noteq> []" by (cases x; cases r1; auto)
  then show ?thesis
  proof cases
    case a
    have "r = Panic v" "p' = p\<lparr>p_user := u\<rparr>" using assms unfolding proc_Start.simps pr a by simp_all
    then show ?thesis using producer pr a by blast
  next
    case b
    have "proc_tryRestart \<epsilon> f v p1 = (r, p')" using assms unfolding proc_Start.simps pr b by (simp add: h b)
    then show ?thesis using hooks h b by blast
  next
    case c
    have "r = Ret" "p' = inbox_start p1" using assms unfolding proc_Start.simps pr c by (simp_all add: h c)
    then show ?thesis using empty h c by blast
  next
    case d
    obtain r2 p2 where i: "proc_Invoke \<epsilon> f (p_mbuffer p1) p1 = (r2, p2)" by fastforce
    note e = assms [unfolded proc_Start.simps pr d, simplified, unfolded h, simplified, unfolded d i, simplified]
    show ?thesis
    proof (cases r2)
      case Ret
      have "r = Ret" "p' = inbox_start (p2\<lparr>p_mbuffer := []\<rparr>)" using e Ret d by simp_all
      then show ?thesis using invoked h i d Ret by blast
    next
      case (Panic v)
      have "proc_tryRestart \<epsilon> f v p2 = (r, p')" using e Panic d by simp
      then show ?thesis using crashed h i d Panic by blast
    next
      case OutOfFuel
      have "r = OutOfFuel" "p' = p2" using e OutOfFuel d by simp_all
      then show ?thesis using fuel h i d OutOfFuel by blast
    qed
  qed
qed

lemma proc_Invoke_cases:
  assumes "proc_Invoke \<epsilon> (Suc f) msgs p = (r, p')"
  obtains
    (finished) np where "invoke_loop \<epsilon> msgs 0 0 0 (p\<lparr>p_mcount := of_nat (length msgs)\<rparr>) = (Ret, np, p')" "r = Ret"
  | (crashed) v np p1 where "invoke_loop \<epsilon> msgs 0 0 0 (p\<lparr>p_mcount := of_nat (length msgs)\<rparr>) = (Panic v, np, p1)"
      "proc_tryRestart \<epsilon> f v (p1\<lparr>p_mbuffer := drop np msgs, p_mcount := of_nat (length msgs - np)\<rparr>) = (r, p')"
proof -
  obtain r1 np p1 where l: "invoke_loop \<epsilon> msgs 0 0 0 (p\<lparr>p_mcount := of_nat (length msgs)\<rparr>) = (r1, np, p1)"
    by (metis prod_cases3)
  have "r1 \<noteq> OutOfFuel" by (rule invoke_loop_plain [OF l]) (simp add: plain_def)
  moreover have "unprocessed msgs np = drop np msgs"
    by (rule nth_equalityI) (auto simp: unprocessed_def add.commute)
  ultimately show ?thesis using assms l that by (cases r1) auto
qed

lemma proc_tryRestart_cases:
  assumes "proc_tryRestart \<epsilon> (Suc f) v p = (r, p')"
  obtains
    (internal) src err where "v = InternalError src err"
      "proc_Start \<epsilon> f (emit [ELogError src err, ESleep (RestartDelay (p_opts p))] p) = (r, p')"
  | (trace) e where "clean_trace \<epsilon> (p_clock p) = Inl e" "r = Panic (RuntimePanic e)" "p' = p"
  | (exceeded) "p_restarts p = MaxRestarts (p_opts p)"
      "cleanup \<epsilon> None (broadcast_now ActorMaxRestartsExceededEvent p) = (r, p')"
  | (stopped) w where "call_receive ELifecycle (p\<lparr>p_message := Stopped\<rparr>) = (Panic w, p')" "r = Panic w"
  | (restart) stack p1 where "p_restarts p \<noteq> MaxRestarts (p_opts p)"
      "call_receive ELifecycle (p\<lparr>p_message := Stopped\<rparr>) = (Ret, p1)"
      "proc_Start \<epsilon> f (count_restart stack v p1) = (r, p')"
proof -
  obtain r1 p1 where c: "call_receive ELifecycle (p\<lparr>p_message := Stopped\<rparr>) = (r1, p1)" by fastforce
  have n: "r1 \<noteq> OutOfFuel" by (rule plain_lifecycle [OF c]) (simp add: plain_def)
  show ?thesis
  proof (cases "\<exists>src err. v = InternalError src err")
    case True
    then show ?thesis using assms that(1) by auto
  next
    case False
    then have e: "proc_tryRestart \<epsilon> (Suc f) v p = (case clean_trace \<epsilon> (p_clock p) of
        Inl e \<Rightarrow> (Panic (RuntimePanic e), p)
      | Inr stack \<Rightarrow> if p_restarts p = MaxRestarts (p_opts p)
          then cleanup \<epsilon> None (broadcast_now ActorMaxRestartsExceededEvent p)
          else (case (r1, p1) of (Ret, p1) \<Rightarrow> proc_Start \<epsilon> f (count_restart stack v p1) | r \<Rightarrow> r))"
      using c by (cases v) (auto split: sum.split)
    show ?thesis
      using assms[unfolded e] n that(2-5) c by (cases r1) (auto split: sum.splits if_splits)
  qed
qed

subsection \<open>Supervision: counting restarts\<close>

text \<open>How many restarts the process has left; the 32-bit counters may wrap.\<close>

definition left :: "('u, 'm, 'a) process \<Rightarrow> nat" where
  "left p = unat (MaxRestarts (p_opts p) - p_restarts p)"

text \<open>Every restart that is announced uses one up, whatever panics where.\<close>

definition accounted :: "('u, 'm, 'a) process \<Rightarrow> 'm outcome \<times> ('u, 'm, 'a) process \<Rightarrow> bool" where
  "accounted p res \<longleftrightarrow> (\<exists>tr. emits p tr (snd res) \<and> restarts_in tr + left (snd res) = left p)"

lemma left_upd [simp]:
  "left (p\<lparr>p_message := m\<rparr>) = left p" "left (p\<lparr>p_user := u\<rparr>) = left p" "left (p\<lparr>p_mbuffer := b\<rparr>) = left p"
  "left (p\<lparr>p_mcount := n\<rparr>) = left p" "left (p\<lparr>p_receive := rc\<rparr>) = left p"
  by (simp_all add: left_def)

lemma keeps_left: "emits p tr p' \<Longrightarrow> keeps p p' \<Longrightarrow> left p' = left p"
  by (simp add: emits_def keeps_def left_def)

lemma plain_accounted: "plain p r tr p' \<Longrightarrow> accounted p (r', p')"
  unfolding accounted_def plain_def using keeps_left [of p tr p'] by (intro exI [of _ tr]) simp

lemma accounted_trans: "accounted p (r, p') \<Longrightarrow> accounted p' res \<Longrightarrow> accounted p res"
  unfolding accounted_def by (metis (no_types, opaque_lifting) add.assoc emits_trans restarts_in_append snd_conv)

lemma accounted_upd [simp]:
  "accounted (p\<lparr>p_user := u\<rparr>) res = accounted p res"
  "accounted (p\<lparr>p_receive := rc\<rparr>) res = accounted p res"
  "accounted (p\<lparr>p_mcount := n\<rparr>) res = accounted p res"
  "accounted (p\<lparr>p_mbuffer := b\<rparr>) res = accounted p res"
  "accounted (p\<lparr>p_message := m\<rparr>) res = accounted p res"
  "accounted p (r, p'\<lparr>p_mbuffer := b\<rparr>) = accounted p (r, p')"
  "accounted p (r, p'\<lparr>p_user := u\<rparr>) = accounted p (r, p')"
  by (auto simp: accounted_def)

lemma accounted_outcome: "accounted p (r, p') \<Longrightarrow> accounted p (r', p')"
  by (simp add: accounted_def)

lemma accounted_refl [simp]: "accounted p (r, p)"
  by (auto simp: accounted_def intro: exI [of _ "[]"])

lemma unat_minus_one_restart:
  fixes a b :: "32 word"
  assumes "b \<noteq> a"
  shows "Suc (unat (a - (b + 1))) = unat (a - b)"
proof -
  have "a - b \<noteq> 0" using assms by simp
  then show ?thesis using unat_minus_one [of "a - b"] unat_gt_0 [of "a - b"] by (simp add: diff_diff_eq)
qed

lemma count_restart_accounted:
  assumes "p_restarts p \<noteq> MaxRestarts (p_opts p)"
  shows "accounted p (r, count_restart stack v p)" "Suc (left (count_restart stack v p)) = left p"
proof -
  show l: "Suc (left (count_restart stack v p)) = left p"
    using unat_minus_one_restart [OF assms] by (simp add: left_def count_restart_def Let_def emit_def broadcast_now_def)
  let ?tr = "[EBroadcast (ActorRestartedEvent (Some (p_pid p)) (p_clock p) stack v (p_restarts p + 1)),
     ESleep (RestartDelay (p_opts p))]"
  have "emits p ?tr (count_restart stack v p)"
    by (simp add: count_restart_def Let_def emit_def broadcast_now_def emits_def)
  then show "accounted p (r, count_restart stack v p)"
    using l by (auto simp: accounted_def intro!: exI [of _ ?tr])
qed

lemma exceeded_event_emits:
  "emits p [EBroadcast (ActorMaxRestartsExceededEvent (Some (p_pid p)) (p_clock p))] (broadcast_now ActorMaxRestartsExceededEvent p)"
  "keeps p (broadcast_now ActorMaxRestartsExceededEvent p)"
  by (rule broadcast_now_emits)+

lemma hooks_accounted: "start_hooks (p\<lparr>p_user := u, p_receive := rc\<rparr>) = (r, p1) \<Longrightarrow> accounted p (r', p1)"
  by (erule plain_start_hooks, drule plain_accounted) simp

lemma inbox_start_accounted: "accounted p (r, p1) \<Longrightarrow> accounted p (r', inbox_start p1)"
  using inbox_start_emits [of p1] keeps_left [of p1 _ "inbox_start p1"]
  unfolding accounted_def by (fastforce dest: emits_trans)

lemma Start_accounted:
  fixes p :: "('u, 'm, 'a) process"
  assumes I: "\<And>msgs (p :: ('u, 'm, 'a) process). accounted p (proc_Invoke \<epsilon> f msgs p)"
    and T: "\<And>v (p :: ('u, 'm, 'a) process). accounted p (proc_tryRestart \<epsilon> f v p)"
  shows "accounted p (proc_Start \<epsilon> (Suc f) p)"
proof -
  obtain r p' where e: "proc_Start \<epsilon> (Suc f) p = (r, p')" by fastforce
  from e have "accounted p (r, p')"
  proof (cases rule: proc_Start_cases)
    case (hooks u v p1)
    then show ?thesis using accounted_trans [OF hooks_accounted [OF hooks(1)] T [of p1 v]] by simp
  next
    case (empty u p1)
    then show ?thesis using inbox_start_accounted [OF hooks_accounted [OF empty(1)]] by simp
  next
    case (invoked u p1 p2)
    then have "accounted p (Ret, p2)" using accounted_trans [OF hooks_accounted [OF invoked(1)] I [of p1 "p_mbuffer p1"]] by simp
    then show ?thesis using inbox_start_accounted [of p Ret "p2\<lparr>p_mbuffer := []\<rparr>"] invoked by simp
  next
    case (crashed u p1 v p2)
    then have "accounted p (Panic v, p2)" using accounted_trans [OF hooks_accounted [OF crashed(1)] I [of p1 "p_mbuffer p1"]] by simp
    then show ?thesis using accounted_trans [OF _ T [of p2 v]] crashed by simp
  next
    case (fuel u p1)
    then show ?thesis using accounted_trans [OF hooks_accounted [OF fuel(1)] I [of p1 "p_mbuffer p1"]] by simp
  qed simp
  then show ?thesis by (simp only: e)
qed

lemma Invoke_accounted:
  fixes p :: "('u, 'm, 'a) process"
  assumes T: "\<And>v (p :: ('u, 'm, 'a) process). accounted p (proc_tryRestart \<epsilon> f v p)"
  shows "accounted p (proc_Invoke \<epsilon> (Suc f) msgs p)"
proof -
  obtain r p' where e: "proc_Invoke \<epsilon> (Suc f) msgs p = (r, p')" by fastforce
  from e have "accounted p (r, p')"
  proof (cases rule: proc_Invoke_cases)
    case (finished np)
    then show ?thesis by - (erule invoke_loop_plain, drule plain_accounted, simp)
  next
    case (crashed v np p1)
    have "accounted p (r, p1)" using crashed(1) by - (erule invoke_loop_plain, drule plain_accounted, simp)
    then show ?thesis
      using accounted_trans [of p r p1 "(r, p')"] T [of "p1\<lparr>p_mbuffer := drop np msgs, p_mcount := of_nat (length msgs - np)\<rparr>" v]
        crashed(2) by simp
  qed
  then show ?thesis by (simp only: e)
qed

lemma tryRestart_accounted:
  fixes p :: "('u, 'm, 'a) process"
  assumes S: "\<And>p :: ('u, 'm, 'a) process. accounted p (proc_Start \<epsilon> f p)"
  shows "accounted p (proc_tryRestart \<epsilon> (Suc f) v p)"
proof -
  obtain r p' where e: "proc_tryRestart \<epsilon> (Suc f) v p = (r, p')" by fastforce
  from e have "accounted p (r, p')"
  proof (cases rule: proc_tryRestart_cases)
    case (internal src err)
    show ?thesis
      using accounted_trans [OF plain_accounted [OF plain_emit] S,
          of "[ELogError src err, ESleep (RestartDelay (p_opts p))]" p] internal(2) by simp
  next
    case exceeded
    have "accounted p (r, broadcast_now ActorMaxRestartsExceededEvent p)"
      using exceeded_event_emits [of p] keeps_left [OF exceeded_event_emits [of p]] by (fastforce simp: accounted_def)
    then show ?thesis using accounted_trans plain_accounted exceeded(2) by (metis plain_cleanup)
  next
    case (stopped w)
    then show ?thesis by - (erule plain_lifecycle, drule plain_accounted, simp)
  next
    case (restart stack p1)
    obtain tr where pl: "plain p Ret tr p1" using plain_lifecycle [OF restart(2)] by auto
    then have "p_restarts p1 \<noteq> MaxRestarts (p_opts p1)" using restart(1) by (simp add: plain_def keeps_def emits_def)
    then have "accounted p1 (r, count_restart stack v p1)" by (rule count_restart_accounted)
    then show ?thesis
      using accounted_trans [OF plain_accounted [OF pl] accounted_trans [OF _ S]] restart(3) by metis
  qed simp
  then show ?thesis by (simp only: e)
qed

lemma supervision_accounted:
  "\<forall>p :: ('u, 'm, 'a) process. accounted p (proc_Start \<epsilon> f p)"
  "\<forall>msgs (p :: ('u, 'm, 'a) process). accounted p (proc_Invoke \<epsilon> f msgs p)"
  "\<forall>v (p :: ('u, 'm, 'a) process). accounted p (proc_tryRestart \<epsilon> f v p)"
  by (induction f) (simp_all del: proc_Start.simps(2) proc_Invoke.simps(2) proc_tryRestart.simps(2)
    add: Start_accounted Invoke_accounted tryRestart_accounted)

subsection \<open>Supervision: counting starts\<close>

text \<open>How often \<open>Start\<close> initialized the receiver, and how often an \<open>InternalError\<close> was logged.\<close>

fun starts_in :: "('m, 'a) effect list \<Rightarrow> nat" where
  "starts_in [] = 0"
| "starts_in (ELifecycle Initialized _ # es) = Suc (starts_in es)"
| "starts_in (_ # es) = starts_in es"

fun internals_in :: "('m, 'a) effect list \<Rightarrow> nat" where
  "internals_in [] = 0"
| "internals_in (ELogError _ _ # es) = Suc (internals_in es)"
| "internals_in (_ # es) = internals_in es"

lemma starts_in_append [simp]: "starts_in (xs @ ys) = starts_in xs + starts_in ys"
  by (induction xs rule: starts_in.induct) auto

lemma internals_in_append [simp]: "internals_in (xs @ ys) = internals_in xs + internals_in ys"
  by (induction xs rule: internals_in.induct) auto

lemma starts_in_silent [simp]:
  "starts_in (map EAct as) = 0" "internals_in (map EAct as) = 0"
  "starts_in (map EPoisonWait qs) = 0" "internals_in (map EPoisonWait qs) = 0"
  "starts_in (cancel_effect c) = 0" "internals_in (cancel_effect c) = 0"
  by (induction as; simp; fail) (induction as; simp; fail | induction qs; simp; fail | auto simp: cancel_effect_def split: option.split)+

text \<open>The restarts announced and \<open>InternalError\<close>s logged that no start has followed yet.\<close>

definition slack :: "('u, 'm, 'a) process \<Rightarrow> int" where
  "slack p = int (restarts_in (p_trace p)) + int (internals_in (p_trace p)) - int (starts_in (p_trace p))"

lemma slack_upd [simp]:
  "slack (p\<lparr>p_user := u\<rparr>) = slack p" "slack (p\<lparr>p_receive := rc\<rparr>) = slack p" "slack (p\<lparr>p_mcount := n\<rparr>) = slack p"
  "slack (p\<lparr>p_mbuffer := b\<rparr>) = slack p" "slack (p\<lparr>p_message := m\<rparr>) = slack p" "slack (p\<lparr>p_sender := q\<rparr>) = slack p"
  "slack (p\<lparr>p_children := cs\<rparr>) = slack p" "slack (p\<lparr>p_inbox := s\<rparr>) = slack p" "slack (p\<lparr>p_restarts := k\<rparr>) = slack p"
  "slack (p\<lparr>p_clock := t\<rparr>) = slack p"
  by (simp_all add: slack_def)

lemma slack_emit [simp]:
  "slack (emit es p) = slack p + int (restarts_in es) + int (internals_in es) - int (starts_in es)"
  by (simp add: slack_def emit_def)

lemma slack_broadcast [simp]:
  "slack (broadcast_now ActorInitializedEvent p) = slack p" "slack (broadcast_now ActorStartedEvent p) = slack p"
  "slack (broadcast_now ActorStoppedEvent p) = slack p" "slack (broadcast_now ActorMaxRestartsExceededEvent p) = slack p"
  by (simp_all add: broadcast_now_def)

lemma slack_receive:
  assumes "call_receive how p = (r, p')"
  shows "slack p' = slack p + int (restarts_in [how (p_message p) (p_sender p)]) + int (internals_in [how (p_message p) (p_sender p)])
    - int (starts_in [how (p_message p) (p_sender p)])"
proof -
  let ?x = "how (p_message p) (p_sender p)"
  obtain u acts y where "p_receive p \<lparr>cv_pid = p_pid p, cv_message = p_message p, cv_sender = p_sender p\<rparr> (p_user p) = (u, acts, y)"
    by (metis prod_cases3)
  then have "p' = emit ([?x] @ map EAct acts) (p\<lparr>p_user := u, p_children := add_children acts (p_children p)\<rparr>)"
    using assms by (simp add: call_receive_def)
  then show ?thesis by (simp del: append_Cons append_Nil)
qed

lemma slack_invokeMsg: "invokeMsg m p = (r, p') \<Longrightarrow> slack p' = slack p"
  by (auto simp: invokeMsg_def split: if_splits dest!: slack_receive)

lemma slack_invokeMsgs: "invokeMsgs ms p = (r, p') \<Longrightarrow> slack p' = slack p"
proof (induction ms arbitrary: p)
  case (Cons m ms)
  obtain r1 p1 where "invokeMsg m p = (r1, p1)" by fastforce
  then show ?case using Cons slack_invokeMsg [of m p r1 p1] by (cases r1) auto
qed simp

lemma starts_in_hook [simp]: "m \<noteq> Initialized \<Longrightarrow> starts_in (ELifecycle m q # es) = starts_in es"
  by (cases m) simp_all

lemma slack_cleanup:
  assumes "cleanup \<epsilon> c p = (r, p')"
  shows "slack p' = slack p"
proof (rule cleanup_effects [OF assms], goal_cases)
  case (1 acts)
  then have "p_trace p' = p_trace p @ (case p_parent p of None \<Rightarrow> [] | Some _ \<Rightarrow> [EParentDelete (ID (p_pid p))]) @
       (if sm_Len (p_children p) > 0
        then map EPoisonWait (sm_Values (children_order \<epsilon> (sm_data (p_children p))) (p_children p)) else []) @
       [EInboxStop, ERegRemove (p_pid p), ELifecycle Stopped (p_sender p)] @ map EAct acts @
       (if r = Ret then [EBroadcast (ActorStoppedEvent (Some (p_pid p)) (p_clock p))] else []) @
       cancel_effect c"
    unfolding plain_def emits_def by blast
  then show ?case by (simp add: slack_def split: option.split)
qed

lemma slack_loop: "invoke_loop \<epsilon> msgs i np k p = (r, n, p') \<Longrightarrow> slack p' = slack p"
proof (induction "length msgs - i" arbitrary: i np k p)
  case 0
  then show ?case by (simp add: invoke_loop_done)
next
  case (Suc l)
  then have i: "i < length msgs" and l: "l = length msgs - Suc i" by simp_all
  let ?p = "p\<lparr>p_mcount := p_mcount p - 1\<rparr>"
  show ?case
  proof (cases "is_pill (Msg (msgs ! i))")
    case True
    then obtain c g where m: "Msg (msgs ! i) = PoisonPill c g" by (cases "Msg (msgs ! i)") auto
    obtain r1 p1 where d: "(if g then invokeMsgs (drop k msgs) ?p else (Ret, ?p)) = (r1, p1)" by fastforce
    obtain r2 p2 where c: "cleanup \<epsilon> c p1 = (r2, p2)" by fastforce
    have "slack p1 = slack p" using d slack_invokeMsgs [of "drop k msgs" ?p] by (auto split: if_splits)
    then show ?thesis using Suc.prems slack_cleanup [OF c] c by (cases r1) (simp_all add: invoke_loop_pill [OF i m] d)
  next
    case False
    obtain r1 p1 where c: "invokeMsg (msgs ! i) ?p = (r1, p1)" by fastforce
    show ?thesis using Suc.prems Suc.hyps(1) [OF l] slack_invokeMsg [OF c] c by (cases r1) (simp_all add: invoke_loop_msg [OF i False])
  qed
qed

lemma slack_hooks: "start_hooks p = (r, p') \<Longrightarrow> slack p - 1 \<le> slack p'"
  by (auto simp: start_hooks_def split: prod.splits outcome.splits dest!: slack_receive)

lemma slack_inbox_start [simp]: "slack (inbox_start p) = slack p"
  by (simp add: inbox_start_def)

lemma slack_count_restart [simp]: "slack (count_restart stack v p) = slack p + 1"
  by (simp add: count_restart_def broadcast_now_def Let_def)

text \<open>\<open>Start\<close> initializes the receiver; \<open>Invoke\<close> and \<open>tryRestart\<close> pay for every start of theirs.\<close>

lemma supervision_paced:
  "\<forall>p :: ('u, 'm, 'a) process. slack p - 1 \<le> slack (snd (proc_Start \<epsilon> f p))"
  "\<forall>msgs (p :: ('u, 'm, 'a) process). slack p \<le> slack (snd (proc_Invoke \<epsilon> f msgs p))"
  "\<forall>v (p :: ('u, 'm, 'a) process). slack p \<le> slack (snd (proc_tryRestart \<epsilon> f v p))"
proof (induction f)
  case (Suc f)
  {
    case 1
    show ?case
    proof
      fix p :: "('u, 'm, 'a) process"
      obtain u w where pr: "Producer (p_opts p) (p_user p) = (u, w)" by fastforce
      obtain r p1 where h: "start_hooks (p\<lparr>p_user := u, p_receive := applyMiddleware (Receive (p_opts p)) (Middleware (p_opts p))\<rparr>) = (r, p1)" by fastforce
      obtain r2 p2 where i: "proc_Invoke \<epsilon> f (p_mbuffer p1) p1 = (r2, p2)" by fastforce
      have "slack p - 1 \<le> slack p1" "slack p1 \<le> slack p2" using slack_hooks [OF h] Suc.IH(2) i by (simp, metis snd_conv)
      moreover have "slack q \<le> slack (snd (proc_tryRestart \<epsilon> f v q))" for v and q :: "('u, 'm, 'a) process" using Suc.IH(3) by blast
      ultimately show "slack p - 1 \<le> slack (snd (proc_Start \<epsilon> (Suc f) p))"
        using pr h i by (cases w; cases r; cases r2) (auto intro: order_trans)
    qed
  next
    case 2
    show ?case
    proof (intro allI)
      fix msgs and p :: "('u, 'm, 'a) process"
      obtain r n p1 where l: "invoke_loop \<epsilon> msgs 0 0 0 (p\<lparr>p_mcount := of_nat (length msgs)\<rparr>) = (r, n, p1)" by (metis prod_cases3)
      have t: "slack q \<le> slack (snd (proc_tryRestart \<epsilon> f v q))" for v and q :: "('u, 'm, 'a) process" using Suc.IH(3) by blast
      show "slack p \<le> slack (snd (proc_Invoke \<epsilon> (Suc f) msgs p))"
        using slack_loop [OF l] l t [of "p1\<lparr>p_mbuffer := unprocessed msgs n, p_mcount := of_nat (length msgs - n)\<rparr>"] by (cases r) auto
    qed
  next
    case 3
    have s: "slack q - 1 \<le> slack (snd (proc_Start \<epsilon> f q))" for q :: "('u, 'm, 'a) process" using Suc.IH(1) by blast
    show ?case
    proof (intro allI)
      fix v and p :: "('u, 'm, 'a) process"
      obtain r p1 where c: "call_receive ELifecycle (p\<lparr>p_message := Stopped\<rparr>) = (r, p1)" by fastforce
      obtain r2 p2 where k: "cleanup \<epsilon> None (broadcast_now ActorMaxRestartsExceededEvent p) = (r2, p2)" by fastforce
      have "slack p1 = slack p" "slack p2 = slack p" using slack_receive [OF c] slack_cleanup [OF k] by simp_all
      then show "slack p \<le> slack (snd (proc_tryRestart \<epsilon> (Suc f) v p))"
        using c k s [of "count_restart stack v p1" for stack] s [of "emit [ELogError src err, ESleep (RestartDelay (p_opts p))] p" for src err]
        by (cases v; cases r; cases "clean_trace \<epsilon> (p_clock p)") auto
    qed
  }
qed simp_all

text \<open>The life of a process: \<open>Start\<close>, then \<open>Invoke\<close> with the batches its inbox forms.\<close>

definition proc_life :: "env \<Rightarrow> nat \<Rightarrow> 'm envelope list list \<Rightarrow> ('u, 'm, 'a) process \<Rightarrow> ('u, 'm, 'a) process" where
  "proc_life \<epsilon> f bs p = fold (\<lambda>b p. snd (proc_Invoke \<epsilon> f b p)) bs (snd (proc_Start \<epsilon> f p))"

lemma invokes_accounted: "accounted p (r, q) \<Longrightarrow> accounted p (r', fold (\<lambda>b p. snd (proc_Invoke \<epsilon> f b p)) bs q)"
proof (induction bs arbitrary: q r)
  case (Cons b bs)
  obtain r1 q1 where "proc_Invoke \<epsilon> f b q = (r1, q1)" by fastforce
  moreover from this have "accounted p (r1, q1)"
    using accounted_trans [OF Cons.prems, of "(r1, q1)"] spec [OF spec [OF supervision_accounted(2) [of \<epsilon> f], of b], of q] by simp
  ultimately show ?case using Cons.IH [of r1 q1] by simp
qed (simp add: accounted_def)

lemma life_accounted: "accounted p (r, proc_life \<epsilon> f bs p)"
proof -
  obtain r1 q where "proc_Start \<epsilon> f p = (r1, q)" by fastforce
  moreover from this have "accounted p (r1, q)" using spec [OF supervision_accounted(1) [of \<epsilon> f], of p] by simp
  ultimately show ?thesis using invokes_accounted by (simp add: proc_life_def)
qed

lemma life_paced: "slack p - 1 \<le> slack (proc_life \<epsilon> f bs p)"
proof -
  have "slack q \<le> slack (fold (\<lambda>b p. snd (proc_Invoke \<epsilon> f b p)) bs q)" for q :: "('a, 'b, 'c) process"
  proof (induction bs arbitrary: q)
    case (Cons b bs)
    have "slack q \<le> slack (snd (proc_Invoke \<epsilon> f b q))" using supervision_paced(2) by blast
    then show ?case using Cons.IH [of "snd (proc_Invoke \<epsilon> f b q)"] by simp
  qed simp
  then show ?thesis unfolding proc_life_def using supervision_paced(1) [of \<epsilon> f] order_trans by blast
qed

subsection \<open>Delivery across restarts\<close>

text \<open>
  Of the messages \<open>ms\<close>, a prefix was delivered; all of them when the method returned and the
  process did not give up; and when the method panicked, the rest is in the buffer, where the
  caller's recovery finds it.
\<close>

definition delivers :: "'m envelope list \<Rightarrow> ('u, 'm, 'a) process \<Rightarrow> 'm outcome \<times> ('u, 'm, 'a) process \<Rightarrow> bool" where
  "delivers ms p res \<longleftrightarrow> (\<exists>tr. emits p tr (snd res) \<and> prefix (delivered_in tr) ms \<and>
     (fst res = Ret \<and> \<not> exceeded_in tr \<longrightarrow> delivered_in tr = ms) \<and>
     (\<forall>v. fst res = Panic v \<longrightarrow> delivered_in tr @ p_mbuffer (snd res) = ms))"

lemma delivers_upd [simp]:
  "delivers ms (p\<lparr>p_user := u\<rparr>) res = delivers ms p res"
  "delivers ms (p\<lparr>p_mcount := n\<rparr>) res = delivers ms p res"
  "delivers ms (p\<lparr>p_receive := rc\<rparr>) res = delivers ms p res"
  "delivers ms (p\<lparr>p_mbuffer := b\<rparr>) res = delivers ms p res"
  by (simp_all add: delivers_def)

text \<open>A part that delivered \<open>ms1\<close> and did not give up, followed by one that delivers of the rest.\<close>

lemma delivers_after:
  assumes "emits p tr p1" "\<not> exceeded_in tr" "delivers ms2 p1 res"
  shows "delivers (delivered_in tr @ ms2) p res"
proof -
  obtain tr2 where 2: "emits p1 tr2 (snd res)" "prefix (delivered_in tr2) ms2"
    "fst res = Ret \<and> \<not> exceeded_in tr2 \<longrightarrow> delivered_in tr2 = ms2"
    "\<forall>v. fst res = Panic v \<longrightarrow> delivered_in tr2 @ p_mbuffer (snd res) = ms2"
    using assms(3) by (auto simp: delivers_def)
  show ?thesis unfolding delivers_def
    by (rule exI [of _ "tr @ tr2"]) (use emits_trans [OF assms(1) 2(1)] 2 assms(2) in auto)
qed

text \<open>The same when the first part may have given up on the way but ended with a panic.\<close>

lemma delivers_panicked:
  assumes "delivers ms p (Panic v, p1)" "delivers (p_mbuffer p1) p1 res"
  shows "delivers ms p res"
proof -
  obtain tr where 1: "emits p tr p1" "delivered_in tr @ p_mbuffer p1 = ms"
    using assms(1) by (auto simp: delivers_def)
  obtain tr2 where 2: "emits p1 tr2 (snd res)" "prefix (delivered_in tr2) (p_mbuffer p1)"
    "fst res = Ret \<and> \<not> exceeded_in tr2 \<longrightarrow> delivered_in tr2 = p_mbuffer p1"
    "\<forall>v. fst res = Panic v \<longrightarrow> delivered_in tr2 @ p_mbuffer (snd res) = p_mbuffer p1"
    using assms(2) by (auto simp: delivers_def)
  show ?thesis unfolding delivers_def 1(2) [symmetric]
    by (rule exI [of _ "tr @ tr2"]) (use emits_trans [OF 1(1) 2(1)] 2 in auto)
qed

lemma delivers_plain:
  assumes "plain p r tr p1" "delivered_in tr = []" "delivers (p_mbuffer p) p1 res"
  shows "delivers (p_mbuffer p) p res"
  using delivers_after [OF _ _ assms(3), of p tr] assms(1,2) by (simp add: plain_def)

lemma inbox_start_delivers:
  assumes "delivers ms p (Ret, p1)"
  shows "delivers ms p (Ret, inbox_start (p1\<lparr>p_mbuffer := b\<rparr>))"
proof -
  obtain tr where 1: "emits p tr p1" "prefix (delivered_in tr) ms" "\<not> exceeded_in tr \<longrightarrow> delivered_in tr = ms"
    using assms by (auto simp: delivers_def)
  obtain tr2 where 2: "emits (p1\<lparr>p_mbuffer := b\<rparr>) tr2 (inbox_start (p1\<lparr>p_mbuffer := b\<rparr>))" "delivered_in tr2 = []" "\<not> exceeded_in tr2"
    using inbox_start_emits [of "p1\<lparr>p_mbuffer := b\<rparr>"] by blast
  have "emits p (tr @ tr2) (inbox_start (p1\<lparr>p_mbuffer := b\<rparr>))" using emits_trans [of p tr "p1\<lparr>p_mbuffer := b\<rparr>"] 1(1) 2(1) by simp
  then show ?thesis unfolding delivers_def by (intro exI [of _ "tr @ tr2"]) (use 1 2 in auto)
qed

lemma no_pills_append [simp]: "no_pills (xs @ ys) \<longleftrightarrow> no_pills xs \<and> no_pills ys"
  by (simp add: no_pills_def)

lemma no_pills_drop [simp]: "no_pills xs \<Longrightarrow> no_pills (drop n xs)"
  by (metis append_take_drop_id no_pills_append)

lemma delivers_rest_no_pills: "delivers ms p (Panic v, p1) \<Longrightarrow> no_pills ms \<Longrightarrow> no_pills (p_mbuffer p1)"
  by (auto simp: delivers_def)

lemma hooks_delivers:
  assumes "start_hooks (p\<lparr>p_user := u, p_receive := rc\<rparr>) = (r1, p1)"
  shows "p_mbuffer p1 = p_mbuffer p" "delivers (p_mbuffer p) p1 res \<Longrightarrow> delivers (p_mbuffer p) p res"
proof -
  obtain tr where tr: "plain (p\<lparr>p_user := u, p_receive := rc\<rparr>) r1 tr p1" "delivered_in tr = []"
    using plain_start_hooks [OF assms] by blast
  show "p_mbuffer p1 = p_mbuffer p" using tr(1) by (simp add: plain_def keeps_def)
  show "delivers (p_mbuffer p) p1 res \<Longrightarrow> delivers (p_mbuffer p) p res"
    using delivers_plain [OF tr] by simp
qed

lemma Start_delivers:
  fixes p :: "('u, 'm, 'a) process"
  assumes I: "\<And>msgs (p :: ('u, 'm, 'a) process). no_pills msgs \<Longrightarrow> delivers msgs p (proc_Invoke \<epsilon> f msgs p)"
    and T: "\<And>v (p :: ('u, 'm, 'a) process). no_pills (p_mbuffer p) \<Longrightarrow> delivers (p_mbuffer p) p (proc_tryRestart \<epsilon> f v p)"
    and np: "no_pills (p_mbuffer p)"
  shows "delivers (p_mbuffer p) p (proc_Start \<epsilon> (Suc f) p)"
proof -
  obtain r p' where e: "proc_Start \<epsilon> (Suc f) p = (r, p')" by fastforce
  note hook = hooks_delivers [where p = p]
  from e have "delivers (p_mbuffer p) p (r, p')"
  proof (cases rule: proc_Start_cases)
    case (producer u v)
    then show ?thesis by (simp add: delivers_def)
  next
    case (hooks u v p1)
    then show ?thesis using hook [OF hooks(1)] T [of p1 v] np by simp
  next
    case (empty u p1)
    then have d: "delivers (p_mbuffer p) p1 (Ret, p1)" using hook(1) [OF empty(1)] by (simp add: delivers_def)
    have "p1\<lparr>p_mbuffer := []\<rparr> = p1" using empty(2) by (cases p1) simp
    then show ?thesis
      using inbox_start_delivers [OF hook(2) [OF empty(1) d], of "[]"] empty(3,4) by (simp only:)
  next
    case (invoked u p1 p2)
    then have "delivers (p_mbuffer p) p (Ret, p2)" using I [of "p_mbuffer p1" p1] np hook [OF invoked(1)] by simp
    then show ?thesis using inbox_start_delivers invoked by simp
  next
    case (crashed u p1 v p2)
    then have d: "delivers (p_mbuffer p) p (Panic v, p2)" using I [of "p_mbuffer p1" p1] np hook [OF crashed(1)] by simp
    then show ?thesis using delivers_panicked [OF d] T [OF delivers_rest_no_pills [OF d np], of v] crashed(3) by simp
  next
    case (fuel u p1)
    then show ?thesis using I [of "p_mbuffer p1" p1] np hook [OF fuel(1)] by simp
  qed
  then show ?thesis by (simp only: e)
qed

lemma Invoke_delivers:
  fixes p :: "('u, 'm, 'a) process"
  assumes T: "\<And>v (p :: ('u, 'm, 'a) process). no_pills (p_mbuffer p) \<Longrightarrow> delivers (p_mbuffer p) p (proc_tryRestart \<epsilon> f v p)"
    and np: "no_pills msgs"
  shows "delivers msgs p (proc_Invoke \<epsilon> (Suc f) msgs p)"
proof -
  obtain r p' where e: "proc_Invoke \<epsilon> (Suc f) msgs p = (r, p')" by fastforce
  from e have "delivers msgs p (r, p')"
  proof (cases rule: proc_Invoke_cases)
    case (finished n)
    then show ?thesis
      by - (erule invoke_loop_no_pills [OF _ np], auto simp: delivers_def plain_def intro!: exI)
  next
    case (crashed v n p1)
    obtain tr where tr: "plain p (Panic v) tr p1" "delivered_in tr = take n msgs"
      by (rule invoke_loop_no_pills [OF crashed(1) np]) auto
    have "delivers (drop n msgs) p1 (r, p')"
      using T [of "p1\<lparr>p_mbuffer := drop n msgs, p_mcount := of_nat (length msgs - n)\<rparr>" v] crashed(2) np by simp
    then show ?thesis using delivers_after [of p tr p1 "drop n msgs"] tr by (simp add: plain_def)
  qed
  then show ?thesis by (simp only: e)
qed

lemma tryRestart_delivers:
  fixes p :: "('u, 'm, 'a) process"
  assumes S: "\<And>p :: ('u, 'm, 'a) process. no_pills (p_mbuffer p) \<Longrightarrow> delivers (p_mbuffer p) p (proc_Start \<epsilon> f p)"
    and np: "no_pills (p_mbuffer p)"
  shows "delivers (p_mbuffer p) p (proc_tryRestart \<epsilon> (Suc f) v p)"
proof -
  obtain r p' where e: "proc_tryRestart \<epsilon> (Suc f) v p = (r, p')" by fastforce
  from e have "delivers (p_mbuffer p) p (r, p')"
  proof (cases rule: proc_tryRestart_cases)
    case (internal src err)
    let ?p = "emit [ELogError src err, ESleep (RestartDelay (p_opts p))] p"
    have "p_mbuffer ?p = p_mbuffer p" by (simp add: emit_def)
    then have "delivers (p_mbuffer p) ?p (r, p')" using S [of ?p] np internal(2) by simp
    then show ?thesis
      using delivers_after [OF emit_emits(1), of "[ELogError src err, ESleep (RestartDelay (p_opts p))]"] by simp
  next
    case exceeded
    let ?p = "broadcast_now ActorMaxRestartsExceededEvent p"
    obtain tr where "plain ?p r tr p'" "delivered_in tr = []" using plain_cleanup [OF exceeded(2)] by blast
    then have "emits p ([EBroadcast (ActorMaxRestartsExceededEvent (Some (p_pid p)) (p_clock p))] @ tr) p'"
      "p_mbuffer p' = p_mbuffer p" "delivered_in tr = []"
      using emits_trans [OF exceeded_event_emits(1)] exceeded_event_emits(2) [of p] by (auto simp: plain_def keeps_def)
    then show ?thesis
      unfolding delivers_def by (intro exI [of _ "[EBroadcast (ActorMaxRestartsExceededEvent (Some (p_pid p)) (p_clock p))] @ tr"]) auto
  next
    case (stopped w)
    then obtain tr where "plain p r tr p'" "delivered_in tr = []" using plain_hook by blast
    then show ?thesis unfolding delivers_def by (intro exI [of _ tr]) (simp add: plain_def keeps_def stopped(2))
  next
    case (restart stack p1)
    obtain tr where pl: "plain p Ret tr p1" "delivered_in tr = []" using plain_hook [OF restart(2)] by blast
    let ?q = "count_restart stack v p1"
    have q: "\<exists>tr. emits p1 tr ?q \<and> delivered_in tr = [] \<and> \<not> exceeded_in tr" "p_mbuffer ?q = p_mbuffer p1"
      by (auto simp: count_restart_def Let_def emit_def broadcast_now_def emits_def)
    have "delivers (p_mbuffer p) ?q (r, p')" using S [of ?q] restart(3) q pl np by (simp add: plain_def keeps_def)
    then have "delivers (p_mbuffer p) p1 (r, p')" using delivers_after q(1) by (metis append_Nil)
    then show ?thesis using delivers_plain [OF pl] by simp
  qed (simp add: delivers_def)
  then show ?thesis by (simp only: e)
qed

lemma supervision_delivers:
  "\<forall>p :: ('u, 'm, 'a) process. no_pills (p_mbuffer p) \<longrightarrow> delivers (p_mbuffer p) p (proc_Start \<epsilon> f p)"
  "\<forall>msgs (p :: ('u, 'm, 'a) process). no_pills msgs \<longrightarrow> delivers msgs p (proc_Invoke \<epsilon> f msgs p)"
  "\<forall>v (p :: ('u, 'm, 'a) process). no_pills (p_mbuffer p) \<longrightarrow> delivers (p_mbuffer p) p (proc_tryRestart \<epsilon> f v p)"
proof (induction f)
  case 0
  { case 1 then show ?case by (simp add: delivers_def) next case 2 then show ?case by (simp add: delivers_def)
    next case 3 then show ?case by (simp add: delivers_def) }
qed (simp_all del: proc_Start.simps(2) proc_Invoke.simps(2) proc_tryRestart.simps(2)
    add: Start_delivers Invoke_delivers tryRestart_delivers)

subsection \<open>Enough fuel\<close>

text \<open>
  When neither the receiver nor the producer panics with an \<open>InternalError\<close>, every restart
  uses one of the restarts left, and three calls per restart are enough.
\<close>

definition calm :: "('u, 'm, 'a) process \<Rightarrow> bool" where
  "calm p \<longleftrightarrow> (\<forall>src err. \<not> may_panic p (InternalError src err)
     \<and> (\<forall>c u. snd (snd (composed p c u)) \<noteq> Some (InternalError src err))
     \<and> (\<forall>u. snd (Producer (p_opts p) u) \<noteq> Some (InternalError src err)))"

definition settles :: "'m outcome \<times> ('u, 'm, 'a) process \<Rightarrow> bool" where
  "settles res \<longleftrightarrow> fst res \<noteq> OutOfFuel \<and> (\<forall>src err. fst res \<noteq> Panic (InternalError src err)) \<and> calm (snd res)"

lemma calm_upd [simp]:
  "calm (p\<lparr>p_user := u\<rparr>) = calm p" "calm (p\<lparr>p_mcount := n\<rparr>) = calm p" "calm (p\<lparr>p_mbuffer := b\<rparr>) = calm p"
  "calm (p\<lparr>p_message := m\<rparr>) = calm p"
  by (simp_all add: calm_def may_panic_def)

lemma calm_keeps: "emits p tr p' \<Longrightarrow> keeps p p' \<Longrightarrow> calm p' = calm p"
  by (simp add: calm_def emits_def keeps_def may_panic_def)

lemma plain_settles: "plain p r tr p' \<Longrightarrow> calm p \<Longrightarrow> settles (r, p') \<and> left p' = left p"
  using calm_keeps [of p tr p'] keeps_left [of p tr p'] by (auto simp: settles_def plain_def calm_def)

lemma hooks_settles:
  assumes "start_hooks (p\<lparr>p_user := u, p_receive := composed p\<rparr>) = (r, p1)" "calm p"
  shows "settles (r, p1)" "left p1 = left p"
proof -
  have "calm (p\<lparr>p_user := u, p_receive := composed p\<rparr>)" using assms(2) by (simp add: calm_def may_panic_def)
  then show "settles (r, p1)" "left p1 = left p"
    using plain_start_hooks [OF assms(1)] plain_settles by (metis, metis left_upd(2,5))
qed

lemma inbox_start_calm [simp]: "calm (inbox_start p) = calm p"
  using inbox_start_emits [of p] calm_keeps by blast

lemma left_decreases:
  "proc_Invoke \<epsilon> f msgs p = (r, p') \<Longrightarrow> left p' \<le> left p"
  using supervision_accounted(2) [of \<epsilon> f] by (metis accounted_def le_add2 snd_conv)

lemma Start_settles:
  fixes p :: "('u, 'm, 'a) process"
  assumes I: "\<And>msgs (p :: ('u, 'm, 'a) process). calm p \<Longrightarrow> 3 * left p + 2 \<le> f \<Longrightarrow> settles (proc_Invoke \<epsilon> f msgs p)"
    and T: "\<And>v (p :: ('u, 'm, 'a) process). settles (Panic v, p) \<Longrightarrow> 3 * left p + 1 \<le> f \<Longrightarrow> settles (proc_tryRestart \<epsilon> f v p)"
    and p: "calm p" "3 * left p + 3 \<le> Suc f"
  shows "settles (proc_Start \<epsilon> (Suc f) p)"
proof -
  obtain r p' where e: "proc_Start \<epsilon> (Suc f) p = (r, p')" by fastforce
  have inv: "settles (proc_Invoke \<epsilon> f (p_mbuffer p1) p1)" if "start_hooks (p\<lparr>p_user := u, p_receive := composed p\<rparr>) = (Ret, p1)" for u p1
    using I [of p1] hooks_settles [OF that p(1)] p(2) by (simp add: settles_def)
  from e have "settles (r, p')"
  proof (cases rule: proc_Start_cases)
    case (producer u v)
    then show ?thesis using p(1) by (auto simp: settles_def calm_def may_panic_def) (metis snd_conv)
  next
    case (hooks u v p1)
    then show ?thesis using T [of v p1] hooks_settles [OF hooks(1) p(1)] p(2) by simp
  next
    case (empty u p1)
    then show ?thesis using hooks_settles [OF empty(1) p(1)] by (simp add: settles_def)
  next
    case (invoked u p1 p2)
    then show ?thesis using inv [OF invoked(1)] by (simp add: settles_def)
  next
    case (crashed u p1 v p2)
    have "left p2 \<le> left p" using left_decreases [OF crashed(2)] hooks_settles [OF crashed(1) p(1)] by simp
    then show ?thesis using T [of v p2] inv [OF crashed(1)] crashed p(2) by simp
  next
    case (fuel u p1)
    then show ?thesis using inv [OF fuel(1)] by (simp add: settles_def)
  qed
  then show ?thesis by (simp only: e)
qed

lemma Invoke_settles:
  fixes p :: "('u, 'm, 'a) process"
  assumes T: "\<And>v (p :: ('u, 'm, 'a) process). settles (Panic v, p) \<Longrightarrow> 3 * left p + 1 \<le> f \<Longrightarrow> settles (proc_tryRestart \<epsilon> f v p)"
    and p: "calm p" "3 * left p + 2 \<le> Suc f"
  shows "settles (proc_Invoke \<epsilon> (Suc f) msgs p)"
proof -
  obtain r p' where e: "proc_Invoke \<epsilon> (Suc f) msgs p = (r, p')" by fastforce
  have l: "settles (r1, p1) \<and> left p1 = left p"
    if "invoke_loop \<epsilon> msgs 0 0 0 (p\<lparr>p_mcount := n\<rparr>) = (r1, np, p1)" for r1 np p1 n
    using invoke_loop_plain [OF that] plain_settles [of p r1 _ p1] p(1) by (metis plain_upd(3))
  from e have "settles (r, p')"
  proof (cases rule: proc_Invoke_cases)
    case (finished np)
    then show ?thesis using l by blast
  next
    case (crashed v np p1)
    then show ?thesis
      using T [of v "p1\<lparr>p_mbuffer := drop np msgs, p_mcount := of_nat (length msgs - np)\<rparr>"] l [OF crashed(1)] p(2)
      by (simp add: settles_def)
  qed
  then show ?thesis by (simp only: e)
qed

lemma tryRestart_settles:
  fixes p :: "('u, 'm, 'a) process"
  assumes S: "\<And>p :: ('u, 'm, 'a) process. calm p \<Longrightarrow> 3 * left p + 3 \<le> f \<Longrightarrow> settles (proc_Start \<epsilon> f p)"
    and p: "settles (Panic v, p)" "3 * left p + 1 \<le> Suc f"
  shows "settles (proc_tryRestart \<epsilon> (Suc f) v p)"
proof -
  obtain r p' where e: "proc_tryRestart \<epsilon> (Suc f) v p = (r, p')" by fastforce
  have c: "calm p" "\<And>src err. v \<noteq> InternalError src err" using p(1) by (auto simp: settles_def)
  from e have "settles (r, p')"
  proof (cases rule: proc_tryRestart_cases)
    case exceeded
    have "calm (broadcast_now ActorMaxRestartsExceededEvent p)" using c(1) by (simp add: calm_keeps [OF exceeded_event_emits])
    then show ?thesis using plain_cleanup [OF exceeded(2)] plain_settles by metis
  next
    case (stopped w)
    then show ?thesis using plain_hook plain_settles c(1) by metis
  next
    case (restart stack p1)
    obtain tr where pl: "plain p Ret tr p1" using plain_hook [OF restart(2)] by blast
    have "p_restarts p1 \<noteq> MaxRestarts (p_opts p1)" using restart(1) pl by (simp add: plain_def keeps_def emits_def)
    then have "Suc (left (count_restart stack v p1)) = left p"
      using count_restart_accounted(2) plain_settles [OF pl c(1)] by metis
    moreover have "calm (count_restart stack v p1)"
      using plain_settles [OF pl c(1)] by (simp add: settles_def calm_def may_panic_def count_restart_def Let_def emit_def broadcast_now_def)
    ultimately show ?thesis using S [of "count_restart stack v p1"] restart(3) p(2) by simp
  qed (use c in \<open>auto simp: settles_def\<close>)
  then show ?thesis by (simp only: e)
qed

lemma supervision_settles:
  "\<forall>p :: ('u, 'm, 'a) process. calm p \<longrightarrow> 3 * left p + 3 \<le> f \<longrightarrow> settles (proc_Start \<epsilon> f p)"
  "\<forall>msgs (p :: ('u, 'm, 'a) process). calm p \<longrightarrow> 3 * left p + 2 \<le> f \<longrightarrow> settles (proc_Invoke \<epsilon> f msgs p)"
  "\<forall>v (p :: ('u, 'm, 'a) process). settles (Panic v, p) \<longrightarrow> 3 * left p + 1 \<le> f \<longrightarrow> settles (proc_tryRestart \<epsilon> f v p)"
  by (induction f) (simp_all del: proc_Start.simps(2) proc_Invoke.simps(2) proc_tryRestart.simps(2)
    add: Start_settles Invoke_settles tryRestart_settles)

subsection \<open>A receiver for the examples\<close>

text \<open>It panics on the user messages in \<open>bad\<close> and handles the rest; the process is started.\<close>

definition crash_on :: "nat list \<Rightarrow> (unit, nat, unit) receive_func" where
  "crash_on bad c u = (u, [], (case cv_message c of User n \<Rightarrow> if n \<in> set bad then Some (PanicAny n) else None | _ \<Rightarrow> None))"

definition demo_opts :: "nat list \<Rightarrow> (unit, nat, unit) opts" where
  "demo_opts bad = WithID ''1'' (DefaultOpts (\<lambda>u. (u, None)) (crash_on bad))\<lparr>Kind := ''demo''\<rparr>"

definition demo :: "nat list \<Rightarrow> (unit, nat, unit) process" where
  "demo bad = (newProcess ''local'' () (demo_opts bad))\<lparr>p_inbox := IRunning, p_receive := crash_on bad\<rparr>"

definition demo_env :: env where
  "demo_env = \<lparr>children_order = (\<lambda>m. filter (\<lambda>k. m k \<noteq> None) [''c/1'']), child_detaches = (\<lambda>_. True), debug_Stack = (\<lambda>_. []), stack_Parse = (\<lambda>_. None)\<rparr>"

definition user :: "nat \<Rightarrow> nat envelope" where
  "user n = \<lparr>Msg = User n, Sender = None\<rparr>"

lemmas demo_defs = demo_def demo_opts_def demo_env_def user_def WithID_def DefaultOpts_def crash_on_def [abs_def] newProcess_def

lemmas proc_run = proc_Start.simps(2) [where f = "pred_numeral k" for k, folded numeral_eq_Suc]
  proc_Invoke.simps(2) [where f = "pred_numeral k" for k, folded numeral_eq_Suc]
  proc_tryRestart.simps(2) [where f = "pred_numeral k" for k, folded numeral_eq_Suc]

lemmas proc_eval = invoke_loop.simps invokeMsg_def call_receive_def emit_def start_hooks_def broadcast_now_def
  count_restart_def inbox_start_def unprocessed_def cleanTrace_def cleanup_def cancel_effect_def

lemma demo_calm: "calm (demo bad)" "left (demo bad) = 3"
  by (auto simp: calm_def may_panic_def demo_defs left_def defaultMaxRestarts_def split: msg.splits)

subsection \<open>Properties\<close>

text \<open>
  C3. Delivery under supervision, for a batch without poison pills. The messages \<open>Invoke\<close> hands to the
  receiver, through every crash and restart, are a prefix of the batch in its order, each one
  once: a message that made the receiver panic is skipped, none is repeated. All of them are
  handed over if \<open>Invoke\<close> returns and the process has not given up. At most as many restarts are
  announced as the process had left. And if neither receiver nor producer raises \<open>InternalError\<close>,
  \<open>Invoke\<close> ends: three nested calls per restart left and two more suffice. Both conditions matter:
  \<open>graceful_drain_crash\<close> shows messages delivered twice when the receiver panics while a graceful
  pill drains the batch, and \<open>internal_error_unbounded\<close> restarts without end on \<open>InternalError\<close>.
\<close>

theorem invoke_delivers_once:
  assumes "no_pills msgs" "proc_Invoke \<epsilon> f msgs p = (r, p')"
  shows "(\<exists>tr. p_trace p' = p_trace p @ tr \<and> prefix (delivered_in tr) msgs
     \<and> restarts_in tr \<le> left p \<and> (r = Ret \<and> \<not> exceeded_in tr \<longrightarrow> delivered_in tr = msgs))
   \<and> (calm p \<and> 3 * left p + 2 \<le> f \<longrightarrow> r \<noteq> OutOfFuel)"
proof -
  have d: "delivers msgs p (r, p')" "accounted p (r, p')" and s: "calm p \<and> 3 * left p + 2 \<le> f \<longrightarrow> settles (r, p')"
    using supervision_delivers(2) [of \<epsilon> f] supervision_accounted(2) [of \<epsilon> f] supervision_settles(2) [of f \<epsilon>] assms by metis+
  from d obtain tr tr' where tr: "emits p tr p'" "prefix (delivered_in tr) msgs" "r = Ret \<and> \<not> exceeded_in tr \<longrightarrow> delivered_in tr = msgs"
    "emits p tr' p'" "restarts_in tr' + left p' = left p"
    by (auto simp: delivers_def accounted_def)
  then have "tr' = tr" by (simp add: emits_def)
  then show ?thesis using tr s by (auto simp: emits_def settles_def)
qed

theorem invoke_delivers_once_witness:
  "\<exists>r p'. proc_Invoke demo_env 11 [user 1, user 2, user 3] (demo [2]) = (r, p') \<and> r \<noteq> OutOfFuel
     \<and> (\<exists>tr. p_trace p' = tr \<and> prefix (delivered_in tr) [user 1, user 2, user 3] \<and> restarts_in tr \<le> 3)"
proof -
  obtain r p' where e: "proc_Invoke demo_env 11 [user 1, user 2, user 3] (demo [2]) = (r, p')" by fastforce
  have "no_pills [user 1, user 2, user 3]" by (simp add: no_pills_def user_def)
  from invoke_delivers_once [OF this e] demo_calm [of "[2]"] show ?thesis
    using e by (auto simp: demo_def newProcess_def)
qed

text \<open>
  C14. The restart budget over the life of a process: a new process is started, and then handed any
  batches, with whatever receiver, producer and fuel. The restarts announced by an
  \<open>ActorRestartedEvent\<close> and those still left add up to \<open>MaxRestarts\<close> (as an unsigned 32-bit number), so
  at most \<open>MaxRestarts\<close> are announced. Nothing else restarts a process but an \<open>InternalError\<close>, which
  the code does not count: the receiver is initialized at most once for the first start, once
  per announced restart and once per \<open>InternalError\<close> logged, and that last number has no bound.
\<close>

theorem restart_budget:
  "let p' = proc_life \<epsilon> f bs (newProcess address u op); tr = p_trace p' in
     restarts_in tr + left p' = unat (MaxRestarts op) \<and> starts_in tr \<le> 1 + restarts_in tr + internals_in tr"
proof -
  let ?p = "newProcess address u op"
  have "accounted ?p (Ret, proc_life \<epsilon> f bs ?p)" by (rule life_accounted)
  then have "restarts_in (p_trace (proc_life \<epsilon> f bs ?p)) + left (proc_life \<epsilon> f bs ?p) = left ?p"
    by (auto simp: accounted_def emits_def newProcess_def)
  moreover have "slack ?p - 1 \<le> slack (proc_life \<epsilon> f bs ?p)" by (rule life_paced)
  ultimately show ?thesis by (simp add: slack_def left_def newProcess_def Let_def)
qed

text \<open>Restarts after an \<open>InternalError\<close> are not bounded: a receiver that raises one when it is initialized is started once per call.\<close>

definition dialing :: "(unit, nat, unit) process" where
  "dialing = newProcess ''local'' () (DefaultOpts (\<lambda>u. (u, None)) (\<lambda>_ u. (u, [], Some (InternalError ''dial'' ''refused''))))"

lemma dialing_rounds:
  assumes "p_opts p = p_opts dialing"
  shows "restarts_in (p_trace (snd (proc_Start \<epsilon> (2 * n) p))) = restarts_in (p_trace p)
    \<and> starts_in (p_trace (snd (proc_Start \<epsilon> (2 * n) p))) = starts_in (p_trace p) + n"
  using assms
proof (induction n arbitrary: p)
  case (Suc n)
  have 2: "2 * Suc n = Suc (Suc (2 * n))" by simp
  show ?case unfolding 2
    using Suc.prems by (simp add: dialing_def newProcess_def DefaultOpts_def start_hooks_def call_receive_def applyMiddleware_def emit_def Suc.IH)
qed simp

theorem internal_error_unbounded:
  "restarts_in (p_trace (snd (proc_Start \<epsilon> (2 * n) dialing))) = 0 \<and> starts_in (p_trace (snd (proc_Start \<epsilon> (2 * n) dialing))) = n"
  using dialing_rounds [of dialing \<epsilon> n] by (simp add: dialing_def newProcess_def)

text \<open>
  C13. The order of a shutdown. \<open>cleanup\<close> takes the process off its parent, poisons every
  child once and waits for it, and only then stops its own inbox and leaves the registry;
  \<open>Stopped\<close> is delivered after that, and the cancel function is called at the very end, also
  when the receiver panics on \<open>Stopped\<close> (then no \<open>ActorStoppedEvent\<close> is sent). What is left in the
  children map are the awaited children that did not delete themselves and those that the
  receiver spawned while it handled \<open>Stopped\<close>.
\<close>

theorem cleanup_order:
  assumes "cleanup \<epsilon> cancel p = (r, p')"
    "range_order (sm_data (p_children p)) (children_order \<epsilon> (sm_data (p_children p)))"
  shows "\<exists>cs acts. p_trace p' = p_trace p @
      (case p_parent p of None \<Rightarrow> [] | Some _ \<Rightarrow> [EParentDelete (ID (p_pid p))]) @ map EPoisonWait cs @
      [EInboxStop, ERegRemove (p_pid p), ELifecycle Stopped (p_sender p)] @ map EAct acts @
      (if r = Ret then [EBroadcast (ActorStoppedEvent (Some (p_pid p)) (p_clock p))] else []) @ cancel_effect cancel
    \<and> set cs = ran (sm_data (p_children p)) \<and> length cs = sm_Len (p_children p) \<and> p_inbox p' = IStopped
    \<and> p_children p' = add_children acts (detach \<epsilon> cs (p_children p))"
proof -
  let ?m = "sm_data (p_children p)"
  let ?cs = "sm_Values (children_order \<epsilon> ?m) (p_children p)"
  have v: "set ?cs = ran ?m" "length ?cs = sm_Len (p_children p)"
    using set_range_values [OF assms(2)] length_range_values [OF assms(2)] by (simp_all add: sm_Values_eq [OF assms(2)] sm_Len_def)
  then have i: "(if sm_Len (p_children p) > 0 then map EPoisonWait ?cs else []) = map EPoisonWait ?cs"
    "(if sm_Len (p_children p) > 0 then detach \<epsilon> ?cs (p_children p) else p_children p) = detach \<epsilon> ?cs (p_children p)"
    by (cases ?cs; auto simp: detach_def)+
  show ?thesis
  proof (rule cleanup_effects [OF assms(1)], goal_cases)
    case (1 acts)
    then show ?case using v unfolding i by (intro exI [of _ ?cs] exI [of _ acts]) (simp add: plain_def emits_def)
  qed
qed

definition demo_parent :: "(unit, nat, unit) process" where
  "demo_parent = (demo [])\<lparr>p_children := sm_Set ''c/1'' (NewPID ''local'' ''c/1'') sm_New\<rparr>"

theorem cleanup_order_witness:
  "\<exists>r p' acts. cleanup demo_env (Some 7) demo_parent = (r, p') \<and> p_trace p' = [EPoisonWait (NewPID ''local'' ''c/1''),
      EInboxStop, ERegRemove (p_pid demo_parent), ELifecycle Stopped None] @ map EAct acts @
      (if r = Ret then [EBroadcast (ActorStoppedEvent (Some (p_pid demo_parent)) 0)] else []) @ [ECancel 7]
    \<and> p_inbox p' = IStopped \<and> p_children p' = add_children acts sm_New"
proof -
  obtain r p' where e: "cleanup demo_env (Some 7) demo_parent = (r, p')" by fastforce
  have d: "sm_data (p_children demo_parent) = [''c/1'' \<mapsto> NewPID ''local'' ''c/1'']" by (simp add: demo_parent_def sm_Set_def sm_New_def)
  have f: "p_parent demo_parent = None" "p_sender demo_parent = None" "p_clock demo_parent = 0" "p_trace demo_parent = []"
    by (simp_all add: demo_parent_def demo_def newProcess_def)
  have o: "range_order (sm_data (p_children demo_parent)) (children_order demo_env (sm_data (p_children demo_parent)))"
    by (simp add: range_order_def d demo_env_def)
  obtain cs acts where c: "p_trace p' = map EPoisonWait cs @
      [EInboxStop, ERegRemove (p_pid demo_parent), ELifecycle Stopped None] @ map EAct acts @
      (if r = Ret then [EBroadcast (ActorStoppedEvent (Some (p_pid demo_parent)) 0)] else []) @ [ECancel 7]"
    "set cs = {NewPID ''local'' ''c/1''}" "length cs = 1" "p_inbox p' = IStopped" "p_children p' = add_children acts (detach demo_env cs (p_children demo_parent))"
    using cleanup_order [OF e o] unfolding f d by (auto simp: d cancel_effect_def sm_Len_def)
  then have cs: "cs = [NewPID ''local'' ''c/1'']" by (cases cs) auto
  have "detach demo_env cs (p_children demo_parent) = sm_New" by (simp add: cs detach_def demo_env_def demo_parent_def sm_Set_def sm_New_def sm_Delete_def)
  then show ?thesis using e c cs by auto
qed

text \<open>
  A poison pill, when the receiver does not panic: the messages before the pill are
  delivered; a graceful pill also lets the rest of the batch through (later pills apart); then
  the process is cleaned up once, with the pill's cancel function, and \<open>Invoke\<close> returns.
\<close>

theorem poison_pill_stops:
  assumes "no_pills pre" "Msg pill = PoisonPill c g" "\<forall>v. \<not> may_panic p v"
    "proc_Invoke \<epsilon> (Suc f) (pre @ pill # post) p = (r, p')"
  shows "\<exists>q tr. r = Ret \<and> p_trace q = p_trace p @ tr \<and> cleanup \<epsilon> c q = (Ret, p') \<and>
     delivered_in tr = pre @ (if g then filter (\<lambda>m. \<not> is_pill (Msg m)) post else [])"
proof -
  let ?ms = "pre @ pill # post"
  let ?p = "p\<lparr>p_mcount := of_nat (length ?ms)\<rparr>"
  obtain q tr where q: "plain ?p Ret tr q" "delivered_in tr = pre"
    "invoke_loop \<epsilon> ?ms 0 0 0 ?p = invoke_loop \<epsilon> ?ms (length pre) (length pre) (length pre) q"
    using invoke_loop_prefix [OF assms(1), of ?p \<epsilon> "pill # post"] assms(3) by (auto simp: may_panic_def)
  let ?q = "q\<lparr>p_mcount := p_mcount q - 1\<rparr>"
  have np: "\<not> may_panic q v" "\<not> may_panic ?q v" for v
    using q(1) assms(3) by (auto simp: plain_def keeps_def may_panic_def)
  obtain q1 t1 where d: "(if g then invokeMsgs (pill # post) ?q else (Ret, ?q)) = (Ret, q1)" "plain ?q Ret t1 q1"
    "delivered_in t1 = (if g then filter (\<lambda>m. \<not> is_pill (Msg m)) post else [])"
    using pill_drain_quiet [of ?q g "pill # post"] np(2) assms(2) by auto
  obtain r2 p2 where c: "cleanup \<epsilon> c q1 = (r2, p2)" by fastforce
  have "\<not> may_panic q1 v" for v using d(2) np(2) by (metis keeps_may_panic plain_def)
  then have r2: "r2 = Ret" using plain_cleanup [OF c] by (metis outcome.exhaust plain_def)
  have "invoke_loop \<epsilon> ?ms 0 0 0 ?p = (Ret, Suc (length pre), p2)"
    unfolding q(3) by (subst invoke_loop_pill) (use assms(2) d(1) c r2 in \<open>auto simp: nth_append\<close>)
  then have "r = Ret" "p' = p2" using assms(4) by simp_all
  moreover have "p_trace q1 = p_trace p @ tr @ t1" using q(1) d(2) by (simp add: plain_def emits_def)
  ultimately show ?thesis using c r2 q(2) d(3) by (intro exI [of _ q1] exI [of _ "tr @ t1"]) auto
qed

theorem poison_pill_stops_witness:
  "\<exists>r p' q tr. proc_Invoke demo_env 1 [user 1, \<lparr>Msg = PoisonPill (Some 7) True, Sender = None\<rparr>, user 2] (demo []) = (r, p')
     \<and> r = Ret \<and> p_trace q = tr \<and> cleanup demo_env (Some 7) q = (Ret, p') \<and> delivered_in tr = [user 1, user 2]"
proof -
  let ?pill = "\<lparr>Msg = PoisonPill (Some 7) True, Sender = None\<rparr> :: nat envelope"
  obtain r p' where e: "proc_Invoke demo_env (Suc 0) ([user 1] @ ?pill # [user 2]) (demo []) = (r, p')" by fastforce
  have n: "no_pills [user 1]" "\<forall>v. \<not> may_panic (demo []) v"
    by (auto simp: no_pills_def user_def may_panic_def demo_defs split: msg.splits)
  from poison_pill_stops [OF n(1) _ n(2) e, of "Some 7" True] show ?thesis
    using e by (auto simp: demo_def newProcess_def user_def)
qed

text \<open>
  A crash while a graceful pill drains the batch loses the pill: the buffer restarts after
  the pill, so the messages behind it are delivered a second time, the pill's context is never
  cancelled and the process goes on. Here message 2 crashes once during the drain and once
  after it.
\<close>

theorem graceful_drain_crash:
  "\<exists>p'. proc_Invoke demo_env 20 [user 1, \<lparr>Msg = PoisonPill (Some 7) True, Sender = None\<rparr>, user 3, user 2] (demo [2]) = (Ret, p')
     \<and> delivered_in (p_trace p') = [user 1, user 3, user 2, user 3, user 2] \<and> ECancel 7 \<notin> set (p_trace p')
     \<and> p_inbox p' = IRunning"
  by (simp add: demo_defs proc_run proc_eval defaultMaxRestarts_def)

text \<open>
  Giving up inside a restart. When the last crash happens while buffered messages are
  replayed, \<open>cleanup\<close> stops the inbox and leaves the registry, but the \<open>Start\<close> calls that are
  still on the stack then run \<open>inbox.Start\<close>: the inbox of the removed process runs again.
\<close>

theorem max_restarts_inbox_restarted:
  "\<exists>p'. proc_Invoke demo_env 20 [user 1, user 2, user 3, user 4, user 5] (demo [1, 2, 3, 4, 5]) = (Ret, p')
     \<and> ERegRemove (p_pid (demo [])) \<in> set (p_trace p') \<and> exceeded_in (p_trace p')
     \<and> last (p_trace p') = EInboxStart \<and> p_inbox p' = IIdle"
  by (simp add: demo_defs proc_run proc_eval defaultMaxRestarts_def Let_def sm_Len_def sm_New_def)

end
