(* ===== verification/Delivery.thy ===== *)
theory Delivery
  imports Engine Process
begin

section \<open>From a send to the receiver\<close>

text \<open>
  The parts of the actor package put together. The engine hands a message to the process it
  resolves, whose \<open>Send\<close> puts it into the inbox; the inbox, on goroutines of its own, calls
  \<open>Invoke\<close> with batches; the process hands the messages to the receiver and restarts it when it
  panics. \<open>mailbox\<close> of theory \<open>Engine\<close> is the sequence of these sends, \<open>sent_in\<close> of theory
  \<open>Inbox\<close> the same sequence as the inbox sees it, \<open>batches_in\<close> the arguments of the calls of
  \<open>Invoke\<close> and \<open>run_batches\<close> these calls.
\<close>

definition send_all :: "(pid option \<times> 'm msg \<times> pid option) list \<Rightarrow> 'm engine \<Rightarrow> 'm engine" where
  "send_all ops e = fold (\<lambda>(q, m, src) e. snd (SendWithSender q m src e)) ops e"

text \<open>The specification: the messages whose target is the local process \<open>g\<close>.\<close>

definition addressed_to :: "nat \<Rightarrow> 'm engine \<Rightarrow> (pid option \<times> 'm msg \<times> pid option) list \<Rightarrow> 'm envelope list" where
  "addressed_to g e ops = map (\<lambda>(q, m, src). \<lparr>Msg = m, Sender = src\<rparr>)
     (filter (\<lambda>(q, m, src). (\<exists>p. q = Some p \<and> Address p = e_address e) \<and> reg_get q (e_Registry e) = Some g) ops)"

fun run_batches :: "env \<Rightarrow> nat \<Rightarrow> 'm envelope list list \<Rightarrow> ('u, 'm, 'a) process \<Rightarrow> 'm outcome \<times> ('u, 'm, 'a) process" where
  "run_batches \<epsilon> f [] p = (Ret, p)"
| "run_batches \<epsilon> f (b # bs) p = (case proc_Invoke \<epsilon> f b p of (Ret, p') \<Rightarrow> run_batches \<epsilon> f bs p' | r \<Rightarrow> r)"

definition batch_of :: "'v ib_label \<Rightarrow> 'v list list" where
  "batch_of l = (case l of IDeliver b \<Rightarrow> [b] | _ \<Rightarrow> [])"

definition batches_in :: "'v ib_label list \<Rightarrow> 'v list list" where
  "batches_in ls = concat (map batch_of ls)"

lemma send_one_mailbox:
  assumes "stream_ok es h e" "g \<noteq> h" "e_heap e g = ProcObj x mb"
  shows "e_heap (snd (SendWithSender q m src e)) g = ProcObj x (mb @ addressed_to g e [(q, m, src)])"
proof -
  let ?r = "route es h q m src e"
  have "SendWithSender q m src e = arrive ?r e" by (rule SendWithSender_arrives [OF assms(1)])
  then show ?thesis using assms(2,3)
    by (auto simp: route_def arrive_def addressed_to_def proc_send_def split: option.splits processer.splits)
qed

lemma addressed_to_shape: "same_shape e e' \<Longrightarrow> addressed_to g e' ops = addressed_to g e ops"
  by (simp add: addressed_to_def same_shape_def)

lemma addressed_to_Cons: "addressed_to g e (x # ops) = addressed_to g e [x] @ addressed_to g e ops"
  by (simp add: addressed_to_def)

lemma send_all_mailbox:
  "stream_ok es h e \<Longrightarrow> g \<noteq> h \<Longrightarrow> e_heap e g = ProcObj x mb \<Longrightarrow> e_heap (send_all ops e) g = ProcObj x (mb @ addressed_to g e ops)"
proof (induction ops arbitrary: e mb)
  case Nil
  then show ?case by (simp add: send_all_def addressed_to_def)
next
  case (Cons op ops)
  obtain q m src where op: "op = (q, m, src)" by (cases op)
  let ?e = "snd (SendWithSender q m src e)"
  have sh: "same_shape e ?e" using sends_shape(1) by (simp add: SendWithSender_def)
  have "e_heap (send_all ops ?e) g = ProcObj x ((mb @ addressed_to g e [op]) @ addressed_to g ?e ops)"
    using Cons.IH [OF same_shape_stream [OF sh Cons.prems(1)] Cons.prems(2)] send_one_mailbox [OF Cons.prems] op by simp
  then show ?case using op addressed_to_shape [OF sh] addressed_to_Cons [of g e op ops] by (simp add: send_all_def)
qed

lemma delivered_batches: "run ib_step s0 ls s \<Longrightarrow> delivered s = delivered s0 @ concat (batches_in ls)"
proof (induction rule: run.induct)
  case (run_snoc s0 ls s l s')
  have "delivered s' = delivered s @ concat (batch_of l)"
    using run_snoc(2) by (cases rule: ib_step.cases) (simp_all add: batch_of_def ib_schedule_def)
  then show ?case using run_snoc by (simp add: batches_in_def)
qed (simp add: batches_in_def)

lemma run_batches_delivers:
  assumes "no_pills (concat bs)" "calm p" "3 * left p + 2 \<le> f" "run_batches \<epsilon> f bs p = (r, p')"
  shows "r \<noteq> OutOfFuel \<and> (\<exists>tr. p_trace p' = p_trace p @ tr \<and> restarts_in tr \<le> left p
     \<and> (r = Ret \<and> \<not> exceeded_in tr \<longrightarrow> delivered_in tr = concat bs))"
  using assms
proof (induction bs arbitrary: p)
  case (Cons b bs)
  obtain r1 p1 where i: "proc_Invoke \<epsilon> f b p = (r1, p1)" by fastforce
  have nb: "no_pills b" "no_pills (concat bs)" using Cons.prems(1) by simp_all
  have "delivers b p (r1, p1)" "accounted p (r1, p1)" "settles (r1, p1)"
    using supervision_delivers(2) [of \<epsilon> f] supervision_accounted(2) [of \<epsilon> f] supervision_settles(2) [of f \<epsilon>] i nb(1) Cons.prems(2,3)
    by metis+
  then obtain tr tr' where t: "emits p tr p1" "r1 = Ret \<and> \<not> exceeded_in tr \<longrightarrow> delivered_in tr = b"
    "emits p tr' p1" "restarts_in tr' + left p1 = left p" "r1 \<noteq> OutOfFuel" "calm p1"
    by (auto simp: delivers_def accounted_def settles_def)
  then have "tr' = tr" by (simp add: emits_def)
  note t = t [unfolded this]
  show ?case
  proof (cases "r1 = Ret")
    case True
    have "run_batches \<epsilon> f bs p1 = (r, p')" "3 * left p1 + 2 \<le> f" using Cons.prems(3,4) i True t(4) by simp_all
    from Cons.IH [OF nb(2) t(6) this(2,1)] obtain tr2 where t2: "r \<noteq> OutOfFuel" "p_trace p' = p_trace p1 @ tr2" "restarts_in tr2 \<le> left p1"
      "r = Ret \<and> \<not> exceeded_in tr2 \<longrightarrow> delivered_in tr2 = concat bs" by blast
    then show ?thesis using t True by (intro conjI exI [of _ "tr @ tr2"]) (auto simp: emits_def)
  next
    case False
    then have "r = r1" "p' = p1" using Cons.prems(4) i by (cases r1; simp)+
    then show ?thesis using t False by (intro conjI exI [of _ tr]) (auto simp: emits_def)
  qed
qed simp

text \<open>
  C1. End to end. Send any messages to any targets through the engine, and let the inbox of a
  process, started and not stopped, run until it is at rest, in any interleaving of its
  goroutines. The calls of \<open>Invoke\<close> it makes all end, and through every crash of the receiver
  that does not exhaust its restarts, the receiver is handed exactly the messages whose target
  resolves to the process: all of them, each once, in the order they were sent, with their
  senders.
\<close>

theorem end_to_end_delivery:
  assumes "stream_ok es h e" "g \<noteq> h" "e_heap e g = ProcObj x []"
    "run ib_step (NewInbox n t) ls s" "sent_in ls = mailbox (e_heap (send_all ops e) g)" "IStop \<notin> set ls" "ib_status s \<noteq> IStopped"
    "\<forall>x \<in> set (senders s). x = SIdle" "\<forall>x \<in> set (starters s). x = TIdle" "gors s = []"
    "no_pills (addressed_to g e ops)" "calm p" "3 * left p + 2 \<le> f" "run_batches \<epsilon> f (batches_in ls) p = (r, p')"
  shows "r \<noteq> OutOfFuel \<and> (\<exists>tr. p_trace p' = p_trace p @ tr \<and> restarts_in tr \<le> left p
     \<and> (r = Ret \<and> \<not> exceeded_in tr \<longrightarrow> delivered_in tr = addressed_to g e ops))"
proof -
  have "sent_in ls = addressed_to g e ops" using send_all_mailbox [OF assms(1-3), of ops] assms(5) by simp
  moreover have "delivered s = sent_in ls" using inbox_at_rest [OF assms(4,6-10)] by blast
  moreover have "delivered s = concat (batches_in ls)" using delivered_batches [OF assms(4)] by (simp add: NewInbox_def)
  ultimately have "concat (batches_in ls) = addressed_to g e ops" by simp
  then show ?thesis using run_batches_delivers [of "batches_in ls" p f \<epsilon> r p'] assms(11-14) by simp
qed

theorem end_to_end_delivery_witness:
  "\<exists>ls r p'. run_batches demo_env 11 (batches_in ls) (demo []) = (r, p') \<and> r \<noteq> OutOfFuel
     \<and> (r = Ret \<and> \<not> exceeded_in (p_trace p') \<longrightarrow> delivered_in (p_trace p') = [user 1])"
proof -
  let ?q = "NewPID ''local'' ''a/1''"
  obtain e0 :: "nat engine" where e0: "eng_inv e0" "stream_ok (stream_pid ''local'' 5) 0 e0" "e_address e0 = ''local''"
    "e_Registry e0 = \<lparr>reg_lookup = [ID (stream_pid ''local'' 5) \<mapsto> 0], responses = Map.empty\<rparr>" using example_engine by blast
  let ?g = "e_size e0"
  have fr: "reg_lookup (e_Registry e0) (ID (obj_pid (ProcObj ?q [] :: nat processer))) = None" by (simp add: e0(4) stream_pid_id)
  obtain q r0 e where e: "SpawnProc (ProcObj ?q []) e0 = (q, r0, e)" by (metis prod_cases3)
  have g: "?g \<noteq> 0" using e0(1,4) by (auto simp: eng_inv_def)
  have h: "e_heap e ?g = ProcObj ?q []" "stream_ok (stream_pid ''local'' 5) 0 e" "e_address e = ''local''" "reg_get (Some ?q) (e_Registry e) = Some ?g"
    using SpawnProc_free [OF e0(1) fr] e e0(2,3) g by (auto simp: stream_ok_def reg_get_def e0(4) stream_pid_id)
  let ?ops = "[(Some ?q, User 1, None)]"
  have a: "addressed_to ?g e ?ops = [user 1]" using h(3,4) by (simp add: addressed_to_def user_def)
  obtain ls s where r: "run ib_step (NewInbox 1 1) ls s" "IStop \<notin> set ls" "sent_in ls = [user 1]"
    "ib_status s = IIdle" "senders s = [SIdle]" "starters s = [TIdle]" "gors s = []"
    using inbox_example_run [of "user 1"] by blast
  have m: "sent_in ls = mailbox (e_heap (send_all ?ops e) ?g)" using send_all_mailbox [OF h(2) g h(1), of ?ops] a r(3) by simp
  obtain o1 p' where b: "run_batches demo_env 11 (batches_in ls) (demo []) = (o1, p')" by fastforce
  have n: "no_pills (addressed_to ?g e ?ops)" unfolding a by (simp add: no_pills_def user_def)
  have k: "3 * left (demo []) + 2 \<le> 11" by (simp add: demo_calm)
  have "p_trace (demo []) = []" by (simp add: demo_def newProcess_def)
  then show ?thesis
    using end_to_end_delivery [OF h(2) g h(1) r(1) m r(2) _ _ _ r(7) n demo_calm(1) k b] r(4-6) a b by auto
qed

end
