(* ===== verification/CrossNode.thy ===== *)
theory CrossNode
  imports Remote Serialize Delivery
begin

section \<open>From a node to another\<close>

text \<open>
  The remote package put together with the engines of two nodes. On the sending node the engine
  calls \<open>Send\<close> of its remote, which sends a \<open>streamDeliver\<close> to the stream router; the router hands
  it to the stream writer of the target's node; the writer's inbox calls \<open>Invoke\<close> with batches,
  each packed into an envelope that is marshalled. The receiving node unmarshals the envelope
  and its stream reader sends the messages to their targets with \<open>SendLocal\<close>.
\<close>

subsection \<open>The sending engine\<close>

text \<open>The calls of \<open>Remote.Send\<close> that the engine made, carried out.\<close>

definition remote_call :: "'t remote \<Rightarrow> pid \<times> 'm netmsg msg \<times> pid option \<Rightarrow> 'm netmsg engine \<Rightarrow> 'm netmsg engine" where
  "remote_call r = (\<lambda>(q, m, src) e. case m of User (Payload x) \<Rightarrow> snd (remote_Send q x src r e) | _ \<Rightarrow> e)"

definition remote_calls :: "'t remote \<Rightarrow> 'm netmsg engine \<Rightarrow> 'm netmsg engine" where
  "remote_calls r e = (case e_remote e of
     None \<Rightarrow> e
   | Some rm \<Rightarrow> fold (remote_call r) (rem_sent rm) (e\<lparr>e_remote := Some (rm\<lparr>rem_sent := []\<rparr>)\<rparr>))"

definition send_over :: "'t remote \<Rightarrow> pid \<times> 'm \<times> pid option \<Rightarrow> 'm netmsg engine \<Rightarrow> 'm netmsg engine" where
  "send_over r = (\<lambda>(t, m, src) e. remote_calls r (snd (SendWithSender (Some t) (User (Payload m)) src e)))"

definition deliver_msg :: "pid \<times> 'm \<times> pid option \<Rightarrow> 'm netmsg msg" where
  "deliver_msg = (\<lambda>(t, m, src). User (StreamDeliver src t m))"

text \<open>The router of the remote is a process of the engine with the mailbox \<open>mb\<close>, and nothing waits to be carried out.\<close>

definition routed :: "'t remote \<Rightarrow> pid \<Rightarrow> nat \<Rightarrow> 'm netmsg envelope list \<Rightarrow> 'm netmsg engine \<Rightarrow> bool" where
  "routed r rp k mb e \<longleftrightarrow> rm_router r = Some rp \<and> Address rp = e_address e \<and> reg_lookup (e_Registry e) (ID rp) = Some k
     \<and> e_heap e k = ProcObj rp mb \<and> (\<exists>rm. e_remote e = Some rm \<and> rem_sent rm = [])"

definition same_nodes :: "nat \<Rightarrow> 'm engine \<Rightarrow> 'm engine \<Rightarrow> bool" where
  "same_nodes k e e' \<longleftrightarrow> e_Registry e' = e_Registry e \<and> e_size e' = e_size e \<and> e_address e' = e_address e
     \<and> e_eventStream e' = e_eventStream e \<and> (\<forall>g. g \<noteq> k \<longrightarrow> e_heap e' g = e_heap e g)"

lemma send_over_routed:
  assumes "stream_ok es h e" "k \<noteq> h" "routed r rp k mb e" "Address t \<noteq> e_address e"
  shows "routed r rp k (mb @ [\<lparr>Msg = deliver_msg (t, m, src), Sender = None\<rparr>]) (send_over r (t, m, src) e) \<and> same_nodes k e (send_over r (t, m, src) e)"
proof -
  obtain rm where rm: "e_remote e = Some rm" "rem_sent rm = []" using assms(3) by (auto simp: routed_def)
  have 1: "snd (SendWithSender (Some t) (User (Payload m)) src e) = e\<lparr>e_remote := Some (rm\<lparr>rem_sent := [(t, User (Payload m), src)]\<rparr>)\<rparr>"
    using SendWithSender_arrives [OF assms(1), of "Some t" "User (Payload m)" src] assms(4) rm by (simp add: route_def arrive_def)
  let ?e = "e\<lparr>e_remote := Some (rm\<lparr>rem_sent := []\<rparr>)\<rparr>"
  have "stream_ok es h ?e" using assms(1) by (simp add: stream_ok_def)
  from SendWithSender_arrives [OF this, of "Some rp" "deliver_msg (t, m, src)" None]
  have "snd (eng_Send (Some rp) (deliver_msg (t, m, src)) ?e) = ?e\<lparr>e_heap := (e_heap e)(k := ProcObj rp (mb @ [\<lparr>Msg = deliver_msg (t, m, src), Sender = None\<rparr>]))\<rparr>"
    using assms(3) by (simp add: routed_def route_def arrive_def reg_get_def proc_send_def eng_Send_def SendWithSender_def)
  then have "send_over r (t, m, src) e = ?e\<lparr>e_heap := (e_heap e)(k := ProcObj rp (mb @ [\<lparr>Msg = deliver_msg (t, m, src), Sender = None\<rparr>]))\<rparr>"
    using assms(3) by (simp add: send_over_def remote_calls_def 1 remote_call_def remote_Send_def routed_def deliver_msg_def)
  then show ?thesis using assms(3) by (auto simp: routed_def same_nodes_def)
qed

lemma same_nodes_trans: "same_nodes k e e1 \<Longrightarrow> same_nodes k e1 e2 \<Longrightarrow> same_nodes k e e2"
  by (simp add: same_nodes_def)

lemma same_nodes_stream: "same_nodes k e e' \<Longrightarrow> k \<noteq> h \<Longrightarrow> stream_ok es h e \<Longrightarrow> stream_ok es h e'"
  by (simp add: same_nodes_def stream_ok_def)

lemma sends_over_routed:
  "stream_ok es h e \<Longrightarrow> k \<noteq> h \<Longrightarrow> routed r rp k mb e \<Longrightarrow> \<forall>(t, m, src) \<in> set ops. Address t \<noteq> e_address e \<Longrightarrow>
   routed r rp k (mb @ map (\<lambda>op. \<lparr>Msg = deliver_msg op, Sender = None\<rparr>) ops) (fold (send_over r) ops e)
   \<and> same_nodes k e (fold (send_over r) ops e)"
proof (induction ops arbitrary: e mb)
  case Nil
  then show ?case by (simp add: same_nodes_def)
next
  case (Cons op ops)
  obtain t m src where op: "op = (t, m, src)" by (cases op)
  let ?e = "send_over r op e"
  have 1: "routed r rp k (mb @ [\<lparr>Msg = deliver_msg op, Sender = None\<rparr>]) ?e" "same_nodes k e ?e"
    using send_over_routed [OF Cons.prems(1-3), of t m src] Cons.prems(4) op by auto
  have "\<forall>(t, m, src) \<in> set ops. Address t \<noteq> e_address ?e" using Cons.prems(4) 1(2) by (auto simp: same_nodes_def)
  from Cons.IH [OF same_nodes_stream [OF 1(2) Cons.prems(2,1)] Cons.prems(2) 1(1) this] show ?case
    using same_nodes_trans [OF 1(2)] by simp
qed

subsection \<open>Router and writer\<close>

definition router_run :: "network \<Rightarrow> pid \<Rightarrow> 'm netmsg envelope list \<Rightarrow> router \<times> 'm netmsg engine \<Rightarrow> router \<times> 'm netmsg engine" where
  "router_run nw self xs s = fold (\<lambda>x (st, e). router_Receive nw self (Msg x) st e) xs s"

text \<open>The stream writer \<open>g\<close> of the node \<open>addr\<close> is open and was handed the messages of \<open>ops\<close>.\<close>

definition opened :: "string \<Rightarrow> pid \<Rightarrow> nat \<Rightarrow> (pid \<times> 'm \<times> pid option) list \<Rightarrow> router \<Rightarrow> 'm netmsg engine \<Rightarrow> bool" where
  "opened addr wp g ops st e \<longleftrightarrow> streams st addr = Some wp \<and> reg_get (Some wp) (e_Registry e) = Some g \<and> Address wp = e_address e
     \<and> e_heap e g = CustomObj wp (map (\<lambda>op. (Some wp, deliver_msg op, None)) ops)"

lemma router_run_opened:
  "stream_ok es h e \<Longrightarrow> opened addr wp g ops0 st e \<Longrightarrow> \<forall>(t, m, src) \<in> set ops. Address t = addr \<Longrightarrow>
   router_run nw self (map (\<lambda>op. \<lparr>Msg = deliver_msg op, Sender = None\<rparr>) ops) (st, e) = (st', e') \<Longrightarrow>
   opened addr wp g (ops0 @ ops) st' e'"
proof (induction ops arbitrary: e ops0)
  case Nil
  then show ?case by (simp add: router_run_def)
next
  case (Cons op ops)
  obtain t m src where op: "op = (t, m, src)" by (cases op)
  let ?e = "snd (proc_send g (Some wp) (deliver_msg op) None e)"
  have "router_Receive nw self (deliver_msg op) st e = (st, ?e)"
    using router_sends [OF Cons.prems(1), of st t wp g nw self src m] Cons.prems(2,3) op by (simp add: opened_def deliver_msg_def)
  then have r: "router_run nw self (map (\<lambda>op. \<lparr>Msg = deliver_msg op, Sender = None\<rparr>) ops) (st, ?e) = (st', e')"
    using Cons.prems(4) by (simp add: router_run_def)
  have sh: "same_shape e ?e" by (rule proc_send_shape)
  have "e_heap ?e g = CustomObj wp (map (\<lambda>op. (Some wp, deliver_msg op, None)) (ops0 @ [op]))"
    using Cons.prems(2) by (simp add: opened_def proc_send_def)
  then have "opened addr wp g (ops0 @ [op]) st ?e" using Cons.prems(2) sh by (simp add: opened_def same_shape_def)
  from Cons.IH [OF same_shape_stream [OF sh Cons.prems(1)] this _ r] Cons.prems(3) show ?case by simp
qed

lemma router_run_writer:
  assumes "eng_inv e" "stream_ok es h e" "streams st addr = None" "wp = NewPID (e_address e) (''stream/'' @ addr)"
    "reg_lookup (e_Registry e) (ID wp) = None" "dial_ok nw 0" "deadline_ok nw" "receive_ok nw"
    "ops \<noteq> []" "\<forall>(t, m, src) \<in> set ops. Address t = addr"
    "router_run nw self (map (\<lambda>op. \<lparr>Msg = deliver_msg op, Sender = None\<rparr>) ops) (st, e) = (st', e')"
  shows "opened addr wp (e_size e) ops st' e'"
proof -
  obtain t m src ops1 where op: "ops = (t, m, src) # ops1" using assms(9) by (metis prod_cases3 list.exhaust)
  then have a: "Address t = addr" using assms(10) by simp
  obtain st1 e1 where 1: "router_Receive nw self (User (StreamDeliver src t m)) st e = (st1, e1)" by fastforce
  have "streams st (Address t) = None" "wp = NewPID (e_address e) (''stream/'' @ Address t)" using a assms(3,4) by simp_all
  note o = router_opens [OF assms(1,2) this assms(5-8) 1]
  have "opened addr wp (e_size e) [(t, m, src)] st1 e1" using o a by (simp add: opened_def deliver_msg_def)
  moreover have "router_run nw self (map (\<lambda>op. \<lparr>Msg = deliver_msg op, Sender = None\<rparr>) ops1) (st1, e1) = (st', e')"
    using assms(11) 1 by (simp add: router_run_def op deliver_msg_def)
  ultimately show ?thesis using router_run_opened [OF o(2)] assms(10) op by fastforce
qed

subsection \<open>Over the wire\<close>

text \<open>What the stream writer sees of a call of its \<open>Send\<close>.\<close>

definition writer_input :: "'m netmsg msg \<Rightarrow> 'm winput" where
  "writer_input x = (case x of User (StreamDeliver s t m) \<Rightarrow> Deliver \<lparr>sd_sender = s, sd_target = Some t, sd_msg = m\<rparr> | _ \<Rightarrow> OtherInput)"

text \<open>The structs of a decoded envelope as the reader uses them.\<close>

definition from_wire :: "envelope_vt \<Rightarrow> byte list wire_envelope" where
  "from_wire e = \<lparr>Senders = map (\<lambda>p. pid.truncate (filled_pid p)) (ev_Senders e), Targets = map (\<lambda>p. pid.truncate (filled_pid p)) (ev_Targets e),
     TypeNames = ev_TypeNames e, WMessages = map (map_option message.truncate) (ev_Messages e)\<rparr>"

lemma from_to_wire: "from_wire (to_wire env) = env"
proof -
  have "map_option (message.truncate \<circ> vt_message) x = x" for x
    by (cases x) (simp_all add: message.truncate_def vt_message_def)
  moreover have "pid.truncate (vt_pid q) = q" for q by (simp add: pid.truncate_def vt_pid_def)
  ultimately show ?thesis by (cases env) (simp add: from_wire_def to_wire_def filled_pid_def option.map_comp comp_def)
qed

text \<open>One batch, from \<open>Invoke\<close> of the writer to the calls of \<open>SendLocal\<close> of the reader; \<open>None\<close> is a failure on the way.\<close>

definition relay :: "('m, byte list) serializer \<Rightarrow> (string \<Rightarrow> 64 word) \<Rightarrow> 'm netmsg msg list \<Rightarrow> ('m sent_local list \<times> read_end) option" where
  "relay sz xxh3 batch =
     (case writer_Invoke sz xxh3 True (map writer_input batch) of
        Inl _ \<Rightarrow> None
      | Inr env \<Rightarrow>
          (case envelope_MarshalVT (to_wire env) of
             Inl _ \<Rightarrow> None
           | Inr bytes \<Rightarrow>
               (case envelope_UnmarshalVT bytes zero_envelope of
                  Ok e \<Rightarrow> Some (reader_Receive sz (from_wire e))
                | _ \<Rightarrow> None)))"

definition deliver_of :: "pid \<times> 'm \<times> pid option \<Rightarrow> 'm deliver" where
  "deliver_of = (\<lambda>(t, m, src). \<lparr>sd_sender = src, sd_target = Some t, sd_msg = m\<rparr>)"

lemma writer_input_deliver: "writer_input (deliver_msg op) = Deliver (deliver_of op)"
  by (cases op) (simp add: writer_input_def deliver_msg_def deliver_of_def)

text \<open>
  A batch that can cross: its messages can be serialized and deserialized, the lookup keys of
  its PIDs do not collide, and its envelope is within the limits of a 32-bit index and a 64-bit
  size.
\<close>

definition crosses :: "('m, byte list) serializer \<Rightarrow> (string \<Rightarrow> 64 word) \<Rightarrow> (pid \<times> 'm \<times> pid option) list \<Rightarrow> bool" where
  "crosses sz xxh3 ops \<longleftrightarrow> length ops < 2 ^ 31 \<and> inj_on (LookupKey xxh3) (pids_of (map deliver_of ops))
     \<and> (\<forall>op \<in> set ops. sendable sz (deliver_of op))
     \<and> (\<forall>env. writer_Invoke sz xxh3 True (map (Deliver \<circ> deliver_of) ops) = Inr env \<longrightarrow> length (enc_envelope (to_wire env)) < 2 ^ 63)"

text \<open>
  What the reader sends for the messages of a batch: the same, except that a message without
  a sender gets the first sender of the batch, if any message of it has one.
\<close>

definition read_as :: "(pid \<times> 'm \<times> pid option) list \<Rightarrow> 'm sent_local list" where
  "read_as ops = map (\<lambda>(t, m, src). (t, m, case src of Some s \<Rightarrow> Some s | None \<Rightarrow>
     (case List.map_filter (\<lambda>(t, m, src). src) ops of [] \<Rightarrow> None | s # _ \<Rightarrow> Some s))) ops"

lemma relay_crosses:
  assumes "crosses sz xxh3 ops"
  shows "relay sz xxh3 (map deliver_msg ops) = Some (read_as ops, Continue)"
proof -
  let ?ds = "map deliver_of ops"
  have h: "length ?ds < 2 ^ 31" "inj_on (LookupKey xxh3) (pids_of ?ds)" "\<forall>d \<in> set ?ds. sendable sz d"
    using assms by (auto simp: crosses_def)
  from stream_delivers [OF h, of "[]"] obtain env where env: "writer_Invoke sz xxh3 True (map Deliver ?ds) = Inr env"
    "reader_Receive sz (transmit [] env) = (map (\<lambda>d. (the (sd_target d), sd_msg d, attributed ?ds d)) ?ds, Continue)" by blast
  have w: "map writer_input (map deliver_msg ops) = map Deliver ?ds" by (simp add: writer_input_deliver)
  have "length (enc_envelope (to_wire env)) < 2 ^ 63" using assms env(1) by (simp add: crosses_def comp_def)
  note wt = wire_transmits [OF this]
  have "List.map_filter sd_sender (map deliver_of xs) = List.map_filter (\<lambda>(t, m, src). src) xs" for xs :: "(pid \<times> 'a \<times> pid option) list"
    by (induction xs) (auto simp: List.map_filter_simps deliver_of_def split: option.split)
  then have "map (\<lambda>d. (the (sd_target d), sd_msg d, attributed ?ds d)) ?ds = read_as ops"
    by (auto simp: attributed_def read_as_def first_sender_def deliver_of_def split: option.split)
  then show ?thesis using env wt by (simp add: relay_def w from_to_wire del: map_map)
qed

subsection \<open>The receiving engine\<close>

definition receive_all :: "'m sent_local list \<Rightarrow> 'm netmsg engine \<Rightarrow> 'm netmsg engine" where
  "receive_all xs e = fold (\<lambda>(t, m, src) e. snd (SendLocal send_fuel (Some t) (User (Payload m)) src e)) xs e"

definition received_by :: "nat \<Rightarrow> 'm netmsg engine \<Rightarrow> 'm sent_local list \<Rightarrow> 'm netmsg envelope list" where
  "received_by g e xs = map (\<lambda>(t, m, src). \<lparr>Msg = User (Payload m), Sender = src\<rparr>)
     (filter (\<lambda>(t, m, src). reg_get (Some t) (e_Registry e) = Some g) xs)"

lemma SendLocal_arrives:
  assumes "stream_ok es h e"
  shows "SendLocal send_fuel q m src e = (case reg_get q (e_Registry e) of
     None \<Rightarrow> proc_send h (Some es) (DeadLetterEvent q m src) None e | Some g \<Rightarrow> proc_send g q m src e)"
  using broadcast_arrives [OF assms, of 2] by (simp add: send_fuel_def eval_nat_numeral split: option.split)

lemma receive_all_mailbox:
  "stream_ok es h e \<Longrightarrow> g \<noteq> h \<Longrightarrow> e_heap e g = ProcObj x mb \<Longrightarrow> e_heap (receive_all xs e) g = ProcObj x (mb @ received_by g e xs)"
proof (induction xs arbitrary: e mb)
  case Nil
  then show ?case by (simp add: receive_all_def received_by_def)
next
  case (Cons y xs)
  obtain t m src where y: "y = (t, m, src)" by (cases y)
  let ?e = "snd (SendLocal send_fuel (Some t) (User (Payload m)) src e)"
  have sh: "same_shape e ?e" by (rule sends_shape(2))
  have "e_heap ?e g = ProcObj x (mb @ received_by g e [y])"
    using SendLocal_arrives [OF Cons.prems(1), of "Some t" "User (Payload m)" src] Cons.prems(2,3)
    by (auto simp: y received_by_def proc_send_def split: option.splits processer.splits)
  from Cons.IH [OF same_shape_stream [OF sh Cons.prems(1)] Cons.prems(2) this]
  show ?case using sh by (auto simp: receive_all_def y received_by_def same_shape_def)
qed

text \<open>
  C2. From node to node, on a first contact. Send messages, with or without senders, through the
  engine of one node to PIDs of another node that can be dialled and for which there is no
  stream yet, and let the router handle what the remote sent it. The stream writer of that
  node is handed exactly these messages in order; and however its inbox splits them into
  batches, every batch crosses the wire as bytes, and a process of the other node gets into its
  inbox exactly the messages whose target resolves to it there: all of them, once, in the order
  they were sent. A message with a sender keeps it; a message without one arrives with the
  first sender of its batch, and without a sender only if no message of its batch has one.
  The batches are required to be ones that can cross (\<open>crosses\<close>): every message can be
  serialized and deserialized, no two PIDs of a batch share a lookup key, sizes are within the
  limits.
\<close>

theorem cross_node_delivery:
  assumes "eng_inv a" "stream_ok es h a" "k \<noteq> h" "routed r rp k [] a"
    "streams st addr = None" "wp = NewPID (e_address a) (''stream/'' @ addr)" "reg_lookup (e_Registry a) (ID wp) = None"
    "dial_ok nw 0" "deadline_ok nw" "receive_ok nw"
    "ops \<noteq> []" "\<forall>(t, m, src) \<in> set ops. Address t = addr" "addr \<noteq> e_address a"
    "a1 = fold (send_over r) ops a" "router_run nw rp (mailbox (e_heap a1 k)) (st, a1) = (st2, a2)"
    "stream_ok es' h' b" "g \<noteq> h'" "e_heap b g = ProcObj x []"
    "concat bs = ops" "\<forall>ops' \<in> set bs. crosses sz xxh3 ops'"
  shows "map (\<lambda>(q, y, s). y) (calls (e_heap a2 (e_size a))) = concat (map (map deliver_msg) bs)
    \<and> (\<forall>ops' \<in> set bs. relay sz xxh3 (map deliver_msg ops') = Some (read_as ops', Continue))
    \<and> e_heap (receive_all (concat (map (\<lambda>ops'. fst (the (relay sz xxh3 (map deliver_msg ops')))) bs)) b) g
        = ProcObj x (received_by g b (concat (map read_as bs)))"
proof -
  have n: "\<forall>(t, m, src) \<in> set ops. Address t \<noteq> e_address a" using assms(12,13) by auto
  note s = sends_over_routed [OF assms(2-4) n, folded assms(14)]
  have mb: "mailbox (e_heap a1 k) = map (\<lambda>op. \<lparr>Msg = deliver_msg op, Sender = None\<rparr>) ops" using s by (simp add: routed_def)
  have "obj_pid (e_heap a1 g') = obj_pid (e_heap a g')" for g'
    using s assms(4) by (cases "g' = k") (simp_all add: routed_def same_nodes_def)
  then have i: "eng_inv a1" using assms(1) s by (simp add: eng_inv_def same_nodes_def)
  have q: "wp = NewPID (e_address a1) (''stream/'' @ addr)" "reg_lookup (e_Registry a1) (ID wp) = None" "e_size a1 = e_size a" "stream_ok es h a1"
    using s assms(6,7) same_nodes_stream [OF _ assms(3,2)] by (simp_all add: same_nodes_def)
  have "opened addr wp (e_size a) ops st2 a2"
    using router_run_writer [OF i q(4) assms(5) q(1,2) assms(8-12), of rp st2 a2] assms(15) mb q(3) by simp
  then have c: "map (\<lambda>(q, y, s). y) (calls (e_heap a2 (e_size a))) = map deliver_msg ops" by (simp add: opened_def comp_def)
  have r: "\<forall>ops' \<in> set bs. relay sz xxh3 (map deliver_msg ops') = Some (read_as ops', Continue)" using relay_crosses assms(20) by blast
  then have m: "map (\<lambda>ops'. fst (the (relay sz xxh3 (map deliver_msg ops')))) bs = map read_as bs" by simp
  have "map deliver_msg ops = concat (map (map deliver_msg) bs)" using map_concat [of deliver_msg bs] assms(19) by simp
  then show ?thesis unfolding m using c r receive_all_mailbox [OF assms(16-18), of "concat (map read_as bs)"] by simp
qed

subsection \<open>A node with a remote\<close>

text \<open>
  \<open>NewEngine\<close> with a remote: when it succeeds, the router and the event stream are registered at
  the listen address, in this order.
\<close>

lemma NewEngine_networked:
  fixes e :: "'m netmsg engine"
  assumes "NewEngine (WithRemote \<lparr>rem_Address = addr, rem_sent = []\<rparr> NewEngineConfig) (remote_started ln rr (remote_New addr cfg)) random seq = Some e"
    "rp = NewPID addr (''router/'' @ Itoa (int rr))"
  shows "eng_inv e" "stream_ok (stream_pid addr random) 1 e" "e_heap e 0 = ProcObj rp []" "e_size e = 2" "e_address e = addr"
    "reg_lookup (e_Registry e) = [ID rp \<mapsto> 0, ID (stream_pid addr random) \<mapsto> 1]" "responses (e_Registry e) = Map.empty"
    "e_remote e = Some \<lparr>rem_Address = addr, rem_sent = []\<rparr>"
proof -
  let ?e0 = "\<lparr>e_Registry = newRegistry, e_heap = (\<lambda>_. ProcObj (NewPID [] []) []), e_size = 0, e_started = [], e_address = addr,
       e_remote = Some \<lparr>rem_Address = addr, rem_sent = []\<rparr>, e_eventStream = None, e_responseSeq = seq, e_contexts = 0, e_cancelled = {}\<rparr> :: 'm netmsg engine"
  let ?q = "stream_pid addr random"
  obtain e1 where e1: "remote_started ln rr (remote_New addr cfg) ?e0 = Some e1"
    and e: "(case SpawnProc (ProcObj (NewPID (e_address e1) (''eventstream'' @ pidSeparator @ Itoa (int random))) []) e1 of
       (q, _, e2) \<Rightarrow> Some (e2\<lparr>e_eventStream := Some q\<rparr>)) = Some e"
    using assms(1) by (auto simp: NewEngine_def WithRemote_def NewEngineConfig_def Let_def Spawn_plain split: option.splits)
  have "e1 = ?e0\<lparr>e_heap := (e_heap ?e0)(0 := ProcObj rp []), e_size := 1, e_Registry := newRegistry\<lparr>reg_lookup := [ID rp \<mapsto> 0]\<rparr>, e_started := [0]\<rparr>"
    using remote_started_spawns [OF e1] by (simp add: spawn_router_proc SpawnProc_def alloc_def reg_add_def newRegistry_def assms(2))
  then have "e = e1\<lparr>e_heap := (e_heap e1)(1 := ProcObj ?q []), e_size := 2, e_Registry := newRegistry\<lparr>reg_lookup := [ID rp \<mapsto> 0, ID ?q \<mapsto> 1]\<rparr>,
      e_started := [0, 1], e_eventStream := Some ?q\<rparr>" "e_heap e1 0 = ProcObj rp []" "e_address e1 = addr" "e_remote e1 = Some \<lparr>rem_Address = addr, rem_sent = []\<rparr>"
    using e by (auto simp: SpawnProc_def alloc_def reg_add_def newRegistry_def assms(2) stream_pid_def pidSeparator_def)
  then show "e_heap e 0 = ProcObj rp []" "e_size e = 2" "e_address e = addr" "stream_ok (stream_pid addr random) 1 e"
    "reg_lookup (e_Registry e) = [ID rp \<mapsto> 0, ID (stream_pid addr random) \<mapsto> 1]" "responses (e_Registry e) = Map.empty"
    "e_remote e = Some \<lparr>rem_Address = addr, rem_sent = []\<rparr>"
    by (simp_all add: newRegistry_def stream_ok_def stream_pid_def)
  show "eng_inv e" using remote_start.NewEngine_started [OF assms(1)] by blast
qed

definition bytes_serializer :: "(byte list, byte list) serializer" where
  "bytes_serializer = \<lparr>TypeName = (\<lambda>m. Some ''T''), Serialize = Some, Deserialize = (\<lambda>b t. if t = ''T'' then Some b else None)\<rparr>"

abbreviation example_hash :: "string \<Rightarrow> 64 word" where
  "example_hash \<equiv> (\<lambda>x. of_nat (length x))"

abbreviation example_op :: "pid \<times> byte list \<times> pid option" where
  "example_op \<equiv> (NewPID ''b'' ''x'', [7], Some (NewPID ''a'' ''12''))"

text \<open>A second message, without a sender.\<close>

abbreviation example_op2 :: "pid \<times> byte list \<times> pid option" where
  "example_op2 \<equiv> (NewPID ''b'' ''x'', [8], None)"

lemma example_crosses: "crosses bytes_serializer example_hash [example_op, example_op2]"
proof -
  let ?env = "\<lparr>Senders = [NewPID ''a'' ''12''], Targets = [NewPID ''b'' ''x''], TypeNames = [''T''],
    WMessages = [Some \<lparr>Data = [7], TypeNameIndex = 0, SenderIndex = 0, TargetIndex = 0\<rparr>,
      Some \<lparr>Data = [8], TypeNameIndex = 0, SenderIndex = 0, TargetIndex = 0\<rparr>]\<rparr>"
  have w: "writer_Invoke bytes_serializer example_hash True [Deliver (deliver_of example_op), Deliver (deliver_of example_op2)] = Inr ?env"
    by (simp add: stream_eval bytes_serializer_def deliver_of_def)
  have "enc_envelope (to_wire ?env) = [10, 1, 84, 18, 6, 10, 1, 98, 18, 1, 120, 26, 7, 10, 1, 97, 18, 2, 49, 50, 34, 3, 10, 1, 7, 34, 3, 10, 1, 8]" by code_simp
  then have l: "length (enc_envelope (to_wire ?env)) < 2 ^ 63" by simp
  have "inj_on (LookupKey example_hash) (pids_of [deliver_of example_op, deliver_of example_op2])"
    by (simp add: pids_of_def List.map_filter_simps deliver_of_def LookupKey_def)
  moreover have "sendable bytes_serializer (deliver_of example_op)" "sendable bytes_serializer (deliver_of example_op2)"
    by (simp_all add: sendable_def deliver_of_def bytes_serializer_def)
  ultimately show ?thesis using w l by (simp add: crosses_def)
qed

lemma example_networked:
  "\<exists>e :: 'm netmsg engine. NewEngine (WithRemote \<lparr>rem_Address = addr, rem_sent = []\<rparr> NewEngineConfig)
     (remote_started \<lparr>net_Listen = (\<lambda>_. True), tls_Listen = (\<lambda>_ (_ :: unit). True), drpc_Register = True\<rparr> rr (remote_New addr remote_NewConfig)) random seq = Some e"
  by (simp add: NewEngine_def WithRemote_def NewEngineConfig_def Let_def remote_started_def remote_Start_def remote_New_def remote_NewConfig_def
    split: prod.split)

theorem cross_node_delivery_witness:
  "\<exists>(b :: byte list netmsg engine) g xs. e_heap b g = ProcObj (NewPID ''b'' ''x'') []
     \<and> relay bytes_serializer example_hash [deliver_msg example_op, deliver_msg example_op2] = Some (xs, Continue)
     \<and> e_heap (receive_all xs b) g = ProcObj (NewPID ''b'' ''x'') [\<lparr>Msg = User (Payload [7]), Sender = Some (NewPID ''a'' ''12'')\<rparr>,
         \<lparr>Msg = User (Payload [8]), Sender = Some (NewPID ''a'' ''12'')\<rparr>]"
proof -
  let ?rp = "\<lambda>a. NewPID a (''router/'' @ Itoa (int 7))"
  obtain a :: "byte list netmsg engine" where a: "NewEngine (WithRemote \<lparr>rem_Address = ''a'', rem_sent = []\<rparr> NewEngineConfig)
     (remote_started \<lparr>net_Listen = (\<lambda>_. True), tls_Listen = (\<lambda>_ (_ :: unit). True), drpc_Register = True\<rparr> 7 (remote_New ''a'' remote_NewConfig)) 5 0 = Some a"
    using example_networked by blast
  obtain b0 :: "byte list netmsg engine" where b0: "NewEngine (WithRemote \<lparr>rem_Address = ''b'', rem_sent = []\<rparr> NewEngineConfig)
     (remote_started \<lparr>net_Listen = (\<lambda>_. True), tls_Listen = (\<lambda>_ (_ :: unit). True), drpc_Register = True\<rparr> 7 (remote_New ''b'' remote_NewConfig)) 5 0 = Some b0"
    using example_networked by blast
  note A = NewEngine_networked [OF a refl] and B = NewEngine_networked [OF b0 refl]
  let ?r = "(remote_New ''a'' remote_NewConfig :: unit remote)\<lparr>rm_router := Some (?rp ''a'')\<rparr>" and ?p = "ProcObj (NewPID ''b'' ''x'') [] :: byte list netmsg processer"
  have ra: "routed ?r (?rp ''a'') 0 [] a" using A by (simp add: routed_def stream_pid_id)
  have wa: "reg_lookup (e_Registry a) (ID (NewPID (e_address a) (''stream/'' @ ''b''))) = None" by (simp add: A(6) stream_pid_id)
  have fb: "reg_lookup (e_Registry b0) (ID (obj_pid ?p)) = None" by (simp add: B(6) stream_pid_id)
  define b where "b = snd (snd (SpawnProc ?p b0))"
  have b: "stream_ok (stream_pid ''b'' 5) 1 b" "e_heap b 2 = ?p" "reg_get (Some (NewPID ''b'' ''x'')) (e_Registry b) = Some 2"
    using B(2,4,6) unfolding b_def SpawnProc_free [OF B(1) fb] by (auto simp: stream_ok_def reg_get_def stream_pid_id)
  let ?nw = "\<lparr>dial_ok = (\<lambda>_. True), deadline_ok = True, receive_ok = True\<rparr>" and ?a1 = "fold (send_over ?r) [example_op, example_op2] a"
  obtain st2 a2 where run: "router_run ?nw (?rp ''a'') (mailbox (e_heap ?a1 0)) (newStreamRouter, ?a1) = (st2, a2)" by fastforce
  have "streams newStreamRouter ''b'' = None" by (simp add: newStreamRouter_def)
  from cross_node_delivery [OF A(1,2) _ ra this refl wa _ _ _ _ _ _ refl run b(1) _ b(2), of "[[example_op, example_op2]]" bytes_serializer example_hash]
  have r: "relay bytes_serializer example_hash [deliver_msg example_op, deliver_msg example_op2] = Some (read_as [example_op, example_op2], Continue)"
    and e: "e_heap (receive_all (read_as [example_op, example_op2]) b) 2 = ProcObj (NewPID ''b'' ''x'') (received_by 2 b (read_as [example_op, example_op2]))"
    using example_crosses A(5) by auto
  have "received_by 2 b (read_as [example_op, example_op2]) = [\<lparr>Msg = User (Payload [7]), Sender = Some (NewPID ''a'' ''12'')\<rparr>,
      \<lparr>Msg = User (Payload [8]), Sender = Some (NewPID ''a'' ''12'')\<rparr>]"
    using b(3) by (simp add: received_by_def read_as_def List.map_filter_simps)
  then show ?thesis using b(2) r e by (intro exI [of _ b] exI [of _ 2] exI [of _ "read_as [example_op, example_op2]"]) simp
qed

end
