(* ===== verification/MemberSet.thy ===== *)
theory MemberSet
  imports Pid SafeMap
begin

section \<open>Members of a cluster (cluster/member_set.go, util.go)\<close>

text \<open>
  A \<open>Member\<close> is a node: its id, the address of its engine, its region and the kinds of actors
  it can run. A \<open>MemberSet\<close> is a Go map from ids to members. A \<open>*Member\<close> that may be nil is
  a \<open>member option\<close>; the elements of member slices are never nil (neither the decoder nor the
  code puts one there). Methods that range over the map take the iteration order \<open>ks\<close>.
\<close>

record member =
  m_ID :: string
  m_Host :: string
  m_Region :: string
  m_Kinds :: "string list"

record cid =
  cid_PID :: "pid option"
  cid_ID :: string
  cid_Kind :: string
  cid_Region :: string

definition memberToProviderPID :: "member \<Rightarrow> pid" where
  "memberToProviderPID m = NewPID (m_Host m) (''provider/'' @ m_ID m)"

definition NewCID :: "pid option \<Rightarrow> string \<Rightarrow> string \<Rightarrow> string \<Rightarrow> cid" where
  "NewCID q kind i region = \<lparr>cid_PID = q, cid_ID = i, cid_Kind = kind, cid_Region = region\<rparr>"

definition cid_Equals :: "cid \<Rightarrow> cid \<Rightarrow> bool" where
  "cid_Equals c other \<longleftrightarrow> cid_ID c = cid_ID other \<and> cid_Kind c = cid_Kind other"

definition member_PID :: "member \<Rightarrow> pid" where
  "member_PID m = NewPID (m_Host m) (''cluster/'' @ m_ID m)"

definition member_Equals :: "member \<Rightarrow> member \<Rightarrow> bool" where
  "member_Equals m other \<longleftrightarrow> m_Host m = m_Host other \<and> m_ID m = m_ID other"

fun has_kind_loop :: "string \<Rightarrow> string list \<Rightarrow> bool" where
  "has_kind_loop kind [] = False"
| "has_kind_loop kind (k # ks) = (if k = kind then True else has_kind_loop kind ks)"

definition member_HasKind :: "member \<Rightarrow> string \<Rightarrow> bool" where
  "member_HasKind m kind = has_kind_loop kind (m_Kinds m)"

subsection \<open>The set\<close>

record member_set =
  ms_members :: "string \<rightharpoonup> member"

text \<open>\<open>for _, member := range members { m[member.ID] = member }\<close>\<close>

fun index_members :: "member list \<Rightarrow> (string \<rightharpoonup> member) \<Rightarrow> (string \<rightharpoonup> member)" where
  "index_members [] m = m"
| "index_members (x # xs) m = index_members xs (m(m_ID x \<mapsto> x))"

definition NewMemberSet :: "member list \<Rightarrow> member_set" where
  "NewMemberSet xs = \<lparr>ms_members = index_members xs Map.empty\<rparr>"

definition ms_Len :: "member_set \<Rightarrow> nat" where
  "ms_Len s = card (dom (ms_members s))"

text \<open>The members in the order they are visited.\<close>

definition ms_visit :: "string list \<Rightarrow> member_set \<Rightarrow> member list" where
  "ms_visit ks s = range_values (ms_members s) ks"

text \<open>There is no \<open>break\<close>: the last match of the range is returned.\<close>

definition ms_GetByHost :: "string list \<Rightarrow> string \<Rightarrow> member_set \<Rightarrow> member option" where
  "ms_GetByHost ks host s =
     fold (\<lambda>m theMember. if m_Host m = host then Some m else theMember) (ms_visit ks s) None"

definition ms_Add :: "member \<Rightarrow> member_set \<Rightarrow> member_set" where
  "ms_Add m s = s\<lparr>ms_members := (ms_members s)(m_ID m \<mapsto> m)\<rparr>"

definition ms_Contains :: "member \<Rightarrow> member_set \<Rightarrow> bool" where
  "ms_Contains m s \<longleftrightarrow> ms_members s (m_ID m) \<noteq> None"

definition ms_Remove :: "member \<Rightarrow> member_set \<Rightarrow> member_set" where
  "ms_Remove m s = s\<lparr>ms_members := (ms_members s)(m_ID m := None)\<rparr>"

definition ms_RemoveByHost :: "string list \<Rightarrow> string \<Rightarrow> member_set \<Rightarrow> member_set" where
  "ms_RemoveByHost ks host s =
     (case ms_GetByHost ks host s of None \<Rightarrow> s | Some m \<Rightarrow> ms_Remove m s)"

definition ms_Slice :: "string list \<Rightarrow> member_set \<Rightarrow> member list" where
  "ms_Slice ks s = ms_visit ks s"

text \<open>\<open>ForEach\<close>: the callback's effect on the caller's state, until it returns false.\<close>

fun each_while :: "('v \<Rightarrow> 'a \<Rightarrow> 'a \<times> bool) \<Rightarrow> 'v list \<Rightarrow> 'a \<Rightarrow> 'a" where
  "each_while f [] a = a"
| "each_while f (x # xs) a = (case f x a of (a', go) \<Rightarrow> if go then each_while f xs a' else a')"

definition ms_ForEach :: "string list \<Rightarrow> (member \<Rightarrow> 'a \<Rightarrow> 'a \<times> bool) \<Rightarrow> member_set \<Rightarrow> 'a \<Rightarrow> 'a" where
  "ms_ForEach ks f s a = each_while f (ms_visit ks s) a"

definition ms_Except :: "string list \<Rightarrow> member list \<Rightarrow> member_set \<Rightarrow> member list" where
  "ms_Except ks xs s = (let m = index_members xs Map.empty in filter (\<lambda>x. m (m_ID x) = None) (ms_visit ks s))"

definition ms_FilterByKind :: "string list \<Rightarrow> string \<Rightarrow> member_set \<Rightarrow> member list" where
  "ms_FilterByKind ks kind s = filter (\<lambda>m. member_HasKind m kind) (ms_visit ks s)"

subsection \<open>Properties\<close>

text \<open>Every member is stored under its own id; the map is finite.\<close>

definition ms_inv :: "member_set \<Rightarrow> bool" where
  "ms_inv s \<longleftrightarrow> finite (dom (ms_members s)) \<and> (\<forall>i m. ms_members s i = Some m \<longrightarrow> m_ID m = i)"

definition ms_ids :: "member_set \<Rightarrow> string set" where
  "ms_ids s = dom (ms_members s)"

lemma member_HasKind_iff [simp]: "member_HasKind m kind \<longleftrightarrow> kind \<in> set (m_Kinds m)"
proof -
  have "has_kind_loop kind ks \<longleftrightarrow> kind \<in> set ks" for ks by (induction ks) auto
  then show ?thesis by (simp add: member_HasKind_def)
qed

lemma each_while_all: "each_while (\<lambda>x a. (f x a, True)) xs a = fold f xs a"
  by (induction xs arbitrary: a) auto

lemma dom_index_members [simp]: "dom (index_members xs m) = dom m \<union> m_ID ` set xs"
  by (induction xs arbitrary: m) auto

lemma index_members_None_iff: "index_members xs m i = None \<longleftrightarrow> m i = None \<and> i \<notin> m_ID ` set xs"
  using dom_index_members [of xs m] by blast

lemma index_members_Some:
  "index_members xs m i = Some y \<Longrightarrow> (y \<in> set xs \<and> m_ID y = i) \<or> m i = Some y"
proof (induction xs arbitrary: m)
  case (Cons x xs)
  have "(y \<in> set xs \<and> m_ID y = i) \<or> (m(m_ID x \<mapsto> x)) i = Some y"
    by (rule Cons.IH) (use Cons.prems in \<open>simp only: index_members.simps\<close>)
  then show ?case by (auto split: if_splits)
qed simp

lemma NewMemberSet_inv [inv_intros]: "ms_inv (NewMemberSet xs)"
  using index_members_Some [of xs Map.empty] by (auto simp: ms_inv_def NewMemberSet_def)

lemma ms_Add_inv [inv_intros]: "ms_inv s \<Longrightarrow> ms_inv (ms_Add m s)"
  by (simp add: ms_inv_def ms_Add_def)

lemma ms_Remove_inv [inv_intros]: "ms_inv s \<Longrightarrow> ms_inv (ms_Remove m s)"
  by (auto simp: ms_inv_def ms_Remove_def)

lemma ms_ids_simps [simp]:
  "ms_ids (NewMemberSet xs) = m_ID ` set xs"
  "ms_ids (ms_Add m s) = insert (m_ID m) (ms_ids s)"
  "ms_ids (ms_Remove m s) = ms_ids s - {m_ID m}"
  by (auto simp: ms_ids_def NewMemberSet_def ms_Add_def ms_Remove_def)

lemma ms_Contains_iff [simp]: "ms_Contains m s \<longleftrightarrow> m_ID m \<in> ms_ids s"
  by (auto simp: ms_Contains_def ms_ids_def)

interpretation member_sets: keyed_set ms_inv ms_ids m_ID ms_Add
  by unfold_locales (simp_all add: ms_Add_inv)

lemma ms_visit_set: "range_order (ms_members s) ks \<Longrightarrow> set (ms_visit ks s) = ran (ms_members s)"
  by (simp add: ms_visit_def set_range_values)

lemma ms_visit_ids:
  assumes "ms_inv s" "range_order (ms_members s) ks"
  shows "map m_ID (ms_visit ks s) = ks"
  using assms range_orderD [OF assms(2)]
  by (auto simp: ms_visit_def range_values_eq_map ms_inv_def intro!: map_idI)

lemma ms_ran: "ms_inv s \<Longrightarrow> m \<in> ran (ms_members s) \<longleftrightarrow> ms_members s (m_ID m) = Some m"
  by (auto simp: ms_inv_def ran_def)

lemma ms_ids_image:
  assumes "ms_inv s"
  shows "m_ID ` {m. ms_members s (m_ID m) = Some m \<and> P (m_ID m)} = {i \<in> ms_ids s. P i}"
proof (intro equalityI subsetI)
  fix i assume "i \<in> {i \<in> ms_ids s. P i}"
  then obtain m where "ms_members s i = Some m" "P i" by (auto simp: ms_ids_def)
  moreover from this have "m_ID m = i" using assms by (simp add: ms_inv_def)
  ultimately show "i \<in> m_ID ` {m. ms_members s (m_ID m) = Some m \<and> P (m_ID m)}" by (intro image_eqI [of _ _ m]) auto
qed (auto simp: ms_ids_def)

lemma ms_Slice_distinct:
  "ms_inv s \<Longrightarrow> range_order (ms_members s) ks \<Longrightarrow> distinct (map m_ID (ms_Slice ks s)) \<and> m_ID ` set (ms_Slice ks s) = ms_ids s"
  using ms_visit_ids [of s ks] range_orderD [of "ms_members s" ks]
  by (simp add: ms_Slice_def ms_ids_def) (metis set_map)

text \<open>\<open>Except\<close>: the members whose id is not among the ids given, each once.\<close>

lemma ms_Except_set:
  assumes "ms_inv s" "range_order (ms_members s) ks"
  shows "set (ms_Except ks xs s) = {m. ms_members s (m_ID m) = Some m \<and> m_ID m \<notin> m_ID ` set xs}"
    and "distinct (map m_ID (ms_Except ks xs s))"
proof -
  show "set (ms_Except ks xs s) = {m. ms_members s (m_ID m) = Some m \<and> m_ID m \<notin> m_ID ` set xs}"
    using ms_visit_set [OF assms(2)] ms_ran [OF assms(1)]
    by (auto simp: ms_Except_def index_members_None_iff)
  have "distinct (map m_ID (ms_visit ks s))"
    using ms_visit_ids [OF assms] range_orderD(1) [OF assms(2)] by simp
  then show "distinct (map m_ID (ms_Except ks xs s))"
    by (auto simp: ms_Except_def Let_def distinct_map_filter)
qed

lemma ms_FilterByKind_set:
  assumes "ms_inv s" "range_order (ms_members s) ks"
  shows "set (ms_FilterByKind ks kind s) = {m. ms_members s (m_ID m) = Some m \<and> kind \<in> set (m_Kinds m)}"
  using ms_visit_set [OF assms(2)] ms_ran [OF assms(1)] by (auto simp: ms_FilterByKind_def)

lemma fold_last_match:
  "fold (\<lambda>m t. if P m then Some m else t) xs t = (case filter P xs of [] \<Rightarrow> t | _ \<Rightarrow> Some (last (filter P xs)))"
proof (induction xs arbitrary: t)
  case (Cons x xs)
  then show ?case by (cases "filter P xs") auto
qed simp

text \<open>\<open>GetByHost\<close> finds a member of the host if there is one, and nil otherwise.\<close>

lemma ms_GetByHost_cases:
  assumes "ms_inv s" "range_order (ms_members s) ks"
  shows "case ms_GetByHost ks host s of
      None \<Rightarrow> \<forall>m. ms_members s (m_ID m) = Some m \<longrightarrow> m_Host m \<noteq> host
    | Some m \<Rightarrow> ms_members s (m_ID m) = Some m \<and> m_Host m = host"
proof (cases "filter (\<lambda>m. m_Host m = host) (ms_visit ks s)")
  case Nil
  then have "ms_GetByHost ks host s = None" "\<forall>m \<in> set (ms_visit ks s). m_Host m \<noteq> host"
    by (auto simp: ms_GetByHost_def fold_last_match filter_empty_conv)
  then show ?thesis using ms_visit_set [OF assms(2)] ms_ran [OF assms(1)] by auto
next
  case (Cons y ys)
  let ?f = "filter (\<lambda>m. m_Host m = host) (ms_visit ks s)"
  have "last ?f \<in> set ?f" using Cons by (metis last_in_set list.distinct(1))
  moreover have "ms_GetByHost ks host s = Some (last ?f)"
    using Cons by (simp add: ms_GetByHost_def fold_last_match)
  ultimately show ?thesis using ms_visit_set [OF assms(2)] ms_ran [OF assms(1)] by auto
qed


end
