(* ===== verification/ClusterConfig.thy ===== *)
theory ClusterConfig
  imports MemberSet Engine
begin

section \<open>Configuration of a cluster node (cluster/cluster.go, kind.go, activation.go, event.go)\<close>

text \<open>
  The node's configuration, its registered kinds, the configuration of an activation, and the
  messages and events of the cluster package. Producers are opaque (\<open>'p\<close>, and \<open>'v\<close> for the
  provider's). What \<open>rand\<close> returns is an argument. Messages of the cluster are the user
  messages of the engine; the replies of the agent are plain Go values (a \<open>*PID\<close>, slices), with
  one constructor each.
\<close>

record 'p kind =
  kind_name :: string
  kind_producer :: 'p
  kind_config :: unit

definition NewKindConfig :: unit where
  "NewKindConfig = ()"

definition newKind :: "string \<Rightarrow> 'p \<Rightarrow> unit \<Rightarrow> 'p kind" where
  "newKind name p cfg = \<lparr>kind_name = name, kind_producer = p, kind_config = cfg\<rparr>"

subsection \<open>Activations\<close>

record activation_details =
  ad_Region :: string
  ad_Members :: "member list"
  ad_Kind :: string

type_synonym select_member_func = "activation_details \<Rightarrow> member option"

record activation_config =
  ac_id :: string
  ac_region :: string
  ac_selectMember :: "select_member_func option"

text \<open>\<open>rand.Intn(n)\<close> is some number below \<open>n\<close>; the caller has checked that there is a member.\<close>

definition SelectRandomMember :: "nat \<Rightarrow> select_member_func" where
  "SelectRandomMember random details = Some (ad_Members details ! (random mod length (ad_Members details)))"

definition NewActivationConfig :: "nat \<Rightarrow> nat \<Rightarrow> activation_config" where
  "NewActivationConfig random pick =
     \<lparr>ac_id = Itoa (int random), ac_region = ''default'', ac_selectMember = Some (SelectRandomMember pick)\<rparr>"

definition WithSelectMemberFunc :: "select_member_func option \<Rightarrow> activation_config \<Rightarrow> activation_config" where
  "WithSelectMemberFunc f c = c\<lparr>ac_selectMember := f\<rparr>"

definition ac_WithID :: "string \<Rightarrow> activation_config \<Rightarrow> activation_config" where
  "ac_WithID i c = c\<lparr>ac_id := i\<rparr>"

definition ac_WithRegion :: "string \<Rightarrow> activation_config \<Rightarrow> activation_config" where
  "ac_WithRegion r c = c\<lparr>ac_region := r\<rparr>"

subsection \<open>Messages\<close>

datatype cmsg =
    Members "member list"
  | Handshake "member option"
  | ActorTopology "pid option list"
  | Activation "pid option"
  | Deactivation "pid option"
  | ActivationRequest (areq_Kind: string) (areq_ID: string) (areq_Region: string) (areq_topologyHash: "64 word")
  | ActivationResponse (aresp_PID: "pid option") (aresp_Success: bool) (aresp_topologyHash: "64 word")
  | ReqActivate string activation_config
  | ReqDeactivate "pid option"
  | GetMembers
  | GetKinds
  | GetActive (ga_id: string) (ga_kind: string)
  | ProviderMemberLeave string
  | ProviderMemberPing
  | Ping "pid option"
  | MemberJoinEvent member
  | MemberLeaveEvent member
  | ActivationEvent "pid option"
  | DeactivationEvent "pid option"
  | RepPid "pid option"
  | RepMembers "member list"
  | RepStrings "string list"
  | RepPids "pid option list"
  | TestMessage string
  | OtherMsg nat

subsection \<open>The node\<close>

record ('v, 'e) config =
  listenAddr :: string
  cfg_id :: string
  cfg_region :: string
  cfg_engine :: "'e option"
  cfg_provider :: 'v
  requestTimeout :: int

definition defaultRequestTimeout :: int where
  "defaultRequestTimeout = 1000000000"

definition getRandomListenAddr :: "nat \<Rightarrow> string" where
  "getRandomListenAddr random = ''127.0.0.1:'' @ Itoa (int (random mod 50000 + 10000))"

definition NewConfig :: "nat \<Rightarrow> nat \<Rightarrow> 'v \<Rightarrow> ('v, 'e) config" where
  "NewConfig port_random id_random selfManaged =
     \<lparr>listenAddr = getRandomListenAddr port_random, cfg_id = Itoa (int id_random), cfg_region = ''default'',
      cfg_engine = None, cfg_provider = selfManaged, requestTimeout = defaultRequestTimeout\<rparr>"

definition WithRequestTimeout :: "int \<Rightarrow> ('v, 'e) config \<Rightarrow> ('v, 'e) config" where
  "WithRequestTimeout d c = c\<lparr>requestTimeout := d\<rparr>"

definition WithProvider :: "'v \<Rightarrow> ('v, 'e) config \<Rightarrow> ('v, 'e) config" where
  "WithProvider p c = c\<lparr>cfg_provider := p\<rparr>"

definition WithEngine :: "'e \<Rightarrow> ('v, 'e) config \<Rightarrow> ('v, 'e) config" where
  "WithEngine e c = c\<lparr>cfg_engine := Some e\<rparr>"

definition WithListenAddr :: "string \<Rightarrow> ('v, 'e) config \<Rightarrow> ('v, 'e) config" where
  "WithListenAddr a c = c\<lparr>listenAddr := a\<rparr>"

definition cfg_WithID :: "string \<Rightarrow> ('v, 'e) config \<Rightarrow> ('v, 'e) config" where
  "cfg_WithID i c = c\<lparr>cfg_id := i\<rparr>"

definition cfg_WithRegion :: "string \<Rightarrow> ('v, 'e) config \<Rightarrow> ('v, 'e) config" where
  "cfg_WithRegion r c = c\<lparr>cfg_region := r\<rparr>"

text \<open>
  \<open>Cluster\<close>. The engine is a pointer shared by every actor of the node and is passed beside the
  record; \<open>cl_address\<close> is what \<open>engine.Address()\<close> returns, which never changes.
\<close>

record ('p, 'v) cluster =
  cl_config :: "('v, cmsg engine) config"
  cl_address :: string
  cl_agentPID :: "pid option"
  cl_providerPID :: "pid option"
  cl_isStarted :: bool
  cl_kinds :: "'p kind list"

text \<open>
  \<open>New\<close>: without an engine it makes a remote at the listen address and an engine over it.
  \<open>start\<close>, \<open>random\<close> and \<open>seq\<close> are as in \<open>NewEngine\<close>; \<open>None\<close> is its error.
\<close>

definition cluster_New :: "(cmsg engine \<Rightarrow> cmsg engine option) \<Rightarrow> nat \<Rightarrow> 64 word \<Rightarrow> ('v, cmsg engine) config \<Rightarrow> (('p, 'v) cluster \<times> cmsg engine) option" where
  "cluster_New start random seq cfg =
     (case (case cfg_engine cfg of
              None \<Rightarrow> NewEngine (WithRemote \<lparr>rem_Address = listenAddr cfg, rem_sent = []\<rparr> NewEngineConfig) start random seq
            | Some e \<Rightarrow> Some e) of
        None \<Rightarrow> None
      | Some e \<Rightarrow> Some (\<lparr>cl_config = cfg\<lparr>cfg_engine := Some e\<rparr>, cl_address = e_address e, cl_agentPID = None,
                          cl_providerPID = None, cl_isStarted = False, cl_kinds = []\<rparr>, e))"

definition RegisterKind :: "string \<Rightarrow> 'p \<Rightarrow> unit \<Rightarrow> ('p, 'v) cluster \<Rightarrow> ('p, 'v) cluster" where
  "RegisterKind k p cfg c = (if cl_isStarted c then c else c\<lparr>cl_kinds := cl_kinds c @ [newKind k p cfg]\<rparr>)"

fun has_kind_local_loop :: "string \<Rightarrow> 'p kind list \<Rightarrow> bool" where
  "has_kind_local_loop name [] = False"
| "has_kind_local_loop name (k # ks) = (if kind_name k = name then True else has_kind_local_loop name ks)"

definition HasKindLocal :: "string \<Rightarrow> ('p, 'v) cluster \<Rightarrow> bool" where
  "HasKindLocal name c = has_kind_local_loop name (cl_kinds c)"

definition cluster_Member :: "('p, 'v) cluster \<Rightarrow> member" where
  "cluster_Member c = \<lparr>m_ID = cfg_id (cl_config c), m_Host = cl_address c, m_Region = cfg_region (cl_config c),
     m_Kinds = map kind_name (cl_kinds c)\<rparr>"

definition cluster_Region :: "('p, 'v) cluster \<Rightarrow> string" where
  "cluster_Region c = cfg_region (cl_config c)"

definition cluster_ID :: "('p, 'v) cluster \<Rightarrow> string" where
  "cluster_ID c = cfg_id (cl_config c)"

definition cluster_Address :: "('p, 'v) cluster \<Rightarrow> string res" where
  "cluster_Address c = (case cl_agentPID c of None \<Rightarrow> Inl NilDeref | Some q \<Rightarrow> Inr (Address q))"

definition cluster_PID :: "('p, 'v) cluster \<Rightarrow> pid option" where
  "cluster_PID c = cl_agentPID c"

definition kindsToString :: "('p, 'v) cluster \<Rightarrow> string list" where
  "kindsToString c = map kind_name (cl_kinds c)"

lemma HasKindLocal_iff: "HasKindLocal name c \<longleftrightarrow> name \<in> set (m_Kinds (cluster_Member c))"
proof -
  have "has_kind_local_loop name ks \<longleftrightarrow> name \<in> kind_name ` set ks" for ks :: "'p kind list"
    by (induction ks) auto
  then show ?thesis by (simp add: HasKindLocal_def cluster_Member_def)
qed

end
