(* ===== verification/Agent.thy ===== *)
theory Agent
  imports ClusterConfig
begin

section \<open>The cluster agent (cluster/agent.go)\<close>

text \<open>
  The agent is the actor that keeps a node's view of the cluster: the members, the kinds they
  offer and the PIDs activated anywhere. A handler is a step on the agent that also lists the
  engine calls it makes, in order, and ends with a panic or without one; a panic leaves the
  calls made before it. \<open>run_call\<close> runs a call on the engine of theory \<open>Engine\<close>. The reply to a
  request to another node is an argument, \<open>None\<close> when \<open>Result\<close> returns its error. Every range
  over a map takes its order from \<open>ranges\<close>, one entry per loop of the code.
\<close>

datatype 'p call =
    CSend "pid option" "cmsg msg"
  | CSendWithSender "pid option" "cmsg msg" "pid option"
  | CBroadcast "cmsg msg"
  | CPoison "pid option"
  | CSpawn 'p string string nat
  | CRequest "pid option" "cmsg msg" int
  | CRespond "cmsg msg"

record 'p agent =
  ag_members :: member_set
  ag_address :: string
  ag_requestTimeout :: int
  ag_kinds :: "string \<rightharpoonup> bool"
  ag_localKinds :: "string \<rightharpoonup> 'p kind"
  ag_activated :: "string \<rightharpoonup> pid"

type_synonym 'p step_result = "'p agent \<times> 'p call list \<times> go_panic option"

text \<open>Sequencing: the second step runs when the first did not panic.\<close>

definition and_then :: "('p agent \<Rightarrow> 'p step_result) \<Rightarrow> ('p agent \<Rightarrow> 'p step_result) \<Rightarrow> 'p agent \<Rightarrow> 'p step_result" where
  "and_then f g a = (case f a of
      (a1, cs, Some p) \<Rightarrow> (a1, cs, Some p)
    | (a1, cs, None) \<Rightarrow> (case g a1 of (a2, cs', r) \<Rightarrow> (a2, cs @ cs', r)))"

fun each_step :: "('x \<Rightarrow> 'p agent \<Rightarrow> 'p step_result) \<Rightarrow> 'x list \<Rightarrow> 'p agent \<Rightarrow> 'p step_result" where
  "each_step f [] a = (a, [], None)"
| "each_step f (x # xs) a = and_then (f x) (each_step f xs) a"

definition emit :: "'p call list \<Rightarrow> 'p agent \<Rightarrow> 'p step_result" where
  "emit cs a = (a, cs, None)"

text \<open>The loops over maps; those inside a loop over members carry that member's id.\<close>

datatype loop_site = SiteSlice | SiteJoined | SiteLeft | SiteFilter | SiteBcast | SiteGet | SiteHost | SiteReply | SitePing
  | SiteTopology string | SiteEvict string | SiteRebuild string

record ranges =
  r_members :: "loop_site \<Rightarrow> (string \<rightharpoonup> member) \<Rightarrow> string list"
  r_pids :: "loop_site \<Rightarrow> (string \<rightharpoonup> pid) \<Rightarrow> string list"
  r_kinds :: "(string \<rightharpoonup> bool) \<Rightarrow> string list"

subsection \<open>Construction\<close>

fun index_kinds :: "'p kind list \<Rightarrow> (string \<rightharpoonup> bool) \<times> (string \<rightharpoonup> 'p kind) \<Rightarrow> (string \<rightharpoonup> bool) \<times> (string \<rightharpoonup> 'p kind)" where
  "index_kinds [] m = m"
| "index_kinds (k # ks) (m, l) = index_kinds ks (m(kind_name k \<mapsto> True), l(kind_name k \<mapsto> k))"

definition NewAgent :: "('p, 'v) cluster \<Rightarrow> 'p agent" where
  "NewAgent c = (let (kinds, localKinds) = index_kinds (cl_kinds c) (Map.empty, Map.empty) in
     \<lparr>ag_members = NewMemberSet [], ag_address = cl_address c, ag_requestTimeout = requestTimeout (cl_config c),
      ag_kinds = kinds, ag_localKinds = localKinds, ag_activated = Map.empty\<rparr>)"

subsection \<open>The activated actors\<close>

definition addActivated :: "pid option \<Rightarrow> 'p agent \<Rightarrow> 'p step_result" where
  "addActivated q a = (case q of
      None \<Rightarrow> (a, [], Some NilDeref)
    | Some p \<Rightarrow> (if ag_activated a (ID p) = None then a\<lparr>ag_activated := (ag_activated a)(ID p \<mapsto> p)\<rparr> else a, [], None))"

definition removeActivated :: "pid option \<Rightarrow> 'p agent \<Rightarrow> 'p step_result" where
  "removeActivated q a = (case q of
      None \<Rightarrow> (a, [], Some NilDeref)
    | Some p \<Rightarrow> (a\<lparr>ag_activated := (ag_activated a)(ID p := None)\<rparr>, [], None))"

definition hasKindLocal :: "string \<Rightarrow> 'p agent \<Rightarrow> bool" where
  "hasKindLocal name a \<longleftrightarrow> ag_localKinds a name \<noteq> None"

text \<open>\<open>maps.Clear\<close>, then the kinds of the members in range order.\<close>

fun add_kinds :: "string list \<Rightarrow> (string \<rightharpoonup> bool) \<Rightarrow> (string \<rightharpoonup> bool)" where
  "add_kinds [] m = m"
| "add_kinds (k # ks) m = add_kinds ks (if m k = None then m(k \<mapsto> True) else m)"

definition rebuildKinds :: "string list \<Rightarrow> 'p agent \<Rightarrow> 'p agent" where
  "rebuildKinds ks a = a\<lparr>ag_kinds := ms_ForEach ks (\<lambda>m kinds. (add_kinds (m_Kinds m) kinds, True)) (ag_members a) Map.empty\<rparr>"

definition bcast :: "ranges \<Rightarrow> cmsg \<Rightarrow> 'p agent \<Rightarrow> 'p step_result" where
  "bcast rs m a = emit (ms_ForEach (r_members rs SiteBcast (ms_members (ag_members a)))
     (\<lambda>mem cs. (cs @ [CSend (Some (member_PID mem)) (User m)], True)) (ag_members a) []) a"

subsection \<open>Handlers\<close>

definition handleActorTopology :: "pid option list \<Rightarrow> 'p agent \<Rightarrow> 'p step_result" where
  "handleActorTopology actors a = each_step addActivated actors a"

definition handleDeactivation :: "pid option \<Rightarrow> 'p agent \<Rightarrow> 'p step_result" where
  "handleDeactivation q a = and_then (removeActivated q) (emit [CPoison q, CBroadcast (User (DeactivationEvent q))]) a"

definition handleActivation :: "pid option \<Rightarrow> 'p agent \<Rightarrow> 'p step_result" where
  "handleActivation q a = and_then (addActivated q) (emit [CBroadcast (User (ActivationEvent q))]) a"

text \<open>The PID that \<open>engine.Spawn(producer, kind, WithID(id))\<close> returns; an empty id becomes a random one.\<close>

definition spawn_pid :: "string \<Rightarrow> string \<Rightarrow> string \<Rightarrow> nat \<Rightarrow> pid" where
  "spawn_pid address kind i random =
     NewPID address (kind @ pidSeparator @ (if length i = 0 then Itoa (int random) else i))"

definition handleActivationRequest :: "nat \<Rightarrow> string \<Rightarrow> string \<Rightarrow> 'p agent \<Rightarrow> cmsg \<times> 'p call list" where
  "handleActivationRequest random kind i a =
     (case ag_localKinds a kind of
        None \<Rightarrow> (ActivationResponse None False 0, [])
      | Some k \<Rightarrow> (ActivationResponse (Some (spawn_pid (ag_address a) kind i random)) True 0,
                   [CSpawn (kind_producer k) kind i random]))"

text \<open>
  \<open>activate\<close>. \<open>pick\<close> and \<open>random\<close> are what \<open>rand\<close> returns, \<open>reply\<close> what the request to the other
  node returns.
\<close>

definition agent_activate :: "ranges \<Rightarrow> nat \<Rightarrow> nat \<Rightarrow> cmsg msg option \<Rightarrow> string \<Rightarrow> activation_config \<Rightarrow> 'p agent \<Rightarrow>
    pid option \<times> 'p step_result" where
  "agent_activate rs pick random reply kind cfg a =
     (let i = kind @ ''/'' @ ac_id cfg;
          members = ms_FilterByKind (r_members rs SiteFilter (ms_members (ag_members a))) kind (ag_members a);
          select = (case ac_selectMember cfg of None \<Rightarrow> SelectRandomMember pick | Some f \<Rightarrow> f)
      in if ag_activated a i \<noteq> None then (None, a, [], None)
         else if members = [] then (None, a, [], None)
         else case select \<lparr>ad_Region = ac_region cfg, ad_Members = members, ad_Kind = kind\<rparr> of
                None \<Rightarrow> (None, a, [], None)
              | Some m \<Rightarrow>
                  if m_Host m = ag_address a then
                    (case handleActivationRequest random kind (ac_id cfg) a of
                       (resp, cs) \<Rightarrow> (aresp_PID resp, and_then (emit cs) (bcast rs (Activation (aresp_PID resp))) a))
                  else
                    (let req = CRequest (Some (NewPID (m_Host m) (''cluster/'' @ m_ID m)))
                                 (User (ActivationRequest kind (ac_id cfg) [] 0)) (ag_requestTimeout a)
                     in case reply of
                          Some (User (ActivationResponse q success h)) \<Rightarrow>
                            if success then (q, and_then (emit [req]) (bcast rs (Activation q)) a)
                            else (None, a, [req], None)
                        | _ \<Rightarrow> (None, a, [req], None)))"

definition memberJoin :: "ranges \<Rightarrow> member \<Rightarrow> 'p agent \<Rightarrow> 'p step_result" where
  "memberJoin rs m a =
     (let a1 = a\<lparr>ag_members := ms_Add m (ag_members a), ag_kinds := add_kinds (m_Kinds m) (ag_kinds a)\<rparr>;
          actorInfos = map Some (range_values (ag_activated a1) (r_pids rs (SiteTopology (m_ID m)) (ag_activated a1)))
      in (a1, (if length actorInfos > 0 then [CSend (Some (member_PID m)) (User (ActorTopology actorInfos))] else [])
              @ [CBroadcast (User (MemberJoinEvent m))], None))"

text \<open>The range deletes entries of the map it ranges over; an entry deleted before its turn is not visited.\<close>

fun evict :: "string \<Rightarrow> string list \<Rightarrow> 'p agent \<Rightarrow> 'p step_result" where
  "evict host [] a = (a, [], None)"
| "evict host (k # ks) a = (case ag_activated a k of
      None \<Rightarrow> evict host ks a
    | Some p \<Rightarrow> if Address p = host then and_then (removeActivated (Some p)) (evict host ks) a else evict host ks a)"

definition memberLeave :: "ranges \<Rightarrow> member \<Rightarrow> 'p agent \<Rightarrow> 'p step_result" where
  "memberLeave rs m a =
     (let a1 = a\<lparr>ag_members := ms_Remove m (ag_members a)\<rparr>;
          a2 = rebuildKinds (r_members rs (SiteRebuild (m_ID m)) (ms_members (ag_members a1))) a1
      in and_then (evict (m_Host m) (r_pids rs (SiteEvict (m_ID m)) (ag_activated a2)))
           (emit [CBroadcast (User (MemberLeaveEvent m))]) a2)"

definition handleMembers :: "ranges \<Rightarrow> member list \<Rightarrow> 'p agent \<Rightarrow> 'p step_result" where
  "handleMembers rs ms a =
     (let given = NewMemberSet ms;
          slice = ms_Slice (r_members rs SiteSlice (ms_members (ag_members a))) (ag_members a);
          joined = ms_Except (r_members rs SiteJoined (ms_members given)) slice given;
          left = ms_Except (r_members rs SiteLeft (ms_members (ag_members a))) ms (ag_members a)
      in and_then (each_step (memberJoin rs) joined) (each_step (memberLeave rs) left) a)"

text \<open>\<open>strings.Split(s, "/")\<close>: the parts between separators, always at least one.\<close>

fun split_slash :: "string \<Rightarrow> string list" where
  "split_slash [] = [[]]"
| "split_slash (c # cs) = (if c = CHR ''/'' then [] # split_slash cs
     else case split_slash cs of p # ps \<Rightarrow> (c # p) # ps | [] \<Rightarrow> [[c]])"

fun active_of_kind :: "string \<Rightarrow> (string \<rightharpoonup> pid) \<Rightarrow> string list \<Rightarrow> pid option list" where
  "active_of_kind kind m [] = []"
| "active_of_kind kind m (i # ks) = (case m i of
      None \<Rightarrow> active_of_kind kind m ks
    | Some p \<Rightarrow> if length (split_slash i) = 0 then []
                else if kind = split_slash i ! 0 then Some p # active_of_kind kind m ks
                else active_of_kind kind m ks)"

definition handleGetActive :: "ranges \<Rightarrow> string \<Rightarrow> string \<Rightarrow> 'p agent \<Rightarrow> 'p step_result" where
  "handleGetActive rs i kind a = (a,
     (if length i > 0 then [CRespond (User (RepPid (ag_activated a i)))] else []) @
     (if length kind > 0 then [CRespond (User (RepPids (active_of_kind kind (ag_activated a) (r_pids rs SiteGet (ag_activated a)))))] else []),
     None)"

definition agent_Receive :: "ranges \<Rightarrow> nat \<Rightarrow> nat \<Rightarrow> cmsg msg option \<Rightarrow> cmsg msg \<Rightarrow> 'p agent \<Rightarrow> 'p step_result" where
  "agent_Receive rs pick random reply m a =
     (case m of
        User c \<Rightarrow> (case c of
            ActorTopology actors \<Rightarrow> handleActorTopology actors a
          | Members ms \<Rightarrow> handleMembers rs ms a
          | Activation q \<Rightarrow> handleActivation q a
          | ReqActivate kind cfg \<Rightarrow>
              (case agent_activate rs pick random reply kind cfg a of
                 (q, r) \<Rightarrow> and_then (\<lambda>_. r) (emit [CRespond (User (RepPid q))]) a)
          | ReqDeactivate q \<Rightarrow> bcast rs (Deactivation q) a
          | Deactivation q \<Rightarrow> handleDeactivation q a
          | ActivationRequest kind i _ _ \<Rightarrow>
              (case handleActivationRequest random kind i a of (resp, cs) \<Rightarrow> emit (cs @ [CRespond (User resp)]) a)
          | GetMembers \<Rightarrow> emit [CRespond (User (RepMembers (ms_Slice (r_members rs SiteSlice (ms_members (ag_members a))) (ag_members a))))] a
          | GetKinds \<Rightarrow> emit [CRespond (User (RepStrings (r_kinds rs (ag_kinds a))))] a
          | GetActive i kind \<Rightarrow> handleGetActive rs i kind a
          | _ \<Rightarrow> emit [] a)
      | _ \<Rightarrow> emit [] a)"

subsection \<open>The calls on the engine\<close>

text \<open>\<open>mk\<close> gives the options of a producer, \<open>src\<close> is the sender of the message being handled.\<close>

definition run_call :: "('p \<Rightarrow> ('u, cmsg, 'x) opts) \<Rightarrow> pid option \<Rightarrow> 'p call \<Rightarrow> cmsg engine \<Rightarrow> send_out \<times> cmsg engine" where
  "run_call mk src c e = (case c of
      CSend q m \<Rightarrow> eng_Send q m e
    | CSendWithSender q m s \<Rightarrow> SendWithSender q m s e
    | CBroadcast m \<Rightarrow> eng_Broadcast m e
    | CPoison q \<Rightarrow> snd (Poison q e)
    | CSpawn p kind i random \<Rightarrow> snd (Spawn kind [WithID i] random (mk p) e)
    | CRequest q m t \<Rightarrow> snd (Request q m t e)
    | CRespond m \<Rightarrow> if src = None then (SDone, e) else eng_Send src m e)"

fun run_calls :: "('p \<Rightarrow> ('u, cmsg, 'x) opts) \<Rightarrow> pid option \<Rightarrow> 'p call list \<Rightarrow> cmsg engine \<Rightarrow> send_out \<times> cmsg engine" where
  "run_calls mk src [] e = (SDone, e)"
| "run_calls mk src (c # cs) e = (case run_call mk src c e of (SDone, e') \<Rightarrow> run_calls mk src cs e' | r \<Rightarrow> r)"

lemma spawn_pid_eq:
  fixes op :: "('u, cmsg, 'x) opts"
  shows "fst (Spawn kind [WithID i] random op e) = spawn_pid (e_address e) kind i random"
proof -
  have "fst (SpawnProc p e) = obj_pid p" for p :: "cmsg processer"
    by (simp add: SpawnProc_def Let_def split: prod.split)
  then show ?thesis by (simp add: Spawn_def spawn_pid_def spawn_opts_def WithID_def Let_def)
qed

subsection \<open>The invariant\<close>

definition agent_inv :: "'p agent \<Rightarrow> bool" where
  "agent_inv a \<longleftrightarrow> ms_inv (ag_members a) \<and> finite (dom (ag_activated a)) \<and>
     (\<forall>i p. ag_activated a i = Some p \<longrightarrow> ID p = i)"

text \<open>The orders are ones the runtime may choose, for maps whose keys are in \<open>U\<close>.\<close>

definition ranges_ok :: "string set \<Rightarrow> ranges \<Rightarrow> bool" where
  "ranges_ok U rs \<longleftrightarrow> (\<forall>site m. dom m \<subseteq> U \<longrightarrow> range_order m (r_members rs site m)) \<and>
     (\<forall>site m. dom m \<subseteq> U \<longrightarrow> range_order m (r_pids rs site m)) \<and> (\<forall>m. dom m \<subseteq> U \<longrightarrow> range_order m (r_kinds rs m))"

lemma ranges_okD:
  assumes "ranges_ok U rs"
  shows "dom m \<subseteq> U \<Longrightarrow> range_order m (r_members rs site m)" "dom p \<subseteq> U \<Longrightarrow> range_order p (r_pids rs site p)"
    "dom k \<subseteq> U \<Longrightarrow> range_order k (r_kinds rs k)"
  using assms by (auto simp: ranges_ok_def)

text \<open>Orders that can be computed: the keys of a list, in its order.\<close>

definition list_ranges :: "string list \<Rightarrow> ranges" where
  "list_ranges us = \<lparr>r_members = (\<lambda>_ m. filter (\<lambda>k. m k \<noteq> None) us), r_pids = (\<lambda>_ m. filter (\<lambda>k. m k \<noteq> None) us),
     r_kinds = (\<lambda>m. filter (\<lambda>k. m k \<noteq> None) us)\<rparr>"

lemma list_ranges_ok: "distinct us \<Longrightarrow> ranges_ok (set us) (list_ranges us)"
  by (auto simp: ranges_ok_def list_ranges_def range_order_def)

subsection \<open>Members that join\<close>

lemma and_then_None [simp]:
  "and_then (emit cs) g a = (case g a of (a2, cs', r) \<Rightarrow> (a2, cs @ cs', r))"
  by (simp add: and_then_def emit_def)

lemma dom_add_kinds [simp]: "dom (add_kinds ks m) = dom m \<union> set ks"
  by (induction ks arbitrary: m) auto

definition join_calls :: "ranges \<Rightarrow> (string \<rightharpoonup> pid) \<Rightarrow> member \<Rightarrow> 'p call list" where
  "join_calls rs act m =
     (let pids = map Some (range_values act (r_pids rs (SiteTopology (m_ID m)) act)) in
      (if pids \<noteq> [] then [CSend (Some (member_PID m)) (User (ActorTopology pids))] else []) @ [CBroadcast (User (MemberJoinEvent m))])"

lemma memberJoin_eq:
  "memberJoin rs m a = (a\<lparr>ag_members := ms_Add m (ag_members a), ag_kinds := add_kinds (m_Kinds m) (ag_kinds a)\<rparr>,
     join_calls rs (ag_activated a) m, None)"
  by (simp add: memberJoin_def join_calls_def Let_def)

lemma joins_eq:
  "each_step (memberJoin rs) xs a =
     (a\<lparr>ag_members := fold ms_Add xs (ag_members a), ag_kinds := fold (\<lambda>m. add_kinds (m_Kinds m)) xs (ag_kinds a)\<rparr>,
      concat (map (join_calls rs (ag_activated a)) xs), None)"
  by (induction xs arbitrary: a) (simp_all add: and_then_def memberJoin_eq)

lemma fold_ms_Add:
  assumes "ms_inv s"
  shows "ms_inv (fold ms_Add xs s)" "ms_ids (fold ms_Add xs s) = ms_ids s \<union> m_ID ` set xs"
    "i \<notin> m_ID ` set xs \<Longrightarrow> ms_members (fold ms_Add xs s) i = ms_members s i"
    "distinct (map m_ID xs) \<Longrightarrow> m \<in> set xs \<Longrightarrow> ms_members (fold ms_Add xs s) (m_ID m) = Some m"
proof -
  show k: "i \<notin> m_ID ` set xs \<Longrightarrow> ms_members (fold ms_Add xs s) i = ms_members s i" for i s
    by (induction xs arbitrary: s) (auto simp: ms_Add_def)
  show "ms_inv (fold ms_Add xs s)" "ms_ids (fold ms_Add xs s) = ms_ids s \<union> m_ID ` set xs"
    using member_sets.adds [OF assms] by blast+
  show "distinct (map m_ID xs) \<Longrightarrow> m \<in> set xs \<Longrightarrow> ms_members (fold ms_Add xs s) (m_ID m) = Some m"
  proof (induction xs arbitrary: s)
    case (Cons x xs)
    have kk: "i \<notin> m_ID ` set xs \<Longrightarrow> ms_members (fold ms_Add xs s) i = ms_members s i" for i s
      by (induction xs arbitrary: s) (auto simp: ms_Add_def)
    have "ms_members (ms_Add x s) (m_ID x) = Some x" by (simp add: ms_Add_def)
    then show ?case using Cons kk [of "m_ID x" "ms_Add x s"] by auto
  qed simp
qed

lemma fold_add_kinds: "dom (fold (\<lambda>m. add_kinds (m_Kinds m)) xs K) = dom K \<union> (\<Union>m \<in> set xs. set (m_Kinds m))"
  by (induction xs arbitrary: K) auto

subsection \<open>Members that leave\<close>

text \<open>The activated map without those actors of a host whose ids are in a set.\<close>

definition evicted :: "string \<Rightarrow> string set \<Rightarrow> (string \<rightharpoonup> pid) \<Rightarrow> string \<rightharpoonup> pid" where
  "evicted host S act = (\<lambda>i. case act i of Some p \<Rightarrow> if i \<in> S \<and> Address p = host then None else Some p | None \<Rightarrow> None)"

lemma evicted_step:
  "act k = Some p \<Longrightarrow> Address p = host \<Longrightarrow> evicted host S (act(k := None)) = evicted host (insert k S) act"
  "(\<forall>p. act k = Some p \<longrightarrow> Address p \<noteq> host) \<Longrightarrow> evicted host (insert k S) act = evicted host S act"
  "evicted host {} act = act"
  by (auto simp: evicted_def fun_eq_iff split: option.split)

lemma evict_eq:
  assumes "\<forall>i p. ag_activated a i = Some p \<longrightarrow> ID p = i"
  shows "evict host ks a = (a\<lparr>ag_activated := evicted host (set ks) (ag_activated a)\<rparr>, [], None)"
  using assms
proof (induction ks arbitrary: a)
  case (Cons k ks)
  show ?case
  proof (cases "\<exists>p. ag_activated a k = Some p \<and> Address p = host")
    case True
    then obtain p where p: "ag_activated a k = Some p" "Address p = host" by blast
    then have "ID p = k" using Cons.prems by blast
    then have "evict host (k # ks) a = evict host ks (a\<lparr>ag_activated := (ag_activated a)(k := None)\<rparr>)"
      using p by (simp add: and_then_def removeActivated_def)
    also have "\<dots> = (a\<lparr>ag_activated := evicted host (set ks) ((ag_activated a)(k := None))\<rparr>, [], None)"
      by (subst Cons.IH) (use Cons.prems in auto)
    finally show ?thesis using evicted_step(1) [of "ag_activated a" k p host "set ks"] p by (simp del: fun_upd_apply)
  next
    case False
    then have "evicted host (insert k (set ks)) (ag_activated a) = evicted host (set ks) (ag_activated a)"
      by (intro evicted_step(2)) auto
    then show ?thesis using False Cons.IH [OF Cons.prems] by (cases "ag_activated a k") auto
  qed
qed (simp add: evicted_step)

text \<open>The activated map without the actors of a host.\<close>

definition drop_host :: "string set \<Rightarrow> (string \<rightharpoonup> pid) \<Rightarrow> string \<rightharpoonup> pid" where
  "drop_host hosts act = (\<lambda>i. case act i of Some p \<Rightarrow> if Address p \<in> hosts then None else Some p | None \<Rightarrow> None)"

lemma drop_host_simps [simp]:
  "drop_host {} act = act"
  "drop_host A (drop_host B act) = drop_host (A \<union> B) act"
  by (auto simp: drop_host_def fun_eq_iff split: option.split)

lemma drop_host_dom: "dom (drop_host A act) \<subseteq> dom act"
  by (auto simp: drop_host_def split: option.splits)

definition kinds_of :: "member_set \<Rightarrow> string set" where
  "kinds_of s = (\<Union>m \<in> ran (ms_members s). set (m_Kinds m))"

lemma memberLeave_eq:
  assumes "agent_inv a" "ranges_ok U rs" "ms_ids (ag_members a) \<union> dom (ag_activated a) \<subseteq> U"
  obtains K where "memberLeave rs m a = (a\<lparr>ag_members := ms_Remove m (ag_members a), ag_kinds := K,
      ag_activated := drop_host {m_Host m} (ag_activated a)\<rparr>, [CBroadcast (User (MemberLeaveEvent m))], None)"
    "dom K = kinds_of (ms_Remove m (ag_members a))"
proof -
  let ?s = "ms_Remove m (ag_members a)"
  let ?ks = "r_members rs (SiteRebuild (m_ID m)) (ms_members ?s)"
  let ?ps = "r_pids rs (SiteEvict (m_ID m)) (ag_activated a)"
  define K where "K = fold (\<lambda>m. add_kinds (m_Kinds m)) (ms_visit ?ks ?s) Map.empty"
  have rb: "rebuildKinds ?ks (a\<lparr>ag_members := ?s\<rparr>) = a\<lparr>ag_members := ?s, ag_kinds := K\<rparr>"
    by (simp add: rebuildKinds_def ms_ForEach_def each_while_all K_def)
  have "dom (ms_members ?s) \<subseteq> U" using assms(3) by (auto simp: ms_ids_def ms_Remove_def)
  then have "range_order (ms_members ?s) ?ks" using ranges_okD(1) [OF assms(2)] by simp
  then have K: "dom K = kinds_of ?s"
    using ms_visit_set by (simp add: K_def fold_add_kinds kinds_of_def)
  have "range_order (ag_activated a) ?ps" using ranges_okD(2) [OF assms(2)] assms(3) by simp
  then have ps: "set ?ps = dom (ag_activated a)" by (rule range_orderD)
  have d: "evicted (m_Host m) (set ?ps) (ag_activated a) = drop_host {m_Host m} (ag_activated a)"
    by (auto simp: ps drop_host_def evicted_def fun_eq_iff split: option.split)
  have "evict (m_Host m) ?ps (a\<lparr>ag_members := ?s, ag_kinds := K\<rparr>)
      = (a\<lparr>ag_members := ?s, ag_kinds := K, ag_activated := drop_host {m_Host m} (ag_activated a)\<rparr>, [], None)"
    using evict_eq [of "a\<lparr>ag_members := ?s, ag_kinds := K\<rparr>" "m_Host m" ?ps] assms(1) d by (simp add: agent_inv_def)
  then show ?thesis using that K rb by (simp add: memberLeave_def and_then_def emit_def Let_def)
qed

lemma leaves_eq:
  assumes "agent_inv a" "ranges_ok U rs" "ms_ids (ag_members a) \<union> dom (ag_activated a) \<subseteq> U"
  shows "\<exists>K. each_step (memberLeave rs) xs a = (a\<lparr>ag_members := fold ms_Remove xs (ag_members a), ag_kinds := K,
      ag_activated := drop_host (m_Host ` set xs) (ag_activated a)\<rparr>, map (\<lambda>m. CBroadcast (User (MemberLeaveEvent m))) xs, None)
    \<and> (if xs = [] then K = ag_kinds a else dom K = kinds_of (fold ms_Remove xs (ag_members a)))"
  using assms
proof (induction xs arbitrary: a)
  case (Cons x xs)
  obtain K where K: "memberLeave rs x a = (a\<lparr>ag_members := ms_Remove x (ag_members a), ag_kinds := K,
      ag_activated := drop_host {m_Host x} (ag_activated a)\<rparr>, [CBroadcast (User (MemberLeaveEvent x))], None)"
    "dom K = kinds_of (ms_Remove x (ag_members a))"
    using memberLeave_eq [OF Cons.prems] .
  let ?a1 = "a\<lparr>ag_members := ms_Remove x (ag_members a), ag_kinds := K, ag_activated := drop_host {m_Host x} (ag_activated a)\<rparr>"
  have "agent_inv ?a1" using Cons.prems(1) drop_host_dom [of "{m_Host x}" "ag_activated a"]
    by (auto simp: agent_inv_def intro: ms_Remove_inv finite_subset) (auto simp: drop_host_def split: option.splits if_splits)
  moreover have "ms_ids (ag_members ?a1) \<union> dom (ag_activated ?a1) \<subseteq> U"
    using Cons.prems(3) drop_host_dom [of "{m_Host x}" "ag_activated a"] by auto
  ultimately obtain K' where "each_step (memberLeave rs) xs ?a1 = (?a1\<lparr>ag_members := fold ms_Remove xs (ag_members ?a1), ag_kinds := K',
      ag_activated := drop_host (m_Host ` set xs) (ag_activated ?a1)\<rparr>, map (\<lambda>m. CBroadcast (User (MemberLeaveEvent m))) xs, None)"
    "if xs = [] then K' = ag_kinds ?a1 else dom K' = kinds_of (fold ms_Remove xs (ag_members ?a1))"
    using Cons.IH [OF _ Cons.prems(2)] by blast
  then show ?case using K by (auto simp: and_then_def intro!: exI [of _ K'] split: if_splits)
qed (auto intro!: exI [of _ "ag_kinds a" for a])

subsection \<open>A new list of members\<close>

lemma fold_ms_Remove:
  "ms_members (fold ms_Remove xs s) i = (if i \<in> m_ID ` set xs then None else ms_members s i)"
  "ms_inv s \<Longrightarrow> ms_inv (fold ms_Remove xs s)"
  by (induction xs arbitrary: s) (auto intro: ms_Remove_inv, auto simp: ms_Remove_def)

definition joined_ids :: "member list \<Rightarrow> 'p agent \<Rightarrow> string set" where
  "joined_ids ms a = m_ID ` set ms - ms_ids (ag_members a)"

definition left_members :: "member list \<Rightarrow> 'p agent \<Rightarrow> member set" where
  "left_members ms a = {m. ms_members (ag_members a) (m_ID m) = Some m \<and> m_ID m \<notin> m_ID ` set ms}"

text \<open>What \<open>handleMembers\<close> computes, with the two lists it loops over.\<close>

lemma handleMembers_eq:
  assumes "agent_inv a" "ranges_ok U rs" "ms_ids (ag_members a) \<union> m_ID ` set ms \<union> dom (ag_activated a) \<subseteq> U"
  obtains joined left K where
    "distinct (map m_ID joined)" "set joined = {m. ms_members (NewMemberSet ms) (m_ID m) = Some m \<and> m_ID m \<in> joined_ids ms a}"
    "distinct (map m_ID left)" "set left = left_members ms a"
    "handleMembers rs ms a = (a\<lparr>ag_members := fold ms_Remove left (fold ms_Add joined (ag_members a)), ag_kinds := K,
        ag_activated := drop_host (m_Host ` left_members ms a) (ag_activated a)\<rparr>,
      concat (map (join_calls rs (ag_activated a)) joined) @ map (\<lambda>m. CBroadcast (User (MemberLeaveEvent m))) left, None)"
    "dom K = (if left = [] then dom (ag_kinds a) \<union> (\<Union>m \<in> set joined. set (m_Kinds m))
        else kinds_of (fold ms_Remove left (fold ms_Add joined (ag_members a))))"
proof -
  let ?g = "NewMemberSet ms" and ?s = "ag_members a"
  let ?slice = "ms_Slice (r_members rs SiteSlice (ms_members ?s)) ?s"
  define joined where "joined = ms_Except (r_members rs SiteJoined (ms_members ?g)) ?slice ?g"
  define left where "left = ms_Except (r_members rs SiteLeft (ms_members ?s)) ms ?s"
  have i: "ms_inv ?s" "ms_inv ?g" using assms(1) NewMemberSet_inv by (auto simp: agent_inv_def)
  have "dom (ms_members ?g) = m_ID ` set ms" using ms_ids_simps(1) [of ms] by (simp add: ms_ids_def)
  then have ro: "range_order (ms_members ?s) (r_members rs site (ms_members ?s))"
    "range_order (ms_members ?g) (r_members rs site (ms_members ?g))" for site
    using ranges_okD(1) [OF assms(2)] assms(3) by (auto simp: ms_ids_def)
  have J: "set joined = {m. ms_members ?g (m_ID m) = Some m \<and> m_ID m \<in> joined_ids ms a}" "distinct (map m_ID joined)"
    using ms_Except_set [OF i(2) ro(2)] ms_Slice_distinct [OF i(1) ro(1)] ms_ids_simps(1) [of ms]
    by (auto simp: joined_def joined_ids_def ms_ids_def)
  have L: "set left = left_members ms a" "distinct (map m_ID left)"
    using ms_Except_set [OF i(1) ro(1)] by (auto simp: left_def left_members_def)
  let ?a1 = "a\<lparr>ag_members := fold ms_Add joined ?s, ag_kinds := fold (\<lambda>m. add_kinds (m_Kinds m)) joined (ag_kinds a)\<rparr>"
  have "ms_ids (ag_members ?a1) \<union> dom (ag_activated ?a1) \<subseteq> U"
    using assms(3) J(1) by (auto simp: fold_ms_Add(2) [OF i(1)] joined_ids_def)
  moreover have "agent_inv ?a1" using assms(1) fold_ms_Add(1) [OF i(1)] by (simp add: agent_inv_def)
  ultimately obtain K where K: "each_step (memberLeave rs) left ?a1 = (?a1\<lparr>ag_members := fold ms_Remove left (ag_members ?a1), ag_kinds := K,
      ag_activated := drop_host (m_Host ` set left) (ag_activated ?a1)\<rparr>, map (\<lambda>m. CBroadcast (User (MemberLeaveEvent m))) left, None)"
    "if left = [] then K = ag_kinds ?a1 else dom K = kinds_of (fold ms_Remove left (ag_members ?a1))"
    using leaves_eq [OF _ assms(2)] by blast
  have "handleMembers rs ms a = and_then (each_step (memberJoin rs) joined) (each_step (memberLeave rs) left) a"
    by (simp add: handleMembers_def Let_def joined_def left_def)
  then show ?thesis using that [OF J(2,1) L(2,1)] K L(1) by (auto simp: and_then_def joins_eq fold_add_kinds)
qed

text \<open>The members after the two loops.\<close>

lemma synced_lookup:
  assumes "ms_inv s" "distinct (map m_ID joined)" "distinct (map m_ID left)"
    "set joined = {m. ms_members (NewMemberSet ms) (m_ID m) = Some m \<and> m_ID m \<in> m_ID ` set ms - ms_ids s}"
    "set left = {m. ms_members s (m_ID m) = Some m \<and> m_ID m \<notin> m_ID ` set ms}"
  shows "ms_members (fold ms_Remove left (fold ms_Add joined s)) i =
    (if i \<in> m_ID ` set ms then if i \<in> ms_ids s then ms_members s i else ms_members (NewMemberSet ms) i else None)"
proof -
  have li: "m_ID ` set left = ms_ids s - m_ID ` set ms"
    unfolding assms(5) using ms_ids_image [OF assms(1), of "\<lambda>i. i \<notin> m_ID ` set ms"] by auto
  have ji: "m_ID ` set joined = m_ID ` set ms - ms_ids s"
    unfolding assms(4) using ms_ids_image [OF NewMemberSet_inv, of ms "\<lambda>i. i \<in> m_ID ` set ms - ms_ids s"] by auto
  show ?thesis
  proof (cases "i \<in> m_ID ` set joined")
    case True
    then obtain m where m: "m \<in> set joined" "m_ID m = i" by auto
    have "i \<in> m_ID ` set ms \<and> i \<notin> ms_ids s" using True ji by blast
    moreover have "ms_members (fold ms_Add joined s) i = Some m" using fold_ms_Add(4) [OF assms(1,2) m(1)] m(2) by simp
    moreover have "ms_members (NewMemberSet ms) i = Some m" using m assms(4) by auto
    ultimately show ?thesis using li by (simp add: fold_ms_Remove)
  next
    case False
    then have "ms_members (fold ms_Add joined s) i = ms_members s i" by (rule fold_ms_Add(3) [OF assms(1)])
    then show ?thesis using False li ji by (auto simp: fold_ms_Remove ms_ids_def)
  qed
qed

lemma handleMembers_view:
  assumes "agent_inv a" "ranges_ok U rs" "ms_ids (ag_members a) \<union> m_ID ` set ms \<union> dom (ag_activated a) \<subseteq> U"
    "handleMembers rs ms a = (a', cs, r)"
  shows "r = None \<and> agent_inv a' \<and> ms_ids (ag_members a') = m_ID ` set ms
    \<and> (\<forall>i \<in> m_ID ` set ms. ms_members (ag_members a') i =
         (if i \<in> ms_ids (ag_members a) then ms_members (ag_members a) i else ms_members (NewMemberSet ms) i))
    \<and> ag_activated a' = drop_host (m_Host ` left_members ms a) (ag_activated a)"
proof -
  have i: "ms_inv (ag_members a)" using assms(1) by (simp add: agent_inv_def)
  obtain joined left K where h: "distinct (map m_ID joined)"
    "set joined = {m. ms_members (NewMemberSet ms) (m_ID m) = Some m \<and> m_ID m \<in> joined_ids ms a}"
    "distinct (map m_ID left)" "set left = left_members ms a"
    "handleMembers rs ms a = (a\<lparr>ag_members := fold ms_Remove left (fold ms_Add joined (ag_members a)), ag_kinds := K,
        ag_activated := drop_host (m_Host ` left_members ms a) (ag_activated a)\<rparr>,
      concat (map (join_calls rs (ag_activated a)) joined) @ map (\<lambda>m. CBroadcast (User (MemberLeaveEvent m))) left, None)"
    using handleMembers_eq [OF assms(1-3)] .
  note look = synced_lookup [OF i h(1,3) h(2) [unfolded joined_ids_def] h(4) [unfolded left_members_def]]
  have a': "ag_members a' = fold ms_Remove left (fold ms_Add joined (ag_members a))" "r = None"
    "ag_activated a' = drop_host (m_Host ` left_members ms a) (ag_activated a)" using h(5) assms(4) by auto
  have "ms_ids (ag_members a') = m_ID ` set ms"
    using look index_members_None_iff [of ms Map.empty]
    by (auto simp: ms_ids_def a' NewMemberSet_def split: if_splits)
  moreover have "agent_inv a'"
    using assms(1) fold_ms_Remove(2) [OF fold_ms_Add(1) [OF i]] drop_host_dom [of "m_Host ` left_members ms a" "ag_activated a"]
    by (auto simp: agent_inv_def a' intro: finite_subset) (auto simp: drop_host_def split: option.splits if_splits)
  ultimately show ?thesis using a' look by simp
qed

text \<open>
  C15. When the provider reports the members of the cluster, the agent's view becomes that
  list: afterwards it knows exactly the ids reported. A member it knew before keeps the record
  it had, a new one is stored as reported; of the actors it believed active, it forgets
  exactly those hosted by the members that left. The handler does not panic, whatever the
  order of its map ranges.
\<close>

theorem members_synced:
  assumes "agent_inv a" "ranges_ok U rs" "ms_ids (ag_members a) \<union> m_ID ` set ms \<union> dom (ag_activated a) \<subseteq> U"
    "handleMembers rs ms a = (a', cs, r)"
  shows "r = None \<and> agent_inv a' \<and> ms_ids (ag_members a') = m_ID ` set ms
    \<and> (\<forall>i \<in> m_ID ` set ms. ms_members (ag_members a') i =
         (if i \<in> ms_ids (ag_members a) then ms_members (ag_members a) i else ms_members (NewMemberSet ms) i))
    \<and> ag_activated a' = drop_host (m_Host ` left_members ms a) (ag_activated a)"
  by (rule handleMembers_view [OF assms])

definition example_agent :: "nat agent" where
  "example_agent = \<lparr>ag_members = NewMemberSet [\<lparr>m_ID = ''A'', m_Host = ''h1'', m_Region = [], m_Kinds = [''player'']\<rparr>,
       \<lparr>m_ID = ''B'', m_Host = ''h2'', m_Region = [], m_Kinds = [''room'']\<rparr>],
     ag_address = ''h1'', ag_requestTimeout = 1, ag_kinds = [''player'' \<mapsto> True, ''room'' \<mapsto> True],
     ag_localKinds = [''player'' \<mapsto> newKind ''player'' 7 ()],
     ag_activated = [''player/1'' \<mapsto> NewPID ''h1'' ''player/1'', ''room/1'' \<mapsto> NewPID ''h2'' ''room/1'']\<rparr>"

definition example_ids :: "string list" where
  "example_ids = [''A'', ''B'', ''C'', ''player/1'', ''room/1'', ''player'', ''room'']"

lemma example_agent_inv: "agent_inv example_agent"
  using NewMemberSet_inv by (auto simp: agent_inv_def example_agent_def split: if_splits)

lemma example_ranges: "ranges_ok (set example_ids) (list_ranges example_ids)"
  by (rule list_ranges_ok) (simp add: example_ids_def)

lemma example_bounds: "ms_ids (ag_members example_agent) \<union> dom (ag_activated example_agent) \<subseteq> set example_ids"
  unfolding example_agent_def by (simp add: example_ids_def)

theorem members_synced_witness:
  "\<exists>a' cs. handleMembers (list_ranges example_ids) [\<lparr>m_ID = ''A'', m_Host = ''h9'', m_Region = [], m_Kinds = []\<rparr>,
      \<lparr>m_ID = ''C'', m_Host = ''h3'', m_Region = [], m_Kinds = []\<rparr>] example_agent = (a', cs, None)
    \<and> ms_ids (ag_members a') = {''A'', ''C''}
    \<and> map_option m_Host (ms_members (ag_members a') ''A'') = Some ''h1'' \<and> ag_activated a' ''room/1'' = None"
proof -
  let ?ms = "[\<lparr>m_ID = ''A'', m_Host = ''h9'', m_Region = [], m_Kinds = []\<rparr>, \<lparr>m_ID = ''C'', m_Host = ''h3'', m_Region = [], m_Kinds = []\<rparr>]"
  let ?B = "\<lparr>m_ID = ''B'', m_Host = ''h2'', m_Region = [], m_Kinds = [''room'']\<rparr>"
  obtain a' cs r where h: "handleMembers (list_ranges example_ids) ?ms example_agent = (a', cs, r)" by (metis prod_cases3)
  have "ms_ids (ag_members example_agent) \<union> m_ID ` set ?ms \<union> dom (ag_activated example_agent) \<subseteq> set example_ids"
    using example_bounds by (simp add: example_ids_def)
  note t = members_synced [OF example_agent_inv example_ranges this h]
  have "?B \<in> left_members ?ms example_agent" by (simp add: left_members_def example_agent_def NewMemberSet_def)
  then have "m_Host ?B \<in> m_Host ` left_members ?ms example_agent" by (rule imageI)
  then have "ag_activated a' ''room/1'' = None" using t by (simp add: drop_host_def example_agent_def)
  moreover have "map_option m_Host (ms_members (ag_members a') ''A'') = Some ''h1''"
    using t by (simp add: example_agent_def NewMemberSet_def ms_ids_def)
  ultimately show ?thesis using t h by simp
qed

text \<open>
  What the agent announces when the members change: for every member that joined, once, the
  actors active so far (if there are any, in a message to that member alone) and then a
  \<open>MemberJoinEvent\<close>; afterwards for every member that left, once, a \<open>MemberLeaveEvent\<close>; and
  nothing else.
\<close>

theorem members_announced:
  assumes "agent_inv a" "ranges_ok U rs" "ms_ids (ag_members a) \<union> m_ID ` set ms \<union> dom (ag_activated a) \<subseteq> U"
    "handleMembers rs ms a = (a', cs, r)"
  shows "\<exists>joined left. r = None \<and> distinct (map m_ID joined) \<and> m_ID ` set joined = joined_ids ms a
    \<and> set joined \<subseteq> set ms \<and> distinct left \<and> set left = left_members ms a
    \<and> cs = concat (map (join_calls rs (ag_activated a)) joined) @ map (\<lambda>m. CBroadcast (User (MemberLeaveEvent m))) left
    \<and> (\<forall>m \<in> set joined. \<exists>pids. join_calls rs (ag_activated a) m =
         (if pids = [] then [] else [CSend (Some (member_PID m)) (User (ActorTopology (map Some pids)))]) @ [CBroadcast (User (MemberJoinEvent m))]
         \<and> set pids = ran (ag_activated a))"
proof -
  obtain joined left K where h: "distinct (map m_ID joined)"
    "set joined = {m. ms_members (NewMemberSet ms) (m_ID m) = Some m \<and> m_ID m \<in> joined_ids ms a}"
    "distinct (map m_ID left)" "set left = left_members ms a"
    "handleMembers rs ms a = (a\<lparr>ag_members := fold ms_Remove left (fold ms_Add joined (ag_members a)), ag_kinds := K,
        ag_activated := drop_host (m_Host ` left_members ms a) (ag_activated a)\<rparr>,
      concat (map (join_calls rs (ag_activated a)) joined) @ map (\<lambda>m. CBroadcast (User (MemberLeaveEvent m))) left, None)"
    using handleMembers_eq [OF assms(1-3)] .
  have "m_ID ` set joined = joined_ids ms a"
    unfolding h(2) using ms_ids_image [OF NewMemberSet_inv, of ms "\<lambda>i. i \<in> joined_ids ms a"] by (auto simp: joined_ids_def)
  moreover have "set joined \<subseteq> set ms" unfolding h(2) using index_members_Some by (fastforce simp: NewMemberSet_def)
  moreover have "\<exists>pids. join_calls rs (ag_activated a) m =
         (if pids = [] then [] else [CSend (Some (member_PID m)) (User (ActorTopology (map Some pids)))]) @ [CBroadcast (User (MemberJoinEvent m))]
         \<and> set pids = ran (ag_activated a)" for m
  proof -
    have "dom (ag_activated a) \<subseteq> U" using assms(3) by simp
    then show ?thesis
      using set_range_values [OF ranges_okD(2) [OF assms(2), of "ag_activated a" "SiteTopology (m_ID m)"]]
      by (intro exI [of _ "range_values (ag_activated a) (r_pids rs (SiteTopology (m_ID m)) (ag_activated a))"])
        (simp add: join_calls_def Let_def)
  qed
  moreover have "distinct left" using h(3) by (simp add: distinct_map)
  moreover have "r = None" "cs = concat (map (join_calls rs (ag_activated a)) joined) @ map (\<lambda>m. CBroadcast (User (MemberLeaveEvent m))) left"
    using h(5) assms(4) by auto
  ultimately show ?thesis using h(1,4) by blast
qed

theorem members_announced_witness:
  "\<exists>a' cs. handleMembers (list_ranges example_ids) [] example_agent = (a', cs, None) \<and> length cs = 2"
proof -
  obtain a' cs r where h: "handleMembers (list_ranges example_ids) [] example_agent = (a', cs, r)" by (metis prod_cases3)
  have b: "ms_ids (ag_members example_agent) \<union> m_ID ` set [] \<union> dom (ag_activated example_agent) \<subseteq> set example_ids"
    using example_bounds by simp
  have l: "left_members [] example_agent = {\<lparr>m_ID = ''A'', m_Host = ''h1'', m_Region = [], m_Kinds = [''player'']\<rparr>,
       \<lparr>m_ID = ''B'', m_Host = ''h2'', m_Region = [], m_Kinds = [''room'']\<rparr>}"
    by (auto simp: left_members_def example_agent_def NewMemberSet_def split: if_splits)
  obtain joined left where t: "r = None" "m_ID ` set joined = joined_ids [] example_agent" "distinct left" "set left = left_members [] example_agent"
    "cs = concat (map (join_calls (list_ranges example_ids) (ag_activated example_agent)) joined) @ map (\<lambda>m. CBroadcast (User (MemberLeaveEvent m))) left"
    using members_announced [OF example_agent_inv example_ranges b h] by metis
  have "joined = []" using t(2) by (simp add: joined_ids_def)
  moreover have "length left = 2" using distinct_card [OF t(3)] unfolding t(4) l by simp
  ultimately show ?thesis using h t(1,5) by simp
qed

end
