(* ===== verification/AgentActivation.thy ===== *)
theory AgentActivation
  imports Agent
begin

section \<open>Activations across the cluster\<close>

text \<open>
  What the agents of theory \<open>Agent\<close> promise about activated actors: when an activation
  succeeds and who is told, that views of the cluster converge when ids are unique, that a
  joining node learns the actors that are active, what the queries answer, and where the
  handlers panic.
\<close>

subsection \<open>Updates that commute\<close>

text \<open>
  Replicas that apply the same updates in different orders end in the same state when any two
  of the updates commute.
\<close>

locale commuting_updates =
  fixes upd :: "'op \<Rightarrow> 's \<Rightarrow> 's"
    and valid :: "'op \<Rightarrow> 'op \<Rightarrow> bool"
  assumes commute: "valid x y \<Longrightarrow> upd x (upd y s) = upd y (upd x s)"
begin

lemma converge:
  assumes "mset xs = mset ys" "\<forall>x \<in> set xs. \<forall>y \<in> set xs. valid x y"
  shows "fold upd xs s = fold upd ys s"
proof -
  have "upd x \<circ> upd y = upd y \<circ> upd x" if "x \<in> set xs" "y \<in> set xs" for x y
    using assms(2) that commute by (auto simp: fun_eq_iff)
  from fold_multiset_equiv [OF this assms(1)] show ?thesis by simp
qed

end

text \<open>The effect of an activation message on the map: the first PID of an id stays.\<close>

definition act_upd :: "pid \<Rightarrow> (string \<rightharpoonup> pid) \<Rightarrow> (string \<rightharpoonup> pid)" where
  "act_upd p act = (if act (ID p) = None then act(ID p \<mapsto> p) else act)"

interpretation activations: commuting_updates act_upd "\<lambda>p q. ID p = ID q \<longrightarrow> p = q"
  by unfold_locales (auto simp: act_upd_def fun_eq_iff)

lemma addActivated_eq: "addActivated (Some p) a = (a\<lparr>ag_activated := act_upd p (ag_activated a)\<rparr>, [], None)"
  by (simp add: addActivated_def act_upd_def)

lemma handleActorTopology_eq:
  "handleActorTopology (map Some ps) a = (a\<lparr>ag_activated := fold act_upd ps (ag_activated a)\<rparr>, [], None)"
  unfolding handleActorTopology_def
  by (induction ps arbitrary: a) (simp_all add: and_then_def addActivated_eq)

text \<open>An agent that receives a sequence of messages, each handled without a panic.\<close>

fun agent_run :: "ranges \<Rightarrow> cmsg list \<Rightarrow> 'p agent \<Rightarrow> 'p step_result" where
  "agent_run rs [] a = (a, [], None)"
| "agent_run rs (m # ms) a = and_then (agent_Receive rs 0 0 None (User m)) (agent_run rs ms) a"

lemma agent_run_activations:
  "agent_run rs (map (\<lambda>p. Activation (Some p)) ps) a =
     (a\<lparr>ag_activated := fold act_upd ps (ag_activated a)\<rparr>, map (\<lambda>p. CBroadcast (User (ActivationEvent (Some p)))) ps, None)"
  by (induction ps arbitrary: a) (simp_all add: and_then_def agent_Receive_def handleActivation_def addActivated_eq emit_def)

text \<open>
  The messages by which agents tell one another what is active: the PIDs such a message adds
  to a view, the id it removes, and what the agent that handles it does on its own node.
\<close>

fun view_msg :: "cmsg \<Rightarrow> bool" where
  "view_msg (Activation q) \<longleftrightarrow> q \<noteq> None"
| "view_msg (Deactivation q) \<longleftrightarrow> q \<noteq> None"
| "view_msg (ActorTopology qs) \<longleftrightarrow> None \<notin> set qs"
| "view_msg _ \<longleftrightarrow> False"

fun adds :: "cmsg \<Rightarrow> pid list" where
  "adds (Activation (Some p)) = [p]"
| "adds (ActorTopology qs) = List.map_filter id qs"
| "adds _ = []"

fun takes :: "cmsg \<Rightarrow> string option" where
  "takes (Deactivation (Some p)) = Some (ID p)"
| "takes _ = None"

fun announced :: "cmsg \<Rightarrow> 'p call list" where
  "announced (Activation q) = [CBroadcast (User (ActivationEvent q))]"
| "announced (Deactivation q) = [CPoison q, CBroadcast (User (DeactivationEvent q))]"
| "announced _ = []"

text \<open>The messages after the last one that removes the id.\<close>

definition since_removed :: "string \<Rightarrow> cmsg list \<Rightarrow> cmsg list" where
  "since_removed i ms = rev (takeWhile (\<lambda>c. takes c \<noteq> Some i) (rev ms))"

definition view_upd :: "cmsg \<Rightarrow> (string \<rightharpoonup> pid) \<Rightarrow> (string \<rightharpoonup> pid)" where
  "view_upd c act = (\<lambda>i. if takes c = Some i then None
     else case act i of Some p \<Rightarrow> Some p | None \<Rightarrow> find (\<lambda>p. ID p = i) (adds c))"

lemma fold_act_upd_find: "fold act_upd ps act = (\<lambda>i. case act i of Some p \<Rightarrow> Some p | None \<Rightarrow> find (\<lambda>p. ID p = i) ps)"
  by (induction ps arbitrary: act) (auto simp: act_upd_def fun_eq_iff split: option.split)

lemma map_Some_filter: "None \<notin> set qs \<Longrightarrow> qs = map Some (List.map_filter id qs)"
proof (induction qs)
  case (Cons q qs)
  then show ?case by (cases q) (simp_all add: List.map_filter_simps)
qed (simp add: List.map_filter_simps)

lemma view_msg_handled:
  assumes "view_msg c"
  shows "agent_Receive rs pick random reply (User c) a = (a\<lparr>ag_activated := view_upd c (ag_activated a)\<rparr>, announced c, None)"
proof (cases c)
  case (Activation q)
  then obtain p where q: "q = Some p" using assms by auto
  have "act_upd p act = view_upd c act" for act
    by (auto simp: act_upd_def view_upd_def Activation q fun_eq_iff split: option.split)
  then show ?thesis by (simp add: agent_Receive_def handleActivation_def and_then_def addActivated_eq emit_def Activation q)
next
  case (Deactivation q)
  then obtain p where q: "q = Some p" using assms by auto
  have "act(ID p := None) = view_upd c act" for act
    by (auto simp: view_upd_def Deactivation q fun_eq_iff split: option.split)
  then show ?thesis by (simp add: agent_Receive_def handleDeactivation_def and_then_def removeActivated_def emit_def Deactivation q)
next
  case (ActorTopology qs)
  then have "qs = map Some (List.map_filter id qs)" using assms map_Some_filter by simp
  moreover have "fold act_upd (List.map_filter id qs) act = view_upd c act" for act
    by (auto simp: fold_act_upd_find view_upd_def ActorTopology fun_eq_iff split: option.split)
  ultimately show ?thesis using handleActorTopology_eq [of "List.map_filter id qs" a]
    by (simp add: agent_Receive_def ActorTopology)
qed (use assms in simp_all)

lemma agent_run_view:
  "\<forall>c \<in> set ms. view_msg c \<Longrightarrow> agent_run rs ms a = (a\<lparr>ag_activated := fold view_upd ms (ag_activated a)\<rparr>, concat (map announced ms), None)"
  by (induction ms arbitrary: a) (simp_all add: and_then_def view_msg_handled)

lemma fold_view_upd:
  "fold view_upd ms act i = (case (if \<exists>c \<in> set ms. takes c = Some i then None else act i) of
     Some p \<Rightarrow> Some p | None \<Rightarrow> find (\<lambda>p. ID p = i) (concat (map adds (since_removed i ms))))"
proof (induction ms rule: rev_induct)
  case (snoc c ms)
  have f: "find P (xs @ ys) = (case find P xs of Some x \<Rightarrow> Some x | None \<Rightarrow> find P ys)" for P and xs ys :: "pid list"
    by (induction xs) auto
  show ?case
  proof (cases "takes c = Some i")
    case True
    then show ?thesis by (simp add: view_upd_def since_removed_def)
  next
    case False
    then have "since_removed i (ms @ [c]) = since_removed i ms @ [c]" by (simp add: since_removed_def)
    then show ?thesis using snoc False by (auto simp: view_upd_def f split: option.splits)
  qed
qed (simp add: since_removed_def split: option.split)

text \<open>
  C18. An agent's view is exactly what it was told. After any sequence of activations,
  deactivations and topologies, in any order and with any PIDs, the agent knows for an id: the
  PID it knew before, unless the id was deactivated meanwhile; else the first PID
  announced for the id since its last deactivation; else none. It tells its node of every
  activation and deactivation, in order, poisons every deactivated PID, and neither its members
  nor its kinds change. (The PIDs are not nil; a nil PID panics, as
  \<open>unregistered_activation_crashes\<close> shows.)
\<close>

theorem active_view_exact:
  assumes "\<forall>c \<in> set ms. view_msg c" "agent_run rs ms a = (a', cs, r)"
  shows "r = None \<and> ag_members a' = ag_members a \<and> ag_kinds a' = ag_kinds a \<and> cs = concat (map announced ms)
    \<and> (\<forall>i. ag_activated a' i = (case (if \<exists>c \<in> set ms. takes c = Some i then None else ag_activated a i) of
         Some p \<Rightarrow> Some p | None \<Rightarrow> find (\<lambda>p. ID p = i) (concat (map adds (since_removed i ms)))))"
  using agent_run_view [OF assms(1), of rs a] assms(2) fold_view_upd [of ms "ag_activated a"] by auto

theorem active_view_exact_witness:
  "\<exists>a' cs. agent_run (list_ranges example_ids) [Activation (Some (NewPID ''h1'' ''a/1'')), Activation (Some (NewPID ''h2'' ''a/1'')),
      Deactivation (Some (NewPID ''h2'' ''room/1'')), ActorTopology [Some (NewPID ''h3'' ''room/1'')]] example_agent = (a', cs, None)
     \<and> ag_activated a' ''a/1'' = Some (NewPID ''h1'' ''a/1'') \<and> ag_activated a' ''room/1'' = Some (NewPID ''h3'' ''room/1'')
     \<and> ag_activated a' ''player/1'' = Some (NewPID ''h1'' ''player/1'') \<and> length cs = 4"
proof -
  let ?ms = "[Activation (Some (NewPID ''h1'' ''a/1'')), Activation (Some (NewPID ''h2'' ''a/1'')),
      Deactivation (Some (NewPID ''h2'' ''room/1'')), ActorTopology [Some (NewPID ''h3'' ''room/1'')]]"
  obtain a' cs r where h: "agent_run (list_ranges example_ids) ?ms example_agent = (a', cs, r)" by (metis prod_cases3)
  have "\<forall>c \<in> set ?ms. view_msg c" by simp
  from active_view_exact [OF this h] show ?thesis
    using h by (simp add: since_removed_def example_agent_def List.map_filter_simps)
qed

text \<open>
  Views converge. If no two of the actors announced share an id, two agents that start with
  the same view and receive the same activation messages in any two orders end with the same
  view, in which every actor announced under a free id is found, and each announces every
  activation to its node once.
\<close>

theorem activation_views_converge:
  assumes "mset ps = mset qs" "\<forall>p \<in> set ps. \<forall>q \<in> set ps. ID p = ID q \<longrightarrow> p = q"
    "agent_run rs (map (\<lambda>p. Activation (Some p)) ps) a = (a', cs, r)"
    "agent_run rs' (map (\<lambda>p. Activation (Some p)) qs) b = (b', ds, r')" "ag_activated a = ag_activated b"
  shows "r = None \<and> r' = None \<and> ag_activated a' = ag_activated b' \<and> length cs = length ps \<and> length ds = length ps
    \<and> (\<forall>p \<in> set ps. ag_activated a (ID p) = None \<longrightarrow> ag_activated a' (ID p) = Some p)"
proof -
  have "ag_activated a' (ID p) = Some p" if "p \<in> set ps" "ag_activated a (ID p) = None" for p
  proof -
    have "find (\<lambda>q. ID q = ID p) ps \<noteq> None" using that(1) by (auto simp: find_None_iff)
    then obtain q where q: "find (\<lambda>q. ID q = ID p) ps = Some q" by blast
    then have "q = p" using that(1) assms(2) by (auto simp: find_Some_iff)
    then show ?thesis using that(2) assms(3) q by (auto simp: agent_run_activations fold_act_upd_find)
  qed
  then show ?thesis using activations.converge [OF assms(1,2), of "ag_activated a"] assms(3-5) mset_eq_length [OF assms(1)]
    by (auto simp: agent_run_activations)
qed

theorem activation_views_converge_witness:
  "\<exists>a' b'. agent_run (list_ranges example_ids) (map (\<lambda>p. Activation (Some p)) [NewPID ''h1'' ''a/1'', NewPID ''h2'' ''a/2'']) example_agent = a'
     \<and> agent_run (list_ranges example_ids) (map (\<lambda>p. Activation (Some p)) [NewPID ''h2'' ''a/2'', NewPID ''h1'' ''a/1'']) example_agent = b'
     \<and> ag_activated (fst a') = ag_activated (fst b')"
proof -
  let ?ps = "[NewPID ''h1'' ''a/1'', NewPID ''h2'' ''a/2'']" and ?qs = "[NewPID ''h2'' ''a/2'', NewPID ''h1'' ''a/1'']"
  obtain a' cs r where a: "agent_run (list_ranges example_ids) (map (\<lambda>p. Activation (Some p)) ?ps) example_agent = (a', cs, r)"
    by (metis prod_cases3)
  obtain b' ds r' where b: "agent_run (list_ranges example_ids) (map (\<lambda>p. Activation (Some p)) ?qs) example_agent = (b', ds, r')"
    by (metis prod_cases3)
  have "mset ?ps = mset ?qs" "\<forall>p \<in> set ?ps. \<forall>q \<in> set ?ps. ID p = ID q \<longrightarrow> p = q" by auto
  from activation_views_converge [OF this a b] show ?thesis using a b by auto
qed

subsection \<open>The topology a joining node receives\<close>

lemma fold_act_upd_lookup:
  assumes "distinct (map ID ps)"
  shows "fold act_upd ps act i = (case act i of Some p \<Rightarrow> Some p | None \<Rightarrow> map_of (map (\<lambda>p. (ID p, p)) ps) i)"
  using assms
proof (induction ps arbitrary: act)
  case (Cons p ps)
  have "map_of (map (\<lambda>p. (ID p, p)) ps) (ID p) = None"
    using Cons.prems by (auto simp: map_of_eq_None_iff image_iff)
  then show ?case using Cons by (auto simp: act_upd_def split: option.split)
qed (simp split: option.split)

lemma range_values_ids:
  assumes "\<forall>i p. act i = Some p \<longrightarrow> ID p = i" "range_order act ks"
  shows "map ID (range_values act ks) = ks"
  using assms range_orderD [OF assms(2)] by (auto simp: range_values_eq_map intro!: map_idI)

lemma map_of_range_values:
  assumes "\<forall>i p. act i = Some p \<longrightarrow> ID p = i" "range_order act ks"
  shows "map_of (map (\<lambda>p. (ID p, p)) (range_values act ks)) i = act i"
proof -
  let ?vs = "range_values act ks"
  have d: "distinct (map fst (map (\<lambda>p. (ID p, p)) ?vs))"
    using range_values_ids [OF assms] range_orderD(1) [OF assms(2)] by (simp add: comp_def)
  show ?thesis
  proof (cases "act i")
    case None
    then have "i \<notin> set (map ID ?vs)" using range_values_ids [OF assms] range_orderD(2) [OF assms(2)] by auto
    then show ?thesis using None by (auto simp: map_of_eq_None_iff image_iff)
  next
    case (Some p)
    then have "p \<in> set ?vs" "ID p = i" using set_range_values [OF assms(2)] assms(1) by (auto intro: ranI)
    then show ?thesis using Some map_of_is_SomeI [OF d, of i p] by auto
  qed
qed

text \<open>
  A joining node catches up. The topology message that an agent sends to a new member
  carries its whole view: a node that knows of no active actor has, after handling it, exactly
  the sender's view, whatever order the sender's map was ranged in; a node that knows some
  keeps its own entries where the two differ.
\<close>

theorem topology_transfers:
  assumes "agent_inv a" "range_order (ag_activated a) ks"
    "handleActorTopology (map Some (range_values (ag_activated a) ks)) b = (b', cs, r)"
  shows "r = None \<and> cs = [] \<and> (\<forall>i. ag_activated b' i = (case ag_activated b i of Some p \<Rightarrow> Some p | None \<Rightarrow> ag_activated a i))"
proof -
  have i: "\<forall>i p. ag_activated a i = Some p \<longrightarrow> ID p = i" using assms(1) by (simp add: agent_inv_def)
  have "distinct (map ID (range_values (ag_activated a) ks))"
    using range_values_ids [OF i assms(2)] range_orderD(1) [OF assms(2)] by simp
  then show ?thesis
    using assms(3) fold_act_upd_lookup map_of_range_values [OF i assms(2)]
    by (auto simp: handleActorTopology_eq split: option.split)
qed

theorem topology_transfers_witness:
  "\<exists>b' cs r. handleActorTopology (map Some (range_values (ag_activated example_agent) [''room/1'', ''player/1'']))
      (example_agent\<lparr>ag_activated := Map.empty\<rparr>) = (b', cs, r) \<and> ag_activated b' = ag_activated example_agent"
proof -
  have o: "range_order (ag_activated example_agent) [''room/1'', ''player/1'']"
    by (auto simp: range_order_def example_agent_def)
  obtain b' cs r where h: "handleActorTopology (map Some (range_values (ag_activated example_agent) [''room/1'', ''player/1'']))
      (example_agent\<lparr>ag_activated := Map.empty\<rparr>) = (b', cs, r)" by (metis prod_cases3)
  from topology_transfers [OF example_agent_inv o h] show ?thesis using h by (auto simp: fun_eq_iff)
qed

text \<open>The messages that a list of calls sends to a PID.\<close>

definition sent_to :: "pid \<Rightarrow> 'p call list \<Rightarrow> cmsg msg list" where
  "sent_to q cs = List.map_filter (\<lambda>c. case c of CSend (Some q') m \<Rightarrow> if q' = q then Some m else None | _ \<Rightarrow> None) cs"

lemma sent_to_append [simp]: "sent_to q (xs @ ys) = sent_to q xs @ sent_to q ys"
  by (simp add: sent_to_def List.map_filter_def)

lemma sent_to_Nil [simp]: "sent_to q [] = []"
  by (simp add: sent_to_def List.map_filter_simps)

lemma sent_to_leaves [simp]: "sent_to q (map (\<lambda>m. CBroadcast (User (MemberLeaveEvent m))) xs) = []"
  by (induction xs) (simp_all add: sent_to_def List.map_filter_simps)

lemma sent_to_join:
  "sent_to q (join_calls rs act m) = (let pids = map Some (range_values act (r_pids rs (SiteTopology (m_ID m)) act)) in
     if member_PID m = q \<and> pids \<noteq> [] then [User (ActorTopology pids)] else [])"
  by (simp add: join_calls_def sent_to_def List.map_filter_simps Let_def)

lemma sent_to_others: "m_ID y \<notin> m_ID ` set zs \<Longrightarrow> sent_to (member_PID y) (concat (map (join_calls rs act) zs)) = []"
  by (induction zs) (auto simp: sent_to_join member_PID_def Let_def)

lemma sent_to_joins:
  assumes "m \<in> set joined" "distinct (map m_ID joined)"
  shows "sent_to (member_PID m) (concat (map (join_calls rs act) joined) :: 'p call list) = sent_to (member_PID m) (join_calls rs act m :: 'p call list)"
  using assms
proof (induction joined)
  case (Cons x xs)
  show ?case
  proof (cases "m = x")
    case True
    then show ?thesis using sent_to_others [of x xs] Cons.prems(2) by simp
  next
    case False
    then have "m_ID x \<noteq> m_ID m" using Cons.prems by (auto simp: image_iff)
    then have "sent_to (member_PID m) (join_calls rs act x) = []" by (auto simp: sent_to_join member_PID_def)
    then show ?thesis using Cons False by simp
  qed
qed simp

text \<open>
  C19. A joining node catches up. When the provider reports a member the agent does not know,
  the agent sends it the actors active so far in one message, if there are any, and nothing
  else; and the agent of that member, whatever it knew, then knows every one of them:
  it keeps the PIDs it had, and for every other id it has the sender's, in whatever orders
  the maps were ranged. The actors are those known before the report, also those on members
  that the same report drops.
\<close>

theorem joining_node_catches_up:
  fixes b :: "'q agent"
  assumes "agent_inv a" "ranges_ok U rs" "ms_ids (ag_members a) \<union> m_ID ` set ms \<union> dom (ag_activated a) \<subseteq> U"
    "agent_Receive rs pick random reply (User (Members ms)) a = (a', cs, r)"
    "ms_members (NewMemberSet ms) (m_ID m) = Some m" "m_ID m \<notin> ms_ids (ag_members a)"
  shows "if ag_activated a = Map.empty then sent_to (member_PID m) cs = []
    else \<exists>actors b'. sent_to (member_PID m) cs = [User (ActorTopology actors)]
      \<and> agent_Receive rs' pick' random' reply' (User (ActorTopology actors)) b = (b', [], None)
      \<and> (\<forall>i. ag_activated b' i = (case ag_activated b i of Some p \<Rightarrow> Some p | None \<Rightarrow> ag_activated a i))"
proof -
  let ?ks = "r_pids rs (SiteTopology (m_ID m)) (ag_activated a)"
  let ?pids = "range_values (ag_activated a) ?ks"
  obtain joined left K where h: "distinct (map m_ID joined)"
    "set joined = {m. ms_members (NewMemberSet ms) (m_ID m) = Some m \<and> m_ID m \<in> joined_ids ms a}"
    "distinct (map m_ID left)" "set left = left_members ms a"
    "handleMembers rs ms a = (a\<lparr>ag_members := fold ms_Remove left (fold ms_Add joined (ag_members a)), ag_kinds := K,
        ag_activated := drop_host (m_Host ` left_members ms a) (ag_activated a)\<rparr>,
      concat (map (join_calls rs (ag_activated a)) joined) @ map (\<lambda>m. CBroadcast (User (MemberLeaveEvent m))) left, None)"
    using handleMembers_eq [OF assms(1-3)] .
  have "m_ID m \<in> m_ID ` set ms" using assms(5) ms_ids_simps(1) [of ms] by (auto simp: ms_ids_def)
  then have j: "m \<in> set joined" using assms(5,6) h(2) by (auto simp: joined_ids_def)
  have s: "sent_to (member_PID m) cs = (if ?pids \<noteq> [] then [User (ActorTopology (map Some ?pids))] else [])"
    using assms(4) h(5) sent_to_joins [OF j h(1), of rs "ag_activated a"] by (auto simp: agent_Receive_def sent_to_join Let_def)
  have o: "range_order (ag_activated a) ?ks" using ranges_okD(2) [OF assms(2)] assms(3) by simp
  have "?pids = [] \<longleftrightarrow> ag_activated a = Map.empty"
  proof
    assume "?pids = []"
    then have "ran (ag_activated a) = {}" using set_range_values [OF o] by simp
    then have "ag_activated a i = None" for i by (cases "ag_activated a i") (auto simp: ran_def)
    then show "ag_activated a = Map.empty" by (rule ext)
  next
    assume "ag_activated a = Map.empty"
    then have "set ?pids = {}" using set_range_values [OF o] by simp
    then show "?pids = []" by simp
  qed
  moreover have "\<exists>b'. agent_Receive rs' pick' random' reply' (User (ActorTopology (map Some ?pids))) b = (b', [], None)
      \<and> (\<forall>i. ag_activated b' i = (case ag_activated b i of Some p \<Rightarrow> Some p | None \<Rightarrow> ag_activated a i))"
  proof -
    have i: "\<forall>i p. ag_activated a i = Some p \<longrightarrow> ID p = i" using assms(1) by (simp add: agent_inv_def)
    have "distinct (map ID ?pids)" using range_values_ids [OF i o] range_orderD(1) [OF o] by simp
    then show ?thesis using fold_act_upd_lookup map_of_range_values [OF i o]
      by (auto simp: agent_Receive_def handleActorTopology_eq split: option.split)
  qed
  ultimately show ?thesis using s by (cases "ag_activated a = Map.empty") auto
qed

theorem joining_node_catches_up_witness:
  "\<exists>a' cs actors b'. agent_Receive (list_ranges example_ids) 0 0 None (User (Members [\<lparr>m_ID = ''C'', m_Host = ''h3'', m_Region = [], m_Kinds = []\<rparr>])) example_agent
      = (a', cs, None) \<and> sent_to (NewPID ''h3'' ''cluster/C'') cs = [User (ActorTopology actors)]
    \<and> agent_Receive (list_ranges example_ids) 0 0 None (User (ActorTopology actors)) (example_agent\<lparr>ag_activated := Map.empty\<rparr>) = (b', [], None)
    \<and> ag_activated b' = ag_activated example_agent"
proof -
  let ?m = "\<lparr>m_ID = ''C'', m_Host = ''h3'', m_Region = [], m_Kinds = []\<rparr>"
  obtain a' cs r where h: "agent_Receive (list_ranges example_ids) 0 0 None (User (Members [?m])) example_agent = (a', cs, r)" by (metis prod_cases3)
  have b: "ms_ids (ag_members example_agent) \<union> m_ID ` set [?m] \<union> dom (ag_activated example_agent) \<subseteq> set example_ids"
    using example_bounds by (simp add: example_ids_def)
  have "ms_members (NewMemberSet [?m]) (m_ID ?m) = Some ?m" "m_ID ?m \<notin> ms_ids (ag_members example_agent)"
    by (simp_all add: NewMemberSet_def example_agent_def ms_ids_def)
  note t = joining_node_catches_up [OF example_agent_inv example_ranges b h this, of "list_ranges example_ids" 0 0 None "example_agent\<lparr>ag_activated := Map.empty\<rparr>"]
  have "r = None" using handleMembers_view [OF example_agent_inv example_ranges b] h by (simp add: agent_Receive_def)
  moreover have "ag_activated example_agent \<noteq> Map.empty" by (simp add: example_agent_def)
  moreover have "member_PID ?m = NewPID ''h3'' ''cluster/C''" by (simp add: member_PID_def)
  ultimately obtain actors b' where "sent_to (NewPID ''h3'' ''cluster/C'') cs = [User (ActorTopology actors)]"
    "agent_Receive (list_ranges example_ids) 0 0 None (User (ActorTopology actors)) (example_agent\<lparr>ag_activated := Map.empty\<rparr>) = (b', [], None)"
    "\<forall>i. ag_activated b' i = ag_activated example_agent i" "r = None"
    using t by auto
  then show ?thesis using h by (auto simp: fun_eq_iff)
qed

subsection \<open>Activating an actor\<close>

abbreviation tell :: "pid option \<Rightarrow> member list \<Rightarrow> 'p call list" where
  "tell q told \<equiv> map (\<lambda>m. CSend (Some (member_PID m)) (User (Activation q))) told"

lemma fold_snoc: "fold (\<lambda>x cs. cs @ [f x]) xs cs = cs @ map f xs"
  by (induction xs arbitrary: cs) auto

lemma bcast_eq:
  "bcast rs m a = (a, map (\<lambda>mem. CSend (Some (member_PID mem)) (User m))
     (ms_visit (r_members rs SiteBcast (ms_members (ag_members a))) (ag_members a)), None)"
  by (simp add: bcast_def ms_ForEach_def each_while_all fold_snoc emit_def)

text \<open>Whom a broadcast reaches: every member once.\<close>

definition everyone :: "member list \<Rightarrow> 'p agent \<Rightarrow> bool" where
  "everyone told a \<longleftrightarrow> distinct (map m_ID told) \<and> set told = ran (ms_members (ag_members a))"

lemma bcast_everyone:
  assumes "agent_inv a" "ranges_ok U rs" "ms_ids (ag_members a) \<subseteq> U"
  shows "everyone (ms_visit (r_members rs site (ms_members (ag_members a))) (ag_members a)) a"
proof -
  have i: "ms_inv (ag_members a)" using assms(1) by (simp add: agent_inv_def)
  have "range_order (ms_members (ag_members a)) (r_members rs site (ms_members (ag_members a)))"
    using ranges_okD(1) [OF assms(2)] assms(3) by (simp add: ms_ids_def)
  then show ?thesis using ms_visit_ids [OF i] ms_visit_set range_orderD(1) by (simp add: everyone_def)
qed

lemma filter_none:
  assumes "agent_inv a" "ranges_ok U rs" "ms_ids (ag_members a) \<subseteq> U"
  shows "ms_FilterByKind (r_members rs site (ms_members (ag_members a))) kind (ag_members a) = []
     \<longleftrightarrow> (\<forall>m \<in> ran (ms_members (ag_members a)). kind \<notin> set (m_Kinds m))"
  using bcast_everyone [OF assms] by (auto simp: ms_FilterByKind_def filter_empty_conv everyone_def)

text \<open>
  The call of a successful activation on the member \<open>m\<close>: the spawn, if that is this node, or the
  request to the agent of that member.
\<close>

definition activation_call :: "'p agent \<Rightarrow> member \<Rightarrow> nat \<Rightarrow> cmsg msg option \<Rightarrow> string \<Rightarrow> string \<Rightarrow> pid option \<Rightarrow> 'p call \<Rightarrow> bool" where
  "activation_call a m random reply kind i q c \<longleftrightarrow>
     (if m_Host m = ag_address a
      then \<exists>k. ag_localKinds a kind = Some k \<and> c = CSpawn (kind_producer k) kind i random \<and> q = Some (spawn_pid (ag_address a) kind i random)
      else (\<exists>h. reply = Some (User (ActivationResponse q True h))) \<and>
        c = CRequest (Some (member_PID m)) (User (ActivationRequest kind i [] 0)) (ag_requestTimeout a))"

text \<open>The member chosen for an activation, if it gets that far.\<close>

definition chosen :: "ranges \<Rightarrow> nat \<Rightarrow> string \<Rightarrow> activation_config \<Rightarrow> 'p agent \<Rightarrow> member option" where
  "chosen rs pick kind cfg a =
     (let members = ms_FilterByKind (r_members rs SiteFilter (ms_members (ag_members a))) kind (ag_members a) in
      if ag_activated a (kind @ ''/'' @ ac_id cfg) \<noteq> None \<or> members = [] then None
      else (case ac_selectMember cfg of None \<Rightarrow> SelectRandomMember pick | Some f \<Rightarrow> f)
             \<lparr>ad_Region = ac_region cfg, ad_Members = members, ad_Kind = kind\<rparr>)"

lemma activate_refused: "chosen rs pick kind cfg a = None \<Longrightarrow> agent_activate rs pick random reply kind cfg a = (None, a, [], None)"
  by (auto simp: chosen_def agent_activate_def Let_def split: if_splits)

lemma activate_local:
  assumes "chosen rs pick kind cfg a = Some m" "m_Host m = ag_address a"
  shows "agent_activate rs pick random reply kind cfg a =
    (case ag_localKinds a kind of
       None \<Rightarrow> (None, bcast rs (Activation None) a)
     | Some k \<Rightarrow> (let q = Some (spawn_pid (ag_address a) kind (ac_id cfg) random) in
         (q, a, CSpawn (kind_producer k) kind (ac_id cfg) random # fst (snd (bcast rs (Activation q) a)), None)))"
  using assms by (auto simp: chosen_def agent_activate_def Let_def handleActivationRequest_def bcast_eq split: if_splits option.split)

lemma activate_remote:
  assumes "chosen rs pick kind cfg a = Some m" "m_Host m \<noteq> ag_address a"
  defines "req \<equiv> CRequest (Some (member_PID m)) (User (ActivationRequest kind (ac_id cfg) [] 0)) (ag_requestTimeout a)"
  shows "(\<exists>q h. reply = Some (User (ActivationResponse q True h)) \<and>
      agent_activate rs pick random reply kind cfg a = (q, a, req # fst (snd (bcast rs (Activation q) a)), None))
    \<or> agent_activate rs pick random reply kind cfg a = (None, a, [req], None)"
proof -
  have e: "agent_activate rs pick random reply kind cfg a =
    (case reply of Some (User (ActivationResponse q success h)) \<Rightarrow>
        if success then (q, and_then (emit [req]) (bcast rs (Activation q)) a) else (None, a, [req], None)
     | _ \<Rightarrow> (None, a, [req], None))"
    using assms by (auto simp: chosen_def agent_activate_def Let_def member_PID_def split: if_splits)
  show ?thesis
  proof (cases "\<exists>q h. reply = Some (User (ActivationResponse q True h))")
    case True
    then show ?thesis by (auto simp: e bcast_eq)
  next
    case False
    then show ?thesis by (auto simp: e split: option.split msg.split cmsg.split)
  qed
qed

text \<open>The default selection takes one of the members that have the kind.\<close>

lemma chosen_offers:
  assumes "agent_inv a" "ranges_ok U rs" "ms_ids (ag_members a) \<subseteq> U" "chosen rs pick kind cfg a = Some m" "ac_selectMember cfg = None"
  shows "m \<in> ran (ms_members (ag_members a)) \<and> kind \<in> set (m_Kinds m)"
proof -
  let ?ms = "ms_FilterByKind (r_members rs SiteFilter (ms_members (ag_members a))) kind (ag_members a)"
  have "?ms \<noteq> []" "m \<in> set ?ms"
    using assms(4,5) by (auto simp: chosen_def Let_def SelectRandomMember_def split: if_splits)
  then show ?thesis using bcast_everyone [OF assms(1-3), of SiteFilter] by (auto simp: ms_FilterByKind_def everyone_def)
qed

text \<open>
  C16. What \<open>Activate\<close> promises. The agent itself is unchanged; the call is refused without any
  effect when the agent knows an actor with that id or no member it knows has the kind.
  When it returns a PID, the id was free in this agent's view, and the member that the
  selection function returned decides: if it is at this node's address, exactly one engine
  call made the actor, a local spawn of a registered kind (the PID is then this node's PID for
  the id); if not, exactly one request, to the agent of that member, was answered with success.
  With the default selection that member is one that offers the kind. And every
  member of the view, this node included, is sent the new PID exactly once.
\<close>

theorem activate_outcome:
  assumes "agent_inv a" "ranges_ok U rs" "ms_ids (ag_members a) \<subseteq> U"
    "agent_activate rs pick random reply kind cfg a = (q, a', cs, r)"
  shows "r = None \<and> a' = a
    \<and> (ag_activated a (kind @ ''/'' @ ac_id cfg) \<noteq> None \<longrightarrow> q = None \<and> cs = [])
    \<and> ((\<forall>m \<in> ran (ms_members (ag_members a)). kind \<notin> set (m_Kinds m)) \<longrightarrow> q = None \<and> cs = [])
    \<and> (q \<noteq> None \<longrightarrow> (\<exists>m c told. chosen rs pick kind cfg a = Some m
         \<and> (ac_selectMember cfg = None \<longrightarrow> m \<in> ran (ms_members (ag_members a)) \<and> kind \<in> set (m_Kinds m))
         \<and> activation_call a m random reply kind (ac_id cfg) q c \<and> cs = c # tell q told \<and> everyone told a))"
proof (cases "chosen rs pick kind cfg a")
  case None
  then show ?thesis using activate_refused assms(4) by (metis option.distinct(1) prod.inject)
next
  case (Some m)
  have c: "ag_activated a (kind @ ''/'' @ ac_id cfg) = None" "\<not> (\<forall>m \<in> ran (ms_members (ag_members a)). kind \<notin> set (m_Kinds m))"
    using Some filter_none [OF assms(1-3), of SiteFilter kind] by (auto simp: chosen_def Let_def split: if_splits)
  note e = bcast_everyone [OF assms(1-3), of SiteBcast]
  have "r = None \<and> a' = a \<and> (q \<noteq> None \<longrightarrow> (\<exists>c told. activation_call a m random reply kind (ac_id cfg) q c \<and> cs = c # tell q told \<and> everyone told a))"
  proof (cases "m_Host m = ag_address a")
    case True
    show ?thesis using assms(4) e activate_local [OF Some True, of random reply] True
      by (cases "ag_localKinds a kind") (auto simp: bcast_eq activation_call_def Let_def)
  next
    case False
    show ?thesis using activate_remote [OF Some False, of reply random] assms(4) e False
      by (auto simp: bcast_eq activation_call_def)
  qed
  then show ?thesis using c Some chosen_offers [OF assms(1-3) Some] by auto
qed

theorem activate_outcome_witness:
  "\<exists>cs told. agent_activate (list_ranges example_ids) 0 0 None ''player'' (ac_WithID ''2'' (NewActivationConfig 0 0)) example_agent
      = (Some (NewPID ''h1'' ''player/2''), example_agent, cs, None)
    \<and> cs = CSpawn 7 ''player'' ''2'' 0 # tell (Some (NewPID ''h1'' ''player/2'')) told \<and> everyone told example_agent"
proof -
  let ?cfg = "ac_WithID ''2'' (NewActivationConfig 0 0)"
  obtain q a' cs r where h: "agent_activate (list_ranges example_ids) 0 0 None ''player'' ?cfg example_agent = (q, a', cs, r)"
    by (metis prod_cases4)
  have "ms_FilterByKind (r_members (list_ranges example_ids) SiteFilter (ms_members (ag_members example_agent))) ''player'' (ag_members example_agent)
      = [\<lparr>m_ID = ''A'', m_Host = ''h1'', m_Region = [], m_Kinds = [''player'']\<rparr>]"
    by (simp add: ms_FilterByKind_def ms_visit_def range_values_def List.map_filter_simps list_ranges_def example_ids_def
        example_agent_def NewMemberSet_def member_HasKind_def del: member_HasKind_iff)
  then have q: "q = Some (NewPID ''h1'' ''player/2'')"
    using h by (simp add: agent_activate_def Let_def ac_WithID_def NewActivationConfig_def SelectRandomMember_def
        example_agent_def handleActivationRequest_def newKind_def spawn_pid_def pidSeparator_def bcast_eq)
  have "ms_ids (ag_members example_agent) \<subseteq> set example_ids" using example_bounds by simp
  from activate_outcome [OF example_agent_inv example_ranges this h] q
  show ?thesis using h by (auto simp: activation_call_def example_agent_def newKind_def ac_WithID_def split: if_splits)
qed

subsection \<open>Activations that go wrong\<close>

text \<open>
  An activation that lands on this node for a kind it has not registered (the member chosen
  has this node's address but other kinds, as after a restart under a new id, or comes from the
  caller's own selection function) returns nil, but the failed answer is not checked: a nil PID
  is broadcast to every member, and an agent that handles it panics on a nil pointer.
\<close>

theorem unregistered_activation_crashes:
  assumes "agent_inv a" "ranges_ok U rs" "ms_ids (ag_members a) \<subseteq> U"
    "chosen rs pick kind cfg a = Some m" "m_Host m = ag_address a" "ag_localKinds a kind = None"
  shows "\<exists>told. agent_activate rs pick random reply kind cfg a = (None, a, tell None told, None) \<and> everyone told a \<and> told \<noteq> []
    \<and> (\<forall>b :: 'p agent. agent_Receive rs pick random reply (User (Activation None)) b = (b, [], Some NilDeref))"
proof -
  let ?told = "ms_visit (r_members rs SiteBcast (ms_members (ag_members a))) (ag_members a)"
  have e: "everyone ?told a" by (rule bcast_everyone [OF assms(1-3)])
  have "\<exists>x. x \<in> ran (ms_members (ag_members a))"
    using assms(4) filter_none [OF assms(1-3), of SiteFilter kind] by (auto simp: chosen_def Let_def split: if_splits)
  then have "?told \<noteq> []" using e by (auto simp: everyone_def)
  moreover have "agent_Receive rs pick random reply (User (Activation None)) b = (b, [], Some NilDeref)" for b :: "'p agent"
    by (simp add: agent_Receive_def handleActivation_def addActivated_def and_then_def)
  ultimately show ?thesis using e activate_local [OF assms(4,5), of random reply] assms(6) by (auto simp: bcast_eq)
qed

definition stale_agent :: "nat agent" where
  "stale_agent = example_agent\<lparr>ag_localKinds := Map.empty\<rparr>"

theorem unregistered_activation_crashes_witness:
  "\<exists>told. agent_activate (list_ranges example_ids) 0 0 None ''player'' (ac_WithID ''2'' (NewActivationConfig 0 0)) stale_agent
     = (None, stale_agent, tell None told, None) \<and> told \<noteq> []"
proof -
  let ?A = "\<lparr>m_ID = ''A'', m_Host = ''h1'', m_Region = [], m_Kinds = [''player'']\<rparr>"
  have i: "agent_inv stale_agent" using example_agent_inv by (simp add: stale_agent_def agent_inv_def)
  have b: "ms_ids (ag_members stale_agent) \<subseteq> set example_ids" using example_bounds by (simp add: stale_agent_def)
  have c: "chosen (list_ranges example_ids) 0 ''player'' (ac_WithID ''2'' (NewActivationConfig 0 0)) stale_agent = Some ?A"
    by (simp add: chosen_def Let_def ms_FilterByKind_def ms_visit_def range_values_def List.map_filter_simps list_ranges_def example_ids_def
        stale_agent_def example_agent_def NewMemberSet_def ac_WithID_def NewActivationConfig_def SelectRandomMember_def)
  have "m_Host ?A = ag_address stale_agent" "ag_localKinds stale_agent ''player'' = None"
    by (simp_all add: stale_agent_def example_agent_def)
  from unregistered_activation_crashes [OF i example_ranges b c this] show ?thesis by blast
qed

text \<open>
  The check for duplicates is against the agent's own view only. Two nodes that activate the
  same kind and id before either hears of the other both succeed: two actors with the same id
  run on two nodes, and since each agent handles its own announcement first, their views of the
  cluster differ for good, each keeping its own.
\<close>

theorem concurrent_activation_diverges:
  fixes a b :: "'p agent"
  assumes "chosen rs pick kind cfg a = Some m" "m_Host m = ag_address a" "ag_localKinds a kind = Some k"
    "chosen rs' pick' kind cfg b = Some n" "m_Host n = ag_address b" "ag_localKinds b kind = Some l"
    "ag_address a \<noteq> ag_address b" "ac_id cfg \<noteq> []"
  shows "\<exists>p q cs ds a' b' xs ys. agent_activate rs pick random reply kind cfg a = (Some p, a, cs, None)
     \<and> agent_activate rs' pick' random' reply' kind cfg b = (Some q, b, ds, None) \<and> ID p = ID q \<and> p \<noteq> q
     \<and> agent_run rs [Activation (Some p), Activation (Some q)] a = (a', xs, None) \<and> ag_activated a' (ID p) = Some p
     \<and> agent_run rs' [Activation (Some q), Activation (Some p)] b = (b', ys, None) \<and> ag_activated b' (ID p) = Some q"
proof -
  let ?i = "kind @ ''/'' @ ac_id cfg"
  let ?p = "NewPID (ag_address a) ?i" and ?q = "NewPID (ag_address b) ?i"
  have f: "ag_activated a ?i = None" "ag_activated b ?i = None"
    using assms(1,4) by (auto simp: chosen_def Let_def split: if_splits)
  have "agent_activate rs pick random reply kind cfg a = (Some ?p, a, CSpawn (kind_producer k) kind (ac_id cfg) random #
      fst (snd (bcast rs (Activation (Some ?p)) a)), None)"
    using activate_local [OF assms(1,2), of random reply] assms(3,8) by (simp add: spawn_pid_def pidSeparator_def Let_def)
  moreover have "agent_activate rs' pick' random' reply' kind cfg b = (Some ?q, b, CSpawn (kind_producer l) kind (ac_id cfg) random' #
      fst (snd (bcast rs' (Activation (Some ?q)) b)), None)"
    using activate_local [OF assms(4,5), of random' reply'] assms(6,8) by (simp add: spawn_pid_def pidSeparator_def Let_def)
  moreover have "agent_run rs [Activation (Some ?p), Activation (Some ?q)] a
      = (a\<lparr>ag_activated := (ag_activated a)(?i \<mapsto> ?p)\<rparr>, map (\<lambda>p. CBroadcast (User (ActivationEvent (Some p)))) [?p, ?q], None)"
    using agent_run_activations [of rs "[?p, ?q]" a] f by (simp add: act_upd_def)
  moreover have "agent_run rs' [Activation (Some ?q), Activation (Some ?p)] b
      = (b\<lparr>ag_activated := (ag_activated b)(?i \<mapsto> ?q)\<rparr>, map (\<lambda>p. CBroadcast (User (ActivationEvent (Some p)))) [?q, ?p], None)"
    using agent_run_activations [of rs' "[?q, ?p]" b] f by (simp add: act_upd_def)
  ultimately show ?thesis using assms(7)
    by (intro exI [of _ ?p] exI [of _ ?q]) simp
qed

definition other_agent :: "nat agent" where
  "other_agent = example_agent\<lparr>ag_members := NewMemberSet [\<lparr>m_ID = ''B'', m_Host = ''h2'', m_Region = [], m_Kinds = [''player'']\<rparr>],
     ag_address := ''h2''\<rparr>"

theorem concurrent_activation_diverges_witness:
  "\<exists>cfg p q cs ds. agent_activate (list_ranges example_ids) 0 0 None ''player'' cfg example_agent = (Some p, example_agent, cs, None)
     \<and> agent_activate (list_ranges example_ids) 0 0 None ''player'' cfg other_agent = (Some q, other_agent, ds, None) \<and> ID p = ID q \<and> p \<noteq> q"
proof -
  let ?cfg = "ac_WithID ''2'' (NewActivationConfig 0 0)"
  let ?A = "\<lparr>m_ID = ''A'', m_Host = ''h1'', m_Region = [], m_Kinds = [''player'']\<rparr>"
  let ?B = "\<lparr>m_ID = ''B'', m_Host = ''h2'', m_Region = [], m_Kinds = [''player'']\<rparr>"
  note ev = chosen_def Let_def ms_FilterByKind_def ms_visit_def range_values_def List.map_filter_simps list_ranges_def example_ids_def
    example_agent_def NewMemberSet_def ac_WithID_def NewActivationConfig_def SelectRandomMember_def
  have "chosen (list_ranges example_ids) 0 ''player'' ?cfg example_agent = Some ?A"
    "chosen (list_ranges example_ids) 0 ''player'' ?cfg other_agent = Some ?B"
    by (simp_all add: ev other_agent_def)
  moreover have "m_Host ?A = ag_address example_agent" "m_Host ?B = ag_address other_agent" "ag_address example_agent \<noteq> ag_address other_agent"
    "ag_localKinds example_agent ''player'' = Some (newKind ''player'' 7 ())" "ag_localKinds other_agent ''player'' = Some (newKind ''player'' 7 ())"
    "ac_id ?cfg \<noteq> []" by (simp_all add: other_agent_def example_agent_def ac_WithID_def)
  ultimately show ?thesis
    using concurrent_activation_diverges [of "list_ranges example_ids" 0 "''player''" ?cfg example_agent ?A "newKind ''player'' 7 ()"
        "list_ranges example_ids" 0 other_agent ?B "newKind ''player'' 7 ()" 0 None 0 None] by metis
qed

subsection \<open>The kinds of the cluster\<close>

text \<open>
  The kinds the agent offers. After every report of members it offers all kinds of the
  members it knows. When somebody left, it offers exactly those; otherwise also the ones it
  offered before. So a node that has lost members and is not itself in the list reported no
  longer offers its own kinds.
\<close>

theorem kinds_follow_members:
  assumes "agent_inv a" "ranges_ok U rs" "ms_ids (ag_members a) \<union> m_ID ` set ms \<union> dom (ag_activated a) \<subseteq> U"
    "kinds_of (ag_members a) \<subseteq> dom (ag_kinds a)" "handleMembers rs ms a = (a', cs, r)"
  shows "kinds_of (ag_members a') \<subseteq> dom (ag_kinds a')
    \<and> dom (ag_kinds a') = (if left_members ms a = {} then dom (ag_kinds a) \<union> kinds_of (ag_members a') else kinds_of (ag_members a'))"
proof -
  have i: "ms_inv (ag_members a)" using assms(1) by (simp add: agent_inv_def)
  obtain joined left K where h: "distinct (map m_ID joined)"
    "set joined = {m. ms_members (NewMemberSet ms) (m_ID m) = Some m \<and> m_ID m \<in> joined_ids ms a}"
    "distinct (map m_ID left)" "set left = left_members ms a"
    "handleMembers rs ms a = (a\<lparr>ag_members := fold ms_Remove left (fold ms_Add joined (ag_members a)), ag_kinds := K,
        ag_activated := drop_host (m_Host ` left_members ms a) (ag_activated a)\<rparr>,
      concat (map (join_calls rs (ag_activated a)) joined) @ map (\<lambda>m. CBroadcast (User (MemberLeaveEvent m))) left, None)"
    "dom K = (if left = [] then dom (ag_kinds a) \<union> (\<Union>m \<in> set joined. set (m_Kinds m))
        else kinds_of (fold ms_Remove left (fold ms_Add joined (ag_members a))))"
    using handleMembers_eq [OF assms(1-3)] .
  have a': "ag_members a' = fold ms_Remove left (fold ms_Add joined (ag_members a))" "ag_kinds a' = K" using h(5) assms(5) by auto
  show ?thesis
  proof (cases "left = []")
    case True
    let ?s = "fold ms_Add joined (ag_members a)"
    have "ran (ms_members ?s) \<subseteq> ran (ms_members (ag_members a)) \<union> set joined"
    proof
      fix m assume m: "m \<in> ran (ms_members ?s)"
      then have "ms_members ?s (m_ID m) = Some m" using ms_ran [OF fold_ms_Add(1) [OF i]] by blast
      then show "m \<in> ran (ms_members (ag_members a)) \<union> set joined"
        using fold_ms_Add(3) [OF i, of "m_ID m" joined] fold_ms_Add(4) [OF i h(1)] by (force intro: ranI)
    qed
    moreover have "set joined \<subseteq> ran (ms_members ?s)" using fold_ms_Add(4) [OF i h(1)] by (auto intro: ranI)
    ultimately show ?thesis using True h(4,6) a' assms(4) by (force simp: kinds_of_def)
  next
    case False
    then show ?thesis using h(4,6) a' by auto
  qed
qed

theorem kinds_follow_members_witness:
  "\<exists>a' cs r. handleMembers (list_ranges example_ids) [] example_agent = (a', cs, r) \<and> dom (ag_kinds a') = kinds_of (ag_members a')"
proof -
  obtain a' cs r where h: "handleMembers (list_ranges example_ids) [] example_agent = (a', cs, r)" by (metis prod_cases3)
  have b: "ms_ids (ag_members example_agent) \<union> m_ID ` set [] \<union> dom (ag_activated example_agent) \<subseteq> set example_ids"
    using example_bounds by simp
  have k: "kinds_of (ag_members example_agent) \<subseteq> dom (ag_kinds example_agent)"
    by (auto simp: kinds_of_def example_agent_def NewMemberSet_def ran_def split: if_splits)
  have "\<lparr>m_ID = ''A'', m_Host = ''h1'', m_Region = [], m_Kinds = [''player'']\<rparr> \<in> left_members [] example_agent"
    by (simp add: left_members_def example_agent_def NewMemberSet_def)
  then have "left_members [] example_agent \<noteq> {}" by blast
  then show ?thesis using kinds_follow_members [OF example_agent_inv example_ranges b k h] h by auto
qed

subsection \<open>The invariant is kept\<close>

lemma act_upd_inv: "\<forall>i p. act i = Some p \<longrightarrow> ID p = i \<Longrightarrow> finite (dom act) \<Longrightarrow>
    (\<forall>i q. act_upd p act i = Some q \<longrightarrow> ID q = i) \<and> finite (dom (act_upd p act))"
  by (simp add: act_upd_def)

lemma agent_inv_activated:
  "agent_inv (a\<lparr>ag_activated := act\<rparr>) \<longleftrightarrow> ms_inv (ag_members a) \<and> finite (dom act) \<and> (\<forall>i p. act i = Some p \<longrightarrow> ID p = i)"
  by (simp add: agent_inv_def)

lemma addActivated_inv: "agent_inv a \<Longrightarrow> agent_inv (fst (addActivated q a))"
proof (cases q)
  case (Some p)
  assume i: "agent_inv a"
  then have "ms_inv (ag_members a)" "(\<forall>i q. act_upd p (ag_activated a) i = Some q \<longrightarrow> ID q = i) \<and> finite (dom (act_upd p (ag_activated a)))"
    unfolding agent_inv_def using act_upd_inv [of "ag_activated a" p] by blast+
  then show ?thesis unfolding Some addActivated_eq fst_conv agent_inv_activated by blast
qed (simp add: addActivated_def)

lemma removeActivated_inv: "agent_inv a \<Longrightarrow> agent_inv (fst (removeActivated q a))"
  by (cases q) (auto simp: removeActivated_def agent_inv_def)

lemma and_then_inv:
  assumes "agent_inv (fst (f a))" "\<And>a. agent_inv a \<Longrightarrow> agent_inv (fst (g a))"
  shows "agent_inv (fst (and_then f g a))"
proof -
  obtain a1 cs r where f: "f a = (a1, cs, r)" by (metis prod_cases3)
  show ?thesis using assms(1) assms(2) [of a1] f by (cases r) (simp_all add: and_then_def case_prod_beta)
qed

lemma each_step_inv: "(\<And>x a. agent_inv a \<Longrightarrow> agent_inv (fst (f x a))) \<Longrightarrow> agent_inv a \<Longrightarrow> agent_inv (fst (each_step f xs a))"
  by (induction xs arbitrary: a) (auto intro: and_then_inv)

lemmas agent_inv_steps = addActivated_inv removeActivated_inv and_then_inv each_step_inv

lemma activate_same: "fst (snd (agent_activate rs pick random reply kind cfg a)) = a"
proof (cases "chosen rs pick kind cfg a")
  case (Some m)
  then show ?thesis
    using activate_local [OF Some, of random reply] activate_remote [OF Some, of reply random]
    by (cases "m_Host m = ag_address a") (auto simp: bcast_eq Let_def split: option.splits)
qed (simp add: activate_refused)

lemma activate_sameD: "agent_activate rs pick random reply kind cfg a = (q, a', cs, r) \<Longrightarrow> a' = a"
  using activate_same [of rs pick random reply kind cfg a] by simp

text \<open>
  The agent's state stays well formed whatever message it handles, whether the handler
  returns or panics: its members are stored under their own ids, every active PID under its own
  id, and both maps are finite.
\<close>

theorem agent_wellformed:
  assumes "agent_inv a" "ranges_ok U rs" "ms_ids (ag_members a) \<union> dom (ag_activated a) \<subseteq> U"
    "\<forall>ms. m = User (Members ms) \<longrightarrow> m_ID ` set ms \<subseteq> U"
  shows "agent_inv (fst (agent_Receive rs pick random reply m a))"
proof (cases "\<exists>ms. m = User (Members ms)")
  case True
  then obtain ms where m: "m = User (Members ms)" by blast
  obtain a' cs r where h: "handleMembers rs ms a = (a', cs, r)" by (metis prod_cases3)
  have "ms_ids (ag_members a) \<union> m_ID ` set ms \<union> dom (ag_activated a) \<subseteq> U" using assms(3,4) m by simp
  from handleMembers_view [OF assms(1,2) this h] show ?thesis using h m by (simp add: agent_Receive_def)
next
  case False
  have e: "agent_inv b \<Longrightarrow> agent_inv (fst (emit cs b))" for b :: "'a agent" and cs by (simp add: emit_def)
  show ?thesis
  proof (cases m)
    case (User c)
    then show ?thesis using assms(1) False e
      by (cases c) (auto simp: agent_Receive_def handleActorTopology_def handleActivation_def handleDeactivation_def bcast_eq handleGetActive_def
          intro!: agent_inv_steps dest!: activate_sameD split: prod.split)
  qed (simp_all add: agent_Receive_def emit_def assms(1))
qed

theorem agent_wellformed_witness:
  "agent_inv (fst (agent_Receive (list_ranges example_ids) 0 0 None (User (Deactivation (Some (NewPID ''h2'' ''room/1'')))) example_agent))"
  by (rule agent_wellformed [OF example_agent_inv example_ranges example_bounds]) simp

end
