(* ===== verification/Cluster.thy ===== *)
theory Cluster
  imports AgentActivation
begin

section \<open>The cluster node (cluster/cluster.go)\<close>

text \<open>
  The methods of \<open>Cluster\<close> run on the engine of the node. Those that ask the agent send a
  request and wait for the response; what the other goroutines do to the engine meanwhile is the
  argument \<open>env\<close> (the agent handling the request among them), so the answer is whatever \<open>Result\<close>
  finds in the response. \<open>serve\<close> is the environment in which just the agent runs.
\<close>

definition ask :: "(cmsg engine \<Rightarrow> cmsg engine) \<Rightarrow> cmsg \<Rightarrow> ('p, 'v) cluster \<Rightarrow> cmsg engine \<Rightarrow> cmsg msg option \<times> send_out \<times> cmsg engine" where
  "ask env m c e =
     (case Request (cl_agentPID c) (User m) (requestTimeout (cl_config c)) e of
        (h, SDone, e1) \<Rightarrow> (case Result h (env e1) of (v, e2) \<Rightarrow> (v, SDone, e2))
      | (h, r, e1) \<Rightarrow> (None, r, e1))"

definition cluster_Start :: "('u, cmsg, 'x) opts \<Rightarrow> ('w, cmsg, 'y) opts \<Rightarrow> nat \<Rightarrow> nat \<Rightarrow> ('p, 'v) cluster \<Rightarrow> cmsg engine \<Rightarrow>
    send_out \<times> ('p, 'v) cluster \<times> cmsg engine" where
  "cluster_Start agentOpts providerOpts random random' c e =
     (case Spawn ''cluster'' [WithID (cfg_id (cl_config c))] random agentOpts e of
        (q, SDone, e1) \<Rightarrow>
          (case Spawn ''provider'' [WithID (cfg_id (cl_config c))] random' providerOpts e1 of
             (q', SDone, e2) \<Rightarrow> (SDone, c\<lparr>cl_agentPID := Some q, cl_providerPID := Some q', cl_isStarted := True\<rparr>, e2)
           | (q', r, e2) \<Rightarrow> (r, c\<lparr>cl_agentPID := Some q\<rparr>, e2))
      | (q, r, e1) \<Rightarrow> (r, c, e1))"

text \<open>\<open><-ctx.Done()\<close>: after what the others did, the context is cancelled or the caller waits for good.\<close>

definition wait_done :: "(cmsg engine \<Rightarrow> cmsg engine) \<Rightarrow> nat \<Rightarrow> cmsg engine \<Rightarrow> send_out \<times> cmsg engine" where
  "wait_done env ctx e = (let e1 = env e in if ctx \<in> e_cancelled e1 then (SDone, e1) else (SBlocked, e1))"

definition cluster_Stop :: "(cmsg engine \<Rightarrow> cmsg engine) \<Rightarrow> (cmsg engine \<Rightarrow> cmsg engine) \<Rightarrow> ('p, 'v) cluster \<Rightarrow> cmsg engine \<Rightarrow>
    send_out \<times> cmsg engine" where
  "cluster_Stop env env' c e =
     (case Poison (cl_agentPID c) e of
        (ctx, SDone, e1) \<Rightarrow>
          (case wait_done env ctx e1 of
             (SDone, e2) \<Rightarrow>
               (case Poison (cl_providerPID c) e2 of
                  (ctx', SDone, e3) \<Rightarrow> wait_done env' ctx' e3
                | (ctx', r, e3) \<Rightarrow> (r, e3))
           | (r, e2) \<Rightarrow> (r, e2))
      | (ctx, r, e1) \<Rightarrow> (r, e1))"

definition cluster_Activate :: "(cmsg engine \<Rightarrow> cmsg engine) \<Rightarrow> string \<Rightarrow> activation_config \<Rightarrow> ('p, 'v) cluster \<Rightarrow> cmsg engine \<Rightarrow>
    pid option \<times> send_out \<times> cmsg engine" where
  "cluster_Activate env kind cfg c e =
     (case ask env (ReqActivate kind cfg) c e of
        (v, r, e1) \<Rightarrow> (case v of Some (User (RepPid q)) \<Rightarrow> q | _ \<Rightarrow> None, r, e1))"

definition cluster_Deactivate :: "pid option \<Rightarrow> ('p, 'v) cluster \<Rightarrow> cmsg engine \<Rightarrow> send_out \<times> cmsg engine" where
  "cluster_Deactivate q c e = eng_Send (cl_agentPID c) (User (ReqDeactivate q)) e"

definition cluster_Members :: "(cmsg engine \<Rightarrow> cmsg engine) \<Rightarrow> ('p, 'v) cluster \<Rightarrow> cmsg engine \<Rightarrow> member list \<times> send_out \<times> cmsg engine" where
  "cluster_Members env c e =
     (case ask env GetMembers c e of (v, r, e1) \<Rightarrow> (case v of Some (User (RepMembers ms)) \<Rightarrow> ms | _ \<Rightarrow> [], r, e1))"

definition cluster_HasKind :: "(cmsg engine \<Rightarrow> cmsg engine) \<Rightarrow> string \<Rightarrow> ('p, 'v) cluster \<Rightarrow> cmsg engine \<Rightarrow> bool \<times> send_out \<times> cmsg engine" where
  "cluster_HasKind env name c e =
     (case ask env GetKinds c e of
        (v, r, e1) \<Rightarrow> (case v of Some (User (RepStrings ks)) \<Rightarrow> List.member ks name | _ \<Rightarrow> False, r, e1))"

definition GetActiveByKind :: "(cmsg engine \<Rightarrow> cmsg engine) \<Rightarrow> string \<Rightarrow> ('p, 'v) cluster \<Rightarrow> cmsg engine \<Rightarrow>
    pid option list \<times> send_out \<times> cmsg engine" where
  "GetActiveByKind env kind c e =
     (case ask env (GetActive [] kind) c e of
        (v, r, e1) \<Rightarrow> (case v of Some (User (RepPids ps)) \<Rightarrow> if length ps = 0 then [None] else ps | _ \<Rightarrow> [None], r, e1))"

definition GetActiveByID :: "(cmsg engine \<Rightarrow> cmsg engine) \<Rightarrow> string \<Rightarrow> ('p, 'v) cluster \<Rightarrow> cmsg engine \<Rightarrow> pid option \<times> send_out \<times> cmsg engine" where
  "GetActiveByID env i c e =
     (case ask env (GetActive i []) c e of (v, r, e1) \<Rightarrow> (case v of Some (User (RepPid q)) \<Rightarrow> q | _ \<Rightarrow> None, r, e1))"

fun send_each :: "(member \<Rightarrow> pid option \<times> cmsg msg) \<Rightarrow> member list \<Rightarrow> cmsg engine \<Rightarrow> send_out \<times> cmsg engine" where
  "send_each f [] e = (SDone, e)"
| "send_each f (m # ms) e = (case f m of (q, x) \<Rightarrow> (case eng_Send q x e of (SDone, e') \<Rightarrow> send_each f ms e' | r \<Rightarrow> r))"

definition cluster_Spawn :: "(cmsg engine \<Rightarrow> cmsg engine) \<Rightarrow> string \<Rightarrow> (('u, cmsg, 'x) opts \<Rightarrow> ('u, cmsg, 'x) opts) list \<Rightarrow> nat \<Rightarrow>
    ('u, cmsg, 'x) opts \<Rightarrow> ('p, 'v) cluster \<Rightarrow> cmsg engine \<Rightarrow> pid \<times> send_out \<times> cmsg engine" where
  "cluster_Spawn env i fs random op c e =
     (case Spawn i fs random op e of
        (q, SDone, e1) \<Rightarrow>
          (case cluster_Members env c e1 of
             (ms, SDone, e2) \<Rightarrow> (q, send_each (\<lambda>m. (Some (member_PID m), User (Activation (Some q)))) ms e2)
           | (ms, r, e2) \<Rightarrow> (q, r, e2))
      | (q, r, e1) \<Rightarrow> (q, r, e1))"

subsection \<open>The agent as the environment\<close>

text \<open>The agent \<open>a\<close>, an actor process at handle \<open>g\<close>, handles the newest message of its inbox.\<close>

definition serve :: "ranges \<Rightarrow> ('p \<Rightarrow> ('u, cmsg, 'x) opts) \<Rightarrow> nat \<Rightarrow> 'p agent \<Rightarrow> cmsg engine \<Rightarrow> cmsg engine" where
  "serve rs mk g a e = (case e_heap e g of
      ProcObj p mb \<Rightarrow> snd (run_calls mk (Sender (last mb)) (fst (snd (agent_Receive rs 0 0 None (Msg (last mb)) a))) e)
    | _ \<Rightarrow> e)"

text \<open>The node is up: its event stream is in place and its agent is registered under its PID.\<close>

definition node_up :: "('p, 'v) cluster \<Rightarrow> nat \<Rightarrow> cmsg engine \<Rightarrow> bool" where
  "node_up c g e \<longleftrightarrow> eng_inv e \<and> (\<exists>es h. stream_ok es h e) \<and> (\<exists>p x mb. cl_agentPID c = Some p \<and> Address p = e_address e
     \<and> reg_lookup (e_Registry e) (ID p) = Some g \<and> e_heap e g = ProcObj x mb \<and> ID p \<noteq> ID (response_pid e))
     \<and> reg_lookup (e_Registry e) (ID (response_pid e)) = None"

lemma ask_served:
  assumes "node_up c g e" "agent_Receive rs 0 0 None (User m) a = (a', [CRespond v], None)"
  shows "\<exists>e'. ask (serve rs mk g a) m c e = (Some v, SDone, e')"
proof -
  obtain es h p x mb where n: "eng_inv e" "stream_ok es h e" "cl_agentPID c = Some p" "Address p = e_address e"
    "reg_lookup (e_Registry e) (ID p) = Some g" "e_heap e g = ProcObj x mb" "ID p \<noteq> ID (response_pid e)"
    "reg_lookup (e_Registry e) (ID (response_pid e)) = None"
    using assms(1) by (auto simp: node_up_def)
  obtain k r e1 where q: "Request (Some p) (User m) (requestTimeout (cl_config c)) e = (k, r, e1)" by (metis prod_cases3)
  note hd = Request_handed [OF n(1,2,4,5,6) q]
  have "reg_getByID (ID (response_pid e)) (e_Registry e) = None" "\<forall>q. Some p = Some q \<longrightarrow> ID q \<noteq> ID (response_pid e)"
    using n(7,8) by (auto simp: reg_getByID_def)
  note aw = Request_awaiting [OF n(1,2) this q]
  obtain e2 where e2: "eng_Send (Some (response_pid e)) v e1 = (SDone, e2)" "awaiting k (response_pid e) (Some v) e2"
    using reply_awaiting(1) [OF aw(2,1)] by blast
  have s: "serve rs mk g a e1 = e2" using hd(2) assms(2) e2(1) by (simp add: serve_def run_call_def)
  obtain e3 where "Result k e2 = (Some v, e3)" using Result_awaiting [OF e2(2)] by blast
  then show ?thesis using q n(3) hd(1) s by (simp add: ask_def)
qed

lemma split_slash_nonempty [simp]: "split_slash s \<noteq> []"
  by (induction s) (auto split: list.split)

lemma split_slash_hd: "split_slash s ! 0 = takeWhile (\<lambda>c. c \<noteq> CHR ''/'') s"
proof (induction s)
  case (Cons c s)
  then show ?case by (cases "split_slash s") auto
qed simp

text \<open>The kind of an actor is the part of its id before the first separator.\<close>

definition kind_part :: "string \<Rightarrow> string" where
  "kind_part i = takeWhile (\<lambda>c. c \<noteq> CHR ''/'') i"

lemma active_of_kind_eq:
  "active_of_kind kind m ks = map Some (range_values m (filter (\<lambda>i. kind_part i = kind) ks))"
  by (induction ks) (auto simp: range_values_def List.map_filter_simps split_slash_hd kind_part_def split: option.split)

subsection \<open>Starting the node\<close>

lemma Spawn_eq:
  fixes op :: "('u, cmsg, 'x) opts"
  shows "Spawn kind [WithID i] random op e = SpawnProc (ProcObj (spawn_pid (e_address e) kind i random) []) e"
  by (simp add: Spawn_def spawn_pid_def spawn_opts_def WithID_def Let_def)

lemma Spawn_free:
  fixes op :: "('u, cmsg, 'x) opts"
  assumes "eng_inv e" "stream_ok es h e" "reg_lookup (e_Registry e) (ID (spawn_pid (e_address e) kind i random)) = None"
  obtains e' where "Spawn kind [WithID i] random op e = (spawn_pid (e_address e) kind i random, SDone, e')" "eng_inv e'" "stream_ok es h e'"
    "e_address e' = e_address e" "e_responseSeq e' = e_responseSeq e"
    "reg_lookup (e_Registry e') = (reg_lookup (e_Registry e))(ID (spawn_pid (e_address e) kind i random) \<mapsto> e_size e)"
    "e_heap e' (e_size e) = ProcObj (spawn_pid (e_address e) kind i random) []" "\<forall>g < e_size e. e_heap e' g = e_heap e g" "e_size e' = Suc (e_size e)"
proof -
  let ?p = "ProcObj (spawn_pid (e_address e) kind i random) [] :: cmsg processer"
  have hk: "h < e_size e" using assms(1,2) by (auto simp: eng_inv_def stream_ok_def)
  note f = SpawnProc_free [of e ?p, OF assms(1)]
  obtain q r e' where e': "SpawnProc ?p e = (q, r, e')" by (metis prod_cases3)
  have "eng_inv e'" using SpawnProc_inv [OF assms(1), of ?p] e' by simp
  moreover have "stream_ok es h e'" using assms(2,3) hk f e' by (auto simp: stream_ok_def)
  ultimately show ?thesis using that f e' assms(3) by (simp add: Spawn_eq)
qed

lemma Start_eq:
  fixes ao :: "('u, cmsg, 'x) opts" and po :: "('w, cmsg, 'y) opts"
  assumes "eng_inv e" "stream_ok es h e" "e_address e = cl_address c" "cfg_id (cl_config c) \<noteq> []"
    "reg_lookup (e_Registry e) (ID (member_PID (cluster_Member c))) = None"
    "reg_lookup (e_Registry e) (ID (memberToProviderPID (cluster_Member c))) = None"
  obtains e' where "cluster_Start ao po random random' c e = (SDone, c\<lparr>cl_agentPID := Some (member_PID (cluster_Member c)),
      cl_providerPID := Some (memberToProviderPID (cluster_Member c)), cl_isStarted := True\<rparr>, e')" "eng_inv e'" "stream_ok es h e'"
    "e_address e' = e_address e" "e_responseSeq e' = e_responseSeq e"
    "reg_lookup (e_Registry e') = (reg_lookup (e_Registry e))(ID (member_PID (cluster_Member c)) \<mapsto> e_size e,
       ID (memberToProviderPID (cluster_Member c)) \<mapsto> Suc (e_size e))"
    "e_heap e' (e_size e) = ProcObj (member_PID (cluster_Member c)) []"
    "e_heap e' (Suc (e_size e)) = ProcObj (memberToProviderPID (cluster_Member c)) []" "\<forall>g < e_size e. e_heap e' g = e_heap e g"
proof -
  let ?i = "cfg_id (cl_config c)" and ?m = "cluster_Member c"
  have p: "spawn_pid (e_address e) ''cluster'' ?i random = member_PID ?m" "spawn_pid (e_address e) ''provider'' ?i random' = memberToProviderPID ?m"
    using assms(3,4) by (simp_all add: spawn_pid_def member_PID_def memberToProviderPID_def cluster_Member_def pidSeparator_def)
  obtain e1 where e1: "Spawn ''cluster'' [WithID ?i] random ao e = (member_PID ?m, SDone, e1)" "eng_inv e1" "stream_ok es h e1"
    "e_address e1 = e_address e" "e_responseSeq e1 = e_responseSeq e"
    "reg_lookup (e_Registry e1) = (reg_lookup (e_Registry e))(ID (member_PID ?m) \<mapsto> e_size e)"
    "e_heap e1 (e_size e) = ProcObj (member_PID ?m) []" "e_size e1 = Suc (e_size e)" "\<forall>g < e_size e. e_heap e1 g = e_heap e g"
    using Spawn_free [OF assms(1,2), of "''cluster''" ?i random ao] assms(5) p(1) by metis
  have "reg_lookup (e_Registry e1) (ID (spawn_pid (e_address e1) ''provider'' ?i random')) = None"
    using e1(4,6) assms(6) p(2) by (simp add: member_PID_def memberToProviderPID_def)
  then obtain e2 where "Spawn ''provider'' [WithID ?i] random' po e1 = (memberToProviderPID ?m, SDone, e2)" "eng_inv e2" "stream_ok es h e2"
    "e_address e2 = e_address e1" "e_responseSeq e2 = e_responseSeq e1"
    "reg_lookup (e_Registry e2) = (reg_lookup (e_Registry e1))(ID (memberToProviderPID ?m) \<mapsto> e_size e1)"
    "e_heap e2 (e_size e1) = ProcObj (memberToProviderPID ?m) []" "\<forall>g < e_size e1. e_heap e2 g = e_heap e1 g"
    using Spawn_free [OF e1(2,3), of "''provider''" ?i random' po] p(2) e1(4) by metis
  then show ?thesis using that e1 by (simp add: cluster_Start_def)
qed

text \<open>
  A started node can be reached where the others look for it. After \<open>Start\<close> on an engine
  where the two names are free, the agent and the provider are registered under exactly the
  PIDs that other nodes compute from the member record this node announces, so a message sent
  to \<open>member.PID()\<close> on this engine is put into the agent's inbox, and one for the provider
  into the provider's. From then on \<open>RegisterKind\<close> changes nothing.
\<close>

theorem start_reachable:
  fixes ao :: "('u, cmsg, 'x) opts" and po :: "('w, cmsg, 'y) opts" and c :: "('p, 'v) cluster"
  assumes "eng_inv e" "stream_ok es h e" "e_address e = cl_address c" "cfg_id (cl_config c) \<noteq> []"
    "reg_lookup (e_Registry e) (ID (member_PID (cluster_Member c))) = None"
    "reg_lookup (e_Registry e) (ID (memberToProviderPID (cluster_Member c))) = None"
    "cluster_Start ao po random random' c e = (r, c', e')"
  shows "r = SDone \<and> cluster_Member c' = cluster_Member c \<and> cl_agentPID c' = Some (member_PID (cluster_Member c'))
    \<and> cl_providerPID c' = Some (memberToProviderPID (cluster_Member c')) \<and> RegisterKind k p cfg c' = c'
    \<and> (\<exists>e1. eng_Send (Some (member_PID (cluster_Member c'))) m e' = (SDone, e1)
        \<and> e_heap e1 (e_size e) = ProcObj (member_PID (cluster_Member c')) [\<lparr>Msg = m, Sender = None\<rparr>])
    \<and> (\<exists>e1. eng_Send (Some (memberToProviderPID (cluster_Member c'))) m e' = (SDone, e1)
        \<and> e_heap e1 (Suc (e_size e)) = ProcObj (memberToProviderPID (cluster_Member c')) [\<lparr>Msg = m, Sender = None\<rparr>])"
proof -
  let ?m = "cluster_Member c"
  obtain e1 where s: "cluster_Start ao po random random' c e = (SDone, c\<lparr>cl_agentPID := Some (member_PID ?m),
      cl_providerPID := Some (memberToProviderPID ?m), cl_isStarted := True\<rparr>, e1)" "eng_inv e1" "stream_ok es h e1"
    "e_address e1 = e_address e" "e_responseSeq e1 = e_responseSeq e"
    "reg_lookup (e_Registry e1) = (reg_lookup (e_Registry e))(ID (member_PID ?m) \<mapsto> e_size e, ID (memberToProviderPID ?m) \<mapsto> Suc (e_size e))"
    "e_heap e1 (e_size e) = ProcObj (member_PID ?m) []" "e_heap e1 (Suc (e_size e)) = ProcObj (memberToProviderPID ?m) []"
    by (rule Start_eq [OF assms(1-6), of ao po random random'])
  have c': "c' = c\<lparr>cl_agentPID := Some (member_PID ?m), cl_providerPID := Some (memberToProviderPID ?m), cl_isStarted := True\<rparr>" "e' = e1" "r = SDone"
    using s(1) assms(7) by auto
  have a: "Address (member_PID ?m) = e_address e1" "Address (memberToProviderPID ?m) = e_address e1"
    "ID (member_PID ?m) \<noteq> ID (memberToProviderPID ?m)"
    using s(4) assms(3) by (simp_all add: member_PID_def memberToProviderPID_def cluster_Member_def)
  have "eng_Send (Some (member_PID ?m)) m e1 = proc_send (e_size e) (Some (member_PID ?m)) m None e1"
    "eng_Send (Some (memberToProviderPID ?m)) m e1 = proc_send (Suc (e_size e)) (Some (memberToProviderPID ?m)) m None e1"
    using SendWithSender_arrives [OF s(3)] a s(6)
    by (simp_all add: eng_Send_def SendWithSender_def route_def arrive_def reg_get_def)
  then show ?thesis using c' s(7,8) by (simp add: proc_send_def cluster_Member_def RegisterKind_def)
qed

text \<open>
  C17. The queries of a running node answer from its agent's view. With only the agent running
  meanwhile, the request reaches it and its answer comes back: \<open>Members\<close> lists every member
  once, \<open>HasKind\<close> tells whether the kind is offered, \<open>GetActiveByID\<close> returns the PID active
  under a non-empty id, and \<open>GetActiveByKind\<close> for a non-empty kind returns the PIDs whose id
  begins with that kind, or a single nil if there is none.
\<close>

theorem queries_answered:
  fixes a :: "'p agent" and mk :: "'p \<Rightarrow> ('u, cmsg, 'x) opts"
  assumes "node_up c g e" "agent_inv a" "ranges_ok U rs" "ms_ids (ag_members a) \<union> dom (ag_activated a) \<union> dom (ag_kinds a) \<subseteq> U"
    "i \<noteq> []" "kind \<noteq> []"
  shows "(\<exists>ms e'. cluster_Members (serve rs mk g a) c e = (ms, SDone, e') \<and> everyone ms a)
    \<and> (\<exists>e'. cluster_HasKind (serve rs mk g a) kind c e = (kind \<in> dom (ag_kinds a), SDone, e'))
    \<and> (\<exists>e'. GetActiveByID (serve rs mk g a) i c e = (ag_activated a i, SDone, e'))
    \<and> (\<exists>ps e'. GetActiveByKind (serve rs mk g a) kind c e = (if ps = [] then [None] else map Some ps, SDone, e')
         \<and> set ps = {p. ag_activated a (ID p) = Some p \<and> kind_part (ID p) = kind})"
proof (intro conjI)
  let ?ms = "ms_Slice (r_members rs SiteSlice (ms_members (ag_members a))) (ag_members a)"
  have U: "ms_ids (ag_members a) \<subseteq> U" "dom (ag_activated a) \<subseteq> U" "dom (ag_kinds a) \<subseteq> U" using assms(4) by auto
  note rk = ask_served [OF assms(1), where rs = rs and mk = mk and a = a]
  show "\<exists>ms e'. cluster_Members (serve rs mk g a) c e = (ms, SDone, e') \<and> everyone ms a"
    using rk [of GetMembers a "User (RepMembers ?ms)"] bcast_everyone [OF assms(2,3) U(1), of SiteSlice]
    by (auto simp: cluster_Members_def agent_Receive_def emit_def ms_Slice_def)
  have "set (r_kinds rs (ag_kinds a)) = dom (ag_kinds a)" using range_orderD(2) [OF ranges_okD(3) [OF assms(3) U(3)]] .
  then show "\<exists>e'. cluster_HasKind (serve rs mk g a) kind c e = (kind \<in> dom (ag_kinds a), SDone, e')"
    using rk [of GetKinds a "User (RepStrings (r_kinds rs (ag_kinds a)))"]
    by (auto simp: cluster_HasKind_def agent_Receive_def emit_def)
  show "\<exists>e'. GetActiveByID (serve rs mk g a) i c e = (ag_activated a i, SDone, e')"
    using rk [of "GetActive i []" a "User (RepPid (ag_activated a i))"] assms(5)
    by (auto simp: GetActiveByID_def agent_Receive_def handleGetActive_def)
  let ?o = "r_pids rs SiteGet (ag_activated a)"
  let ?ps = "range_values (ag_activated a) (filter (\<lambda>i. kind_part i = kind) ?o)"
  have o: "set ?o = dom (ag_activated a)" using range_orderD(2) [OF ranges_okD(2) [OF assms(3) U(2)]] .
  have "set ?ps = {p. ag_activated a (ID p) = Some p \<and> kind_part (ID p) = kind}"
  proof -
    have "set ?ps = (\<lambda>k. the (ag_activated a k)) ` {i \<in> dom (ag_activated a). kind_part i = kind}"
      using o by (subst range_values_eq_map) auto
    moreover have "p \<in> (\<lambda>k. the (ag_activated a k)) ` {i \<in> dom (ag_activated a). kind_part i = kind}
        \<longleftrightarrow> ag_activated a (ID p) = Some p \<and> kind_part (ID p) = kind" for p
    proof
      assume "p \<in> (\<lambda>k. the (ag_activated a k)) ` {i \<in> dom (ag_activated a). kind_part i = kind}"
      then obtain i where "ag_activated a i = Some p" "kind_part i = kind" by auto
      moreover from this have "ID p = i" using assms(2) by (simp add: agent_inv_def)
      ultimately show "ag_activated a (ID p) = Some p \<and> kind_part (ID p) = kind" by simp
    qed (auto intro!: image_eqI [of _ _ "ID p"])
    ultimately show ?thesis by blast
  qed
  then show "\<exists>ps e'. GetActiveByKind (serve rs mk g a) kind c e = (if ps = [] then [None] else map Some ps, SDone, e')
         \<and> set ps = {p. ag_activated a (ID p) = Some p \<and> kind_part (ID p) = kind}"
    using rk [of "GetActive [] kind" a "User (RepPids (map Some ?ps))"] assms(6)
    by (intro exI [of _ ?ps]) (auto simp: GetActiveByKind_def agent_Receive_def handleGetActive_def active_of_kind_eq)
qed

definition example_cluster :: "(nat, unit) cluster" where
  "example_cluster = \<lparr>cl_config = cfg_WithID ''n1'' (NewConfig 0 0 ()), cl_address = ''local'', cl_agentPID = None,
     cl_providerPID = None, cl_isStarted = False, cl_kinds = []\<rparr>"

definition example_opts :: "(unit, cmsg, unit) opts" where
  "example_opts = DefaultOpts (\<lambda>u. (u, None)) (\<lambda>c u. (u, [], None))"

lemma example_node:
  "\<exists>(e :: cmsg engine) es h. eng_inv e \<and> stream_ok es h e \<and> e_address e = cl_address example_cluster \<and> cfg_id (cl_config example_cluster) \<noteq> []
     \<and> reg_lookup (e_Registry e) (ID (member_PID (cluster_Member example_cluster))) = None
     \<and> reg_lookup (e_Registry e) (ID (memberToProviderPID (cluster_Member example_cluster))) = None
     \<and> reg_lookup (e_Registry e) (ID (response_pid e)) = None"
proof -
  obtain e :: "cmsg engine" where e: "eng_inv e" "stream_ok (stream_pid ''local'' 5) 0 e" "e_address e = ''local''"
    "e_Registry e = \<lparr>reg_lookup = [ID (stream_pid ''local'' 5) \<mapsto> 0], responses = Map.empty\<rparr>"
    using example_engine by blast
  then show ?thesis
    by (intro exI [of _ e] exI [of _ "stream_pid ''local'' 5"] exI [of _ 0])
      (simp add: example_cluster_def cfg_WithID_def NewConfig_def member_PID_def memberToProviderPID_def cluster_Member_def stream_pid_id
        response_pid_def responsePrefix_def)
qed

theorem start_reachable_witness:
  "\<exists>(e :: cmsg engine) c' e'. cluster_Start example_opts example_opts 0 0 example_cluster e = (SDone, c', e')
     \<and> cl_agentPID c' = Some (NewPID ''local'' ''cluster/n1'')"
proof -
  obtain e :: "cmsg engine" and es h where e: "eng_inv e" "stream_ok es h e" "e_address e = cl_address example_cluster"
    "cfg_id (cl_config example_cluster) \<noteq> []" "reg_lookup (e_Registry e) (ID (member_PID (cluster_Member example_cluster))) = None"
    "reg_lookup (e_Registry e) (ID (memberToProviderPID (cluster_Member example_cluster))) = None" using example_node by blast
  obtain r c' e' where s: "cluster_Start example_opts example_opts 0 0 example_cluster e = (r, c', e')" by (metis prod_cases3)
  have "r = SDone \<and> cluster_Member c' = cluster_Member example_cluster \<and> cl_agentPID c' = Some (member_PID (cluster_Member c'))"
    using start_reachable [OF e s] by blast
  moreover have "member_PID (cluster_Member example_cluster) = NewPID ''local'' ''cluster/n1''"
    by (simp add: member_PID_def cluster_Member_def example_cluster_def cfg_WithID_def NewConfig_def)
  ultimately show ?thesis using s by (intro exI [of _ e] exI [of _ c'] exI [of _ e']) simp
qed

theorem queries_answered_witness:
  "\<exists>(c :: (nat, unit) cluster) g e e1 e2. node_up c g e
     \<and> GetActiveByID (serve (list_ranges example_ids) (\<lambda>_. example_opts) g example_agent) ''room/1'' c e = (Some (NewPID ''h2'' ''room/1''), SDone, e1)
     \<and> cluster_HasKind (serve (list_ranges example_ids) (\<lambda>_. example_opts) g example_agent) ''player'' c e = (True, SDone, e2)"
proof -
  obtain e :: "cmsg engine" and es h where e: "eng_inv e" "stream_ok es h e" "e_address e = cl_address example_cluster"
    "cfg_id (cl_config example_cluster) \<noteq> []" "reg_lookup (e_Registry e) (ID (member_PID (cluster_Member example_cluster))) = None"
    "reg_lookup (e_Registry e) (ID (memberToProviderPID (cluster_Member example_cluster))) = None"
    "reg_lookup (e_Registry e) (ID (response_pid e)) = None" using example_node by blast
  let ?m = "cluster_Member example_cluster"
  obtain e1 where "cluster_Start example_opts example_opts 0 0 example_cluster e = (SDone, example_cluster\<lparr>cl_agentPID := Some (member_PID ?m),
      cl_providerPID := Some (memberToProviderPID ?m), cl_isStarted := True\<rparr>, e1)"
    and s: "eng_inv e1" "stream_ok es h e1" "e_address e1 = e_address e" "e_responseSeq e1 = e_responseSeq e"
    "reg_lookup (e_Registry e1) = (reg_lookup (e_Registry e))(ID (member_PID ?m) \<mapsto> e_size e, ID (memberToProviderPID ?m) \<mapsto> Suc (e_size e))"
    "e_heap e1 (e_size e) = ProcObj (member_PID ?m) []" "e_heap e1 (Suc (e_size e)) = ProcObj (memberToProviderPID ?m) []"
    by (rule Start_eq [OF e(1-6), of example_opts example_opts 0 0])
  let ?c = "example_cluster\<lparr>cl_agentPID := Some (member_PID ?m)\<rparr>"
  have n: "ID (member_PID ?m) \<noteq> ID (response_pid e1)" "ID (memberToProviderPID ?m) \<noteq> ID (response_pid e1)"
    "ID (member_PID ?m) \<noteq> ID (memberToProviderPID ?m)" "response_pid e1 = response_pid e" "Address (member_PID ?m) = e_address e1"
    using s(3,4) e(3) by (simp_all add: member_PID_def memberToProviderPID_def response_pid_def responsePrefix_def cluster_Member_def)
  have up: "node_up ?c (e_size e) e1" using s(1,2,5,6) n e(7) by (auto simp: node_up_def)
  have U: "ms_ids (ag_members example_agent) \<union> dom (ag_activated example_agent) \<union> dom (ag_kinds example_agent) \<subseteq> set example_ids"
    using example_bounds by (auto simp: example_agent_def example_ids_def)
  have "''room/1'' \<noteq> []" "''player'' \<noteq> []" by simp_all
  from queries_answered [OF up example_agent_inv example_ranges U this, of "\<lambda>_. example_opts"]
  show ?thesis using up by (auto simp: example_agent_def)
qed

end
