(* ===== verification/SelfManaged.thy ===== *)
theory SelfManaged
  imports Cluster
begin

section \<open>The self-managed provider (cluster/selfmanaged.go)\<close>

text \<open>
  The provider is the actor that finds the other nodes: it greets its bootstrap members and
  the nodes discovered by multicast DNS, keeps the set of members and tells the agent of its
  node whenever it changes. A handler returns the new state, the calls it made and how it ended:
  normally, with a panic, or by ending the whole program (\<open>log.Fatal\<close>). The zeroconf package is
  the argument \<open>zc\<close>: whether its functions return an error. The agent's theory gives the range
  orders.
\<close>

record member_addr =
  ma_ListenAddr :: string
  ma_ID :: string

definition WithBootstrapMember :: "member_addr \<Rightarrow> member_addr list \<Rightarrow> member_addr list" where
  "WithBootstrapMember m cfg = cfg @ [m]"

definition NewSelfManagedConfig :: "member_addr list" where
  "NewSelfManagedConfig = []"

datatype pcall =
    PSend "pid option" cmsg
  | PSendFrom "pid option" cmsg "pid option"
  | PSpawnChild string nat
  | PSubscribe "pid option"
  | PUnsubscribe "pid option"
  | PRegisterProxy string int string string
  | PShutdown
  | PBrowse
  | PCancel

datatype ending = Returned | Panicked go_panic | PanickedWithError | Exited

record zeroconf =
  z_resolver :: bool
  z_register :: "string \<Rightarrow> int \<Rightarrow> string \<Rightarrow> bool"
  z_browse :: bool

record ('p, 'v) self_managed =
  sf_bootstrap :: "member_addr list"
  sf_cluster :: "('p, 'v) cluster"
  sf_members :: member_set
  sf_memberPinger :: "cmsg send_repeater option"
  sf_eventSubPID :: "pid option"
  sf_pid :: "pid option"
  sf_membersAlive :: member_set
  sf_announcer :: bool
  sf_cancel :: bool

type_synonym ('p, 'v) sf_result = "('p, 'v) self_managed \<times> pcall list \<times> ending"

definition serviceName :: string where
  "serviceName = ''_actor.goactors_''"

definition memberPingInterval :: int where
  "memberPingInterval = 2 * 1000000000"

text \<open>Fields not set by the constructor have their zero values.\<close>

definition NewSelfManagedProvider :: "member_addr list \<Rightarrow> ('p, 'v) cluster \<Rightarrow> ('p, 'v) self_managed" where
  "NewSelfManagedProvider cfg c = \<lparr>sf_bootstrap = cfg, sf_cluster = c, sf_members = NewMemberSet [], sf_memberPinger = None,
     sf_eventSubPID = None, sf_pid = None, sf_membersAlive = NewMemberSet [], sf_announcer = False, sf_cancel = False\<rparr>"

subsection \<open>Members\<close>

definition slice_of :: "ranges \<Rightarrow> loop_site \<Rightarrow> member_set \<Rightarrow> member list" where
  "slice_of rs site s = ms_Slice (r_members rs site (ms_members s)) s"

definition sendMembersToAgent :: "ranges \<Rightarrow> ('p, 'v) self_managed \<Rightarrow> pcall list" where
  "sendMembersToAgent rs s = [PSend (cluster_PID (sf_cluster s)) (Members (slice_of rs SiteSlice (sf_members s)))]"

text \<open>A nil member panics in \<open>Contains\<close>; the members before it have been added.\<close>

fun add_members_loop :: "member option list \<Rightarrow> member_set \<Rightarrow> member_set \<times> bool" where
  "add_members_loop [] s = (s, True)"
| "add_members_loop (None # ms) s = (s, False)"
| "add_members_loop (Some m # ms) s = add_members_loop ms (if \<not> ms_Contains m s then ms_Add m s else s)"

definition addMembers :: "ranges \<Rightarrow> member option list \<Rightarrow> ('p, 'v) self_managed \<Rightarrow> ('p, 'v) sf_result" where
  "addMembers rs ms s = (case add_members_loop ms (sf_members s) of
      (t, ok) \<Rightarrow> (let s1 = s\<lparr>sf_members := t\<rparr> in
        if ok then (s1, sendMembersToAgent rs s1, Returned) else (s1, [], Panicked NilDeref)))"

definition removeMember :: "ranges \<Rightarrow> member option \<Rightarrow> ('p, 'v) self_managed \<Rightarrow> ('p, 'v) sf_result" where
  "removeMember rs m s = (case m of
      None \<Rightarrow> (s, [], Panicked NilDeref)
    | Some m \<Rightarrow> (let s1 = (if ms_Contains m (sf_members s) then s\<lparr>sf_members := ms_Remove m (sf_members s)\<rparr> else s)
                in (s1, sendMembersToAgent rs s1, Returned)))"

text \<open>\<open>me\<close> is \<open>c.PID()\<close>. The agent's PID is read for every member.\<close>

definition handleMemberPing :: "ranges \<Rightarrow> pid \<Rightarrow> ('p, 'v) self_managed \<Rightarrow> ('p, 'v) sf_result" where
  "handleMemberPing rs me s =
     (let ms = slice_of rs SitePing (sf_members s) in
      case cl_agentPID (sf_cluster s) of
        None \<Rightarrow> (s, [], if ms = [] then Returned else Panicked NilDeref)
      | Some a \<Rightarrow> (s, map (\<lambda>m. PSendFrom (Some (memberToProviderPID m)) (Ping (Some me)) (Some me))
                       (filter (\<lambda>m. m_Host m \<noteq> Address a) ms), Returned))"

subsection \<open>Discovery\<close>

definition initAutoDiscovery :: "zeroconf \<Rightarrow> ('p, 'v) self_managed \<Rightarrow> ('p, 'v) sf_result" where
  "initAutoDiscovery zc s =
     (if \<not> z_resolver zc then (s, [], Exited)
      else case cluster_Address (sf_cluster s) of
        Inl p \<Rightarrow> (s, [], Panicked p)
      | Inr addr \<Rightarrow>
          (case SplitHostPort addr of
             None \<Rightarrow> (s, [], Exited)
           | Some (host, portstr) \<Rightarrow>
               (case Atoi portstr of
                  (_, False) \<Rightarrow> (s, [], Exited)
                | (port, True) \<Rightarrow>
                    (let i = cluster_ID (sf_cluster s);
                         call = PRegisterProxy i port (''member_'' @ i) host
                     in if z_register zc i port host then (s\<lparr>sf_announcer := True\<rparr>, [call], Returned) else (s, [call], Exited)))))"

definition startAutoDiscovery :: "zeroconf \<Rightarrow> ('p, 'v) self_managed \<Rightarrow> ('p, 'v) sf_result" where
  "startAutoDiscovery zc s = (s, [PBrowse], if z_browse zc then Returned else PanickedWithError)"

text \<open>The goroutine that \<open>startAutoDiscovery\<close> leaves running, for one entry it receives.\<close>

definition on_entry :: "string \<Rightarrow> string list \<Rightarrow> int \<Rightarrow> ('p, 'v) self_managed \<Rightarrow> pcall list res" where
  "on_entry inst addrs port s =
     (if inst = cluster_ID (sf_cluster s) then Inr []
      else bindR (go_get addrs 0) (\<lambda>a.
             bindR (cluster_Address (sf_cluster s)) (\<lambda>self.
               Inr [PSendFrom (Some (NewPID (a @ '':'' @ Itoa port) (''provider/'' @ inst))) (Handshake (Some (cluster_Member (sf_cluster s))))
                      (Some (NewPID self (''provider/'' @ cluster_ID (sf_cluster s))))])))"

text \<open>\<open>start\<close>: the child that watches the event stream, the handshakes, then discovery. \<open>random\<close> is the child's id.\<close>

definition sf_start :: "zeroconf \<Rightarrow> nat \<Rightarrow> pid \<Rightarrow> ('p, 'v) self_managed \<Rightarrow> ('p, 'v) sf_result" where
  "sf_start zc random me s =
     (let child = NewPID (Address me) (ID me @ pidSeparator @ ''event'' @ pidSeparator @ Itoa (int random));
          s1 = s\<lparr>sf_eventSubPID := Some child\<rparr>;
          cs = [PSpawnChild ''event'' random, PSubscribe (Some child)] @
               map (\<lambda>b. PSendFrom (Some (NewPID (ma_ListenAddr b) (''provider/'' @ ma_ID b)))
                          (Handshake (Some (cluster_Member (sf_cluster s)))) (Some me)) (sf_bootstrap s)
      in case initAutoDiscovery zc s1 of
           (s2, cs2, Returned) \<Rightarrow> (case startAutoDiscovery zc s2 of (s3, cs3, r) \<Rightarrow> (s3, cs @ cs2 @ cs3, r))
         | (s2, cs2, r) \<Rightarrow> (s2, cs @ cs2, r))"

subsection \<open>Receive\<close>

definition sf_started :: "ranges \<Rightarrow> zeroconf \<Rightarrow> nat \<Rightarrow> pid \<Rightarrow> ('p, 'v) self_managed \<Rightarrow> ('p, 'v) sf_result" where
  "sf_started rs zc random me s =
     (let s1 = s\<lparr>sf_cancel := True, sf_pid := Some me, sf_members := ms_Add (cluster_Member (sf_cluster s)) (sf_members s)\<rparr>;
          cs = sendMembersToAgent rs s1;
          s2 = s1\<lparr>sf_memberPinger := Some \<lparr>sr_self = Some me, sr_target = Some me, sr_msg = User ProviderMemberPing,
                    sr_interval = memberPingInterval, sr_closed = False\<rparr>\<rparr>
      in case sf_start zc random me s2 of (s3, cs', r) \<Rightarrow> (s3, cs @ cs', r))"

definition sf_stopped :: "('p, 'v) self_managed \<Rightarrow> ('p, 'v) sf_result" where
  "sf_stopped s = (case sf_memberPinger s of
      None \<Rightarrow> (s, [], Panicked CloseOfNil)
    | Some sr \<Rightarrow> (case sr_Stop sr of
          Inl p \<Rightarrow> (s, [], Panicked p)
        | Inr sr' \<Rightarrow> (let s1 = s\<lparr>sf_memberPinger := Some sr'\<rparr>; c1 = PUnsubscribe (sf_eventSubPID s) in
            if \<not> sf_announcer s then (s1, [c1], Panicked NilDeref)
            else if \<not> sf_cancel s then (s1, [c1, PShutdown], Panicked NilDeref)
            else (s1, [c1, PShutdown, PCancel], Returned))))"

definition sf_Receive :: "ranges \<Rightarrow> zeroconf \<Rightarrow> nat \<Rightarrow> pid \<Rightarrow> pid option \<Rightarrow> cmsg msg \<Rightarrow> ('p, 'v) self_managed \<Rightarrow> ('p, 'v) sf_result" where
  "sf_Receive rs zc random me src m s =
     (case m of
        Started \<Rightarrow> sf_started rs zc random me s
      | Stopped \<Rightarrow> sf_stopped s
      | User (Handshake hm) \<Rightarrow>
          (case addMembers rs [hm] s of
             (s1, cs, Returned) \<Rightarrow> (s1, cs @ [PSend src (Members (slice_of rs SiteReply (sf_members s1)))], Returned)
           | r \<Rightarrow> r)
      | User (Members ms) \<Rightarrow> addMembers rs (map Some ms) s
      | User ProviderMemberPing \<Rightarrow> handleMemberPing rs me s
      | User (ProviderMemberLeave addr) \<Rightarrow>
          removeMember rs (ms_GetByHost (r_members rs SiteHost (ms_members (sf_members s))) addr (sf_members s)) s
      | _ \<Rightarrow> (s, [], Returned))"

text \<open>The child's receiver; \<open>me\<close> is the child.\<close>

definition handleEventStream :: "pid \<Rightarrow> cmsg msg \<Rightarrow> ('p, 'v) self_managed \<Rightarrow> pcall list" where
  "handleEventStream me m s = (case m of
      RemoteUnreachableEvent addr \<Rightarrow> [PSendFrom (sf_pid s) (ProviderMemberLeave addr) (Some me)]
    | _ \<Rightarrow> [])"

subsection \<open>What the loops compute\<close>

abbreviation sf_ids :: "('p, 'v) self_managed \<Rightarrow> string set" where
  "sf_ids s \<equiv> ms_ids (sf_members s)"

definition add_new :: "member \<Rightarrow> member_set \<Rightarrow> member_set" where
  "add_new m s = (if ms_Contains m s then s else ms_Add m s)"

lemma add_members_loop_eq: "add_members_loop (map Some ms) s = (fold add_new ms s, True)"
  by (induction ms arbitrary: s) (simp_all add: add_new_def)

interpretation known_members: keyed_set "\<lambda>_. True" ms_ids m_ID add_new
  by unfold_locales (auto simp: add_new_def)

interpretation sound_members: keyed_set ms_inv ms_ids m_ID add_new
  by unfold_locales (auto simp: add_new_def ms_Add_inv)

lemma fold_add_new_ids: "ms_ids (fold add_new ms s) = ms_ids s \<union> m_ID ` set ms"
  using known_members.adds by blast

lemma fold_add_new_inv: "ms_inv s \<Longrightarrow> ms_inv (fold add_new ms s)"
  using sound_members.adds by blast

lemma addMembers_eq:
  "addMembers rs (map Some ms) s = (s\<lparr>sf_members := fold add_new ms (sf_members s)\<rparr>,
     sendMembersToAgent rs (s\<lparr>sf_members := fold add_new ms (sf_members s)\<rparr>), Returned)"
  by (simp add: addMembers_def add_members_loop_eq Let_def)

lemma slice_of_ids:
  assumes "ms_inv s" "ranges_ok U rs" "ms_ids s \<subseteq> U"
  shows "m_ID ` set (slice_of rs site s) = ms_ids s" "distinct (map m_ID (slice_of rs site s))" "set (slice_of rs site s) = ran (ms_members s)"
proof -
  have r: "range_order (ms_members s) (r_members rs site (ms_members s))"
    using ranges_okD(1) [OF assms(2)] assms(3) by (simp add: ms_ids_def)
  show "m_ID ` set (slice_of rs site s) = ms_ids s" "distinct (map m_ID (slice_of rs site s))"
    using ms_Slice_distinct [OF assms(1) r] by (simp_all add: slice_of_def)
  show "set (slice_of rs site s) = ran (ms_members s)" using ms_visit_set [OF r] by (simp add: slice_of_def ms_Slice_def)
qed

subsection \<open>Greeting\<close>

text \<open>
  A handshake introduces two nodes. The node that is greeted adds the greeter, tells its
  agent and answers with its whole list, the greeter included; and when the greeter's provider
  handles that answer it knows, besides the members it knew, every member of the other node.
  Neither handler panics and neither forgets anybody.
\<close>

theorem handshake_joins:
  fixes a b :: "('p, 'v) self_managed"
  assumes "ms_inv (sf_members b)" "ranges_ok U rs" "sf_ids b \<union> {m_ID m} \<subseteq> U"
    "sf_Receive rs zc random me (Some src) (User (Handshake (Some m))) b = (b', cs, r)"
  shows "r = Returned \<and> ms_inv (sf_members b') \<and> sf_ids b' = insert (m_ID m) (sf_ids b)
    \<and> (\<exists>told answer. cs = [PSend (cl_agentPID (sf_cluster b)) (Members told), PSend (Some src) (Members answer)]
        \<and> m_ID ` set told = sf_ids b' \<and> m_ID ` set answer = sf_ids b'
        \<and> sf_Receive rs' zc' random' me' src' (User (Members answer)) a = addMembers rs' (map Some answer) a
        \<and> snd (snd (addMembers rs' (map Some answer) a)) = Returned
        \<and> sf_ids (fst (addMembers rs' (map Some answer) a)) = sf_ids a \<union> sf_ids b')"
proof -
  let ?t = "fold add_new [m] (sf_members b)"
  have i: "ms_inv ?t" "ms_ids ?t = insert (m_ID m) (sf_ids b)" using fold_add_new_ids [of "[m]" "sf_members b"] fold_add_new_inv [OF assms(1), of "[m]"] by simp_all
  then have U: "ms_ids ?t \<subseteq> U" using assms(3) by simp
  note sl = slice_of_ids(1) [OF i(1) assms(2) U]
  have "b' = b\<lparr>sf_members := ?t\<rparr>" "r = Returned"
    "cs = [PSend (cl_agentPID (sf_cluster b)) (Members (slice_of rs SiteSlice ?t)), PSend (Some src) (Members (slice_of rs SiteReply ?t))]"
    using assms(4) addMembers_eq [of rs "[m]" b]
    by (simp_all add: sf_Receive_def sendMembersToAgent_def cluster_PID_def)
  then show ?thesis using i sl fold_add_new_ids [of "slice_of rs SiteReply ?t" "sf_members a"]
    by (simp add: sf_Receive_def addMembers_eq)
qed

text \<open>The messages that change the members.\<close>

definition membership_msg :: "cmsg \<Rightarrow> bool" where
  "membership_msg c = (case c of Handshake (Some _) \<Rightarrow> True | Members _ \<Rightarrow> True | ProviderMemberLeave _ \<Rightarrow> True | _ \<Rightarrow> False)"

definition msg_ids :: "cmsg \<Rightarrow> string set" where
  "msg_ids c = (case c of Handshake (Some m) \<Rightarrow> {m_ID m} | Members ms \<Rightarrow> m_ID ` set ms | _ \<Rightarrow> {})"

lemma removeMember_eq:
  assumes "ms_inv (sf_members s)" "ranges_ok U rs" "sf_ids s \<subseteq> U"
    "h = ms_GetByHost (r_members rs SiteHost (ms_members (sf_members s))) addr (sf_members s)"
  shows "case h of
     None \<Rightarrow> removeMember rs h s = (s, [], Panicked NilDeref) \<and> (\<forall>m \<in> ran (ms_members (sf_members s)). m_Host m \<noteq> addr)
   | Some m \<Rightarrow> m_Host m = addr \<and> m \<in> ran (ms_members (sf_members s)) \<and>
       removeMember rs h s = (s\<lparr>sf_members := ms_Remove m (sf_members s)\<rparr>, sendMembersToAgent rs (s\<lparr>sf_members := ms_Remove m (sf_members s)\<rparr>), Returned)"
proof -
  have "range_order (ms_members (sf_members s)) (r_members rs SiteHost (ms_members (sf_members s)))"
    using ranges_okD(1) [OF assms(2)] assms(3) by (simp add: ms_ids_def)
  from ms_GetByHost_cases [OF assms(1) this, of addr] show ?thesis
    using assms(1,4) ms_ran [OF assms(1)] by (auto simp: removeMember_def ms_ids_def Let_def split: option.splits)
qed

lemma membership_told:
  assumes "ms_inv (sf_members s)" "ranges_ok U rs" "sf_ids s \<union> msg_ids c \<subseteq> U" "membership_msg c"
    "sf_Receive rs zc random me src (User c) s = (s', cs, Returned)"
  shows "ms_inv (sf_members s') \<and> sf_ids s' \<subseteq> U \<and> sf_cluster s' = sf_cluster s \<and> hd cs = PSend (cl_agentPID (sf_cluster s)) (Members (slice_of rs SiteSlice (sf_members s')))
     \<and> cs \<noteq> []"
proof (cases "\<exists>addr. c = ProviderMemberLeave addr")
  case True
  then obtain addr where c: "c = ProviderMemberLeave addr" by blast
  let ?h = "ms_GetByHost (r_members rs SiteHost (ms_members (sf_members s))) addr (sf_members s)"
  have r: "removeMember rs ?h s = (s', cs, Returned)" using assms(5) c by (simp add: sf_Receive_def)
  have U: "sf_ids s \<subseteq> U" using assms(3) by simp
  from removeMember_eq [OF assms(1,2) U refl, of addr] r U assms(1) show ?thesis
    by (cases ?h) (auto simp: sendMembersToAgent_def cluster_PID_def intro: ms_Remove_inv)
next
  case False
  then obtain ms where c: "c = Members ms \<or> (\<exists>m. c = Handshake (Some m) \<and> ms = [m])" and i: "m_ID ` set ms = msg_ids c"
    using assms(4) by (cases c) (auto simp: membership_msg_def msg_ids_def split: option.splits)
  let ?t = "fold add_new ms (sf_members s)"
  have "ms_inv ?t" "ms_ids ?t \<subseteq> U"
    using fold_add_new_inv [OF assms(1)] fold_add_new_ids [of ms "sf_members s"] i assms(3) by auto
  moreover have "s' = s\<lparr>sf_members := ?t\<rparr>" "hd cs = PSend (cl_agentPID (sf_cluster s)) (Members (slice_of rs SiteSlice ?t))" "cs \<noteq> []"
    using assms(5) c addMembers_eq [of rs ms s] by (auto simp: sf_Receive_def sendMembersToAgent_def cluster_PID_def)
  ultimately show ?thesis by simp
qed

text \<open>
  C20. Provider and agent agree. Whenever the provider has handled a handshake, a list of members
  or a leave, the first thing it sent is its new list, to its own agent; and when the agent has
  handled that list, it knows exactly the members the provider knows.
\<close>

theorem provider_agent_agree:
  fixes s :: "('p, 'v) self_managed" and a :: "'p agent"
  assumes "ms_inv (sf_members s)" "ranges_ok U rs" "sf_ids s \<union> msg_ids c \<union> ms_ids (ag_members a) \<union> dom (ag_activated a) \<subseteq> U"
    "membership_msg c" "sf_Receive rs zc random me src (User c) s = (s', cs, Returned)" "agent_inv a"
  shows "\<exists>l. hd cs = PSend (cl_agentPID (sf_cluster s)) (Members l)
    \<and> (\<forall>a' ds r. agent_Receive rs pick random' reply (User (Members l)) a = (a', ds, r) \<longrightarrow> r = None \<and> agent_inv a' \<and> ms_ids (ag_members a') = sf_ids s')"
proof -
  have U: "sf_ids s \<union> msg_ids c \<subseteq> U" using assms(3) by simp
  let ?l = "slice_of rs SiteSlice (sf_members s')"
  note t = membership_told [OF assms(1,2) U assms(4,5)]
  then have l: "m_ID ` set ?l = sf_ids s'" using slice_of_ids(1) [OF _ assms(2)] by blast
  have V: "ms_ids (ag_members a) \<union> m_ID ` set ?l \<union> dom (ag_activated a) \<subseteq> U" using t l assms(3) by auto
  have "r = None \<and> agent_inv a' \<and> ms_ids (ag_members a') = sf_ids s'"
    if "agent_Receive rs pick random' reply (User (Members ?l)) a = (a', ds, r)" for a' ds r
    using handleMembers_view [OF assms(6,2) V, of a' ds r] that l by (simp add: agent_Receive_def)
  then show ?thesis using t by blast
qed

subsection \<open>Leaving\<close>

text \<open>
  A node that cannot be reached leaves, once. The leave of an address removes one member of
  that address and the agent is told. If no member has the address, the handler panics on a nil
  pointer: so it does for an unreachable bootstrap node that never became a member, and when
  the same node is reported a second time.
\<close>

theorem leave_of_unknown_panics:
  assumes "ms_inv (sf_members s)" "ranges_ok U rs" "sf_ids s \<subseteq> U"
    "sf_Receive rs zc random me src (User (ProviderMemberLeave addr)) s = (s', cs, r)"
  shows "if \<forall>m \<in> ran (ms_members (sf_members s)). m_Host m \<noteq> addr then r = Panicked NilDeref \<and> s' = s \<and> cs = []
    else r = Returned \<and> (\<exists>m \<in> ran (ms_members (sf_members s)). m_Host m = addr \<and> sf_members s' = ms_Remove m (sf_members s)
      \<and> ((\<forall>n \<in> ran (ms_members (sf_members s)). m_Host n = addr \<longrightarrow> n = m) \<longrightarrow>
           snd (snd (sf_Receive rs zc random' me src' (User (ProviderMemberLeave addr)) s')) = Panicked NilDeref))"
proof -
  let ?g = "\<lambda>s. ms_GetByHost (r_members rs SiteHost (ms_members (sf_members s))) addr (sf_members s)"
  have recv: "sf_Receive rs zc random me src (User (ProviderMemberLeave addr)) s = removeMember rs (?g s) s" for random src s
    by (simp add: sf_Receive_def)
  note e = removeMember_eq [OF assms(1-3) refl, of addr]
  show ?thesis
  proof (cases "?g s")
    case None
    then show ?thesis using e assms(4) by (simp add: recv)
  next
    case (Some m)
    then have m: "m_Host m = addr" "m \<in> ran (ms_members (sf_members s))" "r = Returned"
      "s' = s\<lparr>sf_members := ms_Remove m (sf_members s)\<rparr>" using e assms(4) by (auto simp: recv)
    have i: "ms_inv (sf_members s')" "sf_ids s' \<subseteq> U" using m(4) assms(1,3) by (auto intro: ms_Remove_inv)
    have "snd (snd (sf_Receive rs zc random' me src' (User (ProviderMemberLeave addr)) s')) = Panicked NilDeref"
      if u: "\<forall>n \<in> ran (ms_members (sf_members s)). m_Host n = addr \<longrightarrow> n = m"
    proof (cases "?g s'")
      case None
      then show ?thesis using removeMember_eq [OF i(1) assms(2) i(2) refl, of addr] by (simp add: recv)
    next
      case n: (Some n)
      then have "m_Host n = addr" "n \<in> ran (ms_members (sf_members s'))"
        using removeMember_eq [OF i(1) assms(2) i(2) refl, of addr] by auto
      moreover from this have "ms_members (sf_members s') (m_ID n) = Some n" using ms_ran [OF i(1)] by blast
      then have "m_ID n \<noteq> m_ID m" "ms_members (sf_members s) (m_ID n) = Some n"
        using m(4) by (simp_all add: ms_Remove_def split: if_splits)
      ultimately show ?thesis using u ranI [of "ms_members (sf_members s)" "m_ID n" n] by blast
    qed
    then have x: "m_Host m = addr \<and> sf_members s' = ms_Remove m (sf_members s) \<and>
      ((\<forall>n \<in> ran (ms_members (sf_members s)). m_Host n = addr \<longrightarrow> n = m) \<longrightarrow>
         snd (snd (sf_Receive rs zc random' me src' (User (ProviderMemberLeave addr)) s')) = Panicked NilDeref)"
      using m(1,4) by simp
    have "\<not> (\<forall>m \<in> ran (ms_members (sf_members s)). m_Host m \<noteq> addr)" using m(1,2) by blast
    then show ?thesis by (subst if_not_P) (assumption, intro conjI bexI [of _ m] m(2,3) x)
  qed
qed

text \<open>
  A provider that is restarted after a panic starts from nothing: the first list it sends
  contains only its own node, and the agent that handles it forgets every other member, although
  they are all alive.
\<close>

theorem restart_forgets_members:
  fixes c :: "('p, 'v) cluster" and a :: "'p agent"
  assumes "ranges_ok U rs" "ms_ids (ag_members a) \<union> {cfg_id (cl_config c)} \<union> dom (ag_activated a) \<subseteq> U" "agent_inv a"
    "sf_Receive rs zc random me src Started (NewSelfManagedProvider cfg c) = (s', cs, r)"
  shows "hd cs = PSend (cl_agentPID c) (Members [cluster_Member c])
    \<and> (\<forall>a' ds q. agent_Receive rs pick random' reply (User (Members [cluster_Member c])) a = (a', ds, q) \<longrightarrow>
         ms_ids (ag_members a') = {cfg_id (cl_config c)})"
proof -
  let ?m = "cluster_Member c"
  have i: "m_ID ?m = cfg_id (cl_config c)" by (simp add: cluster_Member_def)
  let ?s = "ms_Add ?m (NewMemberSet [])"
  have "range_order (ms_members ?s) (r_members rs SiteSlice (ms_members ?s))"
    using ranges_okD(1) [OF assms(1)] assms(2) i by (auto simp: ms_Add_def NewMemberSet_def)
  then have "r_members rs SiteSlice (ms_members ?s) = [m_ID ?m]"
    by (intro distinct_singleton) (simp_all add: range_order_def ms_Add_def NewMemberSet_def)
  then have "slice_of rs SiteSlice ?s = [?m]"
    by (simp add: slice_of_def ms_Slice_def ms_visit_def range_values_def List.map_filter_simps ms_Add_def NewMemberSet_def)
  then have "hd cs = PSend (cl_agentPID c) (Members [?m])"
    using assms(4) by (auto simp: sf_Receive_def sf_started_def Let_def sendMembersToAgent_def NewSelfManagedProvider_def cluster_PID_def split: prod.splits)
  moreover have "ms_ids (ag_members a') = {cfg_id (cl_config c)}"
    if "agent_Receive rs pick random' reply (User (Members [?m])) a = (a', ds, q)" for a' ds q
    using handleMembers_view [OF assms(3,1), of "[?m]" a' ds q] that assms(2) i by (simp add: agent_Receive_def)
  ultimately show ?thesis by blast
qed

subsection \<open>Discovery\<close>

text \<open>
  Discovery finds the right actor. What a node announces over multicast DNS (its id, and the
  host and port its address splits into) is enough for another node that receives the entry: it
  greets exactly the PID of the first node's provider, with its own provider as the sender, and
  offers its own member record. A node ignores its own entry.
\<close>

theorem discovery_roundtrip:
  fixes s t :: "('p, 'v) self_managed"
  assumes "plain_host host" "0 \<le> port" "port < 2 ^ 63" "cl_address (sf_cluster s) = host @ '':'' @ Itoa port"
    "cl_agentPID (sf_cluster s) = Some p" "Address p = cl_address (sf_cluster s)"
    "cl_agentPID (sf_cluster t) = Some q" "Address q = cl_address (sf_cluster t)"
    "cluster_ID (sf_cluster s) \<noteq> cluster_ID (sf_cluster t)" "z_resolver zc" "z_register zc (cluster_ID (sf_cluster s)) port host"
  shows "initAutoDiscovery zc s = (s\<lparr>sf_announcer := True\<rparr>,
      [PRegisterProxy (cluster_ID (sf_cluster s)) port (''member_'' @ cluster_ID (sf_cluster s)) host], Returned)
    \<and> on_entry (cluster_ID (sf_cluster s)) [host] port t = Inr [PSendFrom (Some (memberToProviderPID (cluster_Member (sf_cluster s))))
        (Handshake (Some (cluster_Member (sf_cluster t)))) (Some (memberToProviderPID (cluster_Member (sf_cluster t))))]
    \<and> on_entry (cluster_ID (sf_cluster s)) [host] port s = Inr []"
proof -
  have "SplitHostPort (cl_address (sf_cluster s)) = Some (host, Itoa port)"
    using SplitHostPort_join [OF assms(1) plain_host_Itoa [OF assms(2)]] assms(4) by simp
  then show ?thesis using assms Atoi_Itoa [OF assms(2,3)]
    by (simp add: initAutoDiscovery_def on_entry_def cluster_Address_def go_get_def memberToProviderPID_def cluster_Member_def cluster_ID_def Let_def)
qed

subsection \<open>Examples\<close>

definition example_member :: "string \<Rightarrow> string \<Rightarrow> member" where
  "example_member i h = \<lparr>m_ID = i, m_Host = h, m_Region = [], m_Kinds = []\<rparr>"

definition example_provider :: "(nat, unit) self_managed" where
  "example_provider = (NewSelfManagedProvider [] (example_cluster\<lparr>cl_address := ''h1:80'', cl_agentPID := Some (NewPID ''h1:80'' ''cluster/n1'')\<rparr>))
     \<lparr>sf_members := NewMemberSet [example_member ''A'' ''h1:80'', example_member ''B'' ''h2:80'']\<rparr>"

lemma example_provider_ok: "ms_inv (sf_members example_provider)" "sf_ids example_provider = {''A'', ''B''}"
  "ran (ms_members (sf_members example_provider)) = {example_member ''A'' ''h1:80'', example_member ''B'' ''h2:80''}"
proof -
  have m: "sf_members example_provider = NewMemberSet [example_member ''A'' ''h1:80'', example_member ''B'' ''h2:80'']"
    by (simp add: example_provider_def)
  show "ms_inv (sf_members example_provider)" unfolding m by (rule NewMemberSet_inv)
  show "sf_ids example_provider = {''A'', ''B''}" unfolding m ms_ids_simps by (simp add: example_member_def)
  show "ran (ms_members (sf_members example_provider)) = {example_member ''A'' ''h1:80'', example_member ''B'' ''h2:80''}"
    unfolding m by (simp add: NewMemberSet_def example_member_def insert_commute)
qed

theorem handshake_joins_witness:
  "\<exists>b' cs zc. sf_Receive (list_ranges example_ids) zc 0 (NewPID ''h1:80'' ''provider/n1'') (Some (NewPID ''h3'' ''provider/C''))
      (User (Handshake (Some (example_member ''C'' ''h3'')))) example_provider = (b', cs, Returned) \<and> sf_ids b' = {''A'', ''B'', ''C''}"
proof -
  fix zc :: zeroconf
  obtain b' cs r where h: "sf_Receive (list_ranges example_ids) zc 0 (NewPID ''h1:80'' ''provider/n1'') (Some (NewPID ''h3'' ''provider/C''))
      (User (Handshake (Some (example_member ''C'' ''h3'')))) example_provider = (b', cs, r)" by (metis prod_cases3)
  have "sf_ids example_provider \<union> {m_ID (example_member ''C'' ''h3'')} \<subseteq> set example_ids"
    by (simp add: example_provider_ok example_member_def example_ids_def)
  note t = handshake_joins [OF example_provider_ok(1) example_ranges this h]
  have "r = Returned" "sf_ids b' = insert (m_ID (example_member ''C'' ''h3'')) (sf_ids example_provider)"
    using t [THEN conjunct1] t [THEN conjunct2, THEN conjunct2, THEN conjunct1] .
  then show ?thesis using h by (intro exI [of _ b'] exI [of _ cs] exI [of _ zc]) (auto simp: example_provider_ok example_member_def)
qed

theorem provider_agent_agree_witness:
  "\<exists>zc s' cs l. sf_Receive (list_ranges example_ids) zc 0 (NewPID ''h1:80'' ''provider/n1'') None
      (User (Members [example_member ''C'' ''h3''])) example_provider = (s', cs, Returned) \<and> sf_ids s' = {''A'', ''B'', ''C''}
    \<and> hd cs = PSend (Some (NewPID ''h1:80'' ''cluster/n1'')) (Members l)
    \<and> ms_ids (ag_members (fst (agent_Receive (list_ranges example_ids) 0 0 None (User (Members l)) example_agent))) = sf_ids s'"
proof -
  fix zc :: zeroconf
  let ?ms = "[example_member ''C'' ''h3'']"
  obtain s' cs where h: "sf_Receive (list_ranges example_ids) zc 0 (NewPID ''h1:80'' ''provider/n1'') None
      (User (Members ?ms)) example_provider = (s', cs, Returned)" "s' = example_provider\<lparr>sf_members := fold add_new ?ms (sf_members example_provider)\<rparr>"
    using addMembers_eq [of "list_ranges example_ids" ?ms example_provider] by (simp add: sf_Receive_def)
  have i: "sf_ids s' = {''A'', ''B'', ''C''}"
    using h(2) fold_add_new_ids [of ?ms "sf_members example_provider"] by (auto simp: example_provider_ok example_member_def)
  have U: "sf_ids example_provider \<union> msg_ids (Members ?ms) \<union> ms_ids (ag_members example_agent) \<union> dom (ag_activated example_agent) \<subseteq> set example_ids"
    using example_bounds by (simp add: example_provider_ok example_member_def example_ids_def msg_ids_def)
  have "membership_msg (Members ?ms)" by (simp add: membership_msg_def)
  from provider_agent_agree [OF example_provider_ok(1) example_ranges U this h(1) example_agent_inv]
  obtain l where l: "hd cs = PSend (cl_agentPID (sf_cluster example_provider)) (Members l)"
    "\<forall>a' ds r. agent_Receive (list_ranges example_ids) 0 0 None (User (Members l)) example_agent = (a', ds, r) \<longrightarrow> ms_ids (ag_members a') = sf_ids s'"
    by metis
  have "ms_ids (ag_members (fst (agent_Receive (list_ranges example_ids) 0 0 None (User (Members l)) example_agent))) = sf_ids s'"
    using l(2) by (metis prod.collapse)
  moreover have "cl_agentPID (sf_cluster example_provider) = Some (NewPID ''h1:80'' ''cluster/n1'')"
    by (simp add: example_provider_def NewSelfManagedProvider_def)
  ultimately show ?thesis using h(1) i l(1)
    by (intro exI [of _ zc] exI [of _ s'] exI [of _ cs] exI [of _ l]) simp
qed

theorem leave_of_unknown_panics_witness:
  "\<exists>zc. snd (snd (sf_Receive (list_ranges example_ids) zc 0 (NewPID ''h1:80'' ''provider/n1'') None (User (ProviderMemberLeave ''h9'')) example_provider))
     = Panicked NilDeref"
proof -
  fix zc :: zeroconf
  obtain s' cs r where h: "sf_Receive (list_ranges example_ids) zc 0 (NewPID ''h1:80'' ''provider/n1'') None
      (User (ProviderMemberLeave ''h9'')) example_provider = (s', cs, r)" by (metis prod_cases3)
  have "sf_ids example_provider \<subseteq> set example_ids" by (simp add: example_provider_ok example_ids_def)
  from leave_of_unknown_panics [OF example_provider_ok(1) example_ranges this h] h show ?thesis
    by (intro exI [of _ zc]) (simp add: example_provider_ok example_member_def)
qed

definition all_well :: zeroconf where
  "all_well = \<lparr>z_resolver = True, z_register = (\<lambda>_ _ _. True), z_browse = True\<rparr>"

theorem restart_forgets_members_witness:
  "\<exists>s' cs r. sf_Receive (list_ranges (''n1'' # example_ids)) all_well 0 (NewPID ''local'' ''provider/n1'') None Started
      (NewSelfManagedProvider [] example_cluster) = (s', cs, r) \<and> hd cs = PSend None (Members [cluster_Member example_cluster])"
proof -
  have r: "ranges_ok (set (''n1'' # example_ids)) (list_ranges (''n1'' # example_ids))"
    by (rule list_ranges_ok) (simp add: example_ids_def)
  have "ms_ids (ag_members example_agent) \<union> {cfg_id (cl_config example_cluster)} \<union> dom (ag_activated example_agent) \<subseteq> set (''n1'' # example_ids)"
    using example_bounds by (auto simp: example_cluster_def cfg_WithID_def)
  note t = restart_forgets_members [OF r this example_agent_inv]
  obtain s' cs q where h: "sf_Receive (list_ranges (''n1'' # example_ids)) all_well 0 (NewPID ''local'' ''provider/n1'') None Started
      (NewSelfManagedProvider [] example_cluster) = (s', cs, q)" by (metis prod_cases3)
  from t [OF h] show ?thesis using h by (auto simp: example_cluster_def)
qed

theorem discovery_roundtrip_witness:
  "\<exists>t :: (nat, unit) self_managed. on_entry ''n1'' [''h1''] 80 t = Inr [PSendFrom (Some (NewPID ''h1:80'' ''provider/n1''))
      (Handshake (Some (cluster_Member (sf_cluster t)))) (Some (memberToProviderPID (cluster_Member (sf_cluster t))))]"
proof -
  let ?t = "example_provider\<lparr>sf_cluster := (sf_cluster example_provider)\<lparr>cl_config := cfg_WithID ''n2'' (cl_config example_cluster)\<rparr>\<rparr>"
  have d: "Itoa 80 = ''80''" by code_simp
  have "plain_host ''h1''" "(0::int) \<le> 80" "(80::int) < 2 ^ 63" "cl_address (sf_cluster example_provider) = ''h1'' @ '':'' @ Itoa 80"
    "cl_agentPID (sf_cluster example_provider) = Some (NewPID ''h1:80'' ''cluster/n1'')"
    "Address (NewPID ''h1:80'' ''cluster/n1'') = cl_address (sf_cluster example_provider)"
    "cl_agentPID (sf_cluster ?t) = Some (NewPID ''h1:80'' ''cluster/n1'')"
    "Address (NewPID ''h1:80'' ''cluster/n1'') = cl_address (sf_cluster ?t)"
    "cluster_ID (sf_cluster example_provider) \<noteq> cluster_ID (sf_cluster ?t)" "z_resolver all_well"
    "z_register all_well (cluster_ID (sf_cluster example_provider)) 80 ''h1''"
    using d by (simp_all add: plain_host_def example_provider_def NewSelfManagedProvider_def cluster_ID_def example_cluster_def cfg_WithID_def all_well_def)
  note t = discovery_roundtrip [OF this]
  have "cluster_ID (sf_cluster example_provider) = ''n1''"
    "memberToProviderPID (cluster_Member (sf_cluster example_provider)) = NewPID ''h1:80'' ''provider/n1''"
    by (simp_all add: example_provider_def NewSelfManagedProvider_def cluster_ID_def example_cluster_def cfg_WithID_def NewConfig_def
        memberToProviderPID_def cluster_Member_def)
  then show ?thesis using t by (intro exI [of _ ?t]) simp
qed

end
