(* ===== verification/ConsulProvider.thy ===== *)
theory ConsulProvider
  imports SelfManaged
begin

section \<open>The Consul provider (cluster/consul_provider.go)\<close>

text \<open>
  The provider that lets a Consul server keep the members: it registers its node as a service,
  renews the service's time to live, and turns every update of the watched service into a list
  of members for its agent. The Consul client is a set of arguments: whether a registration is
  accepted, how the states of a service's checks are aggregated, and when two watch indices are
  equal. A Go map of strings is a HOL map; a missing key reads as the empty string.
\<close>

record registration =
  reg_ID :: string
  reg_Name :: string
  reg_Tags :: "string list"
  reg_Address :: string
  reg_Port :: int
  reg_Meta :: "string \<rightharpoonup> string"
  reg_CheckID :: string
  reg_TTL :: string
  reg_DeregisterAfter :: string

record service_entry =
  ce_Checks :: "string list"
  ce_Address :: string
  ce_Port :: int
  ce_Meta :: "string \<rightharpoonup> string"
  ce_Tags :: "string list"

record ('p, 'v, 'i) consul_provider =
  cp_address :: string
  cp_cluster :: "('p, 'v) cluster"
  cp_id :: string
  cp_prevIndex :: 'i
  cp_closed :: bool

definition NewConsulProviderConfig :: string where
  "NewConsulProviderConfig = ''127.0.0.1:8500''"

definition WithAddress :: "string \<Rightarrow> string \<Rightarrow> string" where
  "WithAddress address c = address"

definition NewConsulProvider :: "string \<Rightarrow> 'i \<Rightarrow> ('p, 'v) cluster \<Rightarrow> ('p, 'v, 'i) consul_provider" where
  "NewConsulProvider cfg zero c = \<lparr>cp_address = cfg, cp_cluster = c, cp_id = [], cp_prevIndex = zero, cp_closed = False\<rparr>"

text \<open>On an error \<open>SplitHostPort\<close> returns empty strings, and the error is ignored.\<close>

definition split_or_empty :: "string \<Rightarrow> string \<times> string" where
  "split_or_empty s = (case SplitHostPort s of None \<Rightarrow> ([], []) | Some hp \<Rightarrow> hp)"

definition memberID :: "('p, 'v, 'i) consul_provider \<Rightarrow> string" where
  "memberID p = (let cfg = cl_config (cp_cluster p); (host, port) = split_or_empty (listenAddr cfg)
     in cfg_id cfg @ ''.'' @ host @ '':'' @ port)"

text \<open>The registration that \<open>registerService\<close> builds; the check's id is stored in the provider.\<close>

definition registerService :: "(registration \<Rightarrow> bool) \<Rightarrow> ('p, 'v, 'i) consul_provider \<Rightarrow> ((('p, 'v, 'i) consul_provider) \<times> registration \<times> bool) res" where
  "registerService accepts p =
     bindR (cluster_Address (cp_cluster p)) (\<lambda>addr.
       let (host, portStr) = split_or_empty addr;
           (port, _) = Atoi portStr;
           reg = \<lparr>reg_ID = memberID p, reg_Name = ''goactors_actor'', reg_Tags = kindsToString (cp_cluster p), reg_Address = host,
                  reg_Port = port, reg_Meta = [''name'' \<mapsto> cfg_id (cl_config (cp_cluster p))], reg_CheckID = memberID p,
                  reg_TTL = ''4s'', reg_DeregisterAfter = ''8s''\<rparr>
       in Inr (p\<lparr>cp_id := memberID p\<rparr>, reg, accepts reg))"

text \<open>
  The update handler. \<open>None\<close> is a message of another type. \<open>aggregate\<close> is
  \<open>Checks.AggregatedStatus\<close>, \<open>same\<close> is \<open>BlockingParamVal.Equal\<close>.
\<close>

definition entry_member :: "service_entry \<Rightarrow> member" where
  "entry_member x = \<lparr>m_ID = (case ce_Meta x ''name'' of None \<Rightarrow> [] | Some n \<Rightarrow> n), m_Host = ce_Address x @ '':'' @ Itoa (ce_Port x),
     m_Region = [], m_Kinds = ce_Tags x\<rparr>"

fun passing_members :: "(string list \<Rightarrow> string) \<Rightarrow> service_entry list \<Rightarrow> member list \<Rightarrow> member list" where
  "passing_members aggregate [] ms = ms"
| "passing_members aggregate (x # xs) ms = passing_members aggregate xs
     (if length (ce_Checks x) > 0 \<and> aggregate (ce_Checks x) = ''passing'' then ms @ [entry_member x] else ms)"

definition onUpdate :: "(string list \<Rightarrow> string) \<Rightarrow> ('i \<Rightarrow> 'i \<Rightarrow> bool) \<Rightarrow> 'i \<Rightarrow> service_entry list option \<Rightarrow>
    ('p, 'v, 'i) consul_provider \<Rightarrow> ('p, 'v, 'i) consul_provider \<times> pcall list" where
  "onUpdate aggregate same index msg p =
     (case msg of
        None \<Rightarrow> (p, [])
      | Some entries \<Rightarrow>
          (let members = passing_members aggregate entries [] in
           (p\<lparr>cp_prevIndex := index\<rparr>,
            if \<not> same (cp_prevIndex p) index \<and> length members > 0 then [PSend (cluster_PID (cp_cluster p)) (Members members)] else [])))"

datatype consul_call = GoWatch | GoUpdateTTL | UpdateTTL string

definition consul_Receive :: "(registration \<Rightarrow> bool) \<Rightarrow> cmsg msg \<Rightarrow> ('p, 'v, 'i) consul_provider \<Rightarrow>
    ('p, 'v, 'i) consul_provider \<times> consul_call list \<times> ending" where
  "consul_Receive accepts m p = (case m of
      Started \<Rightarrow> (case registerService accepts p of
          Inl e \<Rightarrow> (p, [], Panicked e)
        | Inr (p1, reg, ok) \<Rightarrow> if ok then (p1, [GoWatch, GoUpdateTTL], Returned) else (p1, [], PanickedWithError))
    | Stopped \<Rightarrow> if cp_closed p then (p, [], Panicked CloseOfClosed) else (p\<lparr>cp_closed := True\<rparr>, [], Returned)
    | _ \<Rightarrow> (p, [], Returned))"

text \<open>One round of the goroutine \<open>updateTTL\<close>; when both channels are ready the runtime chooses.\<close>

definition updateTTL_round :: "bool \<Rightarrow> ('p, 'v, 'i) consul_provider \<Rightarrow> consul_call list option" where
  "updateTTL_round tick p = (if tick \<or> \<not> cp_closed p then Some [UpdateTTL (cp_id p)] else None)"

text \<open>
  The goroutine \<open>watch\<close>. The package parses the query and runs the plan; \<open>updates\<close> are the calls of the
  handler it makes while it runs, and \<open>run_ok\<close> says that it ended without an error.
\<close>

datatype query_value = QString string | QBool bool

datatype watch_end = WatchReturned | WatchPanicked

definition watch_query :: "string \<rightharpoonup> query_value" where
  "watch_query = [''type'' \<mapsto> QString ''service'', ''service'' \<mapsto> QString ''goactors_actor'', ''passingonly'' \<mapsto> QBool True]"

fun run_updates :: "(string list \<Rightarrow> string) \<Rightarrow> ('i \<Rightarrow> 'i \<Rightarrow> bool) \<Rightarrow> ('i \<times> service_entry list option) list \<Rightarrow>
    ('p, 'v, 'i) consul_provider \<Rightarrow> ('p, 'v, 'i) consul_provider \<times> pcall list" where
  "run_updates aggregate same [] p = (p, [])"
| "run_updates aggregate same ((index, msg) # us) p =
     (let (p1, cs) = onUpdate aggregate same index msg p; (p2, ds) = run_updates aggregate same us p1 in (p2, cs @ ds))"

definition watch :: "((string \<rightharpoonup> query_value) \<Rightarrow> bool) \<Rightarrow> (string list \<Rightarrow> string) \<Rightarrow> ('i \<Rightarrow> 'i \<Rightarrow> bool) \<Rightarrow>
    ('i \<times> service_entry list option) list \<Rightarrow> bool \<Rightarrow> ('p, 'v, 'i) consul_provider \<Rightarrow> ('p, 'v, 'i) consul_provider \<times> pcall list \<times> watch_end" where
  "watch parse aggregate same updates run_ok p =
     (if \<not> parse watch_query then (p, [], WatchReturned)
      else let (p1, cs) = run_updates aggregate same updates p in (p1, cs, if run_ok then WatchReturned else WatchPanicked))"

subsection \<open>Properties\<close>

lemma passing_members_eq:
  "passing_members aggregate xs ms = ms @ map entry_member (filter (\<lambda>x. ce_Checks x \<noteq> [] \<and> aggregate (ce_Checks x) = ''passing'') xs)"
  by (induction xs arbitrary: ms) auto

text \<open>
  What the provider relies on of the Consul server. \<open>catalog\<close> gives the entry that the server shows
  the watchers for a registered service whose checks have the given states. The entry has these
  states and the service's port, metadata and tags as they were registered, and its address
  unless that is empty.
\<close>

definition shows_registered :: "(registration \<Rightarrow> string list \<Rightarrow> service_entry) \<Rightarrow> bool" where
  "shows_registered catalog \<longleftrightarrow> (\<forall>reg checks. ce_Checks (catalog reg checks) = checks
     \<and> (reg_Address reg \<noteq> [] \<longrightarrow> ce_Address (catalog reg checks) = reg_Address reg) \<and> ce_Port (catalog reg checks) = reg_Port reg
     \<and> ce_Meta (catalog reg checks) = reg_Meta reg \<and> ce_Tags (catalog reg checks) = reg_Tags reg)"

text \<open>
  C21. How a node appears to the others through Consul. A node whose address has a host and a
  port registers, and once its checks pass, a Consul server that shows services as they were
  registered makes another node's agent receive a member with the node's id and kinds, no
  region, and the host and port joined by a colon. If the address was written without brackets
  that is the node's address, so the PIDs computed from the member reach the node. If it has
  brackets, as IPv6 addresses do, they are lost: the member has another address, and neither
  its agent nor its provider can be reached under it.
\<close>

theorem consul_roundtrip:
  fixes p :: "('p, 'v, 'i) consul_provider" and other :: "('q, 'w, 'j) consul_provider"
  assumes "shows_registered catalog" "SplitHostPort (cl_address (cp_cluster p)) = Some (host, Itoa port)" "host \<noteq> []" "0 \<le> port" "port < 2 ^ 63"
    "cl_agentPID (cp_cluster p) = Some q" "Address q = cl_address (cp_cluster p)"
    "checks \<noteq> []" "aggregate checks = ''passing''" "\<not> same (cp_prevIndex other) index"
  shows "\<exists>p' reg m. registerService accepts p = Inr (p', reg, accepts reg)
    \<and> snd (onUpdate aggregate same index (Some [catalog reg checks]) other) = [PSend (cl_agentPID (cp_cluster other)) (Members [m])]
    \<and> m = (cluster_Member (cp_cluster p))\<lparr>m_Region := [], m_Host := host @ '':'' @ Itoa port\<rparr>
    \<and> (if hd (cl_address (cp_cluster p)) \<noteq> CHR ''[''
       then m_Host m = cl_address (cp_cluster p) \<and> member_PID m = member_PID (cluster_Member (cp_cluster p))
         \<and> memberToProviderPID m = memberToProviderPID (cluster_Member (cp_cluster p))
       else m_Host m \<noteq> cl_address (cp_cluster p) \<and> member_PID m \<noteq> member_PID (cluster_Member (cp_cluster p))
         \<and> memberToProviderPID m \<noteq> memberToProviderPID (cluster_Member (cp_cluster p)))"
proof -
  let ?c = "cp_cluster p" and ?m = "(cluster_Member (cp_cluster p))\<lparr>m_Region := [], m_Host := host @ '':'' @ Itoa port\<rparr>"
  obtain p' reg where r: "registerService accepts p = Inr (p', reg, accepts reg)" "reg_Address reg = host" "reg_Port reg = port"
    "reg_Meta reg = [''name'' \<mapsto> cfg_id (cl_config ?c)]" "reg_Tags reg = kindsToString ?c"
    using assms(2,6,7) Atoi_Itoa [OF assms(4,5)] by (simp add: registerService_def cluster_Address_def split_or_empty_def Let_def)
  have "entry_member (catalog reg checks) = ?m" "ce_Checks (catalog reg checks) = checks"
    using assms(1,3) r by (simp_all add: shows_registered_def entry_member_def cluster_Member_def kindsToString_def)
  then have u: "snd (onUpdate aggregate same index (Some [catalog reg checks]) other) = [PSend (cl_agentPID (cp_cluster other)) (Members [?m])]"
    using assms(8-10) by (simp add: onUpdate_def cluster_PID_def)
  have a: "cl_address ?c = (if hd (cl_address ?c) = CHR ''['' then ''['' @ host @ '']:'' @ Itoa port else host @ '':'' @ Itoa port)"
    by (rule SplitHostPort_parts [OF assms(2)])
  have "length (''['' @ host @ '']:'' @ Itoa port) \<noteq> length (host @ '':'' @ Itoa port)" by simp
  then have "''['' @ host @ '']:'' @ Itoa port \<noteq> host @ '':'' @ Itoa port" by metis
  moreover have "m_Host (cluster_Member ?c) = cl_address ?c" "m_ID ?m = m_ID (cluster_Member ?c)" by (simp_all add: cluster_Member_def)
  ultimately show ?thesis using r(1) u a
    by (intro exI [of _ p'] exI [of _ reg] exI [of _ ?m]) (auto simp: member_PID_def memberToProviderPID_def)
qed

text \<open>Which of a series of updates the agent is told of: those whose index is new and that have a passing entry.\<close>

definition news :: "(string list \<Rightarrow> string) \<Rightarrow> service_entry list \<Rightarrow> member list" where
  "news aggregate xs = map entry_member (filter (\<lambda>x. ce_Checks x \<noteq> [] \<and> aggregate (ce_Checks x) = ''passing'') xs)"

fun told :: "(string list \<Rightarrow> string) \<Rightarrow> ('i \<Rightarrow> 'i \<Rightarrow> bool) \<Rightarrow> 'i \<Rightarrow> ('i \<times> service_entry list option) list \<Rightarrow> member list list" where
  "told aggregate same prev [] = []"
| "told aggregate same prev ((index, None) # us) = told aggregate same prev us"
| "told aggregate same prev ((index, Some xs) # us) =
     (if \<not> same prev index \<and> news aggregate xs \<noteq> [] then [news aggregate xs] else []) @ told aggregate same index us"

lemma run_updates_told:
  "run_updates aggregate same us p = (p', cs) \<Longrightarrow>
     cs = map (\<lambda>ms. PSend (cluster_PID (cp_cluster p)) (Members ms)) (told aggregate same (cp_prevIndex p) us) \<and> cp_cluster p' = cp_cluster p \<and> cp_closed p' = cp_closed p"
proof (induction us arbitrary: p cs)
  case (Cons u us)
  obtain index msg where u: "u = (index, msg)" by fastforce
  obtain p1 c1 p2 c2 where o: "onUpdate aggregate same index msg p = (p1, c1)" "run_updates aggregate same us p1 = (p2, c2)" by fastforce
  have c: "p' = p2" "cs = c1 @ c2" using Cons.prems u o by simp_all
  show ?case using Cons.IH [OF o(2) [folded c(1)]] o(1) u c by (cases msg) (auto simp: onUpdate_def passing_members_eq news_def Let_def)
qed simp

lemma told_all_news:
  "distinct (prev # map fst us) \<Longrightarrow> told aggregate (=) prev us = filter (\<lambda>ms. ms \<noteq> []) (map (news aggregate) (List.map_filter snd us))"
proof (induction us arbitrary: prev)
  case (Cons u us)
  obtain index msg where u: "u = (index, msg)" by fastforce
  show ?case using Cons by (cases msg) (auto simp: u List.map_filter_simps)
qed (simp add: List.map_filter_simps)

text \<open>
  C36. The watch feeds the agent. While the plan runs, and however it ends, the agent is sent, in
  order, the passing members of every update of services whose index is new, as long as there is
  one. That the provider was stopped makes no difference: nothing ends the watch, and the
  agent of a node whose provider has been stopped is still told of members.
\<close>

theorem watch_feeds_agent:
  fixes p :: "('p, 'v, 'i) consul_provider"
  assumes "parse watch_query" "distinct (cp_prevIndex p # map fst us)" "watch parse aggregate (=) us run_ok p = (p', cs, r)"
  shows "cs = map (\<lambda>ms. PSend (cluster_PID (cp_cluster p)) (Members ms)) (filter (\<lambda>ms. ms \<noteq> []) (map (news aggregate) (List.map_filter snd us)))
    \<and> (r = WatchPanicked \<longleftrightarrow> \<not> run_ok)
    \<and> fst (snd (watch parse aggregate (=) us run_ok (fst (consul_Receive accepts Stopped p)))) = cs"
proof -
  have told: "fst (snd (watch parse aggregate (=) us run_ok x)) = map (\<lambda>ms. PSend (cluster_PID (cp_cluster x)) (Members ms)) (told aggregate (=) (cp_prevIndex x) us)" for x :: "('p, 'v, 'i) consul_provider"
    using assms(1) run_updates_told [of aggregate "(=)" us x] by (auto simp: watch_def split: prod.split)
  have "cp_cluster (fst (consul_Receive accepts Stopped p)) = cp_cluster p" "cp_prevIndex (fst (consul_Receive accepts Stopped p)) = cp_prevIndex p"
    by (simp_all add: consul_Receive_def)
  moreover have "r = WatchPanicked \<longleftrightarrow> \<not> run_ok" using assms(1,3) by (auto simp: watch_def split: prod.splits)
  ultimately show ?thesis using told [of p] told [of "fst (consul_Receive accepts Stopped p)"] assms(3) told_all_news [OF assms(2), of aggregate] by simp
qed

definition example_consul :: "string \<Rightarrow> (nat, unit, nat) consul_provider" where
  "example_consul i = NewConsulProvider NewConsulProviderConfig 0
     (example_cluster\<lparr>cl_address := ''h1:80'', cl_config := cfg_WithID i (cl_config example_cluster), cl_agentPID := Some (NewPID ''h1:80'' ''cluster/n1'')\<rparr>)"

definition example_catalog :: "registration \<Rightarrow> string list \<Rightarrow> service_entry" where
  "example_catalog reg checks = \<lparr>ce_Checks = checks, ce_Address = reg_Address reg, ce_Port = reg_Port reg, ce_Meta = reg_Meta reg, ce_Tags = reg_Tags reg\<rparr>"

theorem consul_roundtrip_witness:
  "\<exists>p' reg m. registerService (\<lambda>_. True) (example_consul ''n1'') = Inr (p', reg, True)
    \<and> snd (onUpdate hd (=) 1 (Some [example_catalog reg [''passing'']]) (example_consul ''n2'')) = [PSend (Some (NewPID ''h1:80'' ''cluster/n1'')) (Members [m])]
    \<and> m_ID m = ''n1'' \<and> m_Host m = ''h1:80''"
proof -
  have d: "Itoa 80 = ''80''" by code_simp
  have "shows_registered example_catalog" by (simp add: shows_registered_def example_catalog_def)
  moreover have "SplitHostPort (cl_address (cp_cluster (example_consul ''n1''))) = Some (''h1'', Itoa 80)"
    by (simp add: d example_consul_def NewConsulProvider_def SplitHostPort_def)
  moreover have "''h1'' \<noteq> []" "(0::int) \<le> 80" "(80::int) < 2 ^ 63"
    "cl_agentPID (cp_cluster (example_consul ''n1'')) = Some (NewPID ''h1:80'' ''cluster/n1'')"
    "Address (NewPID ''h1:80'' ''cluster/n1'') = cl_address (cp_cluster (example_consul ''n1''))"
    "[''passing''] \<noteq> []" "hd [''passing''] = ''passing''" "\<not> cp_prevIndex (example_consul ''n2'') = 1"
    by (simp_all add: example_consul_def NewConsulProvider_def)
  ultimately obtain p' reg m where "registerService (\<lambda>_. True) (example_consul ''n1'') = Inr (p', reg, True)"
    "snd (onUpdate hd (=) 1 (Some [example_catalog reg [''passing'']]) (example_consul ''n2'')) = [PSend (cl_agentPID (cp_cluster (example_consul ''n2''))) (Members [m])]"
    "m = (cluster_Member (cp_cluster (example_consul ''n1'')))\<lparr>m_Region := [], m_Host := ''h1'' @ '':'' @ Itoa 80\<rparr>"
    using consul_roundtrip [where aggregate = hd and same = "(=)" and checks = "[''passing'']" and index = 1
      and other = "example_consul ''n2''" and accepts = "\<lambda>_. True" and catalog = example_catalog and p = "example_consul ''n1''"
      and host = "''h1''" and port = 80 and q = "NewPID ''h1:80'' ''cluster/n1''"] by blast
  then show ?thesis by (auto simp: d example_consul_def NewConsulProvider_def cluster_Member_def cfg_WithID_def)
qed

text \<open>
  What the watch reports. The agent is sent the nodes whose checks pass, in the order Consul
  lists them, exactly when the index changed and there is at least one; the index is remembered
  in any case. So when the last passing node disappears the agent is told nothing and keeps its
  members, and the index that would have reported it is used up.
\<close>

theorem consul_update_reports:
  assumes "onUpdate aggregate same index (Some entries) p = (p', cs)"
  shows "cp_prevIndex p' = index \<and> cp_cluster p' = cp_cluster p \<and>
    (let ms = map entry_member (filter (\<lambda>x. ce_Checks x \<noteq> [] \<and> aggregate (ce_Checks x) = ''passing'') entries) in
     cs = (if same (cp_prevIndex p) index \<or> ms = [] then [] else [PSend (cl_agentPID (cp_cluster p)) (Members ms)]))
    \<and> (same index index \<longrightarrow> snd (onUpdate aggregate same index (Some entries') p') = [])"
  using assms by (auto simp: onUpdate_def passing_members_eq cluster_PID_def Let_def)

theorem consul_update_reports_witness:
  "snd (onUpdate hd (=) 1 (Some []) (example_consul ''n1'')) = []"
proof -
  obtain p' cs where h: "onUpdate hd (=) 1 (Some []) (example_consul ''n1'') = (p', cs)" by fastforce
  show ?thesis using consul_update_reports [OF h, of "[]"] h by simp
qed

theorem watch_feeds_agent_witness:
  "fst (snd (watch (\<lambda>_. True) (\<lambda>_. ''passing'') (=)
       [(1, Some [\<lparr>ce_Checks = [''ok''], ce_Address = ''h2'', ce_Port = 80, ce_Meta = [''name'' \<mapsto> ''B''], ce_Tags = []\<rparr>]), (2, None), (3, Some [])] True
       (fst (consul_Receive (\<lambda>_. True) Stopped (example_consul ''A'')))))
   = [PSend (Some (NewPID ''h1:80'' ''cluster/n1'')) (Members [\<lparr>m_ID = ''B'', m_Host = ''h2:80'', m_Region = [], m_Kinds = []\<rparr>])]"
proof -
  let ?us = "[(1, Some [\<lparr>ce_Checks = [''ok''], ce_Address = ''h2'', ce_Port = 80, ce_Meta = [''name'' \<mapsto> ''B''], ce_Tags = []\<rparr>]), (2, None), (3, Some [])]"
  obtain p' cs r where w: "watch (\<lambda>_. True) (\<lambda>_. ''passing'') (=) ?us True (example_consul ''A'') = (p', cs, r)" by (metis prod_cases3)
  have d: "distinct (cp_prevIndex (example_consul ''A'') # map fst ?us)" by (simp add: example_consul_def NewConsulProvider_def)
  have i: "Itoa 80 = ''80''" by code_simp
  from watch_feeds_agent [OF _ d w, of "\<lambda>_. True"] show ?thesis
    by (simp add: news_def entry_member_def i List.map_filter_simps cluster_PID_def example_consul_def NewConsulProvider_def)
qed

end
