(* ===== verification/AppActor.thy ===== *)
theory AppActor
  imports ActorContext
begin

section \<open>Actors of an application on the engine\<close>

text \<open>
  The programs under examples are actors whose handlers call the engine. A handler is a step on
  the engine that returns a value or halts: with a panic, blocked for good on a full response
  channel, or in the endless recursion of a send without an event stream. What it did to the
  engine before it halted stays. The theory gives the sequencing of such steps and one lemma that
  all the applications share: what a series of sends puts into which inbox.
\<close>

datatype halt = HPanic go_panic | HBlocked | HLoop

type_synonym ('m, 'a) act = "'m engine \<Rightarrow> (halt + 'a) \<times> 'm engine"

definition ret :: "'a \<Rightarrow> ('m, 'a) act" where
  "ret x e = (Inr x, e)"

definition bindA :: "('m, 'a) act \<Rightarrow> ('a \<Rightarrow> ('m, 'b) act) \<Rightarrow> ('m, 'b) act" where
  "bindA f g e = (case f e of (Inl x, e') \<Rightarrow> (Inl x, e') | (Inr a, e') \<Rightarrow> g a e')"

definition of_res :: "'a res \<Rightarrow> ('m, 'a) act" where
  "of_res r e = (case r of Inl p \<Rightarrow> (Inl (HPanic p), e) | Inr x \<Rightarrow> (Inr x, e))"

fun of_send :: "send_out \<times> 'm engine \<Rightarrow> (halt + unit) \<times> 'm engine" where
  "of_send (SDone, e) = (Inr (), e)"
| "of_send (SBlocked, e) = (Inl HBlocked, e)"
| "of_send (SLoop, e) = (Inl HLoop, e)"

definition a_Send :: "pid option \<Rightarrow> 'm msg \<Rightarrow> pid option \<Rightarrow> ('m, unit) act" where
  "a_Send q m src e = of_send (SendWithSender q m src e)"

definition a_Poison :: "pid option \<Rightarrow> ('m, nat) act" where
  "a_Poison q e = (case Poison q e of (ctx, r) \<Rightarrow> bindA (\<lambda>_. of_send r) (\<lambda>_. ret ctx) e)"

definition a_SpawnChild :: "string \<Rightarrow> (('u, 'm, 'x) opts \<Rightarrow> ('u, 'm, 'x) opts) list \<Rightarrow> nat \<Rightarrow> ('u, 'm, 'x) opts \<Rightarrow>
    'm actor_context \<Rightarrow> ('m, pid \<times> 'm actor_context) act" where
  "a_SpawnChild name fs random op c e =
     (case SpawnChild name fs random op c e of (q, r, c', e') \<Rightarrow> bindA (\<lambda>_. of_send (r, e')) (\<lambda>_. ret (q, c')) e)"

fun a_each :: "('x \<Rightarrow> ('m, unit) act) \<Rightarrow> 'x list \<Rightarrow> ('m, unit) act" where
  "a_each f [] = ret ()"
| "a_each f (x # xs) = bindA (f x) (\<lambda>_. a_each f xs)"

text \<open>\<open>Send\<close> and \<open>Poison\<close> on a nil \<open>*Engine\<close>: \<open>send\<close> returns for a nil PID before it reads the engine.\<close>

definition a_nil_Send :: "pid option \<Rightarrow> ('m, unit) act" where
  "a_nil_Send q = (case q of None \<Rightarrow> ret () | Some _ \<Rightarrow> of_res (Inl NilDeref))"

lemma bindA_simps [simp]:
  "bindA (ret x) g = g x"
  "bindA (of_res (Inr x)) g = g x"
  "bindA (of_res (Inl p)) g = of_res (Inl p)"
  "bindA f ret = f"
  by (auto simp: bindA_def ret_def of_res_def fun_eq_iff split: prod.split sum.split)

lemma bindA_assoc: "bindA (bindA f g) h = bindA f (\<lambda>x. bindA (g x) h)"
  by (auto simp: bindA_def fun_eq_iff split: prod.split sum.split)

lemma bindA_run:
  "f e = (Inr x, e') \<Longrightarrow> bindA f g e = g x e'"
  "f e = (Inl y, e') \<Longrightarrow> bindA f g e = (Inl y, e')"
  by (simp_all add: bindA_def)

lemma bindA_Inr: "bindA f g e = (Inr y, e') \<longleftrightarrow> (\<exists>x e1. f e = (Inr x, e1) \<and> g x e1 = (Inr y, e'))"
  by (auto simp: bindA_def split: prod.splits sum.splits)

subsection \<open>Children\<close>

text \<open>The PID of a child without and with an id among its options.\<close>

lemma SpawnChild_plain:
  "SpawnChild name [] random (DefaultOpts f r) c e =
     (let q = NewPID (e_address e) (ID (c_pid c) @ pidSeparator @ name @ pidSeparator @ Itoa (int random));
          (q', r, e1) = SpawnProc (ProcObj q []) e
      in (q, r, c\<lparr>c_children := sm_Set (ID q') q' (c_children c)\<rparr>, e1))"
  by (simp add: SpawnChild_def spawn_opts_def DefaultOpts_def Let_def)

lemma SpawnChild_WithID:
  "i \<noteq> [] \<Longrightarrow> SpawnChild name [WithID i] random (DefaultOpts f r) c e =
     (let q = NewPID (e_address e) (ID (c_pid c) @ pidSeparator @ name @ pidSeparator @ i);
          (q', r, e1) = SpawnProc (ProcObj q []) e
      in (q, r, c\<lparr>c_children := sm_Set (ID q') q' (c_children c)\<rparr>, e1))"
  by (simp add: SpawnChild_def spawn_opts_def DefaultOpts_def WithID_def Let_def)

lemma SpawnProc_pid: "fst (SpawnProc p e) = obj_pid p"
  by (simp add: SpawnProc_def Let_def split: prod.split)

subsection \<open>What a series of sends delivers\<close>

text \<open>Sends change neither who is registered nor whether there is a remote, so not the routes either.\<close>

definition same_routes :: "'m engine \<Rightarrow> 'm engine \<Rightarrow> bool" where
  "same_routes e e' \<longleftrightarrow> same_shape e e' \<and> (e_remote e' = None \<longleftrightarrow> e_remote e = None)"

lemma same_routes_refl [simp]: "same_routes e e"
  by (simp add: same_routes_def)

lemma same_routes_trans: "same_routes a b \<Longrightarrow> same_routes b c \<Longrightarrow> same_routes a c"
  unfolding same_routes_def same_shape_def by metis

lemma same_routes_route: "same_routes e e' \<Longrightarrow> route es h q m src e' = route es h q m src e"
  unfolding same_routes_def same_shape_def route_def by (auto split: option.split)

text \<open>A letter: its target, message and sender; it is good when it ends up at an actor process, on
  the network or nowhere.\<close>

type_synonym 'm letter = "pid option \<times> 'm msg \<times> pid option"

definition good_letter :: "pid \<Rightarrow> nat \<Rightarrow> 'm engine \<Rightarrow> 'm letter \<Rightarrow> bool" where
  "good_letter es h e l = (case l of (q, m, src) \<Rightarrow> (case route es h q m src e of
      Handed g _ _ _ \<Rightarrow> (\<exists>p mb. e_heap e g = ProcObj p mb) | _ \<Rightarrow> True))"

text \<open>What the letters put into the inbox of processer \<open>g\<close>.\<close>

definition mail_for :: "pid \<Rightarrow> nat \<Rightarrow> 'm engine \<Rightarrow> nat \<Rightarrow> 'm letter \<Rightarrow> 'm envelope list" where
  "mail_for es h e g l = (case l of (q, m, src) \<Rightarrow> (case route es h q m src e of
      Handed k _ m' src' \<Rightarrow> if k = g then [\<lparr>Msg = m', Sender = src'\<rparr>] else [] | _ \<Rightarrow> []))"

text \<open>What they hand to the remote.\<close>

definition wire_for :: "pid \<Rightarrow> nat \<Rightarrow> 'm engine \<Rightarrow> 'm letter \<Rightarrow> (pid \<times> 'm msg \<times> pid option) list" where
  "wire_for es h e l = (case l of (q, m, src) \<Rightarrow> (case route es h q m src e of OverNetwork p m' src' \<Rightarrow> [(p, m', src')] | _ \<Rightarrow> []))"

definition wired :: "(pid \<times> 'm msg \<times> pid option) list \<Rightarrow> 'm engine \<Rightarrow> 'm engine \<Rightarrow> bool" where
  "wired ws e e' \<longleftrightarrow> e_remote e' = map_option (\<lambda>rm. rm\<lparr>rem_sent := rem_sent rm @ ws\<rparr>) (e_remote e)"

lemma wired_Nil [simp]: "wired [] e e' \<longleftrightarrow> e_remote e' = e_remote e"
  by (cases "e_remote e") (auto simp: wired_def)

lemma wired_append: "wired ws e e1 \<Longrightarrow> wired ws' e1 e2 \<Longrightarrow> wired (ws @ ws') e e2"
  by (cases "e_remote e") (auto simp: wired_def)

definition post_all :: "'m letter list \<Rightarrow> ('m, unit) act" where
  "post_all = a_each (\<lambda>(q, m, src). a_Send q m src)"

lemma post_all_simps:
  "post_all [] e = (Inr (), e)"
  "post_all ((q, m, src) # ls) e = bindA (a_Send q m src) (\<lambda>_. post_all ls) e"
  by (simp_all add: post_all_def ret_def)

lemma post_one:
  assumes "stream_ok es h e" "good_letter es h e (q, m, src)"
  obtains e' where "a_Send q m src e = (Inr (), e')" "same_routes e e'"
    "\<forall>g p mb. e_heap e g = ProcObj p mb \<longrightarrow> e_heap e' g = ProcObj p (mb @ mail_for es h e g (q, m, src))"
    "wired (wire_for es h e (q, m, src)) e e'"
proof (cases "route es h q m src e")
  case Nowhere
  then have "a_Send q m src e = (Inr (), e)" using SendWithSender_arrives [OF assms(1)] by (simp add: a_Send_def arrive_def)
  then show ?thesis using that [of e] Nowhere by (simp add: mail_for_def wire_for_def)
next
  case (Handed k q' m' src')
  obtain p mb where k: "e_heap e k = ProcObj p mb" using assms(2) Handed by (auto simp: good_letter_def)
  let ?e = "e\<lparr>e_heap := (e_heap e)(k := ProcObj p (mb @ [\<lparr>Msg = m', Sender = src'\<rparr>]))\<rparr>"
  have "a_Send q m src e = (Inr (), ?e)"
    using SendWithSender_arrives [OF assms(1)] Handed k by (simp add: a_Send_def arrive_def proc_send_def)
  moreover have "same_routes e ?e" using k by (auto simp: same_routes_def same_shape_def)
  ultimately show ?thesis using that [of ?e] Handed k by (auto simp: mail_for_def wire_for_def)
next
  case (OverNetwork p m' src')
  let ?e = "e\<lparr>e_remote := map_option (\<lambda>rm. rm\<lparr>rem_sent := rem_sent rm @ [(p, m', src')]\<rparr>) (e_remote e)\<rparr>"
  have "a_Send q m src e = (Inr (), ?e)"
    using SendWithSender_arrives [OF assms(1)] OverNetwork by (simp add: a_Send_def arrive_def)
  moreover have "same_routes e ?e" by (auto simp: same_routes_def same_shape_def)
  ultimately show ?thesis using that [of ?e] OverNetwork by (auto simp: mail_for_def wire_for_def wired_def)
qed

lemma same_routes_proc: "same_routes e e' \<Longrightarrow> e_heap e g = ProcObj p mb \<Longrightarrow> \<exists>mb'. e_heap e' g = ProcObj p mb'"
  by (auto simp: same_routes_def same_shape_def)

lemma same_routes_letters:
  assumes "same_routes e e'"
  shows "good_letter es h e l \<Longrightarrow> good_letter es h e' l" "mail_for es h e' g = mail_for es h e g"
    "wire_for es h e' = wire_for es h e"
proof -
  show "wire_for es h e' = wire_for es h e" by (simp add: fun_eq_iff wire_for_def same_routes_route [OF assms])
  show "mail_for es h e' g = mail_for es h e g" by (simp add: fun_eq_iff mail_for_def same_routes_route [OF assms])
  obtain q m src where l: "l = (q, m, src)" by (metis prod_cases3)
  show "good_letter es h e l \<Longrightarrow> good_letter es h e' l"
    using same_routes_proc [OF assms] same_routes_route [OF assms, of es h q m src]
    by (cases "route es h q m src e") (auto simp: l good_letter_def, blast)
qed

lemma post_all_delivers:
  assumes "stream_ok es h e" "\<forall>l \<in> set ls. good_letter es h e l"
  shows "\<exists>e'. post_all ls e = (Inr (), e') \<and> same_routes e e' \<and> wired (concat (map (wire_for es h e) ls)) e e' \<and>
     (\<forall>g p mb. e_heap e g = ProcObj p mb \<longrightarrow> e_heap e' g = ProcObj p (mb @ concat (map (mail_for es h e g) ls)))"
  using assms
proof (induction ls arbitrary: e)
  case Nil
  then show ?case by (simp add: post_all_simps)
next
  case (Cons l ls)
  obtain q m src where l: "l = (q, m, src)" by (metis prod_cases3)
  obtain e1 where e1: "a_Send q m src e = (Inr (), e1)" "same_routes e e1"
    "\<forall>g p mb. e_heap e g = ProcObj p mb \<longrightarrow> e_heap e1 g = ProcObj p (mb @ mail_for es h e g l)" "wired (wire_for es h e l) e e1"
    using post_one [OF Cons.prems(1), of q m src] Cons.prems(2) l by auto
  have s1: "stream_ok es h e1" using same_shape_stream Cons.prems(1) e1(2) by (auto simp: same_routes_def)
  have "\<forall>l \<in> set ls. good_letter es h e1 l" using Cons.prems(2) same_routes_letters(1) [OF e1(2)] by auto
  from Cons.IH [OF s1 this] obtain e' where e': "post_all ls e1 = (Inr (), e')" "same_routes e1 e'"
    "\<forall>g p mb. e_heap e1 g = ProcObj p mb \<longrightarrow> e_heap e' g = ProcObj p (mb @ concat (map (mail_for es h e1 g) ls))"
    "wired (concat (map (wire_for es h e1) ls)) e1 e'" by blast
  have "e_heap e' g = ProcObj p (mb @ concat (map (mail_for es h e g) (l # ls)))" if "e_heap e g = ProcObj p mb" for g p mb
    using that e1(3) e'(3) same_routes_letters(2) [OF e1(2)] by simp
  moreover have "wired (concat (map (wire_for es h e) (l # ls))) e e'"
    using wired_append [OF e1(4) e'(4)] same_routes_letters(3) [OF e1(2)] by simp
  ultimately show ?case using e1(1) e'(1) same_routes_trans [OF e1(2) e'(2)] l by (auto simp: post_all_simps bindA_run)
qed

text \<open>Whatever the sends end in, they do not change who is registered or started.\<close>

lemma snd_of_send: "snd (of_send r) = snd r"
  by (cases r rule: of_send.cases) simp_all

lemma same_shape_trans: "same_shape a b \<Longrightarrow> same_shape b c \<Longrightarrow> same_shape a c"
  unfolding same_shape_def by metis

lemma post_all_shape: "same_shape e (snd (post_all ls e))"
proof (induction ls arbitrary: e)
  case (Cons l ls)
  obtain q m src where l: "l = (q, m, src)" by (metis prod_cases3)
  have s: "same_shape e (snd (a_Send q m src e))" by (simp add: a_Send_def snd_of_send SendWithSender_def sends_shape)
  then show ?case using same_shape_trans [OF s Cons] by (auto simp: l post_all_simps bindA_def split: prod.split sum.split)
qed (simp add: post_all_simps)

text \<open>An actor process of this engine, and that letters to such processes are good.\<close>

definition local_actor :: "pid \<Rightarrow> nat \<Rightarrow> 'm engine \<Rightarrow> bool" where
  "local_actor q g e \<longleftrightarrow> Address q = e_address e \<and> reg_get (Some q) (e_Registry e) = Some g \<and> (\<exists>mb. e_heap e g = ProcObj q mb)"

lemma local_actor_route: "local_actor q g e \<Longrightarrow> route es h (Some q) m src e = Handed g (Some q) m src"
  by (simp add: local_actor_def route_def)

lemma local_actor_good: "local_actor q g e \<Longrightarrow> good_letter es h e (Some q, m, src)"
  by (auto simp: good_letter_def local_actor_route) (auto simp: local_actor_def)

lemma local_actor_mail:
  "local_actor q k e \<Longrightarrow> mail_for es h e g (Some q, m, src) = (if k = g then [\<lparr>Msg = m, Sender = src\<rparr>] else [])"
  by (simp add: mail_for_def local_actor_route)

lemma same_routes_actor: "same_routes e e' \<Longrightarrow> local_actor q g e \<Longrightarrow> local_actor q g e'"
  unfolding same_routes_def same_shape_def local_actor_def by metis

text \<open>A letter to nobody, and a letter to a stopped local process: a dead letter for the event stream.\<close>

lemma nil_letter [simp]: "good_letter es h e (None, m, src)" "mail_for es h e g (None, m, src) = []"
  by (simp_all add: good_letter_def mail_for_def route_def)

lemma dead_letter:
  assumes "stream_ok es h e" "dead_sub q e"
  shows "good_letter es h e (Some q, m, src)"
    "mail_for es h e g (Some q, m, src) = (if h = g then [\<lparr>Msg = DeadLetterEvent (Some q) m src, Sender = None\<rparr>] else [])"
  using assms by (auto simp: good_letter_def mail_for_def route_def dead_sub_def stream_ok_def)

text \<open>Sending one letter to a local actor appends it to that actor's inbox and changes nothing else.\<close>

lemma a_Send_local:
  assumes "stream_ok es h e" "local_actor q g e" "e_heap e g = ProcObj q mb"
  shows "a_Send (Some q) m src e = (Inr (), e\<lparr>e_heap := (e_heap e)(g := ProcObj q (mb @ [\<lparr>Msg = m, Sender = src\<rparr>]))\<rparr>)"
  using SendWithSender_arrives [OF assms(1)] assms(3) local_actor_route [OF assms(2)]
  by (simp add: a_Send_def arrive_def proc_send_def)

lemma a_Poison_local:
  assumes "local_actor q g e" "e_heap e g = ProcObj q mb"
  shows "a_Poison (Some q) e = (Inr (e_contexts e), e\<lparr>e_contexts := Suc (e_contexts e),
     e_heap := (e_heap e)(g := ProcObj q (mb @ [\<lparr>Msg = PoisonPill (Some (e_contexts e)) True, Sender = None\<rparr>]))\<rparr>)"
  using assms by (simp add: a_Poison_def Poison_def sendPoisonPill_def local_actor_def bindA_def ret_def proc_send_def send_fuel_def eval_nat_numeral Let_def)

lemma local_actor_size: "eng_inv e \<Longrightarrow> local_actor p k e \<Longrightarrow> k < e_size e"
  by (auto simp: local_actor_def eng_inv_def reg_get_def split: option.splits if_splits)

text \<open>Spawning under a free id makes a local actor with an empty inbox and keeps the others.\<close>

lemma SpawnProc_actor:
  assumes "eng_inv e" "stream_ok es h e" "Address q = e_address e" "reg_lookup (e_Registry e) (ID q) = None"
  obtains e' where "SpawnProc (ProcObj q []) e = (q, SDone, e')" "eng_inv e'" "stream_ok es h e'" "local_actor q (e_size e) e'"
    "e_heap e' = (e_heap e)(e_size e := ProcObj q [])" "e_size e' = Suc (e_size e)" "e_address e' = e_address e"
    "reg_lookup (e_Registry e') = (reg_lookup (e_Registry e))(ID q \<mapsto> e_size e)"
    "\<forall>p k. local_actor p k e \<and> ID p \<noteq> ID q \<longrightarrow> local_actor p k e'"
proof -
  define e' where "e' = e\<lparr>e_heap := (e_heap e)(e_size e := ProcObj q []), e_size := Suc (e_size e),
     e_Registry := (e_Registry e)\<lparr>reg_lookup := (reg_lookup (e_Registry e))(ID q \<mapsto> e_size e)\<rparr>, e_started := e_started e @ [e_size e]\<rparr>"
  have sp: "SpawnProc (ProcObj q []) e = (q, SDone, e')" using SpawnProc_free [OF assms(1)] assms(4) by (simp add: e'_def)
  have "h < e_size e" using assms(1,2) by (auto simp: eng_inv_def stream_ok_def)
  then have "stream_ok es h e'" using assms(2,4) by (auto simp: stream_ok_def e'_def)
  moreover have "eng_inv e'" using SpawnProc_inv [OF assms(1), of "ProcObj q []"] sp by simp
  moreover have "local_actor q (e_size e) e'" using assms(3) by (simp add: local_actor_def e'_def reg_get_def)
  moreover have "local_actor p k e'" if "local_actor p k e" "ID p \<noteq> ID q" for p k
    using that local_actor_size [OF assms(1) that(1)] by (auto simp: local_actor_def e'_def reg_get_def split: option.splits if_splits)
  ultimately show ?thesis using that [of e'] sp by (simp add: e'_def)
qed

end
