(* ===== verification/Float64.thy ===== *)
theory Float64
  imports Main "HOL-Library.Log_Nat"
begin

section \<open>Integers as floating point numbers\<close>

text \<open>
  A \<open>float64\<close> that holds an integer is that integer. The format keeps 53 bits; the conversion of
  an integer and the sum of two such numbers round to the nearest one, with ties to even. The
  overflow of the format at \<open>2 ^ 1024\<close> is beyond what the programs compute.

  A \<open>float64\<close> with a fraction occurs in \<open>time.Duration.Seconds\<close> only; it is kept in units of
  \<open>2 ^ -82\<close>. A quotient \<open>n / 1e9\<close> with \<open>0 < n < 1e9\<close> is at least \<open>2 ^ -30\<close>, so its 53 bits end at
  \<open>2 ^ -82\<close> or before, and no value of \<open>Seconds\<close> is finer than that unit.
\<close>

definition to_multiple :: "int \<Rightarrow> int \<Rightarrow> int" where
  "to_multiple u n = (let q = n div u; r = n mod u in
     if 2 * r < u \<or> 2 * r = u \<and> even q then q * u else (q + 1) * u)"

definition ulp :: "int \<Rightarrow> int" where
  "ulp n = 2 ^ nat (bitlen n - 53)"

definition f64_of_int :: "int \<Rightarrow> int" where
  "f64_of_int n = (if n < 0 then - to_multiple (ulp (- n)) (- n) else to_multiple (ulp n) n)"

definition f64_add :: "int \<Rightarrow> int \<Rightarrow> int" where
  "f64_add x y = f64_of_int (x + y)"

text \<open>\<open>int(x)\<close>: what does not fit an \<open>int\<close> becomes the least one, as on amd64.\<close>

definition int_of_f64 :: "int \<Rightarrow> int" where
  "int_of_f64 x = (if - (2 ^ 63) \<le> x \<and> x < 2 ^ 63 then x else - (2 ^ 63))"

lemma f64_of_int_small:
  assumes "\<bar>n\<bar> < 2 ^ 53"
  shows "f64_of_int n = n"
proof -
  have "ulp m = 1" if "0 \<le> m" "m < 2 ^ 53" for m
    using that bitlen_le_iff_power [of m 53] by (simp add: ulp_def)
  then have "ulp n = 1 \<or> n < 0" "n < 0 \<Longrightarrow> ulp (- n) = 1" using assms by (auto simp: abs_if)
  then show ?thesis by (auto simp: f64_of_int_def to_multiple_def)
qed

lemma f64_of_int_loses: "f64_of_int (2 ^ 53 + 1) = 2 ^ 53"
proof -
  have "bitlen (2 ^ 53 + 1) = 54" by (intro antisym) (simp_all add: bitlen_le_iff_power bitlen_ge_iff_power)
  then show ?thesis by (simp add: f64_of_int_def ulp_def to_multiple_def)
qed

lemma to_multiple_dvd: "u dvd n \<Longrightarrow> 0 < u \<Longrightarrow> to_multiple u n = n"
  by (simp add: to_multiple_def Let_def dvd_imp_mod_0)

lemma f64_add_exact:
  assumes "0 \<le> x" "x < 2 ^ 54" "even x"
  shows "f64_add x 2 = x + 2"
proof -
  have e: "2 dvd x + 2" using assms(3) by simp
  have d: "ulp (x + 2) dvd x + 2"
  proof (cases "x + 2 < 2 ^ 54")
    case True
    then have "bitlen (x + 2) \<le> 54" using assms(1) bitlen_le_iff_power [of "x + 2" 54] by simp
    then have "ulp (x + 2) dvd 2 ^ 1" unfolding ulp_def by (intro le_imp_power_dvd) simp
    then show ?thesis using dvd_trans [OF _ e] by simp
  next
    case False
    obtain k where k: "x = 2 * k" using assms(3) by blast
    have "x + 2 = 2 ^ 54" using False assms(2) unfolding k by simp
    moreover have "ulp (2 ^ 54) = 4" unfolding ulp_def using bitlen_pow2 [of 1 54] by (simp add: bitlen_alt_def)
    ultimately show ?thesis by simp
  qed
  have "0 < ulp (x + 2)" by (simp add: ulp_def)
  then show ?thesis using assms(1) to_multiple_dvd [OF d] by (simp add: f64_add_def f64_of_int_def Let_def)
qed

lemma f64_add_stuck: "f64_add (2 ^ 54) 2 = 2 ^ 54"
proof -
  have "bitlen (2 ^ 54 + 2) = 55" by (intro antisym) (simp_all add: bitlen_le_iff_power bitlen_ge_iff_power)
  then show ?thesis by (simp add: f64_add_def f64_of_int_def ulp_def to_multiple_def)
qed

text \<open>So repeated increments by 2 stop at \<open>2 ^ 54\<close>.\<close>

lemma f64_add_iterate: "((\<lambda>x. f64_add x 2) ^^ n) 0 = min (2 * int n) (2 ^ 54)"
proof (induction n)
  case (Suc n)
  then show ?case
    using f64_add_exact [of "2 * int n"] f64_add_stuck by (cases "2 * int n < 2 ^ 54") (simp_all add: min_def)
qed simp

subsection \<open>The seconds of a duration\<close>

text \<open>\<open>float64(n) / 1e9\<close> in units of \<open>2 ^ -82\<close>: the quotient is rounded once.\<close>

definition nanos_frac :: "int \<Rightarrow> int" where
  "nanos_frac n = (let x = n * 2 ^ 82; y = 10 ^ 9 in to_multiple (ulp (x div y) * y) x div y)"

text \<open>
  \<open>d.Seconds()\<close> of \<open>d\<close> nanoseconds, \<open>float64(d / 1e9) + float64(d % 1e9) / 1e9\<close>, in the same
  units. Go's division truncates, so both parts have the sign of \<open>d\<close>.
\<close>

definition Duration_Seconds :: "int \<Rightarrow> int" where
  "Duration_Seconds d = sgn d * f64_of_int (\<bar>d\<bar> div 10 ^ 9 * 2 ^ 82 + nanos_frac (\<bar>d\<bar> mod 10 ^ 9))"

text \<open>\<open>int64(d.Seconds())\<close> drops the fraction.\<close>

definition whole_seconds :: "int \<Rightarrow> int" where
  "whole_seconds d = sgn (Duration_Seconds d) * (\<bar>Duration_Seconds d\<bar> div 2 ^ 82)"

lemma ulp_pos [simp]: "0 < ulp n"
  by (simp add: ulp_def)

lemma f64_of_int_scaled:
  assumes "0 \<le> a" "a < 2 ^ 53"
  shows "f64_of_int (a * 2 ^ c) = a * 2 ^ c"
proof (cases "a = 0")
  case True
  then show ?thesis by (simp add: f64_of_int_small)
next
  case False
  have "bitlen a \<le> 53" using assms bitlen_le_iff_power [of a 53] by simp
  moreover have "bitlen (a * 2 ^ c) = bitlen a + int c" using False assms(1) by (intro bitlen_pow2) simp
  ultimately have "ulp (a * 2 ^ c) dvd 2 ^ c" unfolding ulp_def by (intro le_imp_power_dvd) simp
  then have "ulp (a * 2 ^ c) dvd a * 2 ^ c" by simp
  moreover have "0 \<le> a * 2 ^ c" using assms(1) by simp
  ultimately show ?thesis by (simp add: f64_of_int_def to_multiple_dvd)
qed

text \<open>A whole number of seconds loses nothing.\<close>

lemma whole_seconds_exact:
  assumes "\<bar>n\<bar> < 2 ^ 53"
  shows "whole_seconds (n * 10 ^ 9) = n"
proof -
  have "\<bar>n * 10 ^ 9\<bar> = \<bar>n\<bar> * 10 ^ 9" by (simp add: abs_mult)
  moreover have "nanos_frac 0 = 0" by (simp add: nanos_frac_def to_multiple_def)
  ultimately have "Duration_Seconds (n * 10 ^ 9) = sgn n * (\<bar>n\<bar> * 2 ^ 82)"
    using f64_of_int_scaled [of "\<bar>n\<bar>" 82] assms by (simp add: Duration_Seconds_def sgn_mult)
  then have "Duration_Seconds (n * 10 ^ 9) = n * 2 ^ 82" by (metis abs_mult_sgn mult.assoc mult.commute)
  then show ?thesis by (simp add: whole_seconds_def sgn_mult abs_mult abs_mult_sgn mult.commute [of "sgn n"])
qed

text \<open>Less than a second counts as none, but a fraction can be rounded up to the next second.\<close>

lemma whole_seconds_example: "whole_seconds 290448384 = 0"
  by code_simp

lemma whole_seconds_rounds_up: "whole_seconds 9223372035999999999 = 9223372036"
  by code_simp

end
