(* ===== verification/TradeEngine.thy ===== *)
theory TradeEngine
  imports AppActor Float64
begin

section \<open>The trade engine (examples/trade-engine)\<close>

text \<open>
  Three actors: the trade engine takes orders and spawns for each an executor, and a price
  watcher if it finds none for the token pair; the watcher sends its subscribers a new price
  with every tick of a repeater; the executor keeps the last price until it is cancelled or
  its order expires. A handler takes what it reads of the outside as arguments: the address of
  its PID (subscribers are kept by pointer), the clock and the order of a range over a map.
  A \<open>time.Time\<close> is a number of nanoseconds, the zero time is 0. A \<open>float64\<close> that holds an integer
  is that integer (theory \<open>Float64\<close>).
\<close>

subsection \<open>Messages (types/types.go)\<close>

record trade_order_request =
  TradeID :: string
  Token0 :: string
  Token1 :: string
  Chain :: string
  Wallet :: string
  PrivateKey :: string
  Expires :: int

record price_options =
  po_Ticker :: string
  po_Token0 :: string
  po_Token1 :: string
  po_Chain :: string

datatype trade_msg =
    CancelOrderRequest string
  | TradeInfoRequest string
  | TradeInfoResponse (Foo: int) (Bar: int) (Price: int)
  | TradeOrderRequest trade_order_request
  | PriceUpdate (pu_Ticker: string) (pu_UpdatedAt: int) (pu_Price: int)
  | SubscribePrice "pid_ptr option"
  | UnsubscribePrice "pid_ptr option"
  | TriggerPriceUpdate

type_synonym 'a trade_act = "(trade_msg, 'a) act"

text \<open>The method \<open>Send\<close> of an \<open>*Engine\<close> field that may still be nil.\<close>

definition field_Send :: "bool \<Rightarrow> pid option \<Rightarrow> trade_msg \<Rightarrow> unit trade_act" where
  "field_Send engine q m = (if engine then a_Send q (User m) None else a_nil_Send q)"

definition field_Poison :: "bool \<Rightarrow> pid_ptr option \<Rightarrow> unit trade_act" where
  "field_Poison engine q = (if engine then bindA (a_Poison (map_option snd q)) (\<lambda>_. ret ()) else of_res (Inl NilDeref))"

subsection \<open>The executor (actors/executor/executor.go)\<close>

record executor_options =
  eo_PriceWatcherPID :: "pid option"
  eo_TradeID :: string
  eo_Ticker :: string
  eo_Token0 :: string
  eo_Token1 :: string
  eo_Chain :: string
  eo_Wallet :: string
  eo_Pk :: string
  eo_Expires :: int

record trade_executor =
  te_id :: string
  te_ActorEngine :: bool
  te_PID :: "pid_ptr option"
  te_priceWatcherPID :: "pid option"
  te_ticker :: string
  te_token0 :: string
  te_token1 :: string
  te_chain :: string
  te_wallet :: string
  te_pk :: string
  te_status :: string
  te_lastPrice :: int
  te_expires :: int

definition NewExecutorActor :: "executor_options \<Rightarrow> trade_executor" where
  "NewExecutorActor op = \<lparr>te_id = eo_TradeID op, te_ActorEngine = False, te_PID = None, te_priceWatcherPID = eo_PriceWatcherPID op,
     te_ticker = eo_Ticker op, te_token0 = eo_Token0 op, te_token1 = eo_Token1 op, te_chain = eo_Chain op,
     te_wallet = eo_Wallet op, te_pk = eo_Pk op, te_status = ''active'', te_lastPrice = 0, te_expires = eo_Expires op\<rparr>"

definition Finished :: "trade_executor \<Rightarrow> unit trade_act" where
  "Finished te = bindA (field_Send (te_ActorEngine te) (te_priceWatcherPID te) (UnsubscribePrice (te_PID te)))
     (\<lambda>_. field_Poison (te_ActorEngine te) (te_PID te))"

definition processUpdate :: "int \<Rightarrow> trade_msg \<Rightarrow> trade_executor \<Rightarrow> trade_executor trade_act" where
  "processUpdate now upd te =
     (if te_expires te \<noteq> 0 \<and> now > te_expires te then bindA (Finished te) (\<lambda>_. ret te)
      else ret (te\<lparr>te_lastPrice := pu_Price upd\<rparr>))"

definition executor_handleTradeInfoRequest :: "trade_msg actor_context \<Rightarrow> trade_executor \<Rightarrow> unit trade_act" where
  "executor_handleTradeInfoRequest c te e = of_send (ctx_Respond (User (TradeInfoResponse 100 100 (te_lastPrice te))) c e)"

definition executor_Receive :: "nat \<Rightarrow> int \<Rightarrow> trade_msg actor_context \<Rightarrow> trade_executor \<Rightarrow> trade_executor trade_act" where
  "executor_Receive a now c te =
     (case c_message c of
        Started \<Rightarrow>
          (let te1 = te\<lparr>te_ActorEngine := True, te_PID := Some (a, c_pid c)\<rparr> in
           bindA (field_Send True (te_priceWatcherPID te1) (SubscribePrice (te_PID te1))) (\<lambda>_. ret te1))
      | User (PriceUpdate ticker t p) \<Rightarrow> processUpdate now (PriceUpdate ticker t p) te
      | User (TradeInfoRequest _) \<Rightarrow> bindA (executor_handleTradeInfoRequest c te) (\<lambda>_. ret te)
      | User (CancelOrderRequest _) \<Rightarrow>
          (let te1 = te\<lparr>te_status := ''cancelled''\<rparr> in bindA (Finished te1) (\<lambda>_. ret te1))
      | _ \<Rightarrow> ret te)"

subsection \<open>The price watcher (actors/price/price.go)\<close>

text \<open>The zero \<open>SendRepeater\<close>, whose channel is nil, is \<open>None\<close>.\<close>

record price_watcher =
  pw_ActorEngine :: bool
  pw_PID :: "pid_ptr option"
  pw_repeater :: "trade_msg send_repeater option"
  pw_ticker :: string
  pw_token0 :: string
  pw_token1 :: string
  pw_chain :: string
  pw_lastPrice :: int
  pw_updatedAt :: int
  pw_subscribers :: "pid_ptr option \<rightharpoonup> bool"

definition NewPriceActor :: "price_options \<Rightarrow> price_watcher" where
  "NewPriceActor op = \<lparr>pw_ActorEngine = False, pw_PID = None, pw_repeater = None, pw_ticker = po_Ticker op, pw_token0 = po_Token0 op,
     pw_token1 = po_Token1 op, pw_chain = po_Chain op, pw_lastPrice = 0, pw_updatedAt = 0, pw_subscribers = Map.empty\<rparr>"

definition Kill :: "price_watcher \<Rightarrow> price_watcher trade_act" where
  "Kill pw = bindA (of_res (case pw_repeater pw of None \<Rightarrow> Inl CloseOfNil | Some sr \<Rightarrow> sr_Stop sr))
     (\<lambda>sr. bindA (field_Poison (pw_ActorEngine pw) (pw_PID pw)) (\<lambda>_. ret (pw\<lparr>pw_repeater := Some sr\<rparr>)))"

definition refresh :: "pid_ptr option list \<Rightarrow> int \<Rightarrow> price_watcher \<Rightarrow> price_watcher trade_act" where
  "refresh ks now pw =
     bindA (if dom (pw_subscribers pw) = {} then Kill pw else ret pw)
       (\<lambda>pw0. let pw1 = pw0\<lparr>pw_lastPrice := f64_add (pw_lastPrice pw0) 2, pw_updatedAt := now\<rparr> in
          bindA (a_each (\<lambda>k. field_Send (pw_ActorEngine pw1) (map_option snd k)
                   (PriceUpdate (pw_ticker pw1) (pw_updatedAt pw1) (pw_lastPrice pw1))) ks)
            (\<lambda>_. ret pw1))"

definition watcher_Receive :: "nat \<Rightarrow> pid_ptr option list \<Rightarrow> int \<Rightarrow> trade_msg actor_context \<Rightarrow> price_watcher \<Rightarrow> price_watcher trade_act" where
  "watcher_Receive a ks now c pw =
     (case c_message c of
        Started \<Rightarrow>
          bindA (of_res (SendRepeat (Some (c_pid c)) (User TriggerPriceUpdate) (200 * 1000000)))
            (\<lambda>sr. ret (pw\<lparr>pw_ActorEngine := True, pw_PID := Some (a, c_pid c), pw_repeater := Some sr\<rparr>))
      | User (SubscribePrice k) \<Rightarrow> ret (pw\<lparr>pw_subscribers := (pw_subscribers pw)(k \<mapsto> True)\<rparr>)
      | User (UnsubscribePrice k) \<Rightarrow> ret (pw\<lparr>pw_subscribers := (pw_subscribers pw)(k := None)\<rparr>)
      | User TriggerPriceUpdate \<Rightarrow> refresh ks now pw
      | _ \<Rightarrow> ret pw)"

subsection \<open>The trade engine (actors/tradeEngine/tradeEngine.go)\<close>

definition toTicker :: "string \<Rightarrow> string \<Rightarrow> string \<Rightarrow> string" where
  "toTicker token0 token1 chain = token0 @ ''-'' @ token1 @ ''-'' @ chain"

text \<open>
  The actor has no fields; its children are in its context. \<open>SpawnChild\<close> looks at the names in the
  options only, and each handler also returns the receivers it had spawned, with their PIDs.
\<close>

datatype trade_actor = Watcher price_watcher | Executor trade_executor

definition spawn_trader :: "trade_actor \<Rightarrow> string \<Rightarrow> nat \<Rightarrow> trade_msg actor_context \<Rightarrow> (pid \<times> trade_msg actor_context) trade_act" where
  "spawn_trader x name random c =
     a_SpawnChild name [] random (DefaultOpts (\<lambda>_. (x, None)) (\<lambda>_ u. (u, [], None)) :: (trade_actor, trade_msg, unit) opts) c"

type_synonym te_result = "trade_msg actor_context \<times> (pid \<times> trade_actor) list"

definition ensurePriceWatcher :: "nat \<Rightarrow> trade_order_request \<Rightarrow> trade_msg actor_context \<Rightarrow> (pid \<times> te_result) trade_act" where
  "ensurePriceWatcher random order c =
     (let ticker = toTicker (Token0 order) (Token1 order) (Chain order) in
      case ctx_Child (''trade-engine/'' @ ticker) c of
        Some q \<Rightarrow> ret (q, c, [])
      | None \<Rightarrow>
          (let w = Watcher (NewPriceActor \<lparr>po_Ticker = ticker, po_Token0 = Token0 order, po_Token1 = Token1 order, po_Chain = Chain order\<rparr>)
           in bindA (spawn_trader w ticker random c) (\<lambda>(q, c'). ret (q, c', [(q, w)]))))"

definition spawnExecutor :: "nat \<Rightarrow> nat \<Rightarrow> trade_order_request \<Rightarrow> trade_msg actor_context \<Rightarrow> te_result trade_act" where
  "spawnExecutor random random' m c =
     bindA (ensurePriceWatcher random m c)
       (\<lambda>(pricePID, c1, ws).
          let x = Executor (NewExecutorActor \<lparr>eo_PriceWatcherPID = Some pricePID, eo_TradeID = TradeID m,
                    eo_Ticker = toTicker (Token0 m) (Token1 m) (Chain m), eo_Token0 = Token0 m, eo_Token1 = Token1 m,
                    eo_Chain = Chain m, eo_Wallet = Wallet m, eo_Pk = PrivateKey m, eo_Expires = Expires m\<rparr>)
          in bindA (spawn_trader x (TradeID m) random' c1) (\<lambda>(q, c2). ret (c2, ws @ [(q, x)])))"

definition cancelOrder :: "string \<Rightarrow> trade_msg actor_context \<Rightarrow> unit trade_act" where
  "cancelOrder i c =
     (case ctx_Child (''trade-engine/'' @ i) c of
        None \<Rightarrow> ret ()
      | Some q \<Rightarrow> (\<lambda>e. of_send (ctx_Send (Some q) (User (CancelOrderRequest [])) c e)))"

text \<open>
  The handler blocks in \<open>Result\<close> until the reply or the deadline; \<open>elapse\<close> is what the rest of the
  system does to the engine in that time.
\<close>

definition handleTradeInfoRequest :: "(trade_msg engine \<Rightarrow> trade_msg engine) \<Rightarrow> string \<Rightarrow> trade_msg actor_context \<Rightarrow> unit trade_act" where
  "handleTradeInfoRequest elapse i c =
     (case ctx_Child (''trade-engine/'' @ i) c of
        None \<Rightarrow> ret ()
      | Some q \<Rightarrow> (\<lambda>e. case ctx_Request (Some q) (User (TradeInfoRequest [])) (5 * 1000000000) e of
            (h, r, e1) \<Rightarrow> bindA (\<lambda>_. of_send (r, e1)) (\<lambda>_ e2.
              case Result h (elapse e2) of
                (Some (User (TradeInfoResponse foo bar p)), e3) \<Rightarrow> of_send (ctx_Respond (User (TradeInfoResponse foo bar p)) c e3)
              | (_, e3) \<Rightarrow> (Inr (), e3)) e))"

definition tradeEngine_Receive :: "nat \<Rightarrow> nat \<Rightarrow> (trade_msg engine \<Rightarrow> trade_msg engine) \<Rightarrow> trade_msg actor_context \<Rightarrow> te_result trade_act" where
  "tradeEngine_Receive random random' elapse c =
     (case c_message c of
        User (TradeOrderRequest m) \<Rightarrow> spawnExecutor random random' m c
      | User (CancelOrderRequest i) \<Rightarrow> bindA (cancelOrder i c) (\<lambda>_. ret (c, []))
      | User (TradeInfoRequest i) \<Rightarrow> bindA (handleTradeInfoRequest elapse i c) (\<lambda>_. ret (c, []))
      | _ \<Rightarrow> ret (c, []))"

subsection \<open>Prices\<close>

lemma a_each_post: "a_each (\<lambda>k. field_Send True (f k) m) ks = post_all (map (\<lambda>k. (f k, User m, None)) ks)"
  by (induction ks) (simp_all add: post_all_def field_Send_def)

lemma watcher_trigger: "c_message c = User TriggerPriceUpdate \<Longrightarrow> watcher_Receive a ks now c pw = refresh ks now pw"
  by (simp add: watcher_Receive_def)

text \<open>A watcher as the client of its subscribers' messages: a store of pointers.\<close>

definition subscribe_ptr :: "pid_ptr option \<Rightarrow> bool \<Rightarrow> price_watcher \<Rightarrow> price_watcher" where
  "subscribe_ptr k v pw = pw\<lparr>pw_subscribers := (pw_subscribers pw)(k \<mapsto> v)\<rparr>"

definition unsubscribe_ptr :: "pid_ptr option \<Rightarrow> price_watcher \<Rightarrow> price_watcher" where
  "unsubscribe_ptr k pw = pw\<lparr>pw_subscribers := (pw_subscribers pw)(k := None)\<rparr>"

interpretation price_subs: keyed_store "\<lambda>_. True" "\<lambda>k pw. pw_subscribers pw k"
  subscribe_ptr unsubscribe_ptr
  by unfold_locales (simp_all add: subscribe_ptr_def unsubscribe_ptr_def)

definition store_op :: "trade_msg \<Rightarrow> (pid_ptr option, bool) store_op list" where
  "store_op m = (case m of SubscribePrice k \<Rightarrow> [OpSet k True] | UnsubscribePrice k \<Rightarrow> [OpDelete k] | _ \<Rightarrow> [])"

definition is_subscription :: "trade_msg \<Rightarrow> bool" where
  "is_subscription m \<longleftrightarrow> (\<exists>k. m = SubscribePrice k \<or> m = UnsubscribePrice k)"

fun watcher_messages :: "trade_msg list \<Rightarrow> trade_msg actor_context \<Rightarrow> price_watcher \<Rightarrow> price_watcher trade_act" where
  "watcher_messages [] c pw = ret pw"
| "watcher_messages (m # ms) c pw = bindA (watcher_Receive 0 [] 0 (c\<lparr>c_message := User m\<rparr>) pw) (watcher_messages ms c)"

lemma watcher_messages_store:
  "list_all is_subscription ms \<Longrightarrow> watcher_messages ms c pw = ret (store_run
     subscribe_ptr unsubscribe_ptr
     pw (concat (map store_op ms)))"
  by (induction ms arbitrary: pw) (auto simp: is_subscription_def watcher_Receive_def store_op_def subscribe_ptr_def unsubscribe_ptr_def)

lemma store_run_keeps:
  "pw_ActorEngine (store_run subscribe_ptr
      unsubscribe_ptr pw ops) = pw_ActorEngine pw
   \<and> pw_lastPrice (store_run subscribe_ptr
      unsubscribe_ptr pw ops) = pw_lastPrice pw
   \<and> pw_ticker (store_run subscribe_ptr
      unsubscribe_ptr pw ops) = pw_ticker pw"
proof (induction ops arbitrary: pw)
  case (Cons op ops)
  then show ?case by (cases op) (simp_all add: subscribe_ptr_def unsubscribe_ptr_def)
qed simp

lemma refresh_posts:
  assumes "pw_ActorEngine pw" "dom (pw_subscribers pw) \<noteq> {}"
  shows "refresh ks now pw = (let p = f64_add (pw_lastPrice pw) 2 in
     bindA (post_all (map (\<lambda>k. (map_option snd k, User (PriceUpdate (pw_ticker pw) now p), None)) ks))
       (\<lambda>_. ret (pw\<lparr>pw_lastPrice := p, pw_updatedAt := now\<rparr>)))"
  using assms by (simp add: refresh_def a_each_post Let_def)

definition local_subs :: "pid_ptr option set \<Rightarrow> trade_msg engine \<Rightarrow> bool" where
  "local_subs K e \<longleftrightarrow> (\<forall>k \<in> K. k = None \<or> (\<exists>g. local_actor (snd (the k)) g e))"

lemma local_letters:
  assumes "local_subs (set ks) e"
  shows "\<forall>l \<in> set (map (\<lambda>k. (map_option snd k, m, src)) ks). good_letter es h e l"
proof -
  have "good_letter es h e (map_option snd k, m, src)" if k: "k \<in> set ks" for k
  proof (cases k)
    case (Some x)
    then obtain g where "local_actor (snd x) g e" using assms k by (force simp: local_subs_def)
    then show ?thesis using Some local_actor_good by simp
  qed simp
  then show ?thesis by simp
qed

lemma local_mails:
  assumes "local_subs (set ks) e"
  shows "concat (map (mail_for es h e g) (map (\<lambda>k. (map_option snd k, m, src)) ks))
    = replicate (length (filter (\<lambda>k. reg_get (map_option snd k) (e_Registry e) = Some g) ks)) \<lparr>Msg = m, Sender = src\<rparr>"
  using assms
proof (induction ks)
  case (Cons k ks)
  show ?case
  proof (cases k)
    case (Some x)
    then obtain i where "local_actor (snd x) i e" using Cons.prems by (auto simp: local_subs_def)
    then show ?thesis using Some Cons local_actor_mail [of "snd x" i e es h g m src] by (auto simp: local_actor_def local_subs_def)
  qed (use Cons in \<open>simp add: reg_get_def local_subs_def\<close>)
qed simp

text \<open>
  C27. A tick of the repeater gives every subscriber the next price: the watcher adds 2 to the
  price, sends it once per subscribed pointer, whatever the order of the range, and to nobody
  else. Who is subscribed is whose last word was to subscribe.
\<close>

theorem price_fanout:
  assumes "stream_ok es h e" "pw_ActorEngine pw" "list_all is_subscription ms"
    "wanted = (\<lambda>k. last_write (pw_subscribers pw k) k (concat (map store_op ms)))"
    "range_order wanted ks" "ks \<noteq> []"
    "local_subs (dom wanted) e"
    "c_message t = User TriggerPriceUpdate"
  shows "\<exists>pw' e'. bindA (watcher_messages ms c pw) (watcher_Receive a ks now t) e = (Inr pw', e')
    \<and> pw_subscribers pw' = wanted \<and> pw_lastPrice pw' = f64_add (pw_lastPrice pw) 2
    \<and> (\<forall>g p mb. e_heap e g = ProcObj p mb \<longrightarrow> e_heap e' g = ProcObj p (mb @
         replicate (card {k \<in> dom wanted. reg_get (map_option snd k) (e_Registry e) = Some g})
           \<lparr>Msg = User (PriceUpdate (pw_ticker pw) now (f64_add (pw_lastPrice pw) 2)), Sender = None\<rparr>))"
proof -
  define pw1 where "pw1 = store_run subscribe_ptr
    unsubscribe_ptr pw (concat (map store_op ms))"
  have pw1: "pw_subscribers pw1 = wanted"
    using price_subs.run_last_write [of pw "concat (map store_op ms)"] by (auto simp: pw1_def assms(4))
  have kept: "pw_ActorEngine pw1 = pw_ActorEngine pw \<and> pw_lastPrice pw1 = pw_lastPrice pw \<and> pw_ticker pw1 = pw_ticker pw"
    unfolding pw1_def by (rule store_run_keeps)
  have ks: "distinct ks" "set ks = dom wanted" using range_orderD [OF assms(5)] by auto
  let ?m = "User (PriceUpdate (pw_ticker pw) now (f64_add (pw_lastPrice pw) 2))"
  let ?ls = "map (\<lambda>k. (map_option snd k, ?m, None)) ks"
  have good: "\<forall>l \<in> set ?ls. good_letter es h e l"
    by (rule local_letters) (simp add: ks assms(7))
  obtain e' where e': "post_all ?ls e = (Inr (), e')"
    "\<forall>g p mb. e_heap e g = ProcObj p mb \<longrightarrow> e_heap e' g = ProcObj p (mb @ concat (map (mail_for es h e g) ?ls))"
    using post_all_delivers [OF assms(1) good] by blast
  have n: "length (filter P ks) = card {k \<in> dom wanted. P k}" for P
    using distinct_card [OF distinct_filter [OF ks(1)], of P] by (simp only: set_filter ks(2))
  have "dom (pw_subscribers pw1) \<noteq> {}" using ks(2) assms(6) pw1 by (metis set_empty)
  then have "refresh ks now pw1 e = (Inr (pw1\<lparr>pw_lastPrice := f64_add (pw_lastPrice pw) 2, pw_updatedAt := now\<rparr>), e')"
    using refresh_posts [of pw1 ks now] assms(2) kept e'(1) by (simp add: Let_def bindA_def ret_def)
  then have "bindA (watcher_messages ms c pw) (watcher_Receive a ks now t) e
      = (Inr (pw1\<lparr>pw_lastPrice := f64_add (pw_lastPrice pw) 2, pw_updatedAt := now\<rparr>), e')"
    using watcher_messages_store [OF assms(3), of c pw] watcher_trigger [OF assms(8)] by (simp add: pw1_def)
  then show ?thesis using e'(2) local_mails [of ks e es h _ ?m None] assms(7) pw1 by (simp add: n ks(2))
qed

text \<open>The price of a watcher that keeps having subscribers, tick after tick.\<close>

fun ticks :: "(pid_ptr option list \<times> int) list \<Rightarrow> price_watcher \<Rightarrow> price_watcher trade_act" where
  "ticks [] pw = ret pw"
| "ticks ((ks, now) # ts) pw = bindA (refresh ks now pw) (ticks ts)"

lemma refresh_price:
  assumes "refresh ks now pw e = (Inr pw', e')"
  shows "pw_lastPrice pw' = f64_add (pw_lastPrice pw) 2"
  using assms by (auto simp: refresh_def Kill_def field_Poison_def bindA_def ret_def of_res_def Let_def
      split: prod.splits sum.splits if_splits option.splits)

text \<open>
  The price has a ceiling: it is twice the number of ticks up to \<open>2 ^ 54\<close>, where adding 2 to
  the \<open>float64\<close> no longer changes it.
\<close>

theorem price_saturates:
  assumes "ticks ts pw e = (Inr pw', e')" "pw_lastPrice pw = 0"
  shows "pw_lastPrice pw' = min (2 * int (length ts)) (2 ^ 54)"
proof -
  have "pw_lastPrice pw' = ((\<lambda>x. f64_add x 2) ^^ length ts) (pw_lastPrice pw)" using assms(1)
  proof (induction ts arbitrary: pw e)
    case (Cons t ts)
    obtain ks now where t: "t = (ks, now)" by fastforce
    obtain pw1 e1 where r: "refresh ks now pw e = (Inr pw1, e1)" "ticks ts pw1 e1 = (Inr pw', e')"
      using Cons.prems by (auto simp: t bindA_def split: prod.splits sum.splits)
    show ?case using Cons.IH [OF r(2)] refresh_price [OF r(1)] by (simp only: length_Cons funpow_Suc_right comp_apply)
  qed (simp add: ret_def)
  then show ?thesis by (simp add: assms(2) f64_add_iterate)
qed

text \<open>
  A watcher without subscribers stops its repeater and poisons itself, but \<open>refresh\<close> goes on
  after \<open>Kill\<close>: a trigger that is handled before or behind the pill, which is graceful, calls
  \<open>Kill\<close> again, and closing the closed channel panics.
\<close>

theorem idle_watcher_panics:
  assumes "pw_ActorEngine pw" "pw_PID pw = Some (a, q)" "pw_repeater pw = Some sr" "\<not> sr_closed sr" "pw_subscribers pw = Map.empty"
    "local_actor q g e" "e_heap e g = ProcObj q mb" "c_message c = User TriggerPriceUpdate"
  shows "\<exists>pw' e'. watcher_Receive a [] now c pw e = (Inr pw', e')
    \<and> e_heap e' g = ProcObj q (mb @ [\<lparr>Msg = PoisonPill (Some (e_contexts e)) True, Sender = None\<rparr>])
    \<and> watcher_Receive a [] now' c pw' e' = (Inl (HPanic CloseOfClosed), e')"
  using assms
  by (simp add: watcher_trigger refresh_def Kill_def sr_Stop_def field_Poison_def a_Poison_local bindA_def ret_def of_res_def Let_def)

subsection \<open>Executors\<close>

text \<open>What \<open>Finished\<close> leaves behind: the unsubscription at the watcher, the pill at the executor, nothing else.\<close>

definition finishing :: "trade_executor \<Rightarrow> trade_msg engine \<Rightarrow> nat \<Rightarrow> trade_msg envelope list \<Rightarrow> nat \<Rightarrow> trade_msg envelope list \<Rightarrow>
    trade_msg engine \<Rightarrow> bool" where
  "finishing te e k mb' g mb e' \<longleftrightarrow> (\<exists>w q. te_priceWatcherPID te = Some w \<and> map_option snd (te_PID te) = Some q \<and>
     e_heap e' = (e_heap e)(k := ProcObj w (mb' @ [\<lparr>Msg = User (UnsubscribePrice (te_PID te)), Sender = None\<rparr>]),
       g := ProcObj q (mb @ [\<lparr>Msg = PoisonPill (Some (e_contexts e)) True, Sender = None\<rparr>])))"

text \<open>
  The end of an executor. A cancellation, and a price that arrives after the expiry of the
  order, put an unsubscription into the watcher's inbox and a graceful pill into the executor's
  own; the status changes on cancellation only. Any other price becomes the last price, which
  is what a request for information is answered with.
\<close>

theorem executor_finishes:
  assumes "stream_ok es h e" "te_ActorEngine te" "te_PID te = Some (a, q)" "te_priceWatcherPID te = Some w"
    "local_actor q g e" "local_actor w k e" "g \<noteq> k" "e_heap e g = ProcObj q mb" "e_heap e k = ProcObj w mb'"
  shows "(\<forall>i. c_message c = User (CancelOrderRequest i) \<longrightarrow>
      (\<exists>e'. executor_Receive a now c te e = (Inr (te\<lparr>te_status := ''cancelled''\<rparr>), e') \<and> finishing te e k mb' g mb e'))
    \<and> (\<forall>ticker t p. c_message c = User (PriceUpdate ticker t p) \<longrightarrow>
        (if te_expires te \<noteq> 0 \<and> te_expires te < now
         then \<exists>e'. executor_Receive a now c te e = (Inr te, e') \<and> finishing te e k mb' g mb e'
         else executor_Receive a now c te e = (Inr (te\<lparr>te_lastPrice := p\<rparr>), e)))"
proof -
  have "\<exists>e'. Finished te' e = (Inr (), e') \<and> finishing te e k mb' g mb e'"
    if "te_ActorEngine te'" "te_PID te' = Some (a, q)" "te_priceWatcherPID te' = Some w" for te'
  proof -
    let ?e1 = "e\<lparr>e_heap := (e_heap e)(k := ProcObj w (mb' @ [\<lparr>Msg = User (UnsubscribePrice (Some (a, q))), Sender = None\<rparr>]))\<rparr>"
    have 1: "a_Send (Some w) (User (UnsubscribePrice (Some (a, q)))) None e = (Inr (), ?e1)"
      by (rule a_Send_local [OF assms(1,6,9)])
    have "local_actor q g ?e1" using assms(5,7) by (auto simp: local_actor_def)
    from a_Poison_local [OF this, of mb] show ?thesis
      using that 1 assms(3,4,7,8) by (simp add: Finished_def field_Send_def field_Poison_def bindA_run bindA_def ret_def finishing_def)
  qed
  note f = this
  show ?thesis
    using f [of te] f [of "te\<lparr>te_status := ''cancelled''\<rparr>"] assms(2-4)
    by (auto simp: executor_Receive_def processUpdate_def bindA_def ret_def Let_def)
qed

subsection \<open>Children of the trade engine\<close>

text \<open>Every child is stored under an id that extends the id of the trade engine.\<close>

definition own_children :: "trade_msg actor_context \<Rightarrow> bool" where
  "own_children c \<longleftrightarrow> (\<forall>k. ctx_Child k c \<noteq> None \<longrightarrow> prefix (ID (c_pid c) @ pidSeparator) k)"

lemma spawn_trader_own:
  assumes "spawn_trader x name random c e = (Inr (q, c'), e')" "own_children c"
  shows "own_children c' \<and> c_pid c' = c_pid c"
proof -
  obtain r1 e1 where p: "SpawnProc (ProcObj (NewPID (e_address e) (ID (c_pid c) @ pidSeparator @ name @ pidSeparator @ Itoa (int random))) []) e
    = (NewPID (e_address e) (ID (c_pid c) @ pidSeparator @ name @ pidSeparator @ Itoa (int random)), r1, e1)"
    by (metis SpawnProc_pid prod.collapse processer.sel(1))
  have "c' = c\<lparr>c_children := sm_Set (ID q) q (c_children c)\<rparr>"
    "q = NewPID (e_address e) (ID (c_pid c) @ pidSeparator @ name @ pidSeparator @ Itoa (int random))"
    using assms(1) p by (auto simp: spawn_trader_def a_SpawnChild_def SpawnChild_plain Let_def bindA_def ret_def split: prod.splits sum.splits)
  then show ?thesis using assms(2) by (auto simp: own_children_def ctx_Child_def)
qed

lemma own_lookup_misses:
  assumes "own_children c" "ID (c_pid c) = ''trade-engine/'' @ i" "CHR ''/'' \<notin> set k"
  shows "ctx_Child (''trade-engine/'' @ k) c = None"
proof (rule ccontr)
  assume "ctx_Child (''trade-engine/'' @ k) c \<noteq> None"
  then have "prefix ((''trade-engine/'' @ i) @ pidSeparator) (''trade-engine/'' @ k)" using assms(1,2) by (auto simp: own_children_def)
  then have "prefix (i @ pidSeparator) k" by (simp only: append_assoc same_prefix_prefix)
  then show False using assms(3) by (auto simp: pidSeparator_def prefix_def)
qed

text \<open>
  The life of the trade engine: it handles messages, its children leave it when they stop, and
  the rest of the system changes the engine. The labels say what was handled and spawned.
\<close>

datatype te_label = Handled "trade_msg msg" "(pid \<times> trade_actor) list" | ChildGone string | Elsewhere

inductive te_step :: "trade_msg actor_context \<times> trade_msg engine \<Rightarrow> te_label \<Rightarrow> trade_msg actor_context \<times> trade_msg engine \<Rightarrow> bool" where
  te_handle: "tradeEngine_Receive random random' elapse (c\<lparr>c_message := m, c_sender := s\<rparr>) e = (Inr (c', sp), e') \<Longrightarrow>
     te_step (c, e) (Handled m sp) (c', e')"
| te_gone: "te_step (c, e) (ChildGone i) (c\<lparr>c_children := sm_Delete i (c_children c)\<rparr>, e)"
| te_elsewhere: "te_step (c, e) Elsewhere (c, e')"

lemma spawnExecutor_own:
  assumes "spawnExecutor random random' m c e = (Inr (c', sp), e')" "own_children c"
  shows "own_children c' \<and> c_pid c' = c_pid c"
proof -
  obtain q c1 ws e1 where w: "ensurePriceWatcher random m c e = (Inr (q, c1, ws), e1)"
    and x: "\<exists>y name q2 e2. spawn_trader y name random' c1 e1 = (Inr (q2, c'), e2)"
    using assms(1) by (auto simp: spawnExecutor_def bindA_def ret_def Let_def split: prod.splits sum.splits)
  have "own_children c1 \<and> c_pid c1 = c_pid c"
    using w assms(2) spawn_trader_own
    by (auto simp: ensurePriceWatcher_def bindA_def ret_def Let_def split: prod.splits sum.splits option.splits)
  then show ?thesis using x spawn_trader_own by metis
qed

lemma tradeEngine_own:
  assumes "tradeEngine_Receive random random' elapse c e = (Inr (c', sp), e')" "own_children c"
  shows "own_children c' \<and> c_pid c' = c_pid c"
proof (cases "\<exists>m. c_message c = User (TradeOrderRequest m)")
  case True
  then show ?thesis using assms spawnExecutor_own by (auto simp: tradeEngine_Receive_def)
next
  case False
  then have "c' = c" using assms(1)
    by (auto simp: tradeEngine_Receive_def bindA_def ret_def split: msg.splits trade_msg.splits prod.splits sum.splits)
  then show ?thesis using assms(2) by simp
qed

lemma own_children_message [simp]: "own_children (c\<lparr>c_message := m, c_sender := s\<rparr>) = own_children c"
  by (simp add: own_children_def ctx_Child_def)

lemma te_step_own:
  assumes "te_step s l t" "own_children (fst s)"
  shows "own_children (fst t) \<and> c_pid (fst t) = c_pid (fst s)"
  using assms(1)
proof (cases rule: te_step.cases)
  case (te_handle random random' elapse c m s e c' sp e')
  then show ?thesis using tradeEngine_own [OF te_handle(4)] assms(2) by simp
qed (use assms(2) in \<open>auto simp: own_children_def ctx_Child_def safemap.del_law\<close>)

lemma te_run_own:
  assumes "run te_step s ls t" "own_children (fst s)"
  shows "own_children (fst t) \<and> c_pid (fst t) = c_pid (fst s)"
  using assms
proof (induction rule: run.induct)
  case (run_snoc s ls t l u)
  then show ?case using te_step_own [of t l u] by simp
qed simp

lemma own_children_new: "own_children (newContext ctx q m)"
  by (simp add: newContext_def own_children_def ctx_Child_def sm_Get_def sm_New_def)

lemma spawnExecutor_misses:
  assumes "ctx_Child (''trade-engine/'' @ toTicker (Token0 m) (Token1 m) (Chain m)) c = None"
    "spawnExecutor random random' m c e = (Inr (c', sp), e')"
  shows "\<exists>q1 w q2 x. sp = [(q1, Watcher w), (q2, Executor x)]"
proof -
  obtain q c1 ws e1 where w: "ensurePriceWatcher random m c e = (Inr (q, c1, ws), e1)" and x: "\<exists>q2 x. sp = ws @ [(q2, Executor x)]"
    using assms(2) by (fastforce simp: spawnExecutor_def bindA_Inr ret_def Let_def)
  have "\<exists>q1 w. ws = [(q1, Watcher w)]"
    using w assms(1) by (fastforce simp: ensurePriceWatcher_def bindA_Inr ret_def Let_def)
  with x show ?thesis by auto
qed

text \<open>
  C28. Orders cannot be reached through the trade engine. Its children are stored under ids that
  begin with its own id, \<open>trade-engine/<number>/\<close>, but it looks for them under \<open>trade-engine/<name>\<close>.
  So whatever it has handled, and for every trade id and ticker without a slash: a cancellation
  does nothing, a request for information is not answered, and every order spawns another
  price watcher.
\<close>

theorem orders_unreachable:
  assumes "run te_step (newContext ctx q m0, e0) ls (c, e)" "ID q = ''trade-engine/'' @ i" "CHR ''/'' \<notin> set k"
    "c1 = c\<lparr>c_message := User m, c_sender := s\<rparr>"
  shows "(m = CancelOrderRequest k \<or> m = TradeInfoRequest k \<longrightarrow> tradeEngine_Receive random random' elapse c1 e = (Inr (c1, []), e))
    \<and> (\<forall>order c' sp e'. m = TradeOrderRequest order \<and> toTicker (Token0 order) (Token1 order) (Chain order) = k
        \<and> tradeEngine_Receive random random' elapse c1 e = (Inr (c', sp), e') \<longrightarrow> (\<exists>q1 w q2 x. sp = [(q1, Watcher w), (q2, Executor x)]))"
proof -
  have "own_children c \<and> c_pid c = q" using te_run_own [OF assms(1)] own_children_new by (simp add: newContext_def)
  then have n: "ctx_Child (''trade-engine/'' @ k) c1 = None" using own_lookup_misses [of c1 i k] assms(2-4) by simp
  have m: "c_message c1 = User m" by (simp add: assms(4))
  show ?thesis
  proof (intro conjI allI impI)
    assume "m = CancelOrderRequest k \<or> m = TradeInfoRequest k"
    then show "tradeEngine_Receive random random' elapse c1 e = (Inr (c1, []), e)"
      using n m by (auto simp: tradeEngine_Receive_def cancelOrder_def handleTradeInfoRequest_def ret_def)
  next
    fix order c' sp e'
    assume o: "m = TradeOrderRequest order \<and> toTicker (Token0 order) (Token1 order) (Chain order) = k
        \<and> tradeEngine_Receive random random' elapse c1 e = (Inr (c', sp), e')"
    then have "spawnExecutor random random' order c1 e = (Inr (c', sp), e')" using m by (auto simp: tradeEngine_Receive_def)
    from spawnExecutor_misses [OF _ this] o n show "\<exists>q1 w q2 x. sp = [(q1, Watcher w), (q2, Executor x)]" by simp
  qed
qed

text \<open>The PID of a child.\<close>

definition child_pid :: "trade_msg actor_context \<Rightarrow> string \<Rightarrow> nat \<Rightarrow> trade_msg engine \<Rightarrow> pid" where
  "child_pid c name random e = NewPID (e_address e) (ID (c_pid c) @ pidSeparator @ name @ pidSeparator @ Itoa (int random))"

lemma spawn_trader_free:
  assumes "eng_inv e" "stream_ok es h e" "q = child_pid c name random e" "reg_lookup (e_Registry e) (ID q) = None"
  obtains c' e' where "spawn_trader x name random c e = (Inr (q, c'), e')" "eng_inv e'" "stream_ok es h e'"
    "local_actor q (e_size e) e'" "e_heap e' = (e_heap e)(e_size e := ProcObj q [])" "e_size e' = Suc (e_size e)" "e_address e' = e_address e"
    "reg_lookup (e_Registry e') = (reg_lookup (e_Registry e))(ID q \<mapsto> e_size e)" "c_pid c' = c_pid c"
proof -
  have "Address q = e_address e" using assms(3) by (simp add: child_pid_def)
  from SpawnProc_actor [OF assms(1,2) this assms(4)] obtain e' where sp: "SpawnProc (ProcObj q []) e = (q, SDone, e')" "eng_inv e'"
    "stream_ok es h e'" "local_actor q (e_size e) e'" "e_heap e' = (e_heap e)(e_size e := ProcObj q [])" "e_size e' = Suc (e_size e)"
    "e_address e' = e_address e" "reg_lookup (e_Registry e') = (reg_lookup (e_Registry e))(ID q \<mapsto> e_size e)" by metis
  then show ?thesis
    using that [of "c\<lparr>c_children := sm_Set (ID q) q (c_children c)\<rparr>" e'] assms(3)
    by (simp add: spawn_trader_def a_SpawnChild_def SpawnChild_plain Let_def bindA_def ret_def child_pid_def)
qed

text \<open>
  An order wires an executor to a price watcher. Under fresh ids the trade engine spawns a
  watcher and an executor that knows the watcher and the order; when the executor has started,
  the watcher's inbox holds exactly its subscription.
\<close>

theorem order_wires_executor:
  assumes "eng_inv e" "stream_ok es h e" "own_children c" "ID (c_pid c) = ''trade-engine/'' @ i"
    "ticker = toTicker (Token0 m) (Token1 m) (Chain m)" "CHR ''/'' \<notin> set ticker" "c_message c = User (TradeOrderRequest m)"
    "w = child_pid c ticker random e" "q = child_pid c (TradeID m) random' e" "w \<noteq> q"
    "reg_lookup (e_Registry e) (ID w) = None" "reg_lookup (e_Registry e) (ID q) = None"
  shows "\<exists>c' e' pw te te1 e2. tradeEngine_Receive random random' elapse c e = (Inr (c', [(w, Watcher pw), (q, Executor te)]), e')
    \<and> local_actor w (e_size e) e' \<and> local_actor q (Suc (e_size e)) e' \<and> pw_ticker pw = ticker
    \<and> te_id te = TradeID m \<and> te_expires te = Expires m \<and> te_priceWatcherPID te = Some w
    \<and> executor_Receive a now (newContext ctx q Started) te e' = (Inr te1, e2)
    \<and> e_heap e2 (e_size e) = ProcObj w [\<lparr>Msg = User (SubscribePrice (Some (a, q))), Sender = None\<rparr>] \<and> te_PID te1 = Some (a, q)"
proof -
  have miss: "ctx_Child (''trade-engine/'' @ ticker) c = None" by (rule own_lookup_misses [OF assms(3,4,6)])
  define pw where "pw = NewPriceActor \<lparr>po_Ticker = ticker, po_Token0 = Token0 m, po_Token1 = Token1 m, po_Chain = Chain m\<rparr>"
  define te where "te = NewExecutorActor \<lparr>eo_PriceWatcherPID = Some w, eo_TradeID = TradeID m, eo_Ticker = ticker, eo_Token0 = Token0 m,
     eo_Token1 = Token1 m, eo_Chain = Chain m, eo_Wallet = Wallet m, eo_Pk = PrivateKey m, eo_Expires = Expires m\<rparr>"
  obtain c1 e1 where 1: "spawn_trader (Watcher pw) ticker random c e = (Inr (w, c1), e1)" "eng_inv e1" "stream_ok es h e1"
    "local_actor w (e_size e) e1" "e_heap e1 = (e_heap e)(e_size e := ProcObj w [])" "e_size e1 = Suc (e_size e)" "e_address e1 = e_address e"
    "reg_lookup (e_Registry e1) = (reg_lookup (e_Registry e))(ID w \<mapsto> e_size e)" "c_pid c1 = c_pid c"
    by (rule spawn_trader_free [OF assms(1,2,8,11)])
  have w: "ensurePriceWatcher random m c e = (Inr (w, c1, [(w, Watcher pw)]), e1)"
    using miss 1(1) by (simp add: ensurePriceWatcher_def pw_def assms(5) Let_def bindA_run ret_def)
  have q1: "q = child_pid c1 (TradeID m) random' e1" using 1(7,9) assms(9) by (simp add: child_pid_def)
  have "ID w \<noteq> ID q" using assms(8-10) by (simp add: child_pid_def)
  then have "reg_lookup (e_Registry e1) (ID q) = None" using 1(8) assms(12) by simp
  from spawn_trader_free [OF 1(2,3) q1 this, of "Executor te"]
  obtain c2 e2 where 2: "spawn_trader (Executor te) (TradeID m) random' c1 e1 = (Inr (q, c2), e2)" "stream_ok es h e2"
    "local_actor q (Suc (e_size e)) e2" "e_heap e2 = (e_heap e1)(Suc (e_size e) := ProcObj q [])"
    "e_address e2 = e_address e1" "reg_lookup (e_Registry e2) = (reg_lookup (e_Registry e1))(ID q \<mapsto> e_size e1)"
    unfolding 1(6) by metis
  have x: "tradeEngine_Receive random random' elapse c e = (Inr (c2, [(w, Watcher pw), (q, Executor te)]), e2)"
    using assms(7) w 2(1) by (simp add: tradeEngine_Receive_def spawnExecutor_def bindA_run ret_def Let_def te_def assms(5))
  have l: "local_actor w (e_size e) e2"
    using 1(4,5,8) 2(4-6) \<open>ID w \<noteq> ID q\<close> by (simp add: local_actor_def reg_get_def)
  have "e_heap e2 (e_size e) = ProcObj w []" using 1(5) 2(4) by simp
  note s = a_Send_local [OF 2(2) l this, of "User (SubscribePrice (Some (a, q)))" None]
  let ?e3 = "e2\<lparr>e_heap := (e_heap e2)(e_size e := ProcObj w [\<lparr>Msg = User (SubscribePrice (Some (a, q))), Sender = None\<rparr>])\<rparr>"
  have "executor_Receive a now (newContext ctx q Started) te e2 = (Inr (te\<lparr>te_ActorEngine := True, te_PID := Some (a, q)\<rparr>), ?e3)"
    using s by (simp add: executor_Receive_def newContext_def te_def NewExecutorActor_def field_Send_def bindA_run ret_def Let_def)
  then show ?thesis
    by (intro exI [of _ c2] exI [of _ e2] exI [of _ pw] exI [of _ te] exI [of _ "te\<lparr>te_ActorEngine := True, te_PID := Some (a, q)\<rparr>"] exI [of _ ?e3])
      (use x l 2(3) in \<open>simp add: pw_def NewPriceActor_def te_def NewExecutorActor_def\<close>)
qed

subsection \<open>Witnesses\<close>

lemma example_context:
  "own_children (newContext 0 (NewPID ''local'' ''trade-engine/7'') m)" "ID (c_pid (newContext 0 (NewPID ''local'' ''trade-engine/7'') m)) = ''trade-engine/'' @ ''7''"
  by (rule own_children_new) (simp add: newContext_def)

definition example_order :: trade_order_request where
  "example_order = \<lparr>TradeID = ''t1'', Token0 = ''BTC'', Token1 = ''USD'', Chain = ''eth'', Wallet = ''w'', PrivateKey = ''k'', Expires = 0\<rparr>"

lemma example_order_placed:
  obtains e e' :: "trade_msg engine" and c' w pw q te where "tradeEngine_Receive 8 9 (\<lambda>e. e)
     (newContext 0 (NewPID ''local'' ''trade-engine/7'') (User (TradeOrderRequest example_order))) e
     = (Inr (c', [(w, Watcher pw), (q, Executor te)]), e')" "te_priceWatcherPID te = Some w" "te_id te = ''t1''"
proof -
  obtain e :: "trade_msg engine" where e: "eng_inv e" "stream_ok (stream_pid ''local'' 5) 0 e" "e_address e = ''local''"
    "e_Registry e = \<lparr>reg_lookup = [ID (stream_pid ''local'' 5) \<mapsto> 0], responses = Map.empty\<rparr>"
    using example_engine by blast
  let ?c = "newContext 0 (NewPID ''local'' ''trade-engine/7'') (User (TradeOrderRequest example_order))"
  have p: "child_pid ?c n r e = NewPID ''local'' (''trade-engine/7/'' @ n @ ''/'' @ Itoa (int r))" for n r
    by (simp add: child_pid_def newContext_def pidSeparator_def e(3))
  have t: "toTicker (Token0 example_order) (Token1 example_order) (Chain example_order) = ''BTC-USD-eth''"
    by (simp add: toTicker_def example_order_def)
  have s: "CHR ''/'' \<notin> set ''BTC-USD-eth''" by simp
  have m: "c_message ?c = User (TradeOrderRequest example_order)" by (simp add: newContext_def)
  have d: "child_pid ?c ''BTC-USD-eth'' 8 e \<noteq> child_pid ?c (TradeID example_order) 9 e" unfolding p by (simp add: example_order_def)
  have f: "reg_lookup (e_Registry e) (ID (child_pid ?c n r e)) = None" for n r
    by (simp add: e(4) p stream_pid_id)
  have i: "TradeID example_order = ''t1''" by (simp add: example_order_def)
  from order_wires_executor [OF e(1,2) example_context t [symmetric] s m refl refl d f f, where elapse = "\<lambda>e. e"] i show ?thesis
    by (force intro: that)
qed

theorem order_wires_executor_witness:
  "\<exists>(e :: trade_msg engine) c' e' w pw q te. tradeEngine_Receive 8 9 (\<lambda>e. e)
     (newContext 0 (NewPID ''local'' ''trade-engine/7'') (User (TradeOrderRequest example_order))) e
     = (Inr (c', [(w, Watcher pw), (q, Executor te)]), e') \<and> te_priceWatcherPID te = Some w"
  by (rule example_order_placed) blast

theorem orders_unreachable_witness:
  "\<exists>e0 c e w pw q te. run te_step (newContext 0 (NewPID ''local'' ''trade-engine/7'') Started, e0)
       [Handled (User (TradeOrderRequest example_order)) [(w, Watcher pw), (q, Executor te)]] (c, e) \<and> te_id te = ''t1''
     \<and> (let c1 = c\<lparr>c_message := User (CancelOrderRequest ''t1''), c_sender := None\<rparr> in tradeEngine_Receive 8 9 (\<lambda>e. e) c1 e = (Inr (c1, []), e))"
proof -
  let ?c0 = "newContext 0 (NewPID ''local'' ''trade-engine/7'') Started :: trade_msg actor_context"
  let ?m = "User (TradeOrderRequest example_order)"
  obtain e0 e :: "trade_msg engine" and c w pw q te where h: "tradeEngine_Receive 8 9 (\<lambda>e. e)
     (newContext 0 (NewPID ''local'' ''trade-engine/7'') ?m) e0 = (Inr (c, [(w, Watcher pw), (q, Executor te)]), e)" "te_id te = ''t1''"
    by (rule example_order_placed)
  have "newContext 0 (NewPID ''local'' ''trade-engine/7'') ?m = ?c0\<lparr>c_message := ?m, c_sender := None\<rparr>" by (simp add: newContext_def)
  then have "te_step (?c0, e0) (Handled ?m [(w, Watcher pw), (q, Executor te)]) (c, e)" using h(1) by (intro te_handle) simp
  then have r: "run te_step (?c0, e0) [Handled ?m [(w, Watcher pw), (q, Executor te)]] (c, e)"
    using run.run_snoc [of te_step "(?c0, e0)" "[]" "(?c0, e0)"] run.run_nil by fastforce
  have "ID (NewPID ''local'' ''trade-engine/7'') = ''trade-engine/'' @ ''7''" "CHR ''/'' \<notin> set ''t1''" by simp_all
  from orders_unreachable [OF r this refl, where m = "CancelOrderRequest ''t1''" and s = None] r h(2)
  show ?thesis by (intro exI [of _ e0] exI [of _ c] exI [of _ e] exI [of _ w] exI [of _ pw] exI [of _ q] exI [of _ te]) (simp add: Let_def)
qed

text \<open>An engine with a watcher and an executor.\<close>

lemma example_traders:
  "\<exists>(e :: trade_msg engine) g k mb mb'. stream_ok (stream_pid ''local'' 5) 0 e \<and> local_actor (NewPID ''local'' ''w/1'') k e
     \<and> local_actor (NewPID ''local'' ''q/1'') g e \<and> g \<noteq> k \<and> e_heap e g = ProcObj (NewPID ''local'' ''q/1'') mb
     \<and> e_heap e k = ProcObj (NewPID ''local'' ''w/1'') mb'"
proof -
  obtain e :: "trade_msg engine" where e: "stream_ok (stream_pid ''local'' 5) 0 e" "e_address e = ''local''"
    "e_Registry e = \<lparr>reg_lookup = [ID (stream_pid ''local'' 5) \<mapsto> 0], responses = Map.empty\<rparr>"
    using example_engine by blast
  let ?e = "e\<lparr>e_Registry := \<lparr>reg_lookup = [ID (stream_pid ''local'' 5) \<mapsto> 0, ''w/1'' \<mapsto> 1, ''q/1'' \<mapsto> 2], responses = Map.empty\<rparr>,
     e_heap := (e_heap e)(1 := ProcObj (NewPID ''local'' ''w/1'') [], 2 := ProcObj (NewPID ''local'' ''q/1'') [])\<rparr>"
  have "stream_ok (stream_pid ''local'' 5) 0 ?e" using e by (auto simp: stream_ok_def stream_pid_id)
  moreover have "local_actor (NewPID ''local'' ''w/1'') 1 ?e" "local_actor (NewPID ''local'' ''q/1'') 2 ?e"
    using e(2) by (simp_all add: local_actor_def reg_get_def)
  ultimately show ?thesis by (intro exI [of _ ?e] exI [of _ 2] exI [of _ 1] exI [of _ "[]"]) simp
qed

definition example_executor :: trade_executor where
  "example_executor = (NewExecutorActor \<lparr>eo_PriceWatcherPID = Some (NewPID ''local'' ''w/1''), eo_TradeID = ''t1'', eo_Ticker = ''BTC-USD-eth'',
     eo_Token0 = ''BTC'', eo_Token1 = ''USD'', eo_Chain = ''eth'', eo_Wallet = ''w'', eo_Pk = ''k'', eo_Expires = 0\<rparr>)
     \<lparr>te_ActorEngine := True, te_PID := Some (3, NewPID ''local'' ''q/1'')\<rparr>"

definition example_watcher :: price_watcher where
  "example_watcher = (NewPriceActor \<lparr>po_Ticker = ''BTC-USD-eth'', po_Token0 = ''BTC'', po_Token1 = ''USD'', po_Chain = ''eth''\<rparr>)
     \<lparr>pw_ActorEngine := True, pw_PID := Some (4, NewPID ''local'' ''w/1''), pw_repeater := Some \<lparr>sr_self = None,
       sr_target = Some (NewPID ''local'' ''w/1''), sr_msg = User TriggerPriceUpdate, sr_interval = 200, sr_closed = False\<rparr>\<rparr>"

theorem executor_finishes_witness:
  "\<exists>(e :: trade_msg engine) e'. executor_Receive 3 1 (newContext 0 (NewPID ''local'' ''q/1'') (User (CancelOrderRequest []))) example_executor e
     = (Inr (example_executor\<lparr>te_status := ''cancelled''\<rparr>), e')"
proof -
  obtain e :: "trade_msg engine" and g k mb mb' where e: "stream_ok (stream_pid ''local'' 5) 0 e" "local_actor (NewPID ''local'' ''w/1'') k e"
     "local_actor (NewPID ''local'' ''q/1'') g e" "g \<noteq> k" "e_heap e g = ProcObj (NewPID ''local'' ''q/1'') mb"
     "e_heap e k = ProcObj (NewPID ''local'' ''w/1'') mb'" using example_traders by blast
  have "te_ActorEngine example_executor" "te_PID example_executor = Some (3, NewPID ''local'' ''q/1'')"
    "te_priceWatcherPID example_executor = Some (NewPID ''local'' ''w/1'')"
    by (simp_all add: example_executor_def NewExecutorActor_def)
  from executor_finishes [OF e(1) this e(3,2,4-6), of "newContext 0 (NewPID ''local'' ''q/1'') (User (CancelOrderRequest []))" 1]
  show ?thesis by (auto simp: newContext_def)
qed

theorem price_fanout_witness:
  "\<exists>(e :: trade_msg engine) pw' e'. bindA (watcher_messages [SubscribePrice (Some (3, NewPID ''local'' ''q/1''))] (newContext 0 (NewPID ''local'' ''w/1'') Started) example_watcher)
     (watcher_Receive 4 [Some (3, NewPID ''local'' ''q/1'')] 1 (newContext 0 (NewPID ''local'' ''w/1'') (User TriggerPriceUpdate))) e
     = (Inr pw', e') \<and> pw_lastPrice pw' = 2"
proof -
  obtain e :: "trade_msg engine" and g where e: "stream_ok (stream_pid ''local'' 5) 0 e" "local_actor (NewPID ''local'' ''q/1'') g e"
    using example_traders by blast
  let ?ms = "[SubscribePrice (Some (3, NewPID ''local'' ''q/1''))]"
  let ?w = "[Some (3, NewPID ''local'' ''q/1'') \<mapsto> True]"
  have s: "pw_subscribers example_watcher = Map.empty" "pw_ActorEngine example_watcher" "pw_lastPrice example_watcher = 0"
    by (simp_all add: example_watcher_def NewPriceActor_def)
  have a: "list_all is_subscription ?ms" by (simp add: is_subscription_def)
  have b: "?w = (\<lambda>k. last_write (pw_subscribers example_watcher k) k (concat (map store_op ?ms)))"
    by (auto simp: s store_op_def)
  have o: "range_order ?w [Some (3, NewPID ''local'' ''q/1'')]" by (simp add: range_order_def)
  have l: "local_subs (dom ?w) e" using e(2) by (auto simp: local_subs_def)
  have t: "c_message (newContext 0 (NewPID ''local'' ''w/1'') (User TriggerPriceUpdate)) = User TriggerPriceUpdate"
    by (simp add: newContext_def)
  have "\<exists>pw' e'. bindA (watcher_messages ?ms (newContext 0 (NewPID ''local'' ''w/1'') Started) example_watcher)
     (watcher_Receive 4 [Some (3, NewPID ''local'' ''q/1'')] 1 (newContext 0 (NewPID ''local'' ''w/1'') (User TriggerPriceUpdate))) e
     = (Inr pw', e') \<and> pw_subscribers pw' = ?w \<and> pw_lastPrice pw' = f64_add (pw_lastPrice example_watcher) 2"
    using price_fanout [OF e(1) s(2) a b o _ l t] by fast
  then show ?thesis using f64_add_exact [of 0] s(3) by auto
qed

theorem price_saturates_witness:
  "\<exists>(e :: trade_msg engine) pw' e'. ticks [([None], 1), ([None], 2)] (example_watcher\<lparr>pw_subscribers := [None \<mapsto> True]\<rparr>) e = (Inr pw', e')
     \<and> pw_lastPrice pw' = 4"
proof -
  obtain e :: "trade_msg engine" where True by blast
  let ?pw = "example_watcher\<lparr>pw_subscribers := [None \<mapsto> True]\<rparr>"
  have n: "a_Send None m None e = (Inr (), e)" for m by (simp add: a_Send_def SendWithSender_def send_fuel_def eval_nat_numeral)
  have "\<exists>pw' e'. ticks [([None], 1), ([None], 2)] ?pw e = (Inr pw', e')"
    by (simp add: refresh_def field_Send_def n bindA_def ret_def Let_def example_watcher_def NewPriceActor_def)
  then obtain pw' e' where t: "ticks [([None], 1), ([None], 2)] ?pw e = (Inr pw', e')" by blast
  from price_saturates [OF this] have "pw_lastPrice pw' = 4" by (simp add: example_watcher_def NewPriceActor_def)
  with t show ?thesis by blast
qed

theorem idle_watcher_panics_witness:
  "\<exists>(e :: trade_msg engine) pw'. watcher_Receive 4 [] 2 (newContext 0 (NewPID ''local'' ''w/1'') (User TriggerPriceUpdate)) pw' e
     = (Inl (HPanic CloseOfClosed), e)"
proof -
  obtain e :: "trade_msg engine" and k mb' where e: "local_actor (NewPID ''local'' ''w/1'') k e"
     "e_heap e k = ProcObj (NewPID ''local'' ''w/1'') mb'" using example_traders by blast
  have w: "pw_ActorEngine example_watcher" "pw_PID example_watcher = Some (4, NewPID ''local'' ''w/1'')"
    "\<exists>sr. pw_repeater example_watcher = Some sr \<and> \<not> sr_closed sr" "pw_subscribers example_watcher = Map.empty"
    by (simp_all add: example_watcher_def NewPriceActor_def)
  then obtain sr where sr: "pw_repeater example_watcher = Some sr" "\<not> sr_closed sr" by blast
  from idle_watcher_panics [OF w(1,2) sr w(4) e, of "newContext 0 (NewPID ''local'' ''w/1'') (User TriggerPriceUpdate)" 1 2]
  show ?thesis by (auto simp: newContext_def)
qed

end
