(* ===== verification/Json.thy ===== *)
theory Json
  imports Float64 Strconv
begin

section \<open>JSON documents (encoding/json)\<close>

text \<open>
  What the programs use of the package \<open>encoding/json\<close>: writing a string and an \<open>int\<close>, and reading a
  flat object of strings and integers into a \<open>map[string]any\<close>, where a number becomes a
  \<open>float64\<close>. Strings are ASCII. The reader returns its error for every other document.
\<close>

datatype json = JFloat int | JString string

definition hex_char :: "nat \<Rightarrow> char" where
  "hex_char d = digit_char d"

text \<open>\<open>appendString\<close> with HTML escaping: one character of a string.\<close>

definition json_char :: "char \<Rightarrow> string" where
  "json_char c =
     (let n = of_char c :: nat in
      if n = 34 \<or> n = 92 then [CHR 92, c]
      else if n = 8 then [CHR 92, CHR ''b'']
      else if n = 12 then [CHR 92, CHR ''f'']
      else if n = 10 then [CHR 92, CHR ''n'']
      else if n = 13 then [CHR 92, CHR ''r'']
      else if n = 9 then [CHR 92, CHR ''t'']
      else if n < 32 \<or> n = 60 \<or> n = 62 \<or> n = 38 then [CHR 92, CHR ''u'', CHR ''0'', CHR ''0'', hex_char (n div 16), hex_char (n mod 16)]
      else [c])"

definition json_string :: "string \<Rightarrow> string" where
  "json_string s = [CHR 34] @ concat (map json_char s) @ [CHR 34]"

subsection \<open>Reading\<close>

definition hex_val :: "char \<Rightarrow> nat option" where
  "hex_val c = (let n = of_char c :: nat in
     if 48 \<le> n \<and> n \<le> 57 then Some (n - 48)
     else if 97 \<le> n \<and> n \<le> 102 then Some (n - 87)
     else if 65 \<le> n \<and> n \<le> 70 then Some (n - 55) else None)"

definition unescape :: "char \<Rightarrow> char option" where
  "unescape c = (let n = of_char c :: nat in
     if n = 34 \<or> n = 92 \<or> n = 47 then Some c
     else if c = CHR ''b'' then Some (char_of (8 :: nat))
     else if c = CHR ''f'' then Some (char_of (12 :: nat))
     else if c = CHR ''n'' then Some (char_of (10 :: nat))
     else if c = CHR ''r'' then Some (char_of (13 :: nat))
     else if c = CHR ''t'' then Some (char_of (9 :: nat)) else None)"

text \<open>The characters of a string behind its opening quote, and what follows the closing one.\<close>

definition char_then :: "char \<Rightarrow> (string \<times> string) option \<Rightarrow> (string \<times> string) option" where
  "char_then c r = map_option (\<lambda>(s, rest). (c # s, rest)) r"

fun read_string :: "string \<Rightarrow> (string \<times> string) option" where
  "read_string [] = None"
| "read_string (c # cs) =
     (if c = CHR 34 then Some ([], cs)
      else if c = CHR 92 then
        (case cs of
           [] \<Rightarrow> None
         | d # ds \<Rightarrow>
             if d = CHR ''u'' then
               (case ds of
                  a # b # x # y # es \<Rightarrow>
                    (case (hex_val a, hex_val b, hex_val x, hex_val y) of
                       (Some 0, Some 0, Some i, Some j) \<Rightarrow>
                         if 16 * i + j < 128 then char_then (char_of (16 * i + j)) (read_string es) else None
                     | _ \<Rightarrow> None)
                | _ \<Rightarrow> None)
             else (case unescape d of Some ch \<Rightarrow> char_then ch (read_string ds) | None \<Rightarrow> None))
      else if (of_char c :: nat) < 32 then None
      else char_then c (read_string cs))"

definition is_ws :: "char \<Rightarrow> bool" where
  "is_ws c \<longleftrightarrow> c = CHR 32 \<or> c = CHR 9 \<or> c = CHR 10 \<or> c = CHR 13"

definition skip_ws :: "string \<Rightarrow> string" where
  "skip_ws s = dropWhile is_ws s"

text \<open>An integer literal: no leading zeros, no fraction, no exponent.\<close>

definition read_int :: "string \<Rightarrow> (int \<times> string) option" where
  "read_int s =
     (let neg = (s \<noteq> [] \<and> hd s = CHR ''-'');
          t = (if neg then tl s else s);
          ds = takeWhile (\<lambda>c. digit_val c \<noteq> None) t;
          rest = drop (length ds) t
      in if ds = [] \<or> (length ds > 1 \<and> hd ds = CHR ''0'') \<or> (rest \<noteq> [] \<and> hd rest \<in> {CHR ''.'', CHR ''e'', CHR ''E''}) then None
         else case parse_digits ds 0 of Some n \<Rightarrow> Some (if neg then - int n else int n, rest) | None \<Rightarrow> None)"

definition read_value :: "string \<Rightarrow> (json \<times> string) option" where
  "read_value s =
     (case skip_ws s of
        [] \<Rightarrow> None
      | c # cs \<Rightarrow>
          if c = CHR 34 then map_option (\<lambda>(x, rest). (JString x, rest)) (read_string cs)
          else map_option (\<lambda>(n, rest). (JFloat (f64_of_int n), rest)) (read_int (c # cs)))"

text \<open>One member of an object; then the rest behind a comma, or the closing brace.\<close>

definition expect :: "char \<Rightarrow> string \<Rightarrow> string option" where
  "expect c s = (case skip_ws s of x # xs \<Rightarrow> if x = c then Some xs else None | [] \<Rightarrow> None)"

definition read_member :: "string \<Rightarrow> (string \<times> json \<times> string) option" where
  "read_member s =
     (case expect (CHR 34) s of None \<Rightarrow> None | Some s1 \<Rightarrow>
      (case read_string s1 of None \<Rightarrow> None | Some (k, s2) \<Rightarrow>
       (case expect (CHR '':'') s2 of None \<Rightarrow> None | Some s3 \<Rightarrow>
        (case read_value s3 of None \<Rightarrow> None | Some (v, s4) \<Rightarrow> Some (k, v, s4)))))"

fun read_members :: "nat \<Rightarrow> string \<Rightarrow> (string \<rightharpoonup> json) \<Rightarrow> (string \<rightharpoonup> json) option" where
  "read_members 0 s m = None"
| "read_members (Suc n) s m =
     (case read_member s of None \<Rightarrow> None | Some (k, v, s1) \<Rightarrow>
      (case expect (CHR '','') s1 of
         Some s2 \<Rightarrow> read_members n s2 (m(k \<mapsto> v))
       | None \<Rightarrow> (case expect (CHR 125) s1 of
            Some s2 \<Rightarrow> if skip_ws s2 = [] then Some (m(k \<mapsto> v)) else None
          | None \<Rightarrow> None)))"

text \<open>\<open>json.Unmarshal\<close> into a nil map. Each member takes at least one character, so the length bounds their number.\<close>

definition json_Unmarshal :: "string \<Rightarrow> (string \<rightharpoonup> json) option" where
  "json_Unmarshal s =
     (case expect (CHR 123) s of
        None \<Rightarrow> None
      | Some s1 \<Rightarrow> (case expect (CHR 125) s1 of
            Some s2 \<Rightarrow> if skip_ws s2 = [] then Some Map.empty else None
          | None \<Rightarrow> read_members (length s) s1 Map.empty))"

subsection \<open>Reading back what was written\<close>

definition ascii :: "string \<Rightarrow> bool" where
  "ascii s \<longleftrightarrow> (\<forall>c \<in> set s. (of_char c :: nat) < 128)"

lemma hex_val_char: "d < 16 \<Longrightarrow> hex_val (hex_char d) = Some d"
  by (simp add: hex_val_def hex_char_def digit_char_def Let_def)

lemma special_chars:
  "char_of (34 :: nat) = CHR 34" "char_of (92 :: nat) = CHR 92" "char_of (8 :: nat) = CHR 8" "char_of (12 :: nat) = CHR 12"
  "char_of (10 :: nat) = CHR 10" "char_of (13 :: nat) = CHR 13" "char_of (9 :: nat) = CHR 9"
  by code_simp+

lemma read_json_char:
  assumes "(of_char c :: nat) < 128"
  shows "read_string (json_char c @ r) = char_then c (read_string r)"
proof -
  define n where "n = (of_char c :: nat)"
  have c: "c = char_of n" by (simp add: n_def)
  have n: "n < 128" using assms by (simp add: n_def)
  have h: "hex_val (CHR ''0'') = Some 0" by (simp add: hex_val_def)
  consider "n = 34 \<or> n = 92" | "n = 8" | "n = 12" | "n = 10" | "n = 13" | "n = 9"
    | "n \<noteq> 34" "n \<noteq> 92" "n \<noteq> 8" "n \<noteq> 12" "n \<noteq> 10" "n \<noteq> 13" "n \<noteq> 9" "n < 32 \<or> n = 60 \<or> n = 62 \<or> n = 38"
    | "n \<noteq> 34" "n \<noteq> 92" "\<not> n < 32" "n \<noteq> 60" "n \<noteq> 62" "n \<noteq> 38" by linarith
  then show ?thesis
  proof cases
    case 7
    have "hex_val (hex_char (n div 16)) = Some (n div 16)" "hex_val (hex_char (n mod 16)) = Some (n mod 16)"
      using n by (auto intro!: hex_val_char)
    moreover have "json_char c = [CHR 92, CHR ''u'', CHR ''0'', CHR ''0'', hex_char (n div 16), hex_char (n mod 16)]"
      using 7 by (auto simp: json_char_def n_def [symmetric] Let_def)
    ultimately show ?thesis using n c by (simp add: h)
  next
    case 8
    then have "json_char c = [c]" "c \<noteq> CHR 34" "c \<noteq> CHR 92" "\<not> (of_char c :: nat) < 32"
      by (auto simp: json_char_def n_def Let_def)
    then show ?thesis by simp
  next
    case 1
    then have "c = CHR 34 \<or> c = CHR 92" by (auto simp: c special_chars)
    then show ?thesis by (auto simp: json_char_def unescape_def)
  qed (simp_all add: c special_chars json_char_def unescape_def)
qed

lemma read_json_string: "ascii s \<Longrightarrow> read_string (concat (map json_char s) @ CHR 34 # r) = Some (s, r)"
  by (induction s) (simp_all add: ascii_def read_json_char char_then_def)

lemma digits_hd: "0 < n \<Longrightarrow> 2 \<le> b \<Longrightarrow> hd (digits b n) \<noteq> 0"
proof (induction b n rule: digits.induct)
  case (1 b n)
  show ?case
  proof (cases "n < b")
    case False
    then have "0 < n div b" using 1(3) by (simp add: div_greater_zero_iff)
    then show ?thesis using 1 False digits.simps [of b n] by simp
  qed (use 1 digits.simps [of b n] in simp)
qed

lemma zero_char: "char_of (48 :: nat) = CHR ''0''"
  by code_simp

lemma digit_char_zero: "d < 10 \<Longrightarrow> digit_char d = CHR ''0'' \<longleftrightarrow> d = 0"
  by (auto simp: digit_char_def zero_char dest!: arg_cong [of _ _ "of_char :: char \<Rightarrow> nat"])

lemma read_digits:
  assumes "digit_val c = None" "c \<notin> {CHR ''.'', CHR ''e'', CHR ''E''}"
  shows "read_int (map digit_char (digits 10 n) @ c # r) = Some (int n, c # r)"
    "read_int (CHR ''-'' # map digit_char (digits 10 n) @ c # r) = Some (- int n, c # r)"
proof -
  let ?ds = "map digit_char (digits 10 n)"
  have d: "\<forall>d \<in> set (digits 10 n). d < 10" using digits_less [of 10] by simp
  have t: "takeWhile (\<lambda>c. digit_val c \<noteq> None) (?ds @ c # r) = ?ds"
    using d assms(1) digit_val_char by (subst takeWhile_append2) auto
  have v: "parse_digits ?ds 0 = Some n" using parse_digit_chars [OF d] digits_value [of 10 n] by simp
  have "hd ?ds = digit_char (hd (digits 10 n))" by (simp add: hd_map)
  moreover have "hd (digits 10 n) < 10" using d hd_in_set [of "digits 10 n"] by simp
  ultimately have z: "\<not> (length ?ds > 1 \<and> hd ?ds = CHR ''0'')"
    using digits_hd [of n 10] digits.simps [of 10 0] digit_char_zero by (cases "n = 0") auto
  have m: "hd (?ds @ c # r) \<noteq> CHR ''-''"
    using d hd_in_set [of "digits 10 n"] digit_char_not by (simp add: hd_append hd_map)
  show "read_int (?ds @ c # r) = Some (int n, c # r)"
    using t v z m assms(2) by (simp add: read_int_def Let_def)
  show "read_int (CHR ''-'' # ?ds @ c # r) = Some (- int n, c # r)"
    using t v z assms(2) by (simp add: read_int_def Let_def)
qed

lemma read_Itoa:
  assumes "digit_val c = None" "c \<notin> {CHR ''.'', CHR ''e'', CHR ''E''}"
  shows "read_int (Itoa n @ c # r) = Some (n, c # r)"
  using read_digits [OF assms, of "nat n"] read_digits [OF assms, of "nat (- n)"] by (simp add: Itoa_def)

lemma Itoa_hd: "Itoa n \<noteq> [] \<and> \<not> is_ws (hd (Itoa n)) \<and> hd (Itoa n) \<noteq> CHR 34"
proof (cases "n < 0")
  case False
  then obtain ds where ds: "Itoa n = map digit_char ds" "ds \<noteq> []" "\<forall>d \<in> set ds. d < 10" using Itoa_chars by (metis not_less)
  then have "hd ds < 10" by simp
  then have "(of_char (digit_char (hd ds)) :: nat) \<in> {48..57}" by (simp add: digit_char_def)
  then have "\<not> is_ws (digit_char (hd ds)) \<and> digit_char (hd ds) \<noteq> CHR 34" by (auto simp: is_ws_def)
  then show ?thesis using ds by (simp add: hd_map)
qed (simp add: Itoa_def is_ws_def)

text \<open>Written values are read back; a number as the \<open>float64\<close> next to it.\<close>

lemma read_written:
  "ascii x \<Longrightarrow> read_value (json_string x @ r) = Some (JString x, r)"
  "digit_val c = None \<Longrightarrow> c \<notin> {CHR ''.'', CHR ''e'', CHR ''E''} \<Longrightarrow> read_value (Itoa n @ c # r) = Some (JFloat (f64_of_int n), c # r)"
proof -
  show "ascii x \<Longrightarrow> read_value (json_string x @ r) = Some (JString x, r)"
    by (simp add: read_value_def json_string_def skip_ws_def is_ws_def read_json_string)
  assume c: "digit_val c = None" "c \<notin> {CHR ''.'', CHR ''e'', CHR ''E''}"
  obtain x xs where x: "Itoa n = x # xs" "\<not> is_ws x" "x \<noteq> CHR 34" using Itoa_hd [of n] by (cases "Itoa n") auto
  then show "read_value (Itoa n @ c # r) = Some (JFloat (f64_of_int n), c # r)"
    using read_Itoa [OF c, of n r] by (simp add: read_value_def skip_ws_def)
qed

lemma read_written_member:
  assumes "ascii k" "read_value v = Some (x, r)"
  shows "read_member (json_string k @ '':'' @ v) = Some (k, x, r)"
proof -
  have "read_string (concat (map json_char k) @ CHR 34 # CHR '':'' # v) = Some (k, CHR '':'' # v)"
    by (rule read_json_string [OF assms(1)])
  then show ?thesis
    using assms(2) by (simp add: read_member_def json_string_def expect_def skip_ws_def is_ws_def)
qed

lemma Unmarshal_two:
  assumes "ascii k" "ascii l" "ascii x"
  shows "json_Unmarshal ([CHR 123] @ json_string k @ '':'' @ Itoa n @ '','' @ json_string l @ '':'' @ json_string x @ [CHR 125])
    = Some [k \<mapsto> JFloat (f64_of_int n), l \<mapsto> JString x]"
proof -
  let ?r = "json_string l @ '':'' @ json_string x @ [CHR 125]"
  let ?s = "json_string k @ '':'' @ Itoa n @ CHR '','' # ?r"
  have "read_value (Itoa n @ CHR '','' # ?r) = Some (JFloat (f64_of_int n), CHR '','' # ?r)"
    by (rule read_written(2)) (simp_all add: digit_val_def)
  then have 1: "read_member ?s = Some (k, JFloat (f64_of_int n), CHR '','' # ?r)" by (rule read_written_member [OF assms(1)])
  have 2: "read_member ?r = Some (l, JString x, [CHR 125])" using read_written_member [OF assms(2) read_written(1) [OF assms(3)]] by simp
  have e: "expect (CHR '','') (CHR '','' # ?r) = Some ?r" "expect (CHR '','') [CHR 125] = None" "expect (CHR 125) [CHR 125] = Some []"
    "expect (CHR 125) ?s = None" "expect (CHR 123) (CHR 123 # ?s) = Some ?s" "skip_ws [] = []"
    by (simp_all add: expect_def skip_ws_def is_ws_def json_string_def)
  obtain m where m: "length (CHR 123 # ?s) = Suc (Suc m)" by (simp add: json_string_def)
  have "read_members (Suc (Suc m)) ?s Map.empty = Some [k \<mapsto> JFloat (f64_of_int n), l \<mapsto> JString x]"
    using 1 2 e by simp
  then show ?thesis using e m by (simp add: json_Unmarshal_def)
qed

end
