(* ===== verification/Persistence.thy ===== *)
theory Persistence
  imports Process Json
begin

section \<open>Actors that persist their state (examples/persistance)\<close>

text \<open>
  \<open>WithPersistence\<close> is a middleware: when the receiver is initialized it loads the state stored under
  the PID, when the receiver is stopped it stores it. The interfaces \<open>Storer\<close> and \<open>Persister\<close> are
  records of their methods; a failed type assertion to \<open>Persister\<close> is \<open>None\<close>. The state of user code
  is the receiver, what the store keeps, and whether \<open>log.Fatal\<close> has ended the program: \<open>w_exited\<close> is
  set at that call, and what the model of the process does with a world in which it is set is not
  part of a run any more. The theorems about processes with this middleware therefore say that it
  is not set. The disk says for every path whether opening it fails and after how many bytes writing it fails.
\<close>

record 'd storer =
  st_Store :: "string \<Rightarrow> string \<Rightarrow> 'd \<Rightarrow> bool \<times> 'd"
  st_Load :: "string \<Rightarrow> 'd \<Rightarrow> string option"

record 'r persister =
  ps_State :: "'r \<Rightarrow> string option"
  ps_LoadState :: "(string \<rightharpoonup> json) \<Rightarrow> 'r \<Rightarrow> 'r \<times> bool res"

record ('r, 'd) world =
  w_receiver :: 'r
  w_disk :: 'd
  w_exited :: bool

text \<open>Calling one function after the other; a panic of the first ends it.\<close>

definition seq_next :: "('u, 'm, 'a) receive_func \<Rightarrow> ('u, 'm, 'a) receive_func \<Rightarrow> ('u, 'm, 'a) receive_func" where
  "seq_next f g c w = (case f c w of
      (w1, as, None) \<Rightarrow> (case g c w1 of (w2, bs, r) \<Rightarrow> (w2, as @ bs, r))
    | r \<Rightarrow> r)"

definition WithPersistence :: "'d storer \<Rightarrow> 'r persister option \<Rightarrow> (('r, 'd) world, 'm, 'a) middleware_func" where
  "WithPersistence store persister next c w =
     (case cv_message c of
        Initialized \<Rightarrow>
          (case persister of
             None \<Rightarrow> next c w
           | Some p \<Rightarrow>
               (case st_Load store (pid_String (cv_pid c)) (w_disk w) of
                  None \<Rightarrow> next c w
                | Some b \<Rightarrow>
                    (case json_Unmarshal b of
                       None \<Rightarrow> (w\<lparr>w_exited := True\<rparr>, [], None)
                     | Some data \<Rightarrow>
                         (case ps_LoadState p data (w_receiver w) of
                            (r, Inl q) \<Rightarrow> (w\<lparr>w_receiver := r\<rparr>, [], Some (RuntimePanic q))
                          | (r, Inr True) \<Rightarrow> next c (w\<lparr>w_receiver := r\<rparr>)
                          | (r, Inr False) \<Rightarrow> seq_next next next c (w\<lparr>w_receiver := r\<rparr>)))))
      | Stopped \<Rightarrow>
          (case persister of
             None \<Rightarrow> next c w
           | Some p \<Rightarrow>
               (case ps_State p (w_receiver w) of
                  None \<Rightarrow> next c w
                | Some s \<Rightarrow>
                    (case st_Store store (pid_String (cv_pid c)) s (w_disk w) of
                       (False, d) \<Rightarrow> next c (w\<lparr>w_disk := d\<rparr>)
                     | (True, d) \<Rightarrow> next c (w\<lparr>w_disk := d\<rparr>))))
      | _ \<Rightarrow> next c w)"

subsection \<open>The player\<close>

record player =
  Health :: "64 word"
  Username :: string

datatype player_msg = TakeDamage (Amount: "64 word")

definition player_Receive :: "((player, 'd) world, player_msg, 'a) receive_func" where
  "player_Receive c w = (case cv_message c of
      User (TakeDamage n) \<Rightarrow> (w\<lparr>w_receiver := (w_receiver w)\<lparr>Health := Health (w_receiver w) - n\<rparr>\<rparr>, [], None)
    | _ \<Rightarrow> (w, [], None))"

definition newPlayerState :: "64 word \<Rightarrow> string \<Rightarrow> (player, 'd) world \<Rightarrow> (player, 'd) world \<times> player_msg panic_val option" where
  "newPlayerState health username w = (w\<lparr>w_receiver := \<lparr>Health = health, Username = username\<rparr>\<rparr>, None)"

text \<open>A missing member is a nil \<open>any\<close>, so the type assertion on it panics too.\<close>

definition player_LoadState :: "(string \<rightharpoonup> json) \<Rightarrow> player \<Rightarrow> player \<times> bool res" where
  "player_LoadState data p =
     (case data ''health'' of
        Some (JFloat x) \<Rightarrow>
          (let p1 = p\<lparr>Health := word_of_int (int_of_f64 x)\<rparr> in
           case data ''username'' of
             Some (JString u) \<Rightarrow> (p1\<lparr>Username := u\<rparr>, Inr True)
           | _ \<Rightarrow> (p1, Inl TypeAssertion))
      | _ \<Rightarrow> (p, Inl TypeAssertion))"

text \<open>\<open>json.Marshal\<close> of the struct \<open>State\<close> with its tags.\<close>

definition player_State :: "player \<Rightarrow> string option" where
  "player_State p = Some ([CHR 123] @ json_string ''health'' @ '':'' @ Itoa (sint (Health p)) @ '','' @
     json_string ''username'' @ '':'' @ json_string (Username p) @ [CHR 125])"

definition player_persister :: "player persister" where
  "player_persister = \<lparr>ps_State = player_State, ps_LoadState = player_LoadState\<rparr>"

subsection \<open>The file store\<close>

record disk =
  d_files :: "string \<rightharpoonup> string"
  d_openErr :: "string \<Rightarrow> bool"
  d_writeErr :: "string \<Rightarrow> nat option"

definition os_WriteFile :: "string \<Rightarrow> string \<Rightarrow> disk \<Rightarrow> bool \<times> disk" where
  "os_WriteFile p data d =
     (if d_openErr d p then (False, d)
      else case d_writeErr d p of
             None \<Rightarrow> (True, d\<lparr>d_files := (d_files d)(p \<mapsto> data)\<rparr>)
           | Some n \<Rightarrow> (False, d\<lparr>d_files := (d_files d)(p \<mapsto> take n data)\<rparr>))"

definition os_ReadFile :: "string \<Rightarrow> disk \<Rightarrow> string option" where
  "os_ReadFile p d = (if d_openErr d p then None else d_files d p)"

text \<open>\<open>path.Join\<close> of a clean directory and a name without dots and slashes.\<close>

definition path_Join :: "string \<Rightarrow> string \<Rightarrow> string" where
  "path_Join dir name = (if name = [] then dir else dir @ ''/'' @ name)"

definition alnum :: "char \<Rightarrow> bool" where
  "alnum c \<longleftrightarrow> (let n = of_char c :: nat in 97 \<le> n \<and> n \<le> 122 \<or> 65 \<le> n \<and> n \<le> 90 \<or> 48 \<le> n \<and> n \<le> 57)"

text \<open>
  The regular expression runs over the code points of the name, as \<open>utf8.DecodeRuneInString\<close> finds
  them: the bytes of a well-formed sequence are one code point, and a byte that begins none is one
  by itself. Each code point that is not a letter or a digit becomes one underscore.
\<close>

definition in_range :: "nat \<Rightarrow> nat \<Rightarrow> string \<Rightarrow> nat \<Rightarrow> bool" where
  "in_range lo hi s i \<longleftrightarrow> i < length s \<and> lo \<le> (of_char (s ! i) :: nat) \<and> (of_char (s ! i) :: nat) \<le> hi"

definition rune_width :: "string \<Rightarrow> nat" where
  "rune_width s =
     (if in_range 0xC2 0xDF s 0 \<and> in_range 0x80 0xBF s 1 then 2
      else if (in_range 0xE0 0xE0 s 0 \<and> in_range 0xA0 0xBF s 1 \<or> in_range 0xED 0xED s 0 \<and> in_range 0x80 0x9F s 1
        \<or> (in_range 0xE1 0xEC s 0 \<or> in_range 0xEE 0xEF s 0) \<and> in_range 0x80 0xBF s 1) \<and> in_range 0x80 0xBF s 2 then 3
      else if (in_range 0xF0 0xF0 s 0 \<and> in_range 0x90 0xBF s 1 \<or> in_range 0xF4 0xF4 s 0 \<and> in_range 0x80 0x8F s 1
        \<or> in_range 0xF1 0xF3 s 0 \<and> in_range 0x80 0xBF s 1) \<and> in_range 0x80 0xBF s 2 \<and> in_range 0x80 0xBF s 3 then 4
      else 1)"

fun safeFileName :: "string \<Rightarrow> string" where
  "safeFileName [] = []"
| "safeFileName (c # s) = (if alnum c then c else CHR ''_'') # safeFileName (drop (rune_width (c # s) - 1) s)"

text \<open>A name of ASCII characters keeps its length; the two bytes of a letter with an accent become one underscore.\<close>

lemma safeFileName_ascii:
  assumes "\<forall>c \<in> set s. (of_char c :: nat) < 128"
  shows "safeFileName s = map (\<lambda>c. if alnum c then c else CHR ''_'') s"
  using assms
proof (induction s)
  case (Cons c s)
  have "rune_width (c # s) = 1" using Cons.prems by (simp add: rune_width_def in_range_def)
  then show ?case using Cons by simp
qed simp

lemma safeFileName_runes: "safeFileName (''a'' @ [CHR 0xC3, CHR 0xA9, CHR 0xC3] @ ''b'') = ''a__b''"
  by (simp add: rune_width_def in_range_def alnum_def)

record file_store =
  fs_path :: string

text \<open>\<open>os.Mkdir\<close> returns an error or not; \<open>None\<close> is the end of the program.\<close>

definition newFileStore :: "bool \<Rightarrow> bool \<Rightarrow> file_store option" where
  "newFileStore mkdir_err is_exist = (if mkdir_err \<and> \<not> is_exist then None else Some \<lparr>fs_path = ''/tmp/persistenceexample''\<rparr>)"

definition fs_Store :: "file_store \<Rightarrow> string \<Rightarrow> string \<Rightarrow> disk \<Rightarrow> bool \<times> disk" where
  "fs_Store r key state d = (let key' = safeFileName key in os_WriteFile (path_Join (fs_path r) key') state d)"

definition fs_Load :: "file_store \<Rightarrow> string \<Rightarrow> disk \<Rightarrow> string option" where
  "fs_Load r key d = (let key' = safeFileName key in os_ReadFile (path_Join (fs_path r) key') d)"

definition file_storer :: "file_store \<Rightarrow> disk storer" where
  "file_storer r = \<lparr>st_Store = fs_Store r, st_Load = fs_Load r\<rparr>"

subsection \<open>The contracts of a store and of a persistent receiver\<close>

text \<open>A store: what was stored under a slot is loaded from it, and other slots are left alone.\<close>

locale durable_store =
  fixes storer :: "'d storer"
    and slot :: "string \<Rightarrow> 'k"
    and healthy :: "'k \<Rightarrow> 'd \<Rightarrow> bool"
  assumes store_law: "healthy (slot k) d \<Longrightarrow> \<exists>d'. st_Store storer k s d = (True, d') \<and> healthy (slot k) d' \<and>
      (\<forall>k'. st_Load storer k' d' = (if slot k' = slot k then Some s else st_Load storer k' d))"

text \<open>A persister: its state can be read back into any receiver.\<close>

locale durable_receiver =
  fixes persister :: "'r persister"
    and sound :: "'r \<Rightarrow> bool"
  assumes state_law: "sound r \<Longrightarrow> \<exists>b data. ps_State persister r = Some b \<and> json_Unmarshal b = Some data \<and>
      (\<forall>r'. ps_LoadState persister data r' = (r, Inr True))"

locale persistent_actor = durable_store storer slot healthy + durable_receiver persister sound
  for storer :: "'d storer" and slot :: "string \<Rightarrow> 'k" and healthy and persister :: "'r persister" and sound
begin

definition saved :: "string \<Rightarrow> 'r \<Rightarrow> 'd \<Rightarrow> bool" where
  "saved key r d \<longleftrightarrow> (\<exists>b data. st_Load storer key d = Some b \<and> json_Unmarshal b = Some data \<and>
     (\<forall>r'. ps_LoadState persister data r' = (r, Inr True)))"

lemma stop_saves:
  fixes next_func :: "(('r, 'd) world, 'm, 'a) receive_func"
  assumes "sound (w_receiver w)" "healthy (slot (pid_String (cv_pid c))) (w_disk w)" "cv_message c = Stopped"
  shows "\<exists>d'. WithPersistence storer (Some persister) next_func c w = next_func c (w\<lparr>w_disk := d'\<rparr>)
    \<and> healthy (slot (pid_String (cv_pid c))) d'
    \<and> (\<forall>k. slot k = slot (pid_String (cv_pid c)) \<longrightarrow> saved k (w_receiver w) d')
    \<and> (\<forall>k. slot k \<noteq> slot (pid_String (cv_pid c)) \<longrightarrow> st_Load storer k d' = st_Load storer k (w_disk w))"
proof -
  obtain b data where b: "ps_State persister (w_receiver w) = Some b" "json_Unmarshal b = Some data"
    "\<forall>r'. ps_LoadState persister data r' = (w_receiver w, Inr True)" using state_law [OF assms(1)] by blast
  obtain d' where d: "st_Store storer (pid_String (cv_pid c)) b (w_disk w) = (True, d')" "healthy (slot (pid_String (cv_pid c))) d'"
    "\<forall>k. st_Load storer k d' = (if slot k = slot (pid_String (cv_pid c)) then Some b else st_Load storer k (w_disk w))"
    using store_law [OF assms(2), of b] by blast
  then show ?thesis using b assms(3) by (intro exI [of _ d']) (auto simp: WithPersistence_def saved_def)
qed

lemma init_restores:
  fixes next_func :: "(('r, 'd) world, 'm, 'a) receive_func"
  assumes "saved (pid_String (cv_pid c)) r (w_disk w)" "cv_message c = Initialized"
  shows "WithPersistence storer (Some persister) next_func c w = next_func c (w\<lparr>w_receiver := r\<rparr>)"
  using assms by (auto simp: WithPersistence_def saved_def)

end

subsection \<open>The interpretation on players and files\<close>

definition file_of :: "file_store \<Rightarrow> string \<Rightarrow> string" where
  "file_of r key = path_Join (fs_path r) (safeFileName key)"

definition writable :: "string \<Rightarrow> disk \<Rightarrow> bool" where
  "writable p d \<longleftrightarrow> \<not> d_openErr d p \<and> d_writeErr d p = None"

interpretation files: durable_store "file_storer r" "file_of r" writable for r
  by unfold_locales (auto simp: file_storer_def fs_Store_def fs_Load_def file_of_def writable_def os_WriteFile_def os_ReadFile_def Let_def)

definition storable :: "player \<Rightarrow> bool" where
  "storable p \<longleftrightarrow> \<bar>sint (Health p)\<bar> < 2 ^ 53 \<and> ascii (Username p)"

lemma player_state_law:
  assumes "storable p"
  shows "\<exists>b data. ps_State player_persister p = Some b \<and> json_Unmarshal b = Some data \<and> (\<forall>r. ps_LoadState player_persister data r = (p, Inr True))"
proof -
  have a: "ascii ''health''" "ascii ''username''" "ascii (Username p)" using assms by (auto simp: ascii_def storable_def)
  have "f64_of_int (sint (Health p)) = sint (Health p)" using assms f64_of_int_small by (simp add: storable_def)
  moreover have "int_of_f64 (sint (Health p)) = sint (Health p)" using assms by (auto simp: storable_def int_of_f64_def abs_less_iff)
  ultimately show ?thesis using Unmarshal_two [OF a, of "sint (Health p)"]
    by (simp add: player_persister_def player_State_def player_LoadState_def Let_def)
qed

interpretation players: durable_receiver player_persister storable
  by unfold_locales (rule player_state_law)

interpretation saved_players: persistent_actor "file_storer r" "file_of r" writable player_persister storable for r
  by unfold_locales

subsection \<open>Through stops and restarts\<close>

text \<open>A process that was spawned with the middleware, with the arguments of its producer.\<close>

definition persistent_process :: "file_store \<Rightarrow> 64 word \<Rightarrow> string \<Rightarrow> ((player, disk) world, player_msg, 'a) process \<Rightarrow> bool" where
  "persistent_process r health username p \<longleftrightarrow> Producer (p_opts p) = newPlayerState health username \<and>
     Receive (p_opts p) = player_Receive \<and> Middleware (p_opts p) = [WithPersistence (file_storer r) (Some player_persister)]"

abbreviation persistent_receive :: "file_store \<Rightarrow> ((player, disk) world, player_msg, 'a) receive_func" where
  "persistent_receive r \<equiv> WithPersistence (file_storer r) (Some player_persister) player_Receive"

text \<open>The receiver is running: what \<open>Start\<close> has installed.\<close>

definition running_player :: "file_store \<Rightarrow> ((player, disk) world, player_msg, 'a) process \<Rightarrow> bool" where
  "running_player r p \<longleftrightarrow> p_receive p = persistent_receive r"

abbreviation player_of :: "((player, disk) world, player_msg, 'a) process \<Rightarrow> player" where
  "player_of p \<equiv> w_receiver (p_user p)"

abbreviation own_file :: "file_store \<Rightarrow> ((player, disk) world, player_msg, 'a) process \<Rightarrow> string" where
  "own_file r p \<equiv> file_of r (pid_String (p_pid p))"

lemma player_idle:
  "cv_message c = Stopped \<or> cv_message c = Initialized \<or> cv_message c = Started \<Longrightarrow> player_Receive c w = (w, [], None)"
  by (auto simp: player_Receive_def)

lemma Started_passes: "cv_message c = Started \<Longrightarrow> persistent_receive r c w = (w, [], None)"
  by (simp add: WithPersistence_def player_idle)

lemma Stopped_call:
  fixes p :: "((player, disk) world, player_msg, 'a) process"
  assumes "running_player r p" "storable (player_of p)" "writable (own_file r p) (w_disk (p_user p))" "p_message p = Stopped"
  shows "\<exists>d'. call_receive ELifecycle p = (Ret, emit [ELifecycle Stopped (p_sender p)] (p\<lparr>p_user := (p_user p)\<lparr>w_disk := d'\<rparr>\<rparr>))
    \<and> (\<forall>k. file_of r k = own_file r p \<longrightarrow> saved_players.saved r k (player_of p) d')
    \<and> (\<forall>k. file_of r k \<noteq> own_file r p \<longrightarrow> fs_Load r k d' = fs_Load r k (w_disk (p_user p)))"
proof -
  let ?c = "\<lparr>cv_pid = p_pid p, cv_message = Stopped, cv_sender = p_sender p\<rparr> :: player_msg ctx_view"
  obtain d' where "WithPersistence (file_storer r) (Some player_persister) player_Receive ?c (p_user p)
      = (player_Receive ?c ((p_user p)\<lparr>w_disk := d'\<rparr>) :: _ \<times> 'a action list \<times> _)"
    "\<forall>k. file_of r k = own_file r p \<longrightarrow> saved_players.saved r k (player_of p) d'"
    "\<forall>k. file_of r k \<noteq> own_file r p \<longrightarrow> st_Load (file_storer r) k d' = st_Load (file_storer r) k (w_disk (p_user p))"
    using saved_players.stop_saves [of "p_user p" r ?c player_Receive] assms(2,3) by auto
  then show ?thesis using assms(1,4)
    by (intro exI [of _ d']) (simp add: call_receive_def running_player_def player_idle file_storer_def)
qed

lemma Start_restores:
  fixes q :: "((player, disk) world, player_msg, 'a) process"
  assumes "persistent_process r health username q" "saved_players.saved r (pid_String (p_pid q)) x (w_disk (p_user q))" "p_mbuffer q = []"
  shows "\<exists>q'. proc_Start \<epsilon> (Suc f) q = (Ret, q') \<and> player_of q' = x \<and> running_player r q'
    \<and> w_disk (p_user q') = w_disk (p_user q) \<and> w_exited (p_user q') = w_exited (p_user q)"
proof -
  let ?w = "fst (newPlayerState health username (p_user q))"
  let ?q = "q\<lparr>p_user := ?w, p_receive := persistent_receive r\<rparr>"
  let ?c = "\<lparr>cv_pid = p_pid q, cv_message = Initialized, cv_sender = p_sender q\<rparr> :: player_msg ctx_view"
  have "persistent_receive r ?c ?w = (?w\<lparr>w_receiver := x\<rparr>, [] :: 'a action list, None)"
    using saved_players.init_restores [of r ?c x ?w player_Receive] assms(2) by (simp add: newPlayerState_def player_idle)
  then have "\<exists>q'. start_hooks ?q = (Ret, q') \<and> player_of q' = x \<and> running_player r q' \<and> p_mbuffer q' = []
      \<and> w_disk (p_user q') = w_disk (p_user q) \<and> w_exited (p_user q') = w_exited (p_user q)"
    using assms(3)
    by (simp add: start_hooks_def call_receive_def Started_passes emit_def broadcast_now_def running_player_def newPlayerState_def)
  then show ?thesis
    using assms(1) by (auto simp: persistent_process_def newPlayerState_def applyMiddleware_foldr inbox_start_def emit_def running_player_def)
qed

text \<open>
  The state survives a stop. When a player is stopped, its health (below \<open>2 ^ 53\<close> in size, the
  integers a JSON number keeps) and name are written; whatever player is started next on the
  same disk under a PID with the same file name, its producer's values are replaced by the
  stored ones. Players whose file names differ load what they would have loaded before.
\<close>

theorem state_survives_stop:
  assumes "running_player r p" "storable (player_of p)" "writable (own_file r p) (w_disk (p_user p))"
    "cleanup \<epsilon> cancel p = (out, p')"
    "persistent_process r health username q" "w_disk (p_user q) = w_disk (p_user p')" "p_mbuffer q = []"
  shows "out = Ret \<and> w_exited (p_user p') = w_exited (p_user p)
    \<and> (safeFileName (pid_String (p_pid q)) = safeFileName (pid_String (p_pid p)) \<longrightarrow>
        (\<exists>q'. proc_Start \<epsilon>' (Suc f) q = (Ret, q') \<and> player_of q' = player_of p \<and> w_exited (p_user q') = w_exited (p_user q)))
    \<and> (\<forall>k. file_of r k \<noteq> own_file r p \<longrightarrow> fs_Load r k (w_disk (p_user p')) = fs_Load r k (w_disk (p_user p)))"
proof -
  define p3 where "p3 = (let p1 = (case p_parent p of None \<Rightarrow> p | Some _ \<Rightarrow> emit [EParentDelete (ID (p_pid p))] p);
          awaited = sm_Values (children_order \<epsilon> (sm_data (p_children p1))) (p_children p1);
          p2 = (if sm_Len (p_children p1) > 0
                then emit (map EPoisonWait awaited) (p1\<lparr>p_children := detach \<epsilon> awaited (p_children p1)\<rparr>)
                else p1)
     in (emit [EInboxStop, ERegRemove (p_pid p2)] (p2\<lparr>p_inbox := IStopped\<rparr>))\<lparr>p_message := Stopped\<rparr>)"
  have s: "p_receive p3 = p_receive p" "p_user p3 = p_user p" "p_pid p3 = p_pid p" "p_message p3 = Stopped"
    by (auto simp: p3_def Let_def emit_def split: option.split)
  then obtain d' where d: "call_receive ELifecycle p3 = (Ret, emit [ELifecycle Stopped (p_sender p3)] (p3\<lparr>p_user := (p_user p)\<lparr>w_disk := d'\<rparr>\<rparr>))"
    "\<forall>k. file_of r k = own_file r p \<longrightarrow> saved_players.saved r k (player_of p) d'"
    "\<forall>k. file_of r k \<noteq> own_file r p \<longrightarrow> fs_Load r k d' = fs_Load r k (w_disk (p_user p))"
    using Stopped_call [of r p3] assms(1-3) by (auto simp: running_player_def)
  have c: "cleanup \<epsilon> cancel p = (let (x, p4) = call_receive ELifecycle p3;
      p5 = (if x = Ret then broadcast_now ActorStoppedEvent p4 else p4) in (x, emit (cancel_effect cancel) p5))"
    by (simp add: cleanup_def p3_def Let_def)
  have o: "out = Ret" "w_disk (p_user p') = d'" "w_exited (p_user p') = w_exited (p_user p)"
    using assms(4) unfolding c d(1) by (auto simp: Let_def emit_def broadcast_now_def)
  have "\<exists>q'. proc_Start \<epsilon>' (Suc f) q = (Ret, q') \<and> player_of q' = player_of p \<and> w_exited (p_user q') = w_exited (p_user q)"
    if "safeFileName (pid_String (p_pid q)) = safeFileName (pid_String (p_pid p))"
  proof -
    have "file_of r (pid_String (p_pid q)) = own_file r p" using that by (simp add: file_of_def)
    then have "saved_players.saved r (pid_String (p_pid q)) (player_of p) (w_disk (p_user q))" using d(2) assms(6) o(2) by simp
    from Start_restores [OF assms(5) this assms(7)] show ?thesis by blast
  qed
  then show ?thesis using o d(3) by simp
qed

text \<open>
  C29. The state survives a crash. When the player's process recovers from a panic other than an
  \<open>InternalError\<close> within the restart budget, with no messages buffered, it stops the receiver before
  it starts a new one, so that the new receiver has the health and the name the old one had, not
  those of the producer, and the program goes on. The file of the player must be writable, its
  health below \<open>2 ^ 53\<close> in size, which is what a JSON number keeps, and its name in ASCII.
\<close>

theorem state_survives_restart:
  assumes "persistent_process r health username p" "running_player r p" "storable (player_of p)" "writable (own_file r p) (w_disk (p_user p))"
    "p_mbuffer p = []" "\<forall>from err. v \<noteq> InternalError from err" "clean_trace \<epsilon> (p_clock p) = Inr stack" "p_restarts p \<noteq> MaxRestarts (p_opts p)"
  shows "\<exists>p'. proc_tryRestart \<epsilon> (Suc (Suc f)) v p = (Ret, p') \<and> player_of p' = player_of p \<and> running_player r p'
    \<and> w_exited (p_user p') = w_exited (p_user p)"
proof -
  obtain d' where d: "call_receive ELifecycle (p\<lparr>p_message := Stopped\<rparr>)
      = (Ret, emit [ELifecycle Stopped (p_sender p)] (p\<lparr>p_message := Stopped, p_user := (p_user p)\<lparr>w_disk := d'\<rparr>\<rparr>))"
    "\<forall>k. file_of r k = own_file r p \<longrightarrow> saved_players.saved r k (player_of p) d'"
    using Stopped_call [of r "p\<lparr>p_message := Stopped\<rparr>"] assms(2-4) by (auto simp: running_player_def)
  define p2 where "p2 = count_restart stack v (emit [ELifecycle Stopped (p_sender p)] (p\<lparr>p_message := Stopped, p_user := (p_user p)\<lparr>w_disk := d'\<rparr>\<rparr>))"
  have p2: "p_opts p2 = p_opts p" "p_pid p2 = p_pid p" "w_disk (p_user p2) = d'" "p_mbuffer p2 = []" "w_exited (p_user p2) = w_exited (p_user p)"
    using assms(5) by (simp_all add: p2_def count_restart_def emit_def broadcast_now_def Let_def)
  have "proc_tryRestart \<epsilon> (Suc (Suc f)) v p = proc_Start \<epsilon> (Suc f) p2"
    using assms(6-8) d(1) by (cases v) (simp_all add: p2_def)
  then show ?thesis
    using Start_restores [of r health username p2 "player_of p" \<epsilon> f] assms(1) d(2) p2 by (auto simp: persistent_process_def)
qed

text \<open>
  Two different PIDs can have the same file: every code point that is not a letter or a digit
  becomes an underscore. And a health beyond \<open>2 ^ 53\<close> does not survive: a JSON number is read as a
  \<open>float64\<close>.
\<close>

lemma file_names_collide:
  "NewPID ''local'' ''a/b_c'' \<noteq> NewPID ''local'' ''a/b/c''
   \<and> safeFileName (pid_String (NewPID ''local'' ''a/b_c'')) = safeFileName (pid_String (NewPID ''local'' ''a/b/c''))"
  by (simp add: rune_width_def in_range_def pid_String_def pidSeparator_def alnum_def)

lemma large_health_rounded:
  "\<exists>b data. player_State \<lparr>Health = word_of_int (2 ^ 53 + 1), Username = ''j''\<rparr> = Some b \<and> json_Unmarshal b = Some data
     \<and> player_LoadState data x = (\<lparr>Health = word_of_int (2 ^ 53), Username = ''j''\<rparr>, Inr True)"
proof -
  have a: "ascii ''health''" "ascii ''username''" "ascii ''j''" by (auto simp: ascii_def)
  have "sint (word_of_int (2 ^ 53 + 1) :: 64 word) = 2 ^ 53 + 1" by (simp add: sint_sbintrunc' signed_take_bit_int_eq_self)
  then show ?thesis
    using Unmarshal_two [OF a, of "2 ^ 53 + 1"] f64_of_int_loses
    by (simp add: player_State_def player_LoadState_def int_of_f64_def Let_def)
qed

subsection \<open>Witnesses\<close>

definition example_store :: file_store where
  "example_store = \<lparr>fs_path = ''/tmp/persistenceexample''\<rparr>"

definition example_world :: "64 word \<Rightarrow> (player, disk) world" where
  "example_world n = \<lparr>w_receiver = \<lparr>Health = n, Username = ''James''\<rparr>,
     w_disk = \<lparr>d_files = Map.empty, d_openErr = (\<lambda>_. False), d_writeErr = (\<lambda>_. None)\<rparr>, w_exited = False\<rparr>"

definition example_opts :: "((player, disk) world, player_msg, unit) opts" where
  "example_opts = (WithID ''james'' (WithMiddleware [WithPersistence (file_storer example_store) (Some player_persister)]
     (DefaultOpts (newPlayerState 100 ''James'') player_Receive)))\<lparr>Kind := ''playerState''\<rparr>"

definition example_process :: "((player, disk) world, player_msg, unit) process" where
  "example_process = (newProcess ''local'' (example_world 91) example_opts)\<lparr>p_receive := persistent_receive example_store\<rparr>"

definition example_env :: env where
  "example_env = \<lparr>children_order = (\<lambda>_. []), child_detaches = (\<lambda>_. True), debug_Stack = (\<lambda>_. []), stack_Parse = (\<lambda>_. None)\<rparr>"

lemma example_process_facts:
  "persistent_process example_store 100 ''James'' example_process" "running_player example_store example_process"
  "storable (player_of example_process)" "writable (own_file example_store example_process) (w_disk (p_user example_process))"
  "p_mbuffer example_process = []" "player_of example_process = \<lparr>Health = 91, Username = ''James''\<rparr>"
  by (simp_all add: example_process_def newProcess_def example_opts_def persistent_process_def running_player_def DefaultOpts_def
      WithID_def WithMiddleware_def example_world_def storable_def ascii_def writable_def)

theorem state_survives_stop_witness:
  "\<exists>out p' q'. cleanup example_env None example_process = (out, p')
     \<and> proc_Start example_env 1 (example_process\<lparr>p_user := (example_world 100)\<lparr>w_disk := w_disk (p_user p')\<rparr>\<rparr>) = (Ret, q')
     \<and> player_of q' = \<lparr>Health = 91, Username = ''James''\<rparr>"
proof -
  obtain out p' where c: "cleanup example_env None example_process = (out, p')" by fastforce
  let ?q = "example_process\<lparr>p_user := (example_world 100)\<lparr>w_disk := w_disk (p_user p')\<rparr>\<rparr>"
  have q: "persistent_process example_store 100 ''James'' ?q" "w_disk (p_user ?q) = w_disk (p_user p')" "p_mbuffer ?q = []" "p_pid ?q = p_pid example_process"
    using example_process_facts(1,5) by (simp_all add: persistent_process_def)
  from state_survives_stop [OF example_process_facts(2-4) c q(1-3), of example_env 0] obtain q'
    where "proc_Start example_env (Suc 0) ?q = (Ret, q')" "player_of q' = player_of example_process" using q(4) by auto
  then show ?thesis using c example_process_facts(6) by auto
qed

theorem state_survives_restart_witness:
  "\<exists>p'. proc_tryRestart example_env 2 (RuntimePanic NilDeref) example_process = (Ret, p') \<and> player_of p' = \<lparr>Health = 91, Username = ''James''\<rparr>"
proof -
  have v: "\<forall>from err. (RuntimePanic NilDeref :: player_msg panic_val) \<noteq> InternalError from err" by simp
  have t: "clean_trace example_env (p_clock example_process) = Inr []" by (simp add: cleanTrace_def example_env_def)
  have m: "p_restarts example_process \<noteq> MaxRestarts (p_opts example_process)"
    by (simp add: example_process_def newProcess_def example_opts_def DefaultOpts_def WithID_def WithMiddleware_def defaultMaxRestarts_def)
  from state_survives_restart [OF example_process_facts(1-5) v t m, of 0] show ?thesis
    using example_process_facts(6) by (auto simp: eval_nat_numeral)
qed

end
