(* ===== verification/ChatServer.thy ===== *)
theory ChatServer
  imports AppActor
begin

section \<open>The chat server and its clients (examples/chat)\<close>

text \<open>
  The server keeps, by address, the PID and the user name of every client and forwards a message
  to all clients but its sender. \<open>GetAddress\<close> and \<open>GetID\<close> of a nil PID are empty strings, so that a
  connection without a sender is stored too. Every handler that ranges over the clients takes
  the order.
\<close>

datatype chat_msg =
    ChatMessage (cm_Msg: string) (cm_Username: string)
  | Connect (con_Username: string)
  | Disconnect

type_synonym 'a chat_act = "(chat_msg, 'a) act"

record chat_server =
  clients :: "string \<rightharpoonup> pid option"
  users :: "string \<rightharpoonup> string"

definition newServer :: chat_server where
  "newServer = \<lparr>clients = Map.empty, users = Map.empty\<rparr>"

definition GetAddress :: "pid option \<Rightarrow> string" where
  "GetAddress q = (case q of None \<Rightarrow> [] | Some p \<Rightarrow> Address p)"

text \<open>\<open>pid.Equals(sender)\<close> reads both; a nil on either side panics.\<close>

definition handleMessage_one :: "pid option \<Rightarrow> chat_msg actor_context \<Rightarrow> unit chat_act" where
  "handleMessage_one q c =
     (case (q, c_sender c) of
        (Some p, Some src) \<Rightarrow> if pid_Equals p src then ret () else (\<lambda>e. of_send (ctx_Forward (Some p) c e))
      | _ \<Rightarrow> of_res (Inl NilDeref))"

definition handleMessage :: "string list \<Rightarrow> chat_msg actor_context \<Rightarrow> chat_server \<Rightarrow> unit chat_act" where
  "handleMessage ks c s = a_each (\<lambda>q. handleMessage_one q c) (range_values (clients s) ks)"

definition server_Receive :: "string list \<Rightarrow> chat_msg actor_context \<Rightarrow> chat_server \<Rightarrow> chat_server chat_act" where
  "server_Receive ks c s =
     (case c_message c of
        User (ChatMessage _ _) \<Rightarrow> bindA (handleMessage ks c s) (\<lambda>_. ret s)
      | User Disconnect \<Rightarrow>
          (let cAddr = GetAddress (c_sender c) in
           case clients s cAddr of
             None \<Rightarrow> of_res (Inl NilDeref)
           | Some q \<Rightarrow>
               (case users s cAddr of
                  None \<Rightarrow> (case q of None \<Rightarrow> of_res (Inl NilDeref) | Some _ \<Rightarrow> ret s)
                | Some username \<Rightarrow> ret (s\<lparr>clients := (clients s)(cAddr := None), users := (users s)(username := None)\<rparr>)))
      | User (Connect name) \<Rightarrow>
          (let cAddr = GetAddress (c_sender c) in
           if clients s cAddr \<noteq> None then ret s
           else if users s cAddr \<noteq> None then ret s
           else ret (s\<lparr>clients := (clients s)(cAddr \<mapsto> c_sender c), users := (users s)(cAddr \<mapsto> name)\<rparr>))
      | _ \<Rightarrow> ret s)"

subsection \<open>The client\<close>

record chat_client =
  cl_username :: string
  cl_serverPID :: pid

definition newClient :: "string \<Rightarrow> pid \<Rightarrow> chat_client" where
  "newClient username serverPID = \<lparr>cl_username = username, cl_serverPID = serverPID\<rparr>"

text \<open>The result also says what is printed.\<close>

definition client_Receive :: "chat_msg actor_context \<Rightarrow> chat_client \<Rightarrow> string list chat_act" where
  "client_Receive c cl =
     (case c_message c of
        User (ChatMessage m name) \<Rightarrow> ret [name @ '': '' @ m]
      | Started \<Rightarrow> bindA (\<lambda>e. of_send (ctx_Send (Some (cl_serverPID cl)) (User (Connect (cl_username cl))) c e)) (\<lambda>_. ret [])
      | _ \<Rightarrow> ret [])"

text \<open>The loop of \<open>main\<close> over the lines of the standard input, and what follows it.\<close>

fun client_loop :: "string list \<Rightarrow> pid \<Rightarrow> pid \<Rightarrow> string \<Rightarrow> unit chat_act" where
  "client_loop [] serverPID clientPID username = ret ()"
| "client_loop (line # lines) serverPID clientPID username =
     (if line = ''quit'' then ret ()
      else bindA (a_Send (Some serverPID) (User (ChatMessage line username)) (Some clientPID))
             (\<lambda>_. client_loop lines serverPID clientPID username))"

definition client_main :: "string list \<Rightarrow> pid \<Rightarrow> pid \<Rightarrow> string \<Rightarrow> unit chat_act" where
  "client_main lines serverPID clientPID username =
     bindA (client_loop lines serverPID clientPID username)
       (\<lambda>_. bindA (a_Send (Some serverPID) (User Disconnect) (Some clientPID))
          (\<lambda>_. bindA (a_Poison (Some clientPID)) (\<lambda>_. ret ())))"

subsection \<open>Broadcast\<close>

lemma handleMessage_one_sent:
  "c_sender c = Some src \<Longrightarrow> handleMessage_one (Some p) c = (if p = src then ret () else a_Send (Some p) (c_message c) (Some (c_pid c)))"
  by (simp add: handleMessage_one_def a_Send_def ctx_Forward_def fun_eq_iff)

lemma handleMessage_posts:
  assumes "c_sender c = Some src" "\<forall>q \<in> set qs. q \<noteq> None"
  shows "a_each (\<lambda>q. handleMessage_one q c) qs = post_all (map (\<lambda>q. (q, c_message c, Some (c_pid c))) (filter (\<lambda>q. q \<noteq> Some src) qs))"
  using assms(2)
proof (induction qs)
  case (Cons q qs)
  then obtain p where "q = Some p" by auto
  then show ?case using Cons by (simp add: handleMessage_one_sent [OF assms(1)] post_all_def)
qed (simp add: post_all_def)

text \<open>
  C30. A chat message is forwarded, with the server as its sender, once to every connected client
  except the one it came from: into its inbox, or over the network if it lives elsewhere. The
  order is that of the range; the server's state does not change.
\<close>

theorem chat_broadcast:
  assumes "stream_ok es h e" "range_order (clients s) ks" "\<forall>q \<in> ran (clients s). q \<noteq> None"
    "c_message c = User (ChatMessage m name)" "c_sender c = Some src"
    "letters = map (\<lambda>q. (q, c_message c, Some (c_pid c))) (filter (\<lambda>q. q \<noteq> Some src) (range_values (clients s) ks))"
    "\<forall>l \<in> set letters. good_letter es h e l"
  shows "fst ` set letters = ran (clients s) - {Some src}
    \<and> (\<exists>e'. server_Receive ks c s e = (Inr s, e') \<and> wired (concat (map (wire_for es h e) letters)) e e' \<and>
       (\<forall>g p mb. e_heap e g = ProcObj p mb \<longrightarrow> e_heap e' g = ProcObj p (mb @ concat (map (mail_for es h e g) letters))))"
proof -
  have v: "set (range_values (clients s) ks) = ran (clients s)" by (rule set_range_values [OF assms(2)])
  have f: "fst ` set letters = ran (clients s) - {Some src}" by (auto simp: assms(6) v image_iff)
  obtain e' where e': "post_all letters e = (Inr (), e')" "wired (concat (map (wire_for es h e) letters)) e e'"
    "\<forall>g p mb. e_heap e g = ProcObj p mb \<longrightarrow> e_heap e' g = ProcObj p (mb @ concat (map (mail_for es h e g) letters))"
    using post_all_delivers [OF assms(1,7)] by blast
  have "handleMessage ks c s = post_all letters"
    unfolding handleMessage_def assms(6) by (rule handleMessage_posts [OF assms(5)]) (use assms(3) v in simp)
  then have "server_Receive ks c s e = (Inr s, e')" using assms(4) e'(1) by (simp add: server_Receive_def bindA_def ret_def)
  then show ?thesis using f e' by blast
qed

subsection \<open>Leaving and coming back\<close>

text \<open>The messages the server has handled, each with its sender.\<close>

inductive chat_step :: "chat_server \<Rightarrow> pid option \<times> chat_msg \<Rightarrow> chat_server \<Rightarrow> bool" where
  "c_sender c = src \<Longrightarrow> c_message c = User m \<Longrightarrow> server_Receive ks c s e = (Inr s', e') \<Longrightarrow> chat_step s (src, m) s'"

text \<open>Someone left from address \<open>a\<close> but is still listed as a user, and nobody's name is \<open>a\<close>.\<close>

definition locked_out :: "string \<Rightarrow> chat_server \<Rightarrow> bool" where
  "locked_out a s \<longleftrightarrow> clients s a = None \<and> users s a \<noteq> None \<and> a \<notin> ran (users s)"

lemma server_cases:
  assumes "server_Receive ks c s e = (Inr s', e')" "c_message c = User m" "a = GetAddress (c_sender c)"
  shows "s' = s
    \<or> (\<exists>q u. m = Disconnect \<and> clients s a = Some q \<and> users s a = Some u \<and> s' = s\<lparr>clients := (clients s)(a := None), users := (users s)(u := None)\<rparr>)
    \<or> (\<exists>u. m = Connect u \<and> clients s a = None \<and> users s a = None \<and> s' = s\<lparr>clients := (clients s)(a \<mapsto> c_sender c), users := (users s)(a \<mapsto> u)\<rparr>)"
  using assms by (auto simp: server_Receive_def bindA_Inr ret_def of_res_def Let_def split: chat_msg.splits option.splits if_splits)

lemma locked_out_step:
  assumes "chat_step s (src, m) s'" "locked_out a s" "m \<noteq> Connect a"
  shows "locked_out a s'"
proof -
  obtain c ks e e' where c: "c_sender c = src" "c_message c = User m" "server_Receive ks c s e = (Inr s', e')"
    using assms(1) by cases blast
  have r: "ran ((users s)(u := None)) \<subseteq> ran (users s)" for u by (auto simp: ran_def)
  from server_cases [OF c(3,2) refl] show ?thesis
    using assms(2,3) r by (auto simp: locked_out_def ran_def split: if_splits)
qed

text \<open>
  Nobody comes back. \<open>Disconnect\<close> deletes the user under its name instead of its address, so
  a client that connects and disconnects stays listed as a user; from then on, whatever the
  server handles, a connection from that address is ignored and no message is forwarded there,
  unless some user takes the address as its name.
\<close>

theorem chat_no_return:
  assumes "chat_step s (Some q, Connect u) s1" "chat_step s1 (Some q, Disconnect) s2" "a = Address q"
    "clients s a = None" "users s a = None" "a \<notin> ran (users s)" "u \<noteq> a"
    "run chat_step s2 ms s'" "\<forall>(src, m) \<in> set ms. m \<noteq> Connect a"
  shows "clients s' a = None \<and> users s' a \<noteq> None"
proof -
  have "s1 = s\<lparr>clients := (clients s)(a \<mapsto> Some q), users := (users s)(a \<mapsto> u)\<rparr>"
    using assms(1) by cases (use assms(3-5) in \<open>simp add: server_Receive_def ret_def GetAddress_def Let_def\<close>)
  moreover have "s2 = s1\<lparr>clients := (clients s1)(a := None), users := (users s1)(u := None)\<rparr>" if "clients s1 a = Some q1" "users s1 a = Some u" for q1
    using assms(2) by cases (use assms(3) that in \<open>simp add: server_Receive_def ret_def GetAddress_def Let_def\<close>)
  ultimately have "locked_out a s2" using assms(4-7) by (auto simp: locked_out_def ran_def split: if_splits)
  with assms(8,9) have "locked_out a s'"
  proof (induction rule: run.induct)
    case (run_snoc s ms t l v)
    obtain src m where l: "l = (src, m)" by fastforce
    have "locked_out a t" using run_snoc.IH run_snoc.prems by simp
    then show ?case using locked_out_step [of t src m v a] run_snoc.hyps(2) run_snoc.prems(1) l by simp
  qed simp
  then show ?thesis by (simp add: locked_out_def)
qed

text \<open>
  What brings the server down: a \<open>Disconnect\<close> from an address it does not know dereferences a
  nil PID in the log call, and so does every message once a client has connected without a
  sender, or a message without a sender while there is a client.
\<close>

theorem chat_panics:
  assumes "range_order (clients s) ks"
  shows "(c_message c = User Disconnect \<and> clients s (GetAddress (c_sender c)) = None \<longrightarrow>
        server_Receive ks c s e = (Inl (HPanic NilDeref), e))
    \<and> (c_message c = User (ChatMessage m name) \<and> c_sender c = None \<and> clients s \<noteq> Map.empty \<longrightarrow>
        server_Receive ks c s e = (Inl (HPanic NilDeref), e))"
proof -
  have "\<exists>q qs. range_values (clients s) ks = q # qs" if "clients s \<noteq> Map.empty"
    using range_values_empty [OF assms] that by (cases "range_values (clients s) ks") auto
  then have "handleMessage ks c s e = (Inl (HPanic NilDeref), e)" if "c_sender c = None" "clients s \<noteq> Map.empty"
    using that by (fastforce simp: handleMessage_def handleMessage_one_def bindA_def of_res_def split: option.split)
  then show ?thesis by (auto simp: server_Receive_def of_res_def Let_def bindA_def)
qed

subsection \<open>What a client sends\<close>

lemma post_all_append: "post_all (ls @ ms) = bindA (post_all ls) (\<lambda>_. post_all ms)"
  by (induction ls) (simp_all add: post_all_def bindA_assoc)

lemma client_loop_posts:
  "client_loop lines serverPID clientPID username =
     post_all (map (\<lambda>l. (Some serverPID, User (ChatMessage l username), Some clientPID)) (takeWhile (\<lambda>l. l \<noteq> ''quit'') lines))"
  by (induction lines) (simp_all add: post_all_def)

text \<open>
  A client of a server on another node hands the remote its lines up to the first \<open>quit\<close>, with
  itself as the sender, then the \<open>Disconnect\<close>, and poisons itself last.
\<close>

theorem chat_client_session:
  assumes "stream_ok es h e" "e_remote e = Some rm" "Address server \<noteq> e_address e" "local_actor client g e" "e_heap e g = ProcObj client mb"
  shows "\<exists>e'. client_main lines server client username e = (Inr (), e')
    \<and> e_remote e' = Some (rm\<lparr>rem_sent := rem_sent rm @
        map (\<lambda>l. (server, User (ChatMessage l username), Some client)) (takeWhile (\<lambda>l. l \<noteq> ''quit'') lines) @ [(server, User Disconnect, Some client)]\<rparr>)
    \<and> (\<exists>ctx. e_heap e' g = ProcObj client (mb @ [\<lparr>Msg = PoisonPill (Some ctx) True, Sender = None\<rparr>]))"
proof -
  let ?ls = "map (\<lambda>l. (Some server, User (ChatMessage l username), Some client)) (takeWhile (\<lambda>l. l \<noteq> ''quit'') lines) @ [(Some server, User Disconnect, Some client)]"
  have r: "route es h (Some server) m src e = OverNetwork server m src" for m src using assms(2,3) by (simp add: route_def)
  have "\<forall>l \<in> set ?ls. good_letter es h e l" by (auto simp: good_letter_def r)
  from post_all_delivers [OF assms(1) this] obtain e1 where e1: "post_all ?ls e = (Inr (), e1)" "same_routes e e1"
    "wired (concat (map (wire_for es h e) ?ls)) e e1"
    "\<forall>g p mb. e_heap e g = ProcObj p mb \<longrightarrow> e_heap e1 g = ProcObj p (mb @ concat (map (mail_for es h e g) ?ls))" by blast
  have w: "concat (map (wire_for es h e) ?ls) = map (\<lambda>l. (server, User (ChatMessage l username), Some client)) (takeWhile (\<lambda>l. l \<noteq> ''quit'') lines)
      @ [(server, User Disconnect, Some client)]"
    by (simp add: wire_for_def r comp_def concat_map_singleton)
  have m: "concat (map (mail_for es h e g) ?ls) = []" by (simp add: mail_for_def r)
  have heap: "e_heap e1 g = ProcObj client mb" using e1(4) assms(5) m by auto
  have p: "client_main lines server client username = bindA (post_all ?ls) (\<lambda>_. bindA (a_Poison (Some client)) (\<lambda>_. ret ()))"
    by (simp only: client_main_def client_loop_posts post_all_append bindA_assoc) (simp add: post_all_def)
  note pill = a_Poison_local [OF same_routes_actor [OF e1(2) assms(4)] heap]
  show ?thesis unfolding p using e1(1,3) pill assms(2) w by (simp add: bindA_run ret_def wired_def bindA_def)
qed

subsection \<open>Witnesses\<close>

definition chat_context :: "pid option \<Rightarrow> chat_msg \<Rightarrow> chat_msg actor_context" where
  "chat_context src m = (newContext 0 (NewPID ''s:1'' ''server/primary'') (User m))\<lparr>c_sender := src\<rparr>"

lemma chat_context_simps [simp]: "c_message (chat_context src m) = User m" "c_sender (chat_context src m) = src"
  "c_pid (chat_context src m) = NewPID ''s:1'' ''server/primary''"
  by (simp_all add: chat_context_def newContext_def)

lemma chat_step_exec:
  "(\<And>e. \<exists>e'. server_Receive [] (chat_context src m) s e = (Inr s', e')) \<Longrightarrow> chat_step s (src, m) s'"
  using chat_step.intros [of "chat_context src m" src m] by fastforce

theorem chat_no_return_witness:
  "\<exists>s1 s2 s3. chat_step newServer (Some (NewPID ''c:1'' ''client/bob''), Connect ''bob'') s1
     \<and> chat_step s1 (Some (NewPID ''c:1'' ''client/bob''), Disconnect) s2
     \<and> chat_step s2 (Some (NewPID ''c:1'' ''client/bob''), Connect ''bob'') s3 \<and> clients s3 ''c:1'' = None"
proof -
  let ?q = "NewPID ''c:1'' ''client/bob''"
  let ?s1 = "\<lparr>clients = [''c:1'' \<mapsto> Some ?q], users = [''c:1'' \<mapsto> ''bob'']\<rparr>" and ?s2 = "\<lparr>clients = Map.empty, users = [''c:1'' \<mapsto> ''bob'']\<rparr>"
  have 1: "chat_step newServer (Some ?q, Connect ''bob'') ?s1" and 2: "chat_step ?s1 (Some ?q, Disconnect) ?s2" and 3: "chat_step ?s2 (Some ?q, Connect ''bob'') ?s2"
    by (rule chat_step_exec, simp add: server_Receive_def newServer_def GetAddress_def ret_def Let_def)+
  from chat_no_return [OF 1 2 _ _ _ _ _ run_single [of chat_step, OF 3], of "''c:1''"] have "clients ?s2 ''c:1'' = None" by (simp add: newServer_def)
  with 1 2 3 show ?thesis by blast
qed

theorem chat_panics_witness:
  "\<exists>e :: chat_msg engine. server_Receive [] (chat_context (Some (NewPID ''c:1'' ''client/bob'')) Disconnect) newServer e = (Inl (HPanic NilDeref), e)"
proof -
  have "range_order (clients newServer) []" by (simp add: newServer_def range_order_def)
  from chat_panics [OF this, of "chat_context (Some (NewPID ''c:1'' ''client/bob'')) Disconnect"] show ?thesis by (simp add: newServer_def)
qed

theorem chat_broadcast_witness:
  "\<exists>(e :: chat_msg engine) e' rm. e_remote e = Some rm \<and>
     server_Receive [''c:1'', ''c:2''] (chat_context (Some (NewPID ''c:1'' ''client/bob'')) (ChatMessage ''hi'' ''bob''))
       \<lparr>clients = [''c:1'' \<mapsto> Some (NewPID ''c:1'' ''client/bob''), ''c:2'' \<mapsto> Some (NewPID ''c:2'' ''client/eve'')], users = Map.empty\<rparr> e
     = (Inr \<lparr>clients = [''c:1'' \<mapsto> Some (NewPID ''c:1'' ''client/bob''), ''c:2'' \<mapsto> Some (NewPID ''c:2'' ''client/eve'')], users = Map.empty\<rparr>, e')
     \<and> e_remote e' = Some (rm\<lparr>rem_sent := rem_sent rm @ [(NewPID ''c:2'' ''client/eve'', User (ChatMessage ''hi'' ''bob''), Some (NewPID ''s:1'' ''server/primary''))]\<rparr>)"
proof -
  obtain e0 :: "chat_msg engine" where e0: "stream_ok (stream_pid ''local'' 5) 0 e0" "e_address e0 = ''local''" using example_engine by blast
  let ?rm = "\<lparr>rem_Address = ''local'', rem_sent = []\<rparr>" and ?e = "e0\<lparr>e_remote := Some \<lparr>rem_Address = ''local'', rem_sent = []\<rparr>\<rparr>"
  let ?s = "\<lparr>clients = [''c:1'' \<mapsto> Some (NewPID ''c:1'' ''client/bob''), ''c:2'' \<mapsto> Some (NewPID ''c:2'' ''client/eve'')], users = Map.empty\<rparr>"
  let ?c = "chat_context (Some (NewPID ''c:1'' ''client/bob'')) (ChatMessage ''hi'' ''bob'')"
  let ?ls = "[(Some (NewPID ''c:2'' ''client/eve''), c_message ?c, Some (c_pid ?c))]"
  have s: "stream_ok (stream_pid ''local'' 5) 0 ?e" using e0(1) by (simp add: stream_ok_def)
  have o: "range_order (clients ?s) [''c:1'', ''c:2'']" by (auto simp: range_order_def)
  have n: "\<forall>q \<in> ran (clients ?s). q \<noteq> None" by (auto simp: ran_def split: if_splits)
  have r: "route (stream_pid ''local'' 5) 0 (Some (NewPID ''c:2'' ''client/eve'')) m src ?e = OverNetwork (NewPID ''c:2'' ''client/eve'') m src" for m src
    using e0(2) by (simp add: route_def)
  have l: "?ls = map (\<lambda>q. (q, c_message ?c, Some (c_pid ?c))) (filter (\<lambda>q. q \<noteq> Some (NewPID ''c:1'' ''client/bob'')) (range_values (clients ?s) [''c:1'', ''c:2'']))"
    by (simp add: range_values_def List.map_filter_def)
  have g: "\<forall>l \<in> set ?ls. good_letter (stream_pid ''local'' 5) 0 ?e l" by (simp add: good_letter_def r)
  from chat_broadcast [OF s o n _ _ l g] obtain e' where "server_Receive [''c:1'', ''c:2''] ?c ?s ?e = (Inr ?s, e')"
    "wired (concat (map (wire_for (stream_pid ''local'' 5) 0 ?e) ?ls)) ?e e'" by auto
  then show ?thesis by (intro exI [of _ ?e] exI [of _ e'] exI [of _ ?rm]) (simp add: wired_def wire_for_def r)
qed

end
