(* ===== verification/TcpServer.thy ===== *)
theory TcpServer
  imports AppActor
begin

section \<open>The TCP server (examples/tcpserver)\<close>

text \<open>
  The server actor listens, has a child that handles what the clients send, and spawns a session
  per connection. A session reads its connection on a goroutine of its own and sends every chunk
  to the handler, which it finds by computing its PID. A connection is a handle; what
  \<open>Read\<close> returns is a list of chunks of at most 1024 bytes, followed by an error.
\<close>

datatype tcp_msg = Bytes string | ConnAdd pid_ptr nat | ConnRem pid_ptr

type_synonym 'a tcp_act = "(tcp_msg, 'a) act"

type_synonym 'a tcp_opts = "('a, tcp_msg, unit) opts"

record tcp_server =
  listenAddr :: string
  ln :: bool
  sessions :: "pid_ptr \<rightharpoonup> nat"

definition tcp_newServer :: "string \<Rightarrow> tcp_server" where
  "tcp_newServer addr = \<lparr>listenAddr = addr, ln = False, sessions = Map.empty\<rparr>"

text \<open>The handler prints; it does not call the engine.\<close>

definition handler_Receive :: "tcp_msg actor_context \<Rightarrow> string list" where
  "handler_Receive c = (case c_message c of
      User (Bytes m) \<Rightarrow> [''got message to handle: '' @ m]
    | Stopped \<Rightarrow> map (\<lambda>i. '' handler stopping in '' @ Itoa (3 - int i)) [0..<3] @ [''handler stopped'']
    | _ \<Rightarrow> [])"

subsection \<open>Sessions\<close>

record tcp_session =
  conn :: nat

definition newSession :: "nat \<Rightarrow> tcp_session" where
  "newSession k = \<lparr>conn = k\<rparr>"

text \<open>What a session does to its connection: start reading it, close it.\<close>

datatype conn_effect = StartReading nat | CloseConn nat

definition session_Receive :: "tcp_msg actor_context \<Rightarrow> tcp_session \<Rightarrow> conn_effect list" where
  "session_Receive c s = (case c_message c of
      Started \<Rightarrow> [StartReading (conn s)]
    | Stopped \<Rightarrow> [CloseConn (conn s)]
    | _ \<Rightarrow> [])"

text \<open>\<open>a\<close> is the address of the session's PID. \<open>Child\<close> of a nil parent dereferences it.\<close>

fun readLoop :: "string list \<Rightarrow> nat \<Rightarrow> tcp_msg actor_context \<Rightarrow> unit tcp_act" where
  "readLoop [] a c = (\<lambda>e. of_send (ctx_Send (ctx_Parent c) (User (ConnRem (a, c_pid c))) c e))"
| "readLoop (chunk # rest) a c =
     (case ctx_Parent c of
        None \<Rightarrow> of_res (Inl NilDeref)
      | Some p \<Rightarrow> bindA (\<lambda>e. of_send (ctx_Send (Some (pid_Child p ''handler/default'')) (User (Bytes chunk)) c e)) (\<lambda>_. readLoop rest a c))"

subsection \<open>The server\<close>

text \<open>\<open>listen\<close> says whether \<open>net.Listen\<close> succeeds; its error is raised as a panic value.\<close>

datatype tcp_end = TcpHalt halt | ListenPanic

definition tcp_server_Receive :: "bool \<Rightarrow> nat \<Rightarrow> unit tcp_opts \<Rightarrow> tcp_msg actor_context \<Rightarrow> tcp_server \<Rightarrow> tcp_msg engine \<Rightarrow>
    (tcp_end + tcp_server \<times> tcp_msg actor_context) \<times> tcp_msg engine" where
  "tcp_server_Receive listen random op c s e =
     (case c_message c of
        Initialized \<Rightarrow>
          if \<not> listen then (Inl ListenPanic, e)
          else (case a_SpawnChild ''handler'' [WithID ''default''] random op c e of
                  (Inl x, e') \<Rightarrow> (Inl (TcpHalt x), e')
                | (Inr (q, c'), e') \<Rightarrow> (Inr (s\<lparr>ln := True\<rparr>, c'), e'))
      | User (ConnAdd k v) \<Rightarrow> (Inr (s\<lparr>sessions := (sessions s)(k \<mapsto> v)\<rparr>, c), e)
      | User (ConnRem k) \<Rightarrow> (Inr (s\<lparr>sessions := (sessions s)(k := None)\<rparr>, c), e)
      | _ \<Rightarrow> (Inr (s, c), e))"

text \<open>
  The accept loop runs on a goroutine of its own that started with \<open>Started\<close>. An accepted
  connection is its handle, its remote address and the address of the session's PID; the list
  ends with the error of \<open>Accept\<close>.
\<close>

fun acceptLoop :: "(nat \<times> string \<times> nat) list \<Rightarrow> nat \<Rightarrow> unit tcp_opts \<Rightarrow> tcp_msg actor_context \<Rightarrow> tcp_msg actor_context tcp_act" where
  "acceptLoop [] random op c = ret c"
| "acceptLoop ((k, addr, a) # conns) random op c =
     bindA (a_SpawnChild ''session'' [WithID addr] random op c)
       (\<lambda>(q, c'). bindA (\<lambda>e. of_send (ctx_Send (Some (c_pid c')) (User (ConnAdd (a, q) k)) c' e))
          (\<lambda>_. acceptLoop conns random op c'))"

subsection \<open>From the connection to the handler\<close>

lemma ctx_Send_a: "(\<lambda>e. of_send (ctx_Send q m c e)) = a_Send q m (Some (c_pid c))"
  by (simp add: ctx_Send_def a_Send_def fun_eq_iff)

lemma readLoop_posts:
  assumes "c_parent c = Some p"
  shows "readLoop chunks a c = post_all (map (\<lambda>x. (Some (pid_Child p ''handler/default''), User (Bytes x), Some (c_pid c))) chunks
    @ [(Some p, User (ConnRem (a, c_pid c)), Some (c_pid c))])"
  using assms by (induction chunks) (simp_all add: post_all_def ctx_Send_a ctx_Parent_def)

lemma mail_map:
  "local_actor q k e \<Longrightarrow> concat (map (mail_for es h e g) (map (\<lambda>x. (Some q, f x, src)) xs))
     = (if k = g then map (\<lambda>x. \<lparr>Msg = f x, Sender = src\<rparr>) xs else [])"
  by (induction xs) (simp_all add: local_actor_mail)

text \<open>
  C32. What a client sends reaches the handler. When the server has been initialized, the PID a
  session computes for the handler is the PID of the server's child, and the chunks read from
  the connection are in the handler's inbox, in order and with the session as the sender; when
  reading fails, the server is told which session ended.
\<close>

theorem tcp_bytes_reach_handler:
  fixes op :: "unit tcp_opts"
  assumes "eng_inv e" "stream_ok es h e" "op = DefaultOpts f r" "local_actor (c_pid c) g e" "e_heap e g = ProcObj (c_pid c) mb"
    "c_message c = Initialized" "hp = pid_Child (c_pid c) ''handler/default''" "reg_lookup (e_Registry e) (ID hp) = None"
    "c_parent cs = Some (c_pid c)"
  shows "\<exists>s' c' e1 e2. tcp_server_Receive True random op c s e = (Inr (s', c'), e1) \<and> ln s' \<and> ctx_Child (ID hp) c' = Some hp
    \<and> readLoop chunks a cs e1 = (Inr (), e2)
    \<and> e_heap e2 (e_size e) = ProcObj hp (map (\<lambda>x. \<lparr>Msg = User (Bytes x), Sender = Some (c_pid cs)\<rparr>) chunks)
    \<and> e_heap e2 g = ProcObj (c_pid c) (mb @ [\<lparr>Msg = User (ConnRem (a, c_pid cs)), Sender = Some (c_pid cs)\<rparr>])"
proof -
  have g: "g < e_size e" by (rule local_actor_size [OF assms(1,4)])
  have adr: "Address (c_pid c) = e_address e" using assms(4) by (simp add: local_actor_def)
  then have hp: "hp = NewPID (e_address e) (ID (c_pid c) @ pidSeparator @ ''handler'' @ pidSeparator @ ''default'')"
    by (simp add: assms(7) pid_Child_def pidSeparator_def)
  then have "Address hp = e_address e" by simp
  then obtain e1 where e1: "SpawnProc (ProcObj hp []) e = (hp, SDone, e1)" "stream_ok es h e1" "local_actor hp (e_size e) e1"
    "e_heap e1 = (e_heap e)(e_size e := ProcObj hp [])" "\<forall>p k. local_actor p k e \<and> ID p \<noteq> ID hp \<longrightarrow> local_actor p k e1"
    using SpawnProc_actor [OF assms(1,2) _ assms(8)] by metis
  let ?c' = "c\<lparr>c_children := sm_Set (ID hp) hp (c_children c)\<rparr>"
  have sp: "a_SpawnChild ''handler'' [WithID ''default''] random op c e = (Inr (hp, ?c'), e1)"
    using e1(1) SpawnChild_WithID [of "''default''" "''handler''" random f r c e] hp by (simp add: assms(3) a_SpawnChild_def Let_def bindA_def ret_def)
  then have 1: "tcp_server_Receive True random op c s e = (Inr (s\<lparr>ln := True\<rparr>, ?c'), e1)" using assms(6) by (simp add: tcp_server_Receive_def)
  have "ID (c_pid c) \<noteq> ID hp" by (simp add: hp)
  then have la: "local_actor (c_pid c) g e1" using e1(5) assms(4) by blast
  let ?ls = "map (\<lambda>x. (Some hp, User (Bytes x), Some (c_pid cs))) chunks @ [(Some (c_pid c), User (ConnRem (a, c_pid cs)), Some (c_pid cs))]"
  have "\<forall>l \<in> set ?ls. good_letter es h e1 l" using local_actor_good [OF e1(3)] local_actor_good [OF la] by auto
  from post_all_delivers [OF e1(2) this] obtain e2 where e2: "post_all ?ls e1 = (Inr (), e2)"
    "\<forall>k p mb. e_heap e1 k = ProcObj p mb \<longrightarrow> e_heap e2 k = ProcObj p (mb @ concat (map (mail_for es h e1 k) ?ls))" by blast
  have "readLoop chunks a cs e1 = (Inr (), e2)" using e2(1) readLoop_posts [OF assms(9)] assms(7) by simp
  moreover have "e_heap e2 (e_size e) = ProcObj hp (map (\<lambda>x. \<lparr>Msg = User (Bytes x), Sender = Some (c_pid cs)\<rparr>) chunks)"
    using e2(2) e1(4) g by (simp only: map_append concat_append mail_map [OF e1(3)]) (simp add: local_actor_mail [OF la])
  moreover have "e_heap e2 g = ProcObj (c_pid c) (mb @ [\<lparr>Msg = User (ConnRem (a, c_pid cs)), Sender = Some (c_pid cs)\<rparr>])"
    using e2(2) e1(4) assms(5) g by (simp only: map_append concat_append mail_map [OF e1(3)]) (simp add: local_actor_mail [OF la])
  ultimately show ?thesis using 1 by (intro exI [of _ "s\<lparr>ln := True\<rparr>"] exI [of _ ?c'] exI [of _ e1] exI [of _ e2]) (simp add: ctx_Child_def)
qed

subsection \<open>Which sessions the server knows\<close>

definition add_session :: "pid_ptr \<Rightarrow> nat \<Rightarrow> tcp_server \<Rightarrow> tcp_server" where
  "add_session k v s = s\<lparr>sessions := (sessions s)(k \<mapsto> v)\<rparr>"

definition rem_session :: "pid_ptr \<Rightarrow> tcp_server \<Rightarrow> tcp_server" where
  "rem_session k s = s\<lparr>sessions := (sessions s)(k := None)\<rparr>"

interpretation session_map: keyed_store "\<lambda>_. True" "\<lambda>k s. sessions s k" add_session rem_session
  by unfold_locales (simp_all add: add_session_def rem_session_def)

fun conn_op :: "tcp_msg \<Rightarrow> (pid_ptr, nat) store_op list" where
  "conn_op (ConnAdd k v) = [OpSet k v]"
| "conn_op (ConnRem k) = [OpDelete k]"
| "conn_op (Bytes _) = []"

fun tcp_messages :: "tcp_msg list \<Rightarrow> tcp_msg actor_context \<Rightarrow> tcp_server \<Rightarrow> tcp_msg engine \<Rightarrow> (tcp_end + tcp_server \<times> tcp_msg actor_context) \<times> tcp_msg engine" where
  "tcp_messages [] c s e = (Inr (s, c), e)"
| "tcp_messages (m # ms) c s e =
     (case tcp_server_Receive True 0 (DefaultOpts (\<lambda>u. (u, None)) (\<lambda>_ u. (u, [], None))) (c\<lparr>c_message := User m\<rparr>) s e of
        (Inl x, e') \<Rightarrow> (Inl x, e') | (Inr (s', c'), e') \<Rightarrow> tcp_messages ms c' s' e')"

lemma tcp_messages_store:
  "\<exists>c'. tcp_messages ms c s e = (Inr (store_run add_session rem_session s (concat (map conn_op ms)), c'), e)"
proof (induction ms arbitrary: c s)
  case (Cons m ms)
  then show ?case by (cases m) (auto simp: tcp_server_Receive_def add_session_def rem_session_def)
qed simp

text \<open>
  The server's last word on a session is the last message about it. The accept loop sends
  \<open>connAdd\<close> after the session has started, so that the session's \<open>connRem\<close> can come first; then
  the ended session stays in the map for good.
\<close>

theorem tcp_last_word:
  "\<exists>s' c'. tcp_messages ms c s e = (Inr (s', c'), e) \<and> (\<forall>k. sessions s' k = last_write (sessions s k) k (concat (map conn_op ms)))
    \<and> (ms = [ConnRem k, ConnAdd k v] @ rest \<and> (\<forall>m \<in> set rest. m \<noteq> ConnRem k \<and> (\<forall>w. m \<noteq> ConnAdd k w)) \<longrightarrow> sessions s' k = Some v)"
proof -
  obtain c' where c': "tcp_messages ms c s e = (Inr (store_run add_session rem_session s (concat (map conn_op ms)), c'), e)"
    using tcp_messages_store by blast
  have l: "last_write (Some v) k (concat (map conn_op rest)) = Some v" if "\<forall>m \<in> set rest. m \<noteq> ConnRem k \<and> (\<forall>w. m \<noteq> ConnAdd k w)"
    using that
  proof (induction rest)
    case (Cons m rest)
    then show ?case by (cases m) auto
  qed simp
  let ?s = "store_run add_session rem_session s (concat (map conn_op ms))"
  have w: "sessions ?s k = last_write (sessions s k) k (concat (map conn_op ms))" for k
    using session_map.run_last_write [of s "concat (map conn_op ms)" k] by simp
  have "sessions ?s k = Some v" if "ms = [ConnRem k, ConnAdd k v] @ rest" "\<forall>m \<in> set rest. m \<noteq> ConnRem k \<and> (\<forall>w. m \<noteq> ConnAdd k w)"
    unfolding w using that(1) l [OF that(2)] by simp
  then show ?thesis using c' w by (intro exI [of _ ?s] exI [of _ c']) blast
qed

text \<open>
  A session outlives its connection: when reading fails the session process is neither
  stopped nor removed. So a later connection from the same remote address finds its name taken:
  no session is started for it, only an \<open>ActorDuplicateIdEvent\<close> is raised, and yet the server
  is told of a new session.
\<close>

theorem tcp_reconnect_unserved:
  assumes "eng_inv e" "stream_ok es h e" "op = DefaultOpts f r" "c_parent cs = Some (c_pid c)"
    "q = NewPID (e_address e) (ID (c_pid c) @ pidSeparator @ ''session'' @ pidSeparator @ addr)" "addr \<noteq> []"
    "reg_lookup (e_Registry e) (ID q) = Some k" "local_actor (c_pid c) g e" "g \<noteq> h"
    "e1 = snd (readLoop chunks a cs e)" "e_heap e1 h = ProcObj es mb" "e_heap e1 g = ProcObj (c_pid c) mb'"
  shows "\<exists>c' e2. acceptLoop [(v, addr, a')] random op c e1 = (Inr c', e2) \<and> e_Registry e2 = e_Registry e \<and> e_started e2 = e_started e
    \<and> e_heap e2 h = ProcObj es (mb @ [\<lparr>Msg = ActorDuplicateIdEvent (Some q), Sender = None\<rparr>])
    \<and> e_heap e2 g = ProcObj (c_pid c) (mb' @ [\<lparr>Msg = User (ConnAdd (a', q) v), Sender = Some (c_pid c)\<rparr>])"
proof -
  have sh: "same_shape e e1" using post_all_shape by (simp add: assms(10) readLoop_posts [OF assms(4)])
  have e1: "eng_inv e1" "stream_ok es h e1" "e_Registry e1 = e_Registry e" "e_started e1 = e_started e" "e_address e1 = e_address e"
    using same_shape_inv [OF sh assms(1)] same_shape_stream [OF sh assms(2)] sh by (auto simp: same_shape_def)
  have lt: "h < e_size e1" "g < e_size e1"
    using e1(1,2) local_actor_size [OF assms(1,8)] sh by (auto simp: eng_inv_def stream_ok_def same_shape_def)
  define e2 where "e2 = e1\<lparr>e_heap := (e_heap e1)(e_size e1 := ProcObj q [], h := ProcObj es (mb @ [\<lparr>Msg = ActorDuplicateIdEvent (Some q), Sender = None\<rparr>])),
     e_size := Suc (e_size e1)\<rparr>"
  have sp: "SpawnProc (ProcObj q []) e1 = (q, SDone, e2)"
    using SpawnProc_taken [OF e1(2,1), of "ProcObj q []" k] assms(7,11) e1(3) lt
    by (simp add: proc_send_def e2_def fun_upd_twist)
  have s2: "stream_ok es h e2" using e1(2) by (simp add: stream_ok_def e2_def)
  have l2: "local_actor (c_pid c) g e2" "e_heap e2 g = ProcObj (c_pid c) mb'"
    using assms(8,9,12) e1(3,5) lt by (auto simp: local_actor_def e2_def)
  let ?c' = "c\<lparr>c_children := sm_Set (ID q) q (c_children c)\<rparr>"
  have sc: "a_SpawnChild ''session'' [WithID addr] random op c e1 = (Inr (q, ?c'), e2)"
    using sp SpawnChild_WithID [OF assms(6), of "''session''" random f r c e1] by (simp add: assms(3,5) e1(5) a_SpawnChild_def Let_def bindA_def ret_def)
  from a_Send_local [OF s2 l2] sc show ?thesis
    using e1(3,4) lt assms(9) by (simp add: bindA_run ctx_Send_a e2_def ret_def)
qed

subsection \<open>Witnesses\<close>

definition tcp_example_opts :: "unit tcp_opts" where
  "tcp_example_opts = DefaultOpts (\<lambda>u. (u, None)) (\<lambda>_ u. (u, [], None))"

definition tcp_context :: "pid \<Rightarrow> tcp_msg msg \<Rightarrow> tcp_msg actor_context" where
  "tcp_context q m = newContext 0 q m"

lemma tcp_context_simps [simp]: "c_pid (tcp_context q m) = q" "c_message (tcp_context q m) = m"
  by (simp_all add: tcp_context_def newContext_def)

text \<open>An engine with a server.\<close>

lemma example_server:
  "\<exists>e :: tcp_msg engine. eng_inv e \<and> stream_ok (stream_pid ''local'' 5) 0 e \<and> e_address e = ''local''
     \<and> local_actor (NewPID ''local'' ''server/7'') 1 e \<and> e_heap e 1 = ProcObj (NewPID ''local'' ''server/7'') []
     \<and> e_heap e 0 = ProcObj (stream_pid ''local'' 5) []
     \<and> reg_lookup (e_Registry e) = [''server/7'' \<mapsto> 1, ID (stream_pid ''local'' 5) \<mapsto> 0] \<and> e_size e = 2"
proof -
  let ?e = "\<lparr>e_Registry = \<lparr>reg_lookup = [''server/7'' \<mapsto> 1, ID (stream_pid ''local'' 5) \<mapsto> 0], responses = Map.empty\<rparr>,
    e_heap = (\<lambda>h. if h = 0 then ProcObj (stream_pid ''local'' 5) [] else ProcObj (NewPID ''local'' ''server/7'') []), e_size = 2, e_started = [],
    e_address = ''local'', e_remote = None, e_eventStream = Some (stream_pid ''local'' 5), e_responseSeq = 0, e_contexts = 0, e_cancelled = {}\<rparr>"
  have "eng_inv ?e" by (auto simp: eng_inv_def reg_inv_def stream_pid_id split: if_splits)
  then show ?thesis
    by (intro exI [of _ ?e]) (auto simp: stream_ok_def stream_pid_def local_actor_def reg_get_def)
qed

theorem tcp_bytes_reach_handler_witness:
  "\<exists>(e :: tcp_msg engine) s' c' e1 e2. tcp_server_Receive True 3 tcp_example_opts (tcp_context (NewPID ''local'' ''server/7'') Initialized) (tcp_newServer '':6000'') e
       = (Inr (s', c'), e1)
     \<and> readLoop [''hello'', ''world''] 9 ((tcp_context (NewPID ''local'' ''server/7/session/1'') Started)\<lparr>c_parent := Some (NewPID ''local'' ''server/7'')\<rparr>) e1 = (Inr (), e2)"
proof -
  obtain e :: "tcp_msg engine" where e: "eng_inv e" "stream_ok (stream_pid ''local'' 5) 0 e" "local_actor (NewPID ''local'' ''server/7'') 1 e"
    "e_heap e 1 = ProcObj (NewPID ''local'' ''server/7'') []" "reg_lookup (e_Registry e) = [''server/7'' \<mapsto> 1, ID (stream_pid ''local'' 5) \<mapsto> 0]"
    using example_server by blast
  let ?c = "tcp_context (NewPID ''local'' ''server/7'') Initialized"
  let ?cs = "(tcp_context (NewPID ''local'' ''server/7/session/1'') Started)\<lparr>c_parent := Some (NewPID ''local'' ''server/7'')\<rparr>"
  have l: "local_actor (c_pid ?c) 1 e" "e_heap e 1 = ProcObj (c_pid ?c) []" using e(3,4) by simp_all
  have n: "reg_lookup (e_Registry e) (ID (pid_Child (c_pid ?c) ''handler/default'')) = None"
    by (simp add: e(5) pid_Child_def pidSeparator_def stream_pid_id)
  have p: "c_message ?c = Initialized" "c_parent ?cs = Some (c_pid ?c)" by simp_all
  from tcp_bytes_reach_handler [OF e(1,2) tcp_example_opts_def l p(1) refl n p(2), of 3 "tcp_newServer '':6000''" "[''hello'', ''world'']" 9]
  show ?thesis by blast
qed

theorem tcp_last_word_witness:
  "\<exists>(e :: tcp_msg engine) s' c'. tcp_messages [ConnRem (1, NewPID ''local'' ''a''), ConnAdd (1, NewPID ''local'' ''a'') 4]
     (tcp_context (NewPID ''local'' ''server/7'') Started) (tcp_newServer '':6000'') e = (Inr (s', c'), e) \<and> sessions s' (1, NewPID ''local'' ''a'') = Some 4"
proof -
  let ?k = "(1, NewPID ''local'' ''a'')" and ?c = "tcp_context (NewPID ''local'' ''server/7'') Started"
  let ?ms = "[ConnRem ?k, ConnAdd ?k 4]"
  obtain e :: "tcp_msg engine" where True by blast
  from tcp_last_word [of ?ms ?c "tcp_newServer '':6000''" e ?k 4 "[]"] obtain s' c' where
    s: "tcp_messages ?ms ?c (tcp_newServer '':6000'') e = (Inr (s', c'), e)"
    and w: "?ms = [ConnRem ?k, ConnAdd ?k 4] @ [] \<and> (\<forall>m \<in> set []. m \<noteq> ConnRem ?k \<and> (\<forall>w. m \<noteq> ConnAdd ?k w)) \<longrightarrow> sessions s' ?k = Some 4" by blast
  have "sessions s' ?k = Some 4" by (rule w [THEN mp]) simp
  with s show ?thesis by blast
qed

theorem tcp_reconnect_unserved_witness:
  "\<exists>(e :: tcp_msg engine) c' e2. acceptLoop [(4, ''1.2.3.4:5'', 9)] 3 tcp_example_opts (tcp_context (NewPID ''local'' ''server/7'') Started)
       (snd (readLoop [] 8 ((tcp_context (NewPID ''local'' ''server/7/session/1.2.3.4:5'') Started)\<lparr>c_parent := Some (NewPID ''local'' ''server/7'')\<rparr>) e))
     = (Inr c', e2) \<and> e_started e2 = e_started e"
proof -
  obtain e0 :: "tcp_msg engine" where e0: "eng_inv e0" "stream_ok (stream_pid ''local'' 5) 0 e0" "e_address e0 = ''local''"
    "local_actor (NewPID ''local'' ''server/7'') 1 e0" "e_heap e0 1 = ProcObj (NewPID ''local'' ''server/7'') []"
    "e_heap e0 0 = ProcObj (stream_pid ''local'' 5) []"
    "reg_lookup (e_Registry e0) = [''server/7'' \<mapsto> 1, ID (stream_pid ''local'' 5) \<mapsto> 0]" "e_size e0 = 2"
    using example_server by blast
  let ?q = "NewPID ''local'' ''server/7/session/1.2.3.4:5''" and ?s = "NewPID ''local'' ''server/7''"
  have "reg_lookup (e_Registry e0) (ID ?q) = None" by (simp add: e0(7) stream_pid_id)
  then obtain e where e: "eng_inv e" "stream_ok (stream_pid ''local'' 5) 0 e" "e_heap e = (e_heap e0)(2 := ProcObj ?q [])" "e_address e = ''local''"
    "reg_lookup (e_Registry e) = (reg_lookup (e_Registry e0))(ID ?q \<mapsto> 2)" "\<forall>p k. local_actor p k e0 \<and> ID p \<noteq> ID ?q \<longrightarrow> local_actor p k e"
    using SpawnProc_actor [OF e0(1,2), of ?q] e0(3,8) by (metis NewPID_simps(1))
  let ?c = "tcp_context ?s Started" and ?cs = "(tcp_context ?q Started)\<lparr>c_parent := Some ?s\<rparr>"
  have l: "local_actor (c_pid ?c) 1 e" using e(6) e0(4) by simp
  have h1: "e_heap e 1 = ProcObj ?s []" using e(3) e0(5) by simp
  let ?e1 = "e\<lparr>e_heap := (e_heap e)(1 := ProcObj ?s ([] @ [\<lparr>Msg = User (ConnRem (8, ?q)), Sender = Some ?q\<rparr>]))\<rparr>"
  have r: "readLoop [] 8 ?cs e = (Inr (), ?e1)"
    using a_Send_local [OF e(2) _ h1, of "User (ConnRem (8, ?q))" "Some ?q"] l by (simp add: ctx_Send_a ctx_Parent_def)
  have q: "?q = NewPID (e_address e) (ID (c_pid ?c) @ pidSeparator @ ''session'' @ pidSeparator @ ''1.2.3.4:5'')" "''1.2.3.4:5'' \<noteq> []"
    "reg_lookup (e_Registry e) (ID ?q) = Some 2" "(1 :: nat) \<noteq> 0" "c_parent ?cs = Some (c_pid ?c)"
    by (simp_all add: e(4,5) pidSeparator_def)
  have h: "e_heap (snd (readLoop [] 8 ?cs e)) 0 = ProcObj (stream_pid ''local'' 5) []"
    "e_heap (snd (readLoop [] 8 ?cs e)) 1 = ProcObj (c_pid ?c) [\<lparr>Msg = User (ConnRem (8, ?q)), Sender = Some ?q\<rparr>]"
    unfolding r using e(3) e0(6) by simp_all
  from tcp_reconnect_unserved [OF e(1,2) tcp_example_opts_def q(5,1,2,3) l q(4) refl h, of 4 9 3] show ?thesis by blast
qed

end
