(* ===== verification/Bench.thy ===== *)
theory Bench
  imports AppActor Remote Float64 "HOL-Library.Signed_Division"
begin

section \<open>The benchmark (_bench/main.go)\<close>

text \<open>
  A number of engines with a remote each, a number of actors on each, and goroutines that send
  messages from a random engine to a random actor of another one. What \<open>rand\<close>, the
  listeners of the remotes and the environment return are arguments. The engines of the benchmark
  are the engines of theory \<open>Engine\<close>, started with the remotes of theory \<open>Remote\<close>; a pointer to one
  is its index. A \<open>nil\<close> element of a slice is \<open>None\<close>. Memory is unbounded.
\<close>

datatype bench_msg = BMessage | Ping | Pong

record counters =
  receiveCount :: "64 word"
  sendCount :: "64 word"
  deadLetters :: "64 word"

definition bench_init :: counters where
  "bench_init = \<lparr>receiveCount = 0, sendCount = 0, deadLetters = 0\<rparr>"

text \<open>\<open>a\<close> is the address of the monitor's PID.\<close>

definition monitor_Receive :: "nat \<Rightarrow> bench_msg netmsg actor_context \<Rightarrow> counters \<Rightarrow> (bench_msg netmsg, counters) act" where
  "monitor_Receive a c n =
     (case c_message c of
        Initialized \<Rightarrow> bindA (\<lambda>e. of_send (Subscribe (a, c_pid c) e)) (\<lambda>_. ret n)
      | DeadLetterEvent _ _ _ \<Rightarrow> ret (n\<lparr>deadLetters := deadLetters n + 1\<rparr>)
      | _ \<Rightarrow> ret n)"

text \<open>The state of the actor is \<open>internalMessageCount\<close>.\<close>

definition benchMarkActor_Receive :: "bench_msg netmsg actor_context \<Rightarrow> 64 word \<times> counters \<Rightarrow> (bench_msg netmsg, 64 word \<times> counters) act" where
  "benchMarkActor_Receive c s =
     (case c_message c of
        User (Payload BMessage) \<Rightarrow> ret (fst s + 1, (snd s)\<lparr>receiveCount := receiveCount (snd s) + 1\<rparr>)
      | User (Payload Ping) \<Rightarrow> bindA (\<lambda>e. of_send (ctx_Respond (User (Payload Pong)) c e)) (\<lambda>_. ret s)
      | _ \<Rightarrow> ret s)"

record bench_engine =
  engineID :: nat
  actors :: "pid option list"
  engine_of :: "bench_msg netmsg engine"
  targetEngines :: "nat list"
  monitor :: pid

record benchmark =
  engineCount :: int
  actorsPerEngine :: int
  senders :: int
  engines :: "bench_engine option list"

definition newBenchmark :: "int \<Rightarrow> int \<Rightarrow> int \<Rightarrow> benchmark res" where
  "newBenchmark ec ape sn = bindR (go_make None ec) (\<lambda>es. Inr \<lparr>engineCount = ec, actorsPerEngine = ape, senders = sn, engines = es\<rparr>)"

text \<open>\<open>rand.Intn(n)\<close> panics unless \<open>n\<close> is positive; otherwise \<open>r\<close> decides.\<close>

datatype bench_end = BPanic go_panic | IntnPanic | WaitGroupPanic | BError string | BHalt halt

definition Intn :: "nat \<Rightarrow> nat \<Rightarrow> bench_end + nat" where
  "Intn r n = (if n = 0 then Inl IntnPanic else Inr (r mod n))"

text \<open>The loop \<open>for i := 0; i < n; i++\<close> with an early return.\<close>

fun each_upto :: "(nat \<Rightarrow> 's \<Rightarrow> 'e + 's) \<Rightarrow> nat \<Rightarrow> 's \<Rightarrow> 'e + 's" where
  "each_upto f 0 s = Inr s"
| "each_upto f (Suc n) s = (case each_upto f n s of Inl x \<Rightarrow> Inl x | Inr t \<Rightarrow> f n t)"

definition engine_address :: "nat \<Rightarrow> string" where
  "engine_address i = ''localhost:'' @ Itoa (4000 + int i)"

definition plain_opts :: "(unit, bench_msg netmsg, unit) opts" where
  "plain_opts = DefaultOpts (\<lambda>u. (u, None)) (\<lambda>_ u. (u, [], None))"

text \<open>
  The body of the first loop of \<open>spawnEngines\<close>: \<open>net\<close> says which addresses can be listened on, \<open>rr\<close>
  and \<open>random\<close> are the numbers drawn for the ids of the router and of the other actors. Of the
  errors that \<open>NewEngine\<close> wraps, only the outermost text is kept.
\<close>

definition new_engine :: "unit listeners \<Rightarrow> (nat \<Rightarrow> nat) \<Rightarrow> (nat \<Rightarrow> nat) \<Rightarrow> 64 word \<Rightarrow> nat \<Rightarrow> bench_msg netmsg engine option" where
  "new_engine net rr random seq i = NewEngine (WithRemote \<lparr>rem_Address = engine_address i, rem_sent = []\<rparr> NewEngineConfig)
     (remote_started net (rr i) (remote_New (engine_address i) remote_NewConfig)) (random i) seq"

definition spawn_engine :: "unit listeners \<Rightarrow> (nat \<Rightarrow> nat) \<Rightarrow> (nat \<Rightarrow> nat) \<Rightarrow> 64 word \<Rightarrow> nat \<Rightarrow> benchmark \<Rightarrow> bench_end + benchmark" where
  "spawn_engine net rr random seq i b =
     (case new_engine net rr random seq i of
        None \<Rightarrow> Inl (BError ''failed to create engine'')
      | Some e \<Rightarrow>
          (case go_make None (actorsPerEngine b) of
             Inl p \<Rightarrow> Inl (BPanic p)
           | Inr as \<Rightarrow>
               (case Spawn ''monitor'' [] (random i) plain_opts e of
                  (q, _, e1) \<Rightarrow> Inr (b\<lparr>engines := (engines b)[i := Some \<lparr>engineID = i, actors = as, engine_of = e1,
                     targetEngines = [], monitor = q\<rparr>]\<rparr>))))"

definition set_targets :: "int \<Rightarrow> nat \<Rightarrow> benchmark \<Rightarrow> bench_end + benchmark" where
  "set_targets n i b =
     (case engines b ! i of
        None \<Rightarrow> Inl (BPanic NilDeref)
      | Some en \<Rightarrow> Inr (b\<lparr>engines := (engines b)[i := Some (en\<lparr>targetEngines :=
          fold (\<lambda>j ts. if i = j then ts else ts @ [j]) [0..<nat n] (targetEngines en)\<rparr>)]\<rparr>))"

definition spawnEngines :: "unit listeners \<Rightarrow> (nat \<Rightarrow> nat) \<Rightarrow> (nat \<Rightarrow> nat) \<Rightarrow> 64 word \<Rightarrow> benchmark \<Rightarrow> bench_end + benchmark" where
  "spawnEngines net rr random seq b =
     (case each_upto (spawn_engine net rr random seq) (nat (engineCount b)) b of
        Inl x \<Rightarrow> Inl x
      | Inr b1 \<Rightarrow> each_upto (set_targets (engineCount b1)) (nat (engineCount b1)) b1)"

definition spawn_actor :: "(nat \<Rightarrow> nat \<Rightarrow> nat) \<Rightarrow> nat \<Rightarrow> nat \<Rightarrow> benchmark \<Rightarrow> bench_end + benchmark" where
  "spawn_actor random i j b =
     (case engines b ! i of
        None \<Rightarrow> Inl (BPanic NilDeref)
      | Some en \<Rightarrow>
          (case Spawn (''engine-'' @ Itoa (int i) @ ''-actor-'' @ Itoa (int j)) [] (random i j) plain_opts (engine_of en) of
             (q, SDone, e1) \<Rightarrow> Inr (b\<lparr>engines := (engines b)[i := Some (en\<lparr>actors := (actors en)[j := Some q], engine_of := e1\<rparr>)]\<rparr>)
           | (q, SBlocked, e1) \<Rightarrow> Inl (BHalt HBlocked)
           | (q, SLoop, e1) \<Rightarrow> Inl (BHalt HLoop)))"

definition spawnActors :: "(nat \<Rightarrow> nat \<Rightarrow> nat) \<Rightarrow> benchmark \<Rightarrow> bench_end + benchmark" where
  "spawnActors random b =
     each_upto (\<lambda>i b. each_upto (spawn_actor random i) (nat (actorsPerEngine b)) b) (nat (engineCount b)) b"

definition randomEngine :: "nat \<Rightarrow> benchmark \<Rightarrow> bench_end + nat" where
  "randomEngine r b = Intn r (length (engines b))"

definition randomTargetEngine :: "nat \<Rightarrow> bench_engine \<Rightarrow> bench_end + nat" where
  "randomTargetEngine r en = (case Intn r (length (targetEngines en)) of Inl x \<Rightarrow> Inl x | Inr k \<Rightarrow> Inr (targetEngines en ! k))"

definition randomActor :: "nat \<Rightarrow> bench_engine \<Rightarrow> bench_end + pid option" where
  "randomActor r en = (case Intn r (length (actors en)) of Inl x \<Rightarrow> Inl x | Inr k \<Rightarrow> Inr (actors en ! k))"

text \<open>One round of a sender of \<open>sendMessages\<close>.\<close>

definition send_round :: "nat \<times> nat \<times> nat \<Rightarrow> benchmark \<times> counters \<Rightarrow> bench_end + benchmark \<times> counters" where
  "send_round rs s = (case rs of (r1, r2, r3) \<Rightarrow>
     (case randomEngine r1 (fst s) of Inl x \<Rightarrow> Inl x | Inr i \<Rightarrow>
      (case engines (fst s) ! i of None \<Rightarrow> Inl (BPanic NilDeref) | Some en \<Rightarrow>
       (case randomTargetEngine r2 en of Inl x \<Rightarrow> Inl x | Inr j \<Rightarrow>
        (case engines (fst s) ! j of None \<Rightarrow> Inl (BPanic NilDeref) | Some ten \<Rightarrow>
         (case randomActor r3 ten of Inl x \<Rightarrow> Inl x | Inr q \<Rightarrow>
          (case a_Send q (User (Payload BMessage)) None (engine_of en) of
             (Inl h, _) \<Rightarrow> Inl (BHalt h)
           | (Inr _, e1) \<Rightarrow> Inr ((fst s)\<lparr>engines := (engines (fst s))[i := Some (en\<lparr>engine_of := e1\<rparr>)]\<rparr>,
               (snd s)\<lparr>sendCount := sendCount (snd s) + 1\<rparr>))))))))"

text \<open>The comparison at the end of \<open>sendMessages\<close>.\<close>

definition counts_match :: "counters \<Rightarrow> bench_end + unit" where
  "counts_match n = (if sendCount n \<noteq> receiveCount n
     then Inl (BError (''send count and receive count does not match: '' @ Itoa (sint (sendCount n)) @ '' != '' @ Itoa (sint (receiveCount n)))) else Inr ())"

text \<open>The rounds of the senders, in the order in which they happen.\<close>

fun storm :: "(nat \<times> nat \<times> nat) list \<Rightarrow> benchmark \<times> counters \<Rightarrow> bench_end + benchmark \<times> counters" where
  "storm [] s = Inr s"
| "storm (rs # rss) s = (case send_round rs s of Inl x \<Rightarrow> Inl x | Inr t \<Rightarrow> storm rss t)"

text \<open>
  \<open>sendMessages\<close>: the deadline decides which rounds \<open>rss\<close> the senders make, none if it is over at
  once; \<open>received\<close> and \<open>dead\<close> are what the actors and the monitors have counted when the second
  after the rounds is over. \<open>WaitGroup.Add\<close> panics on a negative number.
\<close>

definition rounds_made :: "int \<Rightarrow> 64 word \<Rightarrow> 'r list \<Rightarrow> 'r list" where
  "rounds_made sn d rss = (if sn = 0 \<or> sint d \<le> 0 then [] else rss)"

definition sendMessages :: "64 word \<Rightarrow> (nat \<times> nat \<times> nat) list \<Rightarrow> 64 word \<Rightarrow> 64 word \<Rightarrow> benchmark \<times> counters \<Rightarrow> bench_end + benchmark \<times> counters" where
  "sendMessages d rss received dead s =
     (if senders (fst s) < 0 then Inl WaitGroupPanic
      else case storm (rounds_made (senders (fst s)) d rss) s of
             Inl x \<Rightarrow> Inl x
           | Inr (b, n) \<Rightarrow> (let n' = n\<lparr>receiveCount := received, deadLetters := dead\<rparr>
               in case counts_match n' of Inl x \<Rightarrow> Inl x | Inr _ \<Rightarrow> Inr (b, n')))"

definition envInt :: "(string \<Rightarrow> string) \<Rightarrow> string \<Rightarrow> int \<Rightarrow> int" where
  "envInt getenv key def = (let v = getenv key in if v = [] then def else case Atoi v of (n, ok) \<Rightarrow> if ok then n else def)"

text \<open>
  The checks of \<open>benchmark\<close> before the engines are spawned, with the duration in nanoseconds, whose
  product wraps, and the rate it prints at the end.
\<close>

definition bench_duration :: "int \<Rightarrow> 64 word" where
  "bench_duration n = 10 ^ 9 * of_int n"

definition bench_settings :: "(string \<Rightarrow> string) \<Rightarrow> bool \<Rightarrow> bench_end + int \<times> int \<times> int \<times> 64 word" where
  "bench_settings getenv one_cpu =
     (let es = envInt getenv ''BENCH_ENGINES'' 10 in
      if es < 1 then Inl (BError ''BENCH_ENGINES must be at least 1'')
      else let as = envInt getenv ''BENCH_ACTORS_PER_ENGINE'' 2000;
               sn = envInt getenv ''BENCH_SENDERS'' 20;
               d = bench_duration (envInt getenv ''BENCH_DURATION'' 10)
           in if one_cpu then Inl (BError ''GOMAXPROCS must be greater than 1'') else Inr (es, as, sn, d))"

definition messages_per_second :: "counters \<Rightarrow> 64 word \<Rightarrow> 64 word res" where
  "messages_per_second n d = (let seconds = whole_seconds (sint d)
     in if seconds = 0 then Inl DivideByZero else Inr (of_int (sint (receiveCount n) sdiv seconds)))"

text \<open>\<open>fmt.Errorf\<close> with the wrapped error; a panic passes through.\<close>

definition wrap_error :: "string \<Rightarrow> bench_end \<Rightarrow> bench_end" where
  "wrap_error what x = (case x of BError err \<Rightarrow> BError (what @ '': '' @ err) | _ \<Rightarrow> x)"

text \<open>\<open>benchmark\<close>; the result is what the two last lines print: the counters and the rate.\<close>

definition benchmark_func :: "(string \<Rightarrow> string) \<Rightarrow> bool \<Rightarrow> unit listeners \<Rightarrow> (nat \<Rightarrow> nat) \<Rightarrow> (nat \<Rightarrow> nat) \<Rightarrow> 64 word \<Rightarrow> (nat \<Rightarrow> nat \<Rightarrow> nat) \<Rightarrow>
    (nat \<times> nat \<times> nat) list \<Rightarrow> 64 word \<Rightarrow> 64 word \<Rightarrow> bench_end + counters \<times> 64 word" where
  "benchmark_func getenv one_cpu net rr random seq random' rss received dead =
     (case bench_settings getenv one_cpu of
        Inl x \<Rightarrow> Inl x
      | Inr (es, as, sn, d) \<Rightarrow>
          (case newBenchmark es as sn of
             Inl p \<Rightarrow> Inl (BPanic p)
           | Inr b0 \<Rightarrow>
               (case spawnEngines net rr random seq b0 of
                  Inl x \<Rightarrow> Inl (wrap_error ''failed to spawn engines'' x)
                | Inr b1 \<Rightarrow>
                    (case spawnActors random' b1 of
                       Inl x \<Rightarrow> Inl (wrap_error ''failed to spawn actors'' x)
                     | Inr b2 \<Rightarrow>
                         (case sendMessages d rss received dead (b2, bench_init) of
                            Inl x \<Rightarrow> Inl (wrap_error ''failed to send messages'' x)
                          | Inr (b3, n) \<Rightarrow> (case messages_per_second n d of Inl p \<Rightarrow> Inl (BPanic p) | Inr rate \<Rightarrow> Inr (n, rate)))))))"

text \<open>The exit code of \<open>main\<close>; \<open>None\<close> when it never ends.\<close>

definition bench_main :: "bench_end + counters \<times> 64 word \<Rightarrow> nat option" where
  "bench_main r = (case r of Inr _ \<Rightarrow> Some 0 | Inl (BError _) \<Rightarrow> Some 1 | Inl (BHalt _) \<Rightarrow> None | Inl _ \<Rightarrow> Some 2)"

subsection \<open>Setting up\<close>

lemma each_upto_inv:
  assumes "each_upto f n s = Inr s'" "I 0 s" "\<And>k t u. k < n \<Longrightarrow> I k t \<Longrightarrow> f k t = Inr u \<Longrightarrow> I (Suc k) u"
  shows "I n s'"
  using assms
proof (induction n arbitrary: s')
  case (Suc n)
  then show ?case by (auto split: sum.splits)
qed simp

text \<open>An engine of the benchmark that is in order, at its own address.\<close>

definition engine_ready :: "nat \<Rightarrow> bench_msg netmsg engine \<Rightarrow> bool" where
  "engine_ready i e \<longleftrightarrow> eng_inv e \<and> (\<exists>es h. stream_ok es h e) \<and> e_address e = engine_address i \<and> e_remote e \<noteq> None"

lemma Spawn_ready:
  assumes "engine_ready i e" "Spawn kind [] random plain_opts e = (q, r, e')"
  shows "engine_ready i e' \<and> Address q = engine_address i \<and> r = SDone"
proof -
  obtain es h where e: "eng_inv e" "stream_ok es h e" "e_address e = engine_address i" "e_remote e \<noteq> None" using assms(1) by (auto simp: engine_ready_def)
  have s: "SpawnProc (ProcObj (NewPID (e_address e) (kind @ pidSeparator @ Itoa (int random))) []) e = (q, r, e')"
    using assms(2) by (simp add: plain_opts_def Spawn_plain)
  note k = SpawnProc_keeps [OF e(1,2) s]
  have "engine_ready i e'" unfolding engine_ready_def
    by (intro conjI exI [of _ es] exI [of _ h]) (use k(1-4) e(3,4) in simp_all)
  then show ?thesis using k(5,6) e(3) by simp
qed

text \<open>The targets of engine \<open>i\<close> among \<open>n\<close>: every other engine, in order.\<close>

definition others :: "nat \<Rightarrow> nat \<Rightarrow> nat list" where
  "others n i = filter (\<lambda>j. i \<noteq> j) [0..<n]"

lemma fold_others: "fold (\<lambda>j ts. if i = j then ts else ts @ [j]) xs ts = ts @ filter (\<lambda>j. i \<noteq> j) xs"
  by (induction xs arbitrary: ts) auto

text \<open>
  The benchmark has \<open>n\<close> engines with \<open>m\<close> actors each: the first \<open>k\<close> have their targets, the first
  \<open>l\<close> their actors.
\<close>

definition laid_out :: "nat \<Rightarrow> nat \<Rightarrow> nat \<Rightarrow> (nat \<Rightarrow> nat \<Rightarrow> bool) \<Rightarrow> benchmark \<Rightarrow> bool" where
  "laid_out n m k spawned b \<longleftrightarrow> nat (engineCount b) = n \<and> nat (actorsPerEngine b) = m \<and> length (engines b) = n \<and>
     (\<forall>i < n. \<exists>en. engines b ! i = Some en \<and> engine_ready i (engine_of en) \<and> length (actors en) = m
        \<and> targetEngines en = (if i < k then others n i else [])
        \<and> (\<forall>j < m. spawned i j \<longrightarrow> (\<exists>p. actors en ! j = Some p \<and> Address p = engine_address i)))"

lemma spawn_engines_laid_out:
  assumes "length (engines b) = nat (engineCount b)"
    "each_upto (spawn_engine net rr random seq) (nat (engineCount b)) b = Inr b1"
  shows "laid_out (nat (engineCount b)) (nat (actorsPerEngine b)) 0 (\<lambda>_ _. False) b1"
proof -
  let ?n = "nat (engineCount b)" and ?m = "nat (actorsPerEngine b)"
  define I where "I = (\<lambda>k (t :: benchmark). engineCount t = engineCount b \<and> actorsPerEngine t = actorsPerEngine b \<and> length (engines t) = ?n \<and>
     (\<forall>i < k. \<exists>en. engines t ! i = Some en \<and> engine_ready i (engine_of en) \<and> length (actors en) = ?m \<and> targetEngines en = []))"
  have "I ?n b1"
  proof (rule each_upto_inv [OF assms(2), of I])
    show "I 0 b" using assms(1) by (simp add: I_def)
  next
    fix k t u assume k: "k < ?n" "I k t" "spawn_engine net rr random seq k t = Inr u"
    obtain e as q r e1 where s: "new_engine net rr random seq k = Some e"
      "go_make None (actorsPerEngine t) = Inr as" "Spawn ''monitor'' [] (random k) plain_opts e = (q, r, e1)"
      "u = t\<lparr>engines := (engines t)[k := Some \<lparr>engineID = k, actors = as, engine_of = e1, targetEngines = [], monitor = q\<rparr>]\<rparr>"
      using k(3) by (auto simp: spawn_engine_def split: option.splits sum.splits prod.splits)
    have "engine_ready k e"
      using remote_start.NewEngine_started [OF s(1) [unfolded new_engine_def]] by (auto simp: engine_ready_def WithRemote_def NewEngineConfig_def)
    then have "engine_ready k e1" using Spawn_ready s(3) by blast
    moreover have "length as = ?m" using s(2) k(2) by (auto simp: go_make_def I_def split: if_splits)
    ultimately show "I (Suc k) u" using k(1,2) s(4) by (auto simp: I_def nth_list_update less_Suc_eq)
  qed
  then show ?thesis by (simp add: I_def laid_out_def)
qed

lemma laid_out_update:
  assumes "laid_out n m k spawned b" "i < n" "engines b ! i = Some en" "engine_ready i (engine_of en')" "length (actors en') = m"
    "targetEngines en' = (if i < k' then others n i else [])" "\<And>j. j < n \<Longrightarrow> j \<noteq> i \<Longrightarrow> (j < k') = (j < k)"
    "\<And>j. j < m \<Longrightarrow> spawned' i j \<Longrightarrow> \<exists>p. actors en' ! j = Some p \<and> Address p = engine_address i"
    "\<And>l j. l \<noteq> i \<Longrightarrow> spawned' l j \<Longrightarrow> spawned l j"
  shows "laid_out n m k' spawned' (b\<lparr>engines := (engines b)[i := Some en']\<rparr>)"
proof -
  have "\<exists>x. (engines b)[i := Some en'] ! l = Some x \<and> engine_ready l (engine_of x) \<and> length (actors x) = m
        \<and> targetEngines x = (if l < k' then others n l else [])
        \<and> (\<forall>j < m. spawned' l j \<longrightarrow> (\<exists>p. actors x ! j = Some p \<and> Address p = engine_address l))" if l: "l < n" for l
  proof (cases "l = i")
    case True
    then show ?thesis using assms(2,4-6,8) assms(1) by (simp add: laid_out_def)
  next
    case False
    then obtain x where "engines b ! l = Some x" "engine_ready l (engine_of x)" "length (actors x) = m" "targetEngines x = (if l < k then others n l else [])"
      "\<forall>j < m. spawned l j \<longrightarrow> (\<exists>p. actors x ! j = Some p \<and> Address p = engine_address l)" using assms(1) l by (auto simp: laid_out_def)
    then show ?thesis using False assms(7) [OF l False] assms(9) [OF False] by simp
  qed
  then show ?thesis using assms(1) by (simp add: laid_out_def)
qed

lemma set_targets_laid_out:
  assumes "laid_out n m 0 spawned b" "each_upto (set_targets (engineCount b)) n b = Inr b1"
  shows "laid_out n m n spawned b1"
proof -
  have "laid_out n m n spawned b1 \<and> engineCount b1 = engineCount b"
  proof (rule each_upto_inv [OF assms(2), of "\<lambda>k t. laid_out n m k spawned t \<and> engineCount t = engineCount b"])
    show "laid_out n m 0 spawned b \<and> engineCount b = engineCount b" using assms(1) by simp
  next
    fix k t u assume k: "k < n" "laid_out n m k spawned t \<and> engineCount t = engineCount b" "set_targets (engineCount b) k t = Inr u"
    obtain en where en: "engines t ! k = Some en" "engine_ready k (engine_of en)" "length (actors en) = m" "targetEngines en = []"
      "\<forall>j < m. spawned k j \<longrightarrow> (\<exists>p. actors en ! j = Some p \<and> Address p = engine_address k)" using k(1,2) by (auto simp: laid_out_def)
    have n: "nat (engineCount b) = n" using assms(1) by (simp add: laid_out_def)
    have u: "u = t\<lparr>engines := (engines t)[k := Some (en\<lparr>targetEngines := others n k\<rparr>)]\<rparr>"
      using k(3) en(1,4) by (simp add: set_targets_def fold_others others_def n)
    have "laid_out n m (Suc k) spawned u" unfolding u
      by (rule laid_out_update [OF conjunct1 [OF k(2)] k(1) en(1)]) (use en in auto)
    then show "laid_out n m (Suc k) spawned u \<and> engineCount u = engineCount b" using k(2) u by simp
  qed
  then show ?thesis by simp
qed

lemma spawnActors_laid_out:
  assumes "laid_out n m n (\<lambda>_ _. False) b" "spawnActors random b = Inr b1"
  shows "laid_out n m n (\<lambda>_ _. True) b1"
proof -
  have nm: "nat (engineCount b) = n" using assms(1) by (simp add: laid_out_def)
  have step: "laid_out n m n (\<lambda>l j. l < i \<or> l = i \<and> j < Suc k) u"
    if h: "i < n" "k < m" "laid_out n m n (\<lambda>l j. l < i \<or> l = i \<and> j < k) t" "spawn_actor random i k t = Inr u" for i k t u
  proof -
    obtain en where en: "engines t ! i = Some en" "engine_ready i (engine_of en)" "length (actors en) = m" "targetEngines en = others n i"
      "\<forall>j < m. j < k \<longrightarrow> (\<exists>p. actors en ! j = Some p \<and> Address p = engine_address i)" using h(1,3) by (auto simp: laid_out_def)
    obtain q r e1 where s: "Spawn (''engine-'' @ Itoa (int i) @ ''-actor-'' @ Itoa (int k)) [] (random i k) plain_opts (engine_of en) = (q, r, e1)"
      by (metis prod_cases3)
    note r = Spawn_ready [OF en(2) s]
    have u: "u = t\<lparr>engines := (engines t)[i := Some (en\<lparr>actors := (actors en)[k := Some q], engine_of := e1\<rparr>)]\<rparr>"
      using h(4) en(1) s r by (simp add: spawn_actor_def)
    show ?thesis unfolding u
      by (rule laid_out_update [OF h(3,1) en(1)]) (use en r h(1,2) in \<open>auto simp: nth_list_update less_Suc_eq\<close>)
  qed
  have "laid_out n m n (\<lambda>l j. l < n) b1"
  proof (rule each_upto_inv [OF assms(2) [unfolded spawnActors_def nm], of "\<lambda>i t. laid_out n m n (\<lambda>l j. l < i) t"])
    show "laid_out n m n (\<lambda>l j. l < 0) b" using assms(1) by simp
  next
    fix i t u assume i: "i < n" "laid_out n m n (\<lambda>l j. l < i) t" "each_upto (spawn_actor random i) (nat (actorsPerEngine t)) t = Inr u"
    have m: "nat (actorsPerEngine t) = m" using i(2) by (simp add: laid_out_def)
    have "laid_out n m n (\<lambda>l j. l < i \<or> l = i \<and> j < m) u"
      by (rule each_upto_inv [OF i(3) [unfolded m], of "\<lambda>k t. laid_out n m n (\<lambda>l j. l < i \<or> l = i \<and> j < k) t"]) (use i step in auto)
    then show "laid_out n m n (\<lambda>l j. l < Suc i) u" by (auto simp: laid_out_def less_Suc_eq)
  qed
  then show ?thesis by (auto simp: laid_out_def)
qed

subsection \<open>Sending\<close>

lemma engine_address_inj [simp]: "engine_address i = engine_address j \<longleftrightarrow> i = j"
  using digits_inj [of 10 "4000 + i" "4000 + j"] by (auto simp: engine_address_def Itoa_def nat_add_distrib)

definition bench_ready :: "nat \<Rightarrow> nat \<Rightarrow> benchmark \<Rightarrow> bool" where
  "bench_ready n m b \<longleftrightarrow> laid_out n m n (\<lambda>_ _. True) b"

lemma bench_set_up:
  assumes "newBenchmark n m sn = Inr b0" "spawnEngines net rr random seq b0 = Inr b1" "spawnActors random' b1 = Inr b2"
  shows "bench_ready (nat n) (nat m) b2"
proof -
  have b0: "engineCount b0 = n" "actorsPerEngine b0 = m" "length (engines b0) = nat n" using assms(1) by (auto simp: newBenchmark_def go_make_def split: if_splits)
  obtain b where b: "each_upto (spawn_engine net rr random seq) (nat (engineCount b0)) b0 = Inr b"
    "each_upto (set_targets (engineCount b)) (nat (engineCount b)) b = Inr b1"
    using assms(2) by (auto simp: spawnEngines_def split: sum.splits)
  have l: "laid_out (nat n) (nat m) 0 (\<lambda>_ _. False) b" using spawn_engines_laid_out [OF _ b(1)] b0 by simp
  then have "nat (engineCount b) = nat n" by (simp add: laid_out_def)
  then have "laid_out (nat n) (nat m) (nat n) (\<lambda>_ _. False) b1" using set_targets_laid_out [OF l] b(2) by simp
  then show ?thesis using spawnActors_laid_out assms(3) by (simp add: bench_ready_def)
qed

lemma others_nonempty:
  assumes "i < n" "2 \<le> n"
  shows "others n i \<noteq> []"
proof -
  have "(if i = 0 then 1 else 0) \<in> set (others n i)" using assms by (auto simp: others_def)
  then show ?thesis by force
qed

lemma Intn_ok: "0 < n \<Longrightarrow> \<exists>k < n. Intn r n = Inr k"
  by (simp add: Intn_def)

lemma round_sends:
  assumes "bench_ready n m b" "2 \<le> n" "1 \<le> m"
  shows "\<exists>i j en q rm. i < n \<and> j < n \<and> i \<noteq> j \<and> engines b ! i = Some en \<and> e_remote (engine_of en) = Some rm \<and> Address q = engine_address j
    \<and> send_round (r1, r2, r3) (b, ctr) = Inr (b\<lparr>engines := (engines b)[i := Some (en\<lparr>engine_of := (engine_of en)\<lparr>e_remote :=
        Some (rm\<lparr>rem_sent := rem_sent rm @ [(q, User (Payload BMessage), None)]\<rparr>)\<rparr>\<rparr>)]\<rparr>, ctr\<lparr>sendCount := sendCount ctr + 1\<rparr>)"
proof -
  have l: "length (engines b) = n" using assms(1) by (simp add: bench_ready_def laid_out_def)
  obtain i where i: "i < n" "randomEngine r1 b = Inr i" using Intn_ok [of n r1] assms(2) by (auto simp: randomEngine_def l)
  obtain en where en: "engines b ! i = Some en" "engine_ready i (engine_of en)" "targetEngines en = others n i"
    using assms(1) i(1) by (auto simp: bench_ready_def laid_out_def)
  obtain k where k: "k < length (others n i)" "Intn r2 (length (others n i)) = Inr k"
    using Intn_ok [of "length (others n i)" r2] others_nonempty [OF i(1) assms(2)] by auto
  define j where "j = others n i ! k"
  have "j \<in> set (others n i)" using k(1) by (simp add: j_def)
  then have j: "j < n" "i \<noteq> j" by (auto simp: others_def)
  have t: "randomTargetEngine r2 en = Inr j" using k(2) en(3) by (simp add: randomTargetEngine_def j_def)
  obtain ten where ten: "engines b ! j = Some ten" "length (actors ten) = m" "\<forall>x < m. \<exists>p. actors ten ! x = Some p \<and> Address p = engine_address j"
    using assms(1) j(1) by (auto simp: bench_ready_def laid_out_def)
  obtain x where x: "x < m" "Intn r3 m = Inr x" using Intn_ok [of m r3] assms(3) by auto
  obtain q where q: "actors ten ! x = Some q" "Address q = engine_address j" using ten(3) x(1) by blast
  have a: "randomActor r3 ten = Inr (Some q)" using x(2) ten(2) q(1) by (simp add: randomActor_def)
  obtain es h rm where e: "stream_ok es h (engine_of en)" "e_address (engine_of en) = engine_address i" "e_remote (engine_of en) = Some rm"
    using en(2) by (auto simp: engine_ready_def)
  have "a_Send (Some q) (User (Payload BMessage)) None (engine_of en) = (Inr (), (engine_of en)\<lparr>e_remote := Some (rm\<lparr>rem_sent := rem_sent rm @ [(q, User (Payload BMessage), None)]\<rparr>)\<rparr>)"
    using SendWithSender_arrives [OF e(1), of "Some q" "User (Payload BMessage)" None] e(2,3) q(2) j(2) by (simp add: a_Send_def route_def arrive_def)
  then show ?thesis
    using i j en(1) t ten(1) a q(2) e(3)
    by (intro exI [of _ i] exI [of _ j] exI [of _ en] exI [of _ q] exI [of _ rm]) (simp add: send_round_def)
qed

lemma round_ready:
  assumes "bench_ready n m b" "2 \<le> n" "1 \<le> m" "send_round rs (b, ctr) = Inr (b', ctr')"
  shows "bench_ready n m b'"
proof -
  obtain r1 r2 r3 where rs: "rs = (r1, r2, r3)" by (metis prod_cases3)
  obtain i en rm where r: "i < n" "engines b ! i = Some en" "e_remote (engine_of en) = Some rm"
    "\<exists>x. b' = b\<lparr>engines := (engines b)[i := Some (en\<lparr>engine_of := (engine_of en)\<lparr>e_remote := Some x\<rparr>\<rparr>)]\<rparr>"
    using round_sends [OF assms(1-3), of r1 r2 r3 ctr] assms(4) rs by fastforce
  have en: "engine_ready i (engine_of en)" "length (actors en) = m" "targetEngines en = others n i"
    "\<forall>j < m. \<exists>p. actors en ! j = Some p \<and> Address p = engine_address i"
    using assms(1) r(1,2) by (auto simp: bench_ready_def laid_out_def)
  have "engine_ready i ((engine_of en)\<lparr>e_remote := Some x\<rparr>)" for x using en(1) by (auto simp: engine_ready_def eng_inv_def stream_ok_def)
  then have "laid_out n m n (\<lambda>_ _. True) (b\<lparr>engines := (engines b)[i := Some (en\<lparr>engine_of := (engine_of en)\<lparr>e_remote := Some x\<rparr>\<rparr>)]\<rparr>)" for x
    by (intro laid_out_update [OF assms(1) [unfolded bench_ready_def] r(1,2)]) (use en r(1) in auto)
  then show ?thesis using r(4) by (auto simp: bench_ready_def)
qed

definition wire_total :: "benchmark \<Rightarrow> nat" where
  "wire_total b = sum_list (map (\<lambda>x. case x of None \<Rightarrow> 0 | Some en \<Rightarrow>
     (case e_remote (engine_of en) of None \<Rightarrow> 0 | Some rm \<Rightarrow> length (rem_sent rm))) (engines b))"

lemma storm_sends:
  assumes "bench_ready n m b2" "2 \<le> n" "1 \<le> m"
  shows "\<exists>b' ctr'. storm rss (b2, ctr) = Inr (b', ctr') \<and> ctr' = ctr\<lparr>sendCount := sendCount ctr + of_nat (length rss)\<rparr>
    \<and> wire_total b' = wire_total b2 + length rss"
  using assms(1)
proof (induction rss arbitrary: b2 ctr)
  case (Cons rs rss)
  obtain r1 r2 r3 where rs: "rs = (r1, r2, r3)" by (metis prod_cases3)
  obtain i en q rm where r: "i < n" "engines b2 ! i = Some en" "e_remote (engine_of en) = Some rm"
    "send_round rs (b2, ctr) = Inr (b2\<lparr>engines := (engines b2)[i := Some (en\<lparr>engine_of := (engine_of en)\<lparr>e_remote :=
      Some (rm\<lparr>rem_sent := rem_sent rm @ [(q, User (Payload BMessage), None)]\<rparr>)\<rparr>\<rparr>)]\<rparr>, ctr\<lparr>sendCount := sendCount ctr + 1\<rparr>)"
    using round_sends [OF Cons.prems(1) assms(2,3), of r1 r2 r3 ctr] rs by blast
  let ?b = "b2\<lparr>engines := (engines b2)[i := Some (en\<lparr>engine_of := (engine_of en)\<lparr>e_remote :=
      Some (rm\<lparr>rem_sent := rem_sent rm @ [(q, User (Payload BMessage), None)]\<rparr>)\<rparr>\<rparr>)]\<rparr>"
  have l: "i < length (engines b2)" using Cons.prems(1) r(1) by (simp add: bench_ready_def laid_out_def)
  have w: "wire_total ?b = Suc (wire_total b2)"
    using l r(2,3) elem_le_sum_list [of i "map (\<lambda>x. case x of None \<Rightarrow> 0 | Some en \<Rightarrow>
      (case e_remote (engine_of en) of None \<Rightarrow> 0 | Some rm \<Rightarrow> length (rem_sent rm))) (engines b2)"]
    by (simp add: wire_total_def map_update sum_list_update)
  from Cons.IH [OF round_ready [OF Cons.prems(1) assms(2,3) r(4)], of "ctr\<lparr>sendCount := sendCount ctr + 1\<rparr>"] r(4) w
  show ?case by auto
qed simp

text \<open>
  The benchmark measures what it means to. Whenever the engines and actors could be set up,
  with at least two engines and one actor each, no round of a sender fails: it hands one message
  for an actor of another engine to the remote of the sending engine, so that after any number
  of rounds, however the senders interleave, the remotes have been handed as many messages as
  \<open>sendCount\<close> says.
\<close>

theorem bench_storm:
  assumes "newBenchmark n m sn = Inr b0" "spawnEngines net rr random seq b0 = Inr b1" "spawnActors random' b1 = Inr b2"
    "2 \<le> n" "1 \<le> m"
  shows "\<exists>b' ctr'. storm rss (b2, ctr) = Inr (b', ctr') \<and> sendCount ctr' = sendCount ctr + of_nat (length rss)
    \<and> wire_total b' = wire_total b2 + length rss"
proof -
  have "bench_ready (nat n) (nat m) b2" by (rule bench_set_up [OF assms(1-3)])
  moreover have "2 \<le> nat n" "1 \<le> nat m" using assms(4,5) by auto
  ultimately show ?thesis using storm_sends [of "nat n" "nat m" b2 rss ctr] by fastforce
qed

lemma spawn_senders:
  "spawn_engine net rr random seq k t = Inr u \<Longrightarrow> senders u = senders t"
  "set_targets c k t = Inr u \<Longrightarrow> senders u = senders t"
  "spawn_actor random' i k t = Inr u \<Longrightarrow> senders u = senders t"
  by (auto simp: spawn_engine_def set_targets_def spawn_actor_def split: option.splits sum.splits prod.splits send_out.splits)

lemma each_upto_senders:
  "each_upto f n t = Inr u \<Longrightarrow> (\<And>k t u. f k t = Inr u \<Longrightarrow> senders u = senders t) \<Longrightarrow> senders u = senders t"
  by (rule each_upto_inv [of f n t u "\<lambda>_ v. senders v = senders t"]) simp_all

lemma set_up_senders:
  assumes "newBenchmark n m sn = Inr b0" "spawnEngines net rr random seq b0 = Inr b1" "spawnActors random' b1 = Inr b2"
  shows "senders b2 = sn"
proof -
  have "senders b0 = sn" using assms(1) by (auto simp: newBenchmark_def go_make_def split: if_splits)
  moreover have "senders b1 = senders b0"
    using assms(2) spawn_senders(1,2) by (auto simp: spawnEngines_def split: sum.splits dest!: each_upto_senders)
  moreover have "senders b2 = senders b1"
    using assms(3) unfolding spawnActors_def by (rule each_upto_senders) (erule each_upto_senders, rule spawn_senders(3))
  ultimately show ?thesis by simp
qed

lemma each_upto_total:
  assumes "I 0 s" "\<And>k t. k < n \<Longrightarrow> I k t \<Longrightarrow> \<exists>u. f k t = Inr u \<and> I (Suc k) u"
  shows "\<exists>u. each_upto f n s = Inr u \<and> I n u"
  using assms
proof (induction n)
  case (Suc n)
  then obtain t where "each_upto f n s = Inr t" "I n t" by fastforce
  then show ?case using Suc.prems(2) [of n t] by auto
qed simp

lemma each_upto_fails:
  assumes "I 0 s" "k < n" "\<And>j t. j < k \<Longrightarrow> I j t \<Longrightarrow> \<exists>u. f j t = Inr u \<and> I (Suc j) u" "\<And>t. I k t \<Longrightarrow> f k t = Inl x"
  shows "each_upto f n s = Inl x"
proof -
  obtain t where t: "each_upto f k s = Inr t" "I k t" using each_upto_total [of I s k f] assms(1,3) by blast
  have "each_upto f (Suc k) s = Inl x" using t assms(4) by simp
  moreover have "each_upto f m s = Inl x \<Longrightarrow> each_upto f (m + l) s = Inl x" for m l by (induction l) simp_all
  ultimately show ?thesis using assms(2) by (metis Suc_le_eq le_Suc_ex)
qed

text \<open>The engine \<open>i\<close> can be created if and only if its remote can listen and register.\<close>

definition listens :: "unit listeners \<Rightarrow> nat \<Rightarrow> bool" where
  "listens net i \<longleftrightarrow> net_Listen net (engine_address i) \<and> drpc_Register net"

lemma new_engine_iff: "(\<exists>e. new_engine net rr random seq i = Some e) \<longleftrightarrow> listens net i"
  by (auto simp: new_engine_def listens_def NewEngine_def WithRemote_def NewEngineConfig_def Let_def remote_started_def remote_Start_def
      remote_New_def remote_NewConfig_def split: prod.split)

lemma spawn_engine_ok:
  assumes "listens net k" "0 \<le> actorsPerEngine t"
  shows "\<exists>u. spawn_engine net rr random seq k t = Inr u \<and> actorsPerEngine u = actorsPerEngine t"
proof -
  obtain e where "new_engine net rr random seq k = Some e" using assms(1) new_engine_iff by blast
  then show ?thesis using assms(2) by (auto simp: spawn_engine_def split: prod.split)
qed

lemma spawn_engine_refused:
  assumes "\<not> listens net k"
  shows "spawn_engine net rr random seq k t = Inl (BError ''failed to create engine'')"
proof -
  have "new_engine net rr random seq k = None" using assms new_engine_iff by (metis not_Some_eq)
  then show ?thesis by (simp add: spawn_engine_def)
qed

lemma spawn_engine_panics:
  assumes "listens net k" "actorsPerEngine t < 0"
  shows "spawn_engine net rr random seq k t = Inl (BPanic MakeSlice)"
proof -
  obtain e where "new_engine net rr random seq k = Some e" using assms(1) new_engine_iff by blast
  then show ?thesis using assms(2) by (simp add: spawn_engine_def go_make_def)
qed

text \<open>How the engines' set-up fails.\<close>

lemma spawnEngines_fails:
  assumes "newBenchmark n m sn = Inr b0" "1 \<le> n"
  shows "\<not> listens net 0 \<Longrightarrow> spawnEngines net rr random seq b0 = Inl (BError ''failed to create engine'')"
    and "listens net 0 \<Longrightarrow> m < 0 \<Longrightarrow> spawnEngines net rr random seq b0 = Inl (BPanic MakeSlice)"
    and "0 \<le> m \<Longrightarrow> i < nat n \<Longrightarrow> \<not> listens net i \<Longrightarrow> spawnEngines net rr random seq b0 = Inl (BError ''failed to create engine'')"
proof -
  have b0: "engineCount b0 = n" "actorsPerEngine b0 = m" using assms(1) by (auto simp: newBenchmark_def go_make_def split: if_splits)
  have n: "0 < nat n" using assms(2) by simp
  let ?f = "spawn_engine net rr random seq" and ?I = "\<lambda>(_ :: nat) t. actorsPerEngine t = m"
  show "spawnEngines net rr random seq b0 = Inl (BError ''failed to create engine'')" if "\<not> listens net 0"
    using each_upto_fails [of ?I b0 0 "nat n" ?f] b0 n spawn_engine_refused that by (simp add: spawnEngines_def)
  show "spawnEngines net rr random seq b0 = Inl (BPanic MakeSlice)" if "listens net 0" "m < 0"
    using each_upto_fails [of ?I b0 0 "nat n" ?f] b0 n spawn_engine_panics that by (simp add: spawnEngines_def)
  show "spawnEngines net rr random seq b0 = Inl (BError ''failed to create engine'')" if m: "0 \<le> m" and i: "i < nat n" "\<not> listens net i"
  proof -
    define k where "k = (LEAST k. \<not> listens net k)"
    have k: "\<not> listens net k" "k \<le> i" "\<And>j. j < k \<Longrightarrow> listens net j"
      unfolding k_def using i(2) by (rule LeastI, rule Least_le) (use not_less_Least in blast)
    have "each_upto ?f (nat n) b0 = Inl (BError ''failed to create engine'')"
      by (rule each_upto_fails [of ?I b0 k]) (use b0 k i m spawn_engine_ok spawn_engine_refused in auto)
    then show ?thesis by (simp add: spawnEngines_def b0)
  qed
qed

lemma set_up_succeeds:
  assumes "0 \<le> n" "0 \<le> m" "\<forall>i < nat n. listens net i"
  obtains b0 b1 b2 where "newBenchmark n m sn = Inr b0" "spawnEngines net rr random seq b0 = Inr b1" "spawnActors random' b1 = Inr b2"
proof -
  define b0 where "b0 = \<lparr>engineCount = n, actorsPerEngine = m, senders = sn, engines = replicate (nat n) None\<rparr>"
  have 0: "newBenchmark n m sn = Inr b0" using assms(1) by (simp add: newBenchmark_def b0_def)
  have "\<exists>t. each_upto (spawn_engine net rr random seq) (nat n) b0 = Inr t \<and> actorsPerEngine t = m"
    by (rule each_upto_total) (use assms spawn_engine_ok in \<open>auto simp: b0_def\<close>)
  then obtain t where t: "each_upto (spawn_engine net rr random seq) (nat n) b0 = Inr t" by blast
  have lt: "laid_out (nat n) (nat m) 0 (\<lambda>_ _. False) t"
    using spawn_engines_laid_out [of b0 net rr random seq t] t by (simp add: b0_def)
  have "\<exists>u. each_upto (set_targets (engineCount t)) (nat n) t = Inr u \<and> (\<forall>i < nat n. engines u ! i \<noteq> None) \<and> length (engines u) = nat n"
  proof (rule each_upto_total [where I = "\<lambda>_ u. (\<forall>i < nat n. engines u ! i \<noteq> None) \<and> length (engines u) = nat n"])
    show "(\<forall>i < nat n. engines t ! i \<noteq> None) \<and> length (engines t) = nat n" using lt by (fastforce simp: laid_out_def)
  next
    fix k and u :: benchmark assume k: "k < nat n" "(\<forall>i < nat n. engines u ! i \<noteq> None) \<and> length (engines u) = nat n"
    then obtain en where "engines u ! k = Some en" by blast
    then show "\<exists>v. set_targets (engineCount t) k u = Inr v \<and> (\<forall>i < nat n. engines v ! i \<noteq> None) \<and> length (engines v) = nat n"
      using k by (auto simp: set_targets_def nth_list_update)
  qed
  then obtain b1 where b1: "each_upto (set_targets (engineCount t)) (nat n) t = Inr b1" by blast
  have tn: "nat (engineCount t) = nat n" using lt by (simp add: laid_out_def)
  then have 1: "spawnEngines net rr random seq b0 = Inr b1" using t b1 by (simp add: spawnEngines_def b0_def)
  have l1: "laid_out (nat n) (nat m) (nat n) (\<lambda>_ _. False) b1" by (rule set_targets_laid_out [OF lt b1])
  have inner: "\<exists>v. spawn_actor random' i j u = Inr v \<and> laid_out (nat n) (nat m) (nat n) (\<lambda>_ _. False) v"
    if h: "i < nat n" "laid_out (nat n) (nat m) (nat n) (\<lambda>_ _. False) u" for i j u
  proof -
    obtain en where en: "engines u ! i = Some en" "engine_ready i (engine_of en)" "length (actors en) = nat m" "targetEngines en = others (nat n) i"
      using h by (auto simp: laid_out_def)
    obtain q r e1 where s: "Spawn (''engine-'' @ Itoa (int i) @ ''-actor-'' @ Itoa (int j)) [] (random' i j) plain_opts (engine_of en) = (q, r, e1)"
      by (metis prod_cases3)
    note r = Spawn_ready [OF en(2) s]
    have "laid_out (nat n) (nat m) (nat n) (\<lambda>_ _. False) (u\<lparr>engines := (engines u)[i := Some (en\<lparr>actors := (actors en)[j := Some q], engine_of := e1\<rparr>)]\<rparr>)"
      by (rule laid_out_update [OF h(2,1) en(1)]) (use en r h(1) in auto)
    then show ?thesis using en(1) s r by (simp add: spawn_actor_def)
  qed
  have "\<exists>u. spawnActors random' b1 = Inr u \<and> laid_out (nat n) (nat m) (nat n) (\<lambda>_ _. False) u"
    unfolding spawnActors_def
  proof (rule each_upto_total [where I = "\<lambda>_. laid_out (nat n) (nat m) (nat n) (\<lambda>_ _. False)", OF l1])
    fix k u assume k: "k < nat (engineCount b1)" "laid_out (nat n) (nat m) (nat n) (\<lambda>_ _. False) u"
    have "k < nat n" using k(1) l1 by (simp add: laid_out_def)
    then show "\<exists>v. each_upto (spawn_actor random' k) (nat (actorsPerEngine u)) u = Inr v \<and> laid_out (nat n) (nat m) (nat n) (\<lambda>_ _. False) v"
      using inner by (intro each_upto_total [where I = "\<lambda>_. laid_out (nat n) (nat m) (nat n) (\<lambda>_ _. False)", OF k(2)]) blast
  qed
  then show ?thesis using that 0 1 by blast
qed


text \<open>
  With one engine there is no target, and with no actors there is none to send to; \<open>benchmark\<close> accepts
  both, and then the first round of a sender panics in \<open>rand.Intn\<close>.
\<close>

theorem bench_no_target_panics:
  assumes "newBenchmark n m sn = Inr b0" "spawnEngines net rr random seq b0 = Inr b1" "spawnActors random' b1 = Inr b2"
    "n = 1 \<or> 1 \<le> n \<and> m = 0"
  shows "send_round rs (b2, ctr) = Inl IntnPanic"
proof -
  obtain r1 r2 r3 where rs: "rs = (r1, r2, r3)" by (metis prod_cases3)
  have r: "laid_out (nat n) (nat m) (nat n) (\<lambda>_ _. True) b2" using bench_set_up [OF assms(1-3)] by (simp add: bench_ready_def)
  then have l: "length (engines b2) = nat n" by (simp add: laid_out_def)
  obtain i where i: "i < nat n" "randomEngine r1 b2 = Inr i" using Intn_ok [of "nat n" r1] assms(4) by (auto simp: randomEngine_def l)
  obtain en where en: "engines b2 ! i = Some en" "targetEngines en = others (nat n) i" using r i(1) by (auto simp: laid_out_def)
  show ?thesis
  proof (cases "others (nat n) i = []")
    case True
    then show ?thesis using i en by (simp add: rs send_round_def randomTargetEngine_def Intn_def)
  next
    case False
    then obtain k where k: "k < length (others (nat n) i)" "Intn r2 (length (others (nat n) i)) = Inr k"
      using Intn_ok [of "length (others (nat n) i)" r2] by auto
    then have "others (nat n) i ! k \<in> set (others (nat n) i)" by simp
    then have j: "others (nat n) i ! k < nat n" "others (nat n) i ! k \<noteq> i" by (auto simp: others_def)
    then have m: "m = 0" using assms(4) i(1) by auto
    obtain ten where ten: "engines b2 ! (others (nat n) i ! k) = Some ten" "actors ten = []" using r j(1) m by (auto simp: laid_out_def)
    then show ?thesis using i en k by (simp add: rs send_round_def randomTargetEngine_def randomActor_def Intn_def)
  qed
qed

lemma bench_duration_exact:
  assumes "\<bar>d\<bar> \<le> 9223372036"
  shows "sint (bench_duration d) = d * 10 ^ 9" "whole_seconds (sint (bench_duration d)) = d"
proof -
  have w: "sint (of_int k :: 64 word) = k" if "- (2 ^ 63) \<le> k" "k < 2 ^ 63" for k
    using that by (simp add: signed_of_int signed_take_bit_int_eq_self)
  have "bench_duration d = of_int (d * 10 ^ 9)" by (simp add: bench_duration_def mult.commute)
  then show "sint (bench_duration d) = d * 10 ^ 9" using w [of "d * 10 ^ 9"] assms by (simp add: abs_le_iff)
  then show "whole_seconds (sint (bench_duration d)) = d" using whole_seconds_exact [of d] assms by simp
qed

lemma storm_outcome:
  assumes "newBenchmark es as sn = Inr b0" "spawnEngines net rr random seq b0 = Inr b1" "spawnActors random' b1 = Inr b2" "1 \<le> es" "0 \<le> as"
  shows "rss \<noteq> [] \<and> (es = 1 \<or> as = 0) \<Longrightarrow> storm rss (b2, bench_init) = Inl IntnPanic"
    and "\<not> (rss \<noteq> [] \<and> (es = 1 \<or> as = 0)) \<Longrightarrow> \<exists>b'. storm rss (b2, bench_init) = Inr (b', bench_init\<lparr>sendCount := of_nat (length rss)\<rparr>)"
proof -
  show "storm rss (b2, bench_init) = Inl IntnPanic" if "rss \<noteq> [] \<and> (es = 1 \<or> as = 0)"
    using that bench_no_target_panics [OF assms(1-3)] assms(4) by (cases rss) auto
  show "\<exists>b'. storm rss (b2, bench_init) = Inr (b', bench_init\<lparr>sendCount := of_nat (length rss)\<rparr>)" if h: "\<not> (rss \<noteq> [] \<and> (es = 1 \<or> as = 0))"
  proof (cases "rss = []")
    case True
    then show ?thesis by (simp add: bench_init_def)
  next
    case False
    then have "2 \<le> nat es" "1 \<le> nat as" using h assms(4,5) by auto
    then show ?thesis using storm_sends [OF bench_set_up [OF assms(1-3)], of rss bench_init] by (auto simp: bench_init_def)
  qed
qed

text \<open>
  C33. The outcome of the benchmark, for every setting, every set of free ports, any rounds of the
  senders and any number of messages received. It refuses less than one engine and a single
  processor. It fails if an engine cannot listen, and panics on a negative number of actors or
  senders. If it makes a round with one engine or without actors it panics in \<open>rand.Intn\<close>, although
  it accepts such settings. Otherwise every round sends: with a number received that differs from
  the number of rounds (both modulo \<open>2 ^ 64\<close>) it reports both and exits with code 1; with an equal
  one it prints both counters and the number received by the whole seconds of the duration, and
  panics if these are 0. The duration is the setting if that is at most 9223372036 seconds, either
  sign; beyond, its nanoseconds wrap. In every case the program ends.
\<close>

theorem benchmark_outcome:
  assumes "es = envInt getenv ''BENCH_ENGINES'' 10" "as = envInt getenv ''BENCH_ACTORS_PER_ENGINE'' 2000"
    "sn = envInt getenv ''BENCH_SENDERS'' 20" "d = envInt getenv ''BENCH_DURATION'' 10"
    "made = rounds_made sn (bench_duration d) rss" "seconds = whole_seconds (sint (bench_duration d))"
    "res = benchmark_func getenv one_cpu net rr random seq random' rss received dead"
  shows "res =
    (if es < 1 then Inl (BError ''BENCH_ENGINES must be at least 1'')
     else if one_cpu then Inl (BError ''GOMAXPROCS must be greater than 1'')
     else if \<not> listens net 0 then Inl (BError ''failed to spawn engines: failed to create engine'')
     else if as < 0 then Inl (BPanic MakeSlice)
     else if \<exists>i < nat es. \<not> listens net i then Inl (BError ''failed to spawn engines: failed to create engine'')
     else if sn < 0 then Inl WaitGroupPanic
     else if made \<noteq> [] \<and> (es = 1 \<or> as = 0) then Inl IntnPanic
     else if of_nat (length made) \<noteq> received
       then Inl (BError (''failed to send messages: send count and receive count does not match: ''
         @ Itoa (sint (of_nat (length made) :: 64 word)) @ '' != '' @ Itoa (sint received)))
     else if seconds = 0 then Inl (BPanic DivideByZero)
     else Inr (\<lparr>receiveCount = received, sendCount = received, deadLetters = dead\<rparr>, of_int (sint received sdiv seconds)))
   \<and> (\<bar>d\<bar> \<le> 9223372036 \<longrightarrow> sint (bench_duration d) = d * 10 ^ 9 \<and> seconds = d)
   \<and> bench_main res \<noteq> None"
    (is "?eq \<and> ?sec \<and> ?ends")
proof -
  have ?eq
  proof (cases "es < 1 \<or> one_cpu")
    case True
    then show ?thesis using assms(1,7) by (auto simp: benchmark_func_def bench_settings_def Let_def)
  next
    case False
    then have e: "1 \<le> es" "\<not> one_cpu" by auto
    have st: "bench_settings getenv one_cpu = Inr (es, as, sn, bench_duration d)" using e assms(1-4) by (simp add: bench_settings_def Let_def)
    obtain b0 where b0: "newBenchmark es as sn = Inr b0" using e(1) by (simp add: newBenchmark_def)
    note fails = spawnEngines_fails [OF b0 e(1), where net = net]
    show ?thesis
    proof (cases "0 \<le> as \<and> (\<forall>i < nat es. listens net i)")
      case False
      then show ?thesis using e fails assms(7) b0 st by (auto simp: benchmark_func_def wrap_error_def not_le)
    next
      case True
      then obtain b1 b2 where b: "spawnEngines net rr random seq b0 = Inr b1" "spawnActors random' b1 = Inr b2"
        using b0 e(1) by (elim conjE) (rule set_up_succeeds [of es as net sn rr random seq random'], auto)
      have sn: "senders b2 = sn" by (rule set_up_senders [OF b0 b])
      have l: "listens net 0" using True e(1) by simp
      note so = storm_outcome [OF b0 b e(1) conjunct1 [OF True], of made]
      show ?thesis
      proof (cases "sn < 0 \<or> made \<noteq> [] \<and> (es = 1 \<or> as = 0)")
        case h: True
        then show ?thesis using e True l b0 b sn so(1) assms(5,7) st
          by (auto simp: benchmark_func_def sendMessages_def wrap_error_def)
      next
        case False
        then obtain b' where s: "storm made (b2, bench_init) = Inr (b', bench_init\<lparr>sendCount := of_nat (length made)\<rparr>)" using so(2) by blast
        show ?thesis using e True l b0 b sn s False assms(5,6,7) st
          by (auto simp: benchmark_func_def sendMessages_def counts_match_def messages_per_second_def wrap_error_def bench_init_def Let_def)
      qed
    qed
  qed
  moreover have ?ends using calculation by (auto simp: bench_main_def split: if_splits)
  moreover have ?sec using bench_duration_exact assms(6) by blast
  ultimately show ?thesis by blast
qed

text \<open>
  A setting of 18446744074 seconds is accepted, wraps to less than a third of a second, and ends in
  a division by zero.
\<close>

lemma bench_duration_wraps: "sint (bench_duration 18446744074) = 290448384"
  by (simp add: bench_duration_def)

lemma bench_wrapped_duration: "messages_per_second n (bench_duration 18446744074) = Inl DivideByZero"
  by (simp add: messages_per_second_def bench_duration_wraps whole_seconds_example)

subsection \<open>Witnesses\<close>

definition open_net :: "unit listeners" where
  "open_net = \<lparr>net_Listen = (\<lambda>_. True), tls_Listen = (\<lambda>_ _. True), drpc_Register = True\<rparr>"

lemma open_net_listens [simp]: "listens open_net i"
  by (simp add: listens_def open_net_def)

theorem bench_storm_witness:
  "\<exists>b2 b' ctr'. storm [(3, 1, 4), (1, 5, 9)] (b2, bench_init) = Inr (b', ctr') \<and> sendCount ctr' = 2 \<and> wire_total b' = wire_total b2 + 2"
proof -
  obtain b0 b1 b2 where b: "newBenchmark 2 3 20 = Inr b0" "spawnEngines open_net (\<lambda>_. 7) (\<lambda>_. 5) 0 b0 = Inr b1" "spawnActors (\<lambda>_ _. 5) b1 = Inr b2"
    using set_up_succeeds [of 2 3 open_net 20 "\<lambda>_. 7" "\<lambda>_. 5" 0 "\<lambda>_ _. 5"] by auto
  from bench_storm [OF b, of "[(3, 1, 4), (1, 5, 9)]" bench_init] show ?thesis by (force simp: bench_init_def)
qed

theorem benchmark_outcome_witness:
  "benchmark_func ((\<lambda>_. [])(''BENCH_ENGINES'' := ''2'', ''BENCH_DURATION'' := ''1'')) False open_net (\<lambda>_. 7) (\<lambda>_. 5) 0 (\<lambda>_ _. 5) [(3, 1, 4), (1, 5, 9)] 2 0
     = Inr (\<lparr>receiveCount = 2, sendCount = 2, deadLetters = 0\<rparr>, 2)"
proof -
  let ?env = "(\<lambda>_. [])(''BENCH_ENGINES'' := ''2'', ''BENCH_DURATION'' := ''1'')"
  have set: "envInt ?env ''BENCH_ENGINES'' 10 = 2" "envInt ?env ''BENCH_ACTORS_PER_ENGINE'' 2000 = 2000" "envInt ?env ''BENCH_SENDERS'' 20 = 20"
    "envInt ?env ''BENCH_DURATION'' 10 = 1" by (simp_all add: envInt_def Atoi_def digit_val_def)
  have made: "rounds_made 20 (bench_duration 1) [(3, 1, 4), (1, 5, 9)] = [(3, 1, 4), (1, 5, 9 :: nat)]" by (simp add: rounds_made_def bench_duration_exact)
  have one: "whole_seconds (sint (bench_duration 1)) = 1" by (rule bench_duration_exact) simp
  show ?thesis
    using benchmark_outcome [OF set [symmetric] made [symmetric] one [symmetric] refl,
      of False open_net "\<lambda>_. 7" "\<lambda>_. 5" 0 "\<lambda>_ _. 5" 2 0] by simp
qed

theorem bench_no_target_panics_witness: "\<exists>b2. send_round (3, 1, 4) (b2, bench_init) = Inl IntnPanic"
proof -
  obtain b0 b1 b2 where b: "newBenchmark 1 3 20 = Inr b0" "spawnEngines open_net (\<lambda>_. 7) (\<lambda>_. 5) 0 b0 = Inr b1" "spawnActors (\<lambda>_ _. 5) b1 = Inr b2"
    using set_up_succeeds [of 1 3 open_net 20 "\<lambda>_. 7" "\<lambda>_. 5" 0 "\<lambda>_ _. 5"] by auto
  from bench_no_target_panics [OF b] show ?thesis by blast
qed

end
