(* ===== verification/Acts.thy ===== *)
theory Acts
  imports Process
begin

section \<open>What a receiver did\<close>

text \<open>
  The receivers of the example programs that run on a process print, or call a package; each such
  step is an action in the trace of the process. The theory reads the actions off the trace.
\<close>

text \<open>What the receiver did, in order.\<close>

fun acts_in :: "('m, 'a) effect list \<Rightarrow> 'a list" where
  "acts_in [] = []"
| "acts_in (EAct (Act a) # es) = a # acts_in es"
| "acts_in (_ # es) = acts_in es"

lemma acts_in_append [simp]: "acts_in (xs @ ys) = acts_in xs @ acts_in ys"
  by (induction xs rule: acts_in.induct) auto

lemma acts_in_poison [simp]: "acts_in (map EPoisonWait ps) = []"
  by (induction ps) auto

lemma acts_in_cancel [simp]: "acts_in (cancel_effect c) = []"
  by (simp add: cancel_effect_def split: option.split)

definition acted :: "'a action list \<Rightarrow> 'a list" where
  "acted as = List.map_filter (\<lambda>x. case x of Act a \<Rightarrow> Some a | SpawnedChild _ \<Rightarrow> None) as"

lemma acts_in_map [simp]: "acts_in (map EAct as) = acted as"
proof (induction as)
  case (Cons a as)
  then show ?case by (cases a) (simp_all add: acted_def List.map_filter_def)
qed (simp add: acted_def List.map_filter_def)

lemma cleanup_ends:
  assumes "p_receive p \<lparr>cv_pid = p_pid p, cv_message = Stopped, cv_sender = p_sender p\<rparr> (p_user p) = (u, as, None)"
  shows "\<exists>p'. cleanup \<epsilon> cancel p = (Ret, p') \<and> acts_in (p_trace p') = acts_in (p_trace p) @ acted as
    \<and> p_receive p' = p_receive p \<and> (\<forall>k. cancel = Some k \<longrightarrow> last (p_trace p') = ECancel k)"
  using assms by (auto simp: cleanup_def call_receive_def emit_def broadcast_now_def cancel_effect_def Let_def split: option.split)

lemma cleanup_acts:
  assumes "p_receive p \<lparr>cv_pid = p_pid p, cv_message = Stopped, cv_sender = p_sender p\<rparr> (p_user p) = (u, as, None)"
  shows "\<exists>p'. cleanup \<epsilon> cancel p = (Ret, p') \<and> acts_in (p_trace p') = acts_in (p_trace p) @ acted as"
  using cleanup_ends [OF assms] by blast

lemma acted_simps [simp]: "acted [] = []" "acted (Act a # as) = a # acted as"
  by (simp_all add: acted_def List.map_filter_simps)

text \<open>A runtime whose stack traces do not parse, for examples.\<close>

definition example_process_env :: env where
  "example_process_env = \<lparr>children_order = (\<lambda>_. []), child_detaches = (\<lambda>_. True), debug_Stack = (\<lambda>_. []), stack_Parse = (\<lambda>_. None)\<rparr>"

end
