(* ===== verification/Middlewares.thy ===== *)
theory Middlewares
  imports Acts
begin

section \<open>Middleware and restarts (examples/middleware/hooks, metrics, restarts, childprocs)\<close>

text \<open>
  Small programs that run on the process of theory \<open>Process\<close>. \<open>WithHooks\<close> calls a method of the
  receiver before it sees a lifecycle message; \<open>WithMetrics\<close> counts the calls of the receiver and
  measures them; the other two have a receiver that panics, on a message and when it starts. What
  they print is an action
  of the receiver. The counters of the package prometheus are numbers in the state of user code.
\<close>

subsection \<open>Hooks\<close>

text \<open>The interface \<open>Hooker\<close>; a receiver that does not implement it is \<open>None\<close>, and the assertion panics.\<close>

record ('u, 'm, 'a) hooker =
  OnInit :: "('u, 'm, 'a) receive_func"
  OnStart :: "('u, 'm, 'a) receive_func"
  OnStop :: "('u, 'm, 'a) receive_func"

definition call_hook :: "('u, 'm, 'a) hooker option \<Rightarrow> (('u, 'm, 'a) hooker \<Rightarrow> ('u, 'm, 'a) receive_func) \<Rightarrow> ('u, 'm, 'a) middleware_func" where
  "call_hook h method next c u =
     (case h of
        None \<Rightarrow> (u, [], Some (RuntimePanic TypeAssertion))
      | Some hk \<Rightarrow> (case method hk c u of
            (u1, as, None) \<Rightarrow> (case next c u1 of (u2, bs, r) \<Rightarrow> (u2, as @ bs, r))
          | r \<Rightarrow> r))"

definition WithHooks :: "('u, 'm, 'a) hooker option \<Rightarrow> ('u, 'm, 'a) middleware_func" where
  "WithHooks h next c u =
     (case cv_message c of
        Initialized \<Rightarrow> call_hook h OnInit next c u
      | Started \<Rightarrow> call_hook h OnStart next c u
      | Stopped \<Rightarrow> call_hook h OnStop next c u
      | _ \<Rightarrow> next c u)"

definition hook_foo_Receive :: "(unit, 'm, string) receive_func" where
  "hook_foo_Receive c u = (u, [], None)"

definition foo_hooker :: "(unit, 'm, string) hooker" where
  "foo_hooker = \<lparr>OnInit = (\<lambda>c u. (u, [Act ''foo initialized''], None)), OnStart = (\<lambda>c u. (u, [Act ''foo started''], None)),
     OnStop = (\<lambda>c u. (u, [Act ''foo stopped''], None))\<rparr>"

definition newFoo :: "unit \<Rightarrow> unit \<times> 'm panic_val option" where
  "newFoo u = ((), None)"

abbreviation hooked :: "(unit, 'm, string) receive_func" where
  "hooked \<equiv> WithHooks (Some foo_hooker) hook_foo_Receive"

lemma hooked_calls:
  "cv_message c = Initialized \<Longrightarrow> hooked c u = (u, [Act ''foo initialized''], None)"
  "cv_message c = Started \<Longrightarrow> hooked c u = (u, [Act ''foo started''], None)"
  "cv_message c = Stopped \<Longrightarrow> hooked c u = (u, [Act ''foo stopped''], None)"
  "cv_message c = User x \<Longrightarrow> hooked c u = (u, [], None)"
  by (simp_all add: WithHooks_def call_hook_def foo_hooker_def hook_foo_Receive_def)

lemma hooked_messages:
  assumes "list_all (\<lambda>m. \<exists>x. Msg m = User x) ms" "p_receive q = hooked"
  shows "\<exists>p2. invokeMsgs ms q = (Ret, p2) \<and> p_receive p2 = hooked \<and> acts_in (p_trace p2) = acts_in (p_trace q)
    \<and> delivered_in (p_trace p2) = delivered_in (p_trace q) @ ms"
  using assms
proof (induction ms arbitrary: q)
  case (Cons m ms)
  then obtain x where x: "Msg m = User x" by auto
  let ?q = "emit [EDeliver (Msg m) (Sender m)] (q\<lparr>p_message := Msg m, p_sender := Sender m, p_user := ()\<rparr>)"
  have i: "invokeMsg m q = (Ret, ?q)" using x Cons.prems(2) by (simp add: invokeMsg_def call_receive_def hooked_calls)
  show ?case using Cons.IH [of ?q] Cons.prems by (auto simp: i emit_def)
qed simp

text \<open>
  Hooks run in order and once each. Started with the middleware, the receiver's process calls
  \<open>OnInit\<close> and then \<open>OnStart\<close>; its messages trigger no hook; when it is cleaned up it calls
  \<open>OnStop\<close>.
\<close>

theorem hooks_in_order:
  fixes p :: "(unit, 'm, string) process"
  assumes "Producer (p_opts p) = newFoo" "Receive (p_opts p) = hook_foo_Receive" "Middleware (p_opts p) = [WithHooks (Some foo_hooker)]"
    "p_mbuffer p = []" "p_trace p = []" "list_all (\<lambda>m. \<exists>x. Msg m = User x) ms"
  shows "\<exists>p1 p2 p3. proc_Start \<epsilon> (Suc f) p = (Ret, p1) \<and> invokeMsgs ms p1 = (Ret, p2) \<and> cleanup \<epsilon> cancel p2 = (Ret, p3)
    \<and> delivered_in (p_trace p2) = ms \<and> acts_in (p_trace p3) = [''foo initialized'', ''foo started'', ''foo stopped'']"
proof -
  obtain p1 where p1: "proc_Start \<epsilon> (Suc f) p = (Ret, p1)" "p_receive p1 = hooked"
    "acts_in (p_trace p1) = [''foo initialized'', ''foo started'']" "delivered_in (p_trace p1) = []"
    using assms(1-5)
    by (auto simp: newFoo_def applyMiddleware_foldr start_hooks_def call_receive_def hooked_calls emit_def broadcast_now_def inbox_start_def)
  obtain p2 where p2: "invokeMsgs ms p1 = (Ret, p2)" "p_receive p2 = hooked" "acts_in (p_trace p2) = acts_in (p_trace p1)" "delivered_in (p_trace p2) = ms"
    using hooked_messages [OF assms(6) p1(2)] p1(4) by auto
  have "\<exists>p3. cleanup \<epsilon> cancel p2 = (Ret, p3) \<and> acts_in (p_trace p3) = acts_in (p_trace p2) @ acted [Act ''foo stopped'']"
    by (rule cleanup_acts [where u = "()"]) (simp add: p2(2) hooked_calls)
  then show ?thesis using p1(1,3) p2 by auto
qed

text \<open>A receiver that is not a \<open>Hooker\<close> panics at its first message.\<close>

lemma not_a_hooker:
  "WithHooks None next_func c u = (if cv_message c \<in> {Initialized, Started, Stopped} then (u, [], Some (RuntimePanic TypeAssertion)) else next_func c u)"
  by (auto simp: WithHooks_def call_hook_def split: msg.split)

subsection \<open>Metrics\<close>

text \<open>The receiver's own state with the counter and the observations of its middleware.\<close>

record 'u metered =
  mt_user :: 'u
  msgCounter :: nat
  msgLatency :: "nat list"

text \<open>\<open>latency\<close> is the time \<open>next\<close> took, in seconds.\<close>

definition WithMetrics :: "('m ctx_view \<Rightarrow> nat) \<Rightarrow> ('u metered, 'm, 'a) middleware_func" where
  "WithMetrics latency next c u =
     (let u1 = u\<lparr>msgCounter := msgCounter u + 1\<rparr> in
      case next c u1 of
        (u2, as, None) \<Rightarrow> (u2\<lparr>msgLatency := msgLatency u2 @ [latency c]\<rparr>, as, None)
      | r \<Rightarrow> r)"

text \<open>A receiver that knows nothing of the metrics.\<close>

definition unaware :: "('u metered, 'm, 'a) receive_func \<Rightarrow> bool" where
  "unaware f \<longleftrightarrow> (\<forall>c u. msgCounter (fst (f c u)) = msgCounter u \<and> msgLatency (fst (f c u)) = msgLatency u)"

text \<open>A series of calls of the receiver, each ended by a return or a panic.\<close>

fun call_all :: "('u, 'm, 'a) receive_func \<Rightarrow> 'm ctx_view list \<Rightarrow> 'u \<Rightarrow> bool list \<times> 'u" where
  "call_all f [] u = ([], u)"
| "call_all f (c # cs) u = (case f c u of (u1, as, r) \<Rightarrow> (case call_all f cs u1 of (bs, u2) \<Rightarrow> ((r = None) # bs, u2)))"

text \<open>
  The counter counts every call of the receiver. The histogram has an observation for every call
  that returned, and none for a call that panicked: then the middleware is unwound before it
  observes the latency.
\<close>

theorem metrics_count_calls:
  assumes "unaware f" "call_all (WithMetrics latency f) cs u = (bs, u')"
  shows "msgCounter u' = msgCounter u + length cs
    \<and> length (msgLatency u') = length (msgLatency u) + length (filter id bs) \<and> length bs = length cs"
  using assms(2)
proof (induction cs arbitrary: u bs)
  case (Cons c cs)
  let ?u1 = "u\<lparr>msgCounter := msgCounter u + 1\<rparr>"
  obtain u2 as r where f: "f c ?u1 = (u2, as, r)" by (metis prod_cases3)
  obtain u3 where w: "WithMetrics latency f c u = (u3, as, r)" and u3: "u3 = (if r = None then u2\<lparr>msgLatency := msgLatency u2 @ [latency c]\<rparr> else u2)"
    using f by (cases r) (auto simp: WithMetrics_def Let_def)
  obtain bs' where b: "call_all (WithMetrics latency f) cs u3 = (bs', u')" "bs = (r = None) # bs'"
    using Cons.prems w by (auto split: prod.splits)
  have "msgCounter u2 = msgCounter u + 1" "msgLatency u2 = msgLatency u"
    using assms(1) f by (auto simp: unaware_def dest!: spec [of _ c] spec [of _ ?u1])
  then show ?case using Cons.IH [OF b(1)] b(2) u3 by (cases r) simp_all
qed simp

subsection \<open>A receiver that fails on a message\<close>

text \<open>The state counts the calls of \<open>done\<close>.\<close>

definition restart_foo_Receive :: "(nat, string, string) receive_func" where
  "restart_foo_Receive c u =
     (case cv_message c of
        Started \<Rightarrow> (u, [Act ''foo started''], None)
      | User data \<Rightarrow>
          if data = ''failed'' then (u, [], Some (PanicAny ''I failed processing this message''))
          else (u + 1, [Act (''I restarted and processed the next one perfectly: '' @ data)], None)
      | _ \<Rightarrow> (u, [], None))"

definition restart_newFoo :: "nat \<Rightarrow> nat \<times> string panic_val option" where
  "restart_newFoo u = (u, None)"

text \<open>
  The restart example does what it says: of a batch with a message on which the receiver
  panics and one that it can process, the first costs one restart and the second is processed
  afterwards, once.
\<close>

theorem restart_example:
  fixes p :: "(nat, string, string) process"
  assumes "Producer (p_opts p) = restart_newFoo" "Receive (p_opts p) = restart_foo_Receive" "Middleware (p_opts p) = []"
    "p_receive p = restart_foo_Receive" "p_user p = 0" "p_trace p = []" "p_restarts p = 0" "MaxRestarts (p_opts p) = 3"
    "clean_trace \<epsilon> (p_clock p) = Inr stack" "data \<noteq> ''failed''"
  shows "\<exists>p'. proc_Invoke \<epsilon> (Suc (Suc (Suc (Suc f)))) [\<lparr>Msg = User ''failed'', Sender = None\<rparr>, \<lparr>Msg = User data, Sender = None\<rparr>] p = (Ret, p')
    \<and> delivered_in (p_trace p') = [\<lparr>Msg = User ''failed'', Sender = None\<rparr>, \<lparr>Msg = User data, Sender = None\<rparr>]
    \<and> restarts_in (p_trace p') = 1 \<and> p_user p' = 1
    \<and> acts_in (p_trace p') = [''foo started'', ''I restarted and processed the next one perfectly: '' @ data]"
  using assms
  by (simp add: invoke_loop.simps invokeMsg_def call_receive_def restart_foo_Receive_def restart_newFoo_def emit_def unprocessed_def count_restart_def
      broadcast_now_def start_hooks_def inbox_start_def Let_def upt_rec)

subsection \<open>A child that fails to start\<close>

text \<open>The state is the package variable \<open>restarts\<close> and the field \<open>data\<close> of the receiver.\<close>

definition bar_Receive :: "(int \<times> string, string, string) receive_func" where
  "bar_Receive c u =
     (case cv_message c of
        Started \<Rightarrow>
          if fst u < 2 then ((fst u + 1, snd u), [], Some (PanicAny ''I will need to restart''))
          else (u, [Act (''bar recovered and started with initial state: '' @ snd u)], None)
      | User data \<Rightarrow> (u, [Act data], None)
      | Stopped \<Rightarrow> (u, [Act ''bar stopped''], None)
      | _ \<Rightarrow> (u, [], None))"

definition newBarReceiver :: "string \<Rightarrow> int \<times> string \<Rightarrow> (int \<times> string) \<times> string panic_val option" where
  "newBarReceiver data u = ((fst u, data), None)"

text \<open>
  A receiver that panics in its first two starts is stopped and started again twice, and comes
  up in its third start with the state its producer gives it.
\<close>

theorem child_recovers:
  fixes p :: "(int \<times> string, string, string) process"
  assumes "Producer (p_opts p) = newBarReceiver data" "Receive (p_opts p) = bar_Receive" "Middleware (p_opts p) = []"
    "fst (p_user p) = 0" "p_mbuffer p = []" "p_trace p = []" "p_restarts p = 0" "MaxRestarts (p_opts p) = defaultMaxRestarts" "p_inbox p = IStopped"
    "\<forall>t. \<exists>stack. clean_trace \<epsilon> t = Inr stack"
  shows "\<exists>p'. proc_Start \<epsilon> (Suc (Suc (Suc (Suc (Suc f))))) p = (Ret, p') \<and> restarts_in (p_trace p') = 2 \<and> p_user p' = (2, data) \<and> p_inbox p' = IIdle
    \<and> acts_in (p_trace p') = [''bar stopped'', ''bar stopped'', ''bar recovered and started with initial state: '' @ data]"
proof -
  obtain st where "\<forall>t. clean_trace \<epsilon> t = Inr (st t)" using assms(10) by metis
  with assms(1-9) show ?thesis
    by (simp add: call_receive_def bar_Receive_def newBarReceiver_def emit_def count_restart_def broadcast_now_def start_hooks_def inbox_start_def
        defaultMaxRestarts_def Let_def)
qed

subsection \<open>Witnesses\<close>

theorem hooks_in_order_witness:
  "\<exists>p1 p2 p3. proc_Start example_process_env 1 (newProcess ''local'' () ((WithMiddleware [WithHooks (Some foo_hooker)] (DefaultOpts newFoo hook_foo_Receive))\<lparr>Kind := ''foo''\<rparr>)) = (Ret, p1)
     \<and> invokeMsgs [\<lparr>Msg = User ''Hello sailor!'', Sender = None\<rparr>] p1 = (Ret, p2) \<and> cleanup example_process_env None p2 = (Ret, p3)
     \<and> acts_in (p_trace p3) = [''foo initialized'', ''foo started'', ''foo stopped'']"
proof -
  let ?p = "newProcess ''local'' () ((WithMiddleware [WithHooks (Some foo_hooker)] (DefaultOpts newFoo hook_foo_Receive))\<lparr>Kind := ''foo''\<rparr>) :: (unit, string, string) process"
  have "Producer (p_opts ?p) = newFoo" "Receive (p_opts ?p) = hook_foo_Receive" "Middleware (p_opts ?p) = [WithHooks (Some foo_hooker)]" "p_mbuffer ?p = []" "p_trace ?p = []"
    by (simp_all add: newProcess_def WithMiddleware_def DefaultOpts_def)
  from hooks_in_order [OF this, of "[\<lparr>Msg = User ''Hello sailor!'', Sender = None\<rparr>]" example_process_env 0 None] show ?thesis by auto
qed

theorem metrics_count_calls_witness:
  "\<exists>bs u'. call_all (WithMetrics (\<lambda>_. 3) (\<lambda>c u. (u, [] :: unit action list, if cv_message c = User (1 :: nat) then Some (RuntimePanic NilDeref) else None)))
       [\<lparr>cv_pid = NewPID ''local'' ''a'', cv_message = User 0, cv_sender = None\<rparr>, \<lparr>cv_pid = NewPID ''local'' ''a'', cv_message = User 1, cv_sender = None\<rparr>]
       \<lparr>mt_user = (), msgCounter = 0, msgLatency = []\<rparr> = (bs, u') \<and> msgCounter u' = 2 \<and> length (msgLatency u') = 1"
proof -
  let ?f = "\<lambda>c (u :: unit metered). (u, [] :: unit action list, if cv_message c = User (1 :: nat) then Some (RuntimePanic NilDeref) else None)"
  let ?cs = "[\<lparr>cv_pid = NewPID ''local'' ''a'', cv_message = User 0, cv_sender = None\<rparr>, \<lparr>cv_pid = NewPID ''local'' ''a'', cv_message = User 1, cv_sender = None\<rparr>]"
  let ?u = "\<lparr>mt_user = (), msgCounter = 0, msgLatency = []\<rparr>"
  have "unaware ?f" by (simp add: unaware_def)
  moreover obtain u' where c: "call_all (WithMetrics (\<lambda>_. 3) ?f) ?cs ?u = ([True, False], u')" by (simp add: WithMetrics_def Let_def)
  ultimately show ?thesis using metrics_count_calls [of ?f "\<lambda>_. 3" ?cs ?u "[True, False]" u'] by auto
qed

theorem restart_example_witness:
  "\<exists>p p' :: (nat, string, string) process. proc_Invoke example_process_env 4 [\<lparr>Msg = User ''failed'', Sender = None\<rparr>, \<lparr>Msg = User ''hello world!'', Sender = None\<rparr>] p = (Ret, p')
     \<and> restarts_in (p_trace p') = 1 \<and> p_user p' = 1"
proof -
  let ?p = "(newProcess ''local'' 0 ((WithMaxRestarts 3 (DefaultOpts restart_newFoo restart_foo_Receive))\<lparr>Kind := ''foo''\<rparr>))\<lparr>p_receive := restart_foo_Receive\<rparr>"
  have "Producer (p_opts ?p) = restart_newFoo" "Receive (p_opts ?p) = restart_foo_Receive" "Middleware (p_opts ?p) = []"
    "p_receive ?p = restart_foo_Receive" "p_user ?p = 0" "p_trace ?p = []" "p_restarts ?p = 0" "MaxRestarts (p_opts ?p) = 3"
    "clean_trace example_process_env (p_clock ?p) = Inr []" "''hello world!'' \<noteq> ''failed''"
    by (simp_all add: newProcess_def WithMaxRestarts_def DefaultOpts_def cleanTrace_def example_process_env_def)
  from restart_example [OF this, of 0] show ?thesis by (auto simp: eval_nat_numeral)
qed

theorem child_recovers_witness:
  "\<exists>p'. proc_Start example_process_env 5 (newProcess ''local'' (0, []) ((DefaultOpts (newBarReceiver ''msg_1'') bar_Receive)\<lparr>Kind := ''foo/1/bar'', OptID := ''msg_1''\<rparr>)) = (Ret, p')
     \<and> restarts_in (p_trace p') = 2 \<and> p_user p' = (2, ''msg_1'')"
proof -
  let ?p = "newProcess ''local'' (0, []) ((DefaultOpts (newBarReceiver ''msg_1'') bar_Receive)\<lparr>Kind := ''foo/1/bar'', OptID := ''msg_1''\<rparr>)"
  have "Producer (p_opts ?p) = newBarReceiver ''msg_1''" "Receive (p_opts ?p) = bar_Receive" "Middleware (p_opts ?p) = []" "fst (p_user ?p) = 0"
    "p_mbuffer ?p = []" "p_trace ?p = []" "p_restarts ?p = 0" "MaxRestarts (p_opts ?p) = defaultMaxRestarts" "p_inbox ?p = IStopped"
    "\<forall>t. \<exists>stack. clean_trace example_process_env t = Inr stack"
    by (simp_all add: newProcess_def DefaultOpts_def cleanTrace_def example_process_env_def)
  from child_recovers [OF this, of 0] show ?thesis by (auto simp: eval_nat_numeral)
qed

end
