(* ===== verification/Monitor.thy ===== *)
theory Monitor
  imports AppActor Process
begin

section \<open>Monitoring and requests (examples/eventstream-monitor, request)\<close>

text \<open>
  A monitor subscribes to the event stream and counts what happens to the actors of its engine; a
  query asks it for the numbers. A responder answers requests with its name. Both programs ask
  with \<open>Request\<close> and wait in \<open>Result\<close>.
\<close>

subsection \<open>The monitor\<close>

record monitor_state =
  crashes :: int
  starts :: int
  stops :: int
  deadletters :: int

text \<open>The last is the string that is the value of a panic.\<close>

datatype mon_msg = Query monitor_state | CustomMessage | StringValue string

definition newMonitor :: monitor_state where
  "newMonitor = \<lparr>crashes = 0, starts = 0, stops = 0, deadletters = 0\<rparr>"

text \<open>\<open>a\<close> is the address of the monitor's PID.\<close>

definition evmonitor_Receive :: "nat \<Rightarrow> mon_msg actor_context \<Rightarrow> monitor_state \<Rightarrow> (mon_msg, monitor_state) act" where
  "evmonitor_Receive a c m =
     (case c_message c of
        Initialized \<Rightarrow> bindA (\<lambda>e. of_send (Subscribe (a, c_pid c) e)) (\<lambda>_. ret m)
      | ActorRestartedEvent _ _ _ _ _ \<Rightarrow> ret (m\<lparr>crashes := crashes m + 1\<rparr>)
      | ActorStartedEvent _ _ \<Rightarrow> ret (m\<lparr>starts := starts m + 1\<rparr>)
      | ActorStoppedEvent _ _ \<Rightarrow> ret (m\<lparr>stops := stops m + 1\<rparr>)
      | DeadLetterEvent _ _ _ \<Rightarrow> ret (m\<lparr>deadletters := deadletters m + 1\<rparr>)
      | User (Query _) \<Rightarrow> bindA (\<lambda>e. of_send (ctx_Respond (User (Query \<lparr>crashes = crashes m, starts = starts m, stops = stops m, deadletters = deadletters m\<rparr>)) c e)) (\<lambda>_. ret m)
      | _ \<Rightarrow> ret m)"

text \<open>The actor it watches: the state is \<open>spawnTime\<close>, \<open>now\<close> the clock, in nanoseconds.\<close>

definition unstable_Receive :: "(nat \<Rightarrow> int) \<Rightarrow> (int \<times> nat, mon_msg, string) receive_func" where
  "unstable_Receive now c u =
     (case cv_message c of
        Initialized \<Rightarrow> ((now (snd u), Suc (snd u)), [], None)
      | Started \<Rightarrow> (u, [Act ''actor started''], None)
      | User CustomMessage \<Rightarrow>
          ((fst u, Suc (snd u)), [], if now (snd u) - fst u > 1000000000 then Some (PanicAny (StringValue ''my time has come'')) else None)
      | _ \<Rightarrow> (u, [], None))"

text \<open>The monitor handles a list of messages.\<close>

fun monitor_all :: "nat \<Rightarrow> mon_msg actor_context \<Rightarrow> mon_msg msg list \<Rightarrow> monitor_state \<Rightarrow> (mon_msg, monitor_state) act" where
  "monitor_all a c [] m = ret m"
| "monitor_all a c (x # xs) m = bindA (evmonitor_Receive a (c\<lparr>c_message := x\<rparr>) m) (monitor_all a c xs)"

text \<open>The events that a process broadcasts, and how many of each kind are among them.\<close>

fun broadcasts_in :: "('m, 'a) effect list \<Rightarrow> 'm msg list" where
  "broadcasts_in [] = []"
| "broadcasts_in (EBroadcast m # es) = m # broadcasts_in es"
| "broadcasts_in (_ # es) = broadcasts_in es"

definition how_many :: "('m msg \<Rightarrow> bool) \<Rightarrow> ('m, 'a) effect list \<Rightarrow> int" where
  "how_many P es = tally P (broadcasts_in es)"

fun is_started :: "'m msg \<Rightarrow> bool" where
  "is_started (ActorStartedEvent _ _) = True"
| "is_started _ = False"

fun is_stopped :: "'m msg \<Rightarrow> bool" where
  "is_stopped (ActorStoppedEvent _ _) = True"
| "is_stopped _ = False"

fun is_restarted :: "'m msg \<Rightarrow> bool" where
  "is_restarted (ActorRestartedEvent _ _ _ _ _) = True"
| "is_restarted _ = False"

fun is_dead_letter :: "'m msg \<Rightarrow> bool" where
  "is_dead_letter (DeadLetterEvent _ _ _) = True"
| "is_dead_letter _ = False"

fun is_event :: "'m msg \<Rightarrow> bool" where
  "is_event Initialized = False"
| "is_event (User _) = False"
| "is_event _ = True"

lemma monitor_all_counts:
  "list_all is_event xs \<Longrightarrow> monitor_all a c xs m = ret \<lparr>crashes = crashes m + tally is_restarted xs, starts = starts m + tally is_started xs,
     stops = stops m + tally is_stopped xs, deadletters = deadletters m + tally is_dead_letter xs\<rparr>"
proof (induction xs arbitrary: m)
  case (Cons x xs)
  then show ?case by (cases x) (simp_all add: evmonitor_Receive_def add.assoc)
next
  case Nil
  then show ?case by (cases m) simp
qed

lemma restarts_in_broadcasts: "int (restarts_in es) = tally is_restarted (broadcasts_in es)"
proof (induction es)
  case (Cons x es)
  then show ?case
  proof (cases x)
    case (EBroadcast m)
    then show ?thesis using Cons by (cases m) (simp_all add: tally_def)
  qed (use Cons in simp_all)
qed (simp add: tally_def)

text \<open>
  The monitor's numbers are right. Given the events that a process has broadcast, whatever that
  process did, the monitor's crashes are the restarts of the process, its starts and stops the
  starts and stops that were announced; a query is answered with these numbers and changes
  nothing.
\<close>

theorem monitor_counts:
  assumes "list_all is_event (broadcasts_in (p_trace p))" "c_sender c = Some src" "stream_ok es h e" "local_actor src g e" "e_heap e g = ProcObj src mb"
  shows "\<exists>m' e'. bindA (monitor_all a c (broadcasts_in (p_trace p)) newMonitor) (evmonitor_Receive a (c\<lparr>c_message := User (Query q)\<rparr>)) e = (Inr m', e')
    \<and> crashes m' = int (restarts_in (p_trace p)) \<and> starts m' = how_many is_started (p_trace p) \<and> stops m' = how_many is_stopped (p_trace p)
    \<and> e_heap e' g = ProcObj src (mb @ [\<lparr>Msg = User (Query m'), Sender = None\<rparr>])"
proof -
  let ?m = "\<lparr>crashes = tally is_restarted (broadcasts_in (p_trace p)), starts = tally is_started (broadcasts_in (p_trace p)),
     stops = tally is_stopped (broadcasts_in (p_trace p)), deadletters = tally is_dead_letter (broadcasts_in (p_trace p))\<rparr>"
  have m: "monitor_all a c (broadcasts_in (p_trace p)) newMonitor = ret ?m"
    using monitor_all_counts [OF assms(1), of a c newMonitor] by (simp add: newMonitor_def)
  have r: "(\<lambda>e. of_send (ctx_Respond x (c\<lparr>c_message := y\<rparr>) e)) = a_Send (Some src) x None" for x y
    using assms(2) by (simp add: ctx_Respond_def eng_Send_def a_Send_def SendWithSender_def fun_eq_iff)
  have "evmonitor_Receive a (c\<lparr>c_message := User (Query q)\<rparr>) ?m = bindA (a_Send (Some src) (User (Query ?m)) None) (\<lambda>_. ret ?m)"
    by (simp add: evmonitor_Receive_def r)
  then show ?thesis
    using a_Send_local [OF assms(3-5), of "User (Query ?m)" None] restarts_in_broadcasts [of "p_trace p"] m
    by (simp add: bindA_run ret_def how_many_def)
qed

subsection \<open>The responder\<close>

datatype req_msg = NameRequest | NameResponse string

definition newNameResponder :: string where
  "newNameResponder = ''noname''"

definition newCustomNameResponder :: "string \<Rightarrow> string" where
  "newCustomNameResponder name = name"

text \<open>The state of a responder is its name.\<close>

definition responder_Receive :: "req_msg actor_context \<Rightarrow> string \<Rightarrow> (req_msg, string) act" where
  "responder_Receive c name =
     (case c_message c of
        User NameRequest \<Rightarrow> bindA (\<lambda>e. of_send (ctx_Respond (User (NameResponse name)) c e)) (\<lambda>_. ret name)
      | _ \<Rightarrow> ret name)"

text \<open>
  A request for a name is answered. The request arrives in the responder's inbox with a fresh
  response as its sender; when the responder has handled it, \<open>Result\<close> returns its name, whether it
  is the default or was given to the producer.
\<close>

theorem name_request_answered:
  assumes "eng_inv e" "stream_ok es h e" "reg_getByID (ID (response_pid e)) (e_Registry e) = None"
    "Address q = e_address e" "reg_lookup (e_Registry e) (ID q) = Some g" "e_heap e g = ProcObj x []"
    "Request (Some q) (User NameRequest) tmo e = (k, r, e1)"
  shows "r = SDone \<and> e_heap e1 g = ProcObj x [\<lparr>Msg = User NameRequest, Sender = Some (response_pid e)\<rparr>]
    \<and> (\<exists>e2 e3. responder_Receive ((newContext ctx x (User NameRequest))\<lparr>c_sender := Some (response_pid e)\<rparr>) name e1 = (Inr name, e2)
        \<and> Result k e2 = (Some (User (NameResponse name)), e3) \<and> reg_get (Some (response_pid e)) (e_Registry e3) = None)"
proof -
  have n: "\<forall>p. Some q = Some p \<longrightarrow> ID p \<noteq> ID (response_pid e)" using assms(3,5) by (auto simp: reg_getByID_def)
  note a = Request_awaiting [OF assms(1-3) n assms(7)] and hd = Request_handed [OF assms(1,2,4,5,6,7)]
  obtain e2 where e2: "eng_Send (Some (response_pid e)) (User (NameResponse name)) e1 = (SDone, e2)" "awaiting k (response_pid e) (Some (User (NameResponse name))) e2"
    using reply_awaiting(1) [OF a(2,1)] by blast
  obtain e3 where "Result k e2 = (Some (User (NameResponse name)), e3)" "reg_get (Some (response_pid e)) (e_Registry e3) = None"
    using Result_awaiting [OF e2(2)] by blast
  moreover have "responder_Receive ((newContext ctx x (User NameRequest))\<lparr>c_sender := Some (response_pid e)\<rparr>) name e1 = (Inr name, e2)"
    using e2(1) by (simp add: responder_Receive_def newContext_def ctx_Respond_def bindA_def ret_def)
  ultimately show ?thesis using hd(1,2) by auto
qed

subsection \<open>Witnesses\<close>

theorem name_request_answered_witness:
  "\<exists>(e :: req_msg engine) k e1 e2 e3 c. Request (Some (stream_pid ''local'' 5)) (User NameRequest) 1000000 e = (k, SDone, e1)
     \<and> responder_Receive c ''khulnasoft'' e1 = (Inr ''khulnasoft'', e2) \<and> Result k e2 = (Some (User (NameResponse ''khulnasoft'')), e3)"
proof -
  obtain e0 :: "req_msg engine" where e0: "eng_inv e0" "stream_ok (stream_pid ''local'' 5) 0 e0" "e_address e0 = ''local''"
    "e_Registry e0 = \<lparr>reg_lookup = [ID (stream_pid ''local'' 5) \<mapsto> 0], responses = Map.empty\<rparr>" using example_engine by blast
  let ?e = "e0\<lparr>e_heap := (\<lambda>h. ProcObj (obj_pid (e_heap e0 h)) [])\<rparr>"
  have e: "eng_inv ?e" "stream_ok (stream_pid ''local'' 5) 0 ?e" using e0(1,2) by (auto simp: eng_inv_def stream_ok_def)
  have f: "reg_getByID (ID (response_pid ?e)) (e_Registry ?e) = None"
    by (simp add: e0(4) reg_getByID_def response_pid_def responsePrefix_def stream_pid_id)
  have q: "Address (stream_pid ''local'' 5) = e_address ?e" "reg_lookup (e_Registry ?e) (ID (stream_pid ''local'' 5)) = Some 0"
    "e_heap ?e 0 = ProcObj (obj_pid (e_heap e0 0)) []" using e0(3,4) by (simp_all add: stream_pid_def)
  obtain k r e1 where rq: "Request (Some (stream_pid ''local'' 5)) (User NameRequest) 1000000 ?e = (k, r, e1)" by (metis prod_cases3)
  from name_request_answered [OF e f q rq, of 0 "''khulnasoft''"] rq show ?thesis by blast
qed

theorem monitor_counts_witness:
  "\<exists>(e :: mon_msg engine) c m' e'. bindA (monitor_all 1 c [ActorRestartedEvent None 0 [] (RuntimePanic NilDeref) 1, ActorStartedEvent None 1] newMonitor)
      (evmonitor_Receive 1 (c\<lparr>c_message := User (Query newMonitor)\<rparr>)) e = (Inr m', e') \<and> crashes m' = 1 \<and> starts m' = 1"
proof -
  obtain e0 :: "mon_msg engine" where e0: "stream_ok (stream_pid ''local'' 5) 0 e0" "e_address e0 = ''local''" using example_engine by blast
  let ?q = "stream_pid ''local'' 5"
  let ?e = "e0\<lparr>e_heap := (e_heap e0)(0 := ProcObj ?q [])\<rparr>"
  have e: "stream_ok ?q 0 ?e" "e_heap ?e 0 = ProcObj ?q []" using e0(1) by (auto simp: stream_ok_def)
  have l: "local_actor ?q 0 ?e" using e(2) stream_get [OF e(1)] e0(2) by (simp add: local_actor_def stream_pid_def)
  define c where "c = (newContext 0 (NewPID ''local'' ''monitor/1'') Started :: mon_msg actor_context)\<lparr>c_sender := Some ?q\<rparr>"
  have s: "c_sender c = Some ?q" by (simp add: c_def)
  define p where "p = (newProcess ''local'' () (DefaultOpts (\<lambda>u. (u, None)) (\<lambda>_ u. (u, [], None))) :: (unit, mon_msg, unit) process)
    \<lparr>p_trace := [EBroadcast (ActorRestartedEvent None 0 [] (RuntimePanic NilDeref) 1), EBroadcast (ActorStartedEvent None 1)]\<rparr>"
  have b: "broadcasts_in (p_trace p) = [ActorRestartedEvent None 0 [] (RuntimePanic NilDeref) 1, ActorStartedEvent None 1]" "list_all is_event (broadcasts_in (p_trace p))"
    "restarts_in (p_trace p) = 1" "how_many is_started (p_trace p) = 1" by (simp_all add: p_def how_many_def)
  from monitor_counts [OF b(2) s e(1) l e(2), of 1 newMonitor] show ?thesis unfolding b(1,3,4) by fastforce
qed

end
