(* ===== verification/RegionStrategy.thy ===== *)
theory RegionStrategy
  imports AgentActivation
begin

section \<open>Activation by region (examples/cluster/shared/activation_strategy.go)\<close>

text \<open>
  A selection function for activations: a random member of the requested region among those that
  offer the kind, or one of a fallback region. \<open>pick\<close> is what \<open>rand\<close> returns.
\<close>

record regionBasedActivationStrategy =
  fallback :: string

definition RegionBasedActivationStrategy :: "string \<Rightarrow> regionBasedActivationStrategy" where
  "RegionBasedActivationStrategy fb = \<lparr>fallback = fb\<rparr>"

fun filterMembersByRegion_loop :: "member list \<Rightarrow> string \<Rightarrow> member list \<Rightarrow> member list" where
  "filterMembersByRegion_loop [] region mems = mems"
| "filterMembersByRegion_loop (m # ms) region mems =
     filterMembersByRegion_loop ms region (if m_Region m = region then mems @ [m] else mems)"

definition filterMembersByRegion :: "member list \<Rightarrow> string \<Rightarrow> member list" where
  "filterMembersByRegion members region = filterMembersByRegion_loop members region []"

definition ActivateOnMember :: "nat \<Rightarrow> regionBasedActivationStrategy \<Rightarrow> select_member_func" where
  "ActivateOnMember pick as details =
     (let members = filterMembersByRegion (ad_Members details) (ad_Region details) in
      if length members > 0 then Some (members ! (pick mod length members))
      else let members' = filterMembersByRegion (ad_Members details) (fallback as) in
           if length members' > 0 then Some (members' ! (pick mod length members')) else None)"

lemma filter_region_loop: "filterMembersByRegion_loop ms region acc = acc @ filter (\<lambda>m. m_Region m = region) ms"
  by (induction ms arbitrary: acc) simp_all

lemma filter_region: "filterMembersByRegion ms region = filter (\<lambda>m. m_Region m = region) ms"
  by (simp add: filterMembersByRegion_def filter_region_loop)

lemma picked: "xs \<noteq> [] \<Longrightarrow> xs ! (pick mod length xs) \<in> set xs"
  by simp

lemma ActivateOnMember_spec:
  "case ActivateOnMember pick as d of
     None \<Rightarrow> \<forall>m \<in> set (ad_Members d). m_Region m \<noteq> ad_Region d \<and> m_Region m \<noteq> fallback as
   | Some m \<Rightarrow> m \<in> set (ad_Members d) \<and>
       (if \<exists>x \<in> set (ad_Members d). m_Region x = ad_Region d then m_Region m = ad_Region d else m_Region m = fallback as)"
proof -
  let ?f = "\<lambda>r. filter (\<lambda>m. m_Region m = r) (ad_Members d)"
  have p: "?f r \<noteq> [] \<Longrightarrow> ?f r ! (pick mod length (?f r)) \<in> set (ad_Members d) \<and> m_Region (?f r ! (pick mod length (?f r))) = r" for r
    using picked [of "?f r" pick] by auto
  have e: "?f r = [] \<longleftrightarrow> (\<forall>x \<in> set (ad_Members d). m_Region x \<noteq> r)" for r by (auto simp: filter_empty_conv)
  show ?thesis using p [of "ad_Region d"] p [of "fallback as"] e [of "ad_Region d"] e [of "fallback as"]
    by (auto simp: ActivateOnMember_def filter_region Let_def)
qed

text \<open>The members of the agent's view that offer a kind.\<close>

definition offering :: "string \<Rightarrow> 'p agent \<Rightarrow> member set" where
  "offering kind a = {m. ms_members (ag_members a) (m_ID m) = Some m \<and> kind \<in> set (m_Kinds m)}"

text \<open>
  C34. Activation respects regions. With this strategy an activation is carried out by a member that
  offers the kind and lies in the requested region if some member that offers it does, and in
  the fallback region otherwise: the actor is spawned here if that member is this node, or
  requested from it. If neither region has such a member, nothing happens.
\<close>

theorem region_respected:
  assumes "agent_inv a" "ranges_ok U rs" "ms_ids (ag_members a) \<subseteq> U" "ac_selectMember cfg = Some (ActivateOnMember pick' as)"
    "agent_activate rs pick random reply kind cfg a = (q, a', cs, r)"
  shows "(q \<noteq> None \<longrightarrow> (\<exists>m \<in> offering kind a. (if \<exists>x \<in> offering kind a. m_Region x = ac_region cfg then m_Region m = ac_region cfg else m_Region m = fallback as)
      \<and> (if m_Host m = ag_address a then \<exists>p. hd cs = CSpawn p kind (ac_id cfg) random
         else hd cs = CRequest (Some (member_PID m)) (User (ActivationRequest kind (ac_id cfg) [] 0)) (ag_requestTimeout a))))
    \<and> ((\<forall>x \<in> offering kind a. m_Region x \<noteq> ac_region cfg \<and> m_Region x \<noteq> fallback as) \<longrightarrow> q = None \<and> cs = [])"
proof -
  let ?ms = "ms_FilterByKind (r_members rs SiteFilter (ms_members (ag_members a))) kind (ag_members a)"
  let ?d = "\<lparr>ad_Region = ac_region cfg, ad_Members = ?ms, ad_Kind = kind\<rparr>"
  have o: "range_order (ms_members (ag_members a)) (r_members rs SiteFilter (ms_members (ag_members a)))"
    using ranges_okD(1) [OF assms(2)] assms(3) by (simp add: ms_ids_def)
  have i: "ms_inv (ag_members a)" using assms(1) by (simp add: agent_inv_def)
  have s: "set ?ms = offering kind a" unfolding offering_def by (rule ms_FilterByKind_set [OF i o])
  note spec = ActivateOnMember_spec [where pick = pick' and as = as and d = ?d]
  have c: "chosen rs pick kind cfg a = (if ag_activated a (kind @ ''/'' @ ac_id cfg) \<noteq> None \<or> ?ms = [] then None else ActivateOnMember pick' as ?d)"
    by (simp add: chosen_def assms(4) Let_def)
  show ?thesis
  proof (cases "chosen rs pick kind cfg a")
    case None
    then show ?thesis using activate_refused [OF None, of random reply] assms(5) by simp
  next
    case (Some m)
    then have m: "m \<in> offering kind a" "if \<exists>x \<in> offering kind a. m_Region x = ac_region cfg then m_Region m = ac_region cfg else m_Region m = fallback as"
      using c spec s by (auto split: if_splits)
    have "q \<noteq> None \<longrightarrow> (if m_Host m = ag_address a then \<exists>p. hd cs = CSpawn p kind (ac_id cfg) random
         else hd cs = CRequest (Some (member_PID m)) (User (ActivationRequest kind (ac_id cfg) [] 0)) (ag_requestTimeout a))"
      using activate_local [OF Some, of random reply] activate_remote [OF Some, of reply random] assms(5)
      by (cases "m_Host m = ag_address a"; cases "ag_localKinds a kind") (auto simp: Let_def)
    moreover have "\<not> (\<forall>x \<in> offering kind a. m_Region x \<noteq> ac_region cfg \<and> m_Region x \<noteq> fallback as)" using m by (auto split: if_splits)
    ultimately show ?thesis using m by blast
  qed
qed

text \<open>
  Without such a selection function the region counts for nothing: an activation with the
  default configuration has the same outcome for every region that is asked for.
\<close>

theorem default_ignores_region:
  "agent_activate rs pick random reply kind (ac_WithRegion region (ac_WithID i (NewActivationConfig n pick'))) a
   = agent_activate rs pick random reply kind (ac_WithID i (NewActivationConfig n pick')) a"
  by (simp add: agent_activate_def ac_WithRegion_def ac_WithID_def NewActivationConfig_def SelectRandomMember_def Let_def)

theorem region_respected_witness:
  "\<exists>q a' cs r. agent_activate (list_ranges example_ids) 0 0 None ''player''
      (WithSelectMemberFunc (Some (ActivateOnMember 3 (RegionBasedActivationStrategy []))) (ac_WithID ''2'' (NewActivationConfig 0 0))) example_agent
      = (q, a', cs, r)
    \<and> q = Some (NewPID ''h1'' ''player/2'')
    \<and> (\<exists>m \<in> offering ''player'' example_agent. m_Region m = (if \<exists>x \<in> offering ''player'' example_agent. m_Region x = ''default'' then ''default'' else []))"
proof -
  let ?cfg = "WithSelectMemberFunc (Some (ActivateOnMember 3 (RegionBasedActivationStrategy []))) (ac_WithID ''2'' (NewActivationConfig 0 0))"
  obtain q a' cs r where h: "agent_activate (list_ranges example_ids) 0 0 None ''player'' ?cfg example_agent = (q, a', cs, r)"
    by (metis prod_cases4)
  have "ms_FilterByKind (r_members (list_ranges example_ids) SiteFilter (ms_members (ag_members example_agent))) ''player'' (ag_members example_agent)
      = [\<lparr>m_ID = ''A'', m_Host = ''h1'', m_Region = [], m_Kinds = [''player'']\<rparr>]"
    by (simp add: ms_FilterByKind_def ms_visit_def range_values_def List.map_filter_simps list_ranges_def example_ids_def
        example_agent_def NewMemberSet_def member_HasKind_def del: member_HasKind_iff)
  then have q: "q = Some (NewPID ''h1'' ''player/2'')"
    using h by (simp add: agent_activate_def Let_def WithSelectMemberFunc_def ac_WithID_def NewActivationConfig_def ActivateOnMember_def filter_region
        RegionBasedActivationStrategy_def example_agent_def handleActivationRequest_def newKind_def spawn_pid_def pidSeparator_def bcast_eq)
  have b: "ms_ids (ag_members example_agent) \<subseteq> set example_ids" using example_bounds by simp
  have "ac_selectMember ?cfg = Some (ActivateOnMember 3 (RegionBasedActivationStrategy []))" by (simp add: WithSelectMemberFunc_def)
  from region_respected [OF example_agent_inv example_ranges b this h] q h show ?thesis
    by (auto simp: WithSelectMemberFunc_def ac_WithID_def NewActivationConfig_def RegionBasedActivationStrategy_def split: if_splits)
qed

end
