(* ===== verification/Discovery.thy ===== *)
theory Discovery
  imports AppActor Acts
begin

section \<open>Discovery by multicast DNS (examples/mdns)\<close>

text \<open>
  The discovery actor announces its engine and turns every other engine it hears of into a
  \<open>DiscoveryEvent\<close> on the event stream; the chat actor subscribes and greets the engine found. The
  package zeroconf is a parameter: the error, if any, that the \<open>n\<close>-th call of its functions returns, and what
  \<open>Shutdown\<close> does on a nil server. Its calls, the goroutine of the search and the cancelling of its
  context are the actions of the receiver; a server is named by the number of the call that made
  it, a context by the number of contexts made before.
\<close>

subsection \<open>Options\<close>

record disc_options =
  do_id :: string
  do_ip :: "string list"
  do_port :: int

definition WithAnnounceAddr :: "string \<Rightarrow> int \<Rightarrow> disc_options \<Rightarrow> disc_options" where
  "WithAnnounceAddr i p ao = ao\<lparr>do_ip := do_ip ao @ [i], do_port := p\<rparr>"

text \<open>\<open>now\<close> is \<open>time.Now().UnixNano()\<close>.\<close>

definition applyDiscoveryOptions :: "int \<Rightarrow> (disc_options \<Rightarrow> disc_options) list \<Rightarrow> disc_options" where
  "applyDiscoveryOptions now opts = fold (\<lambda>opt r. opt r) opts \<lparr>do_id = ''engine_'' @ Itoa now, do_ip = [], do_port = 0\<rparr>"

subsection \<open>The announcer and the discovery actor\<close>

definition mdns_serviceName :: string where
  "mdns_serviceName = ''_actor.goactors_''"

definition mdns_domain :: string where
  "mdns_domain = ''local.''"

definition mdns_host :: string where
  "mdns_host = ''pc1''"

record announcer =
  an_id :: string
  an_ip :: "string list"
  an_port :: int
  an_server :: "nat option"

definition newAnnouncer :: "disc_options \<Rightarrow> announcer" where
  "newAnnouncer cfg = \<lparr>an_id = do_id cfg, an_ip = do_ip cfg, an_port = do_port cfg, an_server = None\<rparr>"

record zeroconf_pkg =
  zc_NewResolver :: "nat \<Rightarrow> string option"
  zc_RegisterProxy :: "nat \<Rightarrow> string option"
  zc_nil_Shutdown :: "go_panic option"

text \<open>The messages of the two actors, and an error as the value of a panic.\<close>

datatype mdns_msg =
    DiscoveryEvent (de_ID: string) (de_Addr: "string list")
  | ChatMessage (mc_Msg: string)
  | ErrorValue string

datatype zc_act =
    NewResolver
  | GoStartDiscovery nat
  | RegisterProxy string string string int string "string list" "string list"
  | Shutdown nat
  | CancelCtx nat

record mdns =
  md_id :: string
  md_resolver :: bool
  md_engine :: bool
  md_ctx :: nat

text \<open>
  The receiver, the announcer that every receiver of one producer shares, and how many contexts,
  resolvers and servers have been asked for.
\<close>

record mdns_world =
  mw_mdns :: mdns
  mw_announcer :: announcer
  mw_contexts :: nat
  mw_resolvers :: nat
  mw_servers :: nat

definition announcer_start :: "zeroconf_pkg \<Rightarrow> mdns_world \<Rightarrow> mdns_world \<times> zc_act list \<times> mdns_msg panic_val option" where
  "announcer_start zc w =
     (let a = mw_announcer w; n = mw_servers w;
          call = RegisterProxy (an_id a) mdns_serviceName mdns_domain (an_port a) mdns_host (an_ip a) [''txtv=0'', ''lo=1'', ''la=2''];
          w1 = w\<lparr>mw_servers := Suc n\<rparr>
      in case zc_RegisterProxy zc n of
           None \<Rightarrow> (w1\<lparr>mw_announcer := a\<lparr>an_server := Some n\<rparr>\<rparr>, [call], None)
         | Some err \<Rightarrow> (w1, [call], Some (PanicAny (ErrorValue err))))"

definition announcer_shutdown :: "zeroconf_pkg \<Rightarrow> mdns_world \<Rightarrow> zc_act list \<times> mdns_msg panic_val option" where
  "announcer_shutdown zc w =
     (case an_server (mw_announcer w) of
        None \<Rightarrow> ([], map_option RuntimePanic (zc_nil_Shutdown zc))
      | Some n \<Rightarrow> ([Shutdown n], None))"

definition createResolver :: "zeroconf_pkg \<Rightarrow> mdns_world \<Rightarrow> mdns_world \<times> zc_act list \<times> mdns_msg panic_val option" where
  "createResolver zc w =
     (let n = mw_resolvers w; w1 = w\<lparr>mw_resolvers := Suc n\<rparr> in
      case zc_NewResolver zc n of
        None \<Rightarrow> (w1\<lparr>mw_mdns := (mw_mdns w)\<lparr>md_resolver := True\<rparr>\<rparr>, [NewResolver], None)
      | Some err \<Rightarrow> (w1, [NewResolver], Some (PanicAny (ErrorValue err))))"

text \<open>\<open>NewMdnsDiscovery\<close>: what it makes once, and the producer it returns.\<close>

definition NewMdnsDiscovery_world :: "int \<Rightarrow> (disc_options \<Rightarrow> disc_options) list \<Rightarrow> mdns_world" where
  "NewMdnsDiscovery_world now opts =
     (let cfg = applyDiscoveryOptions now opts in
      \<lparr>mw_mdns = \<lparr>md_id = [], md_resolver = False, md_engine = False, md_ctx = 0\<rparr>,
       mw_announcer = newAnnouncer cfg, mw_contexts = 1, mw_resolvers = 0, mw_servers = 0\<rparr>)"

definition NewMdnsDiscovery :: "disc_options \<Rightarrow> mdns_world \<Rightarrow> mdns_world \<times> mdns_msg panic_val option" where
  "NewMdnsDiscovery cfg w = (w\<lparr>mw_mdns := \<lparr>md_id = do_id cfg, md_resolver = False, md_engine = False, md_ctx = 0\<rparr>\<rparr>, None)"

text \<open>The announcer of an actor made by \<open>NewMdnsDiscovery\<close> is never nil.\<close>

definition mdns_shutdown :: "zeroconf_pkg \<Rightarrow> mdns_world \<Rightarrow> zc_act list \<times> mdns_msg panic_val option" where
  "mdns_shutdown zc w = (case announcer_shutdown zc w of
      (as, None) \<Rightarrow> (as @ [CancelCtx (md_ctx (mw_mdns w))], None) | r \<Rightarrow> r)"

definition mdns_Receive :: "zeroconf_pkg \<Rightarrow> (mdns_world, mdns_msg, zc_act) receive_func" where
  "mdns_Receive zc c w =
     (case cv_message c of
        Initialized \<Rightarrow>
          (let d = mw_mdns w;
               w1 = w\<lparr>mw_mdns := d\<lparr>md_engine := True, md_ctx := mw_contexts w\<rparr>, mw_contexts := Suc (mw_contexts w)\<rparr>
           in case createResolver zc w1 of (w2, as, r) \<Rightarrow> (w2, map Act as, r))
      | Started \<Rightarrow>
          (case announcer_start zc w of (w1, as, r) \<Rightarrow> (w1, map Act (GoStartDiscovery (md_ctx (mw_mdns w)) # as), r))
      | Stopped \<Rightarrow>
          (case mdns_shutdown zc w of
             (as, None) \<Rightarrow> (w, map Act (as @ [CancelCtx (md_ctx (mw_mdns w))]), None)
           | (as, r) \<Rightarrow> (w, map Act as, r))
      | _ \<Rightarrow> (w, [], None))"

subsection \<open>The search\<close>

text \<open>What \<open>startDiscovery\<close> does once its goroutine runs: a failed \<open>Browse\<close> panics there, where nothing recovers.\<close>

datatype search = Searching string string nat | ProgramCrashed

definition startDiscovery :: "bool \<Rightarrow> nat \<Rightarrow> search" where
  "startDiscovery browse_ok ctx = (if browse_ok then Searching mdns_serviceName mdns_domain ctx else ProgramCrashed)"

record mdns_entry =
  Instance :: string
  AddrIPv4 :: "(8 word \<times> 8 word \<times> 8 word \<times> 8 word) list"
  Port :: int

definition IP_String :: "8 word \<times> 8 word \<times> 8 word \<times> 8 word \<Rightarrow> string" where
  "IP_String i = (case i of (a, b, c, d) \<Rightarrow> Itoa (uint a) @ ''.'' @ Itoa (uint b) @ ''.'' @ Itoa (uint c) @ ''.'' @ Itoa (uint d))"

fun event_addrs :: "(8 word \<times> 8 word \<times> 8 word \<times> 8 word) list \<Rightarrow> int \<Rightarrow> string list \<Rightarrow> string list" where
  "event_addrs [] port acc = acc"
| "event_addrs (addr # addrs) port acc = event_addrs addrs port (acc @ [IP_String addr @ '':'' @ Itoa port])"

definition sendDiscoveryEvent :: "mdns_entry \<Rightarrow> mdns \<Rightarrow> (mdns_msg, unit) act" where
  "sendDiscoveryEvent entry d =
     (if Instance entry = md_id d then ret ()
      else let event = DiscoveryEvent (Instance entry) (event_addrs (AddrIPv4 entry) (Port entry) []) in
           if \<not> md_engine d then ret () else (\<lambda>e. of_send (eng_Broadcast (User event) e)))"

subsection \<open>The chat actor\<close>

record mchat_server =
  ms_engine :: bool

definition mchat_New :: mchat_server where
  "mchat_New = \<lparr>ms_engine = False\<rparr>"

text \<open>\<open>handleMessage\<close> logs the message.\<close>

definition mchat_handleMessage :: "string \<Rightarrow> string list" where
  "mchat_handleMessage m = [m]"

text \<open>\<open>a\<close> is the address of the actor's PID; the result also says what was logged as a new message.\<close>

definition mchat_Receive :: "nat \<Rightarrow> mdns_msg actor_context \<Rightarrow> mchat_server \<Rightarrow> (mdns_msg, mchat_server \<times> string list) act" where
  "mchat_Receive a c s =
     (case c_message c of
        Initialized \<Rightarrow> bindA (\<lambda>e. of_send (Subscribe (a, c_pid c) e)) (\<lambda>_. ret (s\<lparr>ms_engine := True\<rparr>, []))
      | Started \<Rightarrow> ret (s, [])
      | Stopped \<Rightarrow> bindA (\<lambda>e. of_send (Unsubscribe (a, c_pid c) e)) (\<lambda>_. ret (s, []))
      | User (DiscoveryEvent _ addrs) \<Rightarrow>
          (case addrs of
             [] \<Rightarrow> of_res (Inl IndexOutOfRange)
           | addr # _ \<Rightarrow>
               (let pid = Some (NewPID addr ''chat/chat'') in
                bindA (if ms_engine s then a_Send pid (User (ChatMessage ''hello there'')) (Some (c_pid c)) else a_nil_Send pid)
                  (\<lambda>_. ret (s, []))))
      | User (ChatMessage m) \<Rightarrow> ret (s, mchat_handleMessage m)
      | _ \<Rightarrow> ret (s, []))"

subsection \<open>The life of the discovery actor\<close>

lemma event_addrs_map: "event_addrs addrs port acc = acc @ map (\<lambda>i. IP_String i @ '':'' @ Itoa port) addrs"
  by (induction addrs arbitrary: acc) simp_all

lemma acted_map [simp]: "acted (map Act as) = as"
  by (induction as) simp_all

text \<open>Messages other than the lifecycle ones do nothing to it.\<close>

lemma mdns_messages:
  assumes "list_all (\<lambda>m. \<exists>x. Msg m = User x) ms" "p_receive q = mdns_Receive zc"
  shows "\<exists>p2. invokeMsgs ms q = (Ret, p2) \<and> p_receive p2 = mdns_Receive zc \<and> p_user p2 = p_user q \<and> acts_in (p_trace p2) = acts_in (p_trace q)"
  using assms
proof (induction ms arbitrary: q)
  case (Cons m ms)
  then obtain x where x: "Msg m = User x" by auto
  let ?q = "emit [EDeliver (Msg m) (Sender m)] (q\<lparr>p_message := Msg m, p_sender := Sender m\<rparr>)"
  have i: "invokeMsg m q = (Ret, ?q)" using x Cons.prems(2) by (simp add: invokeMsg_def call_receive_def mdns_Receive_def emit_def)
  show ?case using Cons.IH [of ?q] Cons.prems by (auto simp: i emit_def)
qed simp

definition announcement :: "disc_options \<Rightarrow> zc_act" where
  "announcement cfg = RegisterProxy (do_id cfg) mdns_serviceName mdns_domain (do_port cfg) mdns_host (do_ip cfg) [''txtv=0'', ''lo=1'', ''la=2'']"

text \<open>
  The discovery actor cleans up after itself. If zeroconf makes a resolver and registers the
  announcement, the actor starts one search and announces the addresses of its options; its
  messages change nothing; when it is stopped it shuts down the server of that announcement and
  cancels the context of that search, twice, and that is all it did.
\<close>

theorem discovery_lifecycle:
  fixes p :: "(mdns_world, mdns_msg, zc_act) process"
  assumes "Producer (p_opts p) = NewMdnsDiscovery cfg" "Receive (p_opts p) = mdns_Receive zc" "Middleware (p_opts p) = []"
    "cfg = applyDiscoveryOptions now opts" "p_user p = NewMdnsDiscovery_world now opts" "p_mbuffer p = []" "p_trace p = []"
    "zc_NewResolver zc 0 = None" "zc_RegisterProxy zc 0 = None" "list_all (\<lambda>m. \<exists>x. Msg m = User x) ms"
  shows "\<exists>p1 p2 p3. proc_Start \<epsilon> (Suc f) p = (Ret, p1) \<and> invokeMsgs ms p1 = (Ret, p2) \<and> cleanup \<epsilon> cancel p2 = (Ret, p3)
    \<and> acts_in (p_trace p3) = [NewResolver, GoStartDiscovery 1, announcement cfg, Shutdown 0, CancelCtx 1, CancelCtx 1]"
proof -
  obtain p1 where p1: "proc_Start \<epsilon> (Suc f) p = (Ret, p1)" "p_receive p1 = mdns_Receive zc"
    "acts_in (p_trace p1) = [NewResolver, GoStartDiscovery 1, announcement cfg]"
    "an_server (mw_announcer (p_user p1)) = Some 0" "md_ctx (mw_mdns (p_user p1)) = 1"
    using assms(1-9)
    by (simp add: NewMdnsDiscovery_def NewMdnsDiscovery_world_def newAnnouncer_def applyMiddleware_foldr start_hooks_def call_receive_def mdns_Receive_def
        createResolver_def announcer_start_def announcement_def emit_def broadcast_now_def inbox_start_def Let_def)
  obtain p2 where p2: "invokeMsgs ms p1 = (Ret, p2)" "p_receive p2 = mdns_Receive zc" "p_user p2 = p_user p1" "acts_in (p_trace p2) = acts_in (p_trace p1)"
    using mdns_messages [OF assms(10) p1(2)] by auto
  have "\<exists>p3. cleanup \<epsilon> cancel p2 = (Ret, p3) \<and> acts_in (p_trace p3) = acts_in (p_trace p2) @ acted [Act (Shutdown 0), Act (CancelCtx 1), Act (CancelCtx 1)]"
    by (rule cleanup_acts [where u = "p_user p2"]) (simp add: p2(2,3) p1(4,5) mdns_Receive_def mdns_shutdown_def announcer_shutdown_def)
  then show ?thesis using p1(1,3) p2 by auto
qed

text \<open>
  The actor cannot fail at its first start. If zeroconf does not make the resolver or does not
  register the announcement, the restart first stops the actor, which shuts down a server that
  was never made; where that panics, the panic leaves \<open>tryRestart\<close> and with it the process, so that
  none of its restarts takes place.
\<close>

theorem discovery_fails_for_good:
  fixes p :: "(mdns_world, mdns_msg, zc_act) process"
  assumes "Producer (p_opts p) = NewMdnsDiscovery cfg" "Receive (p_opts p) = mdns_Receive zc" "Middleware (p_opts p) = []"
    "p_user p = NewMdnsDiscovery_world now opts" "p_trace p = []" "p_restarts p \<noteq> MaxRestarts (p_opts p)"
    "zc_NewResolver zc 0 \<noteq> None \<or> zc_RegisterProxy zc 0 \<noteq> None" "zc_nil_Shutdown zc = Some v" "\<forall>t. \<exists>stack. clean_trace \<epsilon> t = Inr stack"
  shows "\<exists>p'. proc_Start \<epsilon> (Suc (Suc f)) p = (Panic (RuntimePanic v), p') \<and> restarts_in (p_trace p') = 0 \<and> p_inbox p' = p_inbox p"
proof -
  obtain st where "\<forall>t. clean_trace \<epsilon> t = Inr (st t)" using assms(9) by metis
  then show ?thesis using assms(1-8)
    by (cases "zc_NewResolver zc 0"; cases "zc_RegisterProxy zc 0")
      (simp_all add: NewMdnsDiscovery_def NewMdnsDiscovery_world_def newAnnouncer_def start_hooks_def call_receive_def mdns_Receive_def
        createResolver_def announcer_start_def mdns_shutdown_def announcer_shutdown_def emit_def broadcast_now_def Let_def)
qed

subsection \<open>From an entry to a greeting\<close>

lemma broadcast_at:
  assumes "stream_ok es h e" "e_heap e h = ProcObj p mb"
  shows "eng_Broadcast m e = (SDone, e\<lparr>e_heap := (e_heap e)(h := ProcObj p (mb @ [\<lparr>Msg = m, Sender = None\<rparr>]))\<rparr>)"
  using eng_Broadcast_arrives [OF assms(1)] assms(2) by (simp add: proc_send_def)

text \<open>One turn of the event stream with one subscriber, an actor of this engine.\<close>

lemma stream_turn_one:
  assumes "stream_ok es h e" "e_heap e h = ProcObj p [\<lparr>Msg = User x, Sender = src\<rparr>]" "local_actor q g e" "e_heap e g = ProcObj q mb" "g \<noteq> h"
  shows "stream_turn h [(a, q)] st e =
    e\<lparr>e_heap := (e_heap e)(h := ProcObj p [], g := ProcObj q (mb @ [\<lparr>Msg = User x, Sender = Some p\<rparr>]))\<rparr>"
proof -
  let ?e = "e\<lparr>e_heap := (e_heap e)(h := ProcObj p [])\<rparr>" and ?c = "newContext background p (User x)"
  have s: "stream_ok es h ?e" using assms(1,2) by (auto simp: stream_ok_def)
  have l: "local_actor q g ?e" using assms(3,5) by (auto simp: local_actor_def)
  have "SendWithSender (Some q) (User x) (Some p) ?e = (SDone, ?e\<lparr>e_heap := (e_heap ?e)(g := ProcObj q (mb @ [\<lparr>Msg = User x, Sender = Some p\<rparr>]))\<rparr>)"
    using SendWithSender_arrives [OF s, of "Some q" "User x" "Some p"] local_actor_route [OF l] assms(4,5) by (simp add: arrive_def proc_send_def)
  then have "stream_Receive [(a, q)] ?c st ?e = (st, event_Log (User x), SDone, ?e\<lparr>e_heap := (e_heap ?e)(g := ProcObj q (mb @ [\<lparr>Msg = User x, Sender = Some p\<rparr>]))\<rparr>)"
    by (simp add: stream_Receive_def newContext_def ctx_Forward_def)
  then show ?thesis using assms(2) by (simp add: stream_turn_def)
qed

text \<open>
  C35. A discovered engine is greeted. An entry of another engine that the search finds goes to the
  event stream; the stream's turn hands it, with all IPv4 addresses of the entry in their
  order, to the subscribed chat actor; and that sends a greeting to the chat actor at the first of these
  addresses, with itself as the sender.
\<close>

theorem discovery_greets:
  assumes "stream_ok es h e" "e_heap e h = ProcObj es []" "local_actor chat g e" "e_heap e g = ProcObj chat mb" "g \<noteq> h"
    "e_remote e = Some rm" "Instance entry \<noteq> md_id d" "md_engine d" "ms_engine s"
    "AddrIPv4 entry = ip # ips" "addr = IP_String ip @ '':'' @ Itoa (Port entry)" "addr \<noteq> e_address e"
    "event = DiscoveryEvent (Instance entry) (map (\<lambda>i. IP_String i @ '':'' @ Itoa (Port entry)) (AddrIPv4 entry))"
  shows "\<exists>e1 e2 e3. sendDiscoveryEvent entry d e = (Inr (), e1) \<and> e2 = stream_turn h [(a, chat)] st e1
    \<and> e_heap e2 h = ProcObj es [] \<and> e_heap e2 g = ProcObj chat (mb @ [\<lparr>Msg = User event, Sender = Some es\<rparr>])
    \<and> mchat_Receive a (newContext ctx chat (User event)) s e2 = (Inr (s, []), e3)
    \<and> e_remote e3 = Some (rm\<lparr>rem_sent := rem_sent rm @ [(NewPID addr ''chat/chat'', User (ChatMessage ''hello there''), Some chat)]\<rparr>)"
proof -
  let ?e1 = "e\<lparr>e_heap := (e_heap e)(h := ProcObj es [\<lparr>Msg = User event, Sender = None\<rparr>])\<rparr>"
  have "event_addrs (AddrIPv4 entry) (Port entry) [] = de_Addr event" using assms(13) by (simp add: event_addrs_map)
  then have s1: "sendDiscoveryEvent entry d e = (Inr (), ?e1)"
    using assms(7,8,13) broadcast_at [OF assms(1,2)] by (simp add: sendDiscoveryEvent_def Let_def)
  have o1: "stream_ok es h ?e1" using assms(1) by (auto simp: stream_ok_def)
  have l1: "local_actor chat g ?e1" using assms(3,5) by (auto simp: local_actor_def)
  have t: "stream_turn h [(a, chat)] st ?e1 = ?e1\<lparr>e_heap := (e_heap ?e1)(h := ProcObj es [], g := ProcObj chat (mb @ [\<lparr>Msg = User event, Sender = Some es\<rparr>]))\<rparr>" (is "_ = ?e2")
    using stream_turn_one [OF o1 _ l1 _ assms(5), of es event None mb a st] assms(4,5) by simp
  have o2: "stream_ok es h ?e2" using assms(1,5) by (auto simp: stream_ok_def)
  have "a_Send (Some (NewPID addr ''chat/chat'')) (User (ChatMessage ''hello there'')) (Some chat) ?e2 =
      (Inr (), ?e2\<lparr>e_remote := Some (rm\<lparr>rem_sent := rem_sent rm @ [(NewPID addr ''chat/chat'', User (ChatMessage ''hello there''), Some chat)]\<rparr>)\<rparr>)"
    using SendWithSender_arrives [OF o2] assms(6,12) by (simp add: a_Send_def route_def arrive_def NewPID_def)
  then have "mchat_Receive a (newContext ctx chat (User event)) s ?e2 =
      (Inr (s, []), ?e2\<lparr>e_remote := Some (rm\<lparr>rem_sent := rem_sent rm @ [(NewPID addr ''chat/chat'', User (ChatMessage ''hello there''), Some chat)]\<rparr>)\<rparr>)"
    using assms(9-11,13) by (simp add: mchat_Receive_def newContext_def bindA_run ret_def Let_def)
  then show ?thesis using s1 t assms(5) by auto
qed

text \<open>
  What the chat actor does not survive. An entry of another engine without an IPv4 address is
  put on the event stream like any other, and the chat actor panics on it; an entry of this engine
  is dropped.
\<close>

theorem discovery_without_address:
  assumes "stream_ok es h e" "e_heap e h = ProcObj es []" "md_engine d" "AddrIPv4 entry = []"
  shows "(Instance entry = md_id d \<longrightarrow> sendDiscoveryEvent entry d e = (Inr (), e))
    \<and> (Instance entry \<noteq> md_id d \<longrightarrow>
        (\<exists>m e1. sendDiscoveryEvent entry d e = (Inr (), e1) \<and> e_heap e1 h = ProcObj es [\<lparr>Msg = m, Sender = None\<rparr>]
          \<and> mchat_Receive a (newContext ctx chat m) s e1 = (Inl (HPanic IndexOutOfRange), e1)))"
  using assms(3,4) broadcast_at [OF assms(1,2)]
  by (simp add: sendDiscoveryEvent_def Let_def ret_def mchat_Receive_def newContext_def of_res_def)

subsection \<open>Witnesses\<close>

definition example_mdns_process :: "zeroconf_pkg \<Rightarrow> (mdns_world, mdns_msg, zc_act) process" where
  "example_mdns_process zc = newProcess ''10.0.0.7:4000'' (NewMdnsDiscovery_world 99 [WithAnnounceAddr ''10.0.0.7'' 4000])
     ((DefaultOpts (NewMdnsDiscovery (applyDiscoveryOptions 99 [WithAnnounceAddr ''10.0.0.7'' 4000])) (mdns_Receive zc))\<lparr>Kind := ''mdns''\<rparr>)"

lemma example_mdns_process_simps:
  "Producer (p_opts (example_mdns_process zc)) = NewMdnsDiscovery (applyDiscoveryOptions 99 [WithAnnounceAddr ''10.0.0.7'' 4000])"
  "Receive (p_opts (example_mdns_process zc)) = mdns_Receive zc" "Middleware (p_opts (example_mdns_process zc)) = []"
  "p_user (example_mdns_process zc) = NewMdnsDiscovery_world 99 [WithAnnounceAddr ''10.0.0.7'' 4000]"
  "p_mbuffer (example_mdns_process zc) = []" "p_trace (example_mdns_process zc) = []"
  "p_restarts (example_mdns_process zc) \<noteq> MaxRestarts (p_opts (example_mdns_process zc))"
  by (simp_all add: example_mdns_process_def newProcess_def DefaultOpts_def defaultMaxRestarts_def)

theorem discovery_lifecycle_witness:
  "\<exists>p1 p3. proc_Start example_process_env 1 (example_mdns_process \<lparr>zc_NewResolver = (\<lambda>_. None), zc_RegisterProxy = (\<lambda>_. None), zc_nil_Shutdown = Some NilDeref\<rparr>) = (Ret, p1)
     \<and> cleanup example_process_env None p1 = (Ret, p3)
     \<and> acts_in (p_trace p3) = [NewResolver, GoStartDiscovery 1,
         RegisterProxy ''engine_99'' ''_actor.goactors_'' ''local.'' 4000 ''pc1'' [''10.0.0.7''] [''txtv=0'', ''lo=1'', ''la=2''], Shutdown 0, CancelCtx 1, CancelCtx 1]"
proof -
  let ?zc = "\<lparr>zc_NewResolver = (\<lambda>_. None), zc_RegisterProxy = (\<lambda>_. None), zc_nil_Shutdown = Some NilDeref\<rparr>"
  note t = discovery_lifecycle [OF example_mdns_process_simps(1-3) refl example_mdns_process_simps(4-6), of ?zc "[]" example_process_env 0 None]
  have "announcement (applyDiscoveryOptions 99 [WithAnnounceAddr ''10.0.0.7'' 4000])
      = RegisterProxy ''engine_99'' ''_actor.goactors_'' ''local.'' 4000 ''pc1'' [''10.0.0.7''] [''txtv=0'', ''lo=1'', ''la=2'']"
    by code_simp
  then show ?thesis using t by auto
qed

theorem discovery_fails_for_good_witness:
  "\<exists>p'. proc_Start example_process_env 2 (example_mdns_process \<lparr>zc_NewResolver = (\<lambda>_. None), zc_RegisterProxy = (\<lambda>n. if n = 0 then Some ''no interface'' else None), zc_nil_Shutdown = Some NilDeref\<rparr>)
     = (Panic (RuntimePanic NilDeref), p') \<and> restarts_in (p_trace p') = 0"
proof -
  let ?zc = "\<lparr>zc_NewResolver = (\<lambda>_. None), zc_RegisterProxy = (\<lambda>n :: nat. if n = 0 then Some ''no interface'' else None), zc_nil_Shutdown = Some NilDeref\<rparr>"
  have "\<forall>t. \<exists>stack. clean_trace example_process_env t = Inr stack" by (simp add: cleanTrace_def example_process_env_def)
  from discovery_fails_for_good [OF example_mdns_process_simps(1-4,6,7) _ _ this, of ?zc NilDeref 0] show ?thesis by (auto simp: eval_nat_numeral)
qed

lemma example_chat_engine:
  "\<exists>(e :: mdns_msg engine) es. stream_ok es 0 e \<and> e_heap e 0 = ProcObj es [] \<and> local_actor (NewPID ''local'' ''chat/chat'') 1 e
     \<and> e_heap e 1 = ProcObj (NewPID ''local'' ''chat/chat'') [] \<and> e_remote e = Some \<lparr>rem_Address = ''local'', rem_sent = []\<rparr> \<and> e_address e = ''local''"
proof -
  let ?es = "stream_pid ''local'' 5" and ?q = "NewPID ''local'' ''chat/chat''"
  obtain e0 :: "mdns_msg engine" where e0: "stream_ok ?es 0 e0" "e_address e0 = ''local''"
    "e_Registry e0 = \<lparr>reg_lookup = [ID ?es \<mapsto> 0], responses = Map.empty\<rparr>" using example_engine by blast
  let ?e = "e0\<lparr>e_heap := (e_heap e0)(0 := ProcObj ?es [], 1 := ProcObj ?q []), e_remote := Some \<lparr>rem_Address = ''local'', rem_sent = []\<rparr>,
     e_Registry := \<lparr>reg_lookup = [ID ?es \<mapsto> 0, ''chat/chat'' \<mapsto> 1], responses = Map.empty\<rparr>\<rparr>"
  have "stream_ok ?es 0 ?e" using e0 by (simp add: stream_ok_def stream_pid_id)
  moreover have "local_actor ?q 1 ?e" using e0(2) by (simp add: local_actor_def reg_get_def isResponse_def responsePrefix_def)
  ultimately show ?thesis using e0(2) by (intro exI [of _ ?e] exI [of _ ?es]) simp
qed

theorem discovery_greets_witness:
  "\<exists>(e :: mdns_msg engine) e1 e3 c. sendDiscoveryEvent \<lparr>Instance = ''engine_2'', AddrIPv4 = [(10, 0, 0, 9)], Port = 4000\<rparr>
       \<lparr>md_id = ''engine_1'', md_resolver = True, md_engine = True, md_ctx = 1\<rparr> e = (Inr (), e1)
     \<and> mchat_Receive 7 c \<lparr>ms_engine = True\<rparr> (stream_turn 0 [(7, NewPID ''local'' ''chat/chat'')] newEventStream e1) = (Inr (\<lparr>ms_engine = True\<rparr>, []), e3)
     \<and> map_option rem_sent (e_remote e3) = Some [(NewPID ''10.0.0.9:4000'' ''chat/chat'', User (ChatMessage ''hello there''), Some (NewPID ''local'' ''chat/chat''))]"
proof -
  obtain e :: "mdns_msg engine" and es where e: "stream_ok es 0 e" "e_heap e 0 = ProcObj es []" "local_actor (NewPID ''local'' ''chat/chat'') 1 e"
    "e_heap e 1 = ProcObj (NewPID ''local'' ''chat/chat'') []" "e_remote e = Some \<lparr>rem_Address = ''local'', rem_sent = []\<rparr>" "e_address e = ''local''"
    using example_chat_engine by blast
  have a: "IP_String (10, 0, 0, 9) @ '':'' @ Itoa 4000 = ''10.0.0.9:4000''" by code_simp
  let ?entry = "\<lparr>Instance = ''engine_2'', AddrIPv4 = [(10, 0, 0, 9)], Port = 4000\<rparr>" and ?d = "\<lparr>md_id = ''engine_1'', md_resolver = True, md_engine = True, md_ctx = 1\<rparr>"
  from discovery_greets [OF e(1-4) _ e(5), of ?entry ?d "\<lparr>ms_engine = True\<rparr>" "(10, 0, 0, 9)" "[]" _ _ 7 newEventStream 0] e(6) a show ?thesis by fastforce
qed

theorem discovery_without_address_witness:
  "\<exists>(e :: mdns_msg engine) m e1. sendDiscoveryEvent \<lparr>Instance = ''engine_2'', AddrIPv4 = [], Port = 4000\<rparr>
       \<lparr>md_id = ''engine_1'', md_resolver = True, md_engine = True, md_ctx = 1\<rparr> e = (Inr (), e1)
     \<and> mchat_Receive 7 (newContext 0 (NewPID ''local'' ''chat/chat'') m) mchat_New e1 = (Inl (HPanic IndexOutOfRange), e1)"
proof -
  obtain e :: "mdns_msg engine" and es where e: "stream_ok es 0 e" "e_heap e 0 = ProcObj es []" using example_chat_engine by blast
  from discovery_without_address [OF e, of "\<lparr>md_id = ''engine_1'', md_resolver = True, md_engine = True, md_ctx = 1\<rparr>"
      "\<lparr>Instance = ''engine_2'', AddrIPv4 = [], Port = 4000\<rparr>" 7 0 "NewPID ''local'' ''chat/chat''" mchat_New] show ?thesis by auto
qed

end
