(* ===== verification/Steady.thy ===== *)
theory Steady
  imports AppActor Delivery
begin

section \<open>Receivers that do not panic\<close>

text \<open>
  The interface between a program and the process that runs its actor, for actors that handle
  their messages without panicking: \<open>at s p\<close> says that the process \<open>p\<close> is in the state \<open>s\<close>, and
  \<open>step\<close> is what a message does to the state. Whatever batches the inbox forms of a list of messages
  that ends with a poison pill, the process handles all of them in order and is then cleaned up.
\<close>

text \<open>Batches that are empty do nothing.\<close>

lemma empty_batches: "\<forall>b \<in> set bs. b = [] \<Longrightarrow> \<exists>n. run_batches \<epsilon> (Suc f) bs p = (Ret, p\<lparr>p_mcount := n\<rparr>)"
proof (induction bs arbitrary: p)
  case Nil
  have "p = p\<lparr>p_mcount := p_mcount p\<rparr>" by simp
  then show ?case by (metis run_batches.simps(1))
next
  case (Cons b bs)
  have "proc_Invoke \<epsilon> (Suc f) b p = (Ret, p\<lparr>p_mcount := 0\<rparr>)" using Cons.prems by (simp add: invoke_loop_done)
  then show ?case using Cons.IH [of "p\<lparr>p_mcount := 0\<rparr>"] Cons.prems by auto
qed

locale steady_actor =
  fixes at :: "'s \<Rightarrow> ('u, 'm, 'a) process \<Rightarrow> bool"
    and step :: "'m envelope \<Rightarrow> 's \<Rightarrow> 's"
    and takes :: "'m envelope \<Rightarrow> bool"
  assumes takes_plain: "takes m \<Longrightarrow> \<not> is_pill (Msg m)"
    and step_law: "at s p \<Longrightarrow> takes m \<Longrightarrow> \<exists>q. invokeMsg m p = (Ret, q) \<and> at (step m s) q"
    and count_law: "at s p \<Longrightarrow> at s (p\<lparr>p_mcount := n\<rparr>)"
begin

lemma steady_prefix:
  assumes "at s p" "list_all takes pre"
  shows "\<exists>q. at (fold step pre s) q
    \<and> invoke_loop \<epsilon> (pre @ rest) 0 0 0 p = invoke_loop \<epsilon> (pre @ rest) (length pre) (length pre) (length pre) q"
  using assms(2)
proof (induction pre arbitrary: rest rule: rev_induct)
  case Nil
  then show ?case using assms(1) by auto
next
  case (snoc m pre)
  obtain q where q: "at (fold step pre s) q"
    "invoke_loop \<epsilon> (pre @ m # rest) 0 0 0 p = invoke_loop \<epsilon> (pre @ m # rest) (length pre) (length pre) (length pre) q"
    using snoc.IH [of "m # rest"] snoc.prems by auto
  have m: "takes m" "\<not> is_pill (Msg m)" using snoc.prems takes_plain by simp_all
  obtain q1 where q1: "invokeMsg m (q\<lparr>p_mcount := p_mcount q - 1\<rparr>) = (Ret, q1)" "at (step m (fold step pre s)) q1"
    using step_law [OF count_law [OF q(1)] m(1)] by blast
  then have "invoke_loop \<epsilon> (pre @ m # rest) (length pre) (length pre) (length pre) q =
      invoke_loop \<epsilon> (pre @ m # rest) (Suc (length pre)) (Suc (length pre)) (Suc (length pre)) q1"
    using m by (subst invoke_loop_msg) auto
  then show ?case using q q1(2) by (intro exI [of _ q1]) auto
qed

lemma steady_batch:
  assumes "at s p" "list_all takes ms"
  shows "\<exists>q. proc_Invoke \<epsilon> (Suc f) ms p = (Ret, q) \<and> at (fold step ms s) q"
proof -
  obtain q where q: "at (fold step ms s) q"
    "invoke_loop \<epsilon> ms 0 0 0 (p\<lparr>p_mcount := of_nat (length ms)\<rparr>) = invoke_loop \<epsilon> ms (length ms) (length ms) (length ms) q"
    using steady_prefix [OF count_law [OF assms(1)] assms(2), of \<epsilon> "[]" "of_nat (length ms)"] by auto
  then have "invoke_loop \<epsilon> ms 0 0 0 (p\<lparr>p_mcount := of_nat (length ms)\<rparr>) = (Ret, length ms, q)" by (simp add: invoke_loop_done)
  then show ?thesis using q(1) by simp
qed

lemma steady_runs:
  assumes "at s p" "list_all takes (concat bs)"
  shows "\<exists>q. run_batches \<epsilon> (Suc f) bs p = (Ret, q) \<and> at (fold step (concat bs) s) q"
  using assms
proof (induction bs arbitrary: p s)
  case (Cons b bs)
  have n: "list_all takes b" "list_all takes (concat bs)" using Cons.prems(2) by simp_all
  obtain q where q: "proc_Invoke \<epsilon> (Suc f) b p = (Ret, q)" "at (fold step b s) q" using steady_batch [OF Cons.prems(1) n(1)] by blast
  from Cons.IH [OF q(2) n(2)] q(1) show ?case by simp
qed simp

lemma steady_last_batch:
  assumes "at s p" "list_all takes ms" "\<And>p'. at (fold step ms s) p' \<Longrightarrow> \<exists>q. cleanup \<epsilon> c p' = (Ret, q) \<and> Q q"
  shows "\<exists>q. proc_Invoke \<epsilon> (Suc f) (ms @ [\<lparr>Msg = PoisonPill c True, Sender = src\<rparr>]) p = (Ret, q) \<and> Q q"
proof -
  let ?pill = "\<lparr>Msg = PoisonPill c True, Sender = src\<rparr>"
  let ?p = "p\<lparr>p_mcount := of_nat (length (ms @ [?pill]))\<rparr>"
  obtain q where q: "at (fold step ms s) q"
    "invoke_loop \<epsilon> (ms @ [?pill]) 0 0 0 ?p = invoke_loop \<epsilon> (ms @ [?pill]) (length ms) (length ms) (length ms) q"
    using steady_prefix [OF count_law [OF assms(1)] assms(2)] by blast
  let ?q = "q\<lparr>p_mcount := p_mcount q - 1\<rparr>"
  have "invokeMsgs [?pill] ?q = (Ret, ?q)" by (simp add: invokeMsg_def)
  then have l: "invoke_loop \<epsilon> (ms @ [?pill]) (length ms) (length ms) (length ms) q = (case cleanup \<epsilon> c ?q of (r, p3) \<Rightarrow> (r, Suc (length ms), p3))"
    by (subst invoke_loop_pill [where c = c and g = True]) simp_all
  obtain p3 where "cleanup \<epsilon> c ?q = (Ret, p3)" "Q p3" using assms(3) [OF count_law [OF q(1)]] by blast
  then show ?thesis using q l by auto
qed

lemma steady_stops:
  assumes "at s p" "list_all takes ms" "concat bs = ms @ [\<lparr>Msg = PoisonPill c True, Sender = src\<rparr>]"
    "\<And>p'. at (fold step ms s) p' \<Longrightarrow> \<exists>q. cleanup \<epsilon> c p' = (Ret, q) \<and> Q q" "\<And>q n. Q q \<Longrightarrow> Q (q\<lparr>p_mcount := n\<rparr>)"
  shows "\<exists>q. run_batches \<epsilon> (Suc f) bs p = (Ret, q) \<and> Q q"
  using assms(1-4)
proof (induction bs arbitrary: p ms s)
  case (Cons b bs)
  let ?pill = "\<lparr>Msg = PoisonPill c True, Sender = src\<rparr>"
  have c: "b @ concat bs = ms @ [?pill]" using Cons.prems(3) by simp
  then consider ms2 where "ms = b @ ms2" "concat bs = ms2 @ [?pill]" | "b = ms @ [?pill]" "concat bs = []"
    by (cases "concat bs" rule: rev_cases) auto
  then show ?case
  proof cases
    case 1
    have n: "list_all takes b" "list_all takes ms2" using Cons.prems(2) 1(1) by simp_all
    obtain q where q: "proc_Invoke \<epsilon> (Suc f) b p = (Ret, q)" "at (fold step b s) q"
      using steady_batch [OF Cons.prems(1) n(1)] by blast
    from Cons.IH [OF q(2) n(2) 1(2)] Cons.prems(4) 1(1) q(1) show ?thesis by simp
  next
    case 2
    obtain q where q: "proc_Invoke \<epsilon> (Suc f) b p = (Ret, q)" "Q q"
      using steady_last_batch [OF Cons.prems(1,2,4)] 2(1) by blast
    have "\<forall>b \<in> set bs. b = []" using 2(2) by simp
    from empty_batches [OF this, of \<epsilon> f q] q assms(5) show ?thesis by auto
  qed
qed simp

end

end
