(* ===== verification/Starters.thy ===== *)
theory Starters
  imports Middlewares Steady
begin

section \<open>The small programs (examples/helloworld, eventstream, remote, childprocs)\<close>

text \<open>
  Programs whose actors print what they receive. A \<open>main\<close> is a step on the engine; what the actor
  does with its inbox is shown on the process, for every way the inbox can split it into
  batches. What is printed is an action of the receiver.
\<close>

subsection \<open>Actors that print\<close>

text \<open>The form all these receivers have: what they print depends on the message only.\<close>

definition printer :: "('m msg \<Rightarrow> 'a list) \<Rightarrow> (unit, 'm, 'a) receive_func" where
  "printer say c u = (u, map Act (say (cv_message c)), None)"

definition said :: "('m msg \<Rightarrow> 'a list) \<Rightarrow> 'm envelope list \<Rightarrow> 'a list" where
  "said say ms = concat (map (\<lambda>m. say (Msg m)) ms)"

lemma said_simps [simp]: "said say [] = []" "said say (m # ms) = say (Msg m) @ said say ms" "said say (ms @ ns) = said say ms @ said say ns"
  by (simp_all add: said_def)

lemma add_children_acts [simp]: "add_children (map Act as) cs = cs"
  by (induction as) simp_all

lemma acted_acts [simp]: "acted (map Act as) = as"
  by (induction as) simp_all

lemma acts_in_acts [simp]: "acts_in (map (EAct \<circ> Act) as) = as"
  by (induction as) simp_all

text \<open>\<open>q\<close> is a printing process that has printed \<open>xs\<close> more than \<open>p\<close>.\<close>

definition printed :: "('m msg \<Rightarrow> 'a list) \<Rightarrow> 'a list \<Rightarrow> (unit, 'm, 'a) process \<Rightarrow> (unit, 'm, 'a) process \<Rightarrow> bool" where
  "printed say xs p q \<longleftrightarrow> p_receive q = printer say \<and> acts_in (p_trace q) = acts_in (p_trace p) @ xs"

definition printing :: "('m msg \<Rightarrow> 'a list) \<Rightarrow> 'a list \<Rightarrow> (unit, 'm, 'a) process \<Rightarrow> bool" where
  "printing say xs p \<longleftrightarrow> p_receive p = printer say \<and> acts_in (p_trace p) = xs"

interpretation printers: steady_actor "printing say" "\<lambda>m xs. xs @ say (Msg m)" "\<lambda>m. \<not> is_pill (Msg m)" for say
  by unfold_locales (simp_all add: printing_def invokeMsg_def call_receive_def printer_def emit_def)

lemma fold_said [simp]: "fold (\<lambda>m xs. xs @ say (Msg m)) ms xs = xs @ said say ms"
  by (induction ms arbitrary: xs) simp_all

lemma printer_batch:
  assumes "p_receive p = printer say" "no_pills ms"
  shows "\<exists>q. proc_Invoke \<epsilon> (Suc f) ms p = (Ret, q) \<and> printed say (said say ms) p q"
proof -
  have "printing say (acts_in (p_trace p)) p" "list_all (\<lambda>m. \<not> is_pill (Msg m)) ms" using assms by (simp_all add: printing_def no_pills_def)
  from printers.steady_batch [OF this, of \<epsilon> f] show ?thesis by (auto simp: printing_def printed_def)
qed

lemma printer_stops:
  assumes "p_receive p = printer say" "no_pills ms" "concat bs = ms @ [\<lparr>Msg = PoisonPill (Some ctx) True, Sender = src\<rparr>]"
  shows "\<exists>q. run_batches \<epsilon> (Suc f) bs p = (Ret, q) \<and> printed say (said say ms @ say Stopped) p q \<and> last (p_trace q) = ECancel ctx"
proof (rule printers.steady_stops [OF _ _ assms(3)])
  show "printing say (acts_in (p_trace p)) p" "list_all (\<lambda>m. \<not> is_pill (Msg m)) ms" using assms(1,2) by (simp_all add: printing_def no_pills_def)
  show "\<exists>q. cleanup \<epsilon> (Some ctx) p' = (Ret, q) \<and> printed say (said say ms @ say Stopped) p q \<and> last (p_trace q) = ECancel ctx"
    if "printing say (fold (\<lambda>m xs. xs @ say (Msg m)) ms (acts_in (p_trace p))) p'" for p'
    using that cleanup_ends [of p' "()" "map Act (say Stopped)" \<epsilon> "Some ctx"] by (auto simp: printing_def printer_def printed_def)
qed (simp add: printed_def)

lemma printer_starts:
  fixes p :: "(unit, 'm, 'a) process"
  assumes "Producer (p_opts p) = (\<lambda>u. ((), None))" "Receive (p_opts p) = printer say" "Middleware (p_opts p) = []" "p_mbuffer p = []"
  shows "\<exists>q. proc_Start \<epsilon> (Suc f) p = (Ret, q) \<and> printed say (say Initialized @ say Started) p q"
  using assms
  by (auto simp: applyMiddleware_foldr start_hooks_def call_receive_def printer_def printed_def emit_def broadcast_now_def inbox_start_def)

subsection \<open>Hello world\<close>

definition a_Spawn :: "string \<Rightarrow> (('u, 'm, 'x) opts \<Rightarrow> ('u, 'm, 'x) opts) list \<Rightarrow> nat \<Rightarrow> ('u, 'm, 'x) opts \<Rightarrow> ('m, pid) act" where
  "a_Spawn kind fs random op e = (case Spawn kind fs random op e of (q, r, e') \<Rightarrow> bindA (\<lambda>_. of_send (r, e')) (\<lambda>_. ret q) e)"

definition hello_newFoo :: "unit \<Rightarrow> unit \<times> string panic_val option" where
  "hello_newFoo u = ((), None)"

definition hello_Receive :: "(unit, string, string) receive_func" where
  "hello_Receive c u = (case cv_message c of
      Started \<Rightarrow> (u, [Act ''actor started''], None)
    | Stopped \<Rightarrow> (u, [Act ''actor stopped''], None)
    | User data \<Rightarrow> (u, [Act (''actor has received '' @ data)], None)
    | _ \<Rightarrow> (u, [], None))"

text \<open>\<open>main\<close> up to the wait for the context of the pill; it returns the PID and that context.\<close>

definition hello_main :: "nat \<Rightarrow> (string, pid \<times> nat) act" where
  "hello_main random =
     bindA (a_Spawn ''my_actor'' [] random (DefaultOpts hello_newFoo hello_Receive))
       (\<lambda>pid. bindA (a_each (\<lambda>_. a_Send (Some pid) (User ''hello world!'') None) [0..<5])
          (\<lambda>_. bindA (a_Poison (Some pid)) (\<lambda>ctx. ret (pid, ctx))))"

definition hello_says :: "string msg \<Rightarrow> string list" where
  "hello_says m = (case m of Started \<Rightarrow> [''actor started''] | Stopped \<Rightarrow> [''actor stopped''] | User data \<Rightarrow> [''actor has received '' @ data] | _ \<Rightarrow> [])"

lemma hello_prints: "hello_Receive = printer hello_says"
  by (simp add: fun_eq_iff hello_Receive_def printer_def hello_says_def split: msg.split)

lemma a_Spawn_opts_free:
  assumes "eng_inv e" "stream_ok es h e" "q = NewPID (e_address e) (Kind (spawn_opts kind fs random op) @ pidSeparator @ OptID (spawn_opts kind fs random op))"
    "reg_lookup (e_Registry e) (ID q) = None"
  shows "\<exists>e'. a_Spawn kind fs random op e = (Inr q, e') \<and> eng_inv e' \<and> stream_ok es h e' \<and> local_actor q (e_size e) e'
    \<and> e_heap e' = (e_heap e)(e_size e := ProcObj q []) \<and> e_address e' = e_address e \<and> e_size e' = Suc (e_size e)
    \<and> reg_lookup (e_Registry e') = (reg_lookup (e_Registry e))(ID q \<mapsto> e_size e) \<and> (\<forall>p k. local_actor p k e \<and> ID p \<noteq> ID q \<longrightarrow> local_actor p k e')"
proof -
  have "Address q = e_address e" by (simp add: assms(3))
  from SpawnProc_actor [OF assms(1,2) this assms(4)] obtain e' where e': "SpawnProc (ProcObj q []) e = (q, SDone, e')"
    "eng_inv e'" "stream_ok es h e'" "local_actor q (e_size e) e'"
    "e_heap e' = (e_heap e)(e_size e := ProcObj q [])" "e_size e' = Suc (e_size e)" "e_address e' = e_address e"
    "reg_lookup (e_Registry e') = (reg_lookup (e_Registry e))(ID q \<mapsto> e_size e)" "\<forall>p k. local_actor p k e \<and> ID p \<noteq> ID q \<longrightarrow> local_actor p k e'" by metis
  then show ?thesis by (intro exI [of _ e']) (simp add: a_Spawn_def Spawn_def Let_def assms(3) [symmetric] bindA_def ret_def)
qed

lemma a_Spawn_free:
  assumes "eng_inv e" "stream_ok es h e" "q = NewPID (e_address e) (kind @ pidSeparator @ Itoa (int random))" "reg_lookup (e_Registry e) (ID q) = None"
  shows "\<exists>e'. a_Spawn kind [] random (DefaultOpts i r) e = (Inr q, e') \<and> eng_inv e' \<and> stream_ok es h e' \<and> local_actor q (e_size e) e'
    \<and> e_heap e' = (e_heap e)(e_size e := ProcObj q []) \<and> e_address e' = e_address e \<and> e_size e' = Suc (e_size e)
    \<and> reg_lookup (e_Registry e') = (reg_lookup (e_Registry e))(ID q \<mapsto> e_size e) \<and> (\<forall>p k. local_actor p k e \<and> ID p \<noteq> ID q \<longrightarrow> local_actor p k e')"
  using assms(3) by (intro a_Spawn_opts_free [OF assms(1,2) _ assms(4)]) (simp add: spawn_opts_def DefaultOpts_def Let_def)

lemma post_same: "a_each (\<lambda>_. a_Send q m src) xs = post_all (replicate (length xs) (q, m, src))"
  by (induction xs) (simp_all add: post_all_def)

lemma local_mail_same: "local_actor q g e \<Longrightarrow> concat (map (mail_for es h e g) (replicate n (Some q, m, src))) = replicate n \<lparr>Msg = m, Sender = src\<rparr>"
  by (induction n) (simp_all add: local_actor_mail)

lemma local_actor_mailbox: "local_actor q g e \<Longrightarrow> local_actor q g (e\<lparr>e_contexts := n, e_heap := (e_heap e)(g := ProcObj q mb)\<rparr>)"
  by (simp add: local_actor_def)

text \<open>
  C25. Hello world, from \<open>main\<close> to the last line it prints. \<open>main\<close> spawns the actor and leaves five
  messages and a pill in its inbox. In whatever batches the inbox hands them over, the process
  prints that it started, the five messages and that it stopped, and last cancels the context
  that \<open>main\<close> waits for.
\<close>

theorem hello_world:
  fixes p :: "(unit, string, string) process"
  assumes "eng_inv e" "stream_ok es h e" "reg_lookup (e_Registry e) (''my_actor/'' @ Itoa (int random)) = None"
    "p = newProcess (e_address e) () (spawn_opts ''my_actor'' [] random (DefaultOpts hello_newFoo hello_Receive))"
  shows "\<exists>q ctx e' g. hello_main random e = (Inr (q, ctx), e') \<and> p_pid p = q \<and> local_actor q g e'
    \<and> (\<forall>bs. concat bs = mailbox (e_heap e' g) \<longrightarrow>
        (\<exists>p1 p2. proc_Start \<epsilon> (Suc f) p = (Ret, p1) \<and> run_batches \<epsilon> (Suc f) bs p1 = (Ret, p2) \<and> last (p_trace p2) = ECancel ctx
          \<and> acts_in (p_trace p2) = ''actor started'' # replicate 5 ''actor has received hello world!'' @ [''actor stopped'']))"
proof -
  let ?q = "NewPID (e_address e) (''my_actor'' @ pidSeparator @ Itoa (int random))" and ?g = "e_size e"
  let ?m = "\<lparr>Msg = User ''hello world!'', Sender = None\<rparr> :: string envelope"
  have "reg_lookup (e_Registry e) (ID ?q) = None" using assms(3) by (simp add: pidSeparator_def)
  from a_Spawn_free [OF assms(1,2) refl this] obtain e1 where e1: "a_Spawn ''my_actor'' [] random (DefaultOpts hello_newFoo hello_Receive) e = (Inr ?q, e1)"
    "stream_ok es h e1" "local_actor ?q ?g e1" "e_heap e1 = (e_heap e)(?g := ProcObj ?q [])" by blast
  let ?ls = "replicate 5 (Some ?q, User ''hello world!'', None) :: string letter list"
  have good: "\<forall>l \<in> set ?ls. good_letter es h e1 l" using local_actor_good [OF e1(3)] by simp
  obtain e2 where e2: "post_all ?ls e1 = (Inr (), e2)" "same_routes e1 e2" "e_heap e2 ?g = ProcObj ?q (replicate 5 ?m)"
    using post_all_delivers [OF e1(2) good] e1(4) local_mail_same [OF e1(3), of es h 5] by fastforce
  let ?ctx = "e_contexts e2" and ?pill = "\<lparr>Msg = PoisonPill (Some (e_contexts e2)) True, Sender = None\<rparr> :: string envelope"
  note l2 = same_routes_actor [OF e2(2) e1(3)]
  obtain e3 where e3: "a_Poison (Some ?q) e2 = (Inr ?ctx, e3)" "e_heap e3 ?g = ProcObj ?q (replicate 5 ?m @ [?pill])" "local_actor ?q ?g e3"
    using a_Poison_local [OF l2 e2(3)] local_actor_mailbox [OF l2] by auto
  have main: "hello_main random e = (Inr (?q, ?ctx), e3)"
    using e1(1) e2(1) e3(1) by (simp add: hello_main_def post_same bindA_run ret_def)
  have np: "no_pills (replicate 5 ?m)" by (simp add: no_pills_def list_all_iff)
  have op: "Producer (p_opts p) = (\<lambda>u. ((), None))" "Receive (p_opts p) = printer hello_says" "Middleware (p_opts p) = []" "p_mbuffer p = []" "p_trace p = []"
    by (simp_all add: assms(4) newProcess_def spawn_opts_def DefaultOpts_def hello_prints hello_newFoo_def fun_eq_iff Let_def)
  have "p_pid p = ?q" by (simp add: assms(4) newProcess_def spawn_opts_def DefaultOpts_def Let_def)
  moreover have "\<exists>p1 p2. proc_Start \<epsilon> (Suc f) p = (Ret, p1) \<and> run_batches \<epsilon> (Suc f) bs p1 = (Ret, p2) \<and> last (p_trace p2) = ECancel ?ctx
      \<and> acts_in (p_trace p2) = ''actor started'' # replicate 5 ''actor has received hello world!'' @ [''actor stopped'']"
    if bs: "concat bs = mailbox (e_heap e3 ?g)" for bs
  proof -
    obtain p1 where p1: "proc_Start \<epsilon> (Suc f) p = (Ret, p1)" "printed hello_says (hello_says Initialized @ hello_says Started) p p1"
      using printer_starts [OF op(1-4)] by blast
    then have r: "p_receive p1 = printer hello_says" by (simp add: printed_def)
    have "concat bs = replicate 5 ?m @ [?pill]" using bs e3(2) by simp
    from printer_stops [OF r np this, of \<epsilon> f] obtain p2 where "run_batches \<epsilon> (Suc f) bs p1 = (Ret, p2)"
      "printed hello_says (said hello_says (replicate 5 ?m) @ hello_says Stopped) p1 p2" "last (p_trace p2) = ECancel ?ctx" by blast
    then show ?thesis using p1 op(5) by (simp add: printed_def hello_says_def eval_nat_numeral)
  qed
  ultimately show ?thesis using main e3(3) by blast
qed

subsection \<open>Two subscribers\<close>

datatype ev_msg = MyCustomEvent string

definition a_Broadcast :: "'m msg \<Rightarrow> ('m, unit) act" where
  "a_Broadcast m e = of_send (eng_Broadcast m e)"

definition a_Subscribe :: "pid_ptr \<Rightarrow> ('m, unit) act" where
  "a_Subscribe k e = of_send (Subscribe k e)"

definition a_Unsubscribe :: "pid_ptr \<Rightarrow> ('m, unit) act" where
  "a_Unsubscribe k e = of_send (Unsubscribe k e)"

text \<open>The two functions return what they print; \<open>b\<close> is the address of the second actor's PID.\<close>

definition actorA_Receive :: "ev_msg actor_context \<Rightarrow> (ev_msg, string list) act" where
  "actorA_Receive c = (case c_message c of
      Started \<Rightarrow> ret [''actor A started'']
    | User (MyCustomEvent m) \<Rightarrow> ret [''actorA: event => {msg:'' @ m @ [CHR 125]]
    | ActorStartedEvent q _ \<Rightarrow> ret [''another actor started => '' @ (case q of None \<Rightarrow> ''<nil>'' | Some p \<Rightarrow> pid_String p)]
    | _ \<Rightarrow> ret [])"

definition actorB_Receive :: "nat \<Rightarrow> ev_msg actor_context \<Rightarrow> (ev_msg, string list) act" where
  "actorB_Receive b c = (case c_message c of
      Started \<Rightarrow> bindA (a_Subscribe (b, c_pid c)) (\<lambda>_. ret [''actor B started''])
    | User (MyCustomEvent m) \<Rightarrow> ret [''actorB: event => {msg:'' @ m @ [CHR 125]]
    | _ \<Rightarrow> ret [])"

text \<open>
  \<open>process.Start\<close> as the engine sees it, for a receiver that calls the engine while it starts and does
  not panic; the clock reads \<open>t\<close> and \<open>t'\<close>. Theory \<open>Process\<close> has \<open>Start\<close> itself, with receivers whose
  calls are only recorded; \<open>start_actor_Start\<close> below says that these are the same steps.
\<close>

definition start_actor :: "('m actor_context \<Rightarrow> ('m, 'b list) act) \<Rightarrow> pid \<Rightarrow> nat \<Rightarrow> nat \<Rightarrow> ('m, 'b list) act" where
  "start_actor recv q t t' =
     bindA (recv (newContext background q Initialized)) (\<lambda>xs.
       bindA (a_Broadcast (ActorInitializedEvent (Some q) t)) (\<lambda>_.
         bindA (recv (newContext background q Started)) (\<lambda>ys.
           bindA (a_Broadcast (ActorStartedEvent (Some q) t')) (\<lambda>_. ret (xs @ ys)))))"

text \<open>What the calls and the broadcasts in the trace of a process do to the engine, in their order.\<close>

fun on_engine :: "('m actor_context \<Rightarrow> ('m, 'b list) act) \<Rightarrow> pid \<Rightarrow> ('m, 'a) effect list \<Rightarrow> ('m, 'b list) act" where
  "on_engine recv q [] = ret []"
| "on_engine recv q (ELifecycle m s # es) =
     bindA (recv ((newContext background q m)\<lparr>c_sender := s\<rparr>)) (\<lambda>xs. bindA (on_engine recv q es) (\<lambda>ys. ret (xs @ ys)))"
| "on_engine recv q (EBroadcast m # es) = bindA (a_Broadcast m) (\<lambda>_. on_engine recv q es)"
| "on_engine recv q (_ # es) = on_engine recv q es"

lemma start_actor_Start:
  fixes p :: "('u, 'm, 'a) process"
  assumes "\<And>c u. \<exists>u'. Receive (p_opts p) c u = (u', [], None)" "Middleware (p_opts p) = []" "snd (Producer (p_opts p) (p_user p)) = None"
    "p_mbuffer p = []" "p_sender p = None" "p_trace p = []"
  shows "\<exists>p'. proc_Start \<epsilon> (Suc f) p = (Ret, p') \<and> start_actor recv (p_pid p) (p_clock p) (Suc (p_clock p)) = on_engine recv (p_pid p) (p_trace p')"
proof -
  obtain u where u: "Producer (p_opts p) (p_user p) = (u, None)" using assms(3) by (metis prod.collapse)
  let ?c = "\<lambda>m. \<lparr>cv_pid = p_pid p, cv_message = m, cv_sender = None\<rparr> :: 'm ctx_view"
  obtain v where v: "Receive (p_opts p) (?c Initialized) u = (v, [], None)" using assms(1) by blast
  obtain w where w: "Receive (p_opts p) (?c Started) v = (w, [], None)" using assms(1) by blast
  let ?p = "p\<lparr>p_user := u, p_receive := Receive (p_opts p)\<rparr>"
  have "\<exists>p1. start_hooks ?p = (Ret, p1) \<and> p_mbuffer p1 = []
      \<and> p_trace p1 = [ELifecycle Initialized None, EBroadcast (ActorInitializedEvent (Some (p_pid p)) (p_clock p)),
          ELifecycle Started None, EBroadcast (ActorStartedEvent (Some (p_pid p)) (Suc (p_clock p)))]"
    using assms(4-6) v w by (simp add: start_hooks_def call_receive_def broadcast_now_def emit_def)
  then obtain p1 where p1: "start_hooks ?p = (Ret, p1)" "p_mbuffer p1 = []"
    "p_trace p1 = [ELifecycle Initialized None, EBroadcast (ActorInitializedEvent (Some (p_pid p)) (p_clock p)),
          ELifecycle Started None, EBroadcast (ActorStartedEvent (Some (p_pid p)) (Suc (p_clock p)))]" by blast
  have "proc_Start \<epsilon> (Suc f) p = (Ret, inbox_start p1)" using u p1(1,2) assms(2) by (simp add: applyMiddleware_foldr)
  moreover have "p_trace (inbox_start p1) = p_trace p1 \<or> p_trace (inbox_start p1) = p_trace p1 @ [EInboxStart]"
    by (simp add: inbox_start_def emit_def)
  ultimately show ?thesis using p1(3)
    by (auto simp: start_actor_def newContext_def fun_eq_iff bindA_def ret_def split: prod.split sum.split)
qed

text \<open>
  \<open>main\<close>; the result is the two PIDs and what the actors printed while they started. The clock
  reads \<open>t 0\<close>, \<open>t 1\<close> and so on. The engine reads only the name from the
  options of a spawn; the two functions are called in \<open>start_actor\<close>.
\<close>

definition eventstream_main :: "nat \<Rightarrow> nat \<Rightarrow> nat \<Rightarrow> nat \<Rightarrow> (nat \<Rightarrow> nat) \<Rightarrow> (ev_msg, pid \<times> pid \<times> string list) act" where
  "eventstream_main a b randomA randomB t =
     bindA (a_Spawn ''actor_a'' [] randomA (DefaultOpts newFuncReceiver (\<lambda>_ u. (u, [], None)) :: (unit, ev_msg, string) opts)) (\<lambda>actorA.
     bindA (start_actor actorA_Receive actorA (t 0) (t 1)) (\<lambda>xs.
     bindA (a_Subscribe (a, actorA)) (\<lambda>_.
     bindA (a_Spawn ''actor_b'' [] randomB (DefaultOpts newFuncReceiver (\<lambda>_ u. (u, [], None)) :: (unit, ev_msg, string) opts)) (\<lambda>actorB.
     bindA (start_actor (actorB_Receive b) actorB (t 2) (t 3)) (\<lambda>ys.
     bindA (a_Broadcast (User (MyCustomEvent ''Hello World!''))) (\<lambda>_.
     bindA (a_Unsubscribe (a, actorA)) (\<lambda>_.
     bindA (a_Unsubscribe (b, actorB)) (\<lambda>_. ret (actorA, actorB, xs @ ys)))))))))"

text \<open>The event stream handles the messages of its inbox; \<open>rng\<close> gives the order of each range.\<close>

fun stream_serve :: "((pid_ptr \<rightharpoonup> bool) \<Rightarrow> pid_ptr list) \<Rightarrow> pid \<Rightarrow> 'm envelope list \<Rightarrow> event_stream \<Rightarrow> 'm engine \<Rightarrow> event_stream \<times> 'm engine" where
  "stream_serve rng es [] st e = (st, e)"
| "stream_serve rng es (x # xs) st e =
     (case stream_Receive (rng (subs st)) (newContext background es (Msg x)) st e of (st', _, _, e') \<Rightarrow> stream_serve rng es xs st' e')"

text \<open>What sending to the event stream does: one more letter in its inbox.\<close>

definition streamed :: "nat \<Rightarrow> 'm msg list \<Rightarrow> 'm engine \<Rightarrow> 'm engine" where
  "streamed h ms e = (case e_heap e h of
      ProcObj p mb \<Rightarrow> e\<lparr>e_heap := (e_heap e)(h := ProcObj p (mb @ map (\<lambda>m. \<lparr>Msg = m, Sender = None\<rparr>) ms))\<rparr> | _ \<Rightarrow> e)"

lemma streamed_ok: "stream_ok es h e \<Longrightarrow> stream_ok es h (streamed h ms e)"
  by (auto simp: stream_ok_def streamed_def)

lemma streamed_more: "stream_ok es h e \<Longrightarrow> streamed h ns (streamed h ms e) = streamed h (ms @ ns) e"
  by (auto simp: stream_ok_def streamed_def)

lemma to_stream:
  assumes "stream_ok es h e"
  shows "a_Broadcast m e = (Inr (), streamed h [m] e)" "a_Subscribe k e = (Inr (), streamed h [EventSub k] e)"
    "a_Unsubscribe k e = (Inr (), streamed h [EventUnsub k] e)"
proof -
  obtain p mb where p: "e_heap e h = ProcObj p mb" "e_eventStream e = Some es" using assms by (auto simp: stream_ok_def)
  have s: "eng_Send (Some es) m e = proc_send h (Some es) m None e" for m
    using SendWithSender_arrives [OF assms, of "Some es" m None] assms stream_get [OF assms]
    by (simp add: SendWithSender_def eng_Send_def route_def arrive_def stream_ok_def)
  show "a_Broadcast m e = (Inr (), streamed h [m] e)" "a_Subscribe k e = (Inr (), streamed h [EventSub k] e)"
    "a_Unsubscribe k e = (Inr (), streamed h [EventUnsub k] e)"
    using eng_Broadcast_arrives [OF assms, of m] p
    by (simp_all add: a_Broadcast_def a_Subscribe_def a_Unsubscribe_def Subscribe_def Unsubscribe_def s proc_send_def streamed_def)
qed

lemma streamed_keeps [simp]:
  "e_address (streamed h ms e) = e_address e" "e_size (streamed h ms e) = e_size e" "e_Registry (streamed h ms e) = e_Registry e"
  "g \<noteq> h \<Longrightarrow> e_heap (streamed h ms e) g = e_heap e g" "local_actor q g e \<Longrightarrow> local_actor q g (streamed h ms e)"
  by (auto simp: streamed_def local_actor_def split: processer.split)

lemma streamed_inv: "eng_inv e \<Longrightarrow> eng_inv (streamed h ms e)"
proof -
  have "obj_pid (e_heap (streamed h ms e) g) = obj_pid (e_heap e g)" for g by (simp add: streamed_def split: processer.split)
  then show "eng_inv e \<Longrightarrow> eng_inv (streamed h ms e)" by (simp add: eng_inv_def)
qed

lemma streamed_inbox: "e_heap e h = ProcObj p mb \<Longrightarrow> e_heap (streamed h ms e) h = ProcObj p (mb @ map (\<lambda>m. \<lparr>Msg = m, Sender = None\<rparr>) ms)"
  by (simp add: streamed_def)

lemma streamed_none: "stream_ok es h e \<Longrightarrow> streamed h [] e = e"
  by (cases e) (auto simp: stream_ok_def streamed_def fun_upd_idem)

lemma start_streams:
  assumes "stream_ok es h e" "\<And>e. stream_ok es h e \<Longrightarrow> recv (newContext background q Initialized) e = (Inr xs, streamed h ms e)"
    "\<And>e. stream_ok es h e \<Longrightarrow> recv (newContext background q Started) e = (Inr ys, streamed h ns e)"
  shows "start_actor recv q t t' e = (Inr (xs @ ys), streamed h (ms @ ActorInitializedEvent (Some q) t # ns @ [ActorStartedEvent (Some q) t']) e)"
  using assms by (simp add: start_actor_def bindA_def to_stream [where es = es and h = h] streamed_ok streamed_more [where es = es] ret_def)

text \<open>What \<open>main\<close> leaves in the inbox of the event stream.\<close>

definition main_events :: "pid_ptr \<Rightarrow> pid_ptr \<Rightarrow> (nat \<Rightarrow> nat) \<Rightarrow> ev_msg msg list" where
  "main_events ka kb t = [ActorInitializedEvent (Some (snd ka)) (t 0), ActorStartedEvent (Some (snd ka)) (t 1), EventSub ka,
     ActorInitializedEvent (Some (snd kb)) (t 2), EventSub kb, ActorStartedEvent (Some (snd kb)) (t 3),
     User (MyCustomEvent ''Hello World!''), EventUnsub ka, EventUnsub kb]"

lemma eventstream_main_sends:
  assumes "eng_inv e" "stream_ok es h e" "e_heap e h = ProcObj es []"
    "actorA = NewPID (e_address e) (''actor_a/'' @ Itoa (int randomA))" "actorB = NewPID (e_address e) (''actor_b/'' @ Itoa (int randomB))"
    "reg_lookup (e_Registry e) (ID actorA) = None" "reg_lookup (e_Registry e) (ID actorB) = None"
  obtains e' i j where "eventstream_main a b randomA randomB t e = (Inr (actorA, actorB, [''actor A started'', ''actor B started'']), e')"
    "stream_ok es h e'" "local_actor actorA i e'" "local_actor actorB j e'" "e_heap e' i = ProcObj actorA []" "e_heap e' j = ProcObj actorB []"
    "e_heap e' h = ProcObj es (map (\<lambda>m. \<lparr>Msg = m, Sender = None\<rparr>) (main_events (a, actorA) (b, actorB) t))" "i \<noteq> j" "i \<noteq> h" "j \<noteq> h"
proof -
  have h: "h < e_size e" using assms(1,2) by (auto simp: eng_inv_def stream_ok_def)
  have ab: "ID actorA \<noteq> ID actorB" by (simp add: assms(4,5))
  obtain e1 where e1: "a_Spawn ''actor_a'' [] randomA (DefaultOpts newFuncReceiver (\<lambda>_ u. (u, [], None)) :: (unit, ev_msg, string) opts) e = (Inr actorA, e1)"
    "eng_inv e1" "stream_ok es h e1" "local_actor actorA (e_size e) e1" "e_heap e1 = (e_heap e)(e_size e := ProcObj actorA [])"
    "e_address e1 = e_address e" "e_size e1 = Suc (e_size e)" "reg_lookup (e_Registry e1) = (reg_lookup (e_Registry e))(ID actorA \<mapsto> e_size e)"
    using a_Spawn_free [OF assms(1,2) _ assms(6), of "''actor_a''" randomA] assms(4) by (force simp: pidSeparator_def)
  let ?as = "[ActorInitializedEvent (Some actorA) (t 0), ActorStartedEvent (Some actorA) (t 1), EventSub (a, actorA)]"
  let ?e2 = "streamed h ?as e1"
  have startA: "start_actor actorA_Receive actorA (t 0) (t 1) e1 = (Inr [''actor A started''], streamed h (take 2 ?as) e1)"
    using start_streams [OF e1(3), of actorA_Receive actorA "[]" "[]" "[''actor A started'']" "[]" "t 0" "t 1"]
    by (simp add: actorA_Receive_def newContext_def ret_def streamed_none [where es = es])
  have e2: "eng_inv ?e2" "stream_ok es h ?e2" "reg_lookup (e_Registry ?e2) (ID actorB) = None" "actorB = NewPID (e_address ?e2) (''actor_b'' @ pidSeparator @ Itoa (int randomB))"
    using streamed_inv [OF e1(2)] streamed_ok [OF e1(3)] e1(6,8) assms(5,7) ab by (simp_all add: pidSeparator_def)
  obtain e3 where e3: "a_Spawn ''actor_b'' [] randomB (DefaultOpts newFuncReceiver (\<lambda>_ u. (u, [], None)) :: (unit, ev_msg, string) opts) ?e2 = (Inr actorB, e3)"
    "stream_ok es h e3" "local_actor actorB (e_size ?e2) e3" "e_heap e3 = (e_heap ?e2)(e_size ?e2 := ProcObj actorB [])"
    "\<forall>p k. local_actor p k ?e2 \<and> ID p \<noteq> ID actorB \<longrightarrow> local_actor p k e3"
    using a_Spawn_free [OF e2(1,2,4,3)] by blast
  let ?bs = "[ActorInitializedEvent (Some actorB) (t 2), EventSub (b, actorB), ActorStartedEvent (Some actorB) (t 3), User (MyCustomEvent ''Hello World!''),
     EventUnsub (a, actorA), EventUnsub (b, actorB)]"
  have startB: "start_actor (actorB_Receive b) actorB (t 2) (t 3) e3 = (Inr [''actor B started''], streamed h (take 3 ?bs) e3)"
    using start_streams [OF e3(2), of "actorB_Receive b" actorB "[]" "[]" "[''actor B started'']" "[EventSub (b, actorB)]" "t 2" "t 3"]
    by (simp add: actorB_Receive_def newContext_def ret_def streamed_none [where es = es] bindA_def to_stream [where es = es and h = h])
  have main: "eventstream_main a b randomA randomB t e = (Inr (actorA, actorB, [''actor A started'', ''actor B started'']), streamed h ?bs e3)"
    using e1(1,3) startA e3(1,2) startB by (simp add: eventstream_main_def bindA_def to_stream [where es = es and h = h] streamed_ok streamed_more [where es = es] ret_def)
  have la: "local_actor actorA (e_size e) (streamed h ?bs e3)" using e1(4) e3(5) ab by simp
  have "e_heap e1 h = ProcObj es []" using assms(3) e1(5) h by simp
  then have "e_heap e3 h = ProcObj es (map (\<lambda>m. \<lparr>Msg = m, Sender = None\<rparr>) ?as)" using streamed_inbox [of e1 h es "[]" ?as] e3(4) e1(7) h by simp
  then have hp: "e_heap (streamed h ?bs e3) h = ProcObj es (map (\<lambda>m. \<lparr>Msg = m, Sender = None\<rparr>) (main_events (a, actorA) (b, actorB) t))"
    using streamed_inbox [of e3 h es _ ?bs] by (simp add: main_events_def)
  show ?thesis
    by (rule that [OF main streamed_ok [OF e3(2)] la streamed_keeps(5) [OF e3(3)] _ _ hp]) (use h e1(5,7) e3(4) in auto)
qed

text \<open>Two actors of the engine with their inboxes, and the event stream with an empty one.\<close>

definition both_at :: "pid \<Rightarrow> nat \<Rightarrow> pid \<times> nat \<Rightarrow> pid \<times> nat \<Rightarrow> 'm envelope list \<Rightarrow> 'm envelope list \<Rightarrow> 'm engine \<Rightarrow> bool" where
  "both_at es h A B as bs e \<longleftrightarrow> stream_ok es h e \<and> local_actor (fst A) (snd A) e \<and> local_actor (fst B) (snd B) e
     \<and> e_heap e (snd A) = ProcObj (fst A) as \<and> e_heap e (snd B) = ProcObj (fst B) bs \<and> e_heap e h = ProcObj es []
     \<and> snd A \<noteq> snd B \<and> snd A \<noteq> h \<and> snd B \<noteq> h"

lemma serve_event:
  fixes e :: "'m engine"
  assumes "both_at es h (q, i) (q', j) as bs e" "dom f \<subseteq> {(a, q), (b, q')}" "\<forall>m. finite (dom m) \<longrightarrow> range_order m (rng m)"
    "\<forall>k. m \<noteq> EventSub k \<and> m \<noteq> EventUnsub k"
  shows "\<exists>e'. stream_serve rng es (\<lparr>Msg = m, Sender = s\<rparr> # xs) \<lparr>subs = f\<rparr> e = stream_serve rng es xs \<lparr>subs = f\<rparr> e'
    \<and> both_at es h (q, i) (q', j) (as @ (if (a, q) \<in> dom f then [\<lparr>Msg = m, Sender = Some es\<rparr>] else []))
        (bs @ (if (b, q') \<in> dom f then [\<lparr>Msg = m, Sender = Some es\<rparr>] else [])) e'"
proof -
  let ?c = "newContext background es m :: 'm actor_context" and ?reg = "\<lambda>k. reg_get (Some (snd k)) (e_Registry e)"
  have h: "stream_ok es h e" "local_actor q i e" "local_actor q' j e" "e_heap e i = ProcObj q as" "e_heap e j = ProcObj q' bs" "e_heap e h = ProcObj es []"
    "i \<noteq> j" "i \<noteq> h" "j \<noteq> h" using assms(1) by (simp_all add: both_at_def)
  have ra: "?reg (a, q) = Some i" "?reg (b, q') = Some j" using h(2,3) by (simp_all add: local_actor_def)
  have r: "\<forall>k \<in> dom (subs \<lparr>subs = f\<rparr>). reachable_sub k e"
    using h(2-5) assms(2) by (fastforce simp: reachable_sub_def local_actor_def)
  have ro: "range_order (subs \<lparr>subs = f\<rparr>) (rng f)" using assms(3) finite_subset [OF assms(2)] by simp
  have ev: "\<forall>q. c_message ?c \<noteq> EventSub q \<and> c_message ?c \<noteq> EventUnsub q" using assms(4) by (simp add: newContext_def)
  obtain e' where e': "stream_Receive (rng f) ?c \<lparr>subs = f\<rparr> e = (\<lparr>subs = f\<rparr>, event_Log m, SDone, e')" "same_shape e e'"
    "\<forall>g p mb. e_heap e g = ProcObj p mb \<longrightarrow> e_heap e' g = ProcObj p (mb @ replicate (card {k \<in> dom f. ?reg k = Some g}) \<lparr>Msg = m, Sender = Some es\<rparr>)"
    by (rule stream_event [OF h(1) ro r ev]) (simp add: newContext_def)
  have n: "{k \<in> dom f. ?reg k = Some h} = {}" "{k \<in> dom f. ?reg k = Some i} = (if (a, q) \<in> dom f then {(a, q)} else {})"
    "{k \<in> dom f. ?reg k = Some j} = (if (b, q') \<in> dom f then {(b, q')} else {})"
    using h(7-9) assms(2) ra by auto
  have hs: "e_heap e' h = ProcObj es []" "e_heap e' i = ProcObj q (as @ (if (a, q) \<in> dom f then [\<lparr>Msg = m, Sender = Some es\<rparr>] else []))"
    "e_heap e' j = ProcObj q' (bs @ (if (b, q') \<in> dom f then [\<lparr>Msg = m, Sender = Some es\<rparr>] else []))"
    using e'(3) [rule_format, OF h(6)] e'(3) [rule_format, OF h(4)] e'(3) [rule_format, OF h(5)] by (simp_all only: n) simp_all
  have "local_actor q i e'" "local_actor q' j e'" using h(2,3) e'(2) hs by (simp_all add: local_actor_def same_shape_def)
  moreover have "stream_serve rng es (\<lparr>Msg = m, Sender = s\<rparr> # xs) \<lparr>subs = f\<rparr> e = stream_serve rng es xs \<lparr>subs = f\<rparr> e'" using e'(1) by simp
  moreover have "both_at es h (q, i) (q', j) (as @ (if (a, q) \<in> dom f then [\<lparr>Msg = m, Sender = Some es\<rparr>] else []))
      (bs @ (if (b, q') \<in> dom f then [\<lparr>Msg = m, Sender = Some es\<rparr>] else [])) e'"
    using calculation same_shape_stream [OF e'(2) h(1)] hs h(7-9) by (simp add: both_at_def)
  ultimately show ?thesis by blast
qed

lemma serve_sub:
  "stream_serve rng es (\<lparr>Msg = EventSub k, Sender = s\<rparr> # xs) st e = stream_serve rng es xs (st\<lparr>subs := (subs st)(k \<mapsto> True)\<rparr>) e"
  "stream_serve rng es (\<lparr>Msg = EventUnsub k, Sender = s\<rparr> # xs) st e = stream_serve rng es xs (st\<lparr>subs := (subs st)(k := None)\<rparr>) e"
  by (simp_all add: stream_Receive_def newContext_def)

lemma serve_main_events:
  assumes "both_at es h (q, i) (q', j) [] [] e" "(a, q) \<noteq> (b, q')" "\<forall>m. finite (dom m) \<longrightarrow> range_order m (rng m)"
  shows "\<exists>e' as bs. stream_serve rng es (map (\<lambda>m. \<lparr>Msg = m, Sender = None\<rparr>) (main_events (a, q) (b, q') t)) newEventStream e = (newEventStream, e')
    \<and> both_at es h (q, i) (q', j) as bs e'
    \<and> map Msg as = [ActorInitializedEvent (Some q') (t 2), ActorStartedEvent (Some q') (t 3), User (MyCustomEvent ''Hello World!'')]
    \<and> map Msg bs = [ActorStartedEvent (Some q') (t 3), User (MyCustomEvent ''Hello World!'')]"
proof -
  let ?ka = "(a, q)" and ?kb = "(b, q')" and ?at = "both_at es h (q, i) (q', j)" and ?sv = "\<lambda>ms f. stream_serve rng es (map (\<lambda>m. \<lparr>Msg = m, Sender = None\<rparr>) ms) \<lparr>subs = f\<rparr>"
  let ?x = "\<lambda>m. \<lparr>Msg = m, Sender = Some es\<rparr>" and ?ai = "ActorInitializedEvent (Some q) (t 0)" and ?as = "ActorStartedEvent (Some q) (t 1)"
  let ?bi = "ActorInitializedEvent (Some q') (t 2)" and ?bs = "ActorStartedEvent (Some q') (t 3)" and ?ev = "User (MyCustomEvent ''Hello World!'')"
  let ?last = "[?bs, ?ev, EventUnsub ?ka, EventUnsub ?kb]"
  note ev = serve_event [OF _ _ assms(3), where a = a and b = b]
  obtain e1 where e1: "?sv (?ai # ?as # EventSub ?ka # ?bi # EventSub ?kb # ?last) Map.empty e = ?sv (?as # EventSub ?ka # ?bi # EventSub ?kb # ?last) Map.empty e1" "?at [] [] e1"
    using ev [OF assms(1), of Map.empty ?ai None] by (auto simp del: stream_serve.simps)
  obtain e2 where e2: "?sv (?as # EventSub ?ka # ?bi # EventSub ?kb # ?last) Map.empty e1 = ?sv (?bi # EventSub ?kb # ?last) [?ka \<mapsto> True] e2" "?at [] [] e2"
    using ev [OF e1(2), of Map.empty ?as None "map (\<lambda>m. \<lparr>Msg = m, Sender = None\<rparr>) (EventSub ?ka # ?bi # EventSub ?kb # ?last)"] by (auto simp: serve_sub simp del: stream_serve.simps)
  obtain e3 where e3: "?sv (?bi # EventSub ?kb # ?last) [?ka \<mapsto> True] e2 = ?sv ?last [?ka \<mapsto> True, ?kb \<mapsto> True] e3" "?at [?x ?bi] [] e3"
    using ev [OF e2(2), of "[?ka \<mapsto> True]" ?bi None "map (\<lambda>m. \<lparr>Msg = m, Sender = None\<rparr>) (EventSub ?kb # ?last)"] assms(2) by (auto simp: serve_sub simp del: stream_serve.simps)
  obtain e4 where e4: "?sv ?last [?ka \<mapsto> True, ?kb \<mapsto> True] e3 = ?sv (tl ?last) [?ka \<mapsto> True, ?kb \<mapsto> True] e4" "?at [?x ?bi, ?x ?bs] [?x ?bs] e4"
    using ev [OF e3(2), of "[?ka \<mapsto> True, ?kb \<mapsto> True]" ?bs None "map (\<lambda>m. \<lparr>Msg = m, Sender = None\<rparr>) (tl ?last)"] by (auto simp del: stream_serve.simps)
  obtain e5 where e5: "?sv (tl ?last) [?ka \<mapsto> True, ?kb \<mapsto> True] e4 = (\<lparr>subs = Map.empty\<rparr>, e5)" "?at [?x ?bi, ?x ?bs, ?x ?ev] [?x ?bs, ?x ?ev] e5"
    using ev [OF e4(2), of "[?ka \<mapsto> True, ?kb \<mapsto> True]" ?ev None "map (\<lambda>m. \<lparr>Msg = m, Sender = None\<rparr>) [EventUnsub ?ka, EventUnsub ?kb]"] assms(2)
    by (auto simp: serve_sub fun_upd_twist simp del: stream_serve.simps(2))
  show ?thesis using e1(1) e2(1) e3(1) e4(1) e5
    by (intro exI [of _ e5] exI [of _ "[?x ?bi, ?x ?bs, ?x ?ev]"] exI [of _ "[?x ?bs, ?x ?ev]"]) (simp add: main_events_def newEventStream_def del: stream_serve.simps)
qed

text \<open>
  C26. The event stream example. \<open>main\<close> subscribes one actor from outside and lets the other subscribe
  itself while it starts. When the event stream has handled what \<open>main\<close> left it, in whatever order
  it ranges over its subscribers, both actors have the custom event once; besides, the first has
  been told that the second was initialized and started, and the second that it started; and nobody is
  subscribed any more.
\<close>

theorem eventstream_example:
  assumes "eng_inv e" "stream_ok es h e" "e_heap e h = ProcObj es []"
    "actorA = NewPID (e_address e) (''actor_a/'' @ Itoa (int randomA))" "actorB = NewPID (e_address e) (''actor_b/'' @ Itoa (int randomB))"
    "reg_lookup (e_Registry e) (ID actorA) = None" "reg_lookup (e_Registry e) (ID actorB) = None"
    "\<forall>m. finite (dom m) \<longrightarrow> range_order m (rng m)"
  shows "\<exists>e1 e2 i j. eventstream_main a b randomA randomB t e = (Inr (actorA, actorB, [''actor A started'', ''actor B started'']), e1)
    \<and> stream_serve rng es (mailbox (e_heap e1 h)) newEventStream (e1\<lparr>e_heap := (e_heap e1)(h := ProcObj es [])\<rparr>) = (newEventStream, e2)
    \<and> local_actor actorA i e2 \<and> local_actor actorB j e2
    \<and> map Msg (mailbox (e_heap e2 i)) = [ActorInitializedEvent (Some actorB) (t 2), ActorStartedEvent (Some actorB) (t 3), User (MyCustomEvent ''Hello World!'')]
    \<and> map Msg (mailbox (e_heap e2 j)) = [ActorStartedEvent (Some actorB) (t 3), User (MyCustomEvent ''Hello World!'')]"
proof -
  obtain e1 i j where e1: "eventstream_main a b randomA randomB t e = (Inr (actorA, actorB, [''actor A started'', ''actor B started'']), e1)"
    "stream_ok es h e1" "local_actor actorA i e1" "local_actor actorB j e1" "e_heap e1 i = ProcObj actorA []" "e_heap e1 j = ProcObj actorB []"
    "e_heap e1 h = ProcObj es (map (\<lambda>m. \<lparr>Msg = m, Sender = None\<rparr>) (main_events (a, actorA) (b, actorB) t))" "i \<noteq> j" "i \<noteq> h" "j \<noteq> h"
    by (rule eventstream_main_sends [OF assms(1-7)])
  have "both_at es h (actorA, i) (actorB, j) [] [] (e1\<lparr>e_heap := (e_heap e1)(h := ProcObj es [])\<rparr>)"
    using e1(2-6,8-10) by (auto simp: both_at_def stream_ok_def local_actor_def)
  moreover have "(a, actorA) \<noteq> (b, actorB)" by (simp add: assms(4,5))
  ultimately obtain e2 as bs where e2: "stream_serve rng es (mailbox (e_heap e1 h)) newEventStream (e1\<lparr>e_heap := (e_heap e1)(h := ProcObj es [])\<rparr>) = (newEventStream, e2)"
    "both_at es h (actorA, i) (actorB, j) as bs e2"
    "map Msg as = [ActorInitializedEvent (Some actorB) (t 2), ActorStartedEvent (Some actorB) (t 3), User (MyCustomEvent ''Hello World!'')]"
    "map Msg bs = [ActorStartedEvent (Some actorB) (t 3), User (MyCustomEvent ''Hello World!'')]"
    using serve_main_events [OF _ _ assms(8), of es h actorA i actorB j _ a b t] e1(7) by fastforce
  then show ?thesis using e1(1) by (intro exI [of _ e1] exI [of _ e2] exI [of _ i] exI [of _ j]) (simp add: both_at_def)
qed

subsection \<open>Two nodes\<close>

datatype remote_msg = RemotePID pid | RemoteMessage string

definition remote_newServer :: "unit \<Rightarrow> unit \<times> remote_msg panic_val option" where
  "remote_newServer u = ((), None)"

text \<open>What the server logs, by the branch it takes.\<close>

datatype server_log = LogStarted | LogPid pid | LogMessage string | LogUnknown "remote_msg msg"

definition remote_server_Receive :: "(unit, remote_msg, server_log) receive_func" where
  "remote_server_Receive c u = (case cv_message c of
      Started \<Rightarrow> (u, [Act LogStarted], None)
    | User (RemotePID q) \<Rightarrow> (u, [Act (LogPid q)], None)
    | User (RemoteMessage m) \<Rightarrow> (u, [Act (LogMessage m)], None)
    | x \<Rightarrow> (u, [Act (LogUnknown x)], None))"

definition remote_server_main :: "nat \<Rightarrow> (remote_msg, pid) act" where
  "remote_server_main random = a_Spawn ''server'' [WithID ''primary''] random (DefaultOpts remote_newServer remote_server_Receive)"

text \<open>\<open>n\<close> rounds of the client's endless loop.\<close>

definition remote_serverPID :: pid where
  "remote_serverPID = NewPID ''127.0.0.1:4000'' ''server/primary''"

definition remote_client_rounds :: "nat \<Rightarrow> (remote_msg, unit) act" where
  "remote_client_rounds n = a_each (\<lambda>_. a_Send (Some remote_serverPID) (User (RemoteMessage ''hello!'')) None) [0..<n]"

definition server_says :: "remote_msg msg \<Rightarrow> server_log list" where
  "server_says m = (case m of Started \<Rightarrow> [LogStarted] | User (RemotePID q) \<Rightarrow> [LogPid q] | User (RemoteMessage d) \<Rightarrow> [LogMessage d] | x \<Rightarrow> [LogUnknown x])"

lemma server_prints: "remote_server_Receive = printer server_says"
  by (auto simp: fun_eq_iff remote_server_Receive_def printer_def server_says_def split: msg.split remote_msg.split)

text \<open>
  The remote example. Each round of the client hands its remote one greeting for a PID that it
  makes up; the server's \<open>main\<close> spawns its actor under just this PID, so that the greetings, sent
  locally by the node they were addressed to, end up in the actor's inbox, and the actor logs each.
\<close>

theorem remote_example:
  fixes p :: "(unit, remote_msg, server_log) process"
  assumes "stream_ok cs ch c" "e_remote c = Some rm" "rem_sent rm = []" "e_address c = ''127.0.0.1:3000''"
    "eng_inv e" "stream_ok es h e" "e_address e = ''127.0.0.1:4000''" "reg_lookup (e_Registry e) ''server/primary'' = None"
    "p_receive p = remote_server_Receive"
  shows "\<exists>c' e1 e2 ls. remote_client_rounds n c = (Inr (), c') \<and> map_option rem_sent (e_remote c') = Some ls
    \<and> remote_server_main random e = (Inr remote_serverPID, e1)
    \<and> post_all (map (\<lambda>(q, m, src). (Some q, m, src)) ls) e1 = (Inr (), e2)
    \<and> (\<exists>q. proc_Invoke \<epsilon> (Suc f) (mailbox (e_heap e2 (e_size e))) p = (Ret, q)
          \<and> acts_in (p_trace q) = acts_in (p_trace p) @ replicate n (LogMessage ''hello!''))"
proof -
  let ?q = remote_serverPID and ?x = "User (RemoteMessage ''hello!'')"
  let ?ls = "replicate n (Some ?q, ?x, None) :: remote_msg letter list"
  have r: "route cs ch (Some ?q) m src c = OverNetwork ?q m src" for m src using assms(2,4) by (simp add: route_def remote_serverPID_def)
  have "\<forall>l \<in> set ?ls. good_letter cs ch c l" by (simp add: good_letter_def r)
  from post_all_delivers [OF assms(1) this] obtain c' where c': "post_all ?ls c = (Inr (), c')" "wired (concat (map (wire_for cs ch c) ?ls)) c c'" by blast
  have "concat (map (wire_for cs ch c) ?ls) = replicate n (?q, ?x, None)" by (induction n) (simp_all add: wire_for_def r)
  then have w: "map_option rem_sent (e_remote c') = Some (replicate n (?q, ?x, None))" using c'(2) assms(2,3) by (simp add: wired_def)
  have "Address ?q = e_address e" "reg_lookup (e_Registry e) (ID ?q) = None" using assms(7,8) by (simp_all add: remote_serverPID_def)
  from SpawnProc_actor [OF assms(5,6) this] obtain e1 where e1: "SpawnProc (ProcObj ?q []) e = (?q, SDone, e1)" "stream_ok es h e1" "local_actor ?q (e_size e) e1"
    "e_heap e1 = (e_heap e)(e_size e := ProcObj ?q [])" by metis
  have m: "remote_server_main random e = (Inr ?q, e1)"
    using e1(1) assms(7) by (simp add: remote_server_main_def a_Spawn_def Spawn_def spawn_opts_def DefaultOpts_def WithID_def remote_serverPID_def pidSeparator_def bindA_def ret_def Let_def)
  have "\<forall>l \<in> set ?ls. good_letter es h e1 l" using local_actor_good [OF e1(3)] by simp
  from post_all_delivers [OF e1(2) this] obtain e2 where e2: "post_all ?ls e1 = (Inr (), e2)"
    "e_heap e2 (e_size e) = ProcObj ?q (replicate n \<lparr>Msg = ?x, Sender = None\<rparr>)"
    using e1(4) local_mail_same [OF e1(3), of es h n] by fastforce
  have s: "said server_says (replicate n \<lparr>Msg = ?x, Sender = None\<rparr>) = replicate n (LogMessage ''hello!'')"
    by (induction n) (simp_all add: server_says_def)
  have np: "no_pills (replicate n (\<lparr>Msg = ?x, Sender = None\<rparr> :: remote_msg envelope))" by (simp add: no_pills_def list_all_iff)
  have "p_receive p = printer server_says" using assms(9) by (simp add: server_prints)
  from printer_batch [OF this np, of \<epsilon> f] s obtain q where q: "proc_Invoke \<epsilon> (Suc f) (mailbox (e_heap e2 (e_size e))) p = (Ret, q)"
    "acts_in (p_trace q) = acts_in (p_trace p) @ replicate n (LogMessage ''hello!'')" using e2(2) by (auto simp: printed_def)
  then show ?thesis using c'(1) w m e2(1)
    by (intro exI [of _ c'] exI [of _ e1] exI [of _ e2] exI [of _ "replicate n (?q, ?x, None)"]) (auto simp: remote_client_rounds_def post_same)
qed

subsection \<open>A parent and its child\<close>

text \<open>The state is \<open>barPID\<close>; the result also says what is printed.\<close>

definition fooReceiver_Receive :: "nat \<Rightarrow> string actor_context \<Rightarrow> pid option \<Rightarrow> (string, pid option \<times> string actor_context \<times> string list) act" where
  "fooReceiver_Receive random c barPID =
     (case c_message c of
        Started \<Rightarrow> ret (barPID, c, [''foo started''])
      | User data \<Rightarrow>
          bindA (a_SpawnChild ''bar'' [WithID data] random (DefaultOpts (newBarReceiver data) bar_Receive) c)
            (\<lambda>(q, c'). ret (Some q, c', [''received and starting bar: '' @ pid_String q]))
      | Stopped \<Rightarrow> ret (barPID, c, [''foo will stop''])
      | _ \<Rightarrow> ret (barPID, c, []))"

text \<open>
  The child process example: a message makes the receiver spawn a child named after it, under
  its own id; the child is registered and the parent finds it. The same message again gives
  the same child: nothing is started, and the event stream hears of a duplicate id.
\<close>

theorem child_per_message:
  assumes "eng_inv e" "stream_ok es h e" "c_message c = User data" "data \<noteq> []"
    "q = NewPID (e_address e) (ID (c_pid c) @ ''/bar/'' @ data)" "reg_lookup (e_Registry e) (ID q) = None"
  shows "\<exists>c1 e1 c2 e2 out. fooReceiver_Receive random c None e = (Inr (Some q, c1, out), e1)
    \<and> ctx_Child (ID q) c1 = Some q \<and> local_actor q (e_size e) e1 \<and> e_started e1 = e_started e @ [e_size e]
    \<and> fooReceiver_Receive random' c1 (Some q) e1 = (Inr (Some q, c2, out), e2) \<and> ctx_Child (ID q) c2 = Some q
    \<and> e_started e2 = e_started e1 \<and> (\<exists>p mb. e_heap e1 h = ProcObj p mb \<and> e_heap e2 h = ProcObj p (mb @ [\<lparr>Msg = ActorDuplicateIdEvent (Some q), Sender = None\<rparr>]))"
proof -
  let ?out = "[''received and starting bar: '' @ pid_String q]"
  obtain e1 where e1: "SpawnProc (ProcObj q []) e = (q, SDone, e1)" "eng_inv e1" "stream_ok es h e1" "local_actor q (e_size e) e1" "e_address e1 = e_address e"
    "reg_lookup (e_Registry e1) = (reg_lookup (e_Registry e))(ID q \<mapsto> e_size e)"
    using SpawnProc_actor [OF assms(1,2) _ assms(6)] assms(5) by (metis pid.select_convs(1) NewPID_def)
  have st: "e_started e1 = e_started e @ [e_size e]" using SpawnProc_free [OF assms(1), of "ProcObj q []"] assms(6) e1(1) by auto
  let ?c1 = "c\<lparr>c_children := sm_Set (ID q) q (c_children c)\<rparr>" and ?c2 = "c\<lparr>c_children := sm_Set (ID q) q (sm_Set (ID q) q (c_children c))\<rparr>"
  have r: "fooReceiver_Receive x d b E = (Inr (Some q, d\<lparr>c_children := sm_Set (ID q) q (c_children d)\<rparr>, ?out), E')"
    if "SpawnProc (ProcObj q []) E = (q, SDone, E')" "e_address E = e_address e" "c_pid d = c_pid c" "c_message d = User data" for x d b E E'
    using that assms(4,5) by (simp add: fooReceiver_Receive_def a_SpawnChild_def SpawnChild_WithID pidSeparator_def bindA_def ret_def Let_def)
  obtain p mb where p: "e_heap e1 h = ProcObj p mb" using e1(3) by (auto simp: stream_ok_def)
  have "reg_lookup (e_Registry e1) (ID (obj_pid (ProcObj q [] :: string processer))) = Some (e_size e)" using e1(6) by simp
  note taken = SpawnProc_taken [OF e1(3,2) this]
  have "h < e_size e1" using e1(2,3) by (auto simp: eng_inv_def stream_ok_def)
  then obtain e2 where s2: "SpawnProc (ProcObj q []) e1 = (q, SDone, e2)" "e_started e2 = e_started e1"
    "e_heap e2 h = ProcObj p (mb @ [\<lparr>Msg = ActorDuplicateIdEvent (Some q), Sender = None\<rparr>])"
    using taken p by (simp add: proc_send_def)
  show ?thesis using r [OF e1(1), of c random None] r [of e1 e2 ?c1 random' "Some q"] s2 e1(4,5) st p assms(3)
    by (intro exI [of _ ?c1] exI [of _ e1] exI [of _ ?c2] exI [of _ e2] exI [of _ ?out]) (simp add: ctx_Child_def)
qed

subsection \<open>Witnesses\<close>

lemma example_addressed_engine:
  "\<exists>e :: 'm engine. eng_inv e \<and> stream_ok (stream_pid a 5) 0 e \<and> e_address e = a \<and> e_heap e 0 = ProcObj (stream_pid a 5) []
     \<and> e_Registry e = \<lparr>reg_lookup = [ID (stream_pid a 5) \<mapsto> 0], responses = Map.empty\<rparr>"
proof -
  obtain e0 :: "'m engine" where e0: "eng_inv e0" "stream_ok (stream_pid ''local'' 5) 0 e0"
    "e_Registry e0 = \<lparr>reg_lookup = [ID (stream_pid ''local'' 5) \<mapsto> 0], responses = Map.empty\<rparr>" using example_engine by blast
  have id: "ID (stream_pid a 5) = ID (stream_pid ''local'' 5)" by (simp add: stream_pid_def)
  let ?e = "e0\<lparr>e_heap := (e_heap e0)(0 := ProcObj (stream_pid a 5) []), e_address := a, e_eventStream := Some (stream_pid a 5)\<rparr>"
  have "stream_ok (stream_pid a 5) 0 ?e" using e0(3) id by (simp add: stream_ok_def stream_pid_def)
  moreover have "eng_inv ?e" using e0(1,3) id by (auto simp: eng_inv_def reg_inv_def)
  ultimately show ?thesis using e0(3) id by (intro exI [of _ ?e]) simp
qed

theorem hello_world_witness:
  "\<exists>(e :: string engine) q ctx e' g (p :: (unit, string, string) process) p1 p2. hello_main 42 e = (Inr (q, ctx), e')
     \<and> proc_Start example_process_env 1 p = (Ret, p1) \<and> run_batches example_process_env 1 [mailbox (e_heap e' g)] p1 = (Ret, p2)
     \<and> acts_in (p_trace p2) = ''actor started'' # replicate 5 ''actor has received hello world!'' @ [''actor stopped'']"
proof -
  obtain e :: "string engine" where e: "eng_inv e" "stream_ok (stream_pid ''local'' 5) 0 e"
    "e_Registry e = \<lparr>reg_lookup = [ID (stream_pid ''local'' 5) \<mapsto> 0], responses = Map.empty\<rparr>" using example_addressed_engine by blast
  have "reg_lookup (e_Registry e) (''my_actor/'' @ Itoa (int 42)) = None" by (simp add: e(3) stream_pid_id)
  from hello_world [OF e(1,2) this refl, of example_process_env 0] obtain q ctx e' g where h: "hello_main 42 e = (Inr (q, ctx), e')"
    "\<forall>bs. concat bs = mailbox (e_heap e' g) \<longrightarrow> (\<exists>p1 p2. proc_Start example_process_env (Suc 0) (newProcess (e_address e) () (spawn_opts ''my_actor'' [] 42 (DefaultOpts hello_newFoo hello_Receive))) = (Ret, p1)
       \<and> run_batches example_process_env (Suc 0) bs p1 = (Ret, p2) \<and> last (p_trace p2) = ECancel ctx
       \<and> acts_in (p_trace p2) = ''actor started'' # replicate 5 ''actor has received hello world!'' @ [''actor stopped''])" by blast
  have "concat [mailbox (e_heap e' g)] = mailbox (e_heap e' g)" by simp
  with h(2) have "\<exists>p1 p2. proc_Start example_process_env (Suc 0) (newProcess (e_address e) () (spawn_opts ''my_actor'' [] 42 (DefaultOpts hello_newFoo hello_Receive))) = (Ret, p1)
       \<and> run_batches example_process_env (Suc 0) [mailbox (e_heap e' g)] p1 = (Ret, p2) \<and> last (p_trace p2) = ECancel ctx
       \<and> acts_in (p_trace p2) = ''actor started'' # replicate 5 ''actor has received hello world!'' @ [''actor stopped'']" by blast
  with h(1) show ?thesis unfolding One_nat_def by blast
qed

text \<open>An order for every finite map.\<close>

lemma ranges_exist: "\<exists>rng :: ('k \<rightharpoonup> 'v) \<Rightarrow> 'k list. \<forall>m. finite (dom m) \<longrightarrow> range_order m (rng m)"
proof -
  have "\<forall>m :: 'k \<rightharpoonup> 'v. \<exists>ks. finite (dom m) \<longrightarrow> range_order m ks"
    using finite_distinct_list by (metis range_order_def)
  then show ?thesis by metis
qed

theorem eventstream_example_witness:
  "\<exists>(e :: ev_msg engine) q q' e1 rng es e2. eventstream_main 7 8 1 2 (\<lambda>i. 99 + i) e = (Inr (q, q', [''actor A started'', ''actor B started'']), e1)
     \<and> stream_serve rng es (mailbox (e_heap e1 0)) newEventStream (e1\<lparr>e_heap := (e_heap e1)(0 := ProcObj es [])\<rparr>) = (newEventStream, e2)
     \<and> (\<exists>j. map Msg (mailbox (e_heap e2 j)) = [ActorStartedEvent (Some q') (99 + 3), User (MyCustomEvent ''Hello World!'')])"
proof -
  let ?es = "stream_pid ''local'' 5"
  obtain e :: "ev_msg engine" where e: "eng_inv e" "stream_ok ?es 0 e" "e_heap e 0 = ProcObj ?es []" "e_Registry e = \<lparr>reg_lookup = [ID ?es \<mapsto> 0], responses = Map.empty\<rparr>"
    using example_addressed_engine by blast
  obtain rng :: "(pid_ptr \<rightharpoonup> bool) \<Rightarrow> pid_ptr list" where r: "\<forall>m. finite (dom m) \<longrightarrow> range_order m (rng m)" using ranges_exist by blast
  have f: "reg_lookup (e_Registry e) (ID (NewPID (e_address e) (''actor_a/'' @ Itoa (int 1)))) = None"
    "reg_lookup (e_Registry e) (ID (NewPID (e_address e) (''actor_b/'' @ Itoa (int 2)))) = None" by (simp_all add: e(4) stream_pid_id)
  from eventstream_example [OF e(1-3) refl refl f r, of 7 8 "\<lambda>i. 99 + i"] obtain e1 e2 j where
    "eventstream_main 7 8 1 2 (\<lambda>i. 99 + i) e = (Inr (NewPID (e_address e) (''actor_a/'' @ Itoa (int 1)), NewPID (e_address e) (''actor_b/'' @ Itoa (int 2)),
       [''actor A started'', ''actor B started'']), e1)"
    "stream_serve rng ?es (mailbox (e_heap e1 0)) newEventStream (e1\<lparr>e_heap := (e_heap e1)(0 := ProcObj ?es [])\<rparr>) = (newEventStream, e2)"
    "map Msg (mailbox (e_heap e2 j)) = [ActorStartedEvent (Some (NewPID (e_address e) (''actor_b/'' @ Itoa (int 2)))) (99 + 3), User (MyCustomEvent ''Hello World!'')]"
    by (elim exE conjE) (rule that)
  then show ?thesis by (intro exI conjI)
qed

theorem remote_example_witness:
  "\<exists>(c :: remote_msg engine) c' e e1. remote_client_rounds 3 c = (Inr (), c') \<and> remote_server_main 0 e = (Inr remote_serverPID, e1)
     \<and> (\<exists>ls. map_option rem_sent (e_remote c') = Some ls)"
proof -
  let ?p = "(newProcess ''127.0.0.1:4000'' () (DefaultOpts remote_newServer remote_server_Receive))\<lparr>p_receive := remote_server_Receive\<rparr>"
  obtain c0 :: "remote_msg engine" where c0: "stream_ok (stream_pid ''127.0.0.1:3000'' 5) 0 c0" "e_address c0 = ''127.0.0.1:3000''" using example_addressed_engine by blast
  let ?c = "c0\<lparr>e_remote := Some \<lparr>rem_Address = ''127.0.0.1:3000'', rem_sent = []\<rparr>\<rparr>"
  have c: "stream_ok (stream_pid ''127.0.0.1:3000'' 5) 0 ?c" using c0(1) by (simp add: stream_ok_def)
  obtain e :: "remote_msg engine" where e: "eng_inv e" "stream_ok (stream_pid ''127.0.0.1:4000'' 5) 0 e" "e_address e = ''127.0.0.1:4000''"
    "e_Registry e = \<lparr>reg_lookup = [ID (stream_pid ''127.0.0.1:4000'' 5) \<mapsto> 0], responses = Map.empty\<rparr>" using example_addressed_engine by blast
  have f: "reg_lookup (e_Registry e) ''server/primary'' = None" by (simp add: e(4) stream_pid_id)
  from remote_example [OF c _ _ _ e(1-3) f, of _ ?p 3 0 example_process_env 0] c0(2) show ?thesis by force
qed

theorem child_per_message_witness:
  "\<exists>(e :: string engine) c c1 e1 c2 e2 out. fooReceiver_Receive 3 c None e = (Inr (Some (NewPID ''local'' ''foo/1/bar/msg_1''), c1, out), e1)
     \<and> fooReceiver_Receive 4 c1 (Some (NewPID ''local'' ''foo/1/bar/msg_1'')) e1 = (Inr (Some (NewPID ''local'' ''foo/1/bar/msg_1''), c2, out), e2) \<and> e_started e2 = e_started e1"
proof -
  let ?c = "newContext background (NewPID ''local'' ''foo/1'') (User ''msg_1'')" and ?q = "NewPID ''local'' ''foo/1/bar/msg_1''"
  obtain e :: "string engine" where e: "eng_inv e" "stream_ok (stream_pid ''local'' 5) 0 e" "e_address e = ''local''"
    "e_Registry e = \<lparr>reg_lookup = [ID (stream_pid ''local'' 5) \<mapsto> 0], responses = Map.empty\<rparr>" using example_addressed_engine by blast
  have "c_message ?c = User ''msg_1''" "''msg_1'' \<noteq> []" "?q = NewPID (e_address e) (ID (c_pid ?c) @ ''/bar/'' @ ''msg_1'')" "reg_lookup (e_Registry e) (ID ?q) = None"
    by (simp_all add: newContext_def e(3,4) stream_pid_id)
  from child_per_message [OF e(1,2) this, of 3 4] show ?thesis by blast
qed

end
