(* ===== verification/TradeMain.thy ===== *)
theory TradeMain
  imports TradeEngine Starters
begin

section \<open>The script of the trade engine (examples/trade-engine/main.go)\<close>

text \<open>
  The example program creates an order, asks the trade engine for its trade info, cancels the order
  and stops the trade engine. The theory puts the script, the engine's requests and the trade
  engine's handlers together: the question is never answered, so the script always ends with exit
  code 1 before it cancels anything.
\<close>

definition hex_digit :: "nat \<Rightarrow> char" where
  "hex_digit n = ''0123456789abcdef'' ! n"

text \<open>\<open>hex.EncodeToString\<close> of the bytes that \<open>rand.Read\<close> stored.\<close>

definition GenID :: "8 word list \<Rightarrow> string" where
  "GenID bytes = concat (map (\<lambda>b. [hex_digit (unat b div 16), hex_digit (unat b mod 16)]) bytes)"

definition script_order :: "string \<Rightarrow> trade_order_request" where
  "script_order i = \<lparr>TradeID = i, Token0 = ''token0'', Token1 = ''token1'', Chain = ''ETH'', Wallet = ''wallet6'', PrivateKey = ''privateKey'', Expires = 0\<rparr>"

datatype script_end =
    ExitOne string               \<comment> \<open>\<open>os.Exit(1)\<close> after printing a message\<close>
  | WaitFor nat trade_msg        \<comment> \<open>waiting for the context of the pill, with the trade info it got\<close>

text \<open>\<open>elapse\<close> is what the rest of the system does to the engine while the script waits in \<open>Result\<close>.\<close>

definition trade_main :: "nat \<Rightarrow> 8 word list \<Rightarrow> (trade_msg engine \<Rightarrow> trade_msg engine) \<Rightarrow> (trade_msg, script_end) act" where
  "trade_main random bytes elapse =
     bindA (a_Spawn ''trade-engine'' [] random (DefaultOpts (\<lambda>u. (u, None)) (\<lambda>_ u. (u, [], None)) :: (unit, trade_msg, unit) opts)) (\<lambda>tradeEnginePID.
       let tradeOrder = script_order (GenID bytes) in
       bindA (a_Send (Some tradeEnginePID) (User (TradeOrderRequest tradeOrder)) None) (\<lambda>_ e.
         case Request (Some tradeEnginePID) (User (TradeInfoRequest (TradeID tradeOrder))) (5 * 1000000000) e of
           (resp, r, e1) \<Rightarrow> bindA (\<lambda>_. of_send (r, e1)) (\<lambda>_ e2.
             case Result resp (elapse e2) of
               (None, e3) \<Rightarrow> (Inr (ExitOne ''Failed to get trade info''), e3)
             | (Some (User (TradeInfoResponse foo bar p)), e3) \<Rightarrow>
                 bindA (a_Send (Some tradeEnginePID) (User (CancelOrderRequest (TradeID tradeOrder))) None)
                   (\<lambda>_. bindA (a_Poison (Some tradeEnginePID)) (\<lambda>ctx. ret (WaitFor ctx (TradeInfoResponse foo bar p)))) e3
             | (Some _, e3) \<Rightarrow> (Inr (ExitOne ''Failed to cast response to TradeInfoResponse''), e3)) e))"

subsection \<open>The trade engine's turns\<close>

text \<open>
  The trade engine handles the messages of its inbox, in order and with any random numbers for the
  children it spawns; the context it starts with has no children.
\<close>

fun te_turns :: "(nat \<times> nat) list \<Rightarrow> trade_msg envelope list \<Rightarrow> trade_msg actor_context \<Rightarrow> (trade_msg, trade_msg actor_context) act" where
  "te_turns (r # rs) (m # ms) c = bindA (tradeEngine_Receive (fst r) (snd r) id (c\<lparr>c_message := Msg m, c_sender := Sender m\<rparr>)) (\<lambda>(c', _). te_turns rs ms c')"
| "te_turns _ _ c = ret c"

lemma hex_digit_plain: "n < 16 \<Longrightarrow> hex_digit n \<noteq> CHR ''/''"
  unfolding hex_digit_def by (auto simp: less_Suc_eq eval_nat_numeral)

lemma hex_list:
  assumes "\<And>b. f b \<noteq> x" "\<And>b. g b \<noteq> x"
  shows "x \<notin> set (concat (map (\<lambda>b. [f b, g b]) bs))"
  by (induction bs) (simp_all add: assms [symmetric])

lemma GenID_plain: "CHR ''/'' \<notin> set (GenID bytes)"
proof -
  have "unat b < 2 ^ LENGTH(8)" for b :: "8 word" by (rule unsigned_less)
  then have "hex_digit (unat b div 16) \<noteq> CHR ''/''" "hex_digit (unat b mod 16) \<noteq> CHR ''/''" for b :: "8 word"
    by (simp_all add: hex_digit_plain less_mult_imp_div_less)
  then show ?thesis unfolding GenID_def by (rule hex_list)
qed

text \<open>An engine in order with an unanswered response at \<open>k\<close>.\<close>

definition unanswered :: "pid \<Rightarrow> nat \<Rightarrow> nat \<Rightarrow> trade_msg engine \<Rightarrow> bool" where
  "unanswered es h k e \<longleftrightarrow> eng_inv e \<and> stream_ok es h e \<and> k < e_size e \<and> (\<exists>rid t. e_heap e k = RespObj rid None t)"

lemma unanswered_other: "unanswered es h k e \<Longrightarrow> k \<noteq> h"
  by (auto simp: unanswered_def stream_ok_def)

lemma spawn_trader_unanswered:
  assumes "unanswered es h k e"
  shows "\<exists>q c' e'. spawn_trader x name random c e = (Inr (q, c'), e') \<and> unanswered es h k e'"
proof -
  let ?q = "NewPID (e_address e) (ID (c_pid c) @ pidSeparator @ name @ pidSeparator @ Itoa (int random))"
  obtain q r e' where s: "SpawnProc (ProcObj ?q []) e = (q, r, e')" by (metis prod_cases3)
  note kept = SpawnProc_keeps [OF _ _ s, of es h]
  have "unanswered es h k e'" using assms kept unanswered_other [OF assms] by (auto simp: unanswered_def)
  moreover have "r = SDone" using assms kept(6) by (simp add: unanswered_def)
  ultimately show ?thesis using s by (auto simp: spawn_trader_def a_SpawnChild_def SpawnChild_plain Let_def bindA_def ret_def)
qed

lemma ensurePriceWatcher_unanswered:
  assumes "unanswered es h k e"
  shows "\<exists>q c' ws e'. ensurePriceWatcher random m c e = (Inr (q, c', ws), e') \<and> unanswered es h k e'"
proof (cases "ctx_Child (''trade-engine/'' @ toTicker (Token0 m) (Token1 m) (Chain m)) c")
  case None
  let ?w = "Watcher (NewPriceActor \<lparr>po_Ticker = toTicker (Token0 m) (Token1 m) (Chain m), po_Token0 = Token0 m, po_Token1 = Token1 m, po_Chain = Chain m\<rparr>)"
  obtain q c' e' where "spawn_trader ?w (toTicker (Token0 m) (Token1 m) (Chain m)) random c e = (Inr (q, c'), e')" "unanswered es h k e'"
    using spawn_trader_unanswered [OF assms] by blast
  with None show ?thesis by (simp add: ensurePriceWatcher_def bindA_run ret_def Let_def)
next
  case (Some q)
  with assms show ?thesis by (simp add: ensurePriceWatcher_def ret_def Let_def)
qed

lemma spawnExecutor_unanswered:
  assumes "unanswered es h k e"
  shows "\<exists>c' sp e'. spawnExecutor random random' m c e = (Inr (c', sp), e') \<and> unanswered es h k e'"
proof -
  obtain q c1 ws e1 where e1: "ensurePriceWatcher random m c e = (Inr (q, c1, ws), e1)" "unanswered es h k e1"
    using ensurePriceWatcher_unanswered [OF assms] by blast
  let ?x = "Executor (NewExecutorActor \<lparr>eo_PriceWatcherPID = Some q, eo_TradeID = TradeID m,
      eo_Ticker = toTicker (Token0 m) (Token1 m) (Chain m), eo_Token0 = Token0 m, eo_Token1 = Token1 m,
      eo_Chain = Chain m, eo_Wallet = Wallet m, eo_Pk = PrivateKey m, eo_Expires = Expires m\<rparr>)"
  obtain q2 c2 e2 where "spawn_trader ?x (TradeID m) random' c1 e1 = (Inr (q2, c2), e2)" "unanswered es h k e2"
    using spawn_trader_unanswered [OF e1(2)] by blast
  then show ?thesis using e1(1) by (simp add: spawnExecutor_def bindA_run ret_def Let_def)
qed

text \<open>The two turns the script gives the trade engine: the order and the question.\<close>

lemma te_turns_unanswered:
  assumes "unanswered es h k e" "ID q = ''trade-engine/'' @ i" "CHR ''/'' \<notin> set tid"
  shows "\<exists>c e'. te_turns [r1, r2] [\<lparr>Msg = User (TradeOrderRequest order), Sender = s1\<rparr>, \<lparr>Msg = User (TradeInfoRequest tid), Sender = s2\<rparr>]
    (newContext ctx q m0) e = (Inr c, e') \<and> unanswered es h k e'"
proof -
  let ?c = "(newContext ctx q m0)\<lparr>c_message := User (TradeOrderRequest order), c_sender := s1\<rparr>"
  obtain c1 sp e1 where 1: "spawnExecutor (fst r1) (snd r1) order ?c e = (Inr (c1, sp), e1)" "unanswered es h k e1"
    using spawnExecutor_unanswered [OF assms(1)] by blast
  have "own_children ?c" "c_pid ?c = q" by (simp_all add: own_children_new) (simp add: newContext_def)
  with spawnExecutor_own [OF 1(1)] have own: "own_children c1" "c_pid c1 = q" by simp_all
  let ?c1 = "c1\<lparr>c_message := User (TradeInfoRequest tid), c_sender := s2\<rparr>"
  have "ctx_Child (''trade-engine/'' @ tid) ?c1 = None" using own_lookup_misses [of ?c1 i tid] own assms(2,3) by simp
  then have "tradeEngine_Receive (fst r2) (snd r2) id ?c1 e1 = (Inr (?c1, []), e1)"
    by (simp add: tradeEngine_Receive_def handleTradeInfoRequest_def bindA_run ret_def)
  moreover have "tradeEngine_Receive (fst r1) (snd r1) id ?c e = (Inr (c1, sp), e1)" using 1(1) by (simp add: tradeEngine_Receive_def)
  ultimately show ?thesis using 1(2) by (simp add: bindA_run ret_def)
qed

text \<open>What the rest of the system does while the script waits: the trade engine's turns.\<close>

definition te_elapse :: "nat \<times> nat \<Rightarrow> nat \<times> nat \<Rightarrow> nat \<Rightarrow> pid \<Rightarrow> nat \<Rightarrow> trade_msg engine \<Rightarrow> trade_msg engine" where
  "te_elapse r1 r2 ctx q g e = snd (te_turns [r1, r2] (mailbox (e_heap e g)) (newContext ctx q Started) e)"

lemma Result_unanswered: "unanswered es h k e \<Longrightarrow> fst (Result k e) = None"
  by (auto simp: unanswered_def Result_select_def Let_def)

text \<open>A question to a local actor waits in its inbox, and its response is empty.\<close>

lemma Request_unanswered:
  assumes "eng_inv e" "stream_ok es h e" "Address q = e_address e" "reg_lookup (e_Registry e) (ID q) = Some g" "e_heap e g = ProcObj q mb"
  obtains k e1 where "Request (Some q) m tmo e = (k, SDone, e1)" "unanswered es h k e1"
    "e_heap e1 g = ProcObj q (mb @ [\<lparr>Msg = m, Sender = Some (response_pid e)\<rparr>])"
proof -
  obtain k r e1 where req: "Request (Some q) m tmo e = (k, r, e1)" by (metis prod_cases3)
  note handed = Request_handed [OF assms req]
  let ?rid = "response_pid e"
  define e2 where "e2 = e\<lparr>e_responseSeq := e_responseSeq e + 1, e_heap := (e_heap e)(e_size e := RespObj ?rid None tmo),
     e_size := Suc (e_size e), e_Registry := (e_Registry e)\<lparr>responses := (responses (e_Registry e))(ID ?rid \<mapsto> e_size e)\<rparr>\<rparr>"
  have hk: "h < e_size e" "g < e_size e" using assms(1,2,4) by (auto simp: eng_inv_def stream_ok_def)
  have k: "k = e_size e" and e1: "(r, e1) = SendWithSender (Some q) m (Some ?rid) e2"
    using req by (auto simp: Request_def NewResponse_def alloc_def Let_def registerResponse_def response_pid_def e2_def)
  have s2: "stream_ok es h e2" using assms(2) hk by (auto simp: stream_ok_def e2_def)
  have "(r, e1) = proc_send g (Some q) m (Some ?rid) e2"
    using SendWithSender_arrives [OF s2] e1 assms(3,4) by (simp add: route_def arrive_def reg_get_def e2_def)
  then have "stream_ok es h e1 \<and> k < e_size e1 \<and> e_heap e1 k = RespObj ?rid None tmo"
    using s2 hk assms(5) by (auto simp: proc_send_def e2_def k stream_ok_def)
  moreover have "eng_inv e1" using Request_inv [OF assms(1), of "Some q" m tmo] req by simp
  ultimately have "unanswered es h k e1" by (auto simp: unanswered_def)
  then show ?thesis using that req handed(1,2) by simp
qed

text \<open>
  C31. The script of the trade engine always fails. Whatever random numbers and ids are drawn, the
  order and the question reach the trade engine's inbox; once the trade engine has handled both,
  the response is still empty, so the script exits with code 1 and never cancels the order or
  stops the trade engine.
\<close>

theorem trade_script_fails:
  assumes "eng_inv e" "stream_ok es h e" "reg_lookup (e_Registry e) (''trade-engine/'' @ Itoa (int random)) = None"
    "q = NewPID (e_address e) (''trade-engine/'' @ Itoa (int random))"
  shows "\<exists>e'. trade_main random bytes (te_elapse r1 r2 ctx q (e_size e)) e = (Inr (ExitOne ''Failed to get trade info''), e')"
proof -
  let ?g = "e_size e" and ?o = "script_order (GenID bytes)"
  let ?i = "User (TradeInfoRequest (TradeID ?o)) :: trade_msg msg"
  have q: "q = NewPID (e_address e) (''trade-engine'' @ pidSeparator @ Itoa (int random))" by (simp add: assms(4) pidSeparator_def)
  have "reg_lookup (e_Registry e) (ID q) = None" using assms(3,4) by simp
  from a_Spawn_free [OF assms(1,2) q this, where i = "\<lambda>u. (u, None)" and r = "\<lambda>_ u. (u, [], None)"]
  obtain e1 where e1: "a_Spawn ''trade-engine'' [] random (DefaultOpts (\<lambda>u. (u, None)) (\<lambda>_ u. (u, [], None)) :: (unit, trade_msg, unit) opts) e = (Inr q, e1)"
    "eng_inv e1" "stream_ok es h e1" "local_actor q ?g e1" "e_heap e1 ?g = ProcObj q []" "e_address e1 = e_address e" "reg_lookup (e_Registry e1) (ID q) = Some ?g"
    by fastforce
  let ?mo = "\<lparr>Msg = User (TradeOrderRequest ?o), Sender = None\<rparr> :: trade_msg envelope"
  define e2 where "e2 = e1\<lparr>e_heap := (e_heap e1)(?g := ProcObj q [?mo])\<rparr>"
  have send: "a_Send (Some q) (User (TradeOrderRequest ?o)) None e1 = (Inr (), e2)" using a_Send_local [OF e1(3-5)] by (simp add: e2_def)
  have "pidof e2 = pidof e1" using e1(5) by (auto simp: e2_def fun_eq_iff)
  then have "eng_inv e2" using e1(2) by (simp add: eng_inv_def) (simp add: e2_def)
  moreover have "stream_ok es h e2" using e1(3,5) by (auto simp: stream_ok_def e2_def)
  moreover have "Address q = e_address e2" "reg_lookup (e_Registry e2) (ID q) = Some ?g" "e_heap e2 ?g = ProcObj q [?mo]"
    using e1(6,7) assms(4) by (simp_all add: e2_def)
  ultimately obtain k e3 where e3: "Request (Some q) ?i (5 * 1000000000) e2 = (k, SDone, e3)" "unanswered es h k e3"
    "e_heap e3 ?g = ProcObj q [?mo, \<lparr>Msg = ?i, Sender = Some (response_pid e2)\<rparr>]"
    by (rule Request_unanswered) simp
  have "CHR ''/'' \<notin> set (TradeID ?o)" using GenID_plain by (simp add: script_order_def)
  moreover have "ID q = ''trade-engine/'' @ Itoa (int random)" by (simp add: assms(4))
  ultimately obtain c e5 where "te_turns [r1, r2] (mailbox (e_heap e3 ?g)) (newContext ctx q Started) e3 = (Inr c, e5)" "unanswered es h k e5"
    using te_turns_unanswered [OF e3(2)] unfolding e3(3) processer.sel by blast
  then have "unanswered es h k (te_elapse r1 r2 ctx q ?g e3)" by (simp add: te_elapse_def)
  from Result_unanswered [OF this] obtain e4 where "Result k (te_elapse r1 r2 ctx q ?g e3) = (None, e4)" by (metis prod.collapse)
  then show ?thesis using e1(1) send e3(1) by (simp add: trade_main_def bindA_run Let_def)
qed

theorem trade_script_fails_witness:
  "\<exists>(e :: trade_msg engine) q e'. trade_main 42 [0xAB, 0x01] (te_elapse (1, 2) (3, 4) background q (e_size e)) e = (Inr (ExitOne ''Failed to get trade info''), e')"
proof -
  obtain e :: "trade_msg engine" where e: "eng_inv e" "stream_ok (stream_pid ''local'' 5) 0 e"
    "e_Registry e = \<lparr>reg_lookup = [ID (stream_pid ''local'' 5) \<mapsto> 0], responses = Map.empty\<rparr>" using example_addressed_engine by blast
  have "reg_lookup (e_Registry e) (''trade-engine/'' @ Itoa (int 42)) = None" by (simp add: e(3) stream_pid_id)
  from trade_script_fails [OF e(1,2) this refl] show ?thesis by blast
qed

end
