(* ===== verification/Programs.thy ===== *)
theory Programs
  imports Persistence Monitor Starters
begin

section \<open>Whole programs (examples/persistance, request, metrics, restarts, middleware/hooks, childprocs, eventstream-monitor)\<close>

text \<open>
  The mains of seven examples, from the calls on the engine to what the actors have done when the
  program ends. A \<open>main\<close> is a step on the engine; the actors run on their processes with the
  messages it left in their inboxes, in whatever batches the inbox forms of them.
\<close>

lemma send_poison:
  assumes "stream_ok es h e" "local_actor q g e" "e_heap e g = ProcObj q []"
  obtains ctx e1 e2 where "a_Send (Some q) m None e = (Inr (), e1)" "a_Poison (Some q) e1 = (Inr ctx, e2)" "local_actor q g e2"
    "mailbox (e_heap e2 g) = [\<lparr>Msg = m, Sender = None\<rparr>, \<lparr>Msg = PoisonPill (Some ctx) True, Sender = None\<rparr>]"
proof -
  let ?m = "\<lparr>Msg = m, Sender = None\<rparr>"
  let ?e1 = "e\<lparr>e_heap := (e_heap e)(g := ProcObj q [?m])\<rparr>"
  have s: "a_Send (Some q) m None e = (Inr (), ?e1)" using a_Send_local [OF assms] by simp
  have l: "local_actor q g ?e1" using assms(2) by (simp add: local_actor_def)
  have "a_Poison (Some q) ?e1 = (Inr (e_contexts ?e1), ?e1\<lparr>e_contexts := Suc (e_contexts ?e1),
     e_heap := (e_heap ?e1)(g := ProcObj q ([?m] @ [\<lparr>Msg = PoisonPill (Some (e_contexts ?e1)) True, Sender = None\<rparr>]))\<rparr>)"
    by (rule a_Poison_local [OF l]) simp
  from that [OF s this local_actor_mailbox [OF l]] show ?thesis by simp
qed

subsection \<open>The player that persists\<close>

definition player_opts :: "file_store \<Rightarrow> nat \<Rightarrow> ((player, disk) world, player_msg, unit) opts" where
  "player_opts r random = spawn_opts ''playerState'' [WithMiddleware [WithPersistence (file_storer r) (Some player_persister)], WithID ''james''] random
     (DefaultOpts (newPlayerState 100 ''James'') player_Receive)"

text \<open>\<open>None\<close>: the directory cannot be made and \<open>log.Fatal\<close> ends the program.\<close>

definition persistance_main :: "bool \<Rightarrow> bool \<Rightarrow> nat \<Rightarrow> (player_msg, (pid \<times> nat) option) act" where
  "persistance_main mkdir_err is_exist random =
     (case newFileStore mkdir_err is_exist of
        None \<Rightarrow> ret None
      | Some store \<Rightarrow>
          bindA (a_Spawn ''playerState'' [WithMiddleware [WithPersistence (file_storer store) (Some player_persister)], WithID ''james''] random
              (DefaultOpts (newPlayerState 100 ''James'') player_Receive :: ((player, disk) world, player_msg, unit) opts)) (\<lambda>pid.
            bindA (a_Send (Some pid) (User (TakeDamage 9)) None) (\<lambda>_.
              bindA (a_Poison (Some pid)) (\<lambda>ctx. ret (Some (pid, ctx))))))"

text \<open>The world and the disk after a run of the player's process, from its start to the last of its batches.\<close>

definition player_process :: "file_store \<Rightarrow> string \<Rightarrow> nat \<Rightarrow> disk \<Rightarrow> ((player, disk) world, player_msg, unit) process" where
  "player_process r addr random d = newProcess addr \<lparr>w_receiver = \<lparr>Health = 0, Username = []\<rparr>, w_disk = d, w_exited = False\<rparr> (player_opts r random)"

definition player_world :: "env \<Rightarrow> file_store \<Rightarrow> string \<Rightarrow> nat \<times> player_msg envelope list list \<Rightarrow> disk \<Rightarrow> (player, disk) world" where
  "player_world \<epsilon> r addr x d = p_user (snd (run_batches \<epsilon> 1 (snd x) (snd (proc_Start \<epsilon> 1 (player_process r addr (fst x) d)))))"

definition player_run :: "env \<Rightarrow> file_store \<Rightarrow> string \<Rightarrow> nat \<times> player_msg envelope list list \<Rightarrow> disk \<Rightarrow> disk" where
  "player_run \<epsilon> r addr x d = w_disk (player_world \<epsilon> r addr x d)"

definition hit :: "player_msg envelope \<Rightarrow> player \<Rightarrow> player" where
  "hit m x = (case Msg m of User (TakeDamage n) \<Rightarrow> x\<lparr>Health := Health x - n\<rparr> | _ \<Rightarrow> x)"

text \<open>A running player in the state \<open>x\<close> under the PID \<open>q\<close>, on the disk \<open>d\<close>.\<close>

definition playing :: "file_store \<Rightarrow> pid \<Rightarrow> disk \<Rightarrow> player \<Rightarrow> ((player, disk) world, player_msg, unit) process \<Rightarrow> bool" where
  "playing r q d x p \<longleftrightarrow> running_player r p \<and> p_pid p = q \<and> w_disk (p_user p) = d \<and> player_of p = x \<and> \<not> w_exited (p_user p)"

interpretation plays: steady_actor "playing r q d" hit "\<lambda>m. \<exists>n. Msg m = User (TakeDamage n)" for r q d
  by unfold_locales (auto simp: playing_def running_player_def invokeMsg_def call_receive_def WithPersistence_def player_Receive_def emit_def hit_def)

definition written :: "file_store \<Rightarrow> pid \<Rightarrow> player \<Rightarrow> disk \<Rightarrow> disk" where
  "written r q x d = d\<lparr>d_files := (d_files d)(file_of r (pid_String q) := player_State x)\<rparr>"

lemma player_cleanup:
  assumes "playing r q d x p" "writable (file_of r (pid_String q)) d"
  shows "\<exists>p'. cleanup \<epsilon> c p = (Ret, p') \<and> w_disk (p_user p') = written r q x d \<and> \<not> w_exited (p_user p')"
  using assms
  by (auto simp: playing_def running_player_def writable_def written_def cleanup_def call_receive_def WithPersistence_def player_Receive_def emit_def broadcast_now_def
      player_persister_def player_State_def file_storer_def fs_Store_def file_of_def os_WriteFile_def Let_def split: option.split)

lemma player_plays:
  assumes "playing r q d x p" "writable (file_of r (pid_String q)) d" "list_all (\<lambda>m. \<exists>n. Msg m = User (TakeDamage n)) ms"
    "concat bs = ms @ [\<lparr>Msg = PoisonPill c True, Sender = src\<rparr>]"
  shows "\<exists>p'. run_batches \<epsilon> (Suc f) bs p = (Ret, p') \<and> w_disk (p_user p') = written r q (fold hit ms x) d \<and> \<not> w_exited (p_user p')"
  by (rule plays.steady_stops [OF assms(1,3,4) player_cleanup [OF _ assms(2)]]) simp_all

text \<open>What a player finds when it starts: nothing, or the state \<open>x\<close>.\<close>

definition stores :: "file_store \<Rightarrow> pid \<Rightarrow> player option \<Rightarrow> disk \<Rightarrow> bool" where
  "stores r q s d \<longleftrightarrow> writable (file_of r (pid_String q)) d
     \<and> d_files d (file_of r (pid_String q)) = Option.bind s player_State \<and> (\<forall>x. s = Some x \<longrightarrow> storable x)"

lemma player_starts:
  assumes "q = NewPID addr (''playerState'' @ pidSeparator @ ''james'')" "stores r q s d"
  shows "\<exists>p. proc_Start \<epsilon> (Suc f) (player_process r addr random d) = (Ret, p) \<and> playing r q d (case s of None \<Rightarrow> \<lparr>Health = 100, Username = ''James''\<rparr> | Some x \<Rightarrow> x) p"
proof -
  let ?x = "case s of None \<Rightarrow> \<lparr>Health = 100, Username = ''James''\<rparr> | Some x \<Rightarrow> x"
  let ?p = "player_process r addr random d" and ?w = "\<lparr>w_receiver = \<lparr>Health = 100, Username = ''James''\<rparr>, w_disk = d, w_exited = False\<rparr>"
  let ?c = "\<lparr>cv_pid = q, cv_message = Initialized, cv_sender = None\<rparr> :: player_msg ctx_view"
  have p: "Producer (p_opts ?p) = newPlayerState 100 ''James''" "Receive (p_opts ?p) = player_Receive" "Middleware (p_opts ?p) = [WithPersistence (file_storer r) (Some player_persister)]"
    "p_pid ?p = q" "p_mbuffer ?p = []" "p_sender ?p = None" "p_user ?p = \<lparr>w_receiver = \<lparr>Health = 0, Username = []\<rparr>, w_disk = d, w_exited = False\<rparr>"
    by (simp_all add: player_process_def player_opts_def newProcess_def spawn_opts_def WithMiddleware_def WithID_def DefaultOpts_def assms(1) Let_def)
  have "persistent_receive r ?c ?w = (?w\<lparr>w_receiver := ?x\<rparr>, [] :: unit action list, None)"
  proof (cases s)
    case None
    then show ?thesis using assms(2) by (simp add: stores_def WithPersistence_def file_storer_def fs_Load_def os_ReadFile_def file_of_def Let_def player_idle)
  next
    case (Some x)
    then obtain b data where "player_State x = Some b" "json_Unmarshal b = Some data" "player_LoadState data (w_receiver ?w) = (x, Inr True)"
      using player_state_law [of x] assms(2) by (auto simp: stores_def player_persister_def)
    then show ?thesis using Some assms(2)
      by (simp add: stores_def writable_def WithPersistence_def file_storer_def fs_Load_def os_ReadFile_def file_of_def Let_def player_idle player_persister_def)
  qed
  then have "\<exists>q'. start_hooks (?p\<lparr>p_user := ?w, p_receive := persistent_receive r\<rparr>) = (Ret, q') \<and> playing r q d ?x q' \<and> p_mbuffer q' = []"
    using p by (simp add: start_hooks_def call_receive_def Started_passes emit_def broadcast_now_def running_player_def playing_def)
  then show ?thesis using p by (auto simp: newPlayerState_def applyMiddleware_foldr inbox_start_def emit_def playing_def running_player_def)
qed

lemma player_run_writes:
  assumes "q = NewPID addr (''playerState'' @ pidSeparator @ ''james'')" "stores r q s d"
    "concat bs = [\<lparr>Msg = User (TakeDamage n), Sender = src\<rparr>, \<lparr>Msg = PoisonPill c True, Sender = src'\<rparr>]"
  shows "player_run \<epsilon> r addr (random, bs) d =
    written r q (let x = (case s of None \<Rightarrow> \<lparr>Health = 100, Username = ''James''\<rparr> | Some x \<Rightarrow> x) in x\<lparr>Health := Health x - n\<rparr>) d
    \<and> \<not> w_exited (player_world \<epsilon> r addr (random, bs) d)"
proof -
  let ?x = "case s of None \<Rightarrow> \<lparr>Health = 100, Username = ''James''\<rparr> | Some x \<Rightarrow> x"
  obtain p where p: "proc_Start \<epsilon> (Suc 0) (player_process r addr random d) = (Ret, p)" "playing r q d ?x p"
    using player_starts [OF assms(1,2)] by blast
  have w: "writable (file_of r (pid_String q)) d" using assms(2) by (simp add: stores_def)
  have "\<exists>p'. run_batches \<epsilon> (Suc 0) bs p = (Ret, p') \<and> w_disk (p_user p') = written r q (fold hit [\<lparr>Msg = User (TakeDamage n), Sender = src\<rparr>] ?x) d \<and> \<not> w_exited (p_user p')"
    by (rule player_plays [OF p(2) w, where c = c and src = src']) (simp_all add: assms(3))
  then show ?thesis using p(1) by (auto simp: player_run_def player_world_def hit_def Let_def)
qed

definition james :: "nat \<Rightarrow> player" where
  "james n = \<lparr>Health = 100 - 9 * of_nat n, Username = ''James''\<rparr>"

lemma james_storable: "n < 2 ^ 49 \<Longrightarrow> storable (james n)"
proof -
  assume n: "n < 2 ^ 49"
  have "(100 - 9 * of_nat n :: 64 word) = word_of_int (100 - 9 * int n)" by simp
  moreover have "sint (word_of_int (100 - 9 * int n) :: 64 word) = 100 - 9 * int n"
    unfolding sint_sbintrunc' using n by (subst signed_take_bit_int_eq_self) simp_all
  ultimately show ?thesis using n by (simp add: storable_def james_def ascii_def)
qed

lemma james_hit: "(let x = james n in x\<lparr>Health := Health x - 9\<rparr>) = james (Suc n)"
  by (simp add: james_def Let_def algebra_simps)

lemma james_runs:
  assumes "q = NewPID addr (''playerState'' @ pidSeparator @ ''james'')" "stores r q None d" "length runs < 2 ^ 49"
    "\<forall>x \<in> set runs. \<exists>c. concat (snd x) = [\<lparr>Msg = User (TakeDamage 9), Sender = None\<rparr>, \<lparr>Msg = PoisonPill (Some c) True, Sender = None\<rparr>]"
  shows "stores r q (if runs = [] then None else Some (james (length runs))) (fold (player_run \<epsilon> r addr) runs d)"
  using assms(3,4)
proof (induction runs rule: rev_induct)
  case Nil
  then show ?case using assms(2) by simp
next
  case (snoc x runs)
  let ?s = "if runs = [] then None else Some (james (length runs))" and ?d = "fold (player_run \<epsilon> r addr) runs d"
  have IH: "stores r q ?s ?d" using snoc by simp
  obtain random bs c where x: "x = (random, bs)" "concat bs = [\<lparr>Msg = User (TakeDamage 9), Sender = None\<rparr>, \<lparr>Msg = PoisonPill (Some c) True, Sender = None\<rparr>]"
    using snoc.prems(2) by (cases x) auto
  have "(case ?s of None \<Rightarrow> \<lparr>Health = 100, Username = ''James''\<rparr> | Some x \<Rightarrow> x) = james (length runs)" by (simp add: james_def)
  then have "player_run \<epsilon> r addr x ?d = written r q (james (Suc (length runs))) ?d"
    using player_run_writes [OF assms(1) IH x(2), of \<epsilon> random] james_hit [of "length runs"] x(1) by simp
  moreover have "storable (james (Suc (length runs)))" using snoc.prems(1) by (intro james_storable) simp
  ultimately show ?case using IH by (simp add: stores_def written_def writable_def)
qed

lemma james_goes_on:
  assumes "q = NewPID addr (''playerState'' @ pidSeparator @ ''james'')" "stores r q None d" "length runs < 2 ^ 49"
    "\<forall>x \<in> set runs. \<exists>c. concat (snd x) = [\<lparr>Msg = User (TakeDamage 9), Sender = None\<rparr>, \<lparr>Msg = PoisonPill (Some c) True, Sender = None\<rparr>]"
    "k < length runs"
  shows "\<not> w_exited (player_world \<epsilon> r addr (runs ! k) (fold (player_run \<epsilon> r addr) (take k runs) d))"
proof -
  have t: "length (take k runs) < 2 ^ 49" "\<forall>x \<in> set (take k runs). \<exists>c. concat (snd x) = [\<lparr>Msg = User (TakeDamage 9), Sender = None\<rparr>, \<lparr>Msg = PoisonPill (Some c) True, Sender = None\<rparr>]"
    using assms(3-5) by (auto dest: in_set_takeD)
  obtain c where "concat (snd (runs ! k)) = [\<lparr>Msg = User (TakeDamage 9), Sender = None\<rparr>, \<lparr>Msg = PoisonPill (Some c) True, Sender = None\<rparr>]"
    using assms(4,5) nth_mem by blast
  from player_run_writes [OF assms(1) james_runs [OF assms(1,2) t] this, of \<epsilon> "fst (runs ! k)"] show ?thesis by simp
qed

text \<open>
  C38. Every run of the persistence program costs the player nine points. \<open>main\<close> spawns the player
  and leaves the hit and a pill in its inbox. After one or more runs of the program on a disk that
  had no file for the player but can write one, whatever batches the inboxes made, the file holds
  the JSON of the player with 100 points less nine for each run, and no run was ended by \<open>log.Fatal\<close>.
  The runs are fewer than \<open>2 ^ 49\<close>, so that the health stays within what a JSON number keeps.
\<close>

theorem player_loses_health:
  assumes "eng_inv e" "stream_ok es h e" "reg_lookup (e_Registry e) ''playerState/james'' = None"
    "newFileStore mkdir_err is_exist = Some r" "q = NewPID (e_address e) ''playerState/james''"
    "writable (file_of r (pid_String q)) d" "d_files d (file_of r (pid_String q)) = None" "runs \<noteq> []" "length runs < 2 ^ 49"
    "\<forall>x \<in> set runs. \<exists>c. concat (snd x) = [\<lparr>Msg = User (TakeDamage 9), Sender = None\<rparr>, \<lparr>Msg = PoisonPill (Some c) True, Sender = None\<rparr>]"
  shows "(\<exists>ctx e' g. persistance_main mkdir_err is_exist random e = (Inr (Some (q, ctx)), e') \<and> local_actor q g e'
      \<and> mailbox (e_heap e' g) = [\<lparr>Msg = User (TakeDamage 9), Sender = None\<rparr>, \<lparr>Msg = PoisonPill (Some ctx) True, Sender = None\<rparr>])
    \<and> d_files (fold (player_run \<epsilon> r (e_address e)) runs d) (file_of r (pid_String q)) =
        player_State \<lparr>Health = 100 - 9 * of_nat (length runs), Username = ''James''\<rparr>
    \<and> (\<forall>k < length runs. \<not> w_exited (player_world \<epsilon> r (e_address e) (runs ! k) (fold (player_run \<epsilon> r (e_address e)) (take k runs) d)))"
proof
  have q: "q = NewPID (e_address e) (''playerState'' @ pidSeparator @ ''james'')" by (simp add: assms(5) pidSeparator_def)
  let ?fs = "[WithMiddleware [WithPersistence (file_storer r) (Some player_persister)], WithID ''james'']"
  let ?op = "DefaultOpts (newPlayerState 100 ''James'') player_Receive :: ((player, disk) world, player_msg, unit) opts"
  have "q = NewPID (e_address e) (Kind (spawn_opts ''playerState'' ?fs random ?op) @ pidSeparator @ OptID (spawn_opts ''playerState'' ?fs random ?op))"
    by (simp add: q spawn_opts_def WithMiddleware_def WithID_def DefaultOpts_def Let_def)
  from a_Spawn_opts_free [OF assms(1,2) this] assms(3,5) obtain e1 where e1: "a_Spawn ''playerState'' ?fs random ?op e = (Inr q, e1)"
    "stream_ok es h e1" "local_actor q (e_size e) e1" "e_heap e1 (e_size e) = ProcObj q []" by fastforce
  obtain ctx e2 e3 where "a_Send (Some q) (User (TakeDamage 9)) None e1 = (Inr (), e2)" "a_Poison (Some q) e2 = (Inr ctx, e3)" "local_actor q (e_size e) e3"
    "mailbox (e_heap e3 (e_size e)) = [\<lparr>Msg = User (TakeDamage 9), Sender = None\<rparr>, \<lparr>Msg = PoisonPill (Some ctx) True, Sender = None\<rparr>]"
    by (rule send_poison [OF e1(2-4)])
  with e1(1) show "\<exists>ctx e' g. persistance_main mkdir_err is_exist random e = (Inr (Some (q, ctx)), e') \<and> local_actor q g e'
      \<and> mailbox (e_heap e' g) = [\<lparr>Msg = User (TakeDamage 9), Sender = None\<rparr>, \<lparr>Msg = PoisonPill (Some ctx) True, Sender = None\<rparr>]"
    by (intro exI [of _ ctx] exI [of _ e3] exI [of _ "e_size e"]) (simp add: persistance_main_def assms(4) bindA_run ret_def)
  have "stores r q None d" using assms(6,7) by (simp add: stores_def)
  note runs = james_runs [OF q this assms(9,10), of \<epsilon>] james_goes_on [OF q this assms(9,10), of _ \<epsilon>]
  from runs assms(8) show "d_files (fold (player_run \<epsilon> r (e_address e)) runs d) (file_of r (pid_String q)) =
        player_State \<lparr>Health = 100 - 9 * of_nat (length runs), Username = ''James''\<rparr>
    \<and> (\<forall>k < length runs. \<not> w_exited (player_world \<epsilon> r (e_address e) (runs ! k) (fold (player_run \<epsilon> r (e_address e)) (take k runs) d)))"
    by (simp add: stores_def james_def)
qed

subsection \<open>Two requests\<close>

text \<open>
  One question: \<open>None\<close> is \<open>log.Fatal\<close>, else the lines printed. \<open>elapse\<close> is what the rest of the
  system does while the program waits in \<open>Result\<close>.
\<close>

definition request_name :: "pid \<Rightarrow> (req_msg engine \<Rightarrow> req_msg engine) \<Rightarrow> (req_msg, string list option) act" where
  "request_name pid elapse e =
     (case Request (Some pid) (User NameRequest) 1000000 e of
        (resp, r, e1) \<Rightarrow> bindA (\<lambda>_. of_send (r, e1)) (\<lambda>_ e2.
          case Result resp (elapse e2) of
            (None, e3) \<Rightarrow> (Inr None, e3)
          | (Some (User (NameResponse name)), e3) \<Rightarrow> (Inr (Some [''received name: '' @ name]), e3)
          | (Some _, e3) \<Rightarrow> (Inr (Some []), e3)) e)"

definition spawn_responder :: "string \<Rightarrow> string \<Rightarrow> nat \<Rightarrow> (req_msg, pid) act" where
  "spawn_responder name kind random = a_Spawn kind [] random (DefaultOpts (\<lambda>_. (name, None)) (\<lambda>_ u. (u, [], None)) :: (string, req_msg, unit) opts)"

definition request_main :: "nat \<Rightarrow> nat \<Rightarrow> (pid \<Rightarrow> req_msg engine \<Rightarrow> req_msg engine) \<Rightarrow> (pid \<Rightarrow> req_msg engine \<Rightarrow> req_msg engine) \<Rightarrow> (req_msg, string list option) act" where
  "request_main random random' elapse elapse' =
     bindA (spawn_responder newNameResponder ''responder'' random) (\<lambda>pid.
     bindA (request_name pid (elapse pid)) (\<lambda>r.
       case r of None \<Rightarrow> ret None | Some xs \<Rightarrow>
         bindA (spawn_responder (newCustomNameResponder ''khulnasoft'') ''custom_responder'' random') (\<lambda>pid'.
         bindA (request_name pid' (elapse' pid')) (\<lambda>r'.
           case r' of None \<Rightarrow> ret None | Some ys \<Rightarrow> ret (Some (xs @ ys))))))"

text \<open>A responder handles the messages of its inbox, if it is registered.\<close>

fun responder_turns :: "pid \<Rightarrow> string \<Rightarrow> req_msg envelope list \<Rightarrow> (req_msg, string) act" where
  "responder_turns q name [] = ret name"
| "responder_turns q name (m # ms) = bindA (responder_Receive ((newContext background q (Msg m))\<lparr>c_sender := Sender m\<rparr>) name) (\<lambda>name'. responder_turns q name' ms)"

definition responder_works :: "string \<Rightarrow> pid \<Rightarrow> req_msg engine \<Rightarrow> req_msg engine" where
  "responder_works name q e = (case reg_get (Some q) (e_Registry e) of
      None \<Rightarrow> e | Some g \<Rightarrow> snd (responder_turns q name (mailbox (e_heap e g)) e))"

text \<open>No actor is registered under an id of a response.\<close>

definition no_response_ids :: "'m engine \<Rightarrow> bool" where
  "no_response_ids e \<longleftrightarrow> (\<forall>s. reg_lookup (e_Registry e) (responsePrefix @ pidSeparator @ s) = None)"

text \<open>A question to a local actor: it waits in the inbox, its answer is what \<open>Result\<close> returns, and the registry is as before.\<close>

lemma request_answered:
  assumes "eng_inv e" "stream_ok es h e" "no_response_ids e" "Address q = e_address e" "reg_lookup (e_Registry e) (ID q) = Some g" "e_heap e g = ProcObj q mb"
  obtains k e1 e2 e3 where "Request (Some q) m tmo e = (k, SDone, e1)" "e_heap e1 g = ProcObj q (mb @ [\<lparr>Msg = m, Sender = Some (response_pid e)\<rparr>])"
    "reg_get (Some q) (e_Registry e1) = Some g" "eng_Send (Some (response_pid e)) v e1 = (SDone, e2)" "Result k e2 = (Some v, e3)" "eng_inv e3" "stream_ok es h e3"
    "reg_lookup (e_Registry e3) = reg_lookup (e_Registry e)" "e_address e3 = e_address e" "e_heap e3 g = e_heap e1 g" "fst (Result k e1) = None"
proof -
  let ?rid = "response_pid e"
  obtain k r e1 where req: "Request (Some q) m tmo e = (k, r, e1)" by (metis prod_cases3)
  have fresh: "reg_getByID (ID ?rid) (e_Registry e) = None" using assms(3) by (simp add: no_response_ids_def response_pid_def reg_getByID_def)
  have "\<forall>p. Some q = Some p \<longrightarrow> ID p \<noteq> ID ?rid" using fresh assms(5) by (auto simp: reg_getByID_def)
  note a = Request_awaiting [OF assms(1,2) fresh this req] and hd = Request_handed [OF assms(1,2,4-6) req]
  have e1: "eng_inv e1" using Request_inv [OF assms(1), of "Some q" m tmo] req by simp
  obtain e2 where e2: "eng_Send (Some ?rid) v e1 = (SDone, e2)" "awaiting k ?rid (Some v) e2" "stream_ok es h e2" "\<forall>g. g \<noteq> k \<longrightarrow> e_heap e2 g = e_heap e1 g"
    using reply_awaiting(1) [OF a(2,1)] by blast
  have sh: "same_shape e1 e2" using sends_shape(1) e2(1) by (metis eng_Send_def snd_conv)
  obtain e3 where e3: "Result k e2 = (Some v, e3)" "eng_inv e3" "stream_ok es h e3"
    "reg_lookup (e_Registry e3) = reg_lookup (e_Registry e2)" "e_address e3 = e_address e2" "\<forall>g. g \<noteq> k \<longrightarrow> e_heap e3 g = e_heap e2 g"
    by (rule Result_keeps [OF e2(2) same_shape_inv [OF sh e1] e2(3)])
  have "g \<noteq> k" using hd(2) a(1) by (auto simp: awaiting_def)
  then have "e_heap e3 g = e_heap e1 g" using e3(6) e2(4) by simp
  moreover have "reg_lookup (e_Registry e3) = reg_lookup (e_Registry e)" "e_address e3 = e_address e" using e3(4,5) sh hd(3,4) by (simp_all add: same_shape_def)
  moreover have "reg_get (Some q) (e_Registry e1) = Some g" using assms(5) hd(4) by (simp add: reg_get_def)
  moreover have "fst (Result k e1) = None" using Result_awaiting [OF a(1)] by auto
  ultimately show ?thesis using that req hd(1,2) e2(1) e3(1-3) by simp
qed

text \<open>A question to an idle responder is answered with its name.\<close>

lemma request_name_answered:
  assumes "eng_inv e" "stream_ok es h e" "no_response_ids e" "Address q = e_address e" "reg_lookup (e_Registry e) (ID q) = Some g" "e_heap e g = ProcObj q []"
  obtains e' where "request_name q (responder_works name q) e = (Inr (Some [''received name: '' @ name]), e')" "eng_inv e'" "stream_ok es h e'"
    "reg_lookup (e_Registry e') = reg_lookup (e_Registry e)" "e_address e' = e_address e"
proof -
  obtain k e1 e2 e3 where r: "Request (Some q) (User NameRequest) 1000000 e = (k, SDone, e1)" "e_heap e1 g = ProcObj q ([] @ [\<lparr>Msg = User NameRequest, Sender = Some (response_pid e)\<rparr>])"
    "reg_get (Some q) (e_Registry e1) = Some g" "eng_Send (Some (response_pid e)) (User (NameResponse name)) e1 = (SDone, e2)" "Result k e2 = (Some (User (NameResponse name)), e3)"
    "eng_inv e3" "stream_ok es h e3" "reg_lookup (e_Registry e3) = reg_lookup (e_Registry e)" "e_address e3 = e_address e"
    by (rule request_answered [OF assms])
  then have "responder_works name q e1 = e2" by (simp add: responder_works_def responder_Receive_def newContext_def ctx_Respond_def bindA_def ret_def)
  then have "request_name q (responder_works name q) e = (Inr (Some [''received name: '' @ name]), e3)" using r(1,5) by (simp add: request_name_def bindA_run)
  then show ?thesis using that r(6-9) by blast
qed

lemma responder_free:
  assumes "eng_inv e" "stream_ok es h e" "no_response_ids e" "reg_lookup (e_Registry e) (kind @ pidSeparator @ Itoa (int random)) = None" "\<And>x s. responsePrefix @ pidSeparator @ s \<noteq> kind @ pidSeparator @ x"
  obtains q e1 e' where "spawn_responder name kind random e = (Inr q, e1)"
    "request_name q (responder_works name q) e1 = (Inr (Some [''received name: '' @ name]), e')" "eng_inv e'" "stream_ok es h e'" "no_response_ids e'"
    "reg_lookup (e_Registry e') = (reg_lookup (e_Registry e))(kind @ pidSeparator @ Itoa (int random) \<mapsto> e_size e)"
proof -
  let ?q = "NewPID (e_address e) (kind @ pidSeparator @ Itoa (int random))"
  have "reg_lookup (e_Registry e) (ID ?q) = None" using assms(4) by simp
  from a_Spawn_free [OF assms(1,2) refl this, where i = "\<lambda>_. (name, None)" and r = "\<lambda>_ u. (u, [], None)"]
  obtain e1 where e1: "spawn_responder name kind random e = (Inr ?q, e1)" "eng_inv e1" "stream_ok es h e1" "e_heap e1 (e_size e) = ProcObj ?q []"
    "e_address e1 = e_address e" "reg_lookup (e_Registry e1) = (reg_lookup (e_Registry e))(ID ?q \<mapsto> e_size e)"
    unfolding spawn_responder_def by fastforce
  have n: "no_response_ids e1" using assms(3,5) e1(6) by (simp add: no_response_ids_def)
  have "Address ?q = e_address e1" "reg_lookup (e_Registry e1) (ID ?q) = Some (e_size e)" using e1(5,6) by simp_all
  then obtain e' where "request_name ?q (responder_works name ?q) e1 = (Inr (Some [''received name: '' @ name]), e')" "eng_inv e'" "stream_ok es h e'"
    "reg_lookup (e_Registry e') = reg_lookup (e_Registry e1)"
    by (rule request_name_answered [OF e1(2,3) n _ _ e1(4)])
  then show ?thesis using that [OF e1(1)] n e1(6) by (simp add: no_response_ids_def)
qed

text \<open>
  The request program prints the two names. On an engine with no actor named like a response,
  both questions reach the responder they are for, the answers come back before \<open>Result\<close> gives up,
  and the program prints the default name and the name its second producer was given.
\<close>

theorem request_program:
  assumes "eng_inv e" "stream_ok es h e" "no_response_ids e" "reg_lookup (e_Registry e) (''responder/'' @ Itoa (int random)) = None"
    "reg_lookup (e_Registry e) (''custom_responder/'' @ Itoa (int random')) = None"
  shows "\<exists>e'. request_main random random' (responder_works ''noname'') (responder_works ''khulnasoft'') e
    = (Inr (Some [''received name: noname'', ''received name: khulnasoft'']), e')"
proof -
  have "reg_lookup (e_Registry e) (''responder'' @ pidSeparator @ Itoa (int random)) = None" using assms(4) by (simp add: pidSeparator_def)
  then obtain q e1 e2 where 1: "spawn_responder ''noname'' ''responder'' random e = (Inr q, e1)"
    "request_name q (responder_works ''noname'' q) e1 = (Inr (Some [''received name: '' @ ''noname'']), e2)" "eng_inv e2" "stream_ok es h e2" "no_response_ids e2"
    "reg_lookup (e_Registry e2) = (reg_lookup (e_Registry e))(''responder'' @ pidSeparator @ Itoa (int random) \<mapsto> e_size e)"
    by (rule responder_free [OF assms(1-3)]) (simp_all add: responsePrefix_def pidSeparator_def)
  have "reg_lookup (e_Registry e2) (''custom_responder'' @ pidSeparator @ Itoa (int random')) = None" using assms(5) 1(6) by (simp add: pidSeparator_def)
  then obtain q' e3 e4 where 2: "spawn_responder ''khulnasoft'' ''custom_responder'' random' e2 = (Inr q', e3)"
    "request_name q' (responder_works ''khulnasoft'' q') e3 = (Inr (Some [''received name: '' @ ''khulnasoft'']), e4)"
    by (rule responder_free [OF 1(3-5)]) (simp_all add: responsePrefix_def pidSeparator_def)
  show ?thesis using 1(1,2) 2 by (simp add: request_main_def newNameResponder_def newCustomNameResponder_def bindA_run ret_def)
qed

subsection \<open>Metrics\<close>

definition metrics_foo_Receive :: "(unit metered, string, string) receive_func" where
  "metrics_foo_Receive c u = (case cv_message c of
      Started \<Rightarrow> (u, [Act ''foo started''], None)
    | Stopped \<Rightarrow> (u, [], None)
    | User data \<Rightarrow> (u, [Act (''received: '' @ data)], None)
    | _ \<Rightarrow> (u, [], None))"

definition metrics_bar_Receive :: "(unit metered, string, string) receive_func" where
  "metrics_bar_Receive c u = (case cv_message c of
      Started \<Rightarrow> (u, [], None)
    | Stopped \<Rightarrow> (u, [], None)
    | User data \<Rightarrow> (u, [Act (''received: '' @ data)], None)
    | _ \<Rightarrow> (u, [], None))"

text \<open>The producers; the metrics live outside of the receiver.\<close>

definition metrics_newFoo :: "unit metered \<Rightarrow> unit metered \<times> string panic_val option" where
  "metrics_newFoo u = (u\<lparr>mt_user := ()\<rparr>, None)"

definition metrics_newBar :: "unit metered \<Rightarrow> unit metered \<times> string panic_val option" where
  "metrics_newBar u = (u\<lparr>mt_user := ()\<rparr>, None)"

definition metrics_main :: "(string ctx_view \<Rightarrow> nat) \<Rightarrow> nat \<Rightarrow> nat \<Rightarrow> (string, pid \<times> pid) act" where
  "metrics_main latency random random' =
     bindA (a_Spawn ''foo'' [WithMiddleware [WithMetrics latency]] random (DefaultOpts metrics_newFoo metrics_foo_Receive)) (\<lambda>fooPID.
     bindA (a_Spawn ''bar'' [WithMiddleware [WithMetrics latency]] random' (DefaultOpts metrics_newBar metrics_bar_Receive)) (\<lambda>barPID.
     bindA (a_each (\<lambda>_. bindA (a_Send (Some fooPID) (User ''message to foo'') None) (\<lambda>_. a_Send (Some barPID) (User ''message to bar'') None)) [0..<10]) (\<lambda>_.
     ret (fooPID, barPID))))"

definition metered_printer :: "('m msg \<Rightarrow> 'a list) \<Rightarrow> (unit metered, 'm, 'a) receive_func" where
  "metered_printer say c u = (u, map Act (say (cv_message c)), None)"

definition metrics_foo_says :: "string msg \<Rightarrow> string list" where
  "metrics_foo_says m = (case m of Started \<Rightarrow> [''foo started''] | User data \<Rightarrow> [''received: '' @ data] | _ \<Rightarrow> [])"

definition metrics_bar_says :: "string msg \<Rightarrow> string list" where
  "metrics_bar_says m = (case m of User data \<Rightarrow> [''received: '' @ data] | _ \<Rightarrow> [])"

lemma metrics_print: "metrics_foo_Receive = metered_printer metrics_foo_says" "metrics_bar_Receive = metered_printer metrics_bar_says"
  by (simp_all add: fun_eq_iff metrics_foo_Receive_def metrics_bar_Receive_def metered_printer_def metrics_foo_says_def metrics_bar_says_def split: msg.split)

text \<open>A metered process that was called \<open>n\<close> times and has printed \<open>xs\<close>.\<close>

definition metering :: "('m ctx_view \<Rightarrow> nat) \<Rightarrow> ('m msg \<Rightarrow> 'a list) \<Rightarrow> nat \<times> 'a list \<Rightarrow> (unit metered, 'm, 'a) process \<Rightarrow> bool" where
  "metering latency say s p \<longleftrightarrow> p_receive p = WithMetrics latency (metered_printer say)
     \<and> msgCounter (p_user p) = fst s \<and> length (msgLatency (p_user p)) = fst s \<and> acts_in (p_trace p) = snd s"

interpretation meters: steady_actor "metering latency say" "\<lambda>m s. (Suc (fst s), snd s @ say (Msg m))" "\<lambda>m. \<not> is_pill (Msg m)" for latency say
  by unfold_locales (auto simp: metering_def invokeMsg_def call_receive_def WithMetrics_def metered_printer_def emit_def Let_def)

lemma fold_metered [simp]: "fold (\<lambda>m s. (Suc (fst s), snd s @ say (Msg m))) ms s = (fst s + length ms, snd s @ said say ms)"
  by (induction ms arbitrary: s) simp_all

lemma metered_starts:
  fixes p :: "(unit metered, 'm, 'a) process"
  assumes "Producer (p_opts p) = (\<lambda>u. (u\<lparr>mt_user := ()\<rparr>, None))" "Receive (p_opts p) = metered_printer say" "Middleware (p_opts p) = [WithMetrics latency]"
    "p_mbuffer p = []" "p_trace p = []" "msgCounter (p_user p) = 0" "msgLatency (p_user p) = []"
  shows "\<exists>q. proc_Start \<epsilon> (Suc f) p = (Ret, q) \<and> metering latency say (2, say Initialized @ say Started) q"
  using assms
  by (auto simp: applyMiddleware_foldr start_hooks_def call_receive_def WithMetrics_def metered_printer_def metering_def emit_def broadcast_now_def inbox_start_def Let_def)

definition metered_zero :: "unit metered" where
  "metered_zero = \<lparr>mt_user = (), msgCounter = 0, msgLatency = []\<rparr>"

lemma concat_replicate_one [simp]: "concat (replicate n [x]) = replicate n x"
  by (induction n) simp_all

lemma metered_program:
  fixes p :: "(unit metered, string, string) process"
  assumes "p = newProcess addr metered_zero (spawn_opts kind [WithMiddleware [WithMetrics latency]] random (DefaultOpts (\<lambda>u. (u\<lparr>mt_user := ()\<rparr>, None)) (metered_printer say)))"
    "concat bs = replicate n \<lparr>Msg = User data, Sender = None\<rparr>"
  shows "\<exists>p1 p2. proc_Start \<epsilon> (Suc f) p = (Ret, p1) \<and> run_batches \<epsilon> (Suc f) bs p1 = (Ret, p2)
    \<and> metering latency say (n + 2, say Initialized @ say Started @ concat (replicate n (say (User data)))) p2"
proof -
  have "Producer (p_opts p) = (\<lambda>u. (u\<lparr>mt_user := ()\<rparr>, None))" "Receive (p_opts p) = metered_printer say" "Middleware (p_opts p) = [WithMetrics latency]"
    "p_mbuffer p = []" "p_trace p = []" "msgCounter (p_user p) = 0" "msgLatency (p_user p) = []"
    by (simp_all add: assms(1) newProcess_def spawn_opts_def WithMiddleware_def DefaultOpts_def metered_zero_def Let_def)
  from metered_starts [OF this] obtain p1 where p1: "proc_Start \<epsilon> (Suc f) p = (Ret, p1)" "metering latency say (2, say Initialized @ say Started) p1" by blast
  have "list_all (\<lambda>m. \<not> is_pill (Msg m)) (concat bs)" by (simp add: assms(2) list_all_iff)
  from meters.steady_runs [OF p1(2) this, of \<epsilon> f, unfolded fold_metered fst_conv snd_conv] obtain p2 where
    "run_batches \<epsilon> (Suc f) bs p1 = (Ret, p2)" "metering latency say (2 + length (concat bs), (say Initialized @ say Started) @ said say (concat bs)) p2" by blast
  moreover have "said say (concat bs) = concat (replicate n (say (User data)))" "length (concat bs) = n" by (simp_all only: assms(2) said_def) simp_all
  ultimately show ?thesis using p1(1) by (metis add.commute append_assoc)
qed

text \<open>Letters to two local actors in turn.\<close>

lemma post_pairs:
  "a_each (\<lambda>_. bindA (a_Send p m src) (\<lambda>_. a_Send q m' src')) xs = post_all (concat (replicate (length xs) [(p, m, src), (q, m', src')]))"
proof (induction xs)
  case (Cons x xs)
  have "bindA (bindA (a_Send p m src) (\<lambda>_. a_Send q m' src')) f = bindA (a_Send p m src) (\<lambda>_. bindA (a_Send q m' src') f)" for f :: "unit \<Rightarrow> ('a, unit) act"
    by (auto simp: fun_eq_iff bindA_def split: prod.split sum.split)
  then show ?case using Cons by (simp add: post_all_def)
qed (simp add: post_all_def)

lemma pairs_mail:
  assumes "local_actor p g e" "local_actor q g' e" "g \<noteq> g'"
  shows "concat (map (mail_for es h e g) (concat (replicate n [(Some p, m, src), (Some q, m', src')]))) = replicate n \<lparr>Msg = m, Sender = src\<rparr>"
    "concat (map (mail_for es h e g') (concat (replicate n [(Some p, m, src), (Some q, m', src')]))) = replicate n \<lparr>Msg = m', Sender = src'\<rparr>"
  using assms by (induction n) (simp_all add: local_actor_mail)

lemma metrics_main_leaves:
  assumes "eng_inv e" "stream_ok es h e" "reg_lookup (e_Registry e) (''foo/'' @ Itoa (int random)) = None"
    "reg_lookup (e_Registry e) (''bar/'' @ Itoa (int random')) = None"
    "p = newProcess (e_address e) metered_zero (spawn_opts ''foo'' [WithMiddleware [WithMetrics latency]] random (DefaultOpts metrics_newFoo metrics_foo_Receive))"
    "p' = newProcess (e_address e) metered_zero (spawn_opts ''bar'' [WithMiddleware [WithMetrics latency]] random' (DefaultOpts metrics_newBar metrics_bar_Receive))"
  obtains e' g g' where "metrics_main latency random random' e = (Inr (p_pid p, p_pid p'), e')" "local_actor (p_pid p) g e'" "local_actor (p_pid p') g' e'"
    "mailbox (e_heap e' g) = replicate 10 \<lparr>Msg = User ''message to foo'', Sender = None\<rparr>"
    "mailbox (e_heap e' g') = replicate 10 \<lparr>Msg = User ''message to bar'', Sender = None\<rparr>"
proof -
  let ?op = "spawn_opts ''foo'' [WithMiddleware [WithMetrics latency]] random (DefaultOpts metrics_newFoo metrics_foo_Receive)"
  let ?op' = "spawn_opts ''bar'' [WithMiddleware [WithMetrics latency]] random' (DefaultOpts metrics_newBar metrics_bar_Receive)"
  have q: "p_pid p = NewPID (e_address e) (Kind ?op @ pidSeparator @ OptID ?op)" "p_pid p' = NewPID (e_address e) (Kind ?op' @ pidSeparator @ OptID ?op')"
    by (simp_all add: assms(5,6) newProcess_def)
  have i: "ID (p_pid p) = ''foo/'' @ Itoa (int random)" "ID (p_pid p') = ''bar/'' @ Itoa (int random')"
    by (simp_all add: q spawn_opts_def WithMiddleware_def DefaultOpts_def pidSeparator_def Let_def)
  have "reg_lookup (e_Registry e) (ID (p_pid p)) = None" using i(1) assms(3) by simp
  from a_Spawn_opts_free [OF assms(1,2) q(1) this] obtain e1 where e1: "a_Spawn ''foo'' [WithMiddleware [WithMetrics latency]] random (DefaultOpts metrics_newFoo metrics_foo_Receive) e = (Inr (p_pid p), e1)"
    "eng_inv e1" "stream_ok es h e1" "local_actor (p_pid p) (e_size e) e1" "e_heap e1 = (e_heap e)(e_size e := ProcObj (p_pid p) [])" "e_address e1 = e_address e"
    "e_size e1 = Suc (e_size e)" "reg_lookup (e_Registry e1) = (reg_lookup (e_Registry e))(ID (p_pid p) \<mapsto> e_size e)" by blast
  have "reg_lookup (e_Registry e1) (ID (p_pid p')) = None" using i assms(4) e1(8) by simp
  from a_Spawn_opts_free [OF e1(2,3) q(2) [folded e1(6)] this] e1(4) i obtain e2 where
    e2: "a_Spawn ''bar'' [WithMiddleware [WithMetrics latency]] random' (DefaultOpts metrics_newBar metrics_bar_Receive) e1 = (Inr (p_pid p'), e2)"
    "stream_ok es h e2" "local_actor (p_pid p) (e_size e) e2" "local_actor (p_pid p') (Suc (e_size e)) e2"
    "e_heap e2 = (e_heap e1)(Suc (e_size e) := ProcObj (p_pid p') [])" unfolding e1(7) by fastforce
  let ?ls = "concat (replicate 10 [(Some (p_pid p), User ''message to foo'', None), (Some (p_pid p'), User ''message to bar'', None)]) :: string letter list"
  have good: "\<forall>l \<in> set ?ls. good_letter es h e2 l" using local_actor_good [OF e2(3)] local_actor_good [OF e2(4)] by auto
  from post_all_delivers [OF e2(2) good] obtain e3 where e3: "post_all ?ls e2 = (Inr (), e3)" "same_routes e2 e3"
    "\<forall>g p mb. e_heap e2 g = ProcObj p mb \<longrightarrow> e_heap e3 g = ProcObj p (mb @ concat (map (mail_for es h e2 g) ?ls))" by blast
  have mb: "e_heap e3 (e_size e) = ProcObj (p_pid p) (replicate 10 \<lparr>Msg = User ''message to foo'', Sender = None\<rparr>)"
    "e_heap e3 (Suc (e_size e)) = ProcObj (p_pid p') (replicate 10 \<lparr>Msg = User ''message to bar'', Sender = None\<rparr>)"
    using e3(3) e1(5) e2(5) pairs_mail [OF e2(3,4), of es h 10] by simp_all
  have m: "metrics_main latency random random' e = (Inr (p_pid p, p_pid p'), e3)"
    using e1(1) e2(1) e3(1) by (simp add: metrics_main_def post_pairs bindA_run ret_def)
  show ?thesis using that [OF m same_routes_actor [OF e3(2) e2(3)] same_routes_actor [OF e3(2) e2(4)]] mb by simp
qed

text \<open>
  The metrics program counts every call. \<open>main\<close> leaves ten messages for each of its two actors
  in the inbox of that actor. Started on whatever batches of them, each actor prints its ten
  messages (and the first one that it started), and its counter and its histogram have twelve
  entries: the two calls of the start and the ten messages.
\<close>

theorem metrics_program:
  assumes "eng_inv e" "stream_ok es h e" "reg_lookup (e_Registry e) (''foo/'' @ Itoa (int random)) = None"
    "reg_lookup (e_Registry e) (''bar/'' @ Itoa (int random')) = None"
    "p = newProcess (e_address e) metered_zero (spawn_opts ''foo'' [WithMiddleware [WithMetrics latency]] random (DefaultOpts metrics_newFoo metrics_foo_Receive))"
    "p' = newProcess (e_address e) metered_zero (spawn_opts ''bar'' [WithMiddleware [WithMetrics latency]] random' (DefaultOpts metrics_newBar metrics_bar_Receive))"
  shows "\<exists>e' g g'. metrics_main latency random random' e = (Inr (p_pid p, p_pid p'), e') \<and> local_actor (p_pid p) g e' \<and> local_actor (p_pid p') g' e'
    \<and> (\<forall>bs. concat bs = mailbox (e_heap e' g) \<longrightarrow> (\<exists>p1 p2. proc_Start \<epsilon> (Suc f) p = (Ret, p1) \<and> run_batches \<epsilon> (Suc f) bs p1 = (Ret, p2)
        \<and> msgCounter (p_user p2) = 12 \<and> length (msgLatency (p_user p2)) = 12 \<and> acts_in (p_trace p2) = ''foo started'' # replicate 10 ''received: message to foo''))
    \<and> (\<forall>bs. concat bs = mailbox (e_heap e' g') \<longrightarrow> (\<exists>p1 p2. proc_Start \<epsilon> (Suc f) p' = (Ret, p1) \<and> run_batches \<epsilon> (Suc f) bs p1 = (Ret, p2)
        \<and> msgCounter (p_user p2) = 12 \<and> length (msgLatency (p_user p2)) = 12 \<and> acts_in (p_trace p2) = replicate 10 ''received: message to bar''))"
proof -
  obtain e3 g g' where e3: "metrics_main latency random random' e = (Inr (p_pid p, p_pid p'), e3)" "local_actor (p_pid p) g e3" "local_actor (p_pid p') g' e3"
    "mailbox (e_heap e3 g) = replicate 10 \<lparr>Msg = User ''message to foo'', Sender = None\<rparr>"
    "mailbox (e_heap e3 g') = replicate 10 \<lparr>Msg = User ''message to bar'', Sender = None\<rparr>"
    by (rule metrics_main_leaves [OF assms])
  have n: "metrics_newFoo = (\<lambda>u. (u\<lparr>mt_user := ()\<rparr>, None))" "metrics_newBar = (\<lambda>u. (u\<lparr>mt_user := ()\<rparr>, None))"
    by (simp_all add: fun_eq_iff metrics_newFoo_def metrics_newBar_def)
  have foo: "\<exists>p1 p2. proc_Start \<epsilon> (Suc f) p = (Ret, p1) \<and> run_batches \<epsilon> (Suc f) bs p1 = (Ret, p2)
        \<and> metering latency metrics_foo_says (10 + 2, metrics_foo_says Initialized @ metrics_foo_says Started @ concat (replicate 10 (metrics_foo_says (User ''message to foo'')))) p2"
    if "concat bs = mailbox (e_heap e3 g)" for bs
    by (rule metered_program) (simp_all only: assms(5) n metrics_print that e3(4))
  have bar: "\<exists>p1 p2. proc_Start \<epsilon> (Suc f) p' = (Ret, p1) \<and> run_batches \<epsilon> (Suc f) bs p1 = (Ret, p2)
        \<and> metering latency metrics_bar_says (10 + 2, metrics_bar_says Initialized @ metrics_bar_says Started @ concat (replicate 10 (metrics_bar_says (User ''message to bar'')))) p2"
    if "concat bs = mailbox (e_heap e3 g')" for bs
    by (rule metered_program) (simp_all only: assms(6) n metrics_print that e3(5))
  have says: "metering latency metrics_foo_says (10 + 2, metrics_foo_says Initialized @ metrics_foo_says Started @ concat (replicate 10 (metrics_foo_says (User ''message to foo'')))) x \<Longrightarrow>
      msgCounter (p_user x) = 12 \<and> length (msgLatency (p_user x)) = 12 \<and> acts_in (p_trace x) = ''foo started'' # replicate 10 ''received: message to foo''"
    "metering latency metrics_bar_says (10 + 2, metrics_bar_says Initialized @ metrics_bar_says Started @ concat (replicate 10 (metrics_bar_says (User ''message to bar'')))) x \<Longrightarrow>
      msgCounter (p_user x) = 12 \<and> length (msgLatency (p_user x)) = 12 \<and> acts_in (p_trace x) = replicate 10 ''received: message to bar''" for x
    by (simp_all add: metering_def metrics_foo_says_def metrics_bar_says_def)
  show ?thesis using e3(1-3) foo bar says by (intro exI [of _ e3] exI [of _ g] exI [of _ g']) blast
qed

subsection \<open>A restart in between\<close>

text \<open>\<open>main\<close> up to the wait for \<open>done\<close>.\<close>

definition restarts_main :: "nat \<Rightarrow> (string, pid) act" where
  "restarts_main random =
     bindA (a_Spawn ''foo'' [WithMaxRestarts 3] random (DefaultOpts restart_newFoo restart_foo_Receive)) (\<lambda>pid.
     bindA (a_Send (Some pid) (User ''failed'') None) (\<lambda>_.
     bindA (a_Send (Some pid) (User ''hello world!'') None) (\<lambda>_. ret pid)))"

definition restart_opts :: "nat \<Rightarrow> (nat, string, string) opts" where
  "restart_opts random = spawn_opts ''foo'' [WithMaxRestarts 3] random (DefaultOpts restart_newFoo restart_foo_Receive)"

text \<open>The process of the actor after \<open>k\<close> restarts, \<open>n\<close> calls of \<open>done\<close> and the lines \<open>xs\<close>.\<close>

definition restarted :: "nat \<Rightarrow> nat \<Rightarrow> nat \<times> string list \<Rightarrow> (nat, string, string) process \<Rightarrow> bool" where
  "restarted random k s p \<longleftrightarrow> p_opts p = restart_opts random \<and> p_receive p = restart_foo_Receive \<and> p_restarts p = of_nat k \<and> restarts_in (p_trace p) = k
     \<and> p_user p = fst s \<and> acts_in (p_trace p) = snd s"

definition restart_says :: "string envelope \<Rightarrow> nat \<times> string list \<Rightarrow> nat \<times> string list" where
  "restart_says m s = (case Msg m of User data \<Rightarrow> (Suc (fst s), snd s @ [''I restarted and processed the next one perfectly: '' @ data]) | _ \<Rightarrow> s)"

interpretation restarts: steady_actor "restarted random k" restart_says "\<lambda>m. \<exists>data. Msg m = User data \<and> data \<noteq> ''failed''" for random k
  by unfold_locales (auto simp: restarted_def restart_says_def restart_foo_Receive_def invokeMsg_def call_receive_def emit_def)

lemma restart_opts_simps [simp]:
  "Producer (restart_opts random) = restart_newFoo" "Receive (restart_opts random) = restart_foo_Receive" "Middleware (restart_opts random) = []"
  "MaxRestarts (restart_opts random) = 3"
  by (simp_all add: restart_opts_def spawn_opts_def WithMaxRestarts_def DefaultOpts_def Let_def)

lemma restart_starts:
  assumes "p_opts p = restart_opts random" "p_restarts p = of_nat k" "restarts_in (p_trace p) = k" "list_all (\<lambda>m. \<exists>data. Msg m = User data \<and> data \<noteq> ''failed'') (p_mbuffer p)"
  shows "\<exists>q. proc_Start \<epsilon> (Suc (Suc f)) p = (Ret, q) \<and> restarted random k (fold restart_says (p_mbuffer p) (p_user p, acts_in (p_trace p) @ [''foo started''])) q"
proof -
  obtain p1 where h: "start_hooks (p\<lparr>p_receive := restart_foo_Receive\<rparr>) = (Ret, p1)" "p_mbuffer p1 = p_mbuffer p" "restarted random k (p_user p, acts_in (p_trace p) @ [''foo started'']) p1"
    using assms(1-3) by (simp add: start_hooks_def call_receive_def restart_foo_Receive_def restarted_def emit_def broadcast_now_def)
  obtain p2 where p2: "proc_Invoke \<epsilon> (Suc f) (p_mbuffer p) p1 = (Ret, p2)" "restarted random k (fold restart_says (p_mbuffer p) (p_user p, acts_in (p_trace p) @ [''foo started''])) p2"
    using restarts.steady_batch [OF h(3) assms(4)] by blast
  have s: "proc_Start \<epsilon> (Suc (Suc f)) p = (Ret, inbox_start (if p_mbuffer p = [] then p1 else p2\<lparr>p_mbuffer := []\<rparr>))"
    using assms(1) h(1,2) p2(1) by (simp add: restart_newFoo_def)
  show ?thesis unfolding s using h(2,3) p2(2) by (auto simp: inbox_start_def restarted_def emit_def)
qed

lemma restart_crash:
  assumes "restarted random 0 (0, xs) p" "list_all (\<lambda>m. \<exists>data. Msg m = User data \<and> data \<noteq> ''failed'') b" "\<forall>t. \<exists>stack. clean_trace \<epsilon> t = Inr stack"
  shows "\<exists>q. proc_Invoke \<epsilon> (Suc (Suc (Suc (Suc f)))) (\<lparr>Msg = User ''failed'', Sender = src\<rparr> # b) p = (Ret, q) \<and> restarted random 1 (fold restart_says b (0, xs @ [''foo started''])) q"
proof -
  let ?ms = "\<lparr>Msg = User ''failed'', Sender = src\<rparr> # b"
  let ?p = "p\<lparr>p_mcount := of_nat (length ?ms)\<rparr>"
  obtain p1 where p1: "invoke_loop \<epsilon> ?ms 0 0 0 ?p = (Panic (PanicAny ''I failed processing this message''), 1, p1)"
    "restarted random 0 (0, xs) p1"
    using assms(1) by (simp add: invoke_loop.simps invokeMsg_def call_receive_def restart_foo_Receive_def restarted_def emit_def)
  obtain stack where st: "clean_trace \<epsilon> (p_clock p1) = Inr stack" using assms(3) by blast
  define p2 where "p2 = count_restart stack (PanicAny ''I failed processing this message'')
     (emit [ELifecycle Stopped (p_sender p1)] (p1\<lparr>p_mbuffer := b, p_mcount := of_nat (length b), p_message := Stopped, p_user := 0\<rparr>))"
  have u: "unprocessed ?ms 1 = b" by (simp add: unprocessed_def map_nth)
  have "proc_Invoke \<epsilon> (Suc (Suc (Suc (Suc f)))) ?ms p = proc_Start \<epsilon> (Suc (Suc f)) p2"
    using p1 st u by (simp add: p2_def restarted_def call_receive_def restart_foo_Receive_def emit_def del: proc_Start.simps)
  moreover have "p_opts p2 = restart_opts random" "p_restarts p2 = of_nat 1" "restarts_in (p_trace p2) = 1" "p_mbuffer p2 = b" "p_user p2 = 0" "acts_in (p_trace p2) = xs"
    using p1(2) by (simp_all add: p2_def restarted_def count_restart_def emit_def broadcast_now_def Let_def)
  ultimately show ?thesis using restart_starts [of p2 random 1 \<epsilon> f] assms(2) by simp
qed

text \<open>Whatever the batches are: the first that is not empty begins with the message that fails.\<close>

lemma restart_batches:
  assumes "restarted random 0 (0, xs) p" "concat bs = \<lparr>Msg = User ''failed'', Sender = src\<rparr> # ms"
    "list_all (\<lambda>m. \<exists>data. Msg m = User data \<and> data \<noteq> ''failed'') ms" "\<forall>t. \<exists>stack. clean_trace \<epsilon> t = Inr stack"
  shows "\<exists>q. run_batches \<epsilon> (Suc (Suc (Suc (Suc f)))) bs p = (Ret, q) \<and> restarted random 1 (fold restart_says ms (0, xs @ [''foo started''])) q"
  using assms(1,2)
proof (induction bs arbitrary: p)
  case (Cons b bs)
  show ?case
  proof (cases b)
    case Nil
    have "proc_Invoke \<epsilon> (Suc (Suc (Suc (Suc f)))) b p = (Ret, p\<lparr>p_mcount := 0\<rparr>)" by (simp add: Nil invoke_loop_done)
    moreover have "restarted random 0 (0, xs) (p\<lparr>p_mcount := 0\<rparr>)" using Cons.prems(1) by (simp add: restarted_def)
    ultimately show ?thesis using Cons.IH [of "p\<lparr>p_mcount := 0\<rparr>"] Cons.prems(2) Nil by simp
  next
    case (Cons m b')
    then have b: "b = \<lparr>Msg = User ''failed'', Sender = src\<rparr> # b'" "ms = b' @ concat bs" using Cons.prems(2) by simp_all
    obtain q where q: "proc_Invoke \<epsilon> (Suc (Suc (Suc (Suc f)))) b p = (Ret, q)" "restarted random 1 (fold restart_says b' (0, xs @ [''foo started''])) q"
      using restart_crash [OF Cons.prems(1) _ assms(4), of b' f src] assms(3) b by auto
    from restarts.steady_runs [OF q(2), of bs \<epsilon> "Suc (Suc (Suc f))"] assms(3) b(2) q(1) show ?thesis by simp
  qed
qed simp

text \<open>
  The restart program ends. \<open>main\<close> leaves the message that fails and the next one in the inbox.
  Whatever batches the inbox makes of them, the actor is restarted once, prints that it started
  twice and processes the second message once, so that the wait for \<open>done\<close> is over.
\<close>

theorem restarts_program:
  fixes p :: "(nat, string, string) process"
  assumes "eng_inv e" "stream_ok es h e" "reg_lookup (e_Registry e) (''foo/'' @ Itoa (int random)) = None"
    "p = newProcess (e_address e) 0 (spawn_opts ''foo'' [WithMaxRestarts 3] random (DefaultOpts restart_newFoo restart_foo_Receive))"
    "\<forall>t. \<exists>stack. clean_trace \<epsilon> t = Inr stack"
  shows "\<exists>e' g. restarts_main random e = (Inr (p_pid p), e') \<and> local_actor (p_pid p) g e'
    \<and> (\<forall>bs. concat bs = mailbox (e_heap e' g) \<longrightarrow>
        (\<exists>p1 p2. proc_Start \<epsilon> (Suc (Suc f)) p = (Ret, p1) \<and> run_batches \<epsilon> (Suc (Suc (Suc (Suc f)))) bs p1 = (Ret, p2)
          \<and> restarts_in (p_trace p2) = 1 \<and> p_user p2 = 1
          \<and> acts_in (p_trace p2) = [''foo started'', ''foo started'', ''I restarted and processed the next one perfectly: hello world!'']))"
proof -
  have q: "p_pid p = NewPID (e_address e) (Kind (restart_opts random) @ pidSeparator @ OptID (restart_opts random))" by (simp add: assms(4) newProcess_def restart_opts_def)
  then have "ID (p_pid p) = ''foo/'' @ Itoa (int random)" by (simp add: restart_opts_def spawn_opts_def WithMaxRestarts_def DefaultOpts_def pidSeparator_def Let_def)
  with assms(3) have "reg_lookup (e_Registry e) (ID (p_pid p)) = None" by simp
  from a_Spawn_opts_free [OF assms(1,2) q [unfolded restart_opts_def] this] obtain e1 where
    e1: "a_Spawn ''foo'' [WithMaxRestarts 3] random (DefaultOpts restart_newFoo restart_foo_Receive) e = (Inr (p_pid p), e1)"
    "stream_ok es h e1" "local_actor (p_pid p) (e_size e) e1" "e_heap e1 (e_size e) = ProcObj (p_pid p) []" by fastforce
  let ?m = "\<lparr>Msg = User ''failed'', Sender = None\<rparr> :: string envelope" and ?n = "\<lparr>Msg = User ''hello world!'', Sender = None\<rparr> :: string envelope"
  let ?ls = "[(Some (p_pid p), User ''failed'', None), (Some (p_pid p), User ''hello world!'', None)] :: string letter list"
  have good: "\<forall>l \<in> set ?ls. good_letter es h e1 l" using local_actor_good [OF e1(3)] by simp
  from post_all_delivers [OF e1(2) good] obtain e2 where e2: "post_all ?ls e1 = (Inr (), e2)" "same_routes e1 e2"
    "\<forall>g p mb. e_heap e1 g = ProcObj p mb \<longrightarrow> e_heap e2 g = ProcObj p (mb @ concat (map (mail_for es h e1 g) ?ls))" by blast
  have mb: "mailbox (e_heap e2 (e_size e)) = [?m, ?n]" using e2(3) e1(4) by (simp add: local_actor_mail [OF e1(3)])
  have main: "restarts_main random e = (Inr (p_pid p), e2)"
    using e1(1) e2(1) by (auto simp: restarts_main_def bindA_run post_all_simps ret_def bindA_def split: prod.splits sum.splits)
  have "p_opts p = restart_opts random" "p_restarts p = of_nat 0" "restarts_in (p_trace p) = 0" "p_mbuffer p = []" "p_user p = 0" "p_trace p = []"
    by (simp_all add: assms(4) newProcess_def restart_opts_def)
  from restart_starts [OF this(1-3), of \<epsilon> f] this(4-6) obtain p1 where p1: "proc_Start \<epsilon> (Suc (Suc f)) p = (Ret, p1)" "restarted random 0 (0, [''foo started'']) p1"
    by (auto simp del: proc_Start.simps)
  have "\<exists>p2. run_batches \<epsilon> (Suc (Suc (Suc (Suc f)))) bs p1 = (Ret, p2) \<and> restarted random 1 (fold restart_says [?n] (0, [''foo started''] @ [''foo started''])) p2"
    if "concat bs = mailbox (e_heap e2 (e_size e))" for bs
    by (rule restart_batches [OF p1(2) _ _ assms(5), where src = None]) (simp_all add: that mb)
  then show ?thesis using main p1(1) same_routes_actor [OF e2(2) e1(3)]
    by (intro exI [of _ e2] exI [of _ "e_size e"]) (fastforce simp: restarted_def restart_says_def simp del: proc_Start.simps)
qed

subsection \<open>Hooks\<close>

definition hooks_main :: "nat \<Rightarrow> (string, pid \<times> nat) act" where
  "hooks_main random =
     bindA (a_Spawn ''foo'' [WithMiddleware [WithHooks (Some foo_hooker)]] random (DefaultOpts newFoo hook_foo_Receive)) (\<lambda>pid.
     bindA (a_Send (Some pid) (User ''Hello sailor!'') None) (\<lambda>_.
     bindA (a_Poison (Some pid)) (\<lambda>ctx. ret (pid, ctx))))"

definition hooking :: "string list \<Rightarrow> (unit, string, string) process \<Rightarrow> bool" where
  "hooking xs p \<longleftrightarrow> p_receive p = hooked \<and> acts_in (p_trace p) = xs"

interpretation hooks: steady_actor hooking "\<lambda>m xs. xs" "\<lambda>m. \<exists>data. Msg m = User data"
  by unfold_locales (auto simp: hooking_def invokeMsg_def call_receive_def hooked_calls emit_def)

text \<open>
  The hook program prints that foo was initialized, started and stopped, in whatever batches
  the message and the pill arrive; then the context its \<open>main\<close> waits for is cancelled.
\<close>

theorem hooks_program:
  fixes p :: "(unit, string, string) process"
  assumes "eng_inv e" "stream_ok es h e" "reg_lookup (e_Registry e) (''foo/'' @ Itoa (int random)) = None"
    "p = newProcess (e_address e) () (spawn_opts ''foo'' [WithMiddleware [WithHooks (Some foo_hooker)]] random (DefaultOpts newFoo hook_foo_Receive))"
  shows "\<exists>ctx e' g. hooks_main random e = (Inr (p_pid p, ctx), e') \<and> local_actor (p_pid p) g e'
    \<and> (\<forall>bs. concat bs = mailbox (e_heap e' g) \<longrightarrow> (\<exists>p1 p2. proc_Start \<epsilon> (Suc f) p = (Ret, p1) \<and> run_batches \<epsilon> (Suc f) bs p1 = (Ret, p2)
        \<and> acts_in (p_trace p2) = [''foo initialized'', ''foo started'', ''foo stopped''] \<and> last (p_trace p2) = ECancel ctx))"
proof -
  let ?op = "spawn_opts ''foo'' [WithMiddleware [WithHooks (Some foo_hooker)]] random (DefaultOpts newFoo hook_foo_Receive) :: (unit, string, string) opts"
  have q: "p_pid p = NewPID (e_address e) (Kind ?op @ pidSeparator @ OptID ?op)" by (simp add: assms(4) newProcess_def)
  then have "ID (p_pid p) = ''foo/'' @ Itoa (int random)" by (simp add: spawn_opts_def WithMiddleware_def DefaultOpts_def pidSeparator_def Let_def)
  then have "reg_lookup (e_Registry e) (ID (p_pid p)) = None" using assms(3) by simp
  from a_Spawn_opts_free [OF assms(1,2) q this] obtain e1 where
    e1: "a_Spawn ''foo'' [WithMiddleware [WithHooks (Some foo_hooker)]] random (DefaultOpts newFoo hook_foo_Receive) e = (Inr (p_pid p), e1)"
    "stream_ok es h e1" "local_actor (p_pid p) (e_size e) e1" "e_heap e1 (e_size e) = ProcObj (p_pid p) []" by fastforce
  let ?m = "\<lparr>Msg = User ''Hello sailor!'', Sender = None\<rparr> :: string envelope"
  obtain ctx e2 e3 where e3: "a_Send (Some (p_pid p)) (User ''Hello sailor!'') None e1 = (Inr (), e2)" "a_Poison (Some (p_pid p)) e2 = (Inr ctx, e3)" "local_actor (p_pid p) (e_size e) e3"
    "mailbox (e_heap e3 (e_size e)) = [?m, \<lparr>Msg = PoisonPill (Some ctx) True, Sender = None\<rparr>]" by (rule send_poison [OF e1(2-4)])
  have main: "hooks_main random e = (Inr (p_pid p, ctx), e3)" using e1(1) e3(1,2) by (simp add: hooks_main_def bindA_run ret_def)
  obtain p1 where p1: "proc_Start \<epsilon> (Suc f) p = (Ret, p1)" "hooking [''foo initialized'', ''foo started''] p1"
    by (auto simp: assms(4) newProcess_def spawn_opts_def WithMiddleware_def DefaultOpts_def newFoo_def applyMiddleware_foldr start_hooks_def call_receive_def hooked_calls
        hooking_def emit_def broadcast_now_def inbox_start_def Let_def)
  have c: "\<exists>q. cleanup \<epsilon> (Some ctx) p' = (Ret, q) \<and> acts_in (p_trace q) = [''foo initialized'', ''foo started'', ''foo stopped''] \<and> last (p_trace q) = ECancel ctx"
    if "hooking (fold (\<lambda>m xs. xs) [?m] [''foo initialized'', ''foo started'']) p'" for p'
    using that cleanup_ends [of p' "()" "[Act ''foo stopped'']" \<epsilon> "Some ctx"] by (auto simp: hooking_def hooked_calls)
  have "\<exists>p2. run_batches \<epsilon> (Suc f) bs p1 = (Ret, p2) \<and> acts_in (p_trace p2) = [''foo initialized'', ''foo started'', ''foo stopped''] \<and> last (p_trace p2) = ECancel ctx"
    if "concat bs = mailbox (e_heap e3 (e_size e))" for bs
  proof (rule hooks.steady_stops [OF p1(2)])
    show "concat bs = [?m] @ [\<lparr>Msg = PoisonPill (Some ctx) True, Sender = None\<rparr>]" by (simp add: that e3(4))
  qed (use c in simp_all)
  then show ?thesis using main p1(1) e3(3) by blast
qed

subsection \<open>A child that is restarted\<close>

definition newFooReceiver :: "pid option" where
  "newFooReceiver = None"

text \<open>\<open>main\<close>; \<open>elapse\<close> is what the actors do in the eight seconds before the pill.\<close>

definition childprocs_main :: "nat \<Rightarrow> (pid \<Rightarrow> string engine \<Rightarrow> string engine) \<Rightarrow> (string, pid \<times> nat) act" where
  "childprocs_main random elapse =
     bindA (a_Spawn ''foo'' [] random (DefaultOpts (\<lambda>_. (newFooReceiver, None)) (\<lambda>_ u. (u, [], None)) :: (pid option, string, string) opts)) (\<lambda>pid.
     bindA (a_Send (Some pid) (User (''msg_'' @ Itoa 1)) None) (\<lambda>_.
     bindA (\<lambda>e. (Inr (), elapse pid e)) (\<lambda>_.
     bindA (a_Poison (Some pid)) (\<lambda>ctx. ret (pid, ctx)))))"

text \<open>The parent handles the message in its inbox, with its context as \<open>Start\<close> left it.\<close>

definition foo_works :: "nat \<Rightarrow> pid \<Rightarrow> string engine \<Rightarrow> string engine" where
  "foo_works random q e = (case reg_get (Some q) (e_Registry e) of
      None \<Rightarrow> e
    | Some g \<Rightarrow> snd (a_each (\<lambda>m. bindA (fooReceiver_Receive random (newContext background q (Msg m)) newFooReceiver) (\<lambda>_. ret ())) (mailbox (e_heap e g)) e))"

lemma childprocs_main_leaves:
  assumes "eng_inv e" "stream_ok es h e" "q = NewPID (e_address e) (''foo/'' @ Itoa (int random))" "b = NewPID (e_address e) (ID q @ ''/bar/msg_1'')"
    "reg_lookup (e_Registry e) (ID q) = None" "reg_lookup (e_Registry e) (ID b) = None"
  shows "\<exists>ctx e' g g'. childprocs_main random (foo_works random') e = (Inr (q, ctx), e') \<and> local_actor q g e' \<and> local_actor b g' e'
    \<and> mailbox (e_heap e' g) = [\<lparr>Msg = User ''msg_1'', Sender = None\<rparr>, \<lparr>Msg = PoisonPill (Some ctx) True, Sender = None\<rparr>]"
proof -
  have q: "q = NewPID (e_address e) (''foo'' @ pidSeparator @ Itoa (int random))" by (simp add: assms(3) pidSeparator_def)
  from a_Spawn_free [OF assms(1,2) q assms(5), where i = "\<lambda>_. (newFooReceiver, None)" and r = "\<lambda>_ u. (u, [], None)"] obtain e1 where
    e1: "a_Spawn ''foo'' [] random (DefaultOpts (\<lambda>_. (newFooReceiver, None)) (\<lambda>_ u. (u, [], None)) :: (pid option, string, string) opts) e = (Inr q, e1)"
    "eng_inv e1" "stream_ok es h e1" "local_actor q (e_size e) e1" "e_heap e1 (e_size e) = ProcObj q []" "e_address e1 = e_address e"
    "reg_lookup (e_Registry e1) = (reg_lookup (e_Registry e))(ID q \<mapsto> e_size e)" by fastforce
  let ?m = "\<lparr>Msg = User ''msg_1'', Sender = None\<rparr> :: string envelope"
  have itoa: "''msg_'' @ Itoa 1 = ''msg_1''" by code_simp
  define e2 where "e2 = e1\<lparr>e_heap := (e_heap e1)(e_size e := ProcObj q [?m])\<rparr>"
  have s: "a_Send (Some q) (User ''msg_1'') None e1 = (Inr (), e2)" using a_Send_local [OF e1(3-5)] by (simp add: e2_def)
  have "pidof e2 = pidof e1" using e1(5) by (auto simp: e2_def fun_eq_iff)
  then have i2: "eng_inv e2" using e1(2) by (simp add: eng_inv_def) (simp add: e2_def)
  have s2: "stream_ok es h e2" using e1(3,5) by (auto simp: stream_ok_def e2_def)
  have l2: "local_actor q (e_size e) e2" using e1(4) by (simp add: local_actor_def e2_def)
  have b2: "Address b = e_address e2" "reg_lookup (e_Registry e2) (ID b) = None" using assms(4,6) e1(6,7) by (simp_all add: e2_def)
  obtain e3 where e3: "SpawnProc (ProcObj b []) e2 = (b, SDone, e3)" "stream_ok es h e3" "local_actor b (e_size e2) e3"
    "e_heap e3 = (e_heap e2)(e_size e2 := ProcObj b [])" "\<forall>p k. local_actor p k e2 \<and> ID p \<noteq> ID b \<longrightarrow> local_actor p k e3"
    using SpawnProc_actor [OF i2 s2 b2] by metis
  have "fooReceiver_Receive random' (newContext background q (User ''msg_1'')) newFooReceiver e2 = (Inr (Some b, (newContext background q (User ''msg_1''))\<lparr>c_children := sm_Set (ID b) b sm_New\<rparr>,
      [''received and starting bar: '' @ pid_String b]), e3)"
    using e3(1) b2(1) assms(4)
    by (simp add: fooReceiver_Receive_def newContext_def a_SpawnChild_def SpawnChild_WithID pidSeparator_def bindA_run ret_def Let_def)
  moreover have "reg_get (Some q) (e_Registry e2) = Some (e_size e)" "mailbox (e_heap e2 (e_size e)) = [?m]" using l2 by (simp_all add: local_actor_def e2_def)
  ultimately have w: "foo_works random' q e2 = e3" by (simp add: foo_works_def bindA_run ret_def)
  have "e_size e < e_size e2" using local_actor_size [OF i2 l2] .
  then have mb: "e_heap e3 (e_size e) = ProcObj q [?m]" using e3(4) by (simp add: e2_def)
  have l3: "local_actor q (e_size e) e3" using e3(5) l2 assms(4) by simp
  have po: "a_Poison (Some q) e3 = (Inr (e_contexts e3), e3\<lparr>e_contexts := Suc (e_contexts e3),
     e_heap := (e_heap e3)(e_size e := ProcObj q ([?m] @ [\<lparr>Msg = PoisonPill (Some (e_contexts e3)) True, Sender = None\<rparr>]))\<rparr>)" by (rule a_Poison_local [OF l3 mb])
  have "\<exists>e'. childprocs_main random (foo_works random') e = (Inr (q, e_contexts e3), e') \<and> local_actor q (e_size e) e' \<and> local_actor b (e_size e2) e'
    \<and> mailbox (e_heap e' (e_size e)) = [?m, \<lparr>Msg = PoisonPill (Some (e_contexts e3)) True, Sender = None\<rparr>]"
    using e1(1) s w po itoa l3 e3(3) \<open>e_size e < e_size e2\<close> by (auto simp: childprocs_main_def bindA_run ret_def local_actor_def)
  then show ?thesis by blast
qed

text \<open>
  The child process program: the message makes the parent spawn the child \<open>msg_1\<close> under its own
  id before the pill reaches the parent's inbox; the child's process, with the options it was
  spawned with, fails twice to start and comes up with the state of its producer.
\<close>

theorem childprocs_program:
  assumes "eng_inv e" "stream_ok es h e" "q = NewPID (e_address e) (''foo/'' @ Itoa (int random))" "b = NewPID (e_address e) (ID q @ ''/bar/msg_1'')"
    "reg_lookup (e_Registry e) (ID q) = None" "reg_lookup (e_Registry e) (ID b) = None"
    "p = newProcess (e_address e) (0, []) (spawn_opts (ID q @ pidSeparator @ ''bar'') [WithID ''msg_1''] random' (DefaultOpts (newBarReceiver ''msg_1'') bar_Receive))"
    "\<forall>t. \<exists>stack. clean_trace \<epsilon> t = Inr stack"
  shows "\<exists>ctx e' g g'. childprocs_main random (foo_works random') e = (Inr (q, ctx), e') \<and> local_actor q g e' \<and> local_actor b g' e' \<and> p_pid p = b
    \<and> mailbox (e_heap e' g) = [\<lparr>Msg = User ''msg_1'', Sender = None\<rparr>, \<lparr>Msg = PoisonPill (Some ctx) True, Sender = None\<rparr>]
    \<and> (\<exists>p'. proc_Start \<epsilon> (Suc (Suc (Suc (Suc (Suc f))))) p = (Ret, p') \<and> restarts_in (p_trace p') = 2
        \<and> acts_in (p_trace p') = [''bar stopped'', ''bar stopped'', ''bar recovered and started with initial state: msg_1''])"
proof -
  have p: "Producer (p_opts p) = newBarReceiver ''msg_1''" "Receive (p_opts p) = bar_Receive" "Middleware (p_opts p) = []" "fst (p_user p) = 0" "p_mbuffer p = []"
    "p_trace p = []" "p_restarts p = 0" "MaxRestarts (p_opts p) = defaultMaxRestarts" "p_inbox p = IStopped" "p_pid p = b"
    by (simp_all add: assms(4,7) newProcess_def spawn_opts_def WithID_def DefaultOpts_def pidSeparator_def Let_def)
  have "\<exists>p'. proc_Start \<epsilon> (Suc (Suc (Suc (Suc (Suc f))))) p = (Ret, p') \<and> restarts_in (p_trace p') = 2
      \<and> acts_in (p_trace p') = [''bar stopped'', ''bar stopped'', ''bar recovered and started with initial state: '' @ ''msg_1'']"
    using child_recovers [OF p(1-9) assms(8), of f] by blast
  then show ?thesis using childprocs_main_leaves [OF assms(1-6), of random'] p(10) by fastforce
qed

subsection \<open>The event stream monitor\<close>

definition observed :: "monitor_state \<Rightarrow> string list" where
  "observed q = [''Observed '' @ Itoa (crashes q) @ '' crashes'', ''Observed '' @ Itoa (starts q) @ '' starts'',
     ''Observed '' @ Itoa (stops q) @ '' stops'', ''Observed '' @ Itoa (deadletters q) @ '' deadletters'']"

text \<open>
  \<open>main\<close> up to the last wait: the lines printed and the context it waits for, or the panic of a type
  assertion on a nil interface. The arguments \<open>elapse\<close>, \<open>elapse'\<close> and \<open>elapse''\<close> are what the others do in the five seconds, while
  the unstable actor stops, and while the query waits.
\<close>

definition evmonitor_main :: "nat \<Rightarrow> nat \<Rightarrow> (pid \<Rightarrow> mon_msg send_repeater \<Rightarrow> mon_msg engine \<Rightarrow> mon_msg engine) \<Rightarrow> (mon_msg engine \<Rightarrow> mon_msg engine) \<Rightarrow>
    (pid \<Rightarrow> mon_msg engine \<Rightarrow> mon_msg engine) \<Rightarrow> (mon_msg, go_panic + string list \<times> nat) act" where
  "evmonitor_main random random' elapse elapse' elapse'' =
     bindA (a_Spawn ''monitor'' [] random (DefaultOpts (\<lambda>_. (newMonitor, None)) (\<lambda>_ u. (u, [], None)) :: (monitor_state, mon_msg, string) opts)) (\<lambda>monitor.
     bindA (a_Spawn ''unstable_actor'' [WithMaxRestarts 10000] random' (DefaultOpts (\<lambda>u. (u, None)) (\<lambda>_ u. (u, [], None)) :: (int \<times> nat, mon_msg, string) opts)) (\<lambda>ua.
       case SendRepeat (Some ua) (User CustomMessage) 20000000 of Inl p \<Rightarrow> ret (Inl p) | Inr repeater \<Rightarrow>
       bindA (\<lambda>e. (Inr (), elapse ua repeater e)) (\<lambda>_.
       case sr_Stop repeater of Inl p \<Rightarrow> ret (Inl p) | Inr _ \<Rightarrow>
       bindA (a_Poison (Some ua)) (\<lambda>_ e0.
         case Request (Some monitor) (User (Query newMonitor)) 1000000000 (elapse' e0) of
           (resp, r, e1) \<Rightarrow> bindA (\<lambda>_. of_send (r, e1)) (\<lambda>_ e2.
             case Result resp (elapse'' monitor e2) of
               (Some (User (Query q)), e3) \<Rightarrow> bindA (a_Poison (Some monitor)) (\<lambda>ctx. ret (Inr (observed q @ [''done''], ctx))) e3
             | (_, e3) \<Rightarrow> (Inr (Inl TypeAssertion), e3)) e0))))"

text \<open>The monitor in the state \<open>m\<close> handles the newest message of its inbox.\<close>

definition evmonitor_works :: "nat \<Rightarrow> monitor_state \<Rightarrow> pid \<Rightarrow> mon_msg engine \<Rightarrow> mon_msg engine" where
  "evmonitor_works a m q e = (case reg_get (Some q) (e_Registry e) of
      None \<Rightarrow> e
    | Some g \<Rightarrow> (let x = last (mailbox (e_heap e g)) in snd (evmonitor_Receive a ((newContext background q (Msg x))\<lparr>c_sender := Sender x\<rparr>) m e)))"

text \<open>An engine in order in which \<open>q\<close> is registered as an actor at \<open>g\<close>.\<close>

definition hosts :: "pid \<Rightarrow> nat \<Rightarrow> pid \<Rightarrow> nat \<Rightarrow> 'm engine \<Rightarrow> bool" where
  "hosts es h q g e \<longleftrightarrow> eng_inv e \<and> stream_ok es h e \<and> no_response_ids e \<and> Address q = e_address e
     \<and> reg_lookup (e_Registry e) (ID q) = Some g \<and> (\<exists>mb. e_heap e g = ProcObj q mb)"

lemma hosts_actor: "hosts es h q g e \<Longrightarrow> local_actor q g e"
  by (auto simp: hosts_def local_actor_def reg_get_def)

lemma hosts_poison:
  assumes "hosts es h q g e" "hosts es h ua gu e"
  obtains ctx e' where "a_Poison (Some ua) e = (Inr ctx, e')" "hosts es h q g e'"
proof -
  obtain mb where mb: "e_heap e gu = ProcObj ua mb" using assms(2) by (auto simp: hosts_def)
  let ?e = "e\<lparr>e_contexts := Suc (e_contexts e), e_heap := (e_heap e)(gu := ProcObj ua (mb @ [\<lparr>Msg = PoisonPill (Some (e_contexts e)) True, Sender = None\<rparr>]))\<rparr>"
  have p: "a_Poison (Some ua) e = (Inr (e_contexts e), ?e)" by (rule a_Poison_local [OF hosts_actor [OF assms(2)] mb])
  have "pidof ?e = pidof e" using mb by (auto simp: fun_eq_iff)
  then have "eng_inv ?e" using assms(1) by (simp add: hosts_def eng_inv_def)
  then have "hosts es h q g ?e" using assms(1) mb by (auto simp: hosts_def stream_ok_def no_response_ids_def)
  with p show ?thesis by (rule that)
qed

lemma evmonitor_spawns:
  assumes "eng_inv e" "stream_ok es h e" "no_response_ids e" "mo = NewPID (e_address e) (''monitor/'' @ Itoa (int random))"
    "ua = NewPID (e_address e) (''unstable_actor/'' @ Itoa (int random'))" "reg_lookup (e_Registry e) (ID mo) = None" "reg_lookup (e_Registry e) (ID ua) = None"
  obtains e1 e2 g g' where "a_Spawn ''monitor'' [] random (DefaultOpts (\<lambda>_. (newMonitor, None)) (\<lambda>_ u. (u, [], None)) :: (monitor_state, mon_msg, string) opts) e = (Inr mo, e1)"
    "a_Spawn ''unstable_actor'' [WithMaxRestarts 10000] random' (DefaultOpts (\<lambda>u. (u, None)) (\<lambda>_ u. (u, [], None)) :: (int \<times> nat, mon_msg, string) opts) e1 = (Inr ua, e2)" "hosts es h mo g e2" "hosts es h ua g' e2"
proof -
  let ?mop = "DefaultOpts (\<lambda>_. (newMonitor, None)) (\<lambda>_ u. (u, [], None)) :: (monitor_state, mon_msg, string) opts"
  let ?uop = "DefaultOpts (\<lambda>u. (u, None)) (\<lambda>_ u. (u, [], None)) :: (int \<times> nat, mon_msg, string) opts"
  have mo: "mo = NewPID (e_address e) (''monitor'' @ pidSeparator @ Itoa (int random))" by (simp add: assms(4) pidSeparator_def)
  from a_Spawn_free [OF assms(1,2) mo assms(6), where i = "\<lambda>_. (newMonitor, None)" and r = "\<lambda>_ u. (u, [], None)"] obtain e1 where
    e1: "a_Spawn ''monitor'' [] random ?mop e = (Inr mo, e1)" "eng_inv e1" "stream_ok es h e1" "e_heap e1 = (e_heap e)(e_size e := ProcObj mo [])" "e_address e1 = e_address e"
    "e_size e1 = Suc (e_size e)" "reg_lookup (e_Registry e1) = (reg_lookup (e_Registry e))(ID mo \<mapsto> e_size e)" by blast
  have ua: "ua = NewPID (e_address e1) (Kind (spawn_opts ''unstable_actor'' [WithMaxRestarts 10000] random' ?uop) @ pidSeparator @ OptID (spawn_opts ''unstable_actor'' [WithMaxRestarts 10000] random' ?uop))"
    by (simp add: assms(5) e1(5) spawn_opts_def WithMaxRestarts_def DefaultOpts_def pidSeparator_def Let_def)
  have "reg_lookup (e_Registry e1) (ID ua) = None" using assms(4,5,7) e1(7) by simp
  from a_Spawn_opts_free [OF e1(2,3) ua this] obtain e2 where
    e2: "a_Spawn ''unstable_actor'' [WithMaxRestarts 10000] random' ?uop e1 = (Inr ua, e2)" "eng_inv e2" "stream_ok es h e2" "e_heap e2 = (e_heap e1)(e_size e1 := ProcObj ua [])"
    "e_address e2 = e_address e1" "reg_lookup (e_Registry e2) = (reg_lookup (e_Registry e1))(ID ua \<mapsto> e_size e1)" by blast
  have n2: "no_response_ids e2" using assms(3-5) e1(7) e2(6) by (simp add: no_response_ids_def responsePrefix_def pidSeparator_def)
  have h2: "hosts es h mo (e_size e) e2" "hosts es h ua (e_size e1) e2" using e1(4-7) e2(2-6) n2 assms(4,5) by (simp_all add: hosts_def)
  from that [OF e1(1) e2(1) h2] show ?thesis .
qed

text \<open>
  The monitor program prints what the monitor has counted, if the monitor answers its query in
  time; if not, it reports the error and then panics, since it goes on with the nil result.
\<close>

theorem evmonitor_program:
  assumes "eng_inv e" "stream_ok es h e" "no_response_ids e" "mo = NewPID (e_address e) (''monitor/'' @ Itoa (int random))"
    "ua = NewPID (e_address e) (''unstable_actor/'' @ Itoa (int random'))" "reg_lookup (e_Registry e) (ID mo) = None" "reg_lookup (e_Registry e) (ID ua) = None"
    "\<forall>g g' rep e. hosts es h mo g e \<and> hosts es h ua g' e \<longrightarrow> hosts es h mo g (elapse ua rep e) \<and> hosts es h ua g' (elapse ua rep e)"
    "\<forall>g e. hosts es h mo g e \<longrightarrow> hosts es h mo g (elapse' e)"
  shows "(\<exists>ctx e'. evmonitor_main random random' elapse elapse' (evmonitor_works a m) e = (Inr (Inr (observed m @ [''done''], ctx)), e'))
    \<and> (\<exists>e'. evmonitor_main random random' elapse elapse' (\<lambda>_ e. e) e = (Inr (Inl TypeAssertion), e'))"
proof -
  obtain e1 e2 g g' where e2: "a_Spawn ''monitor'' [] random (DefaultOpts (\<lambda>_. (newMonitor, None)) (\<lambda>_ u. (u, [], None)) :: (monitor_state, mon_msg, string) opts) e = (Inr mo, e1)"
    "a_Spawn ''unstable_actor'' [WithMaxRestarts 10000] random' (DefaultOpts (\<lambda>u. (u, None)) (\<lambda>_ u. (u, [], None)) :: (int \<times> nat, mon_msg, string) opts) e1 = (Inr ua, e2)" "hosts es h mo g e2" "hosts es h ua g' e2"
    by (rule evmonitor_spawns [OF assms(1-7)])
  let ?rep = "\<lparr>sr_self = None, sr_target = Some ua, sr_msg = User CustomMessage, sr_interval = 20000000, sr_closed = False\<rparr> :: mon_msg send_repeater"
  have h3: "hosts es h mo g (elapse ua ?rep e2)" "hosts es h ua g' (elapse ua ?rep e2)" using assms(8) e2(3,4) by blast+
  obtain ctx e4 where e4: "a_Poison (Some ua) (elapse ua ?rep e2) = (Inr ctx, e4)" "hosts es h mo g e4" by (rule hosts_poison [OF h3])
  have "hosts es h mo g (elapse' e4)" using assms(9) e4(2) by blast
  then obtain mb where h5: "eng_inv (elapse' e4)" "stream_ok es h (elapse' e4)" "no_response_ids (elapse' e4)" "Address mo = e_address (elapse' e4)"
    "reg_lookup (e_Registry (elapse' e4)) (ID mo) = Some g" "e_heap (elapse' e4) g = ProcObj mo mb" by (auto simp: hosts_def)
  obtain k e6 e7 e8 where r: "Request (Some mo) (User (Query newMonitor)) 1000000000 (elapse' e4) = (k, SDone, e6)"
    "e_heap e6 g = ProcObj mo (mb @ [\<lparr>Msg = User (Query newMonitor), Sender = Some (response_pid (elapse' e4))\<rparr>])"
    "reg_get (Some mo) (e_Registry e6) = Some g" "eng_Send (Some (response_pid (elapse' e4))) (User (Query m)) e6 = (SDone, e7)" "Result k e7 = (Some (User (Query m)), e8)"
    "eng_inv e8" "stream_ok es h e8" "reg_lookup (e_Registry e8) = reg_lookup (e_Registry (elapse' e4))" "e_address e8 = e_address (elapse' e4)" "e_heap e8 g = e_heap e6 g"
    "fst (Result k e6) = None"
    by (rule request_answered [OF h5])
  have eta: "\<lparr>crashes = crashes m, starts = starts m, stops = stops m, deadletters = deadletters m\<rparr> = m" by simp
  have w: "evmonitor_works a m mo e6 = e7"
    using r(2-4) by (simp add: eta evmonitor_works_def evmonitor_Receive_def newContext_def ctx_Respond_def bindA_def ret_def)
  have h8: "hosts es h mo g e8" using r(2,6-10) h5(3-5) by (simp add: hosts_def no_response_ids_def)
  obtain ctx' e9 where e9: "a_Poison (Some mo) e8 = (Inr ctx', e9)" by (rule hosts_poison [OF h8 h8])
  obtain e10 where e10: "Result k e6 = (None, e10)" using r(11) by (metis prod.collapse)
  note run = evmonitor_main_def bindA_run SendRepeat_def sr_Stop_def ret_def
  have "evmonitor_main random random' elapse elapse' (evmonitor_works a m) e = (Inr (Inr (observed m @ [''done''], ctx')), e9)"
    using e2(1,2) e4(1) r(1,5) w e9 by (simp add: run)
  moreover have "evmonitor_main random random' elapse elapse' (\<lambda>_ e. e) e = (Inr (Inl TypeAssertion), e10)"
    using e2(1,2) e4(1) r(1) e10 by (simp add: run)
  ultimately show ?thesis by blast
qed

subsection \<open>Witnesses\<close>

lemma example_free_engine:
  obtains e :: "'m engine" where "eng_inv e" "stream_ok (stream_pid ''local'' 5) 0 e"
    "e_Registry e = \<lparr>reg_lookup = [ID (stream_pid ''local'' 5) \<mapsto> 0], responses = Map.empty\<rparr>"
  using example_addressed_engine by blast

definition example_runs :: "(nat \<times> player_msg envelope list list) list" where
  "example_runs = [(0, [[\<lparr>Msg = User (TakeDamage 9), Sender = None\<rparr>, \<lparr>Msg = PoisonPill (Some 0) True, Sender = None\<rparr>]]),
     (1, [[\<lparr>Msg = User (TakeDamage 9), Sender = None\<rparr>], [], [\<lparr>Msg = PoisonPill (Some 7) True, Sender = None\<rparr>]])]"

theorem player_loses_health_witness:
  "\<exists>(e :: player_msg engine) q ctx e'. persistance_main True True 3 e = (Inr (Some (q, ctx)), e')
     \<and> d_files (fold (player_run example_env example_store (e_address e)) example_runs (w_disk (example_world 0))) (file_of example_store (pid_String q))
         = player_State \<lparr>Health = 82, Username = ''James''\<rparr>"
proof -
  obtain e :: "player_msg engine" where e: "eng_inv e" "stream_ok (stream_pid ''local'' 5) 0 e"
    "e_Registry e = \<lparr>reg_lookup = [ID (stream_pid ''local'' 5) \<mapsto> 0], responses = Map.empty\<rparr>" by (rule example_free_engine)
  have f: "reg_lookup (e_Registry e) ''playerState/james'' = None" by (simp add: e(3) stream_pid_id)
  have r: "newFileStore True True = Some example_store" by (simp add: newFileStore_def example_store_def)
  let ?q = "NewPID (e_address e) ''playerState/james''" and ?d = "w_disk (example_world 0)"
  have d: "writable (file_of example_store (pid_String ?q)) ?d" "d_files ?d (file_of example_store (pid_String ?q)) = None"
    by (simp_all add: writable_def example_world_def)
  have runs: "example_runs \<noteq> []" "length example_runs < 2 ^ 49"
    "\<forall>x \<in> set example_runs. \<exists>c. concat (snd x) = [\<lparr>Msg = User (TakeDamage 9), Sender = None\<rparr>, \<lparr>Msg = PoisonPill (Some c) True, Sender = None\<rparr>]"
    by (simp_all add: example_runs_def)
  have "100 - 9 * of_nat (length example_runs) = (82 :: 64 word)" by (simp add: example_runs_def)
  with player_loses_health [OF e(1,2) f r refl d runs, of 3 example_env] show ?thesis by auto
qed

theorem request_program_witness:
  "\<exists>(e :: req_msg engine) e'. request_main 4 5 (responder_works ''noname'') (responder_works ''khulnasoft'') e
     = (Inr (Some [''received name: noname'', ''received name: khulnasoft'']), e')"
proof -
  obtain e :: "req_msg engine" where e: "eng_inv e" "stream_ok (stream_pid ''local'' 5) 0 e"
    "e_Registry e = \<lparr>reg_lookup = [ID (stream_pid ''local'' 5) \<mapsto> 0], responses = Map.empty\<rparr>" by (rule example_free_engine)
  have "no_response_ids e" by (simp add: no_response_ids_def e(3) stream_pid_id responsePrefix_def pidSeparator_def)
  moreover have "reg_lookup (e_Registry e) (''responder/'' @ Itoa (int 4)) = None" "reg_lookup (e_Registry e) (''custom_responder/'' @ Itoa (int 5)) = None"
    by (simp_all add: e(3) stream_pid_id)
  ultimately show ?thesis using request_program [OF e(1,2), of 4 5] by blast
qed

definition one_batch :: "'m envelope list \<Rightarrow> 'm envelope list list" where
  "one_batch ms = [ms]"

lemma one_batch [simp]: "concat (one_batch ms) = ms"
  by (simp add: one_batch_def)

theorem metrics_program_witness:
  "\<exists>(e :: string engine) (p :: (unit metered, string, string) process) (p' :: (unit metered, string, string) process) e' g p1 p2. metrics_main (\<lambda>_. 3) 1 2 e = (Inr (p_pid p, p_pid p'), e')
     \<and> proc_Start example_process_env (Suc 0) p = (Ret, p1) \<and> run_batches example_process_env (Suc 0) (one_batch (mailbox (e_heap e' g))) p1 = (Ret, p2)
     \<and> msgCounter (p_user p2) = 12 \<and> acts_in (p_trace p2) = ''foo started'' # replicate 10 ''received: message to foo''"
proof -
  obtain e :: "string engine" where e: "eng_inv e" "stream_ok (stream_pid ''local'' 5) 0 e"
    "e_Registry e = \<lparr>reg_lookup = [ID (stream_pid ''local'' 5) \<mapsto> 0], responses = Map.empty\<rparr>" by (rule example_free_engine)
  define p where "p = newProcess (e_address e) metered_zero (spawn_opts ''foo'' [WithMiddleware [WithMetrics (\<lambda>_. 3)]] 1 (DefaultOpts metrics_newFoo metrics_foo_Receive))"
  define p' where "p' = newProcess (e_address e) metered_zero (spawn_opts ''bar'' [WithMiddleware [WithMetrics (\<lambda>_. 3)]] 2 (DefaultOpts metrics_newBar metrics_bar_Receive))"
  have "reg_lookup (e_Registry e) (''foo/'' @ Itoa (int 1)) = None" "reg_lookup (e_Registry e) (''bar/'' @ Itoa (int 2)) = None"
    by (simp_all add: e(3) stream_pid_id)
  from metrics_program [OF e(1,2) this p_def p'_def, where \<epsilon> = example_process_env and f = 0] obtain e' g where
    m: "metrics_main (\<lambda>_. 3) 1 2 e = (Inr (p_pid p, p_pid p'), e')"
    "\<forall>bs. concat bs = mailbox (e_heap e' g) \<longrightarrow> (\<exists>p1 p2. proc_Start example_process_env (Suc 0) p = (Ret, p1) \<and> run_batches example_process_env (Suc 0) bs p1 = (Ret, p2)
        \<and> msgCounter (p_user p2) = 12 \<and> length (msgLatency (p_user p2)) = 12 \<and> acts_in (p_trace p2) = ''foo started'' # replicate 10 ''received: message to foo'')"
    by (elim exE conjE) (rule that)
  from m(2) [rule_format, OF one_batch] m(1) show ?thesis by blast
qed

theorem restarts_program_witness:
  "\<exists>(e :: string engine) (p :: (nat, string, string) process) e' g p1 p2. restarts_main 6 e = (Inr (p_pid p), e')
     \<and> proc_Start example_process_env (Suc (Suc 0)) p = (Ret, p1) \<and> run_batches example_process_env (Suc (Suc (Suc (Suc 0)))) (one_batch (mailbox (e_heap e' g))) p1 = (Ret, p2)
     \<and> restarts_in (p_trace p2) = 1 \<and> p_user p2 = (1 :: nat)"
proof -
  obtain e :: "string engine" where e: "eng_inv e" "stream_ok (stream_pid ''local'' 5) 0 e"
    "e_Registry e = \<lparr>reg_lookup = [ID (stream_pid ''local'' 5) \<mapsto> 0], responses = Map.empty\<rparr>" by (rule example_free_engine)
  define p :: "(nat, string, string) process" where "p = newProcess (e_address e) 0 (spawn_opts ''foo'' [WithMaxRestarts 3] 6 (DefaultOpts restart_newFoo restart_foo_Receive))"
  have f: "reg_lookup (e_Registry e) (''foo/'' @ Itoa (int 6)) = None" by (simp add: e(3) stream_pid_id)
  have c: "\<forall>t. \<exists>stack. clean_trace example_process_env t = Inr stack" by (simp add: cleanTrace_def example_process_env_def)
  from restarts_program [OF e(1,2) f p_def c, where f = 0] obtain e' g where m: "restarts_main 6 e = (Inr (p_pid p), e')"
    "\<forall>bs. concat bs = mailbox (e_heap e' g) \<longrightarrow> (\<exists>p1 p2. proc_Start example_process_env (Suc (Suc 0)) p = (Ret, p1)
          \<and> run_batches example_process_env (Suc (Suc (Suc (Suc 0)))) bs p1 = (Ret, p2) \<and> restarts_in (p_trace p2) = 1 \<and> p_user p2 = 1
          \<and> acts_in (p_trace p2) = [''foo started'', ''foo started'', ''I restarted and processed the next one perfectly: hello world!''])"
    by (elim exE conjE) (rule that)
  from m(2) [rule_format, OF one_batch] m(1) show ?thesis by blast
qed

theorem hooks_program_witness:
  "\<exists>(e :: string engine) (p :: (unit, string, string) process) ctx e' g p1 p2. hooks_main 6 e = (Inr (p_pid p, ctx), e')
     \<and> proc_Start example_process_env (Suc 0) p = (Ret, p1) \<and> run_batches example_process_env (Suc 0) (one_batch (mailbox (e_heap e' g))) p1 = (Ret, p2)
     \<and> acts_in (p_trace p2) = [''foo initialized'', ''foo started'', ''foo stopped'']"
proof -
  obtain e :: "string engine" where e: "eng_inv e" "stream_ok (stream_pid ''local'' 5) 0 e"
    "e_Registry e = \<lparr>reg_lookup = [ID (stream_pid ''local'' 5) \<mapsto> 0], responses = Map.empty\<rparr>" by (rule example_free_engine)
  define p :: "(unit, string, string) process" where "p = newProcess (e_address e) () (spawn_opts ''foo'' [WithMiddleware [WithHooks (Some foo_hooker)]] 6 (DefaultOpts newFoo hook_foo_Receive))"
  have f: "reg_lookup (e_Registry e) (''foo/'' @ Itoa (int 6)) = None" by (simp add: e(3) stream_pid_id)
  from hooks_program [OF e(1,2) f p_def, where f = 0 and \<epsilon> = example_process_env] obtain ctx e' g where m: "hooks_main 6 e = (Inr (p_pid p, ctx), e')"
    "\<forall>bs. concat bs = mailbox (e_heap e' g) \<longrightarrow> (\<exists>p1 p2. proc_Start example_process_env (Suc 0) p = (Ret, p1) \<and> run_batches example_process_env (Suc 0) bs p1 = (Ret, p2)
        \<and> acts_in (p_trace p2) = [''foo initialized'', ''foo started'', ''foo stopped''] \<and> last (p_trace p2) = ECancel ctx)"
    by (elim exE conjE) (rule that)
  from m(2) [rule_format, OF one_batch] m(1) show ?thesis by blast
qed

theorem childprocs_program_witness:
  "\<exists>(e :: string engine) q ctx e' p'. childprocs_main 1 (foo_works 2) e = (Inr (q, ctx), e')
     \<and> proc_Start example_process_env (Suc (Suc (Suc (Suc (Suc 0))))) (newProcess (e_address e) (0, []) (spawn_opts (ID q @ pidSeparator @ ''bar'') [WithID ''msg_1''] 2
          (DefaultOpts (newBarReceiver ''msg_1'') bar_Receive))) = (Ret, p') \<and> restarts_in (p_trace p') = 2"
proof -
  obtain e :: "string engine" where e: "eng_inv e" "stream_ok (stream_pid ''local'' 5) 0 e"
    "e_Registry e = \<lparr>reg_lookup = [ID (stream_pid ''local'' 5) \<mapsto> 0], responses = Map.empty\<rparr>" by (rule example_free_engine)
  define q where "q = NewPID (e_address e) (''foo/'' @ Itoa (int 1))"
  have f: "reg_lookup (e_Registry e) (ID q) = None" "reg_lookup (e_Registry e) (ID (NewPID (e_address e) (ID q @ ''/bar/msg_1''))) = None"
    by (simp_all add: e(3) stream_pid_id q_def)
  have c: "\<forall>t. \<exists>stack. clean_trace example_process_env t = Inr stack" by (simp add: cleanTrace_def example_process_env_def)
  from childprocs_program [OF e(1,2) q_def refl f refl c, of 2 0] show ?thesis by (elim exE conjE) (intro exI conjI, assumption, assumption, assumption)
qed

theorem evmonitor_program_witness:
  "\<exists>(e :: mon_msg engine) ctx e'. evmonitor_main 1 2 (\<lambda>_ _ e. e) (\<lambda>e. e) (evmonitor_works 9 \<lparr>crashes = 4, starts = 6, stops = 1, deadletters = 0\<rparr>) e
     = (Inr (Inr (observed \<lparr>crashes = 4, starts = 6, stops = 1, deadletters = 0\<rparr> @ [''done''], ctx)), e')"
proof -
  obtain e :: "mon_msg engine" where e: "eng_inv e" "stream_ok (stream_pid ''local'' 5) 0 e"
    "e_Registry e = \<lparr>reg_lookup = [ID (stream_pid ''local'' 5) \<mapsto> 0], responses = Map.empty\<rparr>" by (rule example_free_engine)
  have n: "no_response_ids e" by (simp add: no_response_ids_def e(3) stream_pid_id responsePrefix_def pidSeparator_def)
  have f: "reg_lookup (e_Registry e) (ID (NewPID (e_address e) (''monitor/'' @ Itoa (int 1)))) = None"
    "reg_lookup (e_Registry e) (ID (NewPID (e_address e) (''unstable_actor/'' @ Itoa (int 2)))) = None" by (simp_all add: e(3) stream_pid_id)
  show ?thesis using evmonitor_program [OF e(1,2) n refl refl f, of "\<lambda>_ _ e. e" "\<lambda>e. e" 9 "\<lparr>crashes = 4, starts = 6, stops = 1, deadletters = 0\<rparr>"] by blast
qed

end
