(* ===== verification/ClusterMains.thy ===== *)
theory ClusterMains
  imports RegionStrategy Cluster Starters
begin

section \<open>Two members of a cluster (examples/cluster)\<close>

text \<open>
  Two programs that start a node each. The first waits for the second to join, activates a player
  and sends it a message. What the nodes do when they start and when they hear of each other is put
  together from the engine, the cluster node and the agent.
\<close>

subsection \<open>The player\<close>

definition shared_NewPlayer :: "unit \<Rightarrow> unit \<times> cmsg panic_val option" where
  "shared_NewPlayer u = ((), None)"

definition shared_Player_Receive :: "(unit, cmsg, string) receive_func" where
  "shared_Player_Receive c u = (case cv_message c of
      Started \<Rightarrow> (u, [], None)
    | User (TestMessage data) \<Rightarrow> (u, [Act data], None)
    | _ \<Rightarrow> (u, [], None))"

definition player_says :: "cmsg msg \<Rightarrow> string list" where
  "player_says m = (case m of User (TestMessage data) \<Rightarrow> [data] | _ \<Rightarrow> [])"

lemma player_prints: "shared_Player_Receive = printer player_says"
  by (simp add: fun_eq_iff shared_Player_Receive_def printer_def player_says_def split: msg.split cmsg.split)

subsection \<open>The members\<close>

text \<open>The functions they spawn; \<open>env\<close> is what the others do while \<open>Activate\<close> waits.\<close>

definition member1_event :: "(cmsg engine \<Rightarrow> cmsg engine) \<Rightarrow> nat \<Rightarrow> nat \<Rightarrow> ('p, 'v) cluster \<Rightarrow> cmsg actor_context \<Rightarrow> (cmsg, string list) act" where
  "member1_event env random pick c ctx =
     (case c_message ctx of
        User (ActivationEvent _) \<Rightarrow> ret [''got activation event'']
      | User (MemberJoinEvent m) \<Rightarrow>
          if m_ID m = ''B'' then
            (let config = ac_WithRegion ''us-west'' (ac_WithID ''bob'' (NewActivationConfig random pick)) in
             (\<lambda>e. case cluster_Activate env ''playerSession'' config c e of
                (playerPID, r, e1) \<Rightarrow> bindA (\<lambda>_. of_send (r, e1))
                  (\<lambda>_ e2. bindA (\<lambda>_. of_send (ctx_Send playerPID (User (TestMessage ''hello from member 1'')) ctx e2)) (\<lambda>_. ret []) e2) e))
          else ret []
      | _ \<Rightarrow> ret [])"

text \<open>What the second prints: the activation, or the type of the message.\<close>

datatype member2_print = GotActivation "pid option" | GotType "cmsg msg"

definition member2_event :: "cmsg actor_context \<Rightarrow> (cmsg, member2_print list) act" where
  "member2_event ctx = (case c_message ctx of
      User (Activation q) \<Rightarrow> ret [GotActivation q]
    | m \<Rightarrow> ret [GotType m])"

definition member1_config :: "nat \<Rightarrow> nat \<Rightarrow> 'v \<Rightarrow> ('v, 'e) config" where
  "member1_config port i prov = cfg_WithRegion ''eu-west'' (WithListenAddr ''127.0.0.1:3000'' (cfg_WithID ''A'' (NewConfig port i prov)))"

definition member2_config :: "nat \<Rightarrow> nat \<Rightarrow> 'v \<Rightarrow> ('v, 'e) config" where
  "member2_config port i prov = cfg_WithRegion ''us-west'' (WithListenAddr ''127.0.0.1:3001'' (cfg_WithID ''B'' (NewConfig port i prov)))"

text \<open>
  The mains on the node \<open>c\<close> that \<open>New\<close> made of the configuration, up to the wait for ever. \<open>a\<close> is the
  address of the PID they subscribe; the options are those of agent and provider.
\<close>

definition member1_main :: "nat \<Rightarrow> nat \<Rightarrow> nat \<Rightarrow> nat \<Rightarrow> 'p \<Rightarrow> ('u, cmsg, 'x) opts \<Rightarrow> ('w, cmsg, 'y) opts \<Rightarrow> ('p, 'v) cluster \<Rightarrow> (cmsg, pid \<times> ('p, 'v) cluster) act" where
  "member1_main a random r1 r2 newPlayer agentOpts providerOpts c =
     (let c1 = RegisterKind ''playerSession'' newPlayer NewKindConfig c in
      bindA (a_Spawn ''event'' [] random (DefaultOpts newFuncReceiver (\<lambda>_ u. (u, [], None)) :: (unit, cmsg, string) opts)) (\<lambda>eventPID.
      bindA (a_Subscribe (a, eventPID)) (\<lambda>_ e.
        case cluster_Start agentOpts providerOpts r1 r2 c1 e of (r, c', e') \<Rightarrow> bindA (\<lambda>_. of_send (r, e')) (\<lambda>_. ret (eventPID, c')) e)))"

definition member2_main :: "nat \<Rightarrow> nat \<Rightarrow> nat \<Rightarrow> nat \<Rightarrow> 'p \<Rightarrow> ('u, cmsg, 'x) opts \<Rightarrow> ('w, cmsg, 'y) opts \<Rightarrow> ('p, 'v) cluster \<Rightarrow> (cmsg, pid \<times> ('p, 'v) cluster) act" where
  "member2_main a random r1 r2 newPlayer agentOpts providerOpts c =
     bindA (a_Spawn ''event'' [] random (DefaultOpts newFuncReceiver (\<lambda>_ u. (u, [], None)) :: (unit, cmsg, member2_print) opts)) (\<lambda>eventPID.
     bindA (a_Subscribe (a, eventPID)) (\<lambda>_ e.
       let c1 = RegisterKind ''playerSession'' newPlayer NewKindConfig c in
       case cluster_Start agentOpts providerOpts r1 r2 c1 e of (r, c', e') \<Rightarrow> bindA (\<lambda>_. of_send (r, e')) (\<lambda>_. ret (eventPID, c')) e))"

text \<open>Both mains do the same to the engine.\<close>

lemma members_alike: "member2_main = (member1_main :: nat \<Rightarrow> nat \<Rightarrow> nat \<Rightarrow> nat \<Rightarrow> 'p \<Rightarrow> ('u, cmsg, 'x) opts \<Rightarrow> ('w, cmsg, 'y) opts \<Rightarrow> ('p, 'v) cluster \<Rightarrow> _)"
proof -
  have "(a_Spawn ''event'' [] r (DefaultOpts newFuncReceiver (\<lambda>_ u. (u, [], None)) :: (unit, cmsg, member2_print) opts)) =
    a_Spawn ''event'' [] r (DefaultOpts newFuncReceiver (\<lambda>_ u. (u, [], None)) :: (unit, cmsg, string) opts)" for r
    by (simp add: fun_eq_iff a_Spawn_def Spawn_plain)
  then show ?thesis unfolding member1_main_def member2_main_def Let_def by presburger
qed

text \<open>
  A member program starts its node. On an engine where the names are free the function is spawned
  and subscribed before the agent and the provider, and the node announces itself with its id,
  its address, its region and the kind of the player.
\<close>

theorem member_starts:
  fixes ao :: "('u, cmsg, 'x) opts" and po :: "('w, cmsg, 'y) opts" and c :: "('p, 'v) cluster"
  assumes "eng_inv e" "stream_ok es h e" "e_address e = cl_address c" "cfg_id (cl_config c) \<noteq> []" "\<not> cl_isStarted c" "cl_kinds c = []"
    "reg_lookup (e_Registry e) (ID (member_PID (cluster_Member c))) = None" "reg_lookup (e_Registry e) (ID (memberToProviderPID (cluster_Member c))) = None"
    "reg_lookup (e_Registry e) (''event/'' @ Itoa (int random)) = None" "e_heap e h = ProcObj es mb"
  shows "\<exists>c' e'. member1_main a random r1 r2 newPlayer ao po c e = (Inr (NewPID (e_address e) (''event/'' @ Itoa (int random)), c'), e')
    \<and> cluster_Member c' = \<lparr>m_ID = cfg_id (cl_config c), m_Host = e_address e, m_Region = cfg_region (cl_config c), m_Kinds = [''playerSession'']\<rparr>
    \<and> cl_agentPID c' = Some (member_PID (cluster_Member c')) \<and> cl_providerPID c' = Some (memberToProviderPID (cluster_Member c'))
    \<and> e_heap e' h = ProcObj es (mb @ [\<lparr>Msg = EventSub (a, NewPID (e_address e) (''event/'' @ Itoa (int random))), Sender = None\<rparr>])"
proof -
  let ?q = "NewPID (e_address e) (''event'' @ pidSeparator @ Itoa (int random))"
  let ?c1 = "RegisterKind ''playerSession'' newPlayer NewKindConfig c"
  have q: "?q = NewPID (e_address e) (''event/'' @ Itoa (int random))" by (simp add: pidSeparator_def)
  have "reg_lookup (e_Registry e) (ID ?q) = None" using assms(9) by (simp add: pidSeparator_def)
  from a_Spawn_free [OF assms(1,2) refl this, where i = newFuncReceiver and r = "\<lambda>_ u. (u, [], None)"] obtain e1 where
    e1: "a_Spawn ''event'' [] random (DefaultOpts newFuncReceiver (\<lambda>_ u. (u, [], None)) :: (unit, cmsg, string) opts) e = (Inr ?q, e1)" "eng_inv e1" "stream_ok es h e1"
    "e_heap e1 = (e_heap e)(e_size e := ProcObj ?q [])" "e_address e1 = e_address e" "reg_lookup (e_Registry e1) = (reg_lookup (e_Registry e))(ID ?q \<mapsto> e_size e)" "e_size e1 = Suc (e_size e)"
    by blast
  have hk: "h < e_size e" using assms(1,2) by (auto simp: eng_inv_def stream_ok_def)
  define e2 where "e2 = streamed h [EventSub (a, ?q)] e1"
  have s: "a_Subscribe (a, ?q) e1 = (Inr (), e2)" using to_stream(2) [OF e1(3)] by (simp add: e2_def)
  have k2: "stream_ok es h e2" "e_Registry e2 = e_Registry e1" "e_address e2 = e_address e" "e_size e2 = e_size e1"
    "e_heap e2 h = ProcObj es (mb @ [\<lparr>Msg = EventSub (a, ?q), Sender = None\<rparr>])"
    using streamed_ok [OF e1(3)] e1(4,5) assms(10) hk by (simp_all add: e2_def) (simp add: streamed_def)
  have i2: "eng_inv e2" using streamed_inv [OF e1(2)] by (simp add: e2_def)
  have c1: "cluster_Member ?c1 = \<lparr>m_ID = cfg_id (cl_config c), m_Host = e_address e, m_Region = cfg_region (cl_config c), m_Kinds = [''playerSession'']\<rparr>"
    "cl_address ?c1 = cl_address c" "cl_config ?c1 = cl_config c" using assms(3,5,6) by (simp_all add: RegisterKind_def cluster_Member_def newKind_def)
  have pids: "member_PID (cluster_Member ?c1) = member_PID (cluster_Member c)" "memberToProviderPID (cluster_Member ?c1) = memberToProviderPID (cluster_Member c)"
    using assms(5) by (simp_all add: RegisterKind_def member_PID_def memberToProviderPID_def cluster_Member_def)
  have free: "reg_lookup (e_Registry e2) (ID (member_PID (cluster_Member ?c1))) = None" "reg_lookup (e_Registry e2) (ID (memberToProviderPID (cluster_Member ?c1))) = None"
    unfolding pids using assms(7,8) k2(2) e1(6) by (simp_all add: member_PID_def memberToProviderPID_def)
  have "e_address e2 = cl_address ?c1" "cfg_id (cl_config ?c1) \<noteq> []" using k2(3) c1(2,3) assms(3,4) by simp_all
  then obtain e3 where e3: "cluster_Start ao po r1 r2 ?c1 e2 = (SDone, ?c1\<lparr>cl_agentPID := Some (member_PID (cluster_Member ?c1)),
      cl_providerPID := Some (memberToProviderPID (cluster_Member ?c1)), cl_isStarted := True\<rparr>, e3)" "\<forall>g < e_size e2. e_heap e3 g = e_heap e2 g"
    using Start_eq [OF i2 k2(1) _ _ free, of ao po r1 r2] by metis
  show ?thesis
    using e1(1) s e3 k2(4,5) c1(1) hk e1(7) q
    by (intro exI [of _ "?c1\<lparr>cl_agentPID := Some (member_PID (cluster_Member ?c1)), cl_providerPID := Some (memberToProviderPID (cluster_Member ?c1)), cl_isStarted := True\<rparr>"] exI [of _ e3])
      (simp add: member1_main_def bindA_run ret_def Let_def cluster_Member_def)
qed

subsection \<open>Sends beside an open request\<close>

lemma send_keeps_response:
  assumes "stream_ok es h e" "good_letter es h e (q, m, src)" "e_heap e k = RespObj rid v t" "a_Send q m src e = (Inr (), e')"
  shows "e_heap e' k = RespObj rid v t"
  using assms SendWithSender_arrives [OF assms(1), of q m src]
  by (cases "route es h q m src e") (auto simp: a_Send_def arrive_def good_letter_def proc_send_def)

lemma posts_keep_response:
  assumes "stream_ok es h e" "\<forall>l \<in> set ls. good_letter es h e l" "e_heap e k = RespObj rid v t" "post_all ls e = (Inr (), e')"
  shows "e_heap e' k = RespObj rid v t"
  using assms
proof (induction ls arbitrary: e)
  case (Cons l ls)
  obtain q m src where l: "l = (q, m, src)" by (metis prod_cases3)
  have "good_letter es h e (q, m, src)" using Cons.prems(2) l by simp
  then obtain e1 where e1: "a_Send q m src e = (Inr (), e1)" "same_routes e e1" by (rule post_one [OF Cons.prems(1)])
  have "stream_ok es h e1" using same_shape_stream Cons.prems(1) e1(2) by (auto simp: same_routes_def)
  moreover have "\<forall>l \<in> set ls. good_letter es h e1 l" using Cons.prems(2) same_routes_letters(1) [OF e1(2)] by auto
  moreover have "e_heap e1 k = RespObj rid v t" using send_keeps_response [OF Cons.prems(1) _ Cons.prems(3) e1(1)] Cons.prems(2) l by simp
  moreover have "post_all ls e1 = (Inr (), e')" using Cons.prems(4) l e1(1) by (simp add: post_all_simps bindA_run)
  ultimately show ?case by (rule Cons.IH)
qed (simp add: post_all_simps)

lemma posts_awaiting:
  assumes "stream_ok es h e" "\<forall>l \<in> set ls. good_letter es h e l" "awaiting k rid v e" "post_all ls e = (Inr (), e')" "same_routes e e'"
  shows "awaiting k rid v e'"
  using posts_keep_response [OF assms(1,2) _ assms(4)] assms(3,5) unfolding awaiting_def same_routes_def same_shape_def by metis

text \<open>Spawning under a free id, too.\<close>

lemma spawn_awaiting:
  assumes "awaiting k rid v e" "k < e_size e" "eng_inv e" "reg_lookup (e_Registry e) (ID q) = None" "ID q \<noteq> ID rid" "SpawnProc (ProcObj q []) e = (q, SDone, e')"
  shows "awaiting k rid v e'"
  using assms SpawnProc_free [OF assms(3), of "ProcObj q []"] by (auto simp: awaiting_def)

lemma run_calls_sends:
  assumes "post_all (map (\<lambda>x. (f x, m, None)) xs) e = (Inr (), e')"
  shows "run_calls mk src (map (\<lambda>x. CSend (f x) m) xs @ cs) e = run_calls mk src cs e'"
  using assms
proof (induction xs arbitrary: e)
  case (Cons x xs)
  obtain e1 where "a_Send (f x) m None e = (Inr (), e1)" "post_all (map (\<lambda>x. (f x, m, None)) xs) e1 = (Inr (), e')"
    using Cons.prems by (auto simp: post_all_simps bindA_def split: prod.splits sum.splits)
  moreover from this(1) have "eng_Send (f x) m e = (SDone, e1)"
    by (cases "eng_Send (f x) m e" rule: of_send.cases) (simp_all add: a_Send_def eng_Send_def SendWithSender_def)
  ultimately show ?case using Cons.IH by (simp add: run_call_def)
qed (simp add: post_all_simps)

subsection \<open>The activation of the player\<close>

text \<open>Only this node lives at its address.\<close>

definition sole_member :: "('p, 'v) cluster \<Rightarrow> 'p agent \<Rightarrow> bool" where
  "sole_member c a \<longleftrightarrow> (\<forall>m \<in> ran (ms_members (ag_members a)). m_Host m = ag_address a \<longrightarrow> cl_agentPID c = Some (member_PID m))"

lemma good_member:
  assumes "stream_ok es h e" "sole_member c a" "ag_address a = e_address e" "m \<in> ran (ms_members (ag_members a))"
    "\<And>p. cl_agentPID c = Some p \<Longrightarrow> \<exists>g x mb. reg_get (Some p) (e_Registry e) = Some g \<and> e_heap e g = ProcObj x mb"
  shows "good_letter es h e (Some (member_PID m), x, src)"
proof (cases "m_Host m = e_address e")
  case True
  then obtain g y mb where "reg_get (Some (member_PID m)) (e_Registry e) = Some g" "e_heap e g = ProcObj y mb"
    using assms(2-5) by (auto simp: sole_member_def)
  then show ?thesis using True by (simp add: good_letter_def route_def member_PID_def)
next
  case False
  then show ?thesis using assms(1) by (auto simp: good_letter_def route_def member_PID_def stream_ok_def)
qed

lemma Request_size:
  fixes e :: "'a engine"
  assumes "Request q m tmo e = (k, r, e1)"
  shows "k = e_size e" "e_size e1 = Suc (e_size e)"
proof -
  have "e_size (snd (SendWithSender q' m' src e2)) = e_size e2" for q' m' src and e2 :: "'a engine"
    using sends_shape(1) [of e2 send_fuel q' m' src] by (simp add: SendWithSender_def same_shape_def)
  then have "fst (Request q m tmo e) = e_size e" "e_size (snd (snd (Request q m tmo e))) = Suc (e_size e)"
    by (simp_all add: Request_def NewResponse_def alloc_def Let_def)
  then show "k = e_size e" "e_size e1 = Suc (e_size e)" using assms by simp_all
qed

text \<open>When the member chosen is this node, \<open>Activate\<close> returns the PID of a fresh actor here, whose inbox is empty.\<close>

lemma activated_here:
  fixes a :: "'p agent" and mk :: "'p \<Rightarrow> ('u, cmsg, 'x) opts" and c :: "('p, 'v) cluster"
  assumes "node_up c g e" "stream_ok es h e" "sole_member c a" "ag_address a = e_address e" "agent_inv a" "ranges_ok U rs" "ms_ids (ag_members a) \<subseteq> U"
    "chosen rs 0 kind cfg a = Some m" "m_Host m = ag_address a" "ag_localKinds a kind = Some kd"
    "q = spawn_pid (e_address e) kind (ac_id cfg) 0" "reg_lookup (e_Registry e) (ID q) = None" "ID q \<noteq> ID (response_pid e)"
  shows "\<exists>e'. cluster_Activate (serve rs mk g a) kind cfg c e = (Some q, SDone, e') \<and> stream_ok es h e' \<and> local_actor q (Suc (e_size e)) e'
    \<and> e_heap e' (Suc (e_size e)) = ProcObj q []"
proof -
  let ?rid = "response_pid e" and ?m = "User (ReqActivate kind cfg) :: cmsg msg" and ?v = "User (RepPid (Some q)) :: cmsg msg"
  obtain p x mb where n: "eng_inv e" "cl_agentPID c = Some p" "Address p = e_address e" "reg_lookup (e_Registry e) (ID p) = Some g" "e_heap e g = ProcObj x mb"
    "ID p \<noteq> ID ?rid" "reg_lookup (e_Registry e) (ID ?rid) = None" using assms(1) by (auto simp: node_up_def)
  obtain k r e1 where req: "Request (Some p) ?m (requestTimeout (cl_config c)) e = (k, r, e1)" by (metis prod_cases3)
  note hd = Request_handed [OF n(1) assms(2) n(3-5) req]
  have "reg_getByID (ID ?rid) (e_Registry e) = None" "\<forall>p'. Some p = Some p' \<longrightarrow> ID p' \<noteq> ID ?rid" using n(6,7) by (auto simp: reg_getByID_def)
  note aw = Request_awaiting [OF n(1) assms(2) this req]
  have i1: "eng_inv e1" using Request_inv [OF n(1), of "Some p" ?m] req by (metis snd_conv)
  have k1: "k = e_size e" "e_size e1 = Suc (e_size e)" using Request_size [OF req] by simp_all
  define told where "told = ms_visit (r_members rs SiteBcast (ms_members (ag_members a))) (ag_members a)"
  have told: "set told = ran (ms_members (ag_members a))" using bcast_everyone [OF assms(5-7), of SiteBcast] by (simp add: told_def everyone_def)
  let ?sends = "map (\<lambda>x. CSend (Some (member_PID x)) (User (Activation (Some q)))) told"
  have calls: "agent_Receive rs 0 0 None ?m a = (a, CSpawn (kind_producer kd) kind (ac_id cfg) 0 # ?sends @ [CRespond ?v], None)"
    using activate_local [OF assms(8,9), of 0 None] assms(4,10,11)
    by (simp add: agent_Receive_def bcast_eq told_def and_then_def Agent.emit_def Let_def)
  have lk: "Address q = e_address e1" "reg_lookup (e_Registry e1) (ID q) = None" using assms(11,12) hd(3,4) by (simp_all add: spawn_pid_def)
  obtain e2 where e2: "SpawnProc (ProcObj q []) e1 = (q, SDone, e2)" "eng_inv e2" "stream_ok es h e2" "local_actor q (e_size e1) e2"
    "e_heap e2 = (e_heap e1)(e_size e1 := ProcObj q [])" "e_address e2 = e_address e1" "reg_lookup (e_Registry e2) = (reg_lookup (e_Registry e1))(ID q \<mapsto> e_size e1)"
    using SpawnProc_actor [OF i1 aw(2) lk] by metis
  have aw2: "awaiting k ?rid None e2" by (rule spawn_awaiting [OF aw(1) _ i1 lk(2) assms(13) e2(1)]) (simp add: k1)
  let ?ls = "map (\<lambda>x. (Some (member_PID x), User (Activation (Some q)), None)) told :: cmsg letter list"
  have "\<exists>g x mb. reg_get (Some p) (e_Registry e2) = Some g \<and> e_heap e2 g = ProcObj x mb"
    using e2(5,7) hd(2,4) n(4) assms(12) by (auto simp: reg_get_def)
  then have good: "\<forall>l \<in> set ?ls. good_letter es h e2 l"
    using good_member [OF e2(3) assms(3)] assms(4) e2(6) hd(3) told n(2) by fastforce
  from post_all_delivers [OF e2(3) this] obtain e3 where e3: "post_all ?ls e2 = (Inr (), e3)" "same_routes e2 e3"
    "\<forall>g p mb. e_heap e2 g = ProcObj p mb \<longrightarrow> e_heap e3 g = ProcObj p (mb @ concat (map (mail_for es h e2 g) ?ls))" by blast
  have s3: "stream_ok es h e3" "eng_inv e3" using same_shape_stream [OF _ e2(3)] same_shape_inv [OF _ e2(2)] e3(2) by (auto simp: same_routes_def)
  have aw3: "awaiting k ?rid None e3" by (rule posts_awaiting [OF e2(3) good aw2 e3(1,2)])
  obtain e4 where e4: "eng_Send (Some ?rid) ?v e3 = (SDone, e4)" "awaiting k ?rid (Some ?v) e4" "stream_ok es h e4" "\<forall>g. g \<noteq> k \<longrightarrow> e_heap e4 g = e_heap e3 g"
    using reply_awaiting(1) [OF s3(1) aw3] by blast
  have "Spawn kind [WithID (ac_id cfg)] 0 (mk (kind_producer kd)) e1 = (q, SDone, e2)" using e2(1) assms(11) hd(3) by (simp add: Spawn_eq)
  then have "run_calls mk (Some ?rid) (CSpawn (kind_producer kd) kind (ac_id cfg) 0 # ?sends @ [CRespond ?v]) e1 = (SDone, e4)"
    using e4(1) by (simp add: run_call_def run_calls_sends [OF e3(1)])
  then have w: "serve rs mk g a e1 = e4" using hd(2) calls by (simp add: serve_def)
  have sh4: "same_shape e3 e4" using sends_shape(1) e4(1) by (metis eng_Send_def snd_conv)
  obtain e5 where e5: "Result k e4 = (Some ?v, e5)" "stream_ok es h e5" "reg_lookup (e_Registry e5) = reg_lookup (e_Registry e4)" "e_address e5 = e_address e4"
    "\<forall>g. g \<noteq> k \<longrightarrow> e_heap e5 g = e_heap e4 g"
    by (rule Result_keeps [OF e4(2) same_shape_inv [OF sh4 s3(2)] e4(3)])
  have lt: "g < e_size e" "h < e_size e" using n(1,4) assms(2) by (auto simp: eng_inv_def stream_ok_def)
  have "reg_get (Some p) (e_Registry e2) = Some g" using e2(7) hd(4) n(4) assms(12) by (auto simp: reg_get_def)
  then have "mail_for es h e2 (e_size e1) (Some (member_PID x), y, src) = []" if "x \<in> set told" for x y src
    using that told assms(3,4) n(2) lt k1(2) e2(6) hd(3) by (auto simp: sole_member_def mail_for_def route_def member_PID_def)
  then have "concat (map (mail_for es h e2 (e_size e1)) ?ls) = []" by auto
  then have "e_heap e5 (e_size e1) = ProcObj q []" using e5(5) e4(4) e3(3) e2(5) k1 by simp
  moreover have "reg_lookup (e_Registry e5) = reg_lookup (e_Registry e2)" "e_address e5 = e_address e1"
    using e5(3,4) sh4 e3(2) e2(6) by (simp_all add: same_shape_def same_routes_def)
  ultimately have "local_actor q (Suc (e_size e)) e5" "e_heap e5 (Suc (e_size e)) = ProcObj q []" using e2(7) lk(1) k1(2) by (simp_all add: local_actor_def reg_get_def)
  then show ?thesis using req hd(1) w e5(1,2) n(2) by (simp add: cluster_Activate_def ask_def)
qed

text \<open>
  C37. The first member greets the player it activates. When it hears that B has joined, and the
  default selection picks its own node (which it may, although the program asks for the region
  us-west), the agent spawns the player here, tells every member and answers; the function then
  sends its message, which is all the player's inbox holds and what the player prints.
\<close>

theorem member1_greets:
  fixes a :: "'p agent" and mk :: "'p \<Rightarrow> ('u, cmsg, 'x) opts" and c :: "('p, 'v) cluster" and p :: "(unit, cmsg, string) process"
  assumes "node_up c g e" "stream_ok es h e" "sole_member c a" "ag_address a = e_address e" "agent_inv a" "ranges_ok U rs" "ms_ids (ag_members a) \<subseteq> U"
    "chosen rs 0 ''playerSession'' (ac_WithRegion ''us-west'' (ac_WithID ''bob'' (NewActivationConfig random pick))) a = Some m" "m_Host m = ag_address a"
    "ag_localKinds a ''playerSession'' = Some kd" "reg_lookup (e_Registry e) ''playerSession/bob'' = None"
    "c_message ctx = User (MemberJoinEvent b)" "m_ID b = ''B''" "p_receive p = shared_Player_Receive"
  shows "\<exists>e' k. member1_event (serve rs mk g a) random pick c ctx e = (Inr [], e') \<and> local_actor (NewPID (e_address e) ''playerSession/bob'') k e'
    \<and> mailbox (e_heap e' k) = [\<lparr>Msg = User (TestMessage ''hello from member 1''), Sender = Some (c_pid ctx)\<rparr>]
    \<and> (\<exists>p'. proc_Invoke \<epsilon> (Suc f) (mailbox (e_heap e' k)) p = (Ret, p') \<and> acts_in (p_trace p') = acts_in (p_trace p) @ [''hello from member 1''])"
proof -
  let ?cfg = "ac_WithRegion ''us-west'' (ac_WithID ''bob'' (NewActivationConfig random pick))" and ?q = "NewPID (e_address e) ''playerSession/bob''"
  let ?m = "User (TestMessage ''hello from member 1'') :: cmsg msg"
  let ?mail = "\<lparr>Msg = ?m, Sender = Some (c_pid ctx)\<rparr> :: cmsg envelope"
  have q: "?q = spawn_pid (e_address e) ''playerSession'' (ac_id ?cfg) 0" by (simp add: spawn_pid_def ac_WithRegion_def ac_WithID_def pidSeparator_def)
  have fresh: "reg_lookup (e_Registry e) (ID ?q) = None" "ID ?q \<noteq> ID (response_pid e)" using assms(11) by (simp_all add: response_pid_def responsePrefix_def)
  obtain e1 where e1: "cluster_Activate (serve rs mk g a) ''playerSession'' ?cfg c e = (Some ?q, SDone, e1)" "stream_ok es h e1"
    "local_actor ?q (Suc (e_size e)) e1" "e_heap e1 (Suc (e_size e)) = ProcObj ?q []"
    using activated_here [OF assms(1-10) q fresh] by blast
  let ?e2 = "e1\<lparr>e_heap := (e_heap e1)(Suc (e_size e) := ProcObj ?q [?mail])\<rparr>"
  have "a_Send (Some ?q) ?m (Some (c_pid ctx)) e1 = (Inr (), ?e2)" using a_Send_local [OF e1(2-4)] by simp
  then have "member1_event (serve rs mk g a) random pick c ctx e = (Inr [], ?e2)"
    using e1(1) assms(12,13) by (simp add: member1_event_def bindA_run ret_def Let_def a_Send_def ctx_Send_def)
  moreover have "local_actor ?q (Suc (e_size e)) ?e2" using e1(3) by (auto simp: local_actor_def)
  moreover have "\<exists>p'. proc_Invoke \<epsilon> (Suc f) [?mail] p = (Ret, p') \<and> printed player_says (said player_says [?mail]) p p'"
    by (rule printer_batch) (simp_all add: assms(14) player_prints no_pills_def)
  ultimately show ?thesis by (intro exI [of _ ?e2] exI [of _ "Suc (e_size e)"]) (auto simp: printed_def player_says_def simp del: proc_Invoke.simps)
qed

text \<open>Steps of the agent that put no \<open>Activation\<close> on the event stream.\<close>

definition no_activation :: "'p step_result \<Rightarrow> bool" where
  "no_activation r \<longleftrightarrow> (\<forall>q. CBroadcast (User (Activation q)) \<notin> set (fst (snd r)))"

lemma no_activation_then: "no_activation (f a) \<Longrightarrow> (\<And>a. no_activation (g a)) \<Longrightarrow> no_activation (and_then f g a)"
proof -
  assume h: "no_activation (f a)" "\<And>a. no_activation (g a)"
  obtain a1 cs r where f: "f a = (a1, cs, r)" by (metis prod_cases3)
  obtain a2 cs' r' where g: "g a1 = (a2, cs', r')" by (metis prod_cases3)
  show ?thesis using h(1) h(2) [of a1] f g by (cases r) (auto simp: no_activation_def and_then_def)
qed

lemma no_activation_each: "(\<And>x a. no_activation (f x a)) \<Longrightarrow> no_activation (each_step f xs a)"
proof (induction xs arbitrary: a)
  case (Cons x xs)
  show ?case using no_activation_then [OF Cons.prems Cons.IH [OF Cons.prems]] by simp
qed (simp add: no_activation_def)

lemma no_activation_known: "no_activation (addActivated q a)" "no_activation (removeActivated q a)"
  by (auto simp: addActivated_def removeActivated_def no_activation_def split: option.split)

lemma no_activation_evict: "no_activation (evict host ks a)"
proof (induction ks arbitrary: a)
  case (Cons k ks)
  then show ?case using no_activation_then [OF no_activation_known(2) Cons.IH] by (simp split: option.split)
qed (simp add: no_activation_def)

lemma no_activation_emit: "no_activation (Agent.emit cs a) \<longleftrightarrow> (\<forall>q. CBroadcast (User (Activation q)) \<notin> set cs)"
  by (simp add: no_activation_def Agent.emit_def)

lemmas no_activation_intros = no_activation_then no_activation_each no_activation_evict

lemma no_activation_bcast: "no_activation (bcast rs m a)"
  by (auto simp: bcast_eq no_activation_def)

lemma no_activation_activate: "no_activation (snd (agent_activate rs pick random reply kind cfg a))"
proof (cases "chosen rs pick kind cfg a")
  case None
  then show ?thesis by (simp add: activate_refused no_activation_def)
next
  case (Some m)
  show ?thesis
  proof (cases "m_Host m = ag_address a")
    case True
    then show ?thesis using activate_local [OF Some True, of random reply] no_activation_bcast [of rs _ a]
      by (auto simp: no_activation_def Let_def split: option.split)
  next
    case False
    then show ?thesis using activate_remote [OF Some False, of reply random] no_activation_bcast [of rs _ a]
      by (auto simp: no_activation_def)
  qed
qed

lemma no_activation_members: "no_activation (handleMembers rs ms a)"
proof -
  have "no_activation (memberJoin rs m a)" for m and a :: "'a agent" by (auto simp: memberJoin_def Let_def no_activation_def)
  moreover have "no_activation (memberLeave rs m a)" for m and a :: "'a agent"
    unfolding memberLeave_def Let_def by (intro no_activation_intros) (simp add: no_activation_emit)
  ultimately show ?thesis unfolding handleMembers_def Let_def by (intro no_activation_intros)
qed

lemma agent_no_activation: "no_activation (agent_Receive rs pick random reply x a)"
proof (cases x)
  case (User m)
  show ?thesis
  proof (cases m)
    case (ReqActivate kind cfg)
    obtain q r where r: "agent_activate rs pick random reply kind cfg a = (q, r)" by (cases "agent_activate rs pick random reply kind cfg a") simp
    have "no_activation (and_then (\<lambda>_. r) (Agent.emit [CRespond (User (RepPid q))]) a)"
      using no_activation_activate [of rs pick random reply kind cfg a] r by (intro no_activation_intros) (simp_all add: no_activation_emit)
    then show ?thesis by (simp add: User ReqActivate agent_Receive_def r)
  next
    case (ActivationRequest kind i region hash)
    then show ?thesis by (auto simp: User agent_Receive_def handleActivationRequest_def no_activation_emit split: option.split)
  next
    case (GetActive i kind)
    then show ?thesis by (auto simp: User agent_Receive_def handleGetActive_def no_activation_def)
  qed (simp_all add: User agent_Receive_def no_activation_emit no_activation_members no_activation_bcast handleActorTopology_def handleActivation_def handleDeactivation_def
      no_activation_intros no_activation_known)
qed (simp_all add: agent_Receive_def no_activation_emit)

text \<open>
  The second member never prints an activation. What an agent puts on the event stream is an event
  about an activation, a deactivation or a member, never the message \<open>Activation\<close> itself that the
  program looks for.
\<close>

theorem member2_misses_activations:
  assumes "CBroadcast m \<in> set (fst (snd (agent_Receive rs pick random reply x a)))" "c_message ctx = m"
  shows "member2_event ctx = ret [GotType m]"
proof -
  have "m \<noteq> User (Activation q)" for q using assms(1) agent_no_activation [of rs pick random reply x a] by (auto simp: no_activation_def)
  then show ?thesis by (simp add: member2_event_def assms(2) split: msg.split cmsg.split)
qed

subsection \<open>Witnesses\<close>

definition example_member1 :: "nat agent" where
  "example_member1 = \<lparr>ag_members = NewMemberSet [\<lparr>m_ID = ''A'', m_Host = ''127.0.0.1:3000'', m_Region = ''eu-west'', m_Kinds = [''playerSession'']\<rparr>,
       \<lparr>m_ID = ''B'', m_Host = ''127.0.0.1:3001'', m_Region = ''us-west'', m_Kinds = [''playerSession'']\<rparr>],
     ag_address = ''127.0.0.1:3000'', ag_requestTimeout = 1, ag_kinds = [''playerSession'' \<mapsto> True],
     ag_localKinds = [''playerSession'' \<mapsto> newKind ''playerSession'' 7 ()], ag_activated = Map.empty\<rparr>"

definition example_member_ids :: "string list" where
  "example_member_ids = [''A'', ''B'']"

lemma example_member1_facts:
  "agent_inv example_member1" "ranges_ok (set example_member_ids) (list_ranges example_member_ids)" "ms_ids (ag_members example_member1) \<subseteq> set example_member_ids"
  "chosen (list_ranges example_member_ids) 0 ''playerSession'' (ac_WithRegion ''us-west'' (ac_WithID ''bob'' (NewActivationConfig 1 0))) example_member1
     = Some \<lparr>m_ID = ''A'', m_Host = ''127.0.0.1:3000'', m_Region = ''eu-west'', m_Kinds = [''playerSession'']\<rparr>"
  "sole_member (c\<lparr>cl_agentPID := Some (NewPID ''127.0.0.1:3000'' ''cluster/A'')\<rparr>) example_member1"
  subgoal using NewMemberSet_inv by (auto simp: agent_inv_def example_member1_def split: if_splits)
  subgoal by (rule list_ranges_ok) (simp add: example_member_ids_def)
  subgoal unfolding example_member1_def by (simp add: example_member_ids_def)
  subgoal by (simp add: chosen_def Let_def ms_FilterByKind_def ms_visit_def range_values_def List.map_filter_simps list_ranges_def example_member_ids_def
      example_member1_def NewMemberSet_def member_HasKind_def ac_WithRegion_def ac_WithID_def NewActivationConfig_def SelectRandomMember_def del: member_HasKind_iff)
  subgoal by (auto simp: sole_member_def example_member1_def NewMemberSet_def member_PID_def ran_def split: if_splits)
  done

lemma example_member_node:
  obtains e :: "cmsg engine" and es h g where "stream_ok es h e" "e_address e = ''127.0.0.1:3000''"
    "node_up (example_cluster\<lparr>cl_agentPID := Some (NewPID ''127.0.0.1:3000'' ''cluster/A'')\<rparr>) g e" "reg_lookup (e_Registry e) ''playerSession/bob'' = None"
proof -
  let ?q = "NewPID ''127.0.0.1:3000'' ''cluster/A''" and ?es = "stream_pid ''127.0.0.1:3000'' 5"
  obtain e0 :: "cmsg engine" where e0: "eng_inv e0" "stream_ok ?es 0 e0" "e_address e0 = ''127.0.0.1:3000''"
    "e_Registry e0 = \<lparr>reg_lookup = [ID ?es \<mapsto> 0], responses = Map.empty\<rparr>" using example_addressed_engine by blast
  have "Address ?q = e_address e0" "reg_lookup (e_Registry e0) (ID ?q) = None" by (simp_all add: e0(3,4) stream_pid_id)
  from SpawnProc_actor [OF e0(1,2) this] obtain e where s: "eng_inv e" "stream_ok ?es 0 e" "e_heap e = (e_heap e0)(e_size e0 := ProcObj ?q [])" "e_address e = e_address e0"
    "reg_lookup (e_Registry e) = (reg_lookup (e_Registry e0))(ID ?q \<mapsto> e_size e0)" by metis
  then have e: "eng_inv e" "stream_ok ?es 0 e" "e_heap e (e_size e0) = ProcObj ?q []" "e_address e = ''127.0.0.1:3000''"
    "reg_lookup (e_Registry e) = [ID ?es \<mapsto> 0, ID ?q \<mapsto> e_size e0]" using e0(3,4) by simp_all
  have "node_up (example_cluster\<lparr>cl_agentPID := Some ?q\<rparr>) (e_size e0) e"
    using e by (auto simp: node_up_def stream_pid_id response_pid_def responsePrefix_def)
  then show ?thesis using that e by (simp add: stream_pid_id)
qed

theorem member1_greets_witness:
  "\<exists>(e :: cmsg engine) g k e' (p :: (unit, cmsg, string) process) (p' :: (unit, cmsg, string) process). member1_event (serve (list_ranges example_member_ids) (\<lambda>_. Cluster.example_opts) g example_member1) 1 0
       (example_cluster\<lparr>cl_agentPID := Some (NewPID ''127.0.0.1:3000'' ''cluster/A'')\<rparr>)
       (newContext background (NewPID ''127.0.0.1:3000'' ''event/1'') (User (MemberJoinEvent \<lparr>m_ID = ''B'', m_Host = ''127.0.0.1:3001'', m_Region = ''us-west'', m_Kinds = []\<rparr>))) e = (Inr [], e')
     \<and> local_actor (NewPID ''127.0.0.1:3000'' ''playerSession/bob'') k e' \<and> acts_in (p_trace p') = acts_in (p_trace p) @ [''hello from member 1'']"
proof -
  obtain e :: "cmsg engine" and es h g where e: "stream_ok es h e" "e_address e = ''127.0.0.1:3000''"
    "node_up (example_cluster\<lparr>cl_agentPID := Some (NewPID ''127.0.0.1:3000'' ''cluster/A'')\<rparr>) g e" "reg_lookup (e_Registry e) ''playerSession/bob'' = None"
    by (rule example_member_node)
  let ?b = "\<lparr>m_ID = ''B'', m_Host = ''127.0.0.1:3001'', m_Region = ''us-west'', m_Kinds = []\<rparr>"
  let ?ctx = "newContext background (NewPID ''127.0.0.1:3000'' ''event/1'') (User (MemberJoinEvent ?b)) :: cmsg actor_context"
  let ?p = "(newProcess ''127.0.0.1:3000'' () (DefaultOpts shared_NewPlayer shared_Player_Receive))\<lparr>p_receive := shared_Player_Receive\<rparr> :: (unit, cmsg, string) process"
  note f = example_member1_facts
  have "ag_address example_member1 = e_address e" "m_Host \<lparr>m_ID = ''A'', m_Host = ''127.0.0.1:3000'', m_Region = ''eu-west'', m_Kinds = [''playerSession'']\<rparr> = ag_address example_member1"
    "ag_localKinds example_member1 ''playerSession'' = Some (newKind ''playerSession'' 7 ())" "c_message ?ctx = User (MemberJoinEvent ?b)" "m_ID ?b = ''B''" "p_receive ?p = shared_Player_Receive"
    by (simp_all add: example_member1_def e(2) newContext_def)
  from member1_greets [OF e(3,1) f(5) this(1) f(1-4) this(2,3) e(4) this(4-6), of "\<lambda>_. Cluster.example_opts" example_process_env 0, unfolded e(2)] show ?thesis
    by (elim exE conjE) (rule exI [of _ e], rule exI [of _ g], intro exI conjI, assumption, assumption, assumption)
qed

theorem member2_misses_activations_witness:
  "\<exists>m. CBroadcast m \<in> set (fst (snd (agent_Receive (list_ranges example_member_ids) 0 0 None (User (Activation (Some (NewPID ''h'' ''playerSession/bob'')))) example_member1)))
     \<and> member2_event (newContext background (NewPID ''h'' ''event/1'') m) = ret [GotType m]"
proof -
  let ?q = "Some (NewPID ''h'' ''playerSession/bob'')"
  let ?m = "User (ActivationEvent ?q)"
  have "CBroadcast ?m \<in> set (fst (snd (agent_Receive (list_ranges example_member_ids) 0 0 None (User (Activation ?q)) example_member1)))"
    by (simp add: agent_Receive_def handleActivation_def addActivated_def and_then_def Agent.emit_def example_member1_def)
  moreover have "c_message (newContext background (NewPID ''h'' ''event/1'') ?m) = ?m" by (simp add: newContext_def)
  ultimately show ?thesis by (intro exI [of _ ?m] conjI member2_misses_activations)
qed

theorem member_starts_witness:
  "\<exists>(e :: cmsg engine) (c :: (nat, unit) cluster) c' e'. member1_main 9 3 1 2 7 Cluster.example_opts Cluster.example_opts c e = (Inr (NewPID ''127.0.0.1:3000'' (''event/'' @ Itoa (int 3)), c'), e')
     \<and> cluster_Member c' = \<lparr>m_ID = ''A'', m_Host = ''127.0.0.1:3000'', m_Region = ''eu-west'', m_Kinds = [''playerSession'']\<rparr>"
proof -
  let ?es = "stream_pid ''127.0.0.1:3000'' 5"
  obtain e :: "cmsg engine" where e: "eng_inv e" "stream_ok ?es 0 e" "e_address e = ''127.0.0.1:3000''" "e_heap e 0 = ProcObj ?es []"
    "e_Registry e = \<lparr>reg_lookup = [ID ?es \<mapsto> 0], responses = Map.empty\<rparr>" using example_addressed_engine by blast
  let ?c = "\<lparr>cl_config = member1_config 0 0 (), cl_address = ''127.0.0.1:3000'', cl_agentPID = None, cl_providerPID = None, cl_isStarted = False, cl_kinds = []\<rparr> :: (nat, unit) cluster"
  have "e_address e = cl_address ?c" "cfg_id (cl_config ?c) \<noteq> []" "\<not> cl_isStarted ?c" "cl_kinds ?c = []"
    "reg_lookup (e_Registry e) (ID (member_PID (cluster_Member ?c))) = None" "reg_lookup (e_Registry e) (ID (memberToProviderPID (cluster_Member ?c))) = None"
    "reg_lookup (e_Registry e) (''event/'' @ Itoa (int 3)) = None"
    by (simp_all add: e(3,5) stream_pid_id member1_config_def cfg_WithID_def cfg_WithRegion_def WithListenAddr_def member_PID_def memberToProviderPID_def cluster_Member_def)
  from member_starts [OF e(1,2) this e(4), of 9 1 2 7 Cluster.example_opts Cluster.example_opts] show ?thesis
    unfolding e(3) by (elim exE conjE) (rule exI [of _ e], rule exI [of _ ?c], intro exI conjI, assumption, simp add: member1_config_def cfg_WithID_def cfg_WithRegion_def WithListenAddr_def)
qed

end
