(* ===== verification/Spec2Isabelle.thy ===== *)
theory Spec2Isabelle
  imports RingBuffer PidSet ActorContext CrossNode ConsulProvider
    TradeEngine Persistence ChatServer TcpServer Bench Middlewares Monitor RegionStrategy Discovery Starters
    TradeMain Programs ClusterMains
begin

text \<open>
  \<^bold>\<open>A verification library for the actor framework go-actors.\<close>

  \<^bold>\<open>The program.\<close> An application spawns actors on an \<open>Engine\<close> (actor/engine.go) and sends them
  messages by PID. The engine resolves a PID in its \<open>Registry\<close> (actor/registry.go) and calls
  \<open>Send\<close> of the process it finds (actor/process.go), which puts the message into an \<open>Inbox\<close>
  (actor/inbox.go) over a lock-free multi-producer single-consumer queue (mpsc/mpsc.go). The
  inbox runs the process on a goroutine while there are messages; the process hands them to
  the receiver through a \<open>Context\<close> (actor/context.go), restarts it when it panics, and cleans
  up when a poison pill arrives. What cannot be delivered becomes an event, which the event
  stream (actor/event_stream.go), an actor itself, forwards to its subscribers. A request is
  a send whose sender is a \<open>Response\<close> (actor/response.go). A message for another address goes
  to the \<open>Remote\<close> (remote/remote.go), whose stream router keeps one stream writer per node;
  the writer packs batches into envelopes that the stream reader of the other node unpacks
  and sends locally. The cluster package runs an \<open>Agent\<close> and a provider (self-managed with
  discovery, or over Consul) as actors on the engine: the provider tells the agent the
  members, and the agents tell one another which actors are active where.

  \<^bold>\<open>Theories and sources.\<close>
  \<^item> \<open>Prelude\<close>: Go panics as values of a sum, labelled runs of a step relation (\<open>run\<close>), the
    named collections and the list and map lemmas the components share. \<open>Strconv\<close>:
    \<open>strconv.Itoa\<close>, \<open>Atoi\<close>, \<open>FormatUint\<close> and \<open>net.SplitHostPort\<close>, with their round trips.
  \<^item> \<open>RingBuffer\<close> (ringbuffer/ringbuffer.go), \<open>SafeMap\<close> (safemap/safemap.go), \<open>Pid\<close> and
    \<open>PidSet\<close> (actor/pid.go, pid_map.go): data structures, one function per method. The ring
    buffer refines a FIFO list, the safe map a keyed store and the PID set a mathematical set,
    each through a locale of \<open>Prelude\<close> (\<open>fifo_queue\<close>, \<open>keyed_store\<close>, \<open>reporting_set\<close>) and an
    interpretation on the code's operations.
  \<^item> \<open>Mpsc\<close> (mpsc/mpsc.go): the node heap, the methods, and the step relation \<open>mq_step\<close> with one
    rule per atomic access of \<open>Push\<close> and \<open>PopBatch\<close>; in every interleaving of any number of
    producers the consumer takes what was pushed, in order.
  \<^item> \<open>Inbox\<close> (actor/inbox.go): the step relation \<open>ib_step\<close> over the atomic status, with
    senders, starters and goroutines; one consumer at a time, and no lost wakeup.
  \<^item> \<open>Messages\<close> (actor/types.go, event.go, opts.go): the messages the framework knows, the
    events with their log records, options and middleware.
  \<^item> \<open>Process\<close> (actor/process.go): \<open>Start\<close>, \<open>Invoke\<close>, \<open>tryRestart\<close> and \<open>cleanup\<close> as functions of the
    process that append to a trace of effects; the messages of a batch without pills reach the
    receiver in order and at most once, through crashes and restarts. The restarts a process
    announces over its life and those it has left add up to \<open>MaxRestarts\<close>; those after an
    \<open>InternalError\<close> are not counted and have no bound. A crash while a graceful pill drains the
    batch delivers messages twice (\<open>graceful_drain_crash\<close>).
  \<^item> \<open>Registry\<close> (actor/registry.go), \<open>Engine\<close> (actor/engine.go, response.go): routing over a heap
    of processers, spawning, requests, pills, repeated sends. \<open>route\<close> is the specification of
    \<open>send\<close>; the locale \<open>startable\<close> states what the engine needs of its remote's \<open>Start\<close> and is
    interpreted in \<open>Remote\<close> on the code's; \<open>stream_ok\<close> says that the event stream is in place and \<open>eng_inv\<close> that
    registered handles are allocated under their ids. \<open>eng_op\<close> are the operations an engine is
    used with: a process keeps its name through any of them, and its inbox holds exactly what
    was addressed to it since it was spawned. \<open>SpawnProc\<close> records that a processer was started;
    what its \<open>Start\<close> does is in the theory of the processer.
  \<^item> \<open>Delivery\<close>: engine, inbox and process together: what is sent to a running process reaches
    its receiver.
  \<^item> \<open>ActorContext\<close> (actor/context.go, event_stream.go): the methods of \<open>Context\<close> as engine
    calls, and the event stream with its subscribers kept by pointer.
  \<^item> \<open>RemoteStream\<close> (remote/stream_writer.go, stream_reader.go, serialize.go): the tables of an
    envelope and the round trip. \<open>Remote\<close> (remote/remote.go, stream_router.go,
    stream_writer.go): the router over the engine, the life of a stream writer, what follows a
    failed send, and the states of the remote.
  \<^item> \<open>Varint\<close> and \<open>WireCodec\<close> (actor/actor_vtproto.pb.go, remote/remote_vtproto.pb.go): the code that
    turns PIDs, messages and envelopes into bytes and back, with its buffer accesses, wrap-around
    and errors: marshalling writes the reference encoding exactly, decoding is its inverse and
    survives every input. \<open>Serialize\<close> (remote/serialize.go, protoreg.go): the type registry and
    the vtproto serializer, which shares one message per type.
  \<^item> \<open>CrossNode\<close>: the engines of two nodes with remote, router, writer, wire and reader between
    them: what is sent on one node reaches the processes of the other, a message without a sender
    with the first sender of its batch.
  \<^item> \<open>MemberSet\<close>, \<open>ClusterConfig\<close> (cluster/member_set.go, util.go, kind.go, activation.go,
    event.go and the configuration of cluster.go), \<open>Agent\<close> and \<open>AgentActivation\<close>
    (cluster/agent.go), \<open>Cluster\<close> (cluster/cluster.go), \<open>SelfManaged\<close> (cluster/selfmanaged.go)
    and \<open>ConsulProvider\<close> (cluster/consul_provider.go). A handler of the agent or the provider
    is a step that returns the new state, the engine calls it makes and how it ended. The
    agent's members follow the reports of the provider; what an agent knows of the active actors
    is exactly what it was told, a node that joins is told what its peers know, and an
    activation has one of the stated outcomes; the node's queries return what the agent
    holds; handshake, discovery and Consul registration lead nodes to one another. What the
    Consul server shows for a registration is a parameter (\<open>catalog\<close>) with the hypothesis
    \<open>shows_registered\<close>.
  \<^item> \<open>AppActor\<close> and \<open>Acts\<close>: what the programs under examples share. A handler that calls the engine
    is a step of type \<open>act\<close> that returns a value or halts; \<open>post_all_delivers\<close> says what a series of
    sends puts into which inbox and hands to the remote. A receiver that runs on a process is a
    \<open>receive_func\<close>, and \<open>acts_in\<close> reads off its trace what it did.
  \<^item> \<open>TradeEngine\<close> (examples/trade-engine): trade engine, executors and price watchers, with the
    prices as \<open>Float64\<close>; prices reach the subscribers, but orders are never found again.
    \<open>Persistence\<close> (examples/persistance): the middleware that stores an actor's state, the player and
    the file store, with \<open>Json\<close> for its format; three locales (\<open>durable_store\<close>, \<open>durable_receiver\<close>,
    \<open>persistent_actor\<close>) say what the middleware needs, and their interpretations on the file store and the
    player give that the state survives a stop and a restart. File names are formed code point by code
    point, as the regular expression does.
  \<^item> \<open>ChatServer\<close> (examples/chat), \<open>TcpServer\<close> (examples/tcpserver), \<open>Bench\<close> (_bench/main.go), \<open>Monitor\<close>
    (examples/eventstream-monitor, request), \<open>Discovery\<close> (examples/mdns): actors over the engine: who
    receives what, and the inputs that bring them down. \<open>Middlewares\<close> (examples/middleware/hooks,
    metrics, restarts, childprocs): receivers on the process. \<open>RegionStrategy\<close> (examples/cluster/shared):
    a selection function composed with the agent's activation. \<open>Starters\<close> (examples/helloworld,
    eventstream, remote, childprocs): small programs from their \<open>main\<close> to what they print; \<open>start_actor\<close> is
    \<open>Start\<close> for receivers that call the engine while they start, with a lemma that its steps are those
    of \<open>Process\<close>. \<open>Bench\<close> starts the engines with the remotes of \<open>Remote\<close>, keeps the duration in 64 bits and its
    seconds with the rounding of \<open>Float64\<close>, and states the outcome for every setting.
  \<^item> \<open>Steady\<close>: the interface \<open>steady_actor\<close> between a program and the process that runs its actor, for
    receivers that do not panic: whatever batches the inbox forms, all messages are handled in order and a
    pill ends in the clean-up. It is interpreted on the printing, metered, hooked, persistent and
    restarted receivers. \<open>Programs\<close> (examples/persistance, request, metrics, restarts, middleware/hooks,
    childprocs, eventstream-monitor), \<open>TradeMain\<close> (examples/trade-engine/main.go) and \<open>ClusterMains\<close> (examples/cluster): the mains
    on the engine together with what the actors do with the messages they leave. What others do while a
    \<open>main\<close> waits is an argument of it, and the theorems instantiate it with the turns of the actors.

  \<^bold>\<open>Conventions.\<close> A Go panic is \<open>Inl\<close> of \<open>go_panic\<close>; a nil pointer is \<open>None\<close>. What the runtime or another
  package decides is an argument: random numbers, the clock, the order in which a map is
  ranged over (always a permutation of its keys), the answer of the network, the replies other
  goroutines give while a request waits. Pointers that the code compares or shares (queue
  nodes, processers, PIDs of subscribers) are handles into an explicit heap. Where a width
  matters a number is a word: the indices of an envelope (32 bits), the response counter and
  the hash of a PID (64 bits), counters and durations of the benchmark; lengths and counters that stay small are \<open>nat\<close> or \<open>int\<close>.

  \<^bold>\<open>Fuel.\<close> \<open>send\<close>, \<open>SendLocal\<close> and \<open>BroadcastEvent\<close> call one another; \<open>send_fuel\<close> is six nested calls,
  and \<open>send_fuel_enough\<close> shows that more never changes the outcome, \<open>event_stream_lost_diverges\<close>
  that the remaining case really recurses for ever. \<open>Invoke\<close>, \<open>tryRestart\<close> and \<open>Start\<close> call one
  another at most three times per restart left, so \<open>3 * left p + 2\<close> is enough; the theorems
  about them state that this fuel is not exhausted unless the user's code raises
  \<open>InternalError\<close>, after which the code itself restarts without a bound (\<open>internal_error_unbounded\<close>). The loops of \<open>UnmarshalVT\<close> and \<open>skip\<close> get the
  length of the data; \<open>unmarshal_never_panics\<close> shows that it suffices for every slice Go can
  hold (fewer than 2^63 bytes).

  \<^bold>\<open>What the theorems show, in the order of their claims.\<close> Delivery of messages from \<open>Send\<close> to the
  receiver and the parts it rests on (process, queue, inbox, routing); requests; pills and
  cleanup; the stream between nodes; the agents and providers of a cluster; names,
  inboxes and the event stream of an engine; the example programs; the data structures. Further theorems, which are not claims,
  treat registry, router and remote, and the cases in which the code does not do what it says
  (crash while draining, dead subscriber, leave of an unknown member, activation of an unregistered kind, concurrent activations, restart of a provider,
  messages without a sender on a stream).

  \<^bold>\<open>Not modelled.\<close> TLS, listeners and connections, the drpc server, the protobuf package, zeroconf
  and the Consul client are packages the code calls, and are arguments. Of the protobuf code
  that protoc and its plugins generate, the clone and equality methods, the reflection tables,
  the codec of the cluster messages and the stubs are left out; the wire format of envelopes
  is modelled. Debug logging has no effect on the state. Of the programs under examples, flag parsing, the
  construction of the engine and waiting for signals are left out, and with them the \<open>main\<close> functions
  of the chat, TCP server and mDNS examples that do little else; so is the
  goroutine of the benchmark that only reports, and the registration of metrics with prometheus.
\<close>

end
